(* ===== verification/Js_Prelude.thy ===== *)
theory Js_Prelude
  imports Complex_Main "HOL-Library.AList" "HOL-Library.Multiset"
begin

text \<open>
  The part of JavaScript and its standard library that the client code rests on, shared by
  every component theory:
  \<^item> numbers: \<open>jsnum\<close> is a finite number, an infinity or NaN. A finite double is
    represented by the real number it denotes, so the non-finite cases and every comparison
    with them are exact and only the rounding error of the arithmetic is left out;
  \<^item> payload values: \<open>jsval\<close>, with \<open>undefined\<close> and \<open>null\<close> kept apart, and the
    reading operators of the source (optional chaining, \<open>??\<close>, truthiness, \<open>Number()\<close>);
  \<^item> \<open>Array.prototype.sort\<close> as a stable insertion sort, \<open>Map\<close> and \<open>Set\<close> as insertion
    ordered lists, strings as lists of UTF-8 bytes.
\<close>

section \<open>Collections of lemmas\<close>

named_theorems js_simps \<open>equations of the JavaScript operators\<close>
named_theorems js_defs \<open>definitions of the model's non-recursive operations\<close>

section \<open>Numbers\<close>

datatype jsnum = Fin real | PInf | NInf | NaN

definition num_finite :: "jsnum \<Rightarrow> bool" where
  "num_finite n = (case n of Fin _ \<Rightarrow> True | _ \<Rightarrow> False)"

definition is_integer :: "real \<Rightarrow> bool" where
  "is_integer x \<longleftrightarrow> of_int \<lfloor>x\<rfloor> = x"

definition num_is_integer :: "jsnum \<Rightarrow> bool" where
  "num_is_integer n = (case n of Fin x \<Rightarrow> is_integer x | _ \<Rightarrow> False)"

text \<open>\<open>Math.round\<close> rounds halves up, \<open>Math.trunc\<close> rounds towards zero.\<close>

definition math_round :: "real \<Rightarrow> int" where
  "math_round x = \<lfloor>x + 1 / 2\<rfloor>"

definition math_trunc :: "real \<Rightarrow> int" where
  "math_trunc x = (if 0 \<le> x then \<lfloor>x\<rfloor> else \<lceil>x\<rceil>)"

text \<open>The remainder operator of the language keeps the sign of the dividend.\<close>

definition js_rem :: "real \<Rightarrow> real \<Rightarrow> real" where
  "js_rem x m = x - m * of_int (math_trunc (x / m))"

text \<open>The helper \<open>round(v, places)\<close> that several modules carry.\<close>

definition round_places :: "real \<Rightarrow> nat \<Rightarrow> real" where
  "round_places v places = of_int (math_round (v * 10 ^ places)) / 10 ^ places"

lemma is_integer_of_int [simp]: "is_integer (of_int i)"
  by (simp add: is_integer_def)

lemma is_integer_of_nat [simp]: "is_integer (of_nat n)"
  by (metis is_integer_of_int of_int_of_nat_eq)

lemma is_integerE: "is_integer x \<Longrightarrow> \<exists>i. x = of_int i"
  by (metis is_integer_def)

lemma math_round_of_int [simp]: "math_round (of_int i) = i"
  by (simp add: math_round_def)

lemma math_round_mono: "x \<le> y \<Longrightarrow> math_round x \<le> math_round y"
  by (simp add: math_round_def floor_mono)

lemma math_round_dist: "\<bar>of_int (math_round x) - x\<bar> \<le> 1 / 2"
  unfolding math_round_def by linarith

lemma math_trunc_of_int [simp]: "math_trunc (of_int i) = i"
  by (simp add: math_trunc_def)

lemma js_rem_turns: "\<exists>k::int. js_rem x y = x - y * of_int k"
  by (auto simp: js_rem_def)

lemma js_rem_range:
  assumes "0 < y"
  shows "- y < js_rem x y \<and> js_rem x y < y \<and> (0 \<le> x \<longrightarrow> 0 \<le> js_rem x y)"
proof (cases "0 \<le> x / y")
  case True
  have "of_int \<lfloor>x / y\<rfloor> \<le> x / y" "x / y < of_int \<lfloor>x / y\<rfloor> + 1" by linarith+
  then have "y * of_int \<lfloor>x / y\<rfloor> \<le> x" "x < y * of_int \<lfloor>x / y\<rfloor> + y"
    using assms pos_le_divide_eq [of y "of_int \<lfloor>x / y\<rfloor>" x] pos_divide_less_eq [of y x "of_int \<lfloor>x / y\<rfloor> + 1"]
    by (simp_all add: algebra_simps)
  with True assms show ?thesis by (simp add: js_rem_def math_trunc_def)
next
  case False
  have "x / y \<le> of_int \<lceil>x / y\<rceil>" "of_int \<lceil>x / y\<rceil> - 1 < x / y" by linarith+
  then have "x \<le> y * of_int \<lceil>x / y\<rceil>" "y * of_int \<lceil>x / y\<rceil> - y < x"
    using assms pos_divide_le_eq [of y x "of_int \<lceil>x / y\<rceil>"] pos_less_divide_eq [of y "of_int \<lceil>x / y\<rceil> - 1" x]
    by (simp_all add: algebra_simps)
  moreover have "\<not> 0 \<le> x" using False assms divide_nonneg_pos [of x y] by blast
  ultimately show ?thesis using False assms by (simp add: js_rem_def math_trunc_def)
qed

lemma round_places_idem: "round_places (round_places v p) p = round_places v p"
  by (simp add: round_places_def)

lemma round_places_dist: "\<bar>round_places v p - v\<bar> \<le> 1 / (2 * 10 ^ p)"
proof -
  have pos: "(0::real) < 10 ^ p" by simp
  have "round_places v p - v = (of_int (math_round (v * 10 ^ p)) - v * 10 ^ p) / 10 ^ p"
    by (simp add: round_places_def diff_divide_distrib)
  then have "\<bar>round_places v p - v\<bar> = \<bar>of_int (math_round (v * 10 ^ p)) - v * 10 ^ p\<bar> / 10 ^ p"
    by (simp add: abs_divide)
  also have "\<dots> \<le> (1 / 2) / 10 ^ p"
    by (intro divide_right_mono math_round_dist) simp
  finally show ?thesis by simp
qed

lemma round_places_mono: "v \<le> w \<Longrightarrow> round_places v p \<le> round_places w p"
  by (simp add: round_places_def divide_right_mono math_round_mono)

text \<open>\<open>a - b\<close> as the comparator of \<open>sort\<close> is read: its sign counts, and NaN compares equal.
  \<open>num_eq\<close> is \<open>===\<close> on numbers.\<close>

fun js_minus :: "jsnum \<Rightarrow> jsnum \<Rightarrow> real" where
  "js_minus (Fin x) (Fin y) = x - y"
| "js_minus PInf (Fin _) = 1"
| "js_minus PInf NInf = 1"
| "js_minus NInf (Fin _) = - 1"
| "js_minus NInf PInf = - 1"
| "js_minus (Fin _) PInf = - 1"
| "js_minus (Fin _) NInf = 1"
| "js_minus _ _ = 0"

definition num_eq :: "jsnum \<Rightarrow> jsnum \<Rightarrow> bool" where
  "num_eq a b \<longleftrightarrow> a = b \<and> a \<noteq> NaN"

text \<open>\<open>n > x\<close> and \<open>n <= x\<close> against a finite bound: both false of NaN.\<close>

fun num_above :: "jsnum \<Rightarrow> real \<Rightarrow> bool" where
  "num_above (Fin x) b \<longleftrightarrow> b < x"
| "num_above PInf b \<longleftrightarrow> True"
| "num_above _ b \<longleftrightarrow> False"

fun num_at_most :: "jsnum \<Rightarrow> real \<Rightarrow> bool" where
  "num_at_most (Fin x) b \<longleftrightarrow> x \<le> b"
| "num_at_most NInf b \<longleftrightarrow> True"
| "num_at_most _ b \<longleftrightarrow> False"

section \<open>Payload values\<close>

datatype jsval =
    JUndef
  | JNull
  | JBool bool
  | JNum jsnum
  | JStr string
  | JArr "jsval list"
  | JObj "(string \<times> jsval) list"

abbreviation jreal :: "real \<Rightarrow> jsval" where
  "jreal x \<equiv> JNum (Fin x)"

definition nullish :: "jsval \<Rightarrow> bool" where
  "nullish v \<longleftrightarrow> v = JUndef \<or> v = JNull"

text \<open>\<open>a ?? b\<close>\<close>

definition or_else :: "jsval \<Rightarrow> jsval \<Rightarrow> jsval" where
  "or_else a b = (if nullish a then b else a)"

text \<open>Truthiness: \<open>undefined\<close>, \<open>null\<close>, \<open>false\<close>, 0, NaN and the empty string are false.\<close>

definition truthy :: "jsval \<Rightarrow> bool" where
  "truthy v = (case v of
       JUndef \<Rightarrow> False | JNull \<Rightarrow> False | JBool b \<Rightarrow> b
     | JNum n \<Rightarrow> n \<noteq> Fin 0 \<and> n \<noteq> NaN
     | JStr s \<Rightarrow> s \<noteq> []
     | JArr _ \<Rightarrow> True | JObj _ \<Rightarrow> True)"

text \<open>\<open>v?.k\<close>: a missing property, and any property of a missing value, is \<open>undefined\<close>.\<close>

fun jget :: "jsval \<Rightarrow> string \<Rightarrow> jsval" where
  "jget (JObj kvs) k = (case map_of kvs k of Some v \<Rightarrow> v | None \<Rightarrow> JUndef)"
| "jget _ k = JUndef"

text \<open>\<open>v?.[i]\<close> on an array: out of range reads \<open>undefined\<close>.\<close>

fun jidx :: "jsval \<Rightarrow> nat \<Rightarrow> jsval" where
  "jidx (JArr xs) i = (if i < length xs then xs ! i else JUndef)"
| "jidx _ i = JUndef"

definition is_array :: "jsval \<Rightarrow> bool" where
  "is_array v = (case v of JArr _ \<Rightarrow> True | _ \<Rightarrow> False)"

text \<open>The elements of an array, and none of anything else (\<open>xs ?? []\<close> before a loop).\<close>

fun elems :: "jsval \<Rightarrow> jsval list" where
  "elems (JArr xs) = xs"
| "elems _ = []"

fun obj_entries :: "jsval \<Rightarrow> (string \<times> jsval) list" where
  "obj_entries (JObj kvs) = kvs"
| "obj_entries _ = []"

text \<open>\<open>typeof v === 'number'\<close>, and the finite numbers among them.\<close>

fun as_num :: "jsval \<Rightarrow> jsnum option" where
  "as_num (JNum n) = Some n"
| "as_num _ = None"

fun finite_num :: "jsval \<Rightarrow> real option" where
  "finite_num (JNum (Fin x)) = Some x"
| "finite_num _ = None"

text \<open>A field that the server always sends as a number.\<close>

definition the_num :: "jsval \<Rightarrow> real" where
  "the_num v = (case v of JNum (Fin x) \<Rightarrow> x | _ \<Rightarrow> 0)"

fun as_str :: "jsval \<Rightarrow> string option" where
  "as_str (JStr s) = Some s"
| "as_str _ = None"

lemma nullish_simps [simp]:
  "nullish JUndef" "nullish JNull" "\<not> nullish (JBool b)" "\<not> nullish (JNum n)"
  "\<not> nullish (JStr s)" "\<not> nullish (JArr xs)" "\<not> nullish (JObj kvs)"
  by (simp_all add: nullish_def)

lemma or_else_simps [simp]:
  "nullish a \<Longrightarrow> or_else a b = b" "\<not> nullish a \<Longrightarrow> or_else a b = a"
  by (simp_all add: or_else_def)

lemma truthy_simps [simp]:
  "\<not> truthy JUndef" "\<not> truthy JNull" "truthy (JBool b) = b"
  "truthy (JStr s) = (s \<noteq> [])" "truthy (JArr xs)" "truthy (JObj kvs)"
  "truthy (JNum (Fin x)) = (x \<noteq> 0)" "\<not> truthy (JNum NaN)"
  by (simp_all add: truthy_def)

lemma truthy_not_nullish: "truthy v \<Longrightarrow> \<not> nullish v"
  by (cases v) simp_all

section \<open>Strings and decimal numerals\<close>

definition is_digit :: "char \<Rightarrow> bool" where
  "is_digit c \<longleftrightarrow> 48 \<le> (of_char c :: nat) \<and> (of_char c :: nat) \<le> 57"

definition digit_val :: "char \<Rightarrow> nat" where
  "digit_val c = of_char c - 48"

definition digit_char :: "nat \<Rightarrow> char" where
  "digit_char d = char_of (48 + d)"

definition digits_val :: "string \<Rightarrow> nat" where
  "digits_val s = foldl (\<lambda>a c. 10 * a + digit_val c) 0 s"

text \<open>\<open>String(n)\<close> of a natural number.\<close>

fun nat_str :: "nat \<Rightarrow> string" where
  "nat_str n = (if n < 10 then [digit_char n] else nat_str (n div 10) @ [digit_char (n mod 10)])"

declare nat_str.simps [simp del]

definition int_str :: "int \<Rightarrow> string" where
  "int_str i = (if i < 0 then CHR ''-'' # nat_str (nat (- i)) else nat_str (nat i))"

text \<open>
  \<open>x.toFixed(places)\<close>, and \<open>String(x)\<close> of a number whose decimal expansion ends within 17
  places (the doubles the client prints are rounded to at most four).
\<close>

definition pad_zeros :: "nat \<Rightarrow> string \<Rightarrow> string" where
  "pad_zeros w s = replicate (w - length s) CHR ''0'' @ s"

definition to_fixed :: "nat \<Rightarrow> real \<Rightarrow> string" where
  "to_fixed places x = (let n = nat (math_round (\<bar>x\<bar> * 10 ^ places)) in
     (if x < 0 then ''-'' else []) @ nat_str (n div 10 ^ places) @
     (if places = 0 then [] else CHR ''.'' # pad_zeros places (nat_str (n mod 10 ^ places))))"

fun fraction_digits :: "nat \<Rightarrow> real \<Rightarrow> string" where
  "fraction_digits 0 f = []"
| "fraction_digits (Suc n) f = (if f = 0 then []
     else digit_char (nat \<lfloor>10 * f\<rfloor>) # fraction_digits n (10 * f - of_int \<lfloor>10 * f\<rfloor>))"

definition num_str :: "real \<Rightarrow> string" where
  "num_str x = (let a = \<bar>x\<bar>; i = \<lfloor>a\<rfloor>; f = a - of_int i in
     (if x < 0 then ''-'' else []) @ nat_str (nat i) @
     (if f = 0 then [] else CHR ''.'' # fraction_digits 17 f))"

text \<open>
  \<open>StringToNumber\<close>: surrounding whitespace is dropped, the empty string is 0, a decimal
  literal may have a sign, a fraction and an exponent, the radix prefixes take no sign, and
  everything else is NaN.
\<close>

definition is_ws :: "char \<Rightarrow> bool" where
  "is_ws c \<longleftrightarrow> (of_char c :: nat) \<in> {9, 10, 11, 12, 13, 32}"

definition trim :: "string \<Rightarrow> string" where
  "trim s = rev (dropWhile is_ws (rev (dropWhile is_ws s)))"

definition exponent_of :: "string \<Rightarrow> int option" where
  "exponent_of s = (let (sg, ds) = (case s of
        c # t \<Rightarrow> if c = CHR ''-'' then (-1, t) else if c = CHR ''+'' then (1, t) else (1, s)
      | [] \<Rightarrow> (1 :: int, []))
    in if ds \<noteq> [] \<and> list_all is_digit ds then Some (sg * int (digits_val ds)) else None)"

definition unsigned_decimal :: "string \<Rightarrow> real option" where
  "unsigned_decimal s = (let ip = takeWhile is_digit s; r = dropWhile is_digit s;
      fp = (case r of c # t \<Rightarrow> if c = CHR ''.'' then takeWhile is_digit t else [] | [] \<Rightarrow> []);
      rest = (case r of c # t \<Rightarrow> if c = CHR ''.'' then dropWhile is_digit t else r | [] \<Rightarrow> []);
      m = real (digits_val (ip @ fp)) / 10 ^ length fp
    in if ip = [] \<and> fp = [] then None
       else case rest of [] \<Rightarrow> Some m
          | c # t \<Rightarrow> if c = CHR ''e'' \<or> c = CHR ''E''
              then map_option (\<lambda>k. if 0 \<le> k then m * 10 ^ nat k else m / 10 ^ nat (- k)) (exponent_of t)
              else None)"

definition hex_val :: "char \<Rightarrow> nat option" where
  "hex_val c = (let k = (of_char c :: nat) in
     if 48 \<le> k \<and> k \<le> 57 then Some (k - 48)
     else if 97 \<le> k \<and> k \<le> 102 then Some (k - 87)
     else if 65 \<le> k \<and> k \<le> 70 then Some (k - 55) else None)"

fun radix_val :: "nat \<Rightarrow> nat \<Rightarrow> string \<Rightarrow> nat option" where
  "radix_val b acc [] = Some acc"
| "radix_val b acc (c # cs) = (case hex_val c of
      Some d \<Rightarrow> if d < b then radix_val b (b * acc + d) cs else None
    | None \<Rightarrow> None)"

definition radix_literal :: "string \<Rightarrow> (nat \<times> string) option" where
  "radix_literal s = (case s of
      z # x # ds \<Rightarrow> if z \<noteq> CHR ''0'' \<or> ds = [] then None
        else if x = CHR ''x'' \<or> x = CHR ''X'' then Some (16, ds)
        else if x = CHR ''o'' \<or> x = CHR ''O'' then Some (8, ds)
        else if x = CHR ''b'' \<or> x = CHR ''B'' then Some (2, ds) else None
    | _ \<Rightarrow> None)"

definition signed_decimal :: "string \<Rightarrow> jsnum" where
  "signed_decimal s = (let (neg, u) = (case s of
        c # t \<Rightarrow> if c = CHR ''-'' then (True, t) else if c = CHR ''+'' then (False, t) else (False, s)
      | [] \<Rightarrow> (False, []))
    in if u = ''Infinity'' then (if neg then NInf else PInf)
       else case unsigned_decimal u of Some x \<Rightarrow> Fin (if neg then - x else x) | None \<Rightarrow> NaN)"

definition string_to_number :: "string \<Rightarrow> jsnum" where
  "string_to_number str = (let s = trim str in
     if s = [] then Fin 0
     else case radix_literal s of
         Some (b, ds) \<Rightarrow> (case radix_val b 0 ds of Some n \<Rightarrow> Fin (real n) | None \<Rightarrow> NaN)
       | None \<Rightarrow> signed_decimal s)"

text \<open>\<open>Number(v)\<close>; the payloads never hand it an array or an object.\<close>

fun to_number :: "jsval \<Rightarrow> jsnum" where
  "to_number JUndef = NaN"
| "to_number JNull = Fin 0"
| "to_number (JBool b) = Fin (if b then 1 else 0)"
| "to_number (JNum n) = n"
| "to_number (JStr s) = string_to_number s"
| "to_number (JArr _) = NaN"
| "to_number (JObj _) = NaN"

lemma num_str_of_nat [simp]: "num_str (real n) = nat_str n"
  by (simp add: num_str_def)

lemma digit_char_digit [simp]: "d < 10 \<Longrightarrow> is_digit (digit_char d)"
  by (simp add: is_digit_def digit_char_def)

lemma digit_val_char [simp]: "d < 10 \<Longrightarrow> digit_val (digit_char d) = d"
  by (simp add: digit_val_def digit_char_def)

lemma digits_val_snoc: "digits_val (s @ [c]) = 10 * digits_val s + digit_val c"
  by (simp add: digits_val_def)

lemma nat_str_digits: "list_all is_digit (nat_str n)"
proof (induction n rule: nat_str.induct)
  case (1 n)
  then show ?case by (subst nat_str.simps) auto
qed

lemma nat_str_not_Nil [simp]: "nat_str n \<noteq> []"
  by (subst nat_str.simps) simp

lemma digits_val_nat_str [simp]: "digits_val (nat_str n) = n"
proof (induction n rule: nat_str.induct)
  case (1 n)
  show ?case
  proof (cases "n < 10")
    case True
    then show ?thesis by (subst nat_str.simps) (simp add: digits_val_def)
  next
    case False
    with 1 show ?thesis by (subst nat_str.simps) (simp add: digits_val_snoc)
  qed
qed

lemma digits_val_Nil [simp]: "digits_val [] = 0"
  by (simp add: digits_val_def)

lemma digits_val_Cons: "digits_val (c # s) = digit_val c * 10 ^ length s + digits_val s"
proof (induction s rule: rev_induct)
  case (snoc d s)
  have "digits_val (c # s @ [d]) = digits_val ((c # s) @ [d])" by simp
  with snoc show ?case by (simp only: digits_val_snoc) (simp add: algebra_simps)
qed (simp add: digits_val_def)

lemma length_nat_str: "n < 10 ^ k \<Longrightarrow> 0 < k \<Longrightarrow> length (nat_str n) \<le> k"
proof (induction k arbitrary: n)
  case (Suc k)
  show ?case
  proof (cases "n < 10")
    case False
    then have "0 < k" using Suc.prems by (cases k) auto
    moreover have "n div 10 < 10 ^ k" using Suc.prems by (simp add: less_mult_imp_div_less mult.commute)
    ultimately show ?thesis using False Suc.IH by (simp add: nat_str.simps [of n])
  qed (simp add: nat_str.simps)
qed simp

lemma nat_str_inject [simp]: "nat_str m = nat_str n \<longleftrightarrow> m = n"
  by (metis digits_val_nat_str)

lemma digit_not_ws: "is_digit c \<Longrightarrow> \<not> is_ws c"
  by (auto simp: is_digit_def is_ws_def)

lemma trim_digits: "list_all is_digit s \<Longrightarrow> trim s = s"
proof -
  assume "list_all is_digit s"
  then have a: "dropWhile is_ws t = t" if "set t \<subseteq> set s" for t
    using that by (cases t) (auto simp: list_all_iff dest: digit_not_ws)
  show "trim s = s" by (simp add: trim_def a)
qed

lemma takeWhile_digits [simp]: "list_all is_digit s \<Longrightarrow> takeWhile is_digit s = s"
  by (simp add: list_all_iff takeWhile_eq_all_conv)

lemma dropWhile_digits [simp]: "list_all is_digit s \<Longrightarrow> dropWhile is_digit s = []"
  by (simp add: list_all_iff)

lemma unsigned_decimal_digits:
  "list_all is_digit s \<Longrightarrow> s \<noteq> [] \<Longrightarrow> unsigned_decimal s = Some (real (digits_val s))"
  by (simp add: unsigned_decimal_def)

lemma radix_literal_digits: "list_all is_digit s \<Longrightarrow> radix_literal s = None"
proof -
  assume a: "list_all is_digit s"
  have nd: "\<not> is_digit CHR ''x''" "\<not> is_digit CHR ''X''" "\<not> is_digit CHR ''o''" "\<not> is_digit CHR ''O''"
    "\<not> is_digit CHR ''b''" "\<not> is_digit CHR ''B''" by (simp_all add: is_digit_def)
  show ?thesis
  proof (cases s)
    case (Cons z t)
    with a nd show ?thesis by (cases t) (auto simp: radix_literal_def simp del: char.inject)
  qed (simp add: radix_literal_def)
qed

lemma signed_decimal_digits:
  assumes "list_all is_digit s" "s \<noteq> []"
  shows "signed_decimal s = Fin (real (digits_val s))"
proof -
  obtain c t where s: "s = c # t" using assms(2) by (cases s) auto
  with assms(1) have c: "is_digit c" by simp
  then have "c \<noteq> CHR ''-''" "c \<noteq> CHR ''+''" "c \<noteq> CHR ''I''" by (auto simp: is_digit_def)
  moreover have "unsigned_decimal s = Some (real (digits_val s))"
    using assms by (rule unsigned_decimal_digits)
  ultimately show ?thesis by (simp add: signed_decimal_def s)
qed

lemma string_to_number_digits:
  "list_all is_digit s \<Longrightarrow> s \<noteq> [] \<Longrightarrow> string_to_number s = Fin (real (digits_val s))"
  by (simp add: string_to_number_def trim_digits radix_literal_digits signed_decimal_digits)

lemma string_to_number_nat_str [simp]: "string_to_number (nat_str n) = Fin (real n)"
  by (simp add: string_to_number_digits nat_str_digits)

section \<open>Array.prototype.sort\<close>

text \<open>
  The comparator answers a number; \<open>sort\<close> is stable. An element taken earlier is inserted
  later (\<open>foldr\<close>) and stops before the elements it compares equal to.
\<close>

fun js_insert :: "('a \<Rightarrow> 'a \<Rightarrow> real) \<Rightarrow> 'a \<Rightarrow> 'a list \<Rightarrow> 'a list" where
  "js_insert cmp x [] = [x]"
| "js_insert cmp x (y # ys) = (if cmp x y \<le> 0 then x # y # ys else y # js_insert cmp x ys)"

definition js_sort :: "('a \<Rightarrow> 'a \<Rightarrow> real) \<Rightarrow> 'a list \<Rightarrow> 'a list" where
  "js_sort cmp xs = foldr (js_insert cmp) xs []"

text \<open>What the standard asks of a comparator: the sign is antisymmetric and the order transitive.\<close>

definition consistent :: "('a \<Rightarrow> 'a \<Rightarrow> real) \<Rightarrow> bool" where
  "consistent cmp \<longleftrightarrow> (\<forall>a b. cmp a b \<le> 0 \<or> cmp b a \<le> 0)
     \<and> (\<forall>a b. 0 < cmp a b \<longrightarrow> cmp b a < 0)
     \<and> (\<forall>a b c. cmp a b \<le> 0 \<and> cmp b c \<le> 0 \<longrightarrow> cmp a c \<le> 0)"

lemma js_sort_Nil [simp]: "js_sort cmp [] = []"
  by (simp add: js_sort_def)

lemma js_sort_Cons [simp]: "js_sort cmp (x # xs) = js_insert cmp x (js_sort cmp xs)"
  by (simp add: js_sort_def)

lemma mset_js_insert [simp]: "mset (js_insert cmp x xs) = add_mset x (mset xs)"
  by (induction xs) auto

lemma mset_js_sort [simp]: "mset (js_sort cmp xs) = mset xs"
  by (induction xs) simp_all

lemma set_js_insert [simp]: "set (js_insert cmp x xs) = insert x (set xs)"
  by (induction xs) auto

lemma set_js_sort [simp]: "set (js_sort cmp xs) = set xs"
  by (induction xs) simp_all

lemma length_js_insert [simp]: "length (js_insert cmp x xs) = Suc (length xs)"
  by (induction xs) auto

lemma length_js_sort [simp]: "length (js_sort cmp xs) = length xs"
  by (induction xs) simp_all

lemma distinct_js_sort [simp]: "distinct (js_sort cmp xs) = distinct xs"
  by (metis mset_js_sort mset_eq_imp_distinct_iff)

lemma js_sort_eq_Nil [simp]: "js_sort cmp xs = [] \<longleftrightarrow> xs = []"
  by (metis length_0_conv length_js_sort)

lemma sorted_js_insert:
  assumes "consistent cmp" "sorted_wrt (\<lambda>a b. cmp a b \<le> 0) xs"
  shows "sorted_wrt (\<lambda>a b. cmp a b \<le> 0) (js_insert cmp x xs)"
  using assms(2)
proof (induction xs)
  case Nil
  then show ?case by simp
next
  case (Cons y ys)
  show ?case
  proof (cases "cmp x y \<le> 0")
    case True
    have "cmp x z \<le> 0" if "z \<in> set ys" for z
    proof -
      from that Cons.prems have "cmp y z \<le> 0" by simp
      with True assms(1) show ?thesis unfolding consistent_def by blast
    qed
    with True Cons.prems show ?thesis by simp
  next
    case False
    then have "cmp y x \<le> 0" using assms(1) unfolding consistent_def by (meson le_less not_le)
    with False Cons show ?thesis by auto
  qed
qed

lemma sorted_js_sort:
  "consistent cmp \<Longrightarrow> sorted_wrt (\<lambda>a b. cmp a b \<le> 0) (js_sort cmp xs)"
  by (induction xs) (simp_all add: sorted_js_insert)

text \<open>Stability: the elements of a class the comparator cannot tell apart keep their order.\<close>

lemma filter_js_insert_in:
  assumes "\<And>a b. P a \<Longrightarrow> P b \<Longrightarrow> cmp a b \<le> 0" and "P x"
  shows "filter P (js_insert cmp x xs) = x # filter P xs"
  using assms by (induction xs) auto

lemma filter_js_insert_out: "\<not> P x \<Longrightarrow> filter P (js_insert cmp x xs) = filter P xs"
  by (induction xs) auto

lemma js_sort_stable:
  assumes "\<And>a b. P a \<Longrightarrow> P b \<Longrightarrow> cmp a b \<le> 0"
  shows "filter P (js_sort cmp xs) = filter P xs"
proof (induction xs)
  case (Cons x xs)
  then show ?case
    by (cases "P x") (simp_all add: filter_js_insert_in [of P, OF assms] filter_js_insert_out)
qed simp

text \<open>\<open>js_sort\<close> compares only elements of its list, so its order needs the comparator there only.\<close>

lemma js_insert_cong:
  "(\<And>y. y \<in> set ys \<Longrightarrow> cmp x y \<le> 0 \<longleftrightarrow> cmp' x y \<le> 0) \<Longrightarrow> js_insert cmp x ys = js_insert cmp' x ys"
  by (induction ys) auto

lemma js_sort_cong:
  "(\<And>x y. x \<in> set xs \<Longrightarrow> y \<in> set xs \<Longrightarrow> cmp x y \<le> 0 \<longleftrightarrow> cmp' x y \<le> 0) \<Longrightarrow> js_sort cmp xs = js_sort cmp' xs"
proof (induction xs)
  case (Cons x xs)
  then have "js_sort cmp xs = js_sort cmp' xs" by simp
  moreover have "js_insert cmp x (js_sort cmp' xs) = js_insert cmp' x (js_sort cmp' xs)"
    by (rule js_insert_cong) (simp add: Cons.prems)
  ultimately show ?case by simp
qed simp

section \<open>Map and Set\<close>

text \<open>
  A \<open>Map\<close> is an association list in insertion order: \<open>get\<close> is \<^const>\<open>map_of\<close>, \<open>set\<close> is
  \<^const>\<open>AList.update\<close> (a known key keeps its place, a new one goes last), \<open>delete\<close> is
  \<^const>\<open>AList.delete\<close>. A \<open>Set\<close> is a list without duplicates.
\<close>

definition set_add :: "'a \<Rightarrow> 'a list \<Rightarrow> 'a list" where
  "set_add x xs = (if x \<in> set xs then xs else xs @ [x])"

lemma set_set_add [simp]: "set (set_add x xs) = insert x (set xs)"
  by (auto simp: set_add_def)

lemma distinct_set_add [simp]: "distinct (set_add x xs) = distinct xs"
  by (auto simp: set_add_def)

lemma length_filter_split: "length (filter P xs) + length (filter (\<lambda>x. \<not> P x) xs) = length xs"
  by (induction xs) simp_all

lemma AList_update_new: "k \<notin> fst ` set m \<Longrightarrow> AList.update k v m = m @ [(k, v)]"
  by (induction m) auto

lemma map_of_AList_delete: "map_of (AList.delete k m) = (map_of m)(k := None)"
  by (rule delete_conv')

lemma keys_AList_delete_notin [simp]: "k \<notin> fst ` set (AList.delete k m)"
  by (simp add: delete_keys [symmetric] AList.delete_eq) auto

end
