(* ===== verification/Url_Params.thy ===== *)
theory Url_Params
  imports Js_Prelude
begin

text \<open>
  \<open>URLSearchParams\<close> and \<open>encodeURIComponent\<close>, through which the client reads and writes the
  address bar and every request URL: the application/x-www-form-urlencoded serialiser and
  parser over UTF-8 bytes, and the lemma that parsing undoes serialising.
\<close>

section \<open>Splitting and joining\<close>

fun split_on :: "char \<Rightarrow> string \<Rightarrow> string list" where
  "split_on d [] = [[]]"
| "split_on d (c # cs) = (if c = d then [] # split_on d cs
     else (case split_on d cs of [] \<Rightarrow> [[c]] | w # ws \<Rightarrow> (c # w) # ws))"

fun join_with :: "string \<Rightarrow> string list \<Rightarrow> string" where
  "join_with sep [] = []"
| "join_with sep [w] = w"
| "join_with sep (w # ws) = w @ sep @ join_with sep ws"

lemma split_on_not_Nil [simp]: "split_on d s \<noteq> []"
  by (cases s) (auto split: list.splits)

lemma split_on_plain [simp]: "d \<notin> set s \<Longrightarrow> split_on d s = [s]"
  by (induction s) auto

lemma split_on_append: "d \<notin> set s \<Longrightarrow> split_on d (s @ d # t) = s # split_on d t"
  by (induction s) auto

lemma split_on_join:
  "ws \<noteq> [] \<Longrightarrow> \<forall>w \<in> set ws. d \<notin> set w \<Longrightarrow> split_on d (join_with [d] ws) = ws"
  by (induction "[d]" ws rule: join_with.induct) (auto simp: split_on_append)

section \<open>Percent encoding\<close>

definition hex_digit :: "nat \<Rightarrow> char" where
  "hex_digit d = (if d < 10 then char_of (48 + d) else char_of (55 + d))"

definition percent :: "char \<Rightarrow> string" where
  "percent c = (let k = (of_char c :: nat) in [CHR ''%'', hex_digit (k div 16), hex_digit (k mod 16)])"

definition is_alnum :: "char \<Rightarrow> bool" where
  "is_alnum c = (let k = (of_char c :: nat) in
     48 \<le> k \<and> k \<le> 57 \<or> 65 \<le> k \<and> k \<le> 90 \<or> 97 \<le> k \<and> k \<le> 122)"

definition form_safe :: "char \<Rightarrow> bool" where
  "form_safe c \<longleftrightarrow> is_alnum c \<or> c \<in> set ''*-._''"

definition form_encode_char :: "char \<Rightarrow> string" where
  "form_encode_char c = (if form_safe c then [c] else if c = CHR '' '' then ''+'' else percent c)"

definition form_encode :: "string \<Rightarrow> string" where
  "form_encode s = concat (map form_encode_char s)"

fun form_decode :: "string \<Rightarrow> string" where
  "form_decode [] = []"
| "form_decode (c # h # l # t) =
     (if c = CHR ''+'' then CHR '' '' # form_decode (h # l # t)
      else if c = CHR ''%'' \<and> hex_val h \<noteq> None \<and> hex_val l \<noteq> None
        then char_of (16 * the (hex_val h) + the (hex_val l)) # form_decode t
      else c # form_decode (h # l # t))"
| "form_decode (c # t) = (if c = CHR ''+'' then CHR '' '' else c) # form_decode t"

definition uri_safe :: "char \<Rightarrow> bool" where
  "uri_safe c \<longleftrightarrow> is_alnum c \<or> c \<in> set ''-_.!~*()'' \<or> of_char c = (39 :: nat)"

definition encode_uri_component :: "string \<Rightarrow> string" where
  "encode_uri_component s = concat (map (\<lambda>c. if uri_safe c then [c] else percent c) s)"

lemma of_char_lt: "(of_char c :: nat) < 256"
proof -
  have "(of_char c :: nat) mod 256 < 256" by simp
  then show ?thesis by simp
qed

lemma of_char_hex_digit: "d < 16 \<Longrightarrow> of_char (hex_digit d) = (if d < 10 then 48 + d else 55 + d)"
  by (simp add: hex_digit_def)

lemma hex_val_digit [simp]: "d < 16 \<Longrightarrow> hex_val (hex_digit d) = Some d"
  by (simp add: hex_val_def of_char_hex_digit Let_def)

lemma nibbles [simp]: "(of_char c :: nat) div 16 < 16" "(of_char c :: nat) mod 16 < 16"
  using of_char_lt [of c] by (auto simp: less_mult_imp_div_less)

lemma char_of_nibbles [simp]:
  "char_of (16 * ((of_char c :: nat) div 16) + of_char c mod 16) = c"
  by simp

lemma form_decode_plain:
  "c \<noteq> CHR ''+'' \<Longrightarrow> c \<noteq> CHR ''%'' \<Longrightarrow> form_decode (c # t) = c # form_decode t"
  by (cases t; cases "tl t") simp_all

lemma form_decode_plus: "form_decode (CHR ''+'' # t) = CHR '' '' # form_decode t"
  by (cases t; cases "tl t") simp_all

lemma form_decode_percent: "form_decode (percent c @ t) = c # form_decode t"
  by (simp add: percent_def Let_def)

lemma form_safe_plain: "form_safe c \<Longrightarrow> c \<noteq> CHR ''+'' \<and> c \<noteq> CHR ''%'' \<and> c \<noteq> CHR ''&'' \<and> c \<noteq> CHR ''=''"
  by (auto simp: form_safe_def is_alnum_def Let_def)

lemma form_decode_encode_char: "form_decode (form_encode_char c @ t) = c # form_decode t"
  using form_safe_plain [of c]
  by (simp add: form_encode_char_def form_decode_plain form_decode_plus form_decode_percent)

lemma form_decode_encode [simp]: "form_decode (form_encode s) = s"
proof (induction s)
  case (Cons c s)
  then show ?case by (simp add: form_encode_def form_decode_encode_char)
qed (simp add: form_encode_def)

lemma hex_digit_not_sep:
  assumes "d < 16"
  shows "hex_digit d \<noteq> CHR ''&''" "hex_digit d \<noteq> CHR ''=''" "hex_digit d \<noteq> CHR ''?''" "hex_digit d \<noteq> CHR ''#''"
proof -
  have code: "(of_char (hex_digit d) :: nat) \<notin> {35, 38, 61, 63}"
    using assms by (auto simp: of_char_hex_digit)
  show "hex_digit d \<noteq> CHR ''&''" "hex_digit d \<noteq> CHR ''=''" "hex_digit d \<noteq> CHR ''?''" "hex_digit d \<noteq> CHR ''#''"
    using code by (auto simp del: of_char_eq_iff)
qed

lemma percent_no_sep:
  "set (percent c) \<inter> {CHR ''&'', CHR ''='', CHR ''?'', CHR ''#''} = {}"
  using hex_digit_not_sep [OF nibbles(1) [of c]] hex_digit_not_sep [OF nibbles(2) [of c]]
  by (simp add: percent_def Let_def)

lemma form_encode_no_sep:
  "set (form_encode s) \<inter> {CHR ''&'', CHR ''='', CHR ''?'', CHR ''#''} = {}"
proof -
  have "set (form_encode_char c) \<inter> {CHR ''&'', CHR ''='', CHR ''?'', CHR ''#''} = {}" for c
    using percent_no_sep [of c]
    by (auto simp: form_encode_char_def form_safe_def is_alnum_def Let_def)
  then show ?thesis by (auto simp: form_encode_def)
qed

section \<open>URLSearchParams\<close>

type_synonym url_params = "(string \<times> string) list"

definition parse_pair :: "string \<Rightarrow> string \<times> string" where
  "parse_pair piece = (form_decode (takeWhile (\<lambda>c. c \<noteq> CHR ''='') piece),
     form_decode (drop 1 (dropWhile (\<lambda>c. c \<noteq> CHR ''='') piece)))"

text \<open>The constructor on a string: one leading question mark is dropped, empty pieces are skipped.\<close>

definition params_parse :: "string \<Rightarrow> url_params" where
  "params_parse s = (let q = (case s of c # t \<Rightarrow> if c = CHR ''?'' then t else s | [] \<Rightarrow> [])
     in map parse_pair (filter (\<lambda>w. w \<noteq> []) (split_on CHR ''&'' q)))"

definition params_string :: "url_params \<Rightarrow> string" where
  "params_string ps = join_with ''&'' (map (\<lambda>(k, v). form_encode k @ ''='' @ form_encode v) ps)"

definition params_get :: "url_params \<Rightarrow> string \<Rightarrow> string option" where
  "params_get ps k = map_of ps k"

definition params_has :: "url_params \<Rightarrow> string \<Rightarrow> bool" where
  "params_has ps k \<longleftrightarrow> k \<in> fst ` set ps"

text \<open>\<open>set\<close> rewrites the first pair of the name and drops the others, or appends.\<close>

fun params_set :: "url_params \<Rightarrow> string \<Rightarrow> string \<Rightarrow> url_params" where
  "params_set [] k v = [(k, v)]"
| "params_set ((k', v') # ps) k v =
     (if k' = k then (k, v) # filter (\<lambda>p. fst p \<noteq> k) ps else (k', v') # params_set ps k v)"

lemma params_get_set [simp]:
  "params_get (params_set ps k v) j = (if j = k then Some v else params_get ps j)"
proof -
  have f: "map_of (filter (\<lambda>p. fst p \<noteq> k) qs) j = (if j = k then None else map_of qs j)" for qs :: url_params
    by (induction qs) auto
  show ?thesis unfolding params_get_def by (induction ps) (auto simp: f)
qed

lemma params_get_Nil [simp]: "params_get [] k = None"
  by (simp add: params_get_def)

lemma parse_pair_encode: "parse_pair (form_encode k @ CHR ''='' # form_encode v) = (k, v)"
proof -
  have "CHR ''='' \<notin> set (form_encode k)" using form_encode_no_sep [of k] by auto
  then have "takeWhile (\<lambda>c. c \<noteq> CHR ''='') (form_encode k @ CHR ''='' # form_encode v) = form_encode k"
    "dropWhile (\<lambda>c. c \<noteq> CHR ''='') (form_encode k @ CHR ''='' # form_encode v) = CHR ''='' # form_encode v"
    by (subst takeWhile_append2 dropWhile_append2; force)+
  then show ?thesis by (simp add: parse_pair_def)
qed

lemma params_string_head:
  "params_string ps = c # t \<Longrightarrow> c \<noteq> CHR ''?'' \<and> c \<noteq> CHR ''#''"
proof (cases ps)
  case (Cons p qs)
  assume a: "params_string ps = c # t"
  obtain k v where p: "p = (k, v)" by (cases p)
  have "\<exists>r. params_string ps = form_encode k @ CHR ''='' # r"
    by (cases qs) (auto simp: params_string_def Cons p)
  then obtain r where r: "params_string ps = form_encode k @ CHR ''='' # r" by blast
  show ?thesis
    using a r form_encode_no_sep [of k] by (cases "form_encode k") auto
qed (simp add: params_string_def)

lemma params_parse_string [simp]: "params_parse (params_string ps) = ps"
proof (cases "ps = []")
  case True
  then show ?thesis by (simp add: params_parse_def params_string_def)
next
  case False
  let ?ws = "map (\<lambda>(k, v). form_encode k @ ''='' @ form_encode v) ps"
  have amp: "\<forall>w \<in> set ?ws. CHR ''&'' \<notin> set w"
    using form_encode_no_sep by fastforce
  have "split_on CHR ''&'' (params_string ps) = ?ws"
    unfolding params_string_def using False amp by (intro split_on_join) auto
  moreover have "filter (\<lambda>w. w \<noteq> []) ?ws = ?ws" by (auto simp: filter_id_conv)
  moreover have "map parse_pair ?ws = ps"
    by (simp add: map_idI case_prod_unfold parse_pair_encode)
  moreover have "(case params_string ps of c # t \<Rightarrow> if c = CHR ''?'' then t else params_string ps | [] \<Rightarrow> [])
      = params_string ps"
    using params_string_head [of ps] by (auto split: list.splits)
  ultimately show ?thesis by (simp add: params_parse_def Let_def)
qed

lemma params_string_eq_Nil [simp]: "params_string ps = [] \<longleftrightarrow> ps = []"
proof
  assume "params_string ps = []"
  then have "params_parse [] = ps" using params_parse_string [of ps] by simp
  then show "ps = []" by (simp add: params_parse_def)
qed (simp add: params_string_def)

end
