(* ===== verification/Storage.thy ===== *)
theory Storage
  imports Js_Prelude
begin

text \<open>
  \<open>web/src/lib/storage.js\<close>: browser storage for code that must not care whether it exists.
  A storage is a map from keys to strings together with the operations that throw in this
  browser (private mode, a full quota). An operation returns what it threw, if anything, and
  the storage it leaves. The interface \<open>kv_store\<close> states what the readers and writers of a
  preference rely on, \<open>stored_preference\<close> adds how one value is spelled, and both are
  interpreted on the legacy-key wrapper that the pages really use.
\<close>

section \<open>The browser's storage\<close>

datatype js_error = Thrown

record storage =
  items :: "string \<rightharpoonup> string"
  get_throws :: bool
  set_throws :: bool
  remove_throws :: bool

definition raw_get :: "storage \<Rightarrow> string \<Rightarrow> js_error + string option" where
  "raw_get s k = (if get_throws s then Inl Thrown else Inr (items s k))"

definition raw_set :: "storage \<Rightarrow> string \<Rightarrow> string \<Rightarrow> js_error option \<times> storage" where
  "raw_set s k v = (if set_throws s then (Some Thrown, s) else (None, s\<lparr>items := (items s)(k \<mapsto> v)\<rparr>))"

definition raw_remove :: "storage \<Rightarrow> string \<Rightarrow> js_error option \<times> storage" where
  "raw_remove s k = (if remove_throws s then (Some Thrown, s) else (None, s\<lparr>items := (items s)(k := None)\<rparr>))"

section \<open>The legacy-key wrapper\<close>

definition KEY_PREFIX :: string where
  "KEY_PREFIX = ''kanarche:''"

definition LEGACY_PREFIX :: string where
  "LEGACY_PREFIX = ''airbg:''"

definition starts_with :: "string \<Rightarrow> string \<Rightarrow> bool" where
  "starts_with s p \<longleftrightarrow> take (length p) s = p"

definition legacyKey :: "string \<Rightarrow> string option" where
  "legacyKey key = (if starts_with key KEY_PREFIX
     then Some (LEGACY_PREFIX @ drop (length KEY_PREFIX) key) else None)"

definition getItem :: "storage \<Rightarrow> string \<Rightarrow> js_error + string option" where
  "getItem s key = (case raw_get s key of
      Inl e \<Rightarrow> Inl e
    | Inr value \<Rightarrow> (case legacyKey key of
          None \<Rightarrow> Inr value
        | Some old \<Rightarrow> if value \<noteq> None then Inr value else raw_get s old))"

definition setItem :: "storage \<Rightarrow> string \<Rightarrow> string \<Rightarrow> js_error option \<times> storage" where
  "setItem s key value = (case raw_set s key value of
      (Some e, s1) \<Rightarrow> (Some e, s1)
    | (None, s1) \<Rightarrow> (case legacyKey key of
          None \<Rightarrow> (None, s1)
        | Some old \<Rightarrow> (None, snd (raw_remove s1 old))))"

definition removeItem :: "storage \<Rightarrow> string \<Rightarrow> js_error option \<times> storage" where
  "removeItem s key = (case raw_remove s key of
      (Some e, s1) \<Rightarrow> (Some e, s1)
    | (None, s1) \<Rightarrow> (case legacyKey key of
          None \<Rightarrow> (None, s1)
        | Some old \<Rightarrow> raw_remove s1 old))"

text \<open>
  The mere access of \<open>localStorage\<close> may throw, and it may be missing; in both cases there is
  no storage. Otherwise the wrapped one is handed out.
\<close>

datatype storage_access = Access_Throws | Access_Missing | Access_Ok storage

definition safeStorage :: "storage_access \<Rightarrow> storage option" where
  "safeStorage a = (case a of Access_Ok s \<Rightarrow> Some s | _ \<Rightarrow> None)"

section \<open>Readers and writers of a preference\<close>

text \<open>\<open>storage?.getItem(key)\<close>, and a write or removal inside a \<open>try\<close> that ignores the error.\<close>

definition try_get :: "storage option \<Rightarrow> string \<Rightarrow> js_error + string option" where
  "try_get st key = (case st of None \<Rightarrow> Inr None | Some s \<Rightarrow> getItem s key)"

definition try_set :: "storage option \<Rightarrow> string \<Rightarrow> string \<Rightarrow> storage option" where
  "try_set st key v = map_option (\<lambda>s. snd (setItem s key v)) st"

definition try_remove :: "storage option \<Rightarrow> string \<Rightarrow> storage option" where
  "try_remove st key = map_option (\<lambda>s. snd (removeItem s key)) st"

definition bool_str :: "bool \<Rightarrow> string" where
  "bool_str b = (if b then ''true'' else ''false'')"

fun flag_of :: "js_error + string option \<Rightarrow> bool \<Rightarrow> bool" where
  "flag_of (Inl e) fallback = fallback"
| "flag_of (Inr raw) fallback = (if raw = Some ''true'' then True
     else if raw = Some ''false'' then False else fallback)"

definition readFlag :: "string \<Rightarrow> bool \<Rightarrow> storage option \<Rightarrow> bool" where
  "readFlag key fallback st = flag_of (try_get st key) fallback"

definition writeFlag :: "string \<Rightarrow> bool \<Rightarrow> storage option \<Rightarrow> storage option" where
  "writeFlag key value st = try_set st key (bool_str value)"

text \<open>A choice is a member of \<open>allowed\<close>, found by its spelling; \<open>spell\<close> is \<open>String(v)\<close>.\<close>

fun choice_of :: "('a \<Rightarrow> string) \<Rightarrow> 'a list \<Rightarrow> 'a \<Rightarrow> js_error + string option \<Rightarrow> 'a" where
  "choice_of spell allowed fallback (Inl e) = fallback"
| "choice_of spell allowed fallback (Inr raw) =
     (case find (\<lambda>v. Some (spell v) = raw) allowed of Some v \<Rightarrow> v | None \<Rightarrow> fallback)"

definition readChoice :: "('a \<Rightarrow> string) \<Rightarrow> string \<Rightarrow> 'a list \<Rightarrow> 'a \<Rightarrow> storage option \<Rightarrow> 'a" where
  "readChoice spell key allowed fallback st = choice_of spell allowed fallback (try_get st key)"

definition writeChoice :: "('a \<Rightarrow> string) \<Rightarrow> string \<Rightarrow> 'a \<Rightarrow> storage option \<Rightarrow> storage option" where
  "writeChoice spell key value st = try_set st key (spell value)"

lemmas storage_op_defs = raw_get_def raw_set_def raw_remove_def getItem_def setItem_def removeItem_def

section \<open>The interface of a key-value store\<close>

locale kv_store =
  fixes get :: "'s \<Rightarrow> string \<Rightarrow> js_error + string option"
    and put :: "'s \<Rightarrow> string \<Rightarrow> string \<Rightarrow> js_error option \<times> 's"
    and remove :: "'s \<Rightarrow> string \<Rightarrow> js_error option \<times> 's"
    and working :: "'s \<Rightarrow> bool"
    and owned :: "string \<Rightarrow> bool"
  assumes get_total: "working s \<Longrightarrow> \<exists>v. get s k = Inr v"
    and working_put: "working s \<Longrightarrow> working (snd (put s k v))"
    and working_remove: "working s \<Longrightarrow> working (snd (remove s k))"
    and get_put: "working s \<Longrightarrow> get (snd (put s k v)) k = Inr (Some v)"
    and get_put_other: "working s \<Longrightarrow> owned j \<Longrightarrow> owned k \<Longrightarrow> j \<noteq> k \<Longrightarrow>
          get (snd (put s k v)) j = get s j"
    and get_remove: "working s \<Longrightarrow> get (snd (remove s k)) k = Inr None"
    and get_remove_other: "working s \<Longrightarrow> owned j \<Longrightarrow> owned k \<Longrightarrow> j \<noteq> k \<Longrightarrow>
          get (snd (remove s k)) j = get s j"
begin

lemmas kv_simps = working_put working_remove get_put get_remove

lemma put_then_remove: "working s \<Longrightarrow> get (snd (remove (snd (put s k v)) k)) k = Inr None"
  by (simp add: kv_simps)

lemma last_put_wins: "working s \<Longrightarrow> get (snd (put (snd (put s k v)) k w)) k = Inr (Some w)"
  by (simp add: kv_simps)

text \<open>A run of writes to other keys never disturbs what one key holds.\<close>

lemma get_foldl_put:
  "working s \<Longrightarrow> owned j \<Longrightarrow> \<forall>(k, v) \<in> set kvs. owned k \<and> k \<noteq> j \<Longrightarrow>
     get (foldl (\<lambda>s (k, v). snd (put s k v)) s kvs) j = get s j"
proof (induction kvs arbitrary: s)
  case (Cons kv kvs)
  obtain k v where kv: "kv = (k, v)" by (cases kv)
  from Cons.prems kv have "owned k" "k \<noteq> j" by auto
  with Cons.prems(1,2) have "get (snd (put s k v)) j = get s j" by (intro get_put_other) auto
  with Cons kv show ?case by (auto simp: working_put)
qed simp

end

text \<open>
  A preference kept under one owned key: how its value is spelled, which values are worth
  keeping, and what is read when the key holds nothing usable.
\<close>

locale stored_preference = kv_store +
  fixes key :: string
    and spell :: "'v \<Rightarrow> string"
    and read :: "js_error + string option \<Rightarrow> 'v"
    and valid :: "'v \<Rightarrow> bool"
    and unset :: 'v
  assumes owned_key: "owned key"
    and read_spell: "valid v \<Longrightarrow> read (Inr (Some (spell v))) = v"
    and read_unset: "read (Inr None) = unset"
    and read_throws: "read (Inl Thrown) = unset"
begin

lemma write_then_read:
  "working s \<Longrightarrow> valid v \<Longrightarrow> read (get (snd (put s key (spell v))) key) = v"
  by (simp add: get_put read_spell)

lemma remove_then_read: "working s \<Longrightarrow> read (get (snd (remove s key)) key) = unset"
  by (simp add: get_remove read_unset)

lemma other_key_untouched:
  "working s \<Longrightarrow> owned k \<Longrightarrow> k \<noteq> key \<Longrightarrow> read (get (snd (put s k v)) key) = read (get s key)"
  by (simp add: get_put_other owned_key)

end

section \<open>The wrapper provides the interface\<close>

definition storage_working :: "storage \<Rightarrow> bool" where
  "storage_working s \<longleftrightarrow> \<not> get_throws s \<and> \<not> set_throws s \<and> \<not> remove_throws s"

definition app_key :: "string \<Rightarrow> bool" where
  "app_key k \<longleftrightarrow> starts_with k KEY_PREFIX"

lemma legacyKey_cases:
  "legacyKey k = None \<and> \<not> app_key k \<or> (\<exists>r. app_key k \<and> k = KEY_PREFIX @ r \<and> legacyKey k = Some (LEGACY_PREFIX @ r))"
proof (cases "app_key k")
  case True
  then have "k = KEY_PREFIX @ drop (length KEY_PREFIX) k"
    unfolding app_key_def starts_with_def by (metis append_take_drop_id)
  with True show ?thesis by (auto simp: legacyKey_def app_key_def)
next
  case False
  then show ?thesis by (simp add: legacyKey_def app_key_def)
qed

lemma prefixes_differ: "KEY_PREFIX @ a \<noteq> LEGACY_PREFIX @ b"
  by (simp add: KEY_PREFIX_def LEGACY_PREFIX_def)

lemma legacy_not_app: "legacyKey k = Some old \<Longrightarrow> old \<noteq> k \<and> \<not> app_key old"
  using legacyKey_cases [of k]
  by (auto simp: app_key_def starts_with_def KEY_PREFIX_def LEGACY_PREFIX_def)

lemma legacyKey_inject: "legacyKey j = Some o1 \<Longrightarrow> legacyKey k = Some o1 \<Longrightarrow> j = k"
  using legacyKey_cases [of j] legacyKey_cases [of k] by auto

lemma legacyKey_app: "app_key k \<Longrightarrow> \<exists>old. legacyKey k = Some old"
  using legacyKey_cases [of k] by auto

interpretation ls: kv_store getItem setItem removeItem storage_working app_key
proof unfold_locales
  fix s k and v :: string
  assume w: "storage_working s"
  show "\<exists>v. getItem s k = Inr v"
    using w by (auto simp: storage_op_defs storage_working_def split: option.splits)
  show "storage_working (snd (setItem s k v))" "storage_working (snd (removeItem s k))"
    using w by (auto simp: storage_op_defs storage_working_def split: option.splits)
  show "getItem (snd (setItem s k v)) k = Inr (Some v)"
    using w legacy_not_app [of k] by (auto simp: storage_op_defs storage_working_def split: option.splits)
  show "getItem (snd (removeItem s k)) k = Inr None"
    using w by (auto simp: storage_op_defs storage_working_def split: option.splits)
next
  fix s j k and v :: string
  assume w: "storage_working s" and j: "app_key j" and k: "app_key k" and ne: "j \<noteq> k"
  obtain oj ok where o: "legacyKey j = Some oj" "legacyKey k = Some ok"
    using legacyKey_app j k by blast
  have d: "oj \<noteq> ok" "oj \<noteq> k" "ok \<noteq> j" using legacyKey_inject o ne legacy_not_app j k by metis+
  show "getItem (snd (setItem s k v)) j = getItem s j" "getItem (snd (removeItem s k)) j = getItem s j"
    using w o ne d by (auto simp: storage_op_defs storage_working_def)
qed

interpretation flag: stored_preference getItem setItem removeItem storage_working app_key
    "''kanarche:auto-refresh''" bool_str "\<lambda>r. flag_of r fallback" "\<lambda>_. True" fallback for fallback
  by unfold_locales (simp_all add: app_key_def starts_with_def KEY_PREFIX_def bool_str_def)

lemma choice_of_spell:
  assumes "inj_on spell (set allowed)" "v \<in> set allowed"
  shows "choice_of spell allowed fallback (Inr (Some (spell v))) = v"
proof -
  have "find (\<lambda>w. spell w = spell v) allowed = Some v"
    using assms by (induction allowed) (auto simp: inj_on_def)
  then show ?thesis by simp
qed

end
