(* ===== verification/Filters.thy ===== *)
theory Filters
  imports Js_Prelude
begin

text \<open>
  The three module-level filters that several islands share: which networks are drawn
  (\<open>sourcefilter.svelte.js\<close>), which sensors by status (\<open>sensorfilter.svelte.js\<close>) and whether
  faulty stations are drawn (\<open>faultyfilter.svelte.js\<close>). Each is a value, a \<open>Set\<close> of listeners
  and a setter that notifies them; the record keeps the calls made so far, so that what a
  listener was told can be compared with the value. The three answer one interface,
  \<open>observable\<close>.
\<close>

section \<open>A value and its listeners\<close>

record 'v observed =
  current :: 'v
  listeners :: "nat list"
  calls :: "(nat \<times> 'v) list"

definition publish :: "'v \<Rightarrow> 'v observed \<Rightarrow> 'v observed" where
  "publish v st = st\<lparr>current := v, calls := calls st @ map (\<lambda>f. (f, v)) (listeners st)\<rparr>"

definition subscribe :: "nat \<Rightarrow> 'v observed \<Rightarrow> 'v observed" where
  "subscribe f st = st\<lparr>listeners := set_add f (listeners st)\<rparr>"

definition unsubscribe :: "nat \<Rightarrow> 'v observed \<Rightarrow> 'v observed" where
  "unsubscribe f st = st\<lparr>listeners := filter (\<lambda>g. g \<noteq> f) (listeners st)\<rparr>"

definition told :: "nat \<Rightarrow> 'v observed \<Rightarrow> 'v list" where
  "told f st = map snd (filter (\<lambda>c. fst c = f) (calls st))"

text \<open>
  The contract of a setter: the value becomes what \<open>target\<close> says, the listeners stay, and
  each of them is called once, with the new value, exactly when the value changed.
\<close>

locale observable =
  fixes assign :: "'a \<Rightarrow> 'v observed \<Rightarrow> 'v observed"
    and target :: "'a \<Rightarrow> 'v \<Rightarrow> 'v"
    and ok :: "'v \<Rightarrow> bool"
  assumes assign_change: "ok (current st) \<Longrightarrow> target a (current st) \<noteq> current st \<Longrightarrow>
        assign a st = publish (target a (current st)) st"
    and assign_same: "ok (current st) \<Longrightarrow> target a (current st) = current st \<Longrightarrow> assign a st = st"
    and target_ok: "ok v \<Longrightarrow> ok (target a v)"
    and target_idem: "ok v \<Longrightarrow> target a (target a v) = target a v"
begin

lemma assign_current: "ok (current st) \<Longrightarrow> current (assign a st) = target a (current st)"
  by (cases "target a (current st) = current st") (simp_all add: assign_change assign_same publish_def)

lemma assign_listeners: "ok (current st) \<Longrightarrow> listeners (assign a st) = listeners st"
  by (cases "target a (current st) = current st") (simp_all add: assign_change assign_same publish_def)

lemma assign_ok: "ok (current st) \<Longrightarrow> ok (current (assign a st))"
  by (simp add: assign_current target_ok)

lemma assign_idem: "ok (current st) \<Longrightarrow> assign a (assign a st) = assign a st"
  by (metis assign_same assign_current assign_ok target_idem)

lemma assign_told:
  assumes "ok (current st)" "distinct (listeners st)" "f \<in> set (listeners st)"
  shows "told f (assign a st) = told f st @ (if target a (current st) = current st then []
           else [target a (current st)])"
proof -
  have "map snd (filter (\<lambda>c. fst c = f) (map (\<lambda>g. (g, v)) gs)) = [v]"
    if "distinct gs" "f \<in> set gs" for v :: 'v and gs
    using that
  proof (induction gs)
    case (Cons g gs)
    have "filter (\<lambda>c. fst c = f) (map (\<lambda>g. (g, v)) gs) = []" if "f \<notin> set gs"
      using that by (induction gs) auto
    with Cons show ?case by auto
  qed simp
  with assms show ?thesis
    by (cases "target a (current st) = current st") (simp_all add: assign_change assign_same publish_def told_def)
qed

text \<open>
  A listener that stays subscribed is never behind: after any run of assignments the last
  value it was told (or the value it started from) is the value.
\<close>

lemma listener_in_step:
  assumes "ok (current st)" "distinct (listeners st)" "f \<in> set (listeners st)"
    "current st = last (v0 # told f st)"
  shows "current (foldl (\<lambda>s a. assign a s) st as) = last (v0 # told f (foldl (\<lambda>s a. assign a s) st as))"
  using assms
proof (induction as arbitrary: st)
  case (Cons a as)
  then have "current (assign a st) = last (v0 # told f (assign a st))"
    by (simp add: assign_told assign_current)
  moreover have "ok (current (assign a st))" "distinct (listeners (assign a st))"
    "f \<in> set (listeners (assign a st))"
    using Cons.prems by (simp_all add: assign_ok assign_listeners del: last.simps)
  ultimately show ?case unfolding foldl_Cons by (intro Cons.IH)
qed simp

lemma run_ok: "ok (current st) \<Longrightarrow> ok (current (foldl (\<lambda>s a. assign a s) st as))"
  by (induction as arbitrary: st) (simp_all add: assign_ok)

end

section \<open>Networks\<close>

definition CITIZEN_SOURCE :: string where
  "CITIZEN_SOURCE = ''sensor.community''"

definition OFFICIAL_SOURCE :: string where
  "OFFICIAL_SOURCE = ''eea''"

definition SOURCES :: "string list" where
  "SOURCES = [CITIZEN_SOURCE, OFFICIAL_SOURCE]"

lemma SOURCES_simps [simp]: "set SOURCES = {CITIZEN_SOURCE, OFFICIAL_SOURCE}" "distinct SOURCES" "length SOURCES = 2"
  by (auto simp: SOURCES_def CITIZEN_SOURCE_def OFFICIAL_SOURCE_def)

lemma sources_differ [simp]: "CITIZEN_SOURCE \<noteq> OFFICIAL_SOURCE" "OFFICIAL_SOURCE \<noteq> CITIZEN_SOURCE"
  "CITIZEN_SOURCE \<noteq> []" "OFFICIAL_SOURCE \<noteq> []"
  by (simp_all add: CITIZEN_SOURCE_def OFFICIAL_SOURCE_def)

definition init_sources :: "string list observed" where
  "init_sources = \<lparr>current = SOURCES, listeners = [], calls = []\<rparr>"

definition next_sources :: "string \<Rightarrow> bool \<Rightarrow> string list \<Rightarrow> string list" where
  "next_sources source on sources = (if on then set_add source sources
     else filter (\<lambda>s. s \<noteq> source) sources)"

definition setSourceEnabled :: "string \<Rightarrow> bool \<Rightarrow> string list observed \<Rightarrow> string list observed" where
  "setSourceEnabled source on st = (if source \<notin> set SOURCES then st
     else let next = next_sources source on (current st) in
       if length next = length (current st) then st else publish next st)"

text \<open>\<open>sourceOf\<close>: a row written before the source column existed carries none, or an empty one.\<close>

definition sourceOf :: "string option \<Rightarrow> string" where
  "sourceOf src = (case src of Some s \<Rightarrow> if s = [] then CITIZEN_SOURCE else s | None \<Rightarrow> CITIZEN_SOURCE)"

section \<open>Features and the filters over them\<close>

text \<open>The properties of a GeoJSON feature that the filters read; markers and cells extend it.\<close>

record feature =
  f_value :: jsval
  f_faulty :: bool
  f_source :: "string option"

definition filterBySource :: "'a feature_scheme list \<Rightarrow> string list \<Rightarrow> 'a feature_scheme list" where
  "filterBySource features enabled = filter (\<lambda>f. sourceOf (f_source f) \<in> set enabled) features"

datatype status = All_Sensors | Active | Inactive

text \<open>The setter takes any string; \<open>parse_status\<close> is the membership test in \<open>STATUSES\<close>.\<close>

definition parse_status :: "string \<Rightarrow> status option" where
  "parse_status s = (if s = ''all'' then Some All_Sensors else if s = ''active'' then Some Active
     else if s = ''inactive'' then Some Inactive else None)"

definition init_status :: "status observed" where
  "init_status = \<lparr>current = Active, listeners = [], calls = []\<rparr>"

definition setSensorStatus :: "string \<Rightarrow> status observed \<Rightarrow> status observed" where
  "setSensorStatus s st = (case parse_status s of None \<Rightarrow> st
     | Some v \<Rightarrow> if v = current st then st else publish v st)"

fun filterByStatus :: "'a feature_scheme list \<Rightarrow> status \<Rightarrow> 'a feature_scheme list" where
  "filterByStatus features Active = filter (\<lambda>f. f_value f \<noteq> JNull) features"
| "filterByStatus features Inactive = filter (\<lambda>f. f_value f = JNull) features"
| "filterByStatus features All_Sensors = features"

definition init_faulty :: "bool observed" where
  "init_faulty = \<lparr>current = False, listeners = [], calls = []\<rparr>"

definition setShowFaulty :: "bool \<Rightarrow> bool observed \<Rightarrow> bool observed" where
  "setShowFaulty on st = (if on = current st then st else publish on st)"

definition filterFaulty :: "'a feature_scheme list \<Rightarrow> bool \<Rightarrow> 'a feature_scheme list" where
  "filterFaulty features showFaulty = (if showFaulty then features else filter (\<lambda>f. \<not> f_faulty f) features)"

definition filterSensorFeatures ::
    "'a feature_scheme list \<Rightarrow> status \<Rightarrow> bool \<Rightarrow> 'a feature_scheme list" where
  "filterSensorFeatures features status showFaulty =
     (let healthy = filterByStatus (filter (\<lambda>f. \<not> f_faulty f) features) status
      in if showFaulty then healthy @ filter f_faulty features else healthy)"

section \<open>The filters provide the interface\<close>

lemma filter_neq_length: "length (filter (\<lambda>s. s \<noteq> x) xs) = length xs \<longleftrightarrow> filter (\<lambda>s. s \<noteq> x) xs = xs"
  by (metis filter_id_conv length_filter_less less_not_refl)

lemma next_sources_length:
  "length (next_sources s on xs) = length xs \<longleftrightarrow> next_sources s on xs = xs"
  by (cases on) (auto simp: next_sources_def set_add_def filter_neq_length)

interpretation src: observable "\<lambda>(s, on). setSourceEnabled s on"
    "\<lambda>(s, on) v. if s \<in> set SOURCES then next_sources s on v else v"
    "\<lambda>v. distinct v \<and> set v \<subseteq> set SOURCES"
  by unfold_locales (auto simp: setSourceEnabled_def next_sources_length Let_def,
    auto simp: next_sources_def set_add_def split: if_splits)

interpretation stat: observable setSensorStatus
    "\<lambda>s v. case parse_status s of Some w \<Rightarrow> w | None \<Rightarrow> v" "\<lambda>_. True"
  by unfold_locales (auto simp: setSensorStatus_def split: option.splits)

interpretation faulty: observable setShowFaulty "\<lambda>on _. on" "\<lambda>_. True"
  by unfold_locales (auto simp: setShowFaulty_def)

lemma set_filterByStatus_split:
  "length (filterByStatus fs Active) + length (filterByStatus fs Inactive) = length fs"
  by (induction fs) auto

end
