(* ===== verification/View_State.thy ===== *)
theory View_State
  imports Url_Params Storage Filters
begin

text \<open>
  The URL hash as the single source of truth for the client's state: \<open>web/src/lib/viewstate.js\<close>
  (\<open>parseHash\<close>, \<open>serialiseHash\<close>) and the store over it, \<open>web/src/lib/viewstate.svelte.js\<close>
  (\<open>createViewState\<close>): the metric, the open sensor, the sources of \<open>Filters\<close>, the browser's
  session history and the two directions in which they are kept in step. The store runs over
  events: the writes the islands ask for, and the \<open>hashchange\<close> of Back, Forward and links.
\<close>

section \<open>Reading and writing the hash\<close>

record view =
  v_metric :: string
  v_sensor :: "nat option"
  v_sources :: "string list"

definition strip_hash :: "string \<Rightarrow> string" where
  "strip_hash h = (case h of c # t \<Rightarrow> if c = CHR ''#'' then t else h | [] \<Rightarrow> [])"

definition LAYER_TOKENS :: "(string \<times> string) list" where
  "LAYER_TOKENS = [(''community'', CITIZEN_SOURCE), (''official'', OFFICIAL_SOURCE)]"

definition parseSources :: "string option \<Rightarrow> string list" where
  "parseSources raw = (case raw of
      None \<Rightarrow> SOURCES
    | Some r \<Rightarrow> if r = ''none'' then [] else
        let found = map snd (filter (\<lambda>(token, source). token \<in> set (split_on CHR '','' r)) LAYER_TOKENS)
        in if found = [] then SOURCES else found)"

definition parseSensorId :: "string option \<Rightarrow> nat option" where
  "parseSensorId raw = (case raw of
      None \<Rightarrow> None
    | Some r \<Rightarrow> if r = [] then None else
        (case string_to_number r of
           Fin n \<Rightarrow> if \<not> is_integer n \<or> n \<le> 0 then None else Some (nat \<lfloor>n\<rfloor>)
         | _ \<Rightarrow> None))"

definition parseHash :: "string list \<Rightarrow> string \<Rightarrow> string \<Rightarrow> view" where
  "parseHash metrics defaultMetric hash = (let params = params_parse (strip_hash hash) in
     \<lparr>v_metric = (case params_get params ''metric'' of
         Some m \<Rightarrow> if m \<in> set metrics then m else defaultMetric
       | None \<Rightarrow> defaultMetric),
      v_sensor = parseSensorId (params_get params ''sensor''),
      v_sources = parseSources (params_get params ''layers'')\<rparr>)"

definition serialiseSources :: "string list option \<Rightarrow> string option" where
  "serialiseSources srcs = (case srcs of
      None \<Rightarrow> None
    | Some s \<Rightarrow> if length s = length SOURCES then None
        else if length s = 0 then Some ''none''
        else Some (join_with '','' (map fst (filter (\<lambda>(token, source). source \<in> set s) LAYER_TOKENS))))"

definition set_opt :: "string \<Rightarrow> string option \<Rightarrow> url_params \<Rightarrow> url_params" where
  "set_opt k v ps = (case v of None \<Rightarrow> ps | Some x \<Rightarrow> params_set ps k x)"

definition hash_params :: "string \<Rightarrow> string \<Rightarrow> nat option \<Rightarrow> string list option \<Rightarrow> url_params" where
  "hash_params defaultMetric metric sensorId srcs = (let
      p1 = (if metric \<noteq> [] \<and> metric \<noteq> defaultMetric then params_set [] ''metric'' metric else []);
      p2 = set_opt ''sensor'' (map_option nat_str sensorId) p1
    in set_opt ''layers'' (serialiseSources srcs) p2)"

definition serialiseHash :: "string \<Rightarrow> string \<Rightarrow> nat option \<Rightarrow> string list option \<Rightarrow> string" where
  "serialiseHash defaultMetric metric sensorId srcs =
     (let query = params_string (hash_params defaultMetric metric sensorId srcs)
      in if query \<noteq> [] then CHR ''#'' # query else [])"

lemma params_get_set_opt [simp]:
  "params_get (set_opt k v ps) j = (if j = k \<and> v \<noteq> None then v else params_get ps j)"
  by (auto simp: set_opt_def split: option.splits)

lemma params_parse_Nil [simp]: "params_parse [] = []"
  by (simp add: params_parse_def)

lemma strip_serialised [simp]:
  "params_parse (strip_hash (serialiseHash dm m i srcs)) = hash_params dm m i srcs"
  by (cases "hash_params dm m i srcs = []") (simp_all add: serialiseHash_def Let_def strip_hash_def)

lemma params_get_single [simp]: "params_get [(k, v)] j = (if j = k then Some v else None)"
  by (simp add: params_get_def)

lemma hash_params_get [simp]:
  "params_get (hash_params dm m i srcs) ''metric'' = (if m \<noteq> [] \<and> m \<noteq> dm then Some m else None)"
  "params_get (hash_params dm m i srcs) ''sensor'' = map_option nat_str i"
  "params_get (hash_params dm m i srcs) ''layers'' = serialiseSources srcs"
  by (simp_all add: hash_params_def Let_def)

lemma parse_serialise_sensor:
  "i \<noteq> Some 0 \<Longrightarrow> parseSensorId (map_option nat_str i) = i"
  by (cases i) (auto simp: parseSensorId_def)

lemma source_selection:
  assumes "distinct s" "set s \<subseteq> set SOURCES"
  shows "s \<in> {[], [CITIZEN_SOURCE], [OFFICIAL_SOURCE], [CITIZEN_SOURCE, OFFICIAL_SOURCE], [OFFICIAL_SOURCE, CITIZEN_SOURCE]}"
proof -
  have "length s \<le> 2" using assms by (metis SOURCES_simps(2,3) card_mono distinct_card List.finite_set)
  then consider "s = []" | a where "s = [a]" | a b where "s = [a, b]"
    by (cases s; cases "tl s") auto
  then show ?thesis using assms by cases auto
qed

lemma parse_serialise_sources:
  assumes "distinct s" "set s \<subseteq> set SOURCES"
  shows "set (parseSources (serialiseSources (Some s))) = set s"
proof -
  have "parseSources (Some ''community'') = [CITIZEN_SOURCE]" "parseSources (Some ''official'') = [OFFICIAL_SOURCE]"
    by (simp_all add: parseSources_def LAYER_TOKENS_def)
  with source_selection [OF assms] show ?thesis
    by (auto simp: serialiseSources_def LAYER_TOKENS_def parseSources_def [of None] parseSources_def [of "Some ''none''"])
qed

lemma parseSources_wf: "distinct (parseSources raw) \<and> set (parseSources raw) \<subseteq> set SOURCES"
  by (auto simp: parseSources_def LAYER_TOKENS_def Let_def split: option.splits)

lemma parseSensorId_pos: "parseSensorId raw \<noteq> Some 0"
  by (auto simp: parseSensorId_def is_integer_def split: option.splits jsnum.splits if_splits)

text \<open>Two views are the same when they differ at most in the order of the source set.\<close>

definition same_view :: "view \<Rightarrow> view \<Rightarrow> bool" where
  "same_view a b \<longleftrightarrow> v_metric a = v_metric b \<and> v_sensor a = v_sensor b \<and> set (v_sources a) = set (v_sources b)"

definition view_wf :: "string list \<Rightarrow> string \<Rightarrow> view \<Rightarrow> bool" where
  "view_wf metrics defaultMetric v \<longleftrightarrow> (v_metric v = defaultMetric \<or> v_metric v \<in> set metrics \<and> v_metric v \<noteq> [])
     \<and> v_sensor v \<noteq> Some 0 \<and> distinct (v_sources v) \<and> set (v_sources v) \<subseteq> set SOURCES"

lemma parseHash_wf:
  "[] \<notin> set metrics \<Longrightarrow> view_wf metrics dm (parseHash metrics dm h)"
  using parseSources_wf parseSensorId_pos
  by (auto simp: view_wf_def parseHash_def Let_def split: option.splits)

lemma parse_serialise:
  assumes "view_wf metrics dm v"
  shows "same_view (parseHash metrics dm (serialiseHash dm (v_metric v) (v_sensor v) (Some (v_sources v)))) v"
  using assms parse_serialise_sensor [of "v_sensor v"] parse_serialise_sources [of "v_sources v"]
  by (auto simp: parseHash_def same_view_def view_wf_def Let_def)

section \<open>The store\<close>

text \<open>
  The session history is the current hash with the entries behind and ahead of it. A history
  write may throw (browsers limit their rate). \<open>notified\<close> is what the metric listeners were
  called with. Listener 0 of the source filter is the store's own.
\<close>

record store =
  metric :: string
  sensorId :: "nat option"
  srcs :: "string list observed"
  writing :: bool
  behind :: "string list"
  here :: string
  ahead :: "string list"
  notified :: "string list"

definition view_of :: "store \<Rightarrow> view" where
  "view_of st = \<lparr>v_metric = metric st, v_sensor = sensorId st, v_sources = current (srcs st)\<rparr>"

definition VIEW_LISTENER :: nat where
  "VIEW_LISTENER = 0"

text \<open>\<open>write(push)\<close>; the flag \<open>writing\<close> is reset whether or not the call throws.\<close>

definition writeHash :: "string \<Rightarrow> bool \<Rightarrow> bool \<Rightarrow> store \<Rightarrow> js_error option \<times> store" where
  "writeHash defaultMetric throws push st =
     (let hash = serialiseHash defaultMetric (metric st) (sensorId st) (Some (current (srcs st)));
          st' = st\<lparr>writing := False\<rparr>
      in if throws then (Some Thrown, st')
         else if push then (None, st'\<lparr>behind := here st # behind st, here := hash, ahead := []\<rparr>)
         else (None, st'\<lparr>here := hash\<rparr>))"

text \<open>
  \<open>setSourceEnabled\<close> as the page runs it: when the store's listener is called it writes the
  hash, unless the store is the one applying the change.
\<close>

definition set_source :: "string \<Rightarrow> bool \<Rightarrow> string \<Rightarrow> bool \<Rightarrow> store \<Rightarrow> js_error option \<times> store" where
  "set_source defaultMetric throws source on st =
     (let next = setSourceEnabled source on (srcs st); st' = st\<lparr>srcs := next\<rparr>
      in if told VIEW_LISTENER next \<noteq> told VIEW_LISTENER (srcs st) \<and> \<not> writing st
         then writeHash defaultMetric throws False st' else (None, st'))"

definition applySources :: "string \<Rightarrow> string list \<Rightarrow> store \<Rightarrow> store" where
  "applySources defaultMetric target st = foldl (\<lambda>s source.
     let want = source \<in> set target in
     if (source \<in> set (current (srcs s))) \<noteq> want then snd (set_source defaultMetric False source want s) else s) st SOURCES"

definition createViewState :: "string list \<Rightarrow> string \<Rightarrow> string list observed \<Rightarrow> string \<Rightarrow> store" where
  "createViewState metrics defaultMetric sourceFilter hash =
     (let initial = parseHash metrics defaultMetric hash;
          st = applySources defaultMetric (v_sources initial)
            \<lparr>metric = v_metric initial, sensorId = v_sensor initial, srcs = sourceFilter, writing = False,
             behind = [], here = hash, ahead = [], notified = []\<rparr>
      in st\<lparr>srcs := subscribe VIEW_LISTENER (srcs st)\<rparr>)"

definition onHashChange :: "string list \<Rightarrow> string \<Rightarrow> store \<Rightarrow> store" where
  "onHashChange metrics defaultMetric st = (if writing st then st
     else let next = parseHash metrics defaultMetric (here st);
              s1 = applySources defaultMetric (v_sources next)
                (st\<lparr>metric := v_metric next, sensorId := v_sensor next, writing := True\<rparr>);
              s2 = s1\<lparr>writing := False\<rparr>
          in s2\<lparr>notified := notified s2 @ [metric s2]\<rparr>)"

definition setMetric :: "string list \<Rightarrow> string \<Rightarrow> bool \<Rightarrow> string \<Rightarrow> store \<Rightarrow> js_error option \<times> store" where
  "setMetric metrics defaultMetric throws next st =
     (if next \<notin> set metrics \<or> next = metric st then (None, st)
      else (case writeHash defaultMetric throws False (st\<lparr>metric := next\<rparr>) of
          (Some e, s1) \<Rightarrow> (Some e, s1)
        | (None, s1) \<Rightarrow> (None, s1\<lparr>notified := notified s1 @ [metric s1]\<rparr>)))"

definition openSensor :: "string \<Rightarrow> bool \<Rightarrow> nat \<Rightarrow> store \<Rightarrow> js_error option \<times> store" where
  "openSensor defaultMetric throws i st = (if Some i = sensorId st then (None, st)
     else writeHash defaultMetric throws True (st\<lparr>sensorId := Some i\<rparr>))"

definition closeSensor :: "string \<Rightarrow> bool \<Rightarrow> store \<Rightarrow> js_error option \<times> store" where
  "closeSensor defaultMetric throws st = (if sensorId st = None then (None, st)
     else writeHash defaultMetric throws True (st\<lparr>sensorId := None\<rparr>))"

text \<open>The browser: Back, Forward and following a link fire \<open>hashchange\<close> when the hash differs.\<close>

definition arrive :: "string list \<Rightarrow> string \<Rightarrow> string \<Rightarrow> store \<Rightarrow> store" where
  "arrive metrics defaultMetric old st = (if here st = old then st else onHashChange metrics defaultMetric st)"

definition at_entry :: "string list \<Rightarrow> string \<Rightarrow> string list \<Rightarrow> store \<Rightarrow> store" where
  "at_entry b h a st = st\<lparr>behind := b, here := h, ahead := a\<rparr>"

definition go_back :: "string list \<Rightarrow> string \<Rightarrow> store \<Rightarrow> store" where
  "go_back metrics defaultMetric st = (case behind st of [] \<Rightarrow> st
     | h # hs \<Rightarrow> arrive metrics defaultMetric (here st) (at_entry hs h (here st # ahead st) st))"

definition go_forward :: "string list \<Rightarrow> string \<Rightarrow> store \<Rightarrow> store" where
  "go_forward metrics defaultMetric st = (case ahead st of [] \<Rightarrow> st
     | h # hs \<Rightarrow> arrive metrics defaultMetric (here st) (at_entry (here st # behind st) h hs st))"

definition follow_link :: "string list \<Rightarrow> string \<Rightarrow> string \<Rightarrow> store \<Rightarrow> store" where
  "follow_link metrics defaultMetric h st = (if h = here st then st
     else onHashChange metrics defaultMetric (at_entry (here st # behind st) h [] st))"

datatype view_event =
    Set_Metric string
  | Open_Sensor nat
  | Close_Sensor
  | Toggle_Source string bool
  | Back
  | Forward
  | Link string

text \<open>One event, when the history write it makes is refused (\<open>throws\<close>) or not.\<close>

fun view_step :: "string list \<Rightarrow> string \<Rightarrow> bool \<Rightarrow> view_event \<Rightarrow> store \<Rightarrow> js_error option \<times> store" where
  "view_step metrics dm throws (Set_Metric m) st = setMetric metrics dm throws m st"
| "view_step metrics dm throws (Open_Sensor i) st = openSensor dm throws i st"
| "view_step metrics dm throws Close_Sensor st = closeSensor dm throws st"
| "view_step metrics dm throws (Toggle_Source s on) st = set_source dm throws s on st"
| "view_step metrics dm throws Back st = (None, go_back metrics dm st)"
| "view_step metrics dm throws Forward st = (None, go_forward metrics dm st)"
| "view_step metrics dm throws (Link h) st = (None, follow_link metrics dm h st)"

fun view_event_ok :: "view_event \<Rightarrow> bool" where
  "view_event_ok (Open_Sensor i) = (0 < i)"
| "view_event_ok _ = True"

definition view_run :: "string list \<Rightarrow> string \<Rightarrow> view_event list \<Rightarrow> store \<Rightarrow> store" where
  "view_run metrics dm es st = foldl (\<lambda>s e. snd (view_step metrics dm False e s)) st es"

section \<open>The hash says what the store holds\<close>

definition store_wf :: "string list \<Rightarrow> string \<Rightarrow> store \<Rightarrow> bool" where
  "store_wf metrics dm st \<longleftrightarrow> view_wf metrics dm (view_of st) \<and> \<not> writing st
     \<and> distinct (listeners (srcs st)) \<and> VIEW_LISTENER \<in> set (listeners (srcs st))"

definition in_step :: "string list \<Rightarrow> string \<Rightarrow> store \<Rightarrow> bool" where
  "in_step metrics dm st \<longleftrightarrow> same_view (parseHash metrics dm (here st)) (view_of st)"

text \<open>The source filter's own facts, in the form the store uses them.\<close>

lemma setSource_current:
  assumes "distinct (current o1)" "set (current o1) \<subseteq> set SOURCES"
  shows "current (setSourceEnabled s on o1) = (if s \<in> set SOURCES then next_sources s on (current o1) else current o1)"
    "listeners (setSourceEnabled s on o1) = listeners o1"
    "distinct (current (setSourceEnabled s on o1)) \<and> set (current (setSourceEnabled s on o1)) \<subseteq> set SOURCES"
  using src.assign_current [of o1 "(s, on)"] src.assign_listeners [of o1 "(s, on)"] src.assign_ok [of o1 "(s, on)"] assms
  by simp_all

lemma setSource_told:
  assumes "distinct (current o1)" "set (current o1) \<subseteq> set SOURCES" "distinct (listeners o1)" "f \<in> set (listeners o1)"
  shows "told f (setSourceEnabled s on o1) = told f o1 \<longleftrightarrow> current (setSourceEnabled s on o1) = current o1"
  using src.assign_told [of o1 f "(s, on)"] src.assign_current [of o1 "(s, on)"] assms by simp

lemma told_publish_unsubscribed: "f \<notin> set (listeners o1) \<Longrightarrow> told f (publish v o1) = told f o1"
  by (auto simp: told_def publish_def filter_empty_conv)

text \<open>While the store is writing, or not subscribed, a source change only changes the source.\<close>

definition quiet :: "store \<Rightarrow> bool" where
  "quiet st \<longleftrightarrow> writing st \<or> VIEW_LISTENER \<notin> set (listeners (srcs st))"

lemma set_source_quiet:
  assumes "quiet st" "distinct (current (srcs st))" "set (current (srcs st)) \<subseteq> set SOURCES"
  shows "set_source dm thr s on st = (None, st\<lparr>srcs := setSourceEnabled s on (srcs st)\<rparr>)"
proof -
  have "told VIEW_LISTENER (setSourceEnabled s on (srcs st)) = told VIEW_LISTENER (srcs st) \<or> writing st"
    using assms(1) by (auto simp: quiet_def setSourceEnabled_def Let_def told_publish_unsubscribed)
  then show ?thesis by (auto simp: set_source_def Let_def)
qed

definition same_but_sources :: "store \<Rightarrow> store \<Rightarrow> bool" where
  "same_but_sources a b \<longleftrightarrow> a\<lparr>srcs := srcs b\<rparr> = b"

lemma applySources_quiet:
  assumes q: "quiet st" and d: "distinct (current (srcs st))" "set (current (srcs st)) \<subseteq> set SOURCES"
    and t: "set target \<subseteq> set SOURCES"
  shows "set (current (srcs (applySources dm target st))) = set target
    \<and> distinct (current (srcs (applySources dm target st)))
    \<and> listeners (srcs (applySources dm target st)) = listeners (srcs st)
    \<and> (applySources dm target st)\<lparr>srcs := srcs st\<rparr> = st"
proof -
  define f where "f = (\<lambda>s source. let want = source \<in> set target in
     if (source \<in> set (current (srcs s))) \<noteq> want then snd (set_source dm False source want s) else s)"
  have f: "set (current (srcs (f s x))) = (if x \<in> set target then insert x (set (current (srcs s))) else set (current (srcs s)) - {x})
     \<and> distinct (current (srcs (f s x))) \<and> listeners (srcs (f s x)) = listeners (srcs s)
     \<and> quiet (f s x) \<and> (f s x)\<lparr>srcs := srcs st\<rparr> = s\<lparr>srcs := srcs st\<rparr>"
    if "quiet s" "distinct (current (srcs s))" "set (current (srcs s)) \<subseteq> set SOURCES" "x \<in> set SOURCES" for s x
    using that(1-3) setSource_current [of "srcs s" x "x \<in> set target"] that(2-4)
    by (auto simp: f_def Let_def set_source_quiet next_sources_def quiet_def)
  have "applySources dm target st = f (f st CITIZEN_SOURCE) OFFICIAL_SOURCE"
    by (simp add: applySources_def f_def SOURCES_def)
  moreover have sub: "set (current (srcs (f st CITIZEN_SOURCE))) \<subseteq> set SOURCES"
    using f [OF q d, of CITIZEN_SOURCE] d by auto
  ultimately show ?thesis
    using f [OF q d, of CITIZEN_SOURCE] f [of "f st CITIZEN_SOURCE" OFFICIAL_SOURCE] sub d t by auto
qed

lemma at_entry_simps [simp]:
  "store_wf metrics dm (at_entry b h a st) = store_wf metrics dm st"
  "view_of (at_entry b h a st) = view_of st"
  "here (at_entry b h a st) = h" "behind (at_entry b h a st) = b" "ahead (at_entry b h a st) = a"
  by (simp_all add: at_entry_def store_wf_def view_of_def)

lemma same_view_trans: "same_view a b \<Longrightarrow> same_view b c \<Longrightarrow> same_view a c"
  by (simp add: same_view_def)

lemma same_view_sym: "same_view a b \<Longrightarrow> same_view b a"
  by (simp add: same_view_def)

definition told_metric :: "string \<Rightarrow> store \<Rightarrow> bool" where
  "told_metric m0 st \<longleftrightarrow> metric st = last (m0 # notified st)"

lemma at_entry_more [simp]:
  "told_metric m0 (at_entry b h a st) = told_metric m0 st"
  "in_step metrics dm (at_entry b (here st) a st) = in_step metrics dm st"
  by (simp_all add: at_entry_def told_metric_def in_step_def view_of_def)

lemma write_in_step:
  assumes "store_wf metrics dm st"
  shows "in_step metrics dm (snd (writeHash dm False push st))"
    "store_wf metrics dm (snd (writeHash dm False push st))"
  using assms parse_serialise [of metrics dm "view_of st"]
  by (simp_all add: in_step_def writeHash_def Let_def store_wf_def view_of_def)

lemma write_simps [simp]:
  "metric (snd (writeHash dm thr push st)) = metric st"
  "sensorId (snd (writeHash dm thr push st)) = sensorId st"
  "srcs (snd (writeHash dm thr push st)) = srcs st"
  "notified (snd (writeHash dm thr push st)) = notified st"
  "view_of (snd (writeHash dm thr push st)) = view_of st"
  "\<not> writing (snd (writeHash dm thr push st))"
  "fst (writeHash dm thr push st) = (if thr then Some Thrown else None)"
  by (simp_all add: writeHash_def Let_def view_of_def)

lemma onHashChange_sync:
  assumes "store_wf metrics dm st" "[] \<notin> set metrics"
  shows "in_step metrics dm (onHashChange metrics dm st)" "store_wf metrics dm (onHashChange metrics dm st)"
    "told_metric m0 (onHashChange metrics dm st)" "here (onHashChange metrics dm st) = here st"
    "behind (onHashChange metrics dm st) = behind st" "ahead (onHashChange metrics dm st) = ahead st"
proof -
  let ?n = "parseHash metrics dm (here st)"
  let ?s0 = "st\<lparr>metric := v_metric ?n, sensorId := v_sensor ?n, writing := True\<rparr>"
  let ?s1 = "applySources dm (v_sources ?n) ?s0"
  have wf: "view_wf metrics dm ?n" using assms(2) by (rule parseHash_wf)
  have q: "quiet ?s0" by (simp add: quiet_def)
  have d: "distinct (current (srcs ?s0))" "set (current (srcs ?s0)) \<subseteq> set SOURCES" "\<not> writing st"
    using assms(1) by (auto simp: store_wf_def view_wf_def view_of_def)
  have t: "set (v_sources ?n) \<subseteq> set SOURCES" using wf by (simp add: view_wf_def)
  note a = applySources_quiet [OF q d(1,2) t, of dm]
  then have e: "?s1\<lparr>srcs := srcs st\<rparr> = ?s0" by simp
  have f: "metric ?s1 = v_metric ?n" "sensorId ?s1 = v_sensor ?n" "here ?s1 = here st"
      "behind ?s1 = behind st" "ahead ?s1 = ahead st"
    using arg_cong [OF e, of metric] arg_cong [OF e, of sensorId] arg_cong [OF e, of here]
      arg_cong [OF e, of behind] arg_cong [OF e, of ahead] by simp_all
  from a f wf assms(1) d(3) show "in_step metrics dm (onHashChange metrics dm st)"
    "store_wf metrics dm (onHashChange metrics dm st)"
    "told_metric m0 (onHashChange metrics dm st)"
    "here (onHashChange metrics dm st) = here st"
    "behind (onHashChange metrics dm st) = behind st"
    "ahead (onHashChange metrics dm st) = ahead st"
    by (simp_all add: onHashChange_def Let_def in_step_def same_view_def view_of_def store_wf_def
        view_wf_def told_metric_def)
qed

lemma setSource_wf:
  assumes "store_wf metrics dm st"
  shows "store_wf metrics dm (st\<lparr>srcs := setSourceEnabled s on (srcs st)\<rparr>)"
  using assms setSource_current [of "srcs st" s on] by (simp add: store_wf_def view_wf_def view_of_def)

lemma set_source_sync:
  assumes "store_wf metrics dm st" "in_step metrics dm st"
  shows "in_step metrics dm (snd (set_source dm False s on st))"
    "store_wf metrics dm (snd (set_source dm False s on st))"
    "told_metric m0 st \<Longrightarrow> told_metric m0 (snd (set_source dm False s on st))"
proof -
  let ?o = "setSourceEnabled s on (srcs st)" and ?st = "st\<lparr>srcs := setSourceEnabled s on (srcs st)\<rparr>"
  have o: "told VIEW_LISTENER ?o = told VIEW_LISTENER (srcs st) \<longleftrightarrow> current ?o = current (srcs st)"
    using assms(1) by (intro setSource_told) (simp_all add: store_wf_def view_wf_def view_of_def)
  have w: "\<not> writing st" using assms(1) by (simp add: store_wf_def)
  have eq: "snd (set_source dm False s on st) =
      (if current ?o = current (srcs st) then ?st else snd (writeHash dm False False ?st))"
    using o w by (simp add: set_source_def Let_def)
  show "in_step metrics dm (snd (set_source dm False s on st))"
    using assms(2) write_in_step(1) [OF setSource_wf [OF assms(1)]]
    by (simp add: eq in_step_def view_of_def)
  show "store_wf metrics dm (snd (set_source dm False s on st))"
    using setSource_wf [OF assms(1)] write_in_step(2) [OF setSource_wf [OF assms(1)]] by (simp add: eq)
  show "told_metric m0 st \<Longrightarrow> told_metric m0 (snd (set_source dm False s on st))"
    by (simp add: eq told_metric_def)
qed

lemma setMetric_sync:
  assumes "store_wf metrics dm st" "in_step metrics dm st" "told_metric m0 st" "[] \<notin> set metrics"
  shows "in_step metrics dm (snd (setMetric metrics dm False m st)) \<and> store_wf metrics dm (snd (setMetric metrics dm False m st))
    \<and> told_metric m0 (snd (setMetric metrics dm False m st))"
proof (cases "m \<notin> set metrics \<or> m = metric st")
  case False
  then have wf: "store_wf metrics dm (st\<lparr>metric := m\<rparr>)"
    using assms(1,4) by (auto simp: store_wf_def view_wf_def view_of_def)
  from write_in_step [OF wf, of False] False show ?thesis
    by (auto simp: setMetric_def in_step_def store_wf_def view_of_def told_metric_def writeHash_def Let_def)
qed (use assms in \<open>auto simp: setMetric_def\<close>)

lemma arrive_sync:
  assumes "store_wf metrics dm st" "told_metric m0 st" "[] \<notin> set metrics"
    "here st = old \<Longrightarrow> in_step metrics dm st"
  shows "in_step metrics dm (arrive metrics dm old st) \<and> store_wf metrics dm (arrive metrics dm old st)
    \<and> told_metric m0 (arrive metrics dm old st)"
  using assms onHashChange_sync [OF assms(1,3)] by (simp add: arrive_def)

lemma arrive_at_sync:
  assumes "store_wf metrics dm st" "in_step metrics dm st" "told_metric m0 st" "[] \<notin> set metrics"
  shows "in_step metrics dm (arrive metrics dm (here st) (at_entry b h a st))
    \<and> store_wf metrics dm (arrive metrics dm (here st) (at_entry b h a st))
    \<and> told_metric m0 (arrive metrics dm (here st) (at_entry b h a st))"
proof (rule arrive_sync)
  show "in_step metrics dm (at_entry b h a st)" if "here (at_entry b h a st) = here st"
    using that assms(2) by simp
qed (use assms in simp_all)

lemma view_step_sync:
  assumes "store_wf metrics dm st" "in_step metrics dm st" "told_metric m0 st" "[] \<notin> set metrics" "view_event_ok e"
  shows "in_step metrics dm (snd (view_step metrics dm False e st)) \<and> store_wf metrics dm (snd (view_step metrics dm False e st))
    \<and> told_metric m0 (snd (view_step metrics dm False e st))"
proof (cases e)
  case (Set_Metric m)
  with setMetric_sync assms show ?thesis by simp
next
  case (Open_Sensor i)
  with assms have wf: "store_wf metrics dm (st\<lparr>sensorId := Some i\<rparr>)"
    by (simp add: store_wf_def view_wf_def view_of_def)
  from write_in_step [OF this, of True] assms Open_Sensor show ?thesis
    by (simp add: openSensor_def told_metric_def)
next
  case Close_Sensor
  from assms have wf: "store_wf metrics dm (st\<lparr>sensorId := None\<rparr>)"
    by (simp add: store_wf_def view_wf_def view_of_def)
  from write_in_step [OF this, of True] assms Close_Sensor show ?thesis
    by (simp add: closeSensor_def told_metric_def)
next
  case (Toggle_Source s on)
  with set_source_sync assms show ?thesis by simp
next
  case Back
  then show ?thesis using assms arrive_at_sync [OF assms(1-4)]
    by (cases "behind st") (simp_all add: go_back_def)
next
  case Forward
  then show ?thesis using assms arrive_at_sync [OF assms(1-4)]
    by (cases "ahead st") (simp_all add: go_forward_def)
next
  case (Link h)
  have "store_wf metrics dm (at_entry (here st # behind st) h [] st)" using assms(1) by simp
  from onHashChange_sync [OF this assms(4)] Link assms show ?thesis by (simp add: follow_link_def)
qed

lemma view_run_sync:
  assumes "store_wf metrics dm st" "in_step metrics dm st" "told_metric m0 st" "[] \<notin> set metrics" "list_all view_event_ok es"
  shows "in_step metrics dm (view_run metrics dm es st) \<and> store_wf metrics dm (view_run metrics dm es st)
    \<and> told_metric m0 (view_run metrics dm es st)"
  using assms
proof (induction es arbitrary: st)
  case (Cons e es)
  from Cons.prems view_step_sync [OF Cons.prems(1-4), of e]
  have "in_step metrics dm (view_run metrics dm es (snd (view_step metrics dm False e st)))
    \<and> store_wf metrics dm (view_run metrics dm es (snd (view_step metrics dm False e st)))
    \<and> told_metric m0 (view_run metrics dm es (snd (view_step metrics dm False e st)))"
    by (intro Cons.IH) auto
  then show ?case by (simp add: view_run_def)
qed (simp add: view_run_def)

lemma create_sync:
  assumes "[] \<notin> set metrics"
  shows "in_step metrics dm (createViewState metrics dm init_sources h)"
    "store_wf metrics dm (createViewState metrics dm init_sources h)"
    "told_metric (v_metric (parseHash metrics dm h)) (createViewState metrics dm init_sources h)"
proof -
  let ?n = "parseHash metrics dm h"
  let ?s0 = "\<lparr>metric = v_metric ?n, sensorId = v_sensor ?n, srcs = init_sources, writing = False,
             behind = [], here = h, ahead = [], notified = []\<rparr>"
  let ?s1 = "applySources dm (v_sources ?n) ?s0"
  have wf: "view_wf metrics dm ?n" using assms by (rule parseHash_wf)
  have q: "quiet ?s0" by (simp add: quiet_def init_sources_def)
  have d: "distinct (current (srcs ?s0))" "set (current (srcs ?s0)) \<subseteq> set SOURCES"
    by (simp_all add: init_sources_def)
  have t: "set (v_sources ?n) \<subseteq> set SOURCES" using wf by (simp add: view_wf_def)
  note a = applySources_quiet [OF q d t, of dm]
  then have e: "?s1\<lparr>srcs := init_sources\<rparr> = ?s0" by simp
  have f: "metric ?s1 = v_metric ?n" "sensorId ?s1 = v_sensor ?n" "here ?s1 = h" "writing ?s1 = False" "notified ?s1 = []"
    using arg_cong [OF e, of metric] arg_cong [OF e, of sensorId] arg_cong [OF e, of here]
      arg_cong [OF e, of writing] arg_cong [OF e, of notified] by simp_all
  from a f wf show "in_step metrics dm (createViewState metrics dm init_sources h)"
    "store_wf metrics dm (createViewState metrics dm init_sources h)"
    "told_metric (v_metric ?n) (createViewState metrics dm init_sources h)"
    by (simp_all add: createViewState_def Let_def in_step_def same_view_def view_of_def store_wf_def
        view_wf_def told_metric_def subscribe_def init_sources_def)
qed

lemma refused_step:
  assumes "[] \<notin> set metrics" "store_wf metrics dm st" "view_event_ok e"
    and "view_step metrics dm True e st = (err, st')"
  shows "store_wf metrics dm st' \<and> (err \<noteq> None \<longrightarrow> here st' = here st \<and> behind st' = behind st \<and> ahead st' = ahead st)"
proof -
  have arr: "store_wf metrics dm (arrive metrics dm old s)" if "store_wf metrics dm s" for s old
    using onHashChange_sync(2) [OF that assms(1)] that by (simp add: arrive_def)
  show ?thesis
  proof (cases e)
    case (Set_Metric m)
    with assms show ?thesis
      by (auto simp: setMetric_def writeHash_def Let_def store_wf_def view_wf_def view_of_def split: if_splits)
  next
    case (Open_Sensor i)
    with assms show ?thesis
      by (auto simp: openSensor_def writeHash_def Let_def store_wf_def view_wf_def view_of_def split: if_splits)
  next
    case Close_Sensor
    with assms show ?thesis
      by (auto simp: closeSensor_def writeHash_def Let_def store_wf_def view_wf_def view_of_def split: if_splits)
  next
    case (Toggle_Source s on)
    with assms(4) setSource_wf [OF assms(2), of s on] show ?thesis
      by (auto simp: set_source_def writeHash_def Let_def store_wf_def view_of_def split: if_splits)
  next
    case Back
    with assms(2,4) show ?thesis
      by (cases "behind st") (auto simp: go_back_def intro!: arr)
  next
    case Forward
    with assms(2,4) show ?thesis
      by (cases "ahead st") (auto simp: go_forward_def intro!: arr)
  next
    case (Link h)
    have "store_wf metrics dm (at_entry (here st # behind st) h [] st)" using assms(2) by simp
    from onHashChange_sync(2) [OF this assms(1)] Link assms(2,4) show ?thesis
      by (auto simp: follow_link_def split: if_splits)
  qed
qed

section \<open>Properties\<close>

text \<open>C17. The hash is a faithful record of the view: parsing what \<open>serialiseHash\<close> writes gives
  back the metric, the open sensor and the set of sources.\<close>

theorem hash_round_trip:
  assumes "view_wf metrics dm v"
  shows "same_view (parseHash metrics dm (serialiseHash dm (v_metric v) (v_sensor v) (Some (v_sources v)))) v"
  using assms by (rule parse_serialise)

theorem hash_round_trip_witness:
  "same_view (parseHash [''P1'', ''P2''] ''P2'' (serialiseHash ''P2'' ''P1'' (Some 42) (Some [OFFICIAL_SOURCE])))
     \<lparr>v_metric = ''P1'', v_sensor = Some 42, v_sources = [OFFICIAL_SOURCE]\<rparr>"
  using hash_round_trip [of "[''P1'', ''P2'']" "''P2''" "\<lparr>v_metric = ''P1'', v_sensor = Some 42, v_sources = [OFFICIAL_SOURCE]\<rparr>"]
  by (simp add: view_wf_def)

text \<open>C18. Whatever the islands, the links and the Back button do, as long as the browser accepts the
  history writes, the address bar parses to exactly what the store holds, no write is left
  pending, and the listeners of the metric were last told the current one.\<close>

theorem store_and_hash_in_step:
  assumes "[] \<notin> set metrics" "list_all view_event_ok es"
  shows "let st = view_run metrics dm es (createViewState metrics dm init_sources h) in
     same_view (parseHash metrics dm (here st)) (view_of st) \<and> \<not> writing st
     \<and> metric st = last (v_metric (parseHash metrics dm h) # notified st)
     \<and> (metric st = dm \<or> metric st \<in> set metrics)"
proof -
  let ?st = "view_run metrics dm es (createViewState metrics dm init_sources h)"
  have "in_step metrics dm ?st" "store_wf metrics dm ?st" "told_metric (v_metric (parseHash metrics dm h)) ?st"
    using view_run_sync [OF create_sync(2,1,3) assms(1,2)] assms(1) by auto
  then show ?thesis
    unfolding Let_def in_step_def store_wf_def told_metric_def view_wf_def view_of_def by auto
qed

theorem store_and_hash_in_step_witness:
  "let st = view_run [''P1'', ''P2''] ''P2'' [Set_Metric ''P1'', Open_Sensor 7, Toggle_Source OFFICIAL_SOURCE False, Back, Link ''#metric=zz'']
       (createViewState [''P1'', ''P2''] ''P2'' init_sources ''#sensor=5'') in
     same_view (parseHash [''P1'', ''P2''] ''P2'' (here st)) (view_of st)"
  using store_and_hash_in_step [of "[''P1'', ''P2'']" "[Set_Metric ''P1'', Open_Sensor 7, Toggle_Source OFFICIAL_SOURCE False, Back, Link ''#metric=zz'']"
      "''P2''" "''#sensor=5''"]
  unfolding Let_def by simp

text \<open>Opening a sensor is a destination: Back returns to the view before it, with the same
  entries behind, and Forward then opens the sensor again.\<close>

theorem back_undoes_open_sensor:
  assumes "[] \<notin> set metrics" "list_all view_event_ok es" "0 < i"
    and "st = view_run metrics dm es (createViewState metrics dm init_sources h)" "sensorId st \<noteq> Some i"
  shows "let b = view_run metrics dm [Open_Sensor i, Back] st; f = view_run metrics dm [Forward] b in
     same_view (view_of b) (view_of st) \<and> behind b = behind st \<and> here b = here st
     \<and> sensorId f = Some i \<and> metric f = metric st"
proof -
  have st: "in_step metrics dm st" "store_wf metrics dm st" "told_metric (v_metric (parseHash metrics dm h)) st"
    using view_run_sync [OF create_sync(2,1,3) assms(1,2)] assms(1,4) by auto
  define s1 where "s1 = snd (openSensor dm False i st)"
  have s1: "in_step metrics dm s1" "store_wf metrics dm s1" "told_metric (v_metric (parseHash metrics dm h)) s1"
    using view_step_sync [OF st(2,1,3) assms(1), of "Open_Sensor i"] assms(3) by (simp_all add: s1_def)
  have v1: "behind s1 = here st # behind st" "view_of s1 = (view_of st)\<lparr>v_sensor := Some i\<rparr>"
    using assms(5) by (simp_all add: s1_def openSensor_def writeHash_def Let_def view_of_def)
  have ne: "here s1 \<noteq> here st"
    using st(1) s1(1) assms(5) v1(2) by (auto simp: in_step_def same_view_def view_of_def)
  define b where "b = snd (view_step metrics dm False Back s1)"
  have b: "in_step metrics dm b" "store_wf metrics dm b" "told_metric (v_metric (parseHash metrics dm h)) b"
    using view_step_sync [OF s1(2,1,3) assms(1), of Back] by (simp_all add: b_def)
  let ?m = "at_entry (behind st) (here st) (here s1 # ahead s1) s1"
  have "b = onHashChange metrics dm ?m" using ne by (simp add: b_def go_back_def v1 arrive_def)
  moreover have "store_wf metrics dm ?m" using s1(2) by simp
  ultimately have bh: "here b = here st" "behind b = behind st" "ahead b = here s1 # ahead s1"
    using onHashChange_sync [OF _ assms(1), of dm ?m] by simp_all
  define f where "f = snd (view_step metrics dm False Forward b)"
  have "in_step metrics dm f"
    using view_step_sync [OF b(2,1,3) assms(1), of Forward] by (simp add: f_def)
  let ?n = "at_entry (here b # behind b) (here s1) (ahead s1) b"
  have "f = onHashChange metrics dm ?n" using ne bh by (simp add: f_def go_forward_def arrive_def)
  moreover have "store_wf metrics dm ?n" using b(2) by simp
  ultimately have fh: "here f = here s1" using onHashChange_sync(4) [OF _ assms(1), of dm ?n] by simp
  have "same_view (view_of f) (view_of s1)" "same_view (view_of b) (view_of st)"
    using \<open>in_step metrics dm f\<close> s1(1) st(1) b(1) fh bh(1)
    by (auto simp: in_step_def intro: same_view_trans same_view_sym)
  with bh v1(2) have "same_view (view_of b) (view_of st) \<and> behind b = behind st \<and> here b = here st
     \<and> sensorId f = Some i \<and> metric f = metric st"
    by (simp add: same_view_def view_of_def)
  moreover have "view_run metrics dm [Open_Sensor i, Back] st = b" "view_run metrics dm [Forward] b = f"
    by (simp_all add: view_run_def b_def s1_def f_def)
  ultimately show ?thesis by (simp add: Let_def)
qed

theorem back_undoes_open_sensor_witness:
  "behind (view_run [''P2''] ''P2'' [Open_Sensor 9, Back] (createViewState [''P2''] ''P2'' init_sources [])) =
     behind (createViewState [''P2''] ''P2'' init_sources [])"
proof -
  have e: "createViewState [''P2''] ''P2'' init_sources [] = view_run [''P2''] ''P2'' [] (createViewState [''P2''] ''P2'' init_sources [])"
    by (simp add: view_run_def)
  have "sensorId (createViewState [''P2''] ''P2'' init_sources []) \<noteq> Some 9"
    using create_sync(1) [of "[''P2'']" "''P2''" "[]"]
    by (simp add: in_step_def same_view_def view_of_def parseHash_def strip_hash_def parseSensorId_def
        createViewState_def Let_def applySources_def SOURCES_def init_sources_def parseSources_def)
  with back_undoes_open_sensor [OF _ _ _ e, of 9] show ?thesis by (simp add: Let_def)
qed

text \<open>A history write the browser refuses never wedges the store: the flag is down again, the
  address bar and the history are as before, and the next link is still obeyed.\<close>

theorem refused_write_keeps_listening:
  assumes "[] \<notin> set metrics" "store_wf metrics dm st" "view_event_ok e"
    and "view_step metrics dm True e st = (err, st')"
  shows "\<not> writing st' \<and> (err \<noteq> None \<longrightarrow> here st' = here st \<and> behind st' = behind st \<and> ahead st' = ahead st)
    \<and> (\<forall>link. link \<noteq> here st' \<longrightarrow>
         same_view (parseHash metrics dm link) (view_of (follow_link metrics dm link st')))"
proof -
  have wf: "store_wf metrics dm st'" and keep: "err \<noteq> None \<Longrightarrow> here st' = here st \<and> behind st' = behind st \<and> ahead st' = ahead st"
    using refused_step [OF assms] by auto
  have "same_view (parseHash metrics dm link) (view_of (follow_link metrics dm link st'))" if "link \<noteq> here st'" for link
  proof -
    have "store_wf metrics dm (at_entry (here st' # behind st') link [] st')" using wf by simp
    from onHashChange_sync(1,4) [OF this assms(1)] that show ?thesis by (simp add: in_step_def follow_link_def)
  qed
  with wf keep show ?thesis by (auto simp: store_wf_def)
qed

theorem refused_write_keeps_listening_witness:
  "\<not> writing (snd (view_step [''P1'', ''P2''] ''P2'' True (Set_Metric ''P1'') (createViewState [''P1'', ''P2''] ''P2'' init_sources [])))"
  using refused_write_keeps_listening [OF _ create_sync(2) _ surjective_pairing, of "[''P1'', ''P2'']" "Set_Metric ''P1''" "''P2''" "[]"]
  by simp

end
