(* ===== verification/Api_Cache.thy ===== *)
theory Api_Cache
  imports Js_Prelude
begin

text \<open>
  The client-side fetch policy, \<open>web/src/lib/api.js\<close>: the response cache, the requests in
  flight that callers share, the reference count behind an abort, the single retry of a 429.
  The module's state is one record; each \<open>fetch\<close> entry and each caller of \<open>getJSON\<close> lives at
  an index, as the objects of the source live at an identity. A promise that settles runs its
  callbacks later, so every \<open>then\<close>, \<open>finally\<close> and waiter callback is an event of its own and
  may interleave with every other: a response can land after an abort, a clear or a newer
  request for the same URL.
\<close>

section \<open>Entries, callers and the module's state\<close>

datatype api_error = Http_Error nat | Retry_Too_Long | Abort_Error | Network_Error

text \<open>
  The life of an entry: \<open>fetchOnce\<close> waits for a response or sleeps before its retry, then has
  an outcome (\<open>Fetched\<close>); the \<open>then\<close> callback may write the cache (\<open>Written\<close>); the
  \<open>finally\<close> callback leaves \<open>inFlight\<close> and the shared promise is settled (\<open>Settled\<close>).
\<close>

datatype 'b phase =
    Sent
  | Sleeping real
  | Fetched "api_error + 'b"
  | Written "api_error + 'b"
  | Settled "api_error + 'b"

text \<open>\<open>f_epoch\<close> is the number of \<open>clearCache\<close> calls made before the entry was created.\<close>

record 'b entry =
  f_url :: string
  f_retry :: bool
  f_phase :: "'b phase"
  f_sends :: nat
  f_aborted :: bool
  f_waiters :: int
  f_epoch :: nat

record 'b caller =
  c_entry :: "nat option"
  c_signal :: "nat option"
  c_done :: bool
  c_result :: "(api_error + 'b) option"

record 'b api =
  cache :: "(string \<times> 'b) list"
  inFlight :: "(string \<times> nat) list"
  fetches :: "'b entry list"
  callers :: "'b caller list"
  aborted_signals :: "nat list"
  epoch :: nat

definition init_api :: "'b api" where
  "init_api = \<lparr>cache = [], inFlight = [], fetches = [], callers = [], aborted_signals = [], epoch = 0\<rparr>"

definition upd_entry :: "nat \<Rightarrow> ('b entry \<Rightarrow> 'b entry) \<Rightarrow> 'b api \<Rightarrow> 'b api" where
  "upd_entry i g st = st\<lparr>fetches := (fetches st)[i := g (fetches st ! i)]\<rparr>"

definition upd_caller :: "nat \<Rightarrow> ('b caller \<Rightarrow> 'b caller) \<Rightarrow> 'b api \<Rightarrow> 'b api" where
  "upd_caller k g st = st\<lparr>callers := (callers st)[k := g (callers st ! k)]\<rparr>"

section \<open>The cache\<close>

definition CACHE_LIMIT :: nat where
  "CACHE_LIMIT = 64"

text \<open>The loop of \<open>cacheSet\<close>: the first key of the \<open>Map\<close> is dropped while it is too big.\<close>

fun evict :: "'a list \<Rightarrow> 'a list" where
  "evict [] = []"
| "evict (x # xs) = (if CACHE_LIMIT < length (x # xs) then evict xs else x # xs)"

definition cacheSet :: "string \<Rightarrow> 'b \<Rightarrow> (string \<times> 'b) list \<Rightarrow> (string \<times> 'b) list" where
  "cacheSet url body c = evict (AList.update url body c)"

definition touch :: "string \<Rightarrow> 'b \<Rightarrow> (string \<times> 'b) list \<Rightarrow> (string \<times> 'b) list" where
  "touch url body c = AList.update url body (AList.delete url c)"

definition clearCache :: "'b api \<Rightarrow> 'b api" where
  "clearCache st = st\<lparr>cache := [],
     fetches := foldl (\<lambda>fs (u, i). fs[i := (fs ! i)\<lparr>f_aborted := True\<rparr>]) (fetches st) (inFlight st),
     inFlight := [], epoch := Suc (epoch st)\<rparr>"

section \<open>Asking and aborting\<close>

definition startFetch :: "string \<Rightarrow> bool \<Rightarrow> 'b api \<Rightarrow> nat \<times> 'b api" where
  "startFetch url retryOn429 st = (length (fetches st),
     st\<lparr>fetches := fetches st @ [\<lparr>f_url = url, f_retry = retryOn429, f_phase = Sent, f_sends = 1,
           f_aborted = False, f_waiters = 0, f_epoch = epoch st\<rparr>],
        inFlight := AList.update url (length (fetches st)) (inFlight st)\<rparr>)"

definition answer_now :: "nat option \<Rightarrow> api_error + 'b \<Rightarrow> 'b api \<Rightarrow> 'b api" where
  "answer_now signal out st =
     st\<lparr>callers := callers st @ [\<lparr>c_entry = None, c_signal = signal, c_done = True, c_result = Some out\<rparr>]\<rparr>"

definition attach :: "nat \<Rightarrow> nat option \<Rightarrow> 'b api \<Rightarrow> 'b api" where
  "attach i signal st = (let st1 = upd_entry i (\<lambda>f. f\<lparr>f_waiters := f_waiters f + 1\<rparr>) st
     in st1\<lparr>callers := callers st1 @ [\<lparr>c_entry = Some i, c_signal = signal, c_done = False, c_result = None\<rparr>]\<rparr>)"

definition signal_aborted :: "nat option \<Rightarrow> 'b api \<Rightarrow> bool" where
  "signal_aborted signal st = (case signal of None \<Rightarrow> False | Some j \<Rightarrow> j \<in> set (aborted_signals st))"

definition getJSON :: "string \<Rightarrow> bool \<Rightarrow> nat option \<Rightarrow> 'b api \<Rightarrow> 'b api" where
  "getJSON url retryOn429 signal st =
     (if signal_aborted signal st then answer_now signal (Inl Abort_Error) st
      else (case map_of (cache st) url of
          Some body \<Rightarrow> answer_now signal (Inr body) (st\<lparr>cache := touch url body (cache st)\<rparr>)
        | None \<Rightarrow> (case map_of (inFlight st) url of
              Some i \<Rightarrow> attach i signal st
            | None \<Rightarrow> (case startFetch url retryOn429 st of (i, st1) \<Rightarrow> attach i signal st1))))"

text \<open>\<open>done()\<close> of one caller: the first call decrements the entry's count.\<close>

definition caller_done :: "nat \<Rightarrow> nat \<Rightarrow> 'b api \<Rightarrow> 'b api" where
  "caller_done k i st = (if c_done (callers st ! k) then st
     else upd_caller k (\<lambda>c. c\<lparr>c_done := True\<rparr>) (upd_entry i (\<lambda>f. f\<lparr>f_waiters := f_waiters f - 1\<rparr>) st))"

definition forget :: "nat \<Rightarrow> 'b api \<Rightarrow> 'b api" where
  "forget i st = (let url = f_url (fetches st ! i) in
     if map_of (inFlight st) url = Some i then st\<lparr>inFlight := AList.delete url (inFlight st)\<rparr> else st)"

definition onAbort :: "nat \<Rightarrow> nat \<Rightarrow> 'b api \<Rightarrow> 'b api" where
  "onAbort k i st = (let st1 = caller_done k i st;
       st2 = (if f_waiters (fetches st1 ! i) = 0
              then forget i (upd_entry i (\<lambda>f. f\<lparr>f_aborted := True\<rparr>) st1) else st1)
     in upd_caller k (\<lambda>c. c\<lparr>c_result := Some (Inl Abort_Error)\<rparr>) st2)"

text \<open>\<open>controller.abort()\<close> of a caller: every listener still registered on the signal runs.\<close>

definition listens :: "nat \<Rightarrow> 'b caller \<Rightarrow> bool" where
  "listens j c \<longleftrightarrow> c_signal c = Some j \<and> c_entry c \<noteq> None \<and> \<not> c_done c"

definition abort_caller :: "nat \<Rightarrow> 'b api \<Rightarrow> nat \<Rightarrow> 'b api" where
  "abort_caller j st k = (if listens j (callers st ! k)
     then onAbort k (the (c_entry (callers st ! k))) st else st)"

definition abort_signal :: "nat \<Rightarrow> 'b api \<Rightarrow> 'b api" where
  "abort_signal j st = (if j \<in> set (aborted_signals st) then st
     else foldl (abort_caller j) (st\<lparr>aborted_signals := j # aborted_signals st\<rparr>) [0..<length (callers st)])"

section \<open>One request\<close>

definition RATE_LIMIT_RETRY_MS :: real where
  "RATE_LIMIT_RETRY_MS = 2000"

definition RETRY_AFTER_CAP_MS :: real where
  "RETRY_AFTER_CAP_MS = 30000"

record 'b response =
  r_status :: nat
  r_retry_after :: "string option"
  r_json :: "'b option"

definition retryDelayMs :: "'b response \<Rightarrow> real" where
  "retryDelayMs r = (case r_retry_after r of
      None \<Rightarrow> RATE_LIMIT_RETRY_MS
    | Some header \<Rightarrow> if header = [] then RATE_LIMIT_RETRY_MS
        else (case string_to_number header of
           Fin seconds \<Rightarrow> if seconds \<le> 0 then RATE_LIMIT_RETRY_MS else seconds * 1000
         | _ \<Rightarrow> RATE_LIMIT_RETRY_MS))"

definition response_ok :: "'b response \<Rightarrow> bool" where
  "response_ok r \<longleftrightarrow> 200 \<le> r_status r \<and> r_status r \<le> 299"

text \<open>
  What \<open>fetchOnce\<close> does with a response: only the first may be retried, and only when the
  server asks for a wait under the cap. A body that is not JSON rejects.
\<close>

definition after_response :: "'b response \<Rightarrow> 'b entry \<Rightarrow> 'b phase" where
  "after_response r f =
     (if r_status r = 429 \<and> f_retry f \<and> f_sends f = 1 then
        (let retryMs = retryDelayMs r in
         if RETRY_AFTER_CAP_MS < retryMs then Fetched (Inl Retry_Too_Long) else Sleeping retryMs)
      else if \<not> response_ok r then Fetched (Inl (Http_Error (r_status r)))
      else (case r_json r of Some b \<Rightarrow> Fetched (Inr b) | None \<Rightarrow> Fetched (Inl Network_Error)))"

text \<open>The timer of the retry: an abort during the sleep ends the request.\<close>

definition after_sleep :: "'b entry \<Rightarrow> 'b entry" where
  "after_sleep f = (if f_aborted f then f\<lparr>f_phase := Fetched (Inl Abort_Error)\<rparr>
     else f\<lparr>f_phase := Sent, f_sends := f_sends f + 1\<rparr>)"

text \<open>The \<open>then\<close> callback, the \<open>finally\<close> callback, and the callback of one caller.\<close>

definition on_fetched :: "nat \<Rightarrow> api_error + 'b \<Rightarrow> 'b api \<Rightarrow> 'b api" where
  "on_fetched i out st = (case out of
      Inl e \<Rightarrow> upd_entry i (\<lambda>f. f\<lparr>f_phase := Written (Inl e)\<rparr>) st
    | Inr body \<Rightarrow> if f_aborted (fetches st ! i)
        then upd_entry i (\<lambda>f. f\<lparr>f_phase := Written (Inl Abort_Error)\<rparr>) st
        else upd_entry i (\<lambda>f. f\<lparr>f_phase := Written (Inr body)\<rparr>)
          (st\<lparr>cache := cacheSet (f_url (fetches st ! i)) body (cache st)\<rparr>))"

definition on_finally :: "nat \<Rightarrow> api_error + 'b \<Rightarrow> 'b api \<Rightarrow> 'b api" where
  "on_finally i out st = forget i (upd_entry i (\<lambda>f. f\<lparr>f_phase := Settled out\<rparr>) st)"

definition deliver :: "nat \<Rightarrow> nat \<Rightarrow> api_error + 'b \<Rightarrow> 'b api \<Rightarrow> 'b api" where
  "deliver k i out st = upd_caller k (\<lambda>c. if c_result c = None then c\<lparr>c_result := Some out\<rparr> else c)
     (caller_done k i st)"

section \<open>Events\<close>

datatype 'b api_event =
    Get string bool "nat option"
  | Abort nat
  | Clear
  | Respond nat "'b response"
  | Fail nat api_error
  | Wake nat
  | Run_Then nat
  | Run_Finally nat
  | Run_Waiter nat

text \<open>
  An event that is not enabled leaves the state alone. The transport may answer an aborted
  request or fail it; both are events at any time before the outcome is known.
\<close>

fun api_step :: "'b api \<Rightarrow> 'b api_event \<Rightarrow> 'b api" where
  "api_step st (Get url retry signal) = getJSON url retry signal st"
| "api_step st (Abort j) = abort_signal j st"
| "api_step st Clear = clearCache st"
| "api_step st (Respond i r) = (if i < length (fetches st) \<and> f_phase (fetches st ! i) = Sent
     then upd_entry i (\<lambda>f. f\<lparr>f_phase := after_response r f\<rparr>) st else st)"
| "api_step st (Fail i e) = (if i < length (fetches st) \<and> f_phase (fetches st ! i) = Sent
     then upd_entry i (\<lambda>f. f\<lparr>f_phase := Fetched (Inl e)\<rparr>) st else st)"
| "api_step st (Wake i) = (if i < length (fetches st)
     then (case f_phase (fetches st ! i) of Sleeping _ \<Rightarrow> upd_entry i after_sleep st | _ \<Rightarrow> st) else st)"
| "api_step st (Run_Then i) = (if i < length (fetches st)
     then (case f_phase (fetches st ! i) of Fetched out \<Rightarrow> on_fetched i out st | _ \<Rightarrow> st) else st)"
| "api_step st (Run_Finally i) = (if i < length (fetches st)
     then (case f_phase (fetches st ! i) of Written out \<Rightarrow> on_finally i out st | _ \<Rightarrow> st) else st)"
| "api_step st (Run_Waiter k) = (if k < length (callers st)
     then (case c_entry (callers st ! k) of
         Some i \<Rightarrow> (case f_phase (fetches st ! i) of Settled out \<Rightarrow> deliver k i out st | _ \<Rightarrow> st)
       | None \<Rightarrow> st) else st)"

inductive api_reach :: "'b api \<Rightarrow> bool" where
  start: "api_reach init_api"
| event: "api_reach st \<Longrightarrow> api_reach (api_step st e)"

lemma api_reach_run: "api_reach st \<Longrightarrow> api_reach (foldl api_step st es)"
  by (induction es arbitrary: st) (simp_all add: event)

section \<open>The table of requests in flight\<close>

definition settled :: "'b entry \<Rightarrow> bool" where
  "settled f = (case f_phase f of Settled _ \<Rightarrow> True | _ \<Rightarrow> False)"

definition live :: "'b entry \<Rightarrow> bool" where
  "live f \<longleftrightarrow> \<not> f_aborted f \<and> \<not> settled f"

definition outcome :: "'b entry \<Rightarrow> (api_error + 'b) option" where
  "outcome f = (case f_phase f of Written out \<Rightarrow> Some out | Settled out \<Rightarrow> Some out | _ \<Rightarrow> None)"

text \<open>\<open>inFlight\<close> lists exactly the live entries, one per URL, all asked for since the last clear.\<close>

definition flight_inv :: "'b api \<Rightarrow> bool" where
  "flight_inv st \<longleftrightarrow> distinct (map fst (inFlight st))
     \<and> (\<forall>u i. (u, i) \<in> set (inFlight st) \<longleftrightarrow> i < length (fetches st) \<and> live (fetches st ! i) \<and> f_url (fetches st ! i) = u)
     \<and> (\<forall>i < length (fetches st). live (fetches st ! i) \<longrightarrow> f_epoch (fetches st ! i) = epoch st)"

lemma upd_entry_simps [simp]:
  "cache (upd_entry i g st) = cache st" "inFlight (upd_entry i g st) = inFlight st"
  "callers (upd_entry i g st) = callers st" "epoch (upd_entry i g st) = epoch st"
  "aborted_signals (upd_entry i g st) = aborted_signals st"
  "length (fetches (upd_entry i g st)) = length (fetches st)"
  "j < length (fetches st) \<Longrightarrow> fetches (upd_entry i g st) ! j = (if j = i then g (fetches st ! i) else fetches st ! j)"
  by (auto simp: upd_entry_def nth_list_update)

lemma upd_caller_simps [simp]:
  "cache (upd_caller k h st) = cache st" "inFlight (upd_caller k h st) = inFlight st"
  "fetches (upd_caller k h st) = fetches st" "epoch (upd_caller k h st) = epoch st"
  "length (callers (upd_caller k h st)) = length (callers st)"
  "j < length (callers st) \<Longrightarrow> callers (upd_caller k h st) ! j = (if j = k then h (callers st ! k) else callers st ! j)"
  by (auto simp: upd_caller_def nth_list_update)

lemma forget_simps [simp]:
  "cache (forget i st) = cache st" "fetches (forget i st) = fetches st"
  "callers (forget i st) = callers st" "epoch (forget i st) = epoch st"
  by (simp_all add: forget_def Let_def)

lemma caller_done_simps [simp]:
  "cache (caller_done k i st) = cache st" "inFlight (caller_done k i st) = inFlight st"
  "epoch (caller_done k i st) = epoch st" "length (callers (caller_done k i st)) = length (callers st)"
  "length (fetches (caller_done k i st)) = length (fetches st)"
  by (simp_all add: caller_done_def)

lemma flight_inv_cong:
  assumes "inFlight st' = inFlight st" "length (fetches st') = length (fetches st)" "epoch st' = epoch st"
    "\<And>j. j < length (fetches st) \<Longrightarrow> live (fetches st' ! j) = live (fetches st ! j)
        \<and> f_url (fetches st' ! j) = f_url (fetches st ! j) \<and> f_epoch (fetches st' ! j) = f_epoch (fetches st ! j)"
  shows "flight_inv st' = flight_inv st"
proof -
  have "(u, i) \<in> set (inFlight st') \<longleftrightarrow> i < length (fetches st') \<and> live (fetches st' ! i) \<and> f_url (fetches st' ! i) = u
    \<longleftrightarrow> ((u, i) \<in> set (inFlight st) \<longleftrightarrow> i < length (fetches st) \<and> live (fetches st ! i) \<and> f_url (fetches st ! i) = u)" for u i
    using assms by auto
  then show ?thesis unfolding flight_inv_def using assms by auto
qed

lemma flight_inv_caller [simp]: "flight_inv (upd_caller k h st) = flight_inv st"
  by (rule flight_inv_cong) simp_all

lemma flight_inv_done [simp]: "flight_inv (caller_done k i st) = flight_inv st"
  by (rule flight_inv_cong) (auto simp: caller_done_def live_def settled_def)

lemma flight_inv_answer [simp]: "flight_inv (answer_now signal out st) = flight_inv st"
  by (rule flight_inv_cong) (simp_all add: answer_now_def)

lemma flight_inv_attach [simp]: "flight_inv (attach i signal st) = flight_inv st"
  by (rule flight_inv_cong) (auto simp: attach_def Let_def live_def settled_def)

lemma flight_inv_upd:
  "(\<And>f. live (g f) = live f \<and> f_url (g f) = f_url f \<and> f_epoch (g f) = f_epoch f) \<Longrightarrow>
     flight_inv (upd_entry i g st) = flight_inv st"
  by (rule flight_inv_cong) auto

lemma flight_in_map:
  "flight_inv st \<Longrightarrow> i < length (fetches st) \<Longrightarrow> map_of (inFlight st) (f_url (fetches st ! i)) = Some i \<longleftrightarrow> live (fetches st ! i)"
  unfolding flight_inv_def by (metis map_of_SomeD map_of_is_SomeI)

text \<open>An entry that dies leaves the table, and a newer one under the same URL stays.\<close>

lemma flight_inv_kill:
  assumes "flight_inv st" "i < length (fetches st)" "\<not> live (g (fetches st ! i))"
    "f_url (g (fetches st ! i)) = f_url (fetches st ! i)"
  shows "flight_inv (forget i (upd_entry i g st))"
proof -
  note m = flight_in_map [OF assms(1,2)]
  let ?u = "f_url (fetches st ! i)"
  have inv: "distinct (map fst (inFlight st))"
     "\<And>u j. (u, j) \<in> set (inFlight st) \<longleftrightarrow> j < length (fetches st) \<and> live (fetches st ! j) \<and> f_url (fetches st ! j) = u"
     "\<And>j. j < length (fetches st) \<Longrightarrow> live (fetches st ! j) \<Longrightarrow> f_epoch (fetches st ! j) = epoch st"
    using assms(1) unfolding flight_inv_def by blast+
  have fl: "set (inFlight (forget i (upd_entry i g st))) = set (inFlight st) - {(?u, i)}"
  proof (cases "live (fetches st ! i)")
    case True
    have "(?u, j) \<in> set (inFlight st) \<Longrightarrow> j = i" for j
      using inv(1) m True by (metis map_of_is_SomeI option.inject)
    with True m assms(2,4) show ?thesis
      by (auto simp: forget_def Let_def AList.delete_eq)
  next
    case False
    with m have "map_of (inFlight st) ?u \<noteq> Some i" by simp
    moreover have "(?u, i) \<notin> set (inFlight st)" using inv(2) False by blast
    ultimately show ?thesis using assms(2,4) by (simp add: forget_def Let_def)
  qed
  have d: "distinct (map fst (inFlight (forget i (upd_entry i g st))))"
    using inv(1) by (simp add: forget_def Let_def distinct_delete)
  have f: "fetches (forget i (upd_entry i g st)) ! j = (if j = i then g (fetches st ! i) else fetches st ! j)"
    "length (fetches (forget i (upd_entry i g st))) = length (fetches st)" if "j < length (fetches st)" for j
    using that by simp_all
  show ?thesis
    unfolding flight_inv_def fl
    using d f inv(2,3) assms(2,3,4) by (auto split: if_splits)
qed

lemma flight_inv_start:
  assumes "flight_inv st" "map_of (inFlight st) url = None"
  shows "flight_inv (snd (startFetch url retry st))"
proof -
  have "url \<notin> fst ` set (inFlight st)" using assms(2) by (simp add: map_of_eq_None_iff)
  then have "AList.update url (length (fetches st)) (inFlight st) = inFlight st @ [(url, length (fetches st))]"
    by (rule AList_update_new)
  then show ?thesis
    using assms \<open>url \<notin> _\<close> unfolding flight_inv_def startFetch_def
    by (auto simp: nth_append live_def settled_def less_Suc_eq)
qed

lemma abort_all_nth:
  "i < length fs \<Longrightarrow> foldl (\<lambda>fs (u, i). fs[i := (fs ! i)\<lparr>f_aborted := True\<rparr>]) fs fl ! i =
     (if i \<in> snd ` set fl then (fs ! i)\<lparr>f_aborted := True\<rparr> else fs ! i)"
proof (induction fl arbitrary: fs)
  case (Cons p fl)
  obtain u j where p: "p = (u, j)" by (cases p)
  show ?case using Cons by (cases "j = i") (simp_all add: p nth_list_update)
qed simp

lemma abort_all_length [simp]:
  "length (foldl (\<lambda>fs (u, i). fs[i := (fs ! i)\<lparr>f_aborted := True\<rparr>]) fs fl) = length fs"
  by (induction fl arbitrary: fs) auto

lemma clearCache_nth:
  assumes "flight_inv st" "i < length (fetches st)"
  shows "fetches (clearCache st) ! i =
    (if live (fetches st ! i) then (fetches st ! i)\<lparr>f_aborted := True\<rparr> else fetches st ! i)"
proof -
  have "i \<in> snd ` set (inFlight st) \<longleftrightarrow> live (fetches st ! i)"
  proof -
    have "i \<in> snd ` set (inFlight st) \<longleftrightarrow> (\<exists>u. (u, i) \<in> set (inFlight st))" by force
    with assms show ?thesis unfolding flight_inv_def by simp
  qed
  then show ?thesis using assms(2) by (simp add: clearCache_def abort_all_nth)
qed

lemma clearCache_simps [simp]:
  "cache (clearCache st) = []" "inFlight (clearCache st) = []" "callers (clearCache st) = callers st"
  "epoch (clearCache st) = Suc (epoch st)" "length (fetches (clearCache st)) = length (fetches st)"
  by (simp_all add: clearCache_def)

lemma clearCache_dead: "flight_inv st \<Longrightarrow> i < length (fetches st) \<Longrightarrow> \<not> live (fetches (clearCache st) ! i)"
  by (simp add: clearCache_nth live_def)

lemma flight_inv_clear: "flight_inv st \<Longrightarrow> flight_inv (clearCache st)"
  using clearCache_dead [of st] by (auto simp: flight_inv_def)

section \<open>The reference count\<close>

definition waiting_on :: "nat \<Rightarrow> 'b caller \<Rightarrow> bool" where
  "waiting_on i c \<longleftrightarrow> c_entry c = Some i \<and> \<not> c_done c"

definition waiter_count :: "nat \<Rightarrow> 'b api \<Rightarrow> int" where
  "waiter_count i st = int (length (filter (waiting_on i) (callers st)))"

text \<open>
  \<open>waiters\<close> counts the callers that have neither been answered nor aborted, and a live entry
  has one: an unwanted request is never left running.
\<close>

definition waiter_inv :: "'b api \<Rightarrow> bool" where
  "waiter_inv st \<longleftrightarrow> (\<forall>c \<in> set (callers st). \<forall>i. c_entry c = Some i \<longrightarrow> i < length (fetches st))
     \<and> (\<forall>i < length (fetches st). f_waiters (fetches st ! i) = waiter_count i st
          \<and> (live (fetches st ! i) \<longrightarrow> 0 < waiter_count i st))
     \<and> (\<forall>c \<in> set (callers st). c_done c \<longleftrightarrow> c_result c \<noteq> None)"

lemma length_filter_update:
  "k < length xs \<Longrightarrow> int (length (filter P (xs[k := y]))) =
     int (length (filter P xs)) - (if P (xs ! k) then 1 else 0) + (if P y then 1 else 0)"
proof -
  assume k: "k < length xs"
  then have "filter P xs = filter P (take k xs) @ filter P [xs ! k] @ filter P (drop (Suc k) xs)"
    by (metis append_Cons append_Nil filter_append id_take_nth_drop)
  moreover have "filter P (xs[k := y]) = filter P (take k xs) @ filter P [y] @ filter P (drop (Suc k) xs)"
    using k by (simp add: upd_conv_take_nth_drop)
  ultimately show ?thesis by simp
qed

lemma waiter_count_upd [simp]: "waiter_count i (upd_entry j g st) = waiter_count i st"
  "waiter_count i (forget j st) = waiter_count i st"
  "waiter_count i (clearCache st) = waiter_count i st"
  by (simp_all add: waiter_count_def)

lemma waiter_inv_cong:
  assumes "callers st' = callers st" "length (fetches st') = length (fetches st)"
    "\<And>j. j < length (fetches st) \<Longrightarrow> f_waiters (fetches st' ! j) = f_waiters (fetches st ! j)
        \<and> (live (fetches st' ! j) \<longrightarrow> live (fetches st ! j))"
  shows "waiter_inv st \<Longrightarrow> waiter_inv st'"
  using assms unfolding waiter_inv_def waiter_count_def by simp

text \<open>Answering caller \<open>k\<close>, whether the answer is the outcome or its own abort.\<close>

lemma finish_caller:
  fixes st :: "'b api" and out :: "api_error + 'b"
  assumes "waiter_inv st" "k < length (callers st)" "c_entry (callers st ! k) = Some i" "\<not> c_done (callers st ! k)"
  defines "st1 \<equiv> upd_caller k (\<lambda>c. c\<lparr>c_result := Some out\<rparr>) (caller_done k i st)"
  shows "\<And>j. waiter_count j st1 = (if j = i then waiter_count i st - 1 else waiter_count j st)"
    "f_waiters (fetches st1 ! i) = waiter_count i st1"
    "\<And>j. j < length (fetches st) \<Longrightarrow> f_waiters (fetches st1 ! j) = waiter_count j st1
        \<and> live (fetches st1 ! j) = live (fetches st ! j)"
    "\<forall>c \<in> set (callers st1). (\<forall>j. c_entry c = Some j \<longrightarrow> j < length (fetches st)) \<and> (c_done c \<longleftrightarrow> c_result c \<noteq> None)"
proof -
  have i: "i < length (fetches st)" using assms(1-3) unfolding waiter_inv_def by (metis nth_mem)
  let ?c = "callers st ! k"
  have cs: "callers st1 = (callers st)[k := ?c\<lparr>c_done := True, c_result := Some out\<rparr>]"
    using assms(2,4) by (simp add: st1_def caller_done_def upd_caller_def)
  have fs: "fetches st1 = (fetches st)[i := (fetches st ! i)\<lparr>f_waiters := f_waiters (fetches st ! i) - 1\<rparr>]"
    using assms(4) by (simp add: st1_def caller_done_def upd_entry_def upd_caller_def)
  show wc: "waiter_count j st1 = (if j = i then waiter_count i st - 1 else waiter_count j st)" for j
    using assms(2,3,4) by (auto simp: waiter_count_def cs length_filter_update waiting_on_def)
  show all: "f_waiters (fetches st1 ! j) = waiter_count j st1 \<and> live (fetches st1 ! j) = live (fetches st ! j)"
    if "j < length (fetches st)" for j
    using that assms(1) i unfolding waiter_inv_def wc fs by (auto simp: nth_list_update live_def settled_def)
  from all [OF i] show "f_waiters (fetches st1 ! i) = waiter_count i st1" by blast
  show "\<forall>c \<in> set (callers st1). (\<forall>j. c_entry c = Some j \<longrightarrow> j < length (fetches st)) \<and> (c_done c \<longleftrightarrow> c_result c \<noteq> None)"
  proof
    fix c assume "c \<in> set (callers st1)"
    then have "c = ?c\<lparr>c_done := True, c_result := Some out\<rparr> \<or> c \<in> set (callers st)"
      unfolding cs by (metis insertE set_update_subset_insert subsetD)
    then show "(\<forall>j. c_entry c = Some j \<longrightarrow> j < length (fetches st)) \<and> (c_done c \<longleftrightarrow> c_result c \<noteq> None)"
      using assms(1,3) i unfolding waiter_inv_def by (elim disjE) simp_all
  qed
qed

lemma onAbort_eq:
  "onAbort k i st = (let st1 = upd_caller k (\<lambda>c. c\<lparr>c_result := Some (Inl Abort_Error)\<rparr>) (caller_done k i st)
     in if f_waiters (fetches st1 ! i) = 0 then forget i (upd_entry i (\<lambda>f. f\<lparr>f_aborted := True\<rparr>) st1) else st1)"
  by (simp add: onAbort_def Let_def upd_caller_def upd_entry_def forget_def)

lemma waiter_inv_abort:
  assumes "waiter_inv st" "k < length (callers st)" "c_entry (callers st ! k) = Some i" "\<not> c_done (callers st ! k)"
  shows "waiter_inv (onAbort k i st)"
proof -
  note f = finish_caller [OF assms, where out = "Inl Abort_Error"]
  let ?st1 = "upd_caller k (\<lambda>c. c\<lparr>c_result := Some (Inl Abort_Error)\<rparr>) (caller_done k i st)"
  have i: "i < length (fetches st)" using assms(1-3) unfolding waiter_inv_def by (metis nth_mem)
  have pos: "0 \<le> waiter_count i ?st1" by (simp add: waiter_count_def)
  show ?thesis
    unfolding waiter_inv_def onAbort_eq Let_def
    using f(3,4) f(1) f(2) i pos assms(1)
    by (auto simp: waiter_inv_def live_def settled_def)
qed

lemma waiter_inv_deliver:
  assumes "waiter_inv st" "k < length (callers st)" "c_entry (callers st ! k) = Some i" "settled (fetches st ! i)"
  shows "waiter_inv (deliver k i out st)"
proof (cases "c_done (callers st ! k)")
  case True
  with assms(1,2) have "c_result (callers st ! k) \<noteq> None" unfolding waiter_inv_def by simp
  with True assms(2) have "deliver k i out st = st"
    by (auto simp: deliver_def caller_done_def upd_caller_def)
  with assms(1) show ?thesis by simp
next
  case False
  note f = finish_caller [OF assms(1-3) False, where out = out]
  have "c_result (callers st ! k) = None" using assms(1,2) False unfolding waiter_inv_def by (metis nth_mem)
  then have "deliver k i out st = upd_caller k (\<lambda>c. c\<lparr>c_result := Some out\<rparr>) (caller_done k i st)"
    using assms(2) False by (simp add: deliver_def caller_done_def upd_caller_def)
  then show ?thesis
    unfolding waiter_inv_def using f(1,3,4) assms(1,4) by (auto simp: waiter_inv_def live_def)
qed

lemma waiter_inv_attach:
  assumes "waiter_inv st" "i < length (fetches st)"
  shows "waiter_inv (attach i signal st)"
  using assms by (auto simp: waiter_inv_def attach_def Let_def waiter_count_def waiting_on_def live_def settled_def)

lemma waiter_inv_answer: "waiter_inv st \<Longrightarrow> waiter_inv (answer_now signal out st)"
  by (auto simp: waiter_inv_def answer_now_def waiter_count_def waiting_on_def)

text \<open>A fresh entry has no waiter until \<open>getJSON\<close> attaches the caller that asked for it.\<close>

lemma waiter_inv_start_attach:
  assumes "waiter_inv st" "startFetch url retry st = (i, st1)"
  shows "waiter_inv (attach i signal st1)"
proof -
  have none: "waiter_count (length (fetches st)) st = 0"
    using assms(1) unfolding waiter_inv_def waiter_count_def waiting_on_def
    by (auto simp: filter_empty_conv)
  show ?thesis
    using assms none
    by (auto simp: startFetch_def attach_def Let_def waiter_inv_def waiter_count_def waiting_on_def upd_entry_def
        nth_append live_def settled_def less_Suc_eq)
qed

section \<open>The cache and the retries\<close>

definition cache_inv :: "'b api \<Rightarrow> bool" where
  "cache_inv st \<longleftrightarrow> distinct (map fst (cache st)) \<and> length (cache st) \<le> CACHE_LIMIT
     \<and> (\<forall>(u, b) \<in> set (cache st). \<exists>i < length (fetches st). f_url (fetches st ! i) = u
          \<and> f_epoch (fetches st ! i) = epoch st \<and> outcome (fetches st ! i) = Some (Inr b))"

definition sends_ok :: "'b entry \<Rightarrow> bool" where
  "sends_ok f \<longleftrightarrow> f_sends f \<in> {1, 2} \<and> (f_sends f = 2 \<longrightarrow> f_retry f)
     \<and> (\<forall>ms. f_phase f = Sleeping ms \<longrightarrow> f_sends f = 1 \<and> f_retry f \<and> 0 < ms \<and> ms \<le> RETRY_AFTER_CAP_MS)"

definition send_inv :: "'b api \<Rightarrow> bool" where
  "send_inv st \<longleftrightarrow> (\<forall>j < length (fetches st). sends_ok (fetches st ! j))"

lemma evict_suffix: "\<exists>ys. xs = ys @ evict xs"
proof (induction xs)
  case (Cons x xs)
  then obtain ys where "xs = ys @ evict xs" by blast
  then have "x # xs = (x # ys) @ evict xs" by simp
  then show ?case by (metis append_Nil evict.simps(2))
qed simp

lemma evict_length: "length (evict xs) \<le> CACHE_LIMIT"
  by (induction xs) (auto simp: CACHE_LIMIT_def)

lemma evict_id: "length xs \<le> CACHE_LIMIT \<Longrightarrow> evict xs = xs"
  by (cases xs) auto

lemma evict_distinct: "distinct (map f xs) \<Longrightarrow> distinct (map f (evict xs))"
  by (induction xs) auto

lemma evict_subset: "set (evict xs) \<subseteq> set xs"
proof -
  obtain ys where "xs = ys @ evict xs" using evict_suffix by blast
  then show "set (evict xs) \<subseteq> set xs" by (metis Un_upper2 set_append)
qed

lemma touch_set: "map_of c url = Some body \<Longrightarrow> distinct (map fst c) \<Longrightarrow> set (touch url body c) = set c"
proof -
  assume a: "map_of c url = Some body" "distinct (map fst c)"
  have "touch url body c = AList.delete url c @ [(url, body)]"
    unfolding touch_def by (rule AList_update_new) simp
  then have t: "set (touch url body c) = insert (url, body) {p \<in> set c. fst p \<noteq> url}"
    by (auto simp: AList.delete_eq)
  have "(url, body) \<in> set c" by (rule map_of_SomeD [OF a(1)])
  moreover have "p = (url, body)" if "p \<in> set c" "fst p = url" for p
    using that a by (metis map_of_is_SomeI option.inject prod.collapse)
  ultimately show ?thesis unfolding t by blast
qed

lemma touch_length: "map_of c url = Some body \<Longrightarrow> distinct (map fst c) \<Longrightarrow> length (touch url body c) = length c"
proof -
  assume a: "map_of c url = Some body" "distinct (map fst c)"
  have "distinct (map fst (touch url body c))"
    unfolding touch_def by (intro distinct_update distinct_delete a(2))
  then have "distinct (touch url body c)" "distinct c" using a(2) by (simp_all add: distinct_map)
  with touch_set [OF a] show ?thesis by (metis distinct_card)
qed

lemma set_AList_update: "set (AList.update k v m) \<subseteq> insert (k, v) (set m)"
  by (induction m) auto

lemma cache_inv_cong:
  assumes "cache st' = cache st" "epoch st' = epoch st" "length (fetches st) \<le> length (fetches st')"
    "\<And>j out. j < length (fetches st) \<Longrightarrow> f_url (fetches st' ! j) = f_url (fetches st ! j)
        \<and> f_epoch (fetches st' ! j) = f_epoch (fetches st ! j)
        \<and> (outcome (fetches st ! j) = Some out \<longrightarrow> outcome (fetches st' ! j) = Some out)"
  shows "cache_inv st \<Longrightarrow> cache_inv st'"
proof -
  assume a: "cache_inv st"
  have "\<exists>i < length (fetches st'). f_url (fetches st' ! i) = u \<and> f_epoch (fetches st' ! i) = epoch st'
      \<and> outcome (fetches st' ! i) = Some (Inr b)" if ub: "(u, b) \<in> set (cache st)" for u b
  proof -
    from a ub obtain i where i: "i < length (fetches st)" "f_url (fetches st ! i) = u"
      "f_epoch (fetches st ! i) = epoch st" "outcome (fetches st ! i) = Some (Inr b)"
      unfolding cache_inv_def by blast
    with assms(2,3) assms(4) [OF i(1)] show ?thesis by (intro exI [of _ i]) auto
  qed
  with a show ?thesis unfolding cache_inv_def assms(1) by blast
qed

lemma cache_inv_write:
  assumes "cache_inv st" "i < length (fetches st)" "f_epoch (fetches st ! i) = epoch st"
    "outcome (fetches st ! i) = Some (Inr body)"
  shows "cache_inv (st\<lparr>cache := cacheSet (f_url (fetches st ! i)) body (cache st)\<rparr>)"
proof -
  let ?u = "f_url (fetches st ! i)"
  have d: "distinct (map fst (AList.update ?u body (cache st)))"
    using assms(1) by (intro distinct_update) (simp add: cache_inv_def)
  have s: "set (cacheSet ?u body (cache st)) \<subseteq> insert (?u, body) (set (cache st))"
    unfolding cacheSet_def using evict_subset set_AList_update by (rule order_trans)
  have "\<exists>j < length (fetches st). f_url (fetches st ! j) = u \<and> f_epoch (fetches st ! j) = epoch st
      \<and> outcome (fetches st ! j) = Some (Inr b)" if "(u, b) \<in> set (cacheSet ?u body (cache st))" for u b
  proof -
    from that s have "(u, b) = (?u, body) \<or> (u, b) \<in> set (cache st)" by blast
    then show ?thesis
    proof
      assume "(u, b) = (?u, body)"
      with assms(2-4) show ?thesis by (intro exI [of _ i]) simp
    next
      assume "(u, b) \<in> set (cache st)"
      with assms(1) show ?thesis unfolding cache_inv_def by blast
    qed
  qed
  moreover have "distinct (map fst (cacheSet ?u body (cache st)))" "length (cacheSet ?u body (cache st)) \<le> CACHE_LIMIT"
    using evict_distinct [OF d] evict_length by (simp_all add: cacheSet_def)
  ultimately show ?thesis unfolding cache_inv_def by auto
qed

lemma send_inv_upd:
  "send_inv st \<Longrightarrow> i < length (fetches st) \<Longrightarrow> sends_ok (g (fetches st ! i)) \<Longrightarrow> send_inv (upd_entry i g st)"
  by (simp add: send_inv_def)

lemma retryDelayMs_pos: "0 < retryDelayMs r"
  by (auto simp: retryDelayMs_def RATE_LIMIT_RETRY_MS_def split: option.splits jsnum.splits)

section \<open>Every event keeps the invariants\<close>

definition api_inv :: "'b api \<Rightarrow> bool" where
  "api_inv st \<longleftrightarrow> flight_inv st \<and> waiter_inv st \<and> cache_inv st \<and> send_inv st"

lemma api_invD: "api_inv st \<Longrightarrow> flight_inv st" "api_inv st \<Longrightarrow> waiter_inv st" "api_inv st \<Longrightarrow> cache_inv st" "api_inv st \<Longrightarrow> send_inv st"
  by (simp_all add: api_inv_def)

lemma outcome_simps [simp]:
  "outcome (f\<lparr>f_aborted := b\<rparr>) = outcome f" "outcome (f\<lparr>f_waiters := w\<rparr>) = outcome f"
  "outcome (f\<lparr>f_phase := Fetched out\<rparr>) = None" "outcome (f\<lparr>f_phase := Written out\<rparr>) = Some out"
  "outcome (f\<lparr>f_phase := Settled out\<rparr>) = Some out"
  by (simp_all add: outcome_def)

lemma send_inv_cong:
  assumes "length (fetches st') = length (fetches st)"
    "\<And>j. j < length (fetches st) \<Longrightarrow> f_sends (fetches st' ! j) = f_sends (fetches st ! j)
        \<and> f_retry (fetches st' ! j) = f_retry (fetches st ! j) \<and> f_phase (fetches st' ! j) = f_phase (fetches st ! j)"
  shows "send_inv st \<Longrightarrow> send_inv st'"
  using assms unfolding send_inv_def sends_ok_def by simp

lemma inv_init: "api_inv init_api"
  by (simp add: api_inv_def init_api_def flight_inv_def waiter_inv_def cache_inv_def send_inv_def)

lemma inv_answer: "api_inv st \<Longrightarrow> api_inv (answer_now signal out st)"
proof -
  assume a: "api_inv st"
  have "cache_inv (answer_now signal out st)"
    using api_invD(3) [OF a] by (rule cache_inv_cong [rotated -1]) (simp_all add: answer_now_def)
  moreover have "send_inv (answer_now signal out st)" using api_invD(4) [OF a] by (simp add: send_inv_def answer_now_def)
  ultimately show ?thesis using a by (simp add: api_inv_def waiter_inv_answer)
qed

lemma inv_touch:
  assumes "api_inv st" "map_of (cache st) url = Some body"
  shows "api_inv (st\<lparr>cache := touch url body (cache st)\<rparr>)"
proof -
  have d: "distinct (map fst (cache st))" using api_invD(3) [OF assms(1)] by (simp add: cache_inv_def)
  have "distinct (map fst (touch url body (cache st)))"
    unfolding touch_def by (intro distinct_update distinct_delete d)
  then have "cache_inv (st\<lparr>cache := touch url body (cache st)\<rparr>)"
    using api_invD(3) [OF assms(1)] touch_set [OF assms(2) d] touch_length [OF assms(2) d] by (simp add: cache_inv_def)
  moreover have "flight_inv (st\<lparr>cache := touch url body (cache st)\<rparr>)"
    using api_invD(1) [OF assms(1)] by (simp add: flight_inv_def)
  moreover have "waiter_inv (st\<lparr>cache := touch url body (cache st)\<rparr>)"
    using api_invD(2) [OF assms(1)] by (simp add: waiter_inv_def waiter_count_def)
  ultimately show ?thesis using api_invD(4) [OF assms(1)] by (simp add: api_inv_def send_inv_def)
qed

lemma inv_attach:
  assumes "api_inv st" "i < length (fetches st)"
  shows "api_inv (attach i signal st)"
proof -
  have "cache_inv (attach i signal st)"
    using api_invD(3) [OF assms(1)] by (rule cache_inv_cong [rotated -1]) (simp_all add: attach_def Let_def)
  moreover have "send_inv (attach i signal st)"
    using api_invD(4) [OF assms(1)] by (rule send_inv_cong [rotated -1]) (simp_all add: attach_def Let_def)
  ultimately show ?thesis using assms by (simp add: api_inv_def waiter_inv_attach)
qed

lemma inv_start_attach:
  assumes "api_inv st" "map_of (inFlight st) url = None" "startFetch url retry st = (i, st1)"
  shows "api_inv (attach i signal st1)"
proof -
  have st1: "st1 = snd (startFetch url retry st)" using assms(3) by simp
  have "cache_inv st1" using api_invD(3) [OF assms(1)]
    by (rule cache_inv_cong [rotated -1]) (simp_all add: st1 startFetch_def nth_append)
  then have "cache_inv (attach i signal st1)"
    by (rule cache_inv_cong [rotated -1]) (simp_all add: attach_def Let_def)
  moreover have "send_inv st1" using api_invD(4) [OF assms(1)]
    by (auto simp: st1 startFetch_def send_inv_def nth_append sends_ok_def less_Suc_eq)
  then have "send_inv (attach i signal st1)"
    by (rule send_inv_cong [rotated -1]) (simp_all add: attach_def Let_def)
  moreover have "flight_inv (attach i signal st1)"
    using flight_inv_start [OF api_invD(1) [OF assms(1)] assms(2)] by (simp add: st1)
  ultimately show ?thesis
    using waiter_inv_start_attach [OF api_invD(2) [OF assms(1)] assms(3)] by (simp add: api_inv_def)
qed

lemma inv_get: "api_inv st \<Longrightarrow> api_inv (getJSON url retry signal st)"
proof -
  assume a: "api_inv st"
  have "i < length (fetches st)" if "map_of (inFlight st) url = Some i" for i
    using map_of_SomeD [OF that] api_invD(1) [OF a] unfolding flight_inv_def by blast
  then show ?thesis
    using a by (auto simp: getJSON_def inv_answer inv_touch inv_attach inv_start_attach
        split: option.splits prod.splits)
qed

lemma inv_clear: "api_inv st \<Longrightarrow> api_inv (clearCache st)"
proof -
  assume a: "api_inv st"
  note n = clearCache_nth [OF api_invD(1) [OF a]]
  have "waiter_inv (clearCache st)"
    using api_invD(2) [OF a] by (rule waiter_inv_cong [rotated -1]) (auto simp: n live_def)
  moreover have "send_inv (clearCache st)"
    using api_invD(4) [OF a] by (rule send_inv_cong [rotated -1]) (auto simp: n)
  ultimately show ?thesis
    using flight_inv_clear [OF api_invD(1) [OF a]] by (simp add: api_inv_def cache_inv_def)
qed

lemma inv_advance:
  assumes "api_inv st" "i < length (fetches st)" "outcome (fetches st ! i) = None"
    "\<not> settled (g (fetches st ! i))" "sends_ok (g (fetches st ! i))"
    "f_url (g (fetches st ! i)) = f_url (fetches st ! i)" "f_epoch (g (fetches st ! i)) = f_epoch (fetches st ! i)"
    "f_aborted (g (fetches st ! i)) = f_aborted (fetches st ! i)" "f_waiters (g (fetches st ! i)) = f_waiters (fetches st ! i)"
  shows "api_inv (upd_entry i g st)"
proof -
  have ns: "\<not> settled (fetches st ! i)" using assms(3) by (auto simp: outcome_def settled_def split: phase.splits)
  have "flight_inv (upd_entry i g st) = flight_inv st"
    by (rule flight_inv_cong) (use ns assms(4,6-8) in \<open>auto simp: live_def\<close>)
  moreover have "waiter_inv (upd_entry i g st)"
    using api_invD(2) [OF assms(1)]
    by (rule waiter_inv_cong [rotated -1]) (use ns assms(4,8,9) in \<open>auto simp: live_def\<close>)
  moreover have "cache_inv (upd_entry i g st)"
    using api_invD(3) [OF assms(1)]
    by (rule cache_inv_cong [rotated -1]) (use assms(3,6,7) in auto)
  ultimately show ?thesis
    using assms(1,2,5) by (simp add: api_inv_def send_inv_upd)
qed

lemma sends_ok_phase: "sends_ok f \<Longrightarrow> \<forall>ms. p \<noteq> Sleeping ms \<Longrightarrow> sends_ok (f\<lparr>f_phase := p\<rparr>)"
  by (simp add: sends_ok_def)

lemma sends_ok_response: "sends_ok f \<Longrightarrow> sends_ok (f\<lparr>f_phase := after_response r f\<rparr>)"
  using retryDelayMs_pos [of r]
  by (auto simp: sends_ok_def after_response_def Let_def split: if_splits option.splits)

lemma sends_ok_sleep: "sends_ok f \<Longrightarrow> f_phase f = Sleeping ms \<Longrightarrow> sends_ok (after_sleep f)"
  by (auto simp: sends_ok_def after_sleep_def)

lemma after_response_unsettled: "\<not> settled (f\<lparr>f_phase := after_response r f\<rparr>)"
  by (auto simp: settled_def after_response_def Let_def split: option.splits)

lemma inv_sends: "api_inv st \<Longrightarrow> i < length (fetches st) \<Longrightarrow> sends_ok (fetches st ! i)"
  by (simp add: api_inv_def send_inv_def)

lemma inv_fetched:
  assumes "api_inv st" "i < length (fetches st)" "f_phase (fetches st ! i) = Fetched out"
  shows "api_inv (on_fetched i out st)"
proof -
  have o: "outcome (fetches st ! i) = None" "\<not> settled (fetches st ! i)"
    using assms(3) by (simp_all add: outcome_def settled_def)
  have w: "api_inv (upd_entry i (\<lambda>f. f\<lparr>f_phase := Written out'\<rparr>) st)" for out'
    by (rule inv_advance [OF assms(1,2) o(1)])
       (simp_all add: settled_def sends_ok_phase inv_sends [OF assms(1,2)])
  show ?thesis
  proof (cases out)
    case (Inr body)
    show ?thesis
    proof (cases "f_aborted (fetches st ! i)")
      case False
      let ?st' = "upd_entry i (\<lambda>f. f\<lparr>f_phase := Written (Inr body)\<rparr>) st"
      have "f_epoch (fetches st ! i) = epoch st"
        using api_invD(1) [OF assms(1)] assms(2) o(2) False unfolding flight_inv_def live_def by blast
      then have "cache_inv (?st'\<lparr>cache := cacheSet (f_url (fetches ?st' ! i)) body (cache ?st')\<rparr>)"
        using api_invD(3) [OF w] assms(2) by (intro cache_inv_write) simp_all
      moreover have "on_fetched i out st = ?st'\<lparr>cache := cacheSet (f_url (fetches ?st' ! i)) body (cache ?st')\<rparr>"
        using False Inr assms(2) by (simp add: on_fetched_def upd_entry_def)
      ultimately show ?thesis
        using w [of "Inr body"]
        by (simp add: api_inv_def flight_inv_def waiter_inv_def waiter_count_def send_inv_def)
    qed (simp add: on_fetched_def Inr w)
  qed (simp add: on_fetched_def w)
qed

lemma inv_dies:
  assumes "api_inv st" "i < length (fetches st)" "\<not> live (g (fetches st ! i))"
    "f_url (g (fetches st ! i)) = f_url (fetches st ! i)" "f_epoch (g (fetches st ! i)) = f_epoch (fetches st ! i)"
    "f_waiters (g (fetches st ! i)) = f_waiters (fetches st ! i)"
    "\<And>out. outcome (fetches st ! i) = Some out \<Longrightarrow> outcome (g (fetches st ! i)) = Some out"
    "sends_ok (g (fetches st ! i))"
  shows "api_inv (forget i (upd_entry i g st))"
proof -
  have "flight_inv (forget i (upd_entry i g st))"
    using api_invD(1) [OF assms(1)] assms(2-4) by (rule flight_inv_kill)
  moreover have "waiter_inv (forget i (upd_entry i g st))"
    using api_invD(2) [OF assms(1)]
    by (rule waiter_inv_cong [rotated -1]) (use assms(3,6) in auto)
  moreover have "cache_inv (forget i (upd_entry i g st))"
    using api_invD(3) [OF assms(1)]
    by (rule cache_inv_cong [rotated -1]) (use assms(4,5,7) in auto)
  moreover have "send_inv (forget i (upd_entry i g st))"
    using send_inv_upd [of st i g] api_invD(4) [OF assms(1)] assms(2,8) by (simp add: send_inv_def)
  ultimately show ?thesis by (simp add: api_inv_def)
qed

lemma inv_finally:
  assumes "api_inv st" "i < length (fetches st)" "f_phase (fetches st ! i) = Written out"
  shows "api_inv (on_finally i out st)"
  unfolding on_finally_def
  by (rule inv_dies [OF assms(1,2)])
     (use assms(3) in \<open>simp_all add: live_def settled_def outcome_def sends_ok_phase inv_sends [OF assms(1,2)]\<close>)

lemma inv_answered:
  assumes "api_inv st" "waiter_inv (upd_caller k h (caller_done k i st))"
  shows "api_inv (upd_caller k h (caller_done k i st))"
proof -
  have d: "cache_inv (upd_caller k h (caller_done k i st))"
    using api_invD(3) [OF assms(1)]
    by (rule cache_inv_cong [rotated -1]) (auto simp: caller_done_def)
  have "send_inv (upd_caller k h (caller_done k i st))"
    using api_invD(4) [OF assms(1)]
    by (rule send_inv_cong [rotated -1]) (auto simp: caller_done_def)
  with d assms show ?thesis by (simp add: api_inv_def)
qed

lemma inv_deliver:
  assumes "api_inv st" "k < length (callers st)" "c_entry (callers st ! k) = Some i" "settled (fetches st ! i)"
  shows "api_inv (deliver k i out st)"
  using inv_answered [OF assms(1)] waiter_inv_deliver [OF api_invD(2) [OF assms(1)] assms(2-4)]
  unfolding deliver_def by blast

lemma inv_onAbort:
  assumes "api_inv st" "k < length (callers st)" "c_entry (callers st ! k) = Some i" "\<not> c_done (callers st ! k)"
  shows "api_inv (onAbort k i st)"
proof -
  let ?st1 = "upd_caller k (\<lambda>c. c\<lparr>c_result := Some (Inl Abort_Error)\<rparr>) (caller_done k i st)"
  have i: "i < length (fetches st)"
    using api_invD(2) [OF assms(1)] assms(2,3) unfolding waiter_inv_def by (metis nth_mem)
  have w: "waiter_inv (onAbort k i st)" by (rule waiter_inv_abort [OF api_invD(2) [OF assms(1)] assms(2-4)])
  have f: "flight_inv ?st1" using api_invD(1) [OF assms(1)] by simp
  have c: "cache_inv ?st1"
    using api_invD(3) [OF assms(1)] by (rule cache_inv_cong [rotated -1]) (auto simp: caller_done_def)
  have s: "send_inv ?st1"
    using api_invD(4) [OF assms(1)] by (rule send_inv_cong [rotated -1]) (auto simp: caller_done_def)
  let ?g = "\<lambda>f. f\<lparr>f_aborted := True\<rparr>"
  have "flight_inv (forget i (upd_entry i ?g ?st1))"
    using f by (rule flight_inv_kill) (simp_all add: i live_def)
  moreover have "cache_inv (forget i (upd_entry i ?g ?st1))"
    using c by (rule cache_inv_cong [rotated -1]) auto
  moreover have "send_inv (forget i (upd_entry i ?g ?st1))"
    using s by (rule send_inv_cong [rotated -1]) auto
  ultimately show ?thesis
    using w f c s unfolding api_inv_def onAbort_eq Let_def by presburger
qed

lemma onAbort_simps [simp]: "length (callers (onAbort k i st)) = length (callers st)"
  "length (fetches (onAbort k i st)) = length (fetches st)"
  by (simp_all add: onAbort_def Let_def)

lemma inv_abort_caller:
  assumes "api_inv st" "k < length (callers st)"
  shows "api_inv (abort_caller j st k)"
proof (cases "listens j (callers st ! k)")
  case True
  then obtain i where "c_entry (callers st ! k) = Some i" "\<not> c_done (callers st ! k)" by (auto simp: listens_def)
  with inv_onAbort [OF assms] True show ?thesis by (simp add: abort_caller_def)
qed (simp add: abort_caller_def assms(1))

lemma abort_caller_length [simp]: "length (callers (abort_caller j st k)) = length (callers st)"
  by (simp add: abort_caller_def)

lemma inv_abort_callers:
  "api_inv st \<Longrightarrow> \<forall>k \<in> set ks. k < length (callers st) \<Longrightarrow> api_inv (foldl (abort_caller j) st ks)"
  by (induction ks arbitrary: st) (simp_all add: inv_abort_caller)

lemma inv_signals: "api_inv (st\<lparr>aborted_signals := js\<rparr>) = api_inv st"
  by (simp add: api_inv_def flight_inv_def waiter_inv_def waiter_count_def cache_inv_def send_inv_def)

lemma inv_abort: "api_inv st \<Longrightarrow> api_inv (abort_signal j st)"
  unfolding abort_signal_def using inv_abort_callers [of "st\<lparr>aborted_signals := j # aborted_signals st\<rparr>" "[0..<length (callers st)]" j]
  by (simp add: inv_signals)

lemma inv_step: "api_inv st \<Longrightarrow> api_inv (api_step st e)"
proof (cases e)
  case (Respond i r)
  assume a: "api_inv st"
  have "api_inv (upd_entry i (\<lambda>f. f\<lparr>f_phase := after_response r f\<rparr>) st)"
    if "i < length (fetches st)" "f_phase (fetches st ! i) = Sent"
    by (rule inv_advance [OF a that(1)])
       (use that(2) in \<open>simp_all add: outcome_def after_response_unsettled sends_ok_response inv_sends [OF a that(1)]\<close>)
  with a Respond show ?thesis by simp
next
  case (Fail i er)
  assume a: "api_inv st"
  have "api_inv (upd_entry i (\<lambda>f. f\<lparr>f_phase := Fetched (Inl er)\<rparr>) st)"
    if "i < length (fetches st)" "f_phase (fetches st ! i) = Sent"
    by (rule inv_advance [OF a that(1)])
       (use that(2) in \<open>simp_all add: outcome_def settled_def sends_ok_phase inv_sends [OF a that(1)]\<close>)
  with a Fail show ?thesis by simp
next
  case (Wake i)
  assume a: "api_inv st"
  have "api_inv (upd_entry i after_sleep st)"
    if "i < length (fetches st)" "f_phase (fetches st ! i) = Sleeping ms" for ms
    by (rule inv_advance [OF a that(1)])
       (use that(2) in \<open>simp_all add: outcome_def sends_ok_sleep [OF inv_sends [OF a that(1)]],
         simp_all add: after_sleep_def settled_def\<close>)
  with a Wake show ?thesis by (simp split: phase.splits)
next
  case (Run_Waiter k)
  assume a: "api_inv st"
  from a Run_Waiter show ?thesis by (auto simp: inv_deliver settled_def split: option.splits phase.splits)
qed (simp_all add: inv_get inv_abort inv_clear inv_fetched inv_finally split: phase.splits)

lemma inv_reach: "api_reach st \<Longrightarrow> api_inv st"
  by (induction rule: api_reach.induct) (simp_all add: inv_init inv_step)

section \<open>Aborts and answers\<close>

lemma spare_step:
  assumes "api_inv st" "m < length (callers st)" "waiting_on i (callers st ! m)" "live (fetches st ! i)"
    "c_signal (callers st ! m) \<noteq> Some j" "k < length (callers st)"
  shows "callers (abort_caller j st k) ! m = callers st ! m \<and> live (fetches (abort_caller j st k) ! i)"
proof (cases "listens j (callers st ! k)")
  case True
  with assms(5) have ne: "m \<noteq> k" by (auto simp: listens_def)
  from True obtain i' where k: "c_entry (callers st ! k) = Some i'" "\<not> c_done (callers st ! k)" by (auto simp: listens_def)
  note wi = api_invD(2) [OF assms(1)]
  have i: "i < length (fetches st)" "i' < length (fetches st)"
    using wi assms(2,3,6) k unfolding waiter_inv_def waiting_on_def by (metis nth_mem)+
  let ?st1 = "upd_caller k (\<lambda>c. c\<lparr>c_result := Some (Inl Abort_Error)\<rparr>) (caller_done k i' st)"
  note f = finish_caller [OF wi assms(6) k, where out = "Inl Abort_Error"]
  have m1: "callers ?st1 ! m = callers st ! m"
    using ne assms(2) k by (simp add: caller_done_def)
  have "callers ?st1 ! m \<in> set (filter (waiting_on i) (callers ?st1))"
    using m1 assms(2,3) nth_mem [of m "callers ?st1"] by simp
  then have "0 < waiter_count i ?st1" unfolding waiter_count_def
    by (metis length_pos_if_in_set of_nat_0_less_iff)
  then have keep: "i' = i \<Longrightarrow> f_waiters (fetches ?st1 ! i') \<noteq> 0" using f(2) by simp
  have l1: "live (fetches ?st1 ! i)" using f(3) [OF i(1)] assms(4) by simp
  have "callers (onAbort k i' st) ! m = callers st ! m \<and> live (fetches (onAbort k i' st) ! i)"
    using keep l1 m1 i by (auto simp: onAbort_eq Let_def)
  with True k show ?thesis by (simp add: abort_caller_def)
qed (simp add: abort_caller_def assms(4))

lemma spare_run:
  assumes "api_inv st" "m < length (callers st)" "waiting_on i (callers st ! m)" "live (fetches st ! i)"
    "c_signal (callers st ! m) \<noteq> Some j" "\<forall>k \<in> set ks. k < length (callers st)"
  shows "callers (foldl (abort_caller j) st ks) ! m = callers st ! m \<and> live (fetches (foldl (abort_caller j) st ks) ! i)"
  using assms
proof (induction ks arbitrary: st)
  case (Cons k ks)
  note s = spare_step [OF Cons.prems(1-5), of k]
  have "callers (foldl (abort_caller j) (abort_caller j st k) ks) ! m = callers (abort_caller j st k) ! m
    \<and> live (fetches (foldl (abort_caller j) (abort_caller j st k) ks) ! i)"
    using Cons.prems s by (intro Cons.IH) (simp_all add: inv_abort_caller)
  with s Cons.prems(6) show ?case by simp
qed simp

lemma cacheSet_get: "length c \<le> CACHE_LIMIT \<Longrightarrow> map_of (cacheSet url body c) url = Some body"
proof (cases "url \<in> fst ` set c")
  case True
  assume "length c \<le> CACHE_LIMIT"
  moreover have "length (AList.update url body c) = length c" using True by (induction c) auto
  ultimately show ?thesis by (simp add: cacheSet_def evict_id update_conv')
next
  case False
  assume l: "length c \<le> CACHE_LIMIT"
  note u = AList_update_new [OF False, of body]
  have one: "map_of (xs @ [(url, body)]) url = Some body" if "set xs \<subseteq> set c" for xs
    using False that by (induction xs) force+
  show ?thesis
  proof (cases "length c < CACHE_LIMIT")
    case True
    then show ?thesis using one [of c] by (simp add: cacheSet_def u evict_id)
  next
    case full: False
    with l have "length c = CACHE_LIMIT" by simp
    then obtain x xs where c: "c = x # xs" by (cases c) (auto simp: CACHE_LIMIT_def)
    with l full have "cacheSet url body c = xs @ [(url, body)]"
      unfolding cacheSet_def u by (simp add: evict_id)
    with one [of xs] c show ?thesis by (simp add: subset_insertI)
  qed
qed

section \<open>Properties\<close>

text \<open>C1. Whatever the interleaving, no two live requests are for the same URL, every live one is
  in the table of requests in flight, and each has exactly as many waiters as callers still
  want its answer, at least one.\<close>

theorem one_request_per_url:
  assumes "api_reach st" "i < length (fetches st)" "live (fetches st ! i)"
  shows "map_of (inFlight st) (f_url (fetches st ! i)) = Some i
    \<and> (\<forall>j < length (fetches st). live (fetches st ! j) \<and> f_url (fetches st ! j) = f_url (fetches st ! i) \<longrightarrow> j = i)
    \<and> f_waiters (fetches st ! i) = waiter_count i st \<and> 0 < waiter_count i st"
proof -
  note inv = inv_reach [OF assms(1)]
  have m: "map_of (inFlight st) (f_url (fetches st ! j)) = Some j"
    if "j < length (fetches st)" "live (fetches st ! j)" for j
    using flight_in_map [OF api_invD(1) [OF inv] that(1)] that(2) by blast
  from m [OF assms(2,3)] m have "j = i"
    if "j < length (fetches st)" "live (fetches st ! j)" "f_url (fetches st ! j) = f_url (fetches st ! i)" for j
    using that by (metis option.inject)
  with m [OF assms(2,3)] api_invD(2) [OF inv] assms(2,3) show ?thesis unfolding waiter_inv_def by blast
qed

definition shared_run :: "nat api_event list" where
  "shared_run = [Get ''/a'' True (Some 1), Get ''/a'' True None, Get ''/b'' True None]"

theorem one_request_per_url_witness:
  "map_of (inFlight (foldl api_step init_api shared_run)) ''/a'' = Some 0
    \<and> f_waiters (fetches (foldl api_step init_api shared_run) ! 0) = 2"
  using one_request_per_url [OF api_reach_run [OF api_reach.start], of 0 shared_run]
  by (simp add: shared_run_def getJSON_def signal_aborted_def init_api_def startFetch_def attach_def Let_def
      upd_entry_def live_def settled_def waiter_count_def waiting_on_def)

text \<open>C2. Every cached body answers a request for its URL that was sent after the last
  \<open>clearCache\<close>: a response still on the wire when the cache is cleared is never written. The
  cache holds at most 64 entries, one per URL.\<close>

theorem cache_holds_fresh_answers:
  assumes "api_reach st"
  shows "distinct (map fst (cache st)) \<and> length (cache st) \<le> 64
    \<and> (\<forall>(u, b) \<in> set (cache st). \<exists>i < length (fetches st). f_url (fetches st ! i) = u
         \<and> f_epoch (fetches st ! i) = epoch st \<and> outcome (fetches st ! i) = Some (Inr b))"
  using api_invD(3) [OF inv_reach [OF assms]] unfolding cache_inv_def CACHE_LIMIT_def .

definition late_run :: "nat api_event list" where
  "late_run = [Get ''/a'' True None, Clear, Get ''/a'' True None,
     Respond 0 \<lparr>r_status = 200, r_retry_after = None, r_json = Some 5\<rparr>, Run_Then 0, Run_Finally 0,
     Respond 1 \<lparr>r_status = 200, r_retry_after = None, r_json = Some 7\<rparr>, Run_Then 1]"

theorem cache_holds_fresh_answers_witness:
  "cache (foldl api_step init_api late_run) = [(''/a'', 7)] \<and> epoch (foldl api_step init_api late_run) = 1
    \<and> (\<exists>i < length (fetches (foldl api_step init_api late_run)).
         f_epoch (fetches (foldl api_step init_api late_run) ! i) = 1)"
proof -
  have c: "cache (foldl api_step init_api late_run) = [(''/a'', 7)]" "epoch (foldl api_step init_api late_run) = 1"
    by (simp_all add: late_run_def getJSON_def signal_aborted_def init_api_def startFetch_def attach_def Let_def
      upd_entry_def clearCache_def on_fetched_def on_finally_def forget_def after_response_def response_ok_def cacheSet_def CACHE_LIMIT_def)
  with cache_holds_fresh_answers [OF api_reach_run [OF api_reach.start], of late_run] show ?thesis by auto
qed

text \<open>C5. A request reaches the network at most twice, a second time only when its caller allowed
  the retry, and the wait before it is positive and at most 30 seconds.\<close>

theorem retry_is_bounded:
  assumes "api_reach st" "i < length (fetches st)"
  shows "f_sends (fetches st ! i) \<le> 2 \<and> (f_sends (fetches st ! i) = 2 \<longrightarrow> f_retry (fetches st ! i))
    \<and> (\<forall>ms. f_phase (fetches st ! i) = Sleeping ms \<longrightarrow>
         f_retry (fetches st ! i) \<and> f_sends (fetches st ! i) = 1 \<and> 0 < ms \<and> ms \<le> 30000)"
  using inv_sends [OF inv_reach [OF assms(1)] assms(2)] by (auto simp: sends_ok_def RETRY_AFTER_CAP_MS_def)

theorem retry_is_bounded_witness:
  "\<exists>ms. f_phase (fetches (foldl api_step (init_api :: nat api)
     [Get ''/a'' True None, Respond 0 \<lparr>r_status = 429, r_retry_after = Some ''-3'', r_json = None\<rparr>]) ! 0) = Sleeping ms
     \<and> 0 < ms \<and> ms \<le> 30000"
proof -
  let ?st = "foldl api_step (init_api :: nat api)
     [Get ''/a'' True None, Respond 0 \<lparr>r_status = 429, r_retry_after = Some ''-3'', r_json = None\<rparr>]"
  let ?r = "\<lparr>r_status = 429, r_retry_after = Some ''-3'', r_json = None\<rparr> :: nat response"
  have ms: "retryDelayMs ?r = 2000"
    by (simp add: retryDelayMs_def string_to_number_def trim_def is_ws_def radix_literal_def signed_decimal_def
        unsigned_decimal_def is_digit_def digits_val_def digit_val_def RATE_LIMIT_RETRY_MS_def)
  have "length (fetches ?st) = 1" "f_phase (fetches ?st ! 0) = Sleeping 2000"
    by (simp_all add: getJSON_def signal_aborted_def init_api_def startFetch_def attach_def Let_def
      upd_entry_def after_response_def ms RETRY_AFTER_CAP_MS_def)
  with retry_is_bounded [OF api_reach_run [OF api_reach.start], of 0 "[Get ''/a'' True None, Respond 0 ?r]"]
  show ?thesis by auto
qed

text \<open>C4. One caller's abort never takes the answer from another: as long as some caller with a
  different signal waits for the request, the request stays live and that caller's record is
  untouched.\<close>

theorem abort_spares_other_waiters:
  assumes "api_reach st" "m < length (callers st)" "waiting_on i (callers st ! m)" "live (fetches st ! i)"
    and "c_signal (callers st ! m) \<noteq> Some j"
  shows "callers (abort_signal j st) ! m = callers st ! m \<and> live (fetches (abort_signal j st) ! i)"
proof (cases "j \<in> set (aborted_signals st)")
  case False
  then show ?thesis
    using spare_run [of "st\<lparr>aborted_signals := j # aborted_signals st\<rparr>" m i j "[0..<length (callers st)]"]
      assms inv_reach [OF assms(1)] by (simp add: abort_signal_def inv_signals)
qed (simp add: abort_signal_def assms(4))

theorem abort_spares_other_waiters_witness:
  "live (fetches (abort_signal 1 (foldl api_step init_api shared_run)) ! 0)"
  using abort_spares_other_waiters [OF api_reach_run [OF api_reach.start], of 1 shared_run 0 1]
  by (simp add: shared_run_def getJSON_def signal_aborted_def init_api_def startFetch_def attach_def Let_def
      upd_entry_def live_def settled_def waiting_on_def)

text \<open>C3. Once the transport has an outcome, the callbacks hand it to a waiting caller: the body,
  which is then also the cached answer for the URL, or the error, which is not cached; after an
  abort of the request the cache is left as it was, body or error, and the caller is told of the
  abort where there was a body.\<close>

theorem waiting_caller_is_answered:
  assumes "api_reach st" "i < length (fetches st)" "f_phase (fetches st ! i) = Fetched out"
    and "k < length (callers st)" "waiting_on i (callers st ! k)"
  defines "st' \<equiv> foldl api_step st [Run_Then i, Run_Finally i, Run_Waiter k]"
  shows "c_result (callers st' ! k) = Some (if f_aborted (fetches st ! i) \<and> \<not> isl out then Inl Abort_Error else out)
    \<and> (\<forall>body. out = Inr body \<and> \<not> f_aborted (fetches st ! i) \<longrightarrow> map_of (cache st') (f_url (fetches st ! i)) = Some body)
    \<and> (f_aborted (fetches st ! i) \<or> isl out \<longrightarrow> cache st' = cache st)"
proof -
  note inv = inv_reach [OF assms(1)]
  let ?out = "if f_aborted (fetches st ! i) \<and> \<not> isl out then Inl Abort_Error else out"
  define st1 where "st1 = on_fetched i out st"
  define st2 where "st2 = on_finally i ?out st1"
  have st1: "f_phase (fetches st1 ! i) = Written ?out" "length (fetches st1) = length (fetches st)" "callers st1 = callers st"
  proof -
    have "st1 = upd_entry i (\<lambda>f. f\<lparr>f_phase := Written ?out\<rparr>) st
      \<or> (\<exists>c. st1 = upd_entry i (\<lambda>f. f\<lparr>f_phase := Written ?out\<rparr>) (st\<lparr>cache := c\<rparr>))"
      by (cases out) (auto simp: st1_def on_fetched_def)
    then show "f_phase (fetches st1 ! i) = Written ?out" "length (fetches st1) = length (fetches st)"
        "callers st1 = callers st"
      using assms(2) by (elim disjE exE; simp)+
  qed
  have st2: "f_phase (fetches st2 ! i) = Settled ?out" "length (fetches st2) = length (fetches st)" "callers st2 = callers st"
    "cache st2 = cache st1"
    using assms(2) st1 by (simp_all add: st2_def on_finally_def)
  have "c_result (callers st ! k) = None"
    using api_invD(2) [OF inv] assms(4,5) unfolding waiter_inv_def waiting_on_def by (metis nth_mem)
  then have res: "c_result (callers (deliver k i ?out st2) ! k) = Some ?out"
    using assms(4,5) st2(3) by (simp add: deliver_def caller_done_def waiting_on_def)
  have "st' = deliver k i ?out st2"
    using assms(2-5) st1 st2 unfolding st'_def by (simp add: st1_def [symmetric] st2_def [symmetric] waiting_on_def)
  moreover have "map_of (cache (deliver k i ?out st2)) (f_url (fetches st ! i)) = Some body"
    if "out = Inr body" "\<not> f_aborted (fetches st ! i)" for body
    using that api_invD(3) [OF inv] st2(4) by (simp add: deliver_def st1_def on_fetched_def cacheSet_get cache_inv_def)
  moreover have "cache (deliver k i ?out st2) = cache st" if "f_aborted (fetches st ! i) \<or> isl out"
    using that st2(4) by (cases out) (auto simp: deliver_def st1_def on_fetched_def)
  ultimately show ?thesis using res by blast
qed

theorem waiting_caller_is_answered_witness:
  "c_result (callers (foldl api_step (foldl api_step init_api [Get ''/a'' True None,
      Respond 0 \<lparr>r_status = 200, r_retry_after = None, r_json = Some (5::nat)\<rparr>])
      [Run_Then 0, Run_Finally 0, Run_Waiter 0]) ! 0) = Some (Inr 5)"
proof -
  define st where "st = foldl api_step init_api [Get ''/a'' True None,
    Respond 0 \<lparr>r_status = 200, r_retry_after = None, r_json = Some (5::nat)\<rparr>]"
  have r: "api_reach st" unfolding st_def by (intro api_reach_run api_reach.start)
  have "length (fetches st) = 1" "f_phase (fetches st ! 0) = Fetched (Inr 5)" "length (callers st) = 1"
    "waiting_on 0 (callers st ! 0)" "\<not> f_aborted (fetches st ! 0)"
    by (simp_all add: st_def getJSON_def signal_aborted_def init_api_def startFetch_def attach_def Let_def
      upd_entry_def after_response_def response_ok_def waiting_on_def)
  with waiting_caller_is_answered [OF r, of 0 "Inr 5" 0] show ?thesis unfolding st_def [symmetric] by simp
qed

end
