(* ===== verification/Ramp.thy ===== *)
theory Ramp
  imports Js_Prelude
begin

text \<open>
  \<open>web/src/lib/ramp.js\<close>: the continuous colour scale shared by the map and its key. A band
  table becomes stops on a bar of length 100 (\<open>rampStops\<close>), value ranges (\<open>rampSpans\<close>), a
  position for a reading (\<open>rampPosition\<close>), a colour (\<open>rampColour\<close>, mixed in OKLab) and the
  stops of a style expression (\<open>rampValueStops\<close>). A colour that is \<open>null\<close> is \<open>None\<close>.
\<close>

section \<open>Band tables\<close>

type_synonym colour = "string option"

record band =
  b_colour :: colour
  b_upper :: "real option"
  b_ceiling :: "real option"
  b_label :: "string option"
  b_label_bg :: "string option"

definition mk_band :: "string \<Rightarrow> real option \<Rightarrow> real option \<Rightarrow> band" where
  "mk_band c u ce = \<lparr>b_colour = Some c, b_upper = u, b_ceiling = ce, b_label = None, b_label_bg = None\<rparr>"

text \<open>A missing bound counts as 0 in arithmetic, as \<open>null\<close> does.\<close>

definition num_or_0 :: "real option \<Rightarrow> real" where
  "num_or_0 x = (case x of Some v \<Rightarrow> v | None \<Rightarrow> 0)"

lemma num_or_0_simps [simp]: "num_or_0 (Some v) = v" "num_or_0 None = 0"
  by (simp_all add: num_or_0_def)

section \<open>Stops and spans\<close>

definition rampStops :: "band list \<Rightarrow> (colour \<times> real) list" where
  "rampStops bands = (case bands of
      [] \<Rightarrow> []
    | [b] \<Rightarrow> [(b_colour b, 0), (b_colour b, 100)]
    | _ \<Rightarrow> let step = 100 / real (length bands);
            stops = map (\<lambda>(i, band). (b_colour band, (real i + 1 / 2) * step)) (enumerate 0 bands)
          in (fst (hd stops), 0) # stops @ [(fst (last stops), 100)])"

definition span_top :: "band list \<Rightarrow> real" where
  "span_top bands = (let n = length bands; uppers = (\<lambda>i. b_upper (bands ! i));
      below = num_or_0 (uppers (n - 2));
      borrowed = below + (if 3 \<le> n then below - num_or_0 (uppers (n - 3))
                          else if \<bar>below\<bar> = 0 then 1 else \<bar>below\<bar>)
    in case uppers (n - 1) of
        Some u \<Rightarrow> u
      | None \<Rightarrow> (case b_ceiling (bands ! (n - 1)) of
            Some c \<Rightarrow> if below < c then c else borrowed
          | None \<Rightarrow> borrowed))"

definition span_bottom :: "band list \<Rightarrow> real" where
  "span_bottom bands = (let uppers = (\<lambda>i. b_upper (bands ! i)); u0 = num_or_0 (uppers 0);
      u1 = (case uppers 1 of Some u \<Rightarrow> u | None \<Rightarrow> span_top bands)
    in u0 - (u1 - u0))"

definition rampSpans :: "band list \<Rightarrow> (real \<times> real) list" where
  "rampSpans bands = (case bands of
      [] \<Rightarrow> []
    | [b] \<Rightarrow> [(0, case b_upper b of Some u \<Rightarrow> u
                     | None \<Rightarrow> (case b_ceiling b of Some c \<Rightarrow> c | None \<Rightarrow> 1))]
    | _ \<Rightarrow> let n = length bands; uppers = (\<lambda>i. b_upper (bands ! i)) in
        map (\<lambda>i. (if i = 0 then span_bottom bands else num_or_0 (uppers (i - 1)),
                  if i = n - 1 then span_top bands else num_or_0 (uppers i))) [0..<n])"

section \<open>The position of a reading\<close>

fun position_loop :: "real \<Rightarrow> nat \<Rightarrow> real \<Rightarrow> (real \<times> real) list \<Rightarrow> real" where
  "position_loop step i value [] = 100"
| "position_loop step i value ((lower, upper) # rest) =
     (if rest \<noteq> [] \<and> value > upper then position_loop step (Suc i) value rest
      else let t = (if upper = lower then 0 else (value - lower) / (upper - lower))
           in (real i + max 0 (min 1 t)) * step)"

definition rampPosition :: "real option \<Rightarrow> band list \<Rightarrow> real option" where
  "rampPosition value bands = (case value of
      None \<Rightarrow> None
    | Some v \<Rightarrow> let spans = rampSpans bands in
        if spans = [] then None
        else Some (position_loop (100 / real (length spans)) 0 v spans))"

section \<open>Colours\<close>

definition is_hex :: "char \<Rightarrow> bool" where
  "is_hex c \<longleftrightarrow> hex_val c \<noteq> None"

definition hex_pair :: "char \<Rightarrow> char \<Rightarrow> nat" where
  "hex_pair a b = 16 * the (hex_val a) + the (hex_val b)"

definition parse_hash :: "string \<Rightarrow> (nat \<times> nat \<times> nat) option" where
  "parse_hash text = (case text of
      hash # h \<Rightarrow> if hash = CHR ''#'' \<and> list_all is_hex h then (case h of
            [a, b, c] \<Rightarrow> Some (hex_pair a a, hex_pair b b, hex_pair c c)
          | [a, a', b, b', c, c'] \<Rightarrow> Some (hex_pair a a', hex_pair b b', hex_pair c c')
          | _ \<Rightarrow> None) else None
    | [] \<Rightarrow> None)"

text \<open>\<open>\s*(\d+)\s*\<close> followed by one given character.\<close>

definition eat_number :: "char \<Rightarrow> string \<Rightarrow> (nat \<times> string) option" where
  "eat_number stop s = (let a = dropWhile is_ws s; ds = takeWhile is_digit a;
      r = dropWhile is_ws (dropWhile is_digit a)
    in if ds = [] then None
       else case r of c # t \<Rightarrow> if c = stop then Some (digits_val ds, t) else None | [] \<Rightarrow> None)"

definition lower_ascii :: "char \<Rightarrow> char" where
  "lower_ascii c = (let k = (of_char c :: nat) in if 65 \<le> k \<and> k \<le> 90 then char_of (k + 32) else c)"

definition parse_rgb :: "string \<Rightarrow> (nat \<times> nat \<times> nat) option" where
  "parse_rgb text = (if map lower_ascii (take 4 text) = ''rgb('' then
      (case eat_number CHR '','' (drop 4 text) of None \<Rightarrow> None
       | Some (r, s1) \<Rightarrow> (case eat_number CHR '','' s1 of None \<Rightarrow> None
          | Some (g, s2) \<Rightarrow> (case eat_number CHR '')'' s2 of None \<Rightarrow> None
             | Some (b, s3) \<Rightarrow> if s3 = [] then Some (r, g, b) else None))) else None)"

definition parseHex :: "colour \<Rightarrow> (nat \<times> nat \<times> nat) option" where
  "parseHex colour = (let text = trim (case colour of Some c \<Rightarrow> c | None \<Rightarrow> []) in
     case parse_hash text of Some p \<Rightarrow> Some p | None \<Rightarrow> parse_rgb text)"

definition srgbToLinear :: "nat \<Rightarrow> real" where
  "srgbToLinear c = (let v = real c / 255 in
     if v \<le> 4045 / 100000 then v / (1292 / 100) else ((v + 55 / 1000) / (1055 / 1000)) powr (24 / 10))"

definition linearToSRGB :: "real \<Rightarrow> int" where
  "linearToSRGB v = (let c = (if v \<le> 31308 / 10000000 then v * (1292 / 100)
       else (1055 / 1000) * v powr (10 / 24) - 55 / 1000)
     in max 0 (min 255 (math_round (c * 255))))"

definition rgbToOklab :: "nat \<times> nat \<times> nat \<Rightarrow> real \<times> real \<times> real" where
  "rgbToOklab rgb = (case rgb of (r, g, b) \<Rightarrow>
     let R = srgbToLinear r; G = srgbToLinear g; B = srgbToLinear b;
       l = root 3 (0.4122214708 * R + 0.5363325363 * G + 0.0514459929 * B);
       m = root 3 (0.2119034982 * R + 0.6806995451 * G + 0.1073969566 * B);
       s = root 3 (0.0883024619 * R + 0.2817188376 * G + 0.6299787005 * B)
     in (0.2104542553 * l + 0.793617785 * m - 0.0040720468 * s,
         1.9779984951 * l - 2.428592205 * m + 0.4505937099 * s,
         0.0259040371 * l + 0.7827717662 * m - 0.808675766 * s))"

definition oklabToRGB :: "real \<times> real \<times> real \<Rightarrow> int \<times> int \<times> int" where
  "oklabToRGB lab = (case lab of (L, a, b) \<Rightarrow>
     let l = (L + 0.3963377774 * a + 0.2158037573 * b) ^ 3;
       m = (L - 0.1055613458 * a - 0.0638541728 * b) ^ 3;
       s = (L - 0.0894841775 * a - 1.291485548 * b) ^ 3
     in (linearToSRGB (4.0767416621 * l - 3.3077115913 * m + 0.2309699292 * s),
         linearToSRGB (- 1.2684380046 * l + 2.6097574011 * m - 0.3413193965 * s),
         linearToSRGB (- 0.0041960863 * l - 0.7034186147 * m + 1.707614701 * s)))"

definition rgb_css :: "int \<times> int \<times> int \<Rightarrow> string" where
  "rgb_css rgb = (case rgb of (r, g, b) \<Rightarrow>
     ''rgb('' @ int_str r @ '', '' @ int_str g @ '', '' @ int_str b @ '')'')"

definition mixOklab :: "colour \<Rightarrow> colour \<Rightarrow> real \<Rightarrow> colour" where
  "mixOklab a b t = (if t \<le> 0 then a else if 1 \<le> t then b else if a = b then a
     else case (parseHex a, parseHex b) of
         (Some from, Some to) \<Rightarrow>
           (case (rgbToOklab from, rgbToOklab to) of ((l0, a0, b0), (l1, a1, b1)) \<Rightarrow>
              Some (rgb_css (oklabToRGB (l0 + (l1 - l0) * t, a0 + (a1 - a0) * t, b0 + (b1 - b0) * t))))
       | _ \<Rightarrow> if t < 1 / 2 then a else b)"

fun colour_loop :: "real \<Rightarrow> (colour \<times> real) list \<Rightarrow> colour" where
  "colour_loop pos (lo # hi # rest) = (if snd hi < pos then colour_loop pos (hi # rest)
     else let t = (if snd hi = snd lo then 0 else (pos - snd lo) / (snd hi - snd lo))
          in mixOklab (fst lo) (fst hi) t)"
| "colour_loop pos [s] = fst s"
| "colour_loop pos [] = None"

definition rampColour :: "real option \<Rightarrow> band list \<Rightarrow> colour \<Rightarrow> colour" where
  "rampColour value bands noDataColour = (case rampPosition value bands of
      None \<Rightarrow> noDataColour
    | Some pos \<Rightarrow> let stops = rampStops bands in
        if stops = [] then noDataColour else colour_loop pos stops)"

definition rising :: "real list \<Rightarrow> real list" where
  "rising values = (case values of [] \<Rightarrow> []
     | v # vs \<Rightarrow> v # map snd (filter (\<lambda>(p, w). p < w) (zip values vs)))"

definition rampValueStops :: "band list \<Rightarrow> (real \<times> colour) list" where
  "rampValueStops bands = (let spans = rampSpans bands in
     if spans = [] then []
     else let values = fst (hd spans) # concat (map (\<lambda>(lower, upper). [(lower + upper) / 2, upper]) spans)
          in map (\<lambda>value. (value, rampColour (Some value) bands None)) (rising values))"

fun intercalate_css :: "string list \<Rightarrow> string" where
  "intercalate_css [] = []"
| "intercalate_css [w] = w"
| "intercalate_css (w # ws) = w @ '', '' @ intercalate_css ws"

definition rampGradient :: "band list \<Rightarrow> string \<Rightarrow> string" where
  "rampGradient bands direction = (let stops = rampStops bands in
     if stops = [] then []
     else ''linear-gradient('' @ direction @ '', '' @
       intercalate_css (map (\<lambda>(c, p). (case c of Some s \<Rightarrow> s | None \<Rightarrow> ''null'') @ '' '' @ to_fixed 3 p @ ''%'') stops) @ '')'')"

section \<open>The shape of the stops\<close>

lemma rampStops_many:
  assumes "2 \<le> length bands"
  shows "rampStops bands = (b_colour (hd bands), 0)
     # map (\<lambda>i. (b_colour (bands ! i), (real i + 1 / 2) * (100 / real (length bands)))) [0..<length bands]
     @ [(b_colour (last bands), 100)]"
proof -
  obtain b c bs where b: "bands = b # c # bs"
    using assms by (cases bands; cases "tl bands") auto
  have e: "map (\<lambda>(i, band). (b_colour band, (real i + 1 / 2) * s)) (enumerate 0 xs)
      = map (\<lambda>i. (b_colour (xs ! i), (real i + 1 / 2) * s)) [0..<length xs]" for s and xs :: "band list"
    by (rule nth_equalityI) (simp_all add: nth_enumerate_eq)
  have l: "fst (last (map (\<lambda>i. (b_colour (xs ! i), f i)) [0..<length xs])) = b_colour (last xs)"
    if "xs \<noteq> []" for xs and f :: "nat \<Rightarrow> real"
    using that by (simp add: last_map last_conv_nth)
  show ?thesis
    unfolding rampStops_def b by (simp only: list.case Let_def e l list.discI not_False_eq_True)
      (simp add: hd_map upt_rec)
qed

lemma length_rampStops: "bands \<noteq> [] \<Longrightarrow> length (rampStops bands) = (if length bands = 1 then 2 else length bands + 2)"
  by (cases bands; cases "tl bands") (simp_all add: rampStops_many, simp add: rampStops_def)

lemma rampStops_ascending: "sorted_wrt (\<lambda>a b. snd a < snd b) (rampStops bands)"
proof (cases "2 \<le> length bands")
  case True
  let ?n = "real (length bands)"
  have n: "0 < ?n" using True by linarith
  have step: "0 < 100 / ?n" using n by simp
  have inner: "sorted_wrt (\<lambda>a b. snd a < snd b)
      (map (\<lambda>i. (b_colour (bands ! i), (real i + 1 / 2) * (100 / ?n))) [0..<length bands])"
    unfolding sorted_wrt_iff_nth_less using step by (auto intro!: mult_strict_right_mono simp del: times_divide_eq_right)
  have lo: "0 < (real i + 1 / 2) * (100 / ?n)" for i :: nat
    using step by (intro mult_pos_pos) auto
  have hi: "(real i + 1 / 2) * (100 / ?n) < 100" if "i < length bands" for i
  proof -
    have "real i + 1 / 2 < ?n" using that by linarith
    then have "(real i + 1 / 2) * (100 / ?n) < ?n * (100 / ?n)" using step by (rule mult_strict_right_mono)
    with n show ?thesis by simp
  qed
  show ?thesis using inner lo hi by (auto simp: rampStops_many [OF True] sorted_wrt_append)
next
  case False
  then consider "bands = []" | b where "bands = [b]" by (cases bands; cases "tl bands") auto
  then show ?thesis by cases (simp_all add: rampStops_def)
qed

section \<open>The shape of the spans\<close>

text \<open>A well-formed table: stated and strictly ascending bounds, the last one possibly open.\<close>

definition table_ok :: "band list \<Rightarrow> bool" where
  "table_ok bands \<longleftrightarrow> (\<exists>b. bands = [b] \<and> 0 < snd (hd (rampSpans [b]))) \<or>
     (2 \<le> length bands \<and> (\<forall>i < length bands - 1. b_upper (bands ! i) \<noteq> None) \<and>
      (\<forall>i < length bands - 1. \<forall>u. b_upper (bands ! Suc i) = Some u \<longrightarrow> num_or_0 (b_upper (bands ! i)) < u))"

fun chain :: "(real \<times> real) list \<Rightarrow> bool" where
  "chain [] = True"
| "chain [(l, u)] = (l < u)"
| "chain ((l, u) # (l', u') # rest) = (l < u \<and> u = l' \<and> chain ((l', u') # rest))"

lemma chain_iff_nth: "chain xs \<longleftrightarrow> (\<forall>i < length xs. fst (xs ! i) < snd (xs ! i))
    \<and> (\<forall>i. Suc i < length xs \<longrightarrow> snd (xs ! i) = fst (xs ! Suc i))"
proof (induction xs rule: chain.induct)
  case (3 l u l' u' rest)
  then show ?case by (simp add: All_less_Suc2 nth_Cons split: nat.splits) (auto simp: less_Suc_eq_0_disj)
qed simp_all

lemma chain_at: "chain xs \<Longrightarrow> i < length xs \<Longrightarrow> fst (xs ! i) < snd (xs ! i)"
  by (simp add: chain_iff_nth)

lemma chain_seam: "chain xs \<Longrightarrow> Suc i < length xs \<Longrightarrow> snd (xs ! i) = fst (xs ! Suc i)"
  by (simp add: chain_iff_nth)

lemma chain_lower_mono:
  assumes "chain xs" "i \<le> j" "j < length xs"
  shows "fst (xs ! i) \<le> fst (xs ! j)"
  using assms(2,3)
proof (induction j rule: dec_induct)
  case (step j)
  with chain_at [OF assms(1), of j] chain_seam [OF assms(1), of j] show ?case by simp
qed simp

lemma chain_lower_less: "chain xs \<Longrightarrow> i < j \<Longrightarrow> j < length xs \<Longrightarrow> fst (xs ! i) < fst (xs ! j)"
  using chain_at [of xs i] chain_seam [of xs i] chain_lower_mono [of xs "Suc i" j] by simp

lemma chain_hd_last: "chain xs \<Longrightarrow> xs \<noteq> [] \<Longrightarrow> fst (hd xs) < snd (last xs)"
  using chain_lower_mono [of xs 0 "length xs - 1"] chain_at [of xs "length xs - 1"]
  by (simp add: hd_conv_nth last_conv_nth)

lemma rampSpans_many:
  assumes "2 \<le> length bands"
  shows "rampSpans bands = map (\<lambda>i. (if i = 0 then span_bottom bands else num_or_0 (b_upper (bands ! (i - 1))),
       if i = length bands - 1 then span_top bands else num_or_0 (b_upper (bands ! i)))) [0..<length bands]"
proof -
  obtain b c bs where b: "bands = b # c # bs"
    using assms by (cases bands; cases "tl bands") auto
  show ?thesis unfolding rampSpans_def b by (simp only: list.case Let_def)
qed

lemma length_rampSpans [simp]: "length (rampSpans bands) = length bands"
  by (cases "2 \<le> length bands"; cases bands; cases "tl bands")
    (simp_all add: rampSpans_many, simp_all add: rampSpans_def)

lemma rampSpans_Nil_iff [simp]: "rampSpans bands = [] \<longleftrightarrow> bands = []"
  by (metis length_0_conv length_rampSpans)

lemma span_top_above:
  assumes "table_ok bands" "2 \<le> length bands"
  shows "num_or_0 (b_upper (bands ! (length bands - 2))) < span_top bands"
proof -
  let ?n = "length bands"
  have def: "b_upper (bands ! i) \<noteq> None" if "i < ?n - 1" for i
    using assms that by (auto simp: table_ok_def)
  have asc: "num_or_0 (b_upper (bands ! i)) < u" if "i < ?n - 1" "b_upper (bands ! Suc i) = Some u" for i u
    using assms that by (auto simp: table_ok_def)
  have e: "Suc (?n - 2) = ?n - 1" "Suc (?n - 3) = ?n - 2" if "3 \<le> ?n" using that by auto
  have prev: "num_or_0 (b_upper (bands ! (?n - 3))) < num_or_0 (b_upper (bands ! (?n - 2)))" if "3 \<le> ?n"
  proof -
    have "?n - 2 < ?n - 1" using that by linarith
    then obtain u where u: "b_upper (bands ! (?n - 2)) = Some u" using def [of "?n - 2"] by blast
    have "num_or_0 (b_upper (bands ! (?n - 3))) < u" using asc [of "?n - 3" u] e u that by simp
    with u show ?thesis by simp
  qed
  have top: "num_or_0 (b_upper (bands ! (?n - 2))) < u" if "b_upper (bands ! (?n - 1)) = Some u" for u
    using asc [of "?n - 2" u] that assms(2) by (simp add: Suc_diff_Suc numeral_2_eq_2)
  show ?thesis
    using assms(2) prev top by (auto simp: span_top_def Let_def split: option.splits)
qed

lemma rampSpans_chain: "table_ok bands \<Longrightarrow> chain (rampSpans bands)"
proof (cases "2 \<le> length bands")
  case False
  assume ok: "table_ok bands"
  with False obtain b where "bands = [b]" "0 < snd (hd (rampSpans [b]))" by (auto simp: table_ok_def)
  then show ?thesis by (simp add: rampSpans_def)
next
  case True
  assume ok: "table_ok bands"
  let ?n = "length bands" and ?u = "\<lambda>i. num_or_0 (b_upper (bands ! i))"
  have top: "?u (?n - 2) < span_top bands" using ok True by (rule span_top_above)
  have asc: "?u i < ?u (Suc i)" if i: "Suc i < ?n - 1" for i
  proof -
    obtain u where u: "b_upper (bands ! Suc i) = Some u" using ok True i by (auto simp: table_ok_def)
    moreover have "?u i < u" using ok True i u by (auto simp: table_ok_def)
    ultimately show ?thesis by simp
  qed
  have bot: "span_bottom bands < ?u 0"
  proof (cases "?n = 2")
    case True
    with top show ?thesis by (auto simp: span_bottom_def span_top_def Let_def split: option.splits)
  next
    case False
    with True have "?u 0 < ?u 1" using asc [of 0] by simp
    moreover have "b_upper (bands ! 1) \<noteq> None" using ok True False by (auto simp: table_ok_def)
    ultimately show ?thesis by (auto simp: span_bottom_def Let_def)
  qed
  have mid: "?u (i - 1) < ?u i" if "0 < i" "i < ?n - 1" for i
    using asc [of "i - 1"] that by simp
  show ?thesis
    unfolding rampSpans_many [OF True] chain_iff_nth using True top bot mid
    by (auto simp: numeral_2_eq_2)
qed

section \<open>Position lemmas\<close>

lemma clamp_unit: "(0::real) \<le> max 0 (min 1 t)" "max 0 (min 1 t) \<le> (1::real)"
  by auto

lemma position_loop_range:
  assumes "0 < step" "spans \<noteq> []"
  shows "real i * step \<le> position_loop step i v spans \<and> position_loop step i v spans \<le> real (i + length spans) * step"
  using assms(2)
proof (induction spans arbitrary: i)
  case (Cons s rest)
  obtain l u where s: "s = (l, u)" by (cases s)
  have unit: "real i * step \<le> (real i + max 0 (min 1 t)) * step"
    "(real i + max 0 (min 1 t)) * step \<le> real (i + length (s # rest)) * step" for t
    using assms(1) clamp_unit [of t] by (auto intro!: mult_right_mono)
  show ?case
  proof (cases "rest \<noteq> [] \<and> u < v")
    case True
    with Cons.IH [of "Suc i"] have "real (Suc i) * step \<le> position_loop step (Suc i) v rest"
      "position_loop step (Suc i) v rest \<le> real (Suc i + length rest) * step" by auto
    moreover have "real i * step \<le> real (Suc i) * step" using assms(1) by (intro mult_right_mono) auto
    ultimately show ?thesis using True s by simp
  next
    case False
    then have "position_loop step i v (s # rest)
        = (real i + max 0 (min 1 (if u = l then 0 else (v - l) / (u - l)))) * step"
      by (auto simp: s Let_def)
    with unit show ?thesis by (metis (no_types, lifting))
  qed
qed simp

lemma position_loop_mono:
  assumes "0 < step" "chain spans" "v \<le> w"
  shows "position_loop step i v spans \<le> position_loop step i w spans"
  using assms(2)
proof (induction spans arbitrary: i rule: chain.induct)
  case (2 l u)
  then have "(v - l) / (u - l) \<le> (w - l) / (u - l)" using assms(3) by (intro divide_right_mono) auto
  then have "max 0 (min 1 ((v - l) / (u - l))) \<le> max 0 (min 1 ((w - l) / (u - l)))" by auto
  with 2 assms(1) show ?case by (simp add: Let_def mult_right_mono)
next
  case (3 l u l' u' rest)
  let ?rest = "(l', u') # rest"
  have lt: "l < u" and c: "chain ?rest" using "3.prems" by simp_all
  let ?t = "\<lambda>x. max 0 (min 1 ((x - l) / (u - l)))"
  show ?case
  proof (cases "u < w")
    case False
    then have "(v - l) / (u - l) \<le> (w - l) / (u - l)" using assms(3) lt by (intro divide_right_mono) auto
    then have "?t v \<le> ?t w" by auto
    with False assms lt show ?thesis by (simp add: Let_def mult_right_mono)
  next
    case True
    show ?thesis
    proof (cases "u < v")
      case True
      with \<open>u < w\<close> "3.IH" [OF c] show ?thesis by simp
    next
      case False
      have "(real i + ?t v) * step \<le> real (Suc i) * step"
        using assms(1) clamp_unit [of "(v - l) / (u - l)"] by (intro mult_right_mono) auto
      also have "\<dots> \<le> position_loop step (Suc i) w ?rest"
        using position_loop_range [OF assms(1), of ?rest "Suc i" w] by simp
      finally show ?thesis using False \<open>u < w\<close> lt by (simp add: Let_def)
    qed
  qed
qed simp

text \<open>Inside the k-th span the position is affine in the value; the seams belong to both sides.\<close>

lemma position_loop_in_span:
  assumes "chain spans" "k < length spans" "fst (spans ! k) \<le> v" "v \<le> snd (spans ! k)"
  shows "position_loop step i v spans
      = (real (i + k) + (v - fst (spans ! k)) / (snd (spans ! k) - fst (spans ! k))) * step"
  using assms
proof (induction spans arbitrary: i k rule: chain.induct)
  case (2 l u)
  then have "0 \<le> (v - l) / (u - l)" "(v - l) / (u - l) \<le> 1" by auto
  with 2 show ?case by (simp add: Let_def)
next
  case (3 l u l' u' rest)
  have lt: "l < u" and ul: "u = l'" and c: "chain ((l', u') # rest)" and lt': "l' < u'"
    using "3.prems"(1) by (auto, cases rest, auto)
  show ?case
  proof (cases k)
    case 0
    then have "l \<le> v" "v \<le> u" using "3.prems" by simp_all
    moreover then have "0 \<le> (v - l) / (u - l)" "(v - l) / (u - l) \<le> 1" using lt by auto
    ultimately show ?thesis using lt 0 by (simp add: Let_def)
  next
    case (Suc j)
    then have j: "j < length ((l', u') # rest)" and lo: "fst (((l', u') # rest) ! j) \<le> v"
      and hi: "v \<le> snd (((l', u') # rest) ! j)" using "3.prems" by simp_all
    show ?thesis
    proof (cases "u < v")
      case True
      with "3.IH" [OF c j lo hi, of "Suc i"] Suc show ?thesis by simp
    next
      case False
      have "u \<le> fst (((l', u') # rest) ! j)" using chain_lower_mono [OF c, of 0 j] j ul by simp
      then have "v = u" using lo False by simp
      moreover have "j = 0"
        using chain_lower_less [OF c, of 0 j] j ul lo \<open>v = u\<close> by (cases "j = 0") auto
      ultimately show ?thesis using Suc lt lt' ul by (simp add: Let_def)
    qed
  qed
qed simp

lemma position_loop_below:
  assumes "chain spans" "spans \<noteq> []" "v \<le> fst (hd spans)"
  shows "position_loop step i v spans = real i * step"
proof -
  obtain l u rest where s: "spans = (l, u) # rest" using assms(2) by (cases spans) auto
  have lt: "l < u" using assms(1) s by (cases rest) auto
  then have "(v - l) / (u - l) \<le> 0" using assms(3) s by (simp add: divide_le_0_iff)
  then have "max 0 (min 1 ((v - l) / (u - l))) = 0" by simp
  with s lt assms(3) show ?thesis by (simp add: Let_def)
qed

lemma position_loop_above:
  assumes "chain spans" "spans \<noteq> []" "snd (last spans) \<le> v"
  shows "position_loop step i v spans = real (i + length spans) * step"
  using assms
proof (induction spans arbitrary: i rule: chain.induct)
  case (2 l u)
  then have "1 \<le> (v - l) / (u - l)" by (simp add: le_divide_eq)
  with 2 show ?case by (simp add: Let_def)
next
  case (3 l u l' u' rest)
  have "l' < snd (last ((l', u') # rest))" using chain_hd_last [of "(l', u') # rest"] 3 by simp
  then have "u < v" using 3 by simp
  with 3 show ?case by simp
qed simp

section \<open>Colour lemmas\<close>

lemma mixOklab_ends [simp]: "mixOklab a b 0 = a" "mixOklab a b 1 = b" "mixOklab a a t = a"
  by (simp_all add: mixOklab_def)

lemma colour_loop_at:
  assumes "sorted_wrt (\<lambda>a b. snd a < snd b) stops" "2 \<le> length stops" "j < length stops"
  shows "colour_loop (snd (stops ! j)) stops = fst (stops ! j)"
  using assms
proof (induction stops arbitrary: j rule: induct_list012)
  case (3 x y zs)
  show ?case
  proof (cases j)
    case 0
    with 3 show ?thesis by (auto simp: Let_def)
  next
    case (Suc k)
    show ?thesis
    proof (cases k)
      case 0
      with Suc 3 show ?thesis by (auto simp: Let_def)
    next
      case (Suc m)
      then have "snd y < snd (zs ! m)" "2 \<le> length (y # zs)" "k < length (y # zs)"
        using 3 \<open>j = Suc k\<close> by auto
      moreover have "colour_loop (snd ((y # zs) ! k)) (y # zs) = fst ((y # zs) ! k)"
        using 3 \<open>j = Suc k\<close> calculation by (intro "3.IH"(2)) auto
      ultimately show ?thesis using \<open>j = Suc k\<close> Suc by simp
    qed
  qed
qed simp_all

lemma rampStops_ge2: "bands \<noteq> [] \<Longrightarrow> 2 \<le> length (rampStops bands)"
  by (cases "length bands = 1") (auto simp: length_rampStops Suc_le_eq)

lemma rampColour_at_stop:
  assumes "rampPosition (Some v) bands = Some (snd (rampStops bands ! j))" "j < length (rampStops bands)"
  shows "rampColour (Some v) bands nd = fst (rampStops bands ! j)"
proof -
  have "bands \<noteq> []" using assms(1) by (auto simp: rampPosition_def rampSpans_def)
  then show ?thesis
    using assms colour_loop_at [OF rampStops_ascending rampStops_ge2, of bands j]
    by (auto simp: rampColour_def Let_def)
qed

lemma linearToSRGB_range: "0 \<le> linearToSRGB v" "linearToSRGB v \<le> 255"
  by (simp_all add: linearToSRGB_def Let_def)

lemma oklabToRGB_range:
  "oklabToRGB lab = (r, g, b) \<Longrightarrow> r \<in> {0..255} \<and> g \<in> {0..255} \<and> b \<in> {0..255}"
  by (auto simp: oklabToRGB_def Let_def linearToSRGB_range split: prod.splits)

section \<open>Value stops\<close>

lemma rising_strict: "sorted xs \<Longrightarrow> sorted_wrt (<) (rising xs)"
proof -
  assume s: "sorted xs"
  have "sorted_wrt (<) (v # map snd (filter (\<lambda>(p, w). p < w) (zip (v # vs) vs)))" if "sorted (v # vs)" for v vs
    using that
  proof (induction vs arbitrary: v)
    case (Cons w ws)
    have ge: "w \<le> x" if "x \<in> set (map snd (filter (\<lambda>(p, w). p < w) (zip (w # ws) ws)))" for x
    proof -
      from that have "x \<in> set ws" by (auto dest: set_zip_rightD)
      with Cons.prems show ?thesis by auto
    qed
    from Cons have IH: "sorted_wrt (<) (w # map snd (filter (\<lambda>(p, w). p < w) (zip (w # ws) ws)))" by simp
    show ?case
    proof (cases "v < w")
      case True
      with ge IH have "sorted_wrt (<) (v # w # map snd (filter (\<lambda>(p, w). p < w) (zip (w # ws) ws)))"
        unfolding sorted_wrt2 [OF transp_on_less] by blast
      with True show ?thesis by simp
    next
      case False
      with Cons.prems have "v = w" by simp
      with IH show ?thesis by simp
    qed
  qed simp
  with s show ?thesis by (cases xs) (auto simp: rising_def)
qed

lemma set_rising: "set (rising xs) \<subseteq> set xs"
  by (cases xs) (auto simp: rising_def dest: set_zip_rightD)

lemma chain_values_sorted:
  "chain spans \<Longrightarrow> spans \<noteq> [] \<Longrightarrow>
     sorted (fst (hd spans) # concat (map (\<lambda>(l, u). [(l + u) / 2, u]) spans))"
proof (induction spans rule: chain.induct)
  case (3 l u l' u' rest)
  then have IH: "sorted (l' # concat (map (\<lambda>(l, u). [(l + u) / 2, u]) ((l', u') # rest)))" by simp
  moreover have "l \<le> (l + u) / 2" "(l + u) / 2 \<le> l'" "u = l'" using 3 by simp_all
  ultimately show ?case
    unfolding list.map list.sel prod.case concat.simps append_Cons append_Nil fst_conv sorted2 by blast
qed auto

section \<open>Properties\<close>

lemma rampPosition_Some:
  "bands \<noteq> [] \<Longrightarrow> rampPosition (Some v) bands
     = Some (position_loop (100 / real (length bands)) 0 v (rampSpans bands))"
  by (simp add: rampPosition_def)

lemma table_ok_not_Nil: "table_ok bands \<Longrightarrow> bands \<noteq> []"
  by (auto simp: table_ok_def)

text \<open>On a well-formed band table the position of a reading on the bar is between 0 and
  100 and never decreases with the reading.\<close>

theorem rampPosition_bounded_monotone:
  assumes "table_ok bands" "v \<le> w"
  shows "\<exists>p q. rampPosition (Some v) bands = Some p \<and> rampPosition (Some w) bands = Some q
    \<and> 0 \<le> p \<and> p \<le> q \<and> q \<le> 100"
proof -
  note ne = table_ok_not_Nil [OF assms(1)]
  then have step: "0 < 100 / real (length bands)" by simp
  have ne': "rampSpans bands \<noteq> []" using ne by simp
  show ?thesis
    using position_loop_range [OF step ne', of 0 v] position_loop_range [OF step ne', of 0 w] ne
      position_loop_mono [OF step rampSpans_chain [OF assms(1)] assms(2), of 0]
    by (simp add: rampPosition_Some)
qed

definition pm_bands :: "band list" where
  "pm_bands = [mk_band ''#00ff00'' (Some 10) None,
     mk_band ''#ffff00'' (Some 25) None,
     mk_band ''#ff0000'' None (Some 500)]"

lemma pm_bands_ok: "table_ok pm_bands"
  by (auto simp: table_ok_def pm_bands_def mk_band_def less_Suc_eq numeral_2_eq_2)

theorem rampPosition_bounded_monotone_witness:
  "\<exists>p q. rampPosition (Some 12) pm_bands = Some p \<and> rampPosition (Some 300) pm_bands = Some q
    \<and> 0 \<le> p \<and> p \<le> q \<and> q \<le> 100"
  using rampPosition_bounded_monotone [OF pm_bands_ok, of 12 300] by simp

text \<open>The ramp has no seams and shows each band's own colour: the boundary between bands k
  and k+1 sits at the same point of the bar from both sides, the middle of band k sits in the
  middle of its share and is painted exactly the served colour, and readings beyond the ends
  of the table take the colours of the first and the last band.\<close>

theorem rampColour_anchors:
  assumes "table_ok bands" "2 \<le> length bands" "k < length bands"
    and "rampSpans bands ! k = (lower, upper)"
  shows "rampPosition (Some upper) bands = Some (real (Suc k) * 100 / real (length bands))
    \<and> rampColour (Some ((lower + upper) / 2)) bands noData = b_colour (bands ! k)
    \<and> (\<forall>v. v \<le> fst (hd (rampSpans bands)) \<longrightarrow> rampColour (Some v) bands noData = b_colour (hd bands))
    \<and> (\<forall>v. snd (last (rampSpans bands)) \<le> v \<longrightarrow> rampColour (Some v) bands noData = b_colour (last bands))"
proof -
  let ?n = "length bands" and ?S = "rampStops bands"
  note ne = table_ok_not_Nil [OF assms(1)] and ch = rampSpans_chain [OF assms(1)]
  have k: "k < length (rampSpans bands)" "lower < upper" using chain_at [OF ch, of k] assms(3,4) by simp_all
  have in_span: "rampPosition (Some v) bands = Some ((real k + (v - lower) / (upper - lower)) * (100 / real ?n))"
    if "lower \<le> v" "v \<le> upper" for v
    using position_loop_in_span [OF ch k(1), of v _ 0] that assms(4) ne by (simp add: rampPosition_Some)
  have seam: "rampPosition (Some upper) bands = Some (real (Suc k) * 100 / real ?n)"
    using in_span [of upper] k(2) by (simp add: add.commute)
  have half: "((lower + upper) / 2 - lower) / (upper - lower) = 1 / 2"
    using k(2) by (simp add: field_simps)
  have mid_stop: "?S ! Suc k = (b_colour (bands ! k), (real k + 1 / 2) * (100 / real ?n))"
    using assms(2,3) by (simp add: rampStops_many nth_append)
  have mid: "rampColour (Some ((lower + upper) / 2)) bands noData = b_colour (bands ! k)"
  proof -
    have "rampPosition (Some ((lower + upper) / 2)) bands = Some (snd (?S ! Suc k))"
      unfolding mid_stop snd_conv using in_span [of "(lower + upper) / 2"] k(2) by (simp only: half) simp
    then show ?thesis
      using rampColour_at_stop [of _ bands "Suc k"] mid_stop assms(2,3) ne by (simp add: length_rampStops)
  qed
  have lo: "rampColour (Some v) bands noData = b_colour (hd bands)" if "v \<le> fst (hd (rampSpans bands))" for v
    using rampColour_at_stop [of v bands 0 noData] position_loop_below [OF ch _ that, of _ 0] ne assms(2)
    by (simp add: rampPosition_Some rampStops_many)
  have hi: "rampColour (Some v) bands noData = b_colour (last bands)" if "snd (last (rampSpans bands)) \<le> v" for v
    using rampColour_at_stop [of v bands "Suc ?n" noData] position_loop_above [OF ch _ that, of _ 0] ne assms(2)
    by (simp add: rampPosition_Some rampStops_many nth_append length_rampStops)
  show ?thesis using seam mid lo hi by blast
qed

theorem rampColour_anchors_witness:
  "rampPosition (Some 25) pm_bands = Some (real (Suc 1) * 100 / 3)
    \<and> rampColour (Some (35 / 2)) pm_bands None = Some ''#ffff00''
    \<and> rampColour (Some 900) pm_bands None = Some ''#ff0000''"
proof -
  have s: "rampSpans pm_bands = [(- 5, 10), (10, 25), (25, 500)]"
    by (simp add: rampSpans_def pm_bands_def mk_band_def span_top_def span_bottom_def Let_def upt_rec)
  have l: "length pm_bands = 3" by (simp add: pm_bands_def mk_band_def)
  show ?thesis
    using rampColour_anchors [OF pm_bands_ok, of 1 10 25 None] s l by (simp add: pm_bands_def mk_band_def)
qed

lemma rampSpans_seam: "Suc i < length bands \<Longrightarrow> snd (rampSpans bands ! i) = fst (rampSpans bands ! Suc i)"
  by (auto simp: rampSpans_many)

lemma span_values_sorted:
  assumes "\<And>i. Suc i < length spans \<Longrightarrow> snd (spans ! i) = fst (spans ! Suc i)"
    "\<forall>(l, u) \<in> set spans. l \<le> (u::real)" "spans \<noteq> []"
  shows "sorted (fst (hd spans) # concat (map (\<lambda>(l, u). [(l + u) / 2, u]) spans))"
  using assms
proof (induction spans rule: induct_list012)
  case (3 x y zs)
  obtain l u l' u' where xy: "x = (l, u)" "y = (l', u')" by (cases x; cases y)
  have "u = l'" using 3(3) [of 0] xy by simp
  moreover have "sorted (fst (hd (y # zs)) # concat (map (\<lambda>(l, u). [(l + u) / 2, u]) (y # zs)))"
    using 3(3) [of "Suc _"] 3(4) by (intro "3.IH"(2)) auto
  moreover have "l \<le> (l + u) / 2" "(l + u) / 2 \<le> u" using 3(4) xy by simp_all
  ultimately show ?case
    unfolding xy list.map list.sel prod.case concat.simps append_Cons append_Nil fst_conv sorted2 by blast
qed auto

lemma last_rising: "sorted (v # vs) \<Longrightarrow> last (v # vs) \<in> set (rising (v # vs))"
proof (induction vs arbitrary: v)
  case (Cons w ws)
  then have IH: "last (w # ws) \<in> set (rising (w # ws))" by simp
  show ?case
  proof (cases "v < w")
    case True
    with IH show ?thesis by (auto simp: rising_def)
  next
    case False
    with Cons.prems have "v = w" by simp
    with IH show ?thesis by (auto simp: rising_def)
  qed
qed (simp add: rising_def)

text \<open>The stops handed to the map renderer are strictly ascending in value even when the
  served table repeats a bound, run from the bottom to the top of the scale, and each carries
  the colour the ramp computes for its value.\<close>

theorem rampValueStops_renderable:
  assumes "bands \<noteq> []" "\<forall>(lower, upper) \<in> set (rampSpans bands). lower \<le> upper"
  shows "sorted_wrt (<) (map fst (rampValueStops bands))
    \<and> (\<forall>(v, c) \<in> set (rampValueStops bands). c = rampColour (Some v) bands None)
    \<and> fst (hd (rampValueStops bands)) = fst (hd (rampSpans bands))
    \<and> snd (last (rampSpans bands)) \<in> fst ` set (rampValueStops bands)"
proof -
  let ?s = "rampSpans bands"
  let ?tl = "concat (map (\<lambda>(l, u). [(l + u) / 2, u]) ?s)"
  let ?vs = "fst (hd ?s) # ?tl"
  have ne: "?s \<noteq> []" using assms(1) by simp
  have sorted: "sorted ?vs" using span_values_sorted [of ?s] rampSpans_seam assms(2) ne by simp
  have stops: "rampValueStops bands = map (\<lambda>v. (v, rampColour (Some v) bands None)) (rising ?vs)"
    using ne by (simp add: rampValueStops_def Let_def)
  then have m: "map fst (rampValueStops bands) = rising ?vs" by (simp add: comp_def)
  then have f: "fst ` set (rampValueStops bands) = set (rising ?vs)" by (metis list.set_map)
  have "last ?vs = snd (last ?s)"
    using ne by (cases ?s rule: rev_cases) (auto simp: case_prod_unfold)
  moreover have "hd (rising ?vs) = fst (hd ?s)" by (simp add: rising_def)
  moreover have "rising ?vs \<noteq> []" by (simp add: rising_def)
  ultimately show ?thesis
    using rising_strict [OF sorted] last_rising [OF sorted] m f stops by (auto simp: hd_map)
qed

definition flat_bands :: "band list" where
  "flat_bands = [mk_band ''#00ff00'' (Some 10) None,
     mk_band ''#ffff00'' (Some 10) None,
     mk_band ''#ff0000'' (Some 30) None]"

theorem rampValueStops_renderable_witness:
  "sorted_wrt (<) (map fst (rampValueStops flat_bands)) \<and> map fst (rampValueStops flat_bands) = [10, 20, 30]"
proof -
  have s: "rampSpans flat_bands = [(10, 10), (10, 10), (10, 30)]"
    by (simp add: rampSpans_def flat_bands_def mk_band_def span_top_def span_bottom_def Let_def upt_rec)
  then have "map fst (rampValueStops flat_bands) = [10, 20, 30]"
    by (simp add: rampValueStops_def rising_def Let_def)
  then show ?thesis
    using rampValueStops_renderable [of flat_bands] s by (simp add: flat_bands_def mk_band_def)
qed

section \<open>The ramp reads its own output\<close>

lemma takeWhile_digits_append: "list_all is_digit ds \<Longrightarrow> \<not> is_digit c \<Longrightarrow> takeWhile is_digit (ds @ c # t) = ds"
  by (induction ds) auto

lemma dropWhile_digits_append: "list_all is_digit ds \<Longrightarrow> \<not> is_digit c \<Longrightarrow> dropWhile is_digit (ds @ c # t) = c # t"
  by (induction ds) auto

lemma eat_number_nat_str:
  assumes "\<not> is_digit stop" "\<not> is_ws stop"
  shows "eat_number stop (nat_str n @ stop # t) = Some (n, t)"
    and "eat_number stop (CHR '' '' # nat_str n @ stop # t) = Some (n, t)"
proof -
  obtain c r where c: "nat_str n = c # r" by (cases "nat_str n") auto
  have "is_digit c" using nat_str_digits [of n] c by simp
  then have w: "dropWhile is_ws (nat_str n @ stop # t) = nat_str n @ stop # t"
    by (simp add: c digit_not_ws)
  show 1: "eat_number stop (nat_str n @ stop # t) = Some (n, t)"
    unfolding eat_number_def w Let_def
    using assms by (simp add: takeWhile_digits_append dropWhile_digits_append nat_str_digits)
  have "dropWhile is_ws (CHR '' '' # nat_str n @ stop # t) = nat_str n @ stop # t"
    by (simp add: is_ws_def w)
  then show "eat_number stop (CHR '' '' # nat_str n @ stop # t) = Some (n, t)"
    unfolding eat_number_def Let_def
    using assms by (simp add: takeWhile_digits_append dropWhile_digits_append nat_str_digits)
qed

lemma rgb_css_nat: "rgb_css (int r, int g, int b)
    = ''rgb('' @ nat_str r @ CHR '','' # CHR '' '' # nat_str g @ CHR '','' # CHR '' '' # nat_str b @ '')''"
  by (simp add: rgb_css_def int_str_def)

lemma parse_rgb_css: "parse_rgb (rgb_css (int r, int g, int b)) = Some (r, g, b)"
proof -
  have sep: "\<not> is_digit CHR '',''" "\<not> is_ws CHR '',''" "\<not> is_digit CHR '')''" "\<not> is_ws CHR '')''"
    by (simp_all add: is_digit_def is_ws_def)
  have "map lower_ascii ''rgb('' = ''rgb(''" by (simp add: lower_ascii_def Let_def)
  then show ?thesis unfolding parse_rgb_def rgb_css_nat
    by (simp add: sep eat_number_nat_str)
qed

lemma trim_id: "s \<noteq> [] \<Longrightarrow> \<not> is_ws (hd s) \<Longrightarrow> \<not> is_ws (last s) \<Longrightarrow> trim s = s"
proof -
  assume a: "s \<noteq> []" "\<not> is_ws (hd s)" "\<not> is_ws (last s)"
  have "dropWhile is_ws s = s" using a by (cases s) auto
  moreover have "dropWhile is_ws (rev s) = rev s" using a by (cases s rule: rev_cases) auto
  ultimately show "trim s = s" by (simp add: trim_def)
qed

lemma parseHex_rgb_css: "parseHex (Some (rgb_css (int r, int g, int b))) = Some (r, g, b)"
proof -
  have "trim (rgb_css (int r, int g, int b)) = rgb_css (int r, int g, int b)"
    by (rule trim_id) (simp_all add: rgb_css_nat is_ws_def)
  moreover have "parse_hash (rgb_css (int r, int g, int b)) = None"
    by (simp add: parse_hash_def rgb_css_nat)
  ultimately show ?thesis by (simp add: parseHex_def parse_rgb_css)
qed

text \<open>Mixing two colours the ramp can read gives a colour the ramp can read again, at
  every proportion, and a freshly mixed one has channels within 0 and 255.\<close>

theorem mixOklab_closed:
  assumes "parseHex a = Some p" "parseHex b = Some q"
  shows "parseHex (mixOklab a b t) \<noteq> None
    \<and> (0 < t \<and> t < 1 \<and> a \<noteq> b \<longrightarrow>
        (\<exists>r g c. parseHex (mixOklab a b t) = Some (r, g, c) \<and> r \<le> 255 \<and> g \<le> 255 \<and> c \<le> 255))"
proof (cases "0 < t \<and> t < 1 \<and> a \<noteq> b")
  case False
  then have "mixOklab a b t = a \<or> mixOklab a b t = b" by (auto simp: mixOklab_def)
  with assms False show ?thesis by (metis option.distinct(1))
next
  case True
  obtain l0 a0 b0 l1 a1 b1 where lab: "rgbToOklab p = (l0, a0, b0)" "rgbToOklab q = (l1, a1, b1)"
    by (cases "rgbToOklab p"; cases "rgbToOklab q")
  let ?o = "oklabToRGB (l0 + (l1 - l0) * t, a0 + (a1 - a0) * t, b0 + (b1 - b0) * t)"
  obtain r g c where o: "?o = (r, g, c)" by (cases ?o)
  then have "r \<in> {0..255}" "g \<in> {0..255}" "c \<in> {0..255}" using oklabToRGB_range by blast+
  then have "parseHex (Some (rgb_css (r, g, c))) = Some (nat r, nat g, nat c)" "nat r \<le> 255" "nat g \<le> 255" "nat c \<le> 255"
    using parseHex_rgb_css [of "nat r" "nat g" "nat c"] by auto
  moreover have "mixOklab a b t = Some (rgb_css (r, g, c))"
    using True assms lab o by (simp add: mixOklab_def)
  ultimately show ?thesis by auto
qed

theorem mixOklab_closed_witness:
  "parseHex (mixOklab (Some ''#00ff00'') (Some ''rgb(10, 20, 30)'') (1 / 3)) \<noteq> None"
proof -
  have "parseHex (Some ''#00ff00'') = Some (0, 255, 0)" by code_simp
  moreover have "parseHex (Some ''rgb(10, 20, 30)'') = Some (10, 20, 30)" by code_simp
  ultimately show ?thesis using mixOklab_closed [of "Some ''#00ff00''" _ "Some ''rgb(10, 20, 30)''" _ "1 / 3"] by blast
qed

end
