(* ===== verification/Scales.thy ===== *)
theory Scales
  imports Ramp Url_Params
begin

text \<open>
  What is built on the served band tables: the metric lists and the lookup of a table
  (\<open>metrics.js\<close>, \<open>bandsFor\<close> of \<open>mappaint.js\<close>), the key and its dialog (\<open>legend.js\<close>,
  \<open>scaleinfo.js\<close>), the gauges (\<open>gauge.js\<close>), the marker expression and the column heights of the
  tilted map with the machine that raises and lowers them (\<open>hexrise.js\<close>). The ramp and the
  gauge arc are two interpretations of one interface, \<open>scale_axis\<close>.
\<close>

section \<open>Scales and metrics\<close>

record scale =
  s_metric :: string
  s_unit :: "string option"
  s_bands :: "band list option"
  s_ceiling :: "real option"
  s_name :: "string option"
  s_notes :: "string option"
  s_notes_bg :: "string option"
  s_source :: "string option"

type_synonym scales = "scale list option"

definition str_or :: "string option \<Rightarrow> string \<Rightarrow> string" where
  "str_or s d = (case s of Some t \<Rightarrow> if t = [] then d else t | None \<Rightarrow> d)"

definition parseMetricList :: "string option \<Rightarrow> string list" where
  "parseMetricList raw = filter (\<lambda>s. s \<noteq> []) (map trim (split_on CHR '','' (str_or raw [])))"

definition splitAttr :: "string option \<Rightarrow> string list" where
  "splitAttr raw = (let s = trim (str_or raw []) in
     if s = [] then [] else map trim (split_on CHR '','' s))"

definition nth_opt :: "'a list \<Rightarrow> nat \<Rightarrow> 'a option" where
  "nth_opt xs i = (if i < length xs then Some (xs ! i) else None)"

text \<open>A later entry of the same name overwrites an earlier one, as \<open>Object.fromEntries\<close> does.\<close>

definition byMetric :: "string list \<Rightarrow> string list \<Rightarrow> string \<Rightarrow> string option" where
  "byMetric metrics values = map_of (rev (map (\<lambda>(i, m). (m, case nth_opt values i of Some v \<Rightarrow> v | None \<Rightarrow> []))
     (enumerate 0 metrics)))"

definition zipLabels :: "string list \<Rightarrow> string list \<Rightarrow> (string \<times> string) list" where
  "zipLabels metrics labels = map (\<lambda>(i, m). (m, str_or (nth_opt labels i) m)) (enumerate 0 metrics)"

definition hasScale :: "scales \<Rightarrow> string \<Rightarrow> bool" where
  "hasScale scales metric = (case scales of None \<Rightarrow> False
     | Some ss \<Rightarrow> list_ex (\<lambda>s. s_metric s = metric \<and>
         (case s_bands s of Some bs \<Rightarrow> bs \<noteq> [] | None \<Rightarrow> False)) ss)"

definition scaleFor :: "scales \<Rightarrow> string \<Rightarrow> scale option" where
  "scaleFor scales metric = (case scales of None \<Rightarrow> None | Some ss \<Rightarrow> find (\<lambda>s. s_metric s = metric) ss)"

definition unitFor :: "scales \<Rightarrow> string \<Rightarrow> string" where
  "unitFor scales metric = (case scaleFor scales metric of
      Some s \<Rightarrow> (case s_unit s of Some u \<Rightarrow> u | None \<Rightarrow> []) | None \<Rightarrow> [])"

definition bandsFor :: "scales \<Rightarrow> string \<Rightarrow> band list" where
  "bandsFor scales metric = (case scaleFor scales metric of None \<Rightarrow> []
     | Some scale \<Rightarrow> (let bands = (case s_bands scale of Some bs \<Rightarrow> bs | None \<Rightarrow> []) in
         if bands = [] \<or> s_ceiling scale = None then bands
         else map (\<lambda>(i, band). if i = length bands - 1 then band\<lparr>b_ceiling := s_ceiling scale\<rparr> else band)
                (enumerate 0 bands)))"

section \<open>The key and its dialog\<close>

definition legendTitle :: "string option \<Rightarrow> string option \<Rightarrow> string option \<Rightarrow> string" where
  "legendTitle label unit fallback = (let name = trim (str_or label []); measure = trim (str_or unit [])
     in if name = [] then str_or fallback []
        else if measure = [] then name else name @ '', '' @ measure)"

record legend_row =
  l_colour :: colour
  l_label :: "string option"
  l_edge :: string

definition band_label :: "string \<Rightarrow> band \<Rightarrow> string option" where
  "band_label lang band = (if lang = ''bg'' then b_label_bg band else b_label band)"

record legend =
  l_bands :: "legend_row list"
  l_none :: "colour \<times> string"

definition legendRows :: "band list option \<Rightarrow> colour \<Rightarrow> string \<Rightarrow> string \<Rightarrow> legend" where
  "legendRows bands noDataColour noDataLabel lang =
     \<lparr>l_bands = map (\<lambda>band.
        \<lparr>l_colour = b_colour band, l_label = band_label lang band,
         l_edge = (case b_upper band of Some u \<Rightarrow> num_str u
           | None \<Rightarrow> (case b_ceiling band of Some c \<Rightarrow> num_str c | None \<Rightarrow> []))\<rparr>)
        (case bands of Some bs \<Rightarrow> bs | None \<Rightarrow> []),
      l_none = (noDataColour, noDataLabel)\<rparr>"

definition en_dash :: string where
  "en_dash = [CHR 0xE2, CHR 0x80, CHR 0x93]"

definition bandRange :: "band list \<Rightarrow> nat \<Rightarrow> string" where
  "bandRange bands i = (let upper = Option.bind (nth_opt bands i) b_upper;
       lower = (if i = 0 then None else Option.bind (nth_opt bands (i - 1)) b_upper)
     in case (upper, lower) of
         (None, None) \<Rightarrow> []
       | (None, Some l) \<Rightarrow> ''> '' @ num_str l
       | (Some u, None) \<Rightarrow> ''< '' @ num_str u
       | (Some u, Some l) \<Rightarrow> num_str l @ en_dash @ num_str u)"

record scale_info =
  i_name :: string
  i_unit :: string
  i_notes :: string
  i_source :: string
  i_rows :: "(colour \<times> string \<times> string) list"

definition scaleInfo :: "scale option \<Rightarrow> string \<Rightarrow> scale_info option" where
  "scaleInfo scale lang = map_option (\<lambda>s. let bands = (case s_bands s of Some bs \<Rightarrow> bs | None \<Rightarrow> []) in
     \<lparr>i_name = (case s_name s of Some n \<Rightarrow> n | None \<Rightarrow> []),
      i_unit = (case s_unit s of Some u \<Rightarrow> u | None \<Rightarrow> []),
      i_notes = str_or (if lang = ''bg'' then s_notes_bg s else s_notes s) [],
      i_source = str_or (s_source s) [],
      i_rows = map (\<lambda>(i, band). (b_colour band, str_or (band_label lang band) [], bandRange bands i))
        (enumerate 0 bands)\<rparr>) scale"

section \<open>Gauges\<close>

definition FLOORS :: "string \<Rightarrow> real option" where
  "FLOORS metric = (if metric = ''temperature'' then Some (- 20)
     else if metric = ''pressure'' then Some 930 else None)"

text \<open>\<open>Math.min(max, Math.max(min, value))\<close> of a quotient, which is NaN or infinite when its divisor is 0.\<close>

definition js_div :: "real \<Rightarrow> real \<Rightarrow> jsnum" where
  "js_div x y = (if y \<noteq> 0 then Fin (x / y) else if x = 0 then NaN else if 0 < x then PInf else NInf)"

fun clamp01 :: "jsnum \<Rightarrow> jsnum" where
  "clamp01 (Fin x) = Fin (min 1 (max 0 x))"
| "clamp01 PInf = Fin 1"
| "clamp01 NInf = Fin 0"
| "clamp01 NaN = NaN"

text \<open>The arc's end is \<open>undefined\<close> when neither the bands nor the server state one.\<close>

definition gaugeRange :: "string \<Rightarrow> band list \<Rightarrow> real option \<Rightarrow> real \<times> real option" where
  "gaugeRange metric bands ceil = (let mn = (case FLOORS metric of Some f \<Rightarrow> f | None \<Rightarrow> 0);
      u = List.map_filter b_upper bands;
      mx = (if 2 \<le> length u then Some (last u + (last u - u ! (length u - 2)))
            else if length u = 1 then Some (2 * hd u) else ceil)
    in (mn, case ceil of Some c \<Rightarrow> (if mn < c then map_option (\<lambda>m. min m c) mx else mx) | None \<Rightarrow> mx))"

definition arc_fraction :: "real \<times> real option \<Rightarrow> real \<Rightarrow> jsnum" where
  "arc_fraction rng value = (case rng of (mn, Some mx) \<Rightarrow> clamp01 (js_div (value - mn) (mx - mn))
     | (mn, None) \<Rightarrow> NaN)"

definition bandStops :: "band list \<Rightarrow> real \<times> real option \<Rightarrow> (jsnum \<times> colour) list" where
  "bandStops bands rng = map (\<lambda>band. (case b_upper band of
       Some u \<Rightarrow> arc_fraction rng u
     | None \<Rightarrow> (case snd rng of Some mx \<Rightarrow> arc_fraction rng mx | None \<Rightarrow> NaN), b_colour band)) bands"

record gauge =
  g_fraction :: "jsnum option"
  g_colour :: colour
  g_stops :: "(jsnum \<times> colour) list"
  g_range :: "(real \<times> real option) option"

definition gaugeModel :: "string \<Rightarrow> real option \<Rightarrow> bool \<Rightarrow> scales \<Rightarrow> gauge" where
  "gaugeModel metric value missing scales =
     (let none = \<lparr>g_fraction = None, g_colour = None, g_stops = [], g_range = None\<rparr> in
      if \<not> hasScale scales metric then none
      else case scaleFor scales metric of None \<Rightarrow> none
        | Some scale \<Rightarrow> (let bands = (case s_bands scale of Some bs \<Rightarrow> bs | None \<Rightarrow> []);
             rng = gaugeRange metric bands (s_ceiling scale);
             stops = bandStops bands rng
           in if missing then none\<lparr>g_stops := stops, g_range := Some rng\<rparr>
              else \<lparr>g_fraction = Some (arc_fraction rng (num_or_0 value)),
                    g_colour = rampColour value bands None, g_stops = stops, g_range = Some rng\<rparr>))"

section \<open>The markers' colour expression\<close>

datatype paint =
    Null_Case colour colour \<comment> \<open>no value, otherwise one colour\<close>
  | Interpolate colour "(real \<times> colour) list" \<comment> \<open>no value, otherwise linear between stops\<close>

definition markerPaint :: "band list \<Rightarrow> colour \<Rightarrow> colour \<Rightarrow> bool \<Rightarrow> paint" where
  "markerPaint bands noDataColour unscaledColour scaled = (if \<not> scaled then Null_Case noDataColour unscaledColour
     else let stops = rampValueStops bands in
       if length stops < 2 then Null_Case noDataColour unscaledColour
       else Interpolate noDataColour stops)"

section \<open>Columns on the tilted map\<close>

definition HEX_HEIGHT_PER_CELL :: real where
  "HEX_HEIGHT_PER_CELL = 3 / 2"

definition columnHeight :: "real option \<Rightarrow> band list \<Rightarrow> real \<Rightarrow> real" where
  "columnHeight value bands cellKM = (case rampPosition value bands of
      None \<Rightarrow> 0
    | Some pos \<Rightarrow> if \<not> 0 < cellKM then 0 else (pos / 100) * HEX_HEIGHT_PER_CELL * cellKM * 1000)"

definition HEX_RISE_FULL_PITCH :: real where
  "HEX_RISE_FULL_PITCH = 35"

definition HEX_RISE_STEPS :: real where
  "HEX_RISE_STEPS = 24"

definition riseFactor :: "real \<Rightarrow> bool \<Rightarrow> real" where
  "riseFactor pitch reducedMotion = (if \<not> 0 < pitch then 0
     else if reducedMotion then (if HEX_RISE_FULL_PITCH / 2 \<le> pitch then 1 else 0)
     else let t = min 1 (pitch / HEX_RISE_FULL_PITCH); s = t * t * (3 - 2 * t)
       in max (1 / HEX_RISE_STEPS) (of_int (math_round (s * HEX_RISE_STEPS)) / HEX_RISE_STEPS))"

definition HEX_EXTRUDED_OPACITY :: real where
  "HEX_EXTRUDED_OPACITY = 85 / 100"

text \<open>
  The machine behind the tilt: the painted cells, the factor the columns stand at, whether a
  frame is queued, and what the map holds: the data of the column source, each column's
  feature-state and the layer's opacity.
\<close>

record rise =
  r_cells :: "nat list"
  r_factor :: real
  r_queued :: bool
  m_columns :: "nat list"
  m_rise :: "nat \<rightharpoonup> real"
  m_opacity :: real

definition init_rise :: rise where
  "init_rise = \<lparr>r_cells = [], r_factor = 0, r_queued = False, m_columns = [], m_rise = Map.empty, m_opacity = 0\<rparr>"

text \<open>\<open>installHexRise\<close> itself ends with one \<open>apply()\<close>, for a map that starts out tilted.\<close>

definition set_rise :: "rise \<Rightarrow> rise" where
  "set_rise st = st\<lparr>m_rise := (\<lambda>i. if i \<in> set (r_cells st) then Some (r_factor st) else m_rise st i)\<rparr>"

definition rise_apply :: "real \<Rightarrow> bool \<Rightarrow> rise \<Rightarrow> rise" where
  "rise_apply pitch reducedMotion st0 = (let st = st0\<lparr>r_queued := False\<rparr>; next = riseFactor pitch reducedMotion in
     if next = r_factor st then st
     else let wasFlat = (r_factor st = 0);
         st1 = st\<lparr>r_factor := next\<rparr>;
         st2 = (if wasFlat then st1\<lparr>m_columns := r_cells st1\<rparr> else st1);
         st3 = set_rise st2;
         st4 = (if wasFlat \<or> next = 0 then st3\<lparr>m_opacity := (if 0 < next then HEX_EXTRUDED_OPACITY else 0)\<rparr> else st3)
       in if next = 0 then st4\<lparr>m_columns := []\<rparr> else st4)"

definition installHexRise :: "real \<Rightarrow> bool \<Rightarrow> rise" where
  "installHexRise pitch reducedMotion = rise_apply pitch reducedMotion init_rise"

datatype rise_event =
    Pitch_Event
  | Frame real bool \<comment> \<open>the queued frame runs, with the pitch and the motion preference it reads\<close>
  | Hex_Paint "(nat option \<times> bool) list" \<comment> \<open>each feature's id, and whether it is a polygon\<close>

definition rise_step :: "rise \<Rightarrow> rise_event \<Rightarrow> rise" where
  "rise_step st e = (case e of
      Pitch_Event \<Rightarrow> if r_queued st then st else st\<lparr>r_queued := True\<rparr>
    | Frame pitch reducedMotion \<Rightarrow> if r_queued st then rise_apply pitch reducedMotion st else st
    | Hex_Paint features \<Rightarrow>
        let st1 = st\<lparr>r_cells := List.map_filter (\<lambda>(i, poly). if poly then i else None) features\<rparr> in
        if r_factor st1 = 0 then st1 else set_rise (st1\<lparr>m_columns := r_cells st1\<rparr>))"

section \<open>Lookup lemmas\<close>

lemma bandsFor_cases:
  "bandsFor scales metric = (case scaleFor scales metric of None \<Rightarrow> []
     | Some s \<Rightarrow> (case s_bands s of None \<Rightarrow> [] | Some bs \<Rightarrow>
         if bs = [] \<or> s_ceiling s = None then bs
         else butlast bs @ [last bs\<lparr>b_ceiling := s_ceiling s\<rparr>]))"
proof -
  have "map (\<lambda>(i, band). if i = length bs - 1 then band\<lparr>b_ceiling := c\<rparr> else band) (enumerate 0 bs)
      = butlast bs @ [last bs\<lparr>b_ceiling := c\<rparr>]" if "bs \<noteq> []" for bs :: "band list" and c
    by (rule nth_equalityI)
      (use that in \<open>auto simp: nth_enumerate_eq nth_append nth_butlast last_conv_nth\<close>)
  then show ?thesis by (auto simp: bandsFor_def Let_def split: option.splits)
qed

lemma rampColour_no_bands: "rampColour v [] nd = nd"
  by (cases v) (simp_all add: rampColour_def rampPosition_def rampSpans_def)

lemma bandsFor_top_ceiling:
  assumes "scaleFor scales metric = Some s" "s_bands s = Some bs" "bs \<noteq> []" "s_ceiling s = Some c"
  shows "b_ceiling (last (bandsFor scales metric)) = Some c"
    and "b_upper (last (bandsFor scales metric)) = b_upper (last bs)"
    and "length (bandsFor scales metric) = length bs"
  using assms by (simp_all add: bandsFor_cases)

section \<open>The interface of a scale's axis\<close>

text \<open>
  A table of type \<open>'t\<close> places readings on an axis from 0 to 1, in order. What is drawn at a
  share of the axis (a column of a given full height, a needle) inherits the order.
\<close>

locale scale_axis =
  fixes good :: "'t \<Rightarrow> bool"
    and axis :: "'t \<Rightarrow> real \<Rightarrow> real"
  assumes axis_range: "good t \<Longrightarrow> 0 \<le> axis t v \<and> axis t v \<le> 1"
    and axis_mono: "good t \<Longrightarrow> v \<le> w \<Longrightarrow> axis t v \<le> axis t w"
begin

lemma drawn_mono: "good t \<Longrightarrow> v \<le> w \<Longrightarrow> 0 \<le> full \<Longrightarrow> axis t v * full \<le> axis t w * full"
  by (simp add: axis_mono mult_right_mono)

lemma drawn_range: "good t \<Longrightarrow> 0 \<le> full \<Longrightarrow> 0 \<le> axis t v * full \<and> axis t v * full \<le> full"
  using axis_range [of t v] by (simp add: mult_left_le_one_le)

lemma same_at_top: "good t \<Longrightarrow> axis t v = 1 \<Longrightarrow> v \<le> w \<Longrightarrow> axis t w = 1"
  using axis_mono [of t v w] axis_range [of t w] by simp

end

definition ramp_axis :: "band list \<Rightarrow> real \<Rightarrow> real" where
  "ramp_axis bands v = (case rampPosition (Some v) bands of Some p \<Rightarrow> p / 100 | None \<Rightarrow> 0)"

lemma ramp_position_facts:
  assumes "table_ok bands"
  shows "\<exists>p. rampPosition (Some v) bands = Some p \<and> 0 \<le> p \<and> p \<le> 100"
    and "v \<le> w \<Longrightarrow> rampPosition (Some v) bands = Some p \<Longrightarrow> rampPosition (Some w) bands = Some q \<Longrightarrow> p \<le> q"
proof -
  note ne = table_ok_not_Nil [OF assms]
  then have step: "0 < 100 / real (length bands)" and ne': "rampSpans bands \<noteq> []" by simp_all
  show "\<exists>p. rampPosition (Some v) bands = Some p \<and> 0 \<le> p \<and> p \<le> 100"
    using position_loop_range [OF step ne', of 0 v] ne by (simp add: rampPosition_Some)
  show "v \<le> w \<Longrightarrow> rampPosition (Some v) bands = Some p \<Longrightarrow> rampPosition (Some w) bands = Some q \<Longrightarrow> p \<le> q"
    using position_loop_mono [OF step rampSpans_chain [OF assms], of v w 0] ne by (simp add: rampPosition_Some)
qed

interpretation ramp: scale_axis table_ok ramp_axis
proof unfold_locales
  fix bands v assume ok: "table_ok bands"
  show "0 \<le> ramp_axis bands v \<and> ramp_axis bands v \<le> 1"
    using ramp_position_facts(1) [OF ok, of v] by (auto simp: ramp_axis_def)
next
  fix bands and v w :: real assume ok: "table_ok bands" and vw: "v \<le> w"
  show "ramp_axis bands v \<le> ramp_axis bands w"
    using ramp_position_facts(1) [OF ok, of v] ramp_position_facts(1) [OF ok, of w]
      ramp_position_facts(2) [OF ok vw] by (auto simp: ramp_axis_def divide_right_mono)
qed

definition arc_good :: "real \<times> real option \<Rightarrow> bool" where
  "arc_good rng \<longleftrightarrow> (\<exists>mx. snd rng = Some mx \<and> fst rng < mx)"

definition arc_axis :: "real \<times> real option \<Rightarrow> real \<Rightarrow> real" where
  "arc_axis rng v = (case arc_fraction rng v of Fin x \<Rightarrow> x | _ \<Rightarrow> 0)"

lemma arc_fraction_good:
  "fst rng < mx \<Longrightarrow> snd rng = Some mx \<Longrightarrow>
     arc_fraction rng v = Fin (min 1 (max 0 ((v - fst rng) / (mx - fst rng))))"
  by (cases rng) (simp add: arc_fraction_def js_div_def)

interpretation arc: scale_axis arc_good arc_axis
proof unfold_locales
  fix rng and v :: real assume "arc_good rng"
  then show "0 \<le> arc_axis rng v \<and> arc_axis rng v \<le> 1"
    by (auto simp: arc_good_def arc_axis_def arc_fraction_good)
next
  fix rng and v w :: real assume "arc_good rng" "v \<le> w"
  then obtain mx where mx: "snd rng = Some mx" "fst rng < mx" by (auto simp: arc_good_def)
  then have "(v - fst rng) / (mx - fst rng) \<le> (w - fst rng) / (mx - fst rng)"
    using \<open>v \<le> w\<close> by (intro divide_right_mono) auto
  with mx show "arc_axis rng v \<le> arc_axis rng w"
    by (auto simp: arc_axis_def arc_fraction_good)
qed

lemma columnHeight_axis:
  "table_ok bands \<Longrightarrow> 0 < cellKM \<Longrightarrow>
     columnHeight (Some v) bands cellKM = ramp_axis bands v * (HEX_HEIGHT_PER_CELL * cellKM * 1000)"
  using ramp_position_facts(1) [of bands v] by (auto simp: columnHeight_def ramp_axis_def)

section \<open>The rise factor and the machine\<close>

lemma smoothstep_range: "0 \<le> t \<Longrightarrow> t \<le> 1 \<Longrightarrow> 0 \<le> t * t * (3 - 2 * t) \<and> t * t * (3 - 2 * t) \<le> (1::real)"
proof -
  assume t: "0 \<le> t" "t \<le> 1"
  have "1 - t * t * (3 - 2 * t) = (1 - t) * (1 - t) * (1 + 2 * t)" by (simp add: algebra_simps)
  moreover have "0 \<le> (1 - t) * (1 - t) * (1 + 2 * t)" using t by (intro mult_nonneg_nonneg) auto
  moreover have "0 \<le> t * t * (3 - 2 * t)" using t by (intro mult_nonneg_nonneg) auto
  ultimately show ?thesis by simp
qed

lemma riseFactor_nonneg: "0 \<le> riseFactor pitch rm"
  by (simp add: riseFactor_def Let_def HEX_RISE_STEPS_def le_max_iff_disj)

lemma riseFactor_le_1: "riseFactor pitch rm \<le> 1"
proof (cases "0 < pitch")
  case True
  define t where "t = min 1 (pitch / HEX_RISE_FULL_PITCH)"
  have t: "0 \<le> t" "t \<le> 1" using True by (simp_all add: t_def HEX_RISE_FULL_PITCH_def)
  from smoothstep_range [OF t] have "math_round (t * t * (3 - 2 * t) * 24) \<le> math_round (of_int 24)"
    by (intro math_round_mono) simp
  then have "math_round (t * t * (3 - 2 * t) * 24) \<le> 24" by (simp only: math_round_of_int)
  then show ?thesis unfolding riseFactor_def Let_def t_def [symmetric] HEX_RISE_STEPS_def by simp
qed (simp add: riseFactor_def)

lemma riseFactor_pos_iff: "0 < riseFactor pitch False \<longleftrightarrow> 0 < pitch"
  by (simp add: riseFactor_def Let_def HEX_RISE_STEPS_def less_max_iff_disj)

text \<open>Flat means no column data and an invisible layer; raised means every painted cell is a
  column standing at the factor.\<close>

definition rise_inv :: "rise \<Rightarrow> bool" where
  "rise_inv st \<longleftrightarrow> 0 \<le> r_factor st \<and>
     (if r_factor st = 0 then m_columns st = [] \<and> m_opacity st = 0
      else m_columns st = r_cells st \<and> m_opacity st = HEX_EXTRUDED_OPACITY
         \<and> (\<forall>i \<in> set (r_cells st). m_rise st i = Some (r_factor st)))"

lemma rise_inv_init: "rise_inv init_rise"
  by (simp add: rise_inv_def init_rise_def)

lemma rise_inv_apply: "rise_inv st \<Longrightarrow> rise_inv (rise_apply pitch rm st)"
  using riseFactor_nonneg [of pitch rm]
  by (auto simp: rise_inv_def rise_apply_def Let_def set_rise_def)

lemma rise_inv_step: "rise_inv st \<Longrightarrow> rise_inv (rise_step st e)"
proof (cases e)
  case (Frame pitch rm)
  assume "rise_inv st"
  with Frame show ?thesis by (simp add: rise_step_def rise_inv_apply)
qed (auto simp: rise_step_def rise_inv_def set_rise_def Let_def)

lemma rise_inv_run: "rise_inv st \<Longrightarrow> rise_inv (foldl rise_step st es)"
  by (induction es arbitrary: st) (simp_all add: rise_inv_step)

section \<open>Properties\<close>

text \<open>The number printed at the top edge of row k of the key is the reading the ramp draws at
  that edge: k+1 equal shares up the bar, for stated bounds and for the ceiling of an open top
  band alike.\<close>

theorem legend_edge_on_ramp:
  assumes "table_ok bands" "2 \<le> length bands" "k < length bands"
    and "b_upper (bands ! k) = Some u \<or>
      (k = length bands - 1 \<and> b_upper (bands ! k) = None \<and> b_ceiling (bands ! k) = Some u
        \<and> num_or_0 (b_upper (bands ! (length bands - 2))) < u)"
  shows "l_edge (l_bands (legendRows (Some bands) nc nl lang) ! k) = num_str u
    \<and> rampPosition (Some u) bands = Some (real (Suc k) * 100 / real (length bands))"
proof
  show "l_edge (l_bands (legendRows (Some bands) nc nl lang) ! k) = num_str u"
    using assms(3,4) by (auto simp: legendRows_def)
  have "snd (rampSpans bands ! k) = u"
    using assms(2,3,4) by (auto simp: rampSpans_many span_top_def Let_def)
  then obtain l where span: "rampSpans bands ! k = (l, u)" by (cases "rampSpans bands ! k") auto
  note ch = rampSpans_chain [OF assms(1)]
  have "l < u" using chain_at [OF ch, of k] span assms(3) by simp
  then have "rampPosition (Some u) bands = Some ((real k + 1) * (100 / real (length bands)))"
    using position_loop_in_span [OF ch, of k u _ 0] span assms(3) table_ok_not_Nil [OF assms(1)]
    by (simp add: rampPosition_Some)
  then show "rampPosition (Some u) bands = Some (real (Suc k) * 100 / real (length bands))"
    by (simp add: add.commute)
qed

theorem legend_edge_on_ramp_witness:
  "l_edge (l_bands (legendRows (Some pm_bands) None ''none'' ''en'') ! 2) = num_str 500 \<and> rampPosition (Some 500) pm_bands = Some 100"
proof -
  have p: "length pm_bands = 3" "b_upper (pm_bands ! 2) = None" "b_ceiling (pm_bands ! 2) = Some 500"
    "b_upper (pm_bands ! 1) = Some 25" by (simp_all add: pm_bands_def mk_band_def)
  show ?thesis using legend_edge_on_ramp [OF pm_bands_ok, of 2 500 None "''none''" "''en''"] p by simp
qed

text \<open>A metric counts as scaled exactly when the map has bands to paint it with, and an
  unscaled metric paints every reading in the no-data colour; the top band carries the scale's
  ceiling.\<close>

theorem hasScale_iff_painted:
  assumes "scales = Some ss" "distinct (map s_metric ss)"
  shows "(hasScale scales metric \<longleftrightarrow> bandsFor scales metric \<noteq> [])
    \<and> (\<not> hasScale scales metric \<longrightarrow> rampColour v (bandsFor scales metric) noData = noData)
    \<and> (\<forall>c. hasScale scales metric \<and> Option.bind (scaleFor scales metric) s_ceiling = Some c \<longrightarrow>
         b_ceiling (last (bandsFor scales metric)) = Some c)"
proof -
  have found: "scaleFor scales metric = Some s \<longleftrightarrow> s \<in> set ss \<and> s_metric s = metric" for s
    using assms(2) unfolding assms(1) scaleFor_def option.case
    by (induction ss) (auto split: if_splits)
  have has: "hasScale scales metric \<longleftrightarrow>
      (\<exists>s bs. scaleFor scales metric = Some s \<and> s_bands s = Some bs \<and> bs \<noteq> [])"
    unfolding found unfolding assms(1) hasScale_def by (auto simp: list_ex_iff split: option.splits)
  then have iff: "hasScale scales metric \<longleftrightarrow> bandsFor scales metric \<noteq> []"
    by (auto simp: bandsFor_cases split: option.splits)
  moreover have "b_ceiling (last (bandsFor scales metric)) = Some c"
    if "hasScale scales metric" "Option.bind (scaleFor scales metric) s_ceiling = Some c" for c
    using that has bandsFor_top_ceiling(1) by (auto simp: bind_eq_Some_conv)
  ultimately show ?thesis by (auto simp: rampColour_no_bands)
qed

definition pm_scale :: scale where
  "pm_scale = \<lparr>s_metric = ''P2'', s_unit = Some ''ug'', s_bands = Some pm_bands, s_ceiling = Some 500,
     s_name = None, s_notes = None, s_notes_bg = None, s_source = None\<rparr>"

theorem hasScale_iff_painted_witness:
  "bandsFor (Some [pm_scale]) ''P2'' \<noteq> [] \<and> rampColour (Some 3) (bandsFor (Some [pm_scale]) ''P1'') (Some ''#ccc'') = Some ''#ccc''"
proof -
  have d: "distinct (map s_metric [pm_scale])" by simp
  have "hasScale (Some [pm_scale]) ''P2''" "\<not> hasScale (Some [pm_scale]) ''P1''"
    by (simp_all add: hasScale_def pm_scale_def pm_bands_def)
  then show ?thesis
    using hasScale_iff_painted [OF refl d, of "''P2''"]
      hasScale_iff_painted [OF refl d, of "''P1''" "Some 3" "Some ''#ccc''"] by blast
qed

definition gauge_bounds :: "string \<Rightarrow> band list \<Rightarrow> bool" where
  "gauge_bounds metric bands \<longleftrightarrow> (let u = List.map_filter b_upper bands;
      mn = (case FLOORS metric of Some f \<Rightarrow> f | None \<Rightarrow> 0)
    in 2 \<le> length u \<and> u ! (length u - 2) < last u \<and> mn < last u \<or> length u = 1 \<and> mn < 2 * hd u)"

lemma gaugeRange_good: "gauge_bounds metric bands \<Longrightarrow> arc_good (gaugeRange metric bands c)"
  by (auto simp: gauge_bounds_def gaugeRange_def Let_def arc_good_def split: option.splits)

text \<open>On a scale whose stated bounds ascend past the arc's floor, the gauge's needle is a
  number between 0 and 1 that never falls as the reading rises, and the open top band's stop is
  the end of the arc.\<close>

theorem gauge_needle_ordered:
  assumes "scaleFor scales metric = Some s" "s_bands s = Some bands" "gauge_bounds metric bands" "v \<le> w"
  shows "\<exists>x y. g_fraction (gaugeModel metric (Some v) False scales) = Some (Fin x)
    \<and> g_fraction (gaugeModel metric (Some w) False scales) = Some (Fin y) \<and> 0 \<le> x \<and> x \<le> y \<and> y \<le> 1
    \<and> (\<forall>b \<in> set bands. b_upper b = None \<longrightarrow>
         (Fin 1, b_colour b) \<in> set (g_stops (gaugeModel metric (Some v) False scales)))"
proof -
  have ne: "bands \<noteq> []" using assms(3) by (auto simp: gauge_bounds_def Let_def)
  have "s \<in> set (the scales)" "scales \<noteq> None" "s_metric s = metric"
    using assms(1) by (auto simp: scaleFor_def find_Some_iff split: option.splits)
  with assms(2) ne have has: "hasScale scales metric"
    by (auto simp: hasScale_def list_ex_iff split: option.splits)
  let ?r = "gaugeRange metric bands (s_ceiling s)"
  have good: "arc_good ?r" using assms(3) by (rule gaugeRange_good)
  then obtain mx where mx: "snd ?r = Some mx" "fst ?r < mx" by (auto simp: arc_good_def)
  have frac: "arc_fraction ?r z = Fin (arc_axis ?r z)" for z
    using mx by (simp add: arc_axis_def arc_fraction_good)
  have model: "g_fraction (gaugeModel metric (Some z) False scales) = Some (Fin (arc_axis ?r z))"
    "g_stops (gaugeModel metric (Some z) False scales) = bandStops bands ?r" for z
    using has assms(1,2) by (simp_all add: gaugeModel_def Let_def frac)
  have "arc_fraction ?r mx = Fin 1" using mx by (simp add: arc_fraction_good)
  then have "(Fin 1, b_colour b) \<in> set (bandStops bands ?r)" if "b \<in> set bands" "b_upper b = None" for b
    using that mx by (auto simp: bandStops_def intro!: rev_image_eqI)
  then show ?thesis
    using arc.axis_range [OF good] arc.axis_mono [OF good assms(4)] by (auto simp: model)
qed

theorem gauge_needle_ordered_witness:
  "\<exists>x y. g_fraction (gaugeModel ''P2'' (Some 5) False (Some [pm_scale])) = Some (Fin x)
    \<and> g_fraction (gaugeModel ''P2'' (Some 20) False (Some [pm_scale])) = Some (Fin y) \<and> 0 \<le> x \<and> x \<le> y \<and> y \<le> 1"
  using gauge_needle_ordered [of "Some [pm_scale]" "''P2''" pm_scale pm_bands 5 20]
  by (auto simp: scaleFor_def pm_scale_def gauge_bounds_def pm_bands_def mk_band_def FLOORS_def List.map_filter_def)

text \<open>The columns of the tilted map: after any interleaving of pitch events, queued frames and
  repaints a flat map holds no column data and an invisible layer, and a tilted one shows exactly
  the painted polygon cells, each standing at the current factor, which lies between 0 and 1.\<close>

theorem rise_machine_consistent:
  assumes st_def: "st = foldl rise_step (installHexRise pitch rm) es"
  shows "0 \<le> r_factor st \<and> r_factor st \<le> 1 \<and>
     (if r_factor st = 0 then m_columns st = [] \<and> m_opacity st = 0
      else m_columns st = r_cells st \<and> m_opacity st = HEX_EXTRUDED_OPACITY
         \<and> (\<forall>i \<in> set (r_cells st). m_rise st i = Some (r_factor st)))"
proof -
  have step: "r_factor (rise_step s e) \<le> 1" if "r_factor s \<le> 1" for s e
    using that riseFactor_le_1
    by (cases e) (auto simp: rise_step_def rise_apply_def set_rise_def Let_def)
  have "r_factor (foldl rise_step s es) \<le> 1" if "r_factor s \<le> 1" for s
    using that by (induction es arbitrary: s) (simp_all add: step)
  moreover have "r_factor (installHexRise pitch rm) \<le> 1"
    using riseFactor_le_1 by (auto simp: installHexRise_def rise_apply_def set_rise_def init_rise_def Let_def)
  ultimately have "r_factor st \<le> 1" unfolding st_def by blast
  moreover have "rise_inv st" unfolding st_def installHexRise_def by (intro rise_inv_run rise_inv_apply rise_inv_init)
  ultimately show ?thesis unfolding rise_inv_def by simp
qed

theorem rise_machine_consistent_witness:
  "m_columns (rise_step (installHexRise 60 True) (Hex_Paint [(Some 3, True)])) = [3]"
proof -
  let ?st = "rise_step (installHexRise 60 True) (Hex_Paint [(Some 3, True)])"
  have "?st = foldl rise_step (installHexRise 60 True) [Hex_Paint [(Some 3, True)]]" by simp
  note r = rise_machine_consistent [OF this]
  have "r_factor ?st = 1" "r_cells ?st = [3]"
    by (simp_all add: rise_step_def installHexRise_def rise_apply_def riseFactor_def HEX_RISE_FULL_PITCH_def
      init_rise_def set_rise_def Let_def List.map_filter_def)
  with r show ?thesis by simp
qed

text \<open>A column's height rises with the reading and is capped at one and a half cell widths, in
  metres, however far the reading lies beyond the table.\<close>

theorem columnHeight_bounded_monotone:
  assumes "table_ok bands" "0 < cellKM" "v \<le> w"
  shows "0 \<le> columnHeight (Some v) bands cellKM
    \<and> columnHeight (Some v) bands cellKM \<le> columnHeight (Some w) bands cellKM
    \<and> columnHeight (Some w) bands cellKM \<le> 1500 * cellKM"
proof -
  let ?full = "HEX_HEIGHT_PER_CELL * cellKM * 1000"
  have full: "0 \<le> ?full" using assms(2) by (simp add: HEX_HEIGHT_PER_CELL_def)
  have "?full = 1500 * cellKM" by (simp add: HEX_HEIGHT_PER_CELL_def)
  with ramp.drawn_range [OF assms(1) full] ramp.drawn_mono [OF assms(1,3) full] show ?thesis
    unfolding columnHeight_axis [OF assms(1,2)] by metis
qed

theorem columnHeight_bounded_monotone_witness:
  "columnHeight (Some 12) pm_bands 2 \<le> columnHeight (Some 9000) pm_bands 2
    \<and> columnHeight (Some 9000) pm_bands 2 \<le> 3000"
  using columnHeight_bounded_monotone [OF pm_bands_ok, of 2 12 9000] by simp

end
