(* ===== verification/Hexes.thy ===== *)
theory Hexes
  imports Url_Params Filters Scales "HOL-Library.While_Combinator"
begin

text \<open>
  The hex grid's client half, \<open>web/src/lib/hexes.js\<close>: the resolution a zoom asks for and the
  zooms at which the map hands over between tiers, the request URL with its snapped bounding
  box, the outlines, the network filter and the count-weighted combination of a cell's networks,
  the lattice onto which devices are merged on the point tier, and \<open>hexFeatures\<close>, which
  turns a response into drawable features.
\<close>

section \<open>Constants of contract.json\<close>

definition HEX_TIERS_KM :: "real list" where
  "HEX_TIERS_KM = [100, 50, 25, 15, 5, 2, 1, 1 / 2, 1 / 4]"

definition POINT_RESOLUTION_KM :: real where
  "POINT_RESOLUTION_KM = 0"

definition BBOX_QUANTUM_DEG :: real where
  "BBOX_QUANTUM_DEG = 1 / 4"

definition HEX_REF_LAT :: real where
  "HEX_REF_LAT = 171 / 4"

definition EARTH_RADIUS_KM :: real where
  "EARTH_RADIUS_KM = 6371"

definition radians :: "real \<Rightarrow> real" where
  "radians d = d * pi / 180"

definition degrees :: "real \<Rightarrow> real" where
  "degrees r = r * 180 / pi"

section \<open>Resolution and handover zooms\<close>

definition TARGET_HEX_PX :: real where
  "TARGET_HEX_PX = 32"

definition PHONE_BREAKPOINT_PX :: real where
  "PHONE_BREAKPOINT_PX = 672"

text \<open>\<open>None\<close> is the default \<open>inlineSize\<close>, infinity.\<close>

definition targetHexPx :: "real option \<Rightarrow> real" where
  "targetHexPx inlineSize = (case inlineSize of
      Some w \<Rightarrow> if w \<le> PHONE_BREAKPOINT_PX then TARGET_HEX_PX / 2 else TARGET_HEX_PX
    | None \<Rightarrow> TARGET_HEX_PX)"

definition M_PER_PX_Z0 :: real where
  "M_PER_PX_Z0 = (2 * pi * EARTH_RADIUS_KM * 1000) / 256 * cos (radians HEX_REF_LAT)"

definition BBOX_MIN_ZOOM :: int where
  "BBOX_MIN_ZOOM = 8"

definition FINEST_TIER_KM :: real where
  "FINEST_TIER_KM = last HEX_TIERS_KM"

definition COARSEST_TIER_KM :: real where
  "COARSEST_TIER_KM = hd HEX_TIERS_KM"

definition MIN_HEX_PX :: real where
  "MIN_HEX_PX = 8"

definition resolutionForZoom :: "real \<Rightarrow> real option \<Rightarrow> real" where
  "resolutionForZoom zoom inlineSize = (targetHexPx inlineSize * M_PER_PX_Z0) / (2 powr zoom) / 1000"

definition POINT_TIER_MIN_ZOOM :: nat where
  "POINT_TIER_MIN_ZOOM = while (\<lambda>z. FINEST_TIER_KM \<le> resolutionForZoom (real z) None) Suc 0"

definition drawnPx :: "nat \<Rightarrow> real" where
  "drawnPx z = (TARGET_HEX_PX * COARSEST_TIER_KM) / resolutionForZoom (real z) None"

definition GRID_MIN_ZOOM :: nat where
  "GRID_MIN_ZOOM = while (\<lambda>z. drawnPx z < MIN_HEX_PX) Suc 0"

definition TIER_HANDOVER :: real where
  "TIER_HANDOVER = 1 / 2"

definition GRID_MIN_ZOOM_FRACTIONAL :: real where
  "GRID_MIN_ZOOM_FRACTIONAL = real GRID_MIN_ZOOM - TIER_HANDOVER"

definition POINT_TIER_MIN_ZOOM_FRACTIONAL :: real where
  "POINT_TIER_MIN_ZOOM_FRACTIONAL = real POINT_TIER_MIN_ZOOM - TIER_HANDOVER"

section \<open>The request\<close>

record bounds =
  west :: real
  south :: real
  east :: real
  north :: real

definition quantise :: "real \<Rightarrow> (real \<Rightarrow> int) \<Rightarrow> real" where
  "quantise deg roundFn = of_int (roundFn (deg / BBOX_QUANTUM_DEG)) * BBOX_QUANTUM_DEG"

definition snapped :: "bounds \<Rightarrow> bounds" where
  "snapped b = \<lparr>west = max (- 180) (quantise (west b) floor), south = max (- 90) (quantise (south b) floor),
     east = min 180 (quantise (east b) ceiling), north = min 90 (quantise (north b) ceiling)\<rparr>"

definition bboxParam :: "int \<Rightarrow> bounds option \<Rightarrow> string" where
  "bboxParam zoom bounds = (case bounds of None \<Rightarrow> []
     | Some b \<Rightarrow> if zoom < BBOX_MIN_ZOOM then []
        else let q = snapped b in
          if \<not> (west q < east q \<and> south q < north q) then []
          else join_with '','' (map (\<lambda>v. num_str (round_places v 4)) [west q, south q, east q, north q]))"

definition hex_query :: "real \<Rightarrow> bounds option \<Rightarrow> real option \<Rightarrow> url_params" where
  "hex_query zoom bounds inlineSize = (let z = math_round zoom;
       res = resolutionForZoom (of_int z) inlineSize; bbox = bboxParam z bounds
     in if int POINT_TIER_MIN_ZOOM \<le> z \<and> bbox \<noteq> []
        then [(''resolution_km'', num_str POINT_RESOLUTION_KM), (''bbox'', bbox)]
        else let params = [(''resolution_km'', num_str (round_places res 4))]
          in if bbox \<noteq> [] then params_set params ''bbox'' bbox else params)"

definition hexesURL :: "real \<Rightarrow> bounds option \<Rightarrow> real option \<Rightarrow> string" where
  "hexesURL zoom bounds inlineSize = ''/api/v1/hexes?'' @ params_string (hex_query zoom bounds inlineSize)"

section \<open>Outlines\<close>

definition LON_KM :: real where
  "LON_KM = EARTH_RADIUS_KM * cos (radians HEX_REF_LAT)"

definition hex_corner :: "real \<Rightarrow> real \<Rightarrow> real \<Rightarrow> nat \<Rightarrow> real \<times> real" where
  "hex_corner lon lat resKM i = (let size = resKM / sqrt 3; angle = radians (60 * real i + 30)
     in (lon + degrees ((size * cos angle) / LON_KM), lat + degrees ((size * sin angle) / EARTH_RADIUS_KM)))"

definition hexPolygon :: "real \<Rightarrow> real \<Rightarrow> real \<Rightarrow> (real \<times> real) list" where
  "hexPolygon lon lat resKM = (let ring = map (hex_corner lon lat resKM) [0..<6] in ring @ [ring ! 0])"

definition diamondPolygon :: "real \<Rightarrow> real \<Rightarrow> real \<Rightarrow> (real \<times> real) list" where
  "diamondPolygon lon lat resKM = (let r = resKM / 2; dLon = degrees (r / LON_KM); dLat = degrees (r / EARTH_RADIUS_KM)
     in [(lon, lat + dLat), (lon + dLon, lat), (lon, lat - dLat), (lon - dLon, lat), (lon, lat + dLat)])"

section \<open>Cells and networks\<close>

text \<open>
  A cell of the response: \<open>values\<close> maps a metric to a number or null, \<open>by_source\<close> carries the
  numbers of each network when the cell has several.
\<close>

type_synonym metric_values = "(string \<times> jsval) list"

record part =
  p_values :: metric_values
  p_n :: "real option"

record cell =
  h_lon :: real
  h_lat :: real
  h_values :: metric_values
  h_n :: "real option"
  h_by_source :: "(string \<times> part) list option"
  h_source :: "string option"
  h_sensor :: "nat option"
  h_sensor_by_metric :: "(string \<times> nat) list"
  h_carried :: bool

definition value_of :: "metric_values \<Rightarrow> string \<Rightarrow> jsval" where
  "value_of vs metric = (case map_of vs metric of Some v \<Rightarrow> or_else v JNull | None \<Rightarrow> JNull)"

definition count_of :: "real option \<Rightarrow> real" where
  "count_of n = (case n of Some x \<Rightarrow> x | None \<Rightarrow> 0)"

text \<open>The running sums of \<open>combine\<close> and \<open>snapToLattice\<close>: per metric a total and a weight.\<close>

type_synonym acc_sums = "(string \<times> real \<times> real) list"

definition add_sum :: "real \<Rightarrow> acc_sums \<Rightarrow> string \<times> jsval \<Rightarrow> acc_sums" where
  "add_sum weight acc mv = (case finite_num (snd mv) of
      None \<Rightarrow> acc
    | Some v \<Rightarrow> (case (case map_of acc (fst mv) of Some s \<Rightarrow> s | None \<Rightarrow> (0, 0)) of
          (tot, w) \<Rightarrow> AList.update (fst mv) (tot + v * weight, w + weight) acc))"

definition add_values :: "real \<Rightarrow> metric_values \<Rightarrow> acc_sums \<Rightarrow> acc_sums" where
  "add_values weight vs acc = foldl (add_sum weight) acc vs"

definition mean_values :: "acc_sums \<Rightarrow> metric_values" where
  "mean_values acc = map (\<lambda>(m, tot, w). (m, jreal (tot / w))) acc"

definition combine :: "part list \<Rightarrow> part option" where
  "combine parts = (case parts of
      [] \<Rightarrow> None
    | [p] \<Rightarrow> Some p
    | _ \<Rightarrow> let totals = foldl (\<lambda>acc p. add_values (count_of (p_n p)) (p_values p) acc) [] parts
        in Some \<lparr>p_values = mean_values (filter (\<lambda>(_, _, w). 0 < w) totals),
                 p_n = Some (sum_list (map (\<lambda>p. count_of (p_n p)) parts))\<rparr>)"

definition whole :: "cell \<Rightarrow> part" where
  "whole h = \<lparr>p_values = h_values h, p_n = h_n h\<rparr>"

text \<open>\<open>pick\<close>: which numbers a cell reports under the network toggles; \<open>None\<close> as the filter is
  the timelapse, which has none.\<close>

definition pick :: "string list option \<Rightarrow> cell \<Rightarrow> part option" where
  "pick enabled h = (case enabled of
      None \<Rightarrow> Some (whole h)
    | Some on \<Rightarrow> if on = [] then None
        else (case h_by_source h of
            None \<Rightarrow> if sourceOf (h_source h) \<in> set on then Some (whole h) else None
          | Some parts \<Rightarrow> if list_all (\<lambda>(src, _). src \<in> set on) parts then Some (whole h)
              else combine (map snd (filter (\<lambda>(src, _). src \<in> set on) parts))))"

definition picked :: "string list option \<Rightarrow> cell list \<Rightarrow> cell list" where
  "picked enabled hexes = List.map_filter
     (\<lambda>h. map_option (\<lambda>p. h\<lparr>h_values := p_values p, h_n := p_n p\<rparr>) (pick enabled h)) hexes"

section \<open>The lattice of the point tier\<close>

definition cube_round :: "real \<Rightarrow> real \<Rightarrow> int \<times> int" where
  "cube_round qf rf = (let sf = - qf - rf;
       q = math_round qf; r = math_round rf; s = math_round sf;
       dq = \<bar>of_int q - qf\<bar>; dr = \<bar>of_int r - rf\<bar>; ds = \<bar>of_int s - sf\<bar>
     in if dr < dq \<and> ds < dq then (- r - s, r) else if ds < dr then (q, - q - s) else (q, r))"

definition lattice_lon :: "real \<Rightarrow> int \<times> int \<Rightarrow> real" where
  "lattice_lon resKM qr = degrees ((resKM / sqrt 3 * sqrt 3 * (of_int (fst qr) + of_int (snd qr) / 2)) / LON_KM)"

definition lattice_lat :: "real \<Rightarrow> int \<times> int \<Rightarrow> real" where
  "lattice_lat resKM qr = degrees ((resKM / sqrt 3 * (3 / 2) * of_int (snd qr)) / EARTH_RADIUS_KM)"

definition latticeCell :: "real \<Rightarrow> real \<Rightarrow> real \<Rightarrow> int \<times> int" where
  "latticeCell lon lat resKM = (let size = resKM / sqrt 3; x = radians lon * LON_KM; y = radians lat * EARTH_RADIUS_KM
     in cube_round (((sqrt 3 / 3) * x - y / 3) / size) (((2 / 3) * y) / size))"

text \<open>A cell under construction, and the key of the map it is built in.\<close>

record lcell =
  l_n :: real
  l_sensor :: "nat option"
  l_sums :: acc_sums

type_synonym lkey = "(int \<times> int) \<times> string"

definition lattice_key :: "real \<Rightarrow> cell \<Rightarrow> lkey" where
  "lattice_key drawKM h = (latticeCell (h_lon h) (h_lat h) drawKM, sourceOf (h_source h))"

definition add_device :: "real \<Rightarrow> (lkey \<times> lcell) list \<Rightarrow> cell \<Rightarrow> (lkey \<times> lcell) list" where
  "add_device drawKM cells h = (let k = lattice_key drawKM h;
       c = (case map_of cells k of Some c \<Rightarrow> c | None \<Rightarrow> \<lparr>l_n = 0, l_sensor = h_sensor h, l_sums = []\<rparr>)
     in AList.update k (c\<lparr>l_n := l_n c + count_of (h_n h), l_sums := add_values 1 (h_values h) (l_sums c)\<rparr>) cells)"

definition lattice_cell :: "real \<Rightarrow> lkey \<times> lcell \<Rightarrow> cell" where
  "lattice_cell drawKM kc = (case kc of (k, c) \<Rightarrow>
     \<lparr>h_lon = lattice_lon drawKM (fst k), h_lat = lattice_lat drawKM (fst k), h_values = mean_values (l_sums c),
      h_n = Some (l_n c), h_by_source = None, h_source = Some (snd k), h_sensor = l_sensor c,
      h_sensor_by_metric = [], h_carried = False\<rparr>)"

definition snapToLattice :: "cell list \<Rightarrow> real \<Rightarrow> cell list" where
  "snapToLattice hexes drawKM = map (lattice_cell drawKM) (foldl (add_device drawKM) [] hexes)"

section \<open>Features\<close>

datatype geometry = Polygon "(real \<times> real) list" | Point real real

record hex_feature = feature +
  x_id :: int
  x_geometry :: geometry
  x_colour :: colour
  x_height :: real
  x_n :: "real option"
  x_sensor :: "nat option"
  x_carried :: bool
  x_fresh :: "nat option"

definition hexFeatureId :: "real \<Rightarrow> real \<Rightarrow> int" where
  "hexFeatureId lon lat = math_round ((lon + 180) * 100000) * 20000000 + math_round ((lat + 90) * 100000)"

definition ringFor :: "bool \<Rightarrow> cell \<Rightarrow> real \<Rightarrow> (real \<times> real) list" where
  "ringFor points h drawKM = (if points \<and> sourceOf (h_source h) = OFFICIAL_SOURCE
     then diamondPolygon (h_lon h) (h_lat h) drawKM else hexPolygon (h_lon h) (h_lat h) drawKM)"

record hex_body =
  resolution_km :: jsval
  hexes :: "cell list"

definition nodata_first :: "string \<Rightarrow> cell list \<Rightarrow> cell list" where
  "nodata_first metric hs = filter (\<lambda>h. value_of (h_values h) metric = JNull) hs
     @ filter (\<lambda>h. value_of (h_values h) metric \<noteq> JNull) hs"

type_synonym colour_of = "real option \<Rightarrow> band list \<Rightarrow> colour \<Rightarrow> colour"

definition to_feature :: "string \<Rightarrow> band list \<Rightarrow> colour \<Rightarrow> colour_of \<Rightarrow> bool \<Rightarrow> real \<Rightarrow> cell \<Rightarrow> hex_feature" where
  "to_feature metric bands noDataColour colourOf points drawKM h = (let value = value_of (h_values h) metric in
     \<lparr>f_value = value, f_faulty = False, f_source = (if points then Some (sourceOf (h_source h)) else None),
      x_id = hexFeatureId (h_lon h) (h_lat h),
      x_geometry = (if 0 < drawKM then Polygon (ringFor points h drawKM) else Point (h_lon h) (h_lat h)),
      x_colour = colourOf (finite_num value) bands noDataColour,
      x_height = (if 0 < drawKM then columnHeight (finite_num value) bands drawKM else 0),
      x_n = h_n h,
      x_sensor = (case h_sensor h of Some i \<Rightarrow> Some i | None \<Rightarrow> map_of (h_sensor_by_metric h) metric),
      x_carried = h_carried h, x_fresh = None\<rparr>)"

definition drawn_cells :: "cell list \<Rightarrow> bool \<Rightarrow> real \<Rightarrow> string list option \<Rightarrow> cell list" where
  "drawn_cells hs points drawKM enabled = (let ps = picked enabled hs
     in if points \<and> 0 < drawKM then snapToLattice ps drawKM else ps)"

definition hexFeatures ::
    "hex_body option \<Rightarrow> string \<Rightarrow> band list \<Rightarrow> colour \<Rightarrow> colour_of \<Rightarrow> real \<Rightarrow> string list option \<Rightarrow> hex_feature list" where
  "hexFeatures body metric bands noDataColour colourOf pointResKM enabled =
     (case Option.bind body (\<lambda>b. finite_num (resolution_km b)) of
        None \<Rightarrow> []
      | Some resKM \<Rightarrow> if \<not> 0 \<le> resKM then []
          else let points = (resKM = POINT_RESOLUTION_KM); drawKM = (if points then pointResKM else resKM)
            in map (to_feature metric bands noDataColour colourOf points drawKM)
                 (nodata_first metric (drawn_cells (hexes (the body)) points drawKM enabled)))"

section \<open>Bounds on the handover zooms\<close>

lemma arctan_le_self: "0 \<le> x \<Longrightarrow> arctan x \<le> x"
proof -
  assume x: "0 \<le> x"
  let ?f = "\<lambda>t::real. t - arctan t"
  have "?f 0 \<le> ?f x"
  proof (rule DERIV_nonneg_imp_nondecreasing [OF x])
    fix t :: real
    have "(?f has_real_derivative (1 - inverse (1 + t\<^sup>2))) (at t)"
      by (auto intro!: derivative_eq_intros)
    moreover have "0 \<le> 1 - inverse (1 + t\<^sup>2)" by (simp add: inverse_le_1_iff)
    ultimately show "\<exists>y. (?f has_real_derivative y) (at t) \<and> 0 \<le> y" by blast
  qed
  then show ?thesis by simp
qed

lemma arctan_ge: "0 \<le> x \<Longrightarrow> x / (1 + x\<^sup>2) \<le> arctan x"
proof -
  assume x: "0 \<le> x"
  let ?f = "\<lambda>t::real. arctan t - t / (1 + t\<^sup>2)"
  have "?f 0 \<le> ?f x"
  proof (rule DERIV_nonneg_imp_nondecreasing [OF x])
    fix t :: real
    have pos: "1 + t\<^sup>2 \<noteq> 0" by (metis add_nonneg_eq_0_iff zero_le_one zero_le_power2 zero_neq_one)
    have "(?f has_real_derivative (inverse (1 + t\<^sup>2) - (1 * (1 + t\<^sup>2) - t * (2 * t)) / (1 + t\<^sup>2)\<^sup>2)) (at t)"
      using pos by (auto intro!: derivative_eq_intros simp: power2_eq_square)
    moreover have "inverse (1 + t\<^sup>2) - (1 * (1 + t\<^sup>2) - t * (2 * t)) / (1 + t\<^sup>2)\<^sup>2 = 2 * t\<^sup>2 / (1 + t\<^sup>2)\<^sup>2"
    proof -
      define D where "D = 1 + t\<^sup>2"
      have "(1 * D - t * (2 * t)) / D\<^sup>2 = D / D\<^sup>2 - 2 * t\<^sup>2 / D\<^sup>2"
        by (simp add: diff_divide_distrib power2_eq_square)
      moreover have "D / D\<^sup>2 = inverse D" using pos unfolding D_def [symmetric]
        by (simp add: power2_eq_square divide_simps)
      ultimately show ?thesis unfolding D_def [symmetric] by simp
    qed
    moreover have "0 \<le> 2 * t\<^sup>2 / (1 + t\<^sup>2)\<^sup>2" by simp
    ultimately show "\<exists>y. (?f has_real_derivative y) (at t) \<and> 0 \<le> y" by metis
  qed
  then show ?thesis by simp
qed

lemma pi_bounds: "3 < pi" "pi \<le> 16 / 5"
proof -
  have "pi / 4 \<le> 4 * (1 / 5)"
    using machin arctan_le_self [of "1 / 5"] zero_less_arctan_iff [of "1 / 239"] by linarith
  then show "pi \<le> 16 / 5" by simp
  have "(5 / 26 :: real) \<le> arctan (1 / 5)" using arctan_ge [of "1 / 5"] by (simp add: power2_eq_square)
  then show "3 < pi" using machin arctan_le_self [of "1 / 239"] by linarith
qed

lemma cos_ref_bounds:
  "7071 / 10000 \<le> cos (radians HEX_REF_LAT)" "cos (radians HEX_REF_LAT) \<le> 7360 / 10000"
proof -
  let ?t = "pi / 80"
  have split: "radians HEX_REF_LAT = pi / 4 - ?t" by (simp add: radians_def HEX_REF_LAT_def field_simps)
  have s2: "7071 / 10000 \<le> sqrt 2 / 2" "sqrt 2 / 2 \<le> 70711 / 100000"
  proof -
    have "14142 / 10000 \<le> sqrt 2" by (rule real_le_rsqrt) (simp add: power2_eq_square)
    moreover have "sqrt 2 \<le> 141422 / 100000" by (rule real_le_lsqrt) (simp_all add: power2_eq_square)
    ultimately show "7071 / 10000 \<le> sqrt 2 / 2" "sqrt 2 / 2 \<le> 70711 / 100000" by simp_all
  qed
  have t: "0 \<le> ?t" "?t \<le> 1 / 25" using pi_bounds by simp_all
  have "sqrt 2 / 2 = cos (pi / 4)" by (simp add: cos_45)
  also have "\<dots> \<le> cos (pi / 4 - ?t)"
    by (rule cos_monotone_0_pi_le) (use t pi_bounds in auto)
  finally show "7071 / 10000 \<le> cos (radians HEX_REF_LAT)" unfolding split using s2(1) by linarith
  have one: "cos ?t + sin ?t \<le> 1 + 1 / 25"
    using cos_le_one [of ?t] sin_x_le_x [OF t(1)] t(2) by linarith
  have "cos (pi / 4 - ?t) = sqrt 2 / 2 * (cos ?t + sin ?t)"
    unfolding cos_diff cos_45 sin_45 by (simp only: distrib_left)
  also have "\<dots> \<le> sqrt 2 / 2 * (1 + 1 / 25)"
    using one by (intro mult_left_mono) simp_all
  also have "\<dots> \<le> (70711 / 100000) * (1 + 1 / 25)"
    using s2(2) by (intro mult_right_mono) simp_all
  finally have "cos (pi / 4 - ?t) \<le> (70711 / 100000) * (1 + 1 / 25)" .
  then show "cos (radians HEX_REF_LAT) \<le> 7360 / 10000" unfolding split by (rule order_trans) simp
qed

text \<open>Kilometres per pixel at zoom 0, times the pixels of a cell.\<close>

lemma base_bounds: "3300 \<le> 32 * M_PER_PX_Z0 / 1000" "32 * M_PER_PX_Z0 / 1000 \<le> 3800"
proof -
  let ?c = "cos (radians HEX_REF_LAT)"
  have e: "32 * M_PER_PX_Z0 / 1000 = (6371 / 4) * (pi * ?c)"
    by (simp add: M_PER_PX_Z0_def EARTH_RADIUS_KM_def)
  have lo: "3 * (7071 / 10000) \<le> pi * ?c"
    using pi_bounds cos_ref_bounds by (intro mult_mono) auto
  have hi: "pi * ?c \<le> (16 / 5) * (7360 / 10000)"
    using pi_bounds cos_ref_bounds by (intro mult_mono) auto
  from lo show "3300 \<le> 32 * M_PER_PX_Z0 / 1000" unfolding e by simp
  from hi show "32 * M_PER_PX_Z0 / 1000 \<le> 3800" unfolding e by simp
qed

lemma resolution_at: "resolutionForZoom (real z) None = (32 * M_PER_PX_Z0 / 1000) / 2 ^ z"
  by (simp add: resolutionForZoom_def targetHexPx_def TARGET_HEX_PX_def powr_realpow)

lemma while_first:
  "m \<le> n \<Longrightarrow> \<forall>k. m \<le> k \<and> k < n \<longrightarrow> P k \<Longrightarrow> \<not> P n \<Longrightarrow> while P Suc m = n"
proof (induction "n - m" arbitrary: m)
  case 0
  then show ?case by (simp add: while_unfold)
next
  case (Suc d)
  then have "P m" "while P Suc (Suc m) = n" by auto
  then show ?case by (subst while_unfold) simp
qed

lemma resolution_antimono: "y \<le> z \<Longrightarrow> resolutionForZoom (real z) None \<le> resolutionForZoom (real y) None"
  unfolding resolution_at using base_bounds by (intro divide_left_mono power_increasing) auto

lemma point_tier_zoom: "POINT_TIER_MIN_ZOOM = 14"
  unfolding POINT_TIER_MIN_ZOOM_def
proof (rule while_first)
  have f: "FINEST_TIER_KM = 1 / 4" by (simp add: FINEST_TIER_KM_def HEX_TIERS_KM_def)
  have "1 / 4 \<le> resolutionForZoom (real (13::nat)) None" unfolding resolution_at using base_bounds by simp
  then have "1 / 4 \<le> resolutionForZoom (real k) None" if "k < 14" for k :: nat
    using that resolution_antimono [of k 13] by linarith
  then show "\<forall>k. 0 \<le> k \<and> k < 14 \<longrightarrow> FINEST_TIER_KM \<le> resolutionForZoom (real k) None"
    unfolding f by blast
  show "\<not> FINEST_TIER_KM \<le> resolutionForZoom (real (14::nat)) None"
    unfolding f resolution_at using base_bounds by simp
qed simp

lemma grid_zoom: "GRID_MIN_ZOOM = 4"
  unfolding GRID_MIN_ZOOM_def
proof (rule while_first)
  have d: "drawnPx z = 3200 * 2 ^ z / (32 * M_PER_PX_Z0 / 1000)" for z
    unfolding drawnPx_def resolution_at by (simp add: TARGET_HEX_PX_def COARSEST_TIER_KM_def HEX_TIERS_KM_def)
  have m: "0 < 32 * M_PER_PX_Z0 / 1000" using base_bounds by linarith
  have "3200 * 2 ^ k / (32 * M_PER_PX_Z0 / 1000) < 8" if "k < 4" for k :: nat
  proof -
    have "(2::real) ^ k \<le> 2 ^ 3" using that by (intro power_increasing) auto
    then show ?thesis using base_bounds m by (simp only: divide_less_eq) simp
  qed
  then show "\<forall>k. 0 \<le> k \<and> k < 4 \<longrightarrow> drawnPx k < MIN_HEX_PX" by (simp add: d MIN_HEX_PX_def)
  show "\<not> drawnPx 4 < MIN_HEX_PX"
    using base_bounds m by (simp only: d MIN_HEX_PX_def divide_less_eq) simp
qed simp

section \<open>Sums and means\<close>

definition sums_within :: "string \<Rightarrow> real \<Rightarrow> real \<Rightarrow> acc_sums \<Rightarrow> bool" where
  "sums_within m lo hi acc \<longleftrightarrow> distinct (map fst acc)
     \<and> (\<forall>tot w. map_of acc m = Some (tot, w) \<longrightarrow> 0 \<le> w \<and> lo * w \<le> tot \<and> tot \<le> hi * w)"

definition values_within :: "string \<Rightarrow> real \<Rightarrow> real \<Rightarrow> metric_values \<Rightarrow> bool" where
  "values_within m lo hi vs \<longleftrightarrow> (\<forall>v x. (m, v) \<in> set vs \<and> finite_num v = Some x \<longrightarrow> lo \<le> x \<and> x \<le> hi)"

lemma sums_within_Nil [simp]: "sums_within m lo hi []"
  by (simp add: sums_within_def)

lemma sums_within_add_sum:
  assumes "sums_within m lo hi acc" "0 \<le> weight"
    "\<And>x. k = m \<Longrightarrow> finite_num v = Some x \<Longrightarrow> lo \<le> x \<and> x \<le> hi"
  shows "sums_within m lo hi (add_sum weight acc (k, v))"
proof (cases "finite_num v")
  case (Some x)
  obtain tot w where tw: "(case map_of acc k of Some s \<Rightarrow> s | None \<Rightarrow> (0, 0)) = (tot, w)" by fastforce
  have new: "add_sum weight acc (k, v) = AList.update k (tot + x * weight, w + weight) acc"
    by (simp add: add_sum_def Some tw)
  have b: "0 \<le> w + weight \<and> lo * (w + weight) \<le> tot + x * weight \<and> tot + x * weight \<le> hi * (w + weight)" if "k = m"
  proof -
    have old: "0 \<le> w" "lo * w \<le> tot" "tot \<le> hi * w"
      using assms(1) tw that by (auto simp: sums_within_def split: option.splits)
    have "lo * weight \<le> x * weight" "x * weight \<le> hi * weight"
      using assms(3) [OF that Some] assms(2) by (auto intro: mult_right_mono)
    with old assms(2) show ?thesis by (simp add: distrib_left)
  qed
  show ?thesis
    using assms(1) b unfolding new sums_within_def by (auto simp: update_conv' distinct_update split: if_splits)
qed (simp add: add_sum_def assms(1))

lemma sums_within_add_values:
  assumes "sums_within m lo hi acc" "0 \<le> weight" "values_within m lo hi vs"
  shows "sums_within m lo hi (add_values weight vs acc)"
  using assms unfolding add_values_def
proof (induction vs arbitrary: acc)
  case (Cons kv vs)
  obtain k v where kv: "kv = (k, v)" by (cases kv)
  have "sums_within m lo hi (add_sum weight acc (k, v))"
    using Cons.prems kv by (intro sums_within_add_sum) (auto simp: values_within_def)
  moreover have "values_within m lo hi vs" using Cons.prems(3) by (auto simp: values_within_def)
  ultimately show ?case using Cons.IH Cons.prems(2) kv by simp
qed simp

lemma map_of_mean: "map_of (mean_values acc) m = map_option (\<lambda>(tot, w). jreal (tot / w)) (map_of acc m)"
  unfolding mean_values_def by (induction acc) auto

lemma mean_within:
  "0 < w \<Longrightarrow> lo * w \<le> tot \<Longrightarrow> tot \<le> hi * w \<Longrightarrow> lo \<le> tot / w \<and> tot / w \<le> (hi :: real)"
  by (simp add: pos_le_divide_eq pos_divide_le_eq)

lemma map_of_filter_distinct:
  "distinct (map fst acc) \<Longrightarrow> map_of (filter P acc) m = (case map_of acc m of Some x \<Rightarrow> if P (m, x) then Some x else None | None \<Rightarrow> None)"
proof (induction acc)
  case (Cons a acc)
  have "map_of (filter P acc) (fst a) = None" if "fst a \<notin> fst ` set acc"
    using that by (auto simp: map_of_eq_None_iff)
  with Cons show ?case by (cases a) (auto split: option.splits)
qed simp

definition sum_parts :: "part list \<Rightarrow> acc_sums" where
  "sum_parts parts = foldl (\<lambda>acc p. add_values (count_of (p_n p)) (p_values p) acc) [] parts"

lemma sum_parts_within:
  assumes "\<forall>p \<in> set parts. 0 \<le> count_of (p_n p) \<and> values_within m lo hi (p_values p)"
  shows "sums_within m lo hi (sum_parts parts)"
proof -
  have "sums_within m lo hi (foldl (\<lambda>acc p. add_values (count_of (p_n p)) (p_values p) acc) acc parts)"
    if "sums_within m lo hi acc" for acc
    using that assms by (induction parts arbitrary: acc) (simp_all add: sums_within_add_values)
  then show ?thesis unfolding sum_parts_def by simp
qed

lemma combine_many: "2 \<le> length parts \<Longrightarrow> combine parts = Some
    \<lparr>p_values = mean_values (filter (\<lambda>(_, _, w). 0 < w) (sum_parts parts)), p_n = Some (sum_list (map (\<lambda>p. count_of (p_n p)) parts))\<rparr>"
  by (auto simp: combine_def sum_parts_def Let_def split: list.splits)

section \<open>The lattice\<close>

definition lattice_inv :: "real \<Rightarrow> cell list \<Rightarrow> (lkey \<times> lcell) list \<Rightarrow> bool" where
  "lattice_inv drawKM seen cells \<longleftrightarrow> distinct (map fst cells)
     \<and> fst ` set cells = lattice_key drawKM ` set seen
     \<and> sum_list (map (l_n \<circ> snd) cells) = sum_list (map (count_of \<circ> h_n) seen)"

lemma sum_list_update:
  fixes f :: "'b \<Rightarrow> real"
  assumes "distinct (map fst m)"
  shows "sum_list (map (f \<circ> snd) (AList.update k v m)) =
     sum_list (map (f \<circ> snd) m) + f v - (case map_of m k of Some x \<Rightarrow> f x | None \<Rightarrow> 0)"
  using assms by (induction m) (auto split: option.splits)

lemma lattice_inv_step:
  assumes "lattice_inv drawKM seen cells"
  shows "lattice_inv drawKM (seen @ [h]) (add_device drawKM cells h)"
proof -
  let ?k = "lattice_key drawKM h"
  let ?c = "case map_of cells ?k of Some c \<Rightarrow> c | None \<Rightarrow> \<lparr>l_n = 0, l_sensor = h_sensor h, l_sums = []\<rparr>"
  let ?v = "?c\<lparr>l_n := l_n ?c + count_of (h_n h), l_sums := add_values 1 (h_values h) (l_sums ?c)\<rparr>"
  have d: "distinct (map fst cells)" using assms by (simp add: lattice_inv_def)
  have "sum_list (map (l_n \<circ> snd) (AList.update ?k ?v cells)) = sum_list (map (l_n \<circ> snd) cells) + count_of (h_n h)"
    by (simp add: sum_list_update [OF d] split: option.splits)
  then show ?thesis
    using assms by (simp add: lattice_inv_def add_device_def Let_def distinct_update dom_update)
qed

lemma lattice_inv_run: "lattice_inv drawKM hs (foldl (add_device drawKM) [] hs)"
proof -
  have "lattice_inv drawKM (seen @ hs) (foldl (add_device drawKM) cells hs)"
    if "lattice_inv drawKM seen cells" for seen cells
    using that
  proof (induction hs arbitrary: seen cells)
    case (Cons h hs)
    from Cons.IH [OF lattice_inv_step [OF Cons.prems, of h]] show ?case by simp
  qed simp
  from this [of "[]" "[]"] show ?thesis by (simp add: lattice_inv_def)
qed

text \<open>The readings some devices give of a metric, and what a lattice cell holds of the devices on it.\<close>

definition readings_of :: "string \<Rightarrow> cell list \<Rightarrow> real list" where
  "readings_of m ds = concat (map (\<lambda>h. List.map_filter (\<lambda>(m', v). if m' = m then finite_num v else None) (h_values h)) ds)"

definition devices_on :: "real \<Rightarrow> lkey \<Rightarrow> cell list \<Rightarrow> cell list" where
  "devices_on drawKM k hs = filter (\<lambda>h. lattice_key drawKM h = k) hs"

definition put_device :: "lcell \<Rightarrow> cell \<Rightarrow> lcell" where
  "put_device c h = c\<lparr>l_n := l_n c + count_of (h_n h), l_sums := add_values 1 (h_values h) (l_sums c)\<rparr>"

lemma put_devices:
  "l_n (foldl put_device c ds) = l_n c + sum_list (map (count_of \<circ> h_n) ds)"
  "l_sums (foldl put_device c ds) = foldl (\<lambda>acc h. add_values 1 (h_values h) acc) (l_sums c) ds"
  by (induction ds arbitrary: c) (simp_all add: put_device_def)

lemma map_of_add_devices:
  "map_of (foldl (add_device drawKM) cells hs) k = (case devices_on drawKM k hs of [] \<Rightarrow> map_of cells k
     | h # ds \<Rightarrow> Some (foldl put_device (case map_of cells k of Some c \<Rightarrow> c
         | None \<Rightarrow> \<lparr>l_n = 0, l_sensor = h_sensor h, l_sums = []\<rparr>) (h # ds)))"
proof (induction hs arbitrary: cells)
  case (Cons h hs)
  have "map_of (add_device drawKM cells h) k = (if lattice_key drawKM h = k
      then Some (put_device (case map_of cells k of Some c \<Rightarrow> c | None \<Rightarrow> \<lparr>l_n = 0, l_sensor = h_sensor h, l_sums = []\<rparr>) h)
      else map_of cells k)"
    by (auto simp: add_device_def Let_def update_conv' put_device_def)
  then show ?case
    using Cons.IH [of "add_device drawKM cells h"]
    by (cases "devices_on drawKM k hs") (auto simp: devices_on_def)
qed (simp add: devices_on_def)

text \<open>The running sums are the sum and the number of the readings.\<close>

definition more_readings :: "real list \<Rightarrow> (real \<times> real) option \<Rightarrow> (real \<times> real) option" where
  "more_readings rs s = (case s of Some (t, w) \<Rightarrow> Some (t + sum_list rs, w + real (length rs))
     | None \<Rightarrow> if rs = [] then None else Some (sum_list rs, real (length rs)))"

lemma more_readings_append: "more_readings (xs @ ys) s = more_readings ys (more_readings xs s)"
  by (auto simp: more_readings_def split: option.splits)

lemma map_of_add_values:
  "map_of (add_values 1 vs acc) m
     = more_readings (List.map_filter (\<lambda>(m', v). if m' = m then finite_num v else None) vs) (map_of acc m)"
  unfolding add_values_def
proof (induction vs arbitrary: acc)
  case Nil
  then show ?case by (simp add: more_readings_def map_filter_def split: option.splits)
next
  case (Cons kv vs)
  obtain k v where kv: "kv = (k, v)" by (cases kv)
  have "map_of (add_sum 1 acc (k, v)) m = more_readings (case if k = m then finite_num v else None of Some x \<Rightarrow> [x] | None \<Rightarrow> []) (map_of acc m)"
    by (auto simp: add_sum_def update_conv' more_readings_def split: option.splits)
  moreover have "List.map_filter (\<lambda>(m', v). if m' = m then finite_num v else None) ((k, v) # vs)
      = (case if k = m then finite_num v else None of Some x \<Rightarrow> [x] | None \<Rightarrow> []) @ List.map_filter (\<lambda>(m', v). if m' = m then finite_num v else None) vs"
    by (simp add: map_filter_def split: option.splits)
  ultimately show ?case using Cons.IH by (simp only: kv foldl_Cons more_readings_append)
qed

lemma map_of_all_values:
  "map_of (foldl (\<lambda>acc h. add_values 1 (h_values h) acc) acc ds) m = more_readings (readings_of m ds) (map_of acc m)"
proof (induction ds arbitrary: acc)
  case Nil
  then show ?case by (simp add: readings_of_def more_readings_def split: option.splits)
next
  case (Cons h ds)
  have "readings_of m (h # ds) = List.map_filter (\<lambda>(m', v). if m' = m then finite_num v else None) (h_values h) @ readings_of m ds"
    by (simp add: readings_of_def)
  then show ?case using Cons.IH by (simp add: more_readings_append map_of_add_values)
qed

lemma merged_cell:
  assumes "(k, c) \<in> set (foldl (add_device drawKM) [] hs)"
  shows "l_n c = sum_list (map (count_of \<circ> h_n) (devices_on drawKM k hs))"
    "map_of (l_sums c) m = more_readings (readings_of m (devices_on drawKM k hs)) None"
proof -
  have "map_of (foldl (add_device drawKM) [] hs) k = Some c"
    using assms lattice_inv_run [of drawKM hs] by (simp add: lattice_inv_def)
  then obtain h ds where d: "devices_on drawKM k hs = h # ds"
    and c: "c = foldl put_device \<lparr>l_n = 0, l_sensor = h_sensor h, l_sums = []\<rparr> (h # ds)"
    by (auto simp: map_of_add_devices split: list.splits)
  show "l_n c = sum_list (map (count_of \<circ> h_n) (devices_on drawKM k hs))"
    unfolding c d put_devices by simp
  show "map_of (l_sums c) m = more_readings (readings_of m (devices_on drawKM k hs)) None"
    unfolding c d put_devices map_of_all_values by simp
qed

text \<open>The mean of the readings, and nothing when there are none.\<close>

definition mean_of :: "real list \<Rightarrow> jsval" where
  "mean_of rs = (if rs = [] then JNull else jreal (sum_list rs / real (length rs)))"

lemma mean_of_within: "rs \<noteq> [] \<Longrightarrow> \<forall>r \<in> set rs. lo \<le> r \<and> r \<le> hi \<Longrightarrow> mean_of rs = jreal x \<Longrightarrow> lo \<le> x \<and> x \<le> (hi :: real)"
proof -
  assume rs: "rs \<noteq> []" "\<forall>r \<in> set rs. lo \<le> r \<and> r \<le> hi" and x: "mean_of rs = jreal x"
  have "lo * real (length rs) \<le> sum_list rs \<and> sum_list rs \<le> hi * real (length rs)"
    using rs(2) by (induction rs) (auto simp: algebra_simps)
  moreover have "x = sum_list rs / real (length rs)" using rs(1) x by (simp add: mean_of_def)
  ultimately show ?thesis using rs(1) mean_within [of "real (length rs)" lo "sum_list rs" hi] by simp
qed

section \<open>Geometry\<close>

lemma LON_KM_pos: "0 < LON_KM"
  using cos_ref_bounds(1) by (simp add: LON_KM_def EARTH_RADIUS_KM_def)

lemma radians_degrees [simp]: "radians (degrees x) = x"
  by (simp add: radians_def degrees_def)

lemma cube_round_of_int: "cube_round (of_int q) (of_int r) = (q, r)"
proof -
  have "math_round (- real_of_int q - real_of_int r) = - q - r"
    by (metis math_round_of_int of_int_diff of_int_minus)
  then show ?thesis by (simp add: cube_round_def Let_def)
qed

lemma lattice_centre: "0 < resKM \<Longrightarrow> latticeCell (lattice_lon resKM qr) (lattice_lat resKM qr) resKM = qr"
proof -
  assume r: "0 < resKM"
  define size where "size = resKM / sqrt 3"
  have s: "size \<noteq> 0" using r by (simp add: size_def)
  have x: "radians (lattice_lon resKM qr) * LON_KM = size * sqrt 3 * (of_int (fst qr) + of_int (snd qr) / 2)"
    using LON_KM_pos by (simp add: lattice_lon_def size_def)
  have y: "radians (lattice_lat resKM qr) * EARTH_RADIUS_KM = size * (3 / 2) * of_int (snd qr)"
    by (simp add: lattice_lat_def size_def EARTH_RADIUS_KM_def)
  have "(sqrt 3 / 3 * (size * sqrt 3 * (of_int (fst qr) + of_int (snd qr) / 2)) - size * (3 / 2) * of_int (snd qr) / 3) / size
      = of_int (fst qr)"
    using s by (simp add: field_simps)
  moreover have "2 / 3 * (size * (3 / 2) * of_int (snd qr)) / size = of_int (snd qr)"
    using s by (simp add: field_simps)
  ultimately show ?thesis
    unfolding latticeCell_def Let_def size_def [symmetric] x y by (simp add: cube_round_of_int)
qed

text \<open>A corner's offset from the centre, in projected kilometres.\<close>

lemma corner_offset:
  "radians (fst (hex_corner lon lat r i) - lon) * LON_KM = r / sqrt 3 * cos (radians (60 * real i + 30))"
  "radians (snd (hex_corner lon lat r i) - lat) * EARTH_RADIUS_KM = r / sqrt 3 * sin (radians (60 * real i + 30))"
  using LON_KM_pos by (simp_all add: hex_corner_def Let_def EARTH_RADIUS_KM_def)

lemma corner_angles:
  "cos (radians 330) = sqrt 3 / 2" "sin (radians 330) = - 1 / 2"
  "cos (radians 210) = - sqrt 3 / 2" "sin (radians 210) = - 1 / 2"
  "cos (radians 30) = sqrt 3 / 2" "sin (radians 30) = 1 / 2"
  "cos (radians 150) = - sqrt 3 / 2" "sin (radians 150) = 1 / 2"
proof -
  have a: "radians 330 = 2 * pi - pi / 6" "radians 210 = pi + pi / 6" "radians 30 = pi / 6" "radians 150 = pi - pi / 6"
    by (simp_all add: radians_def field_simps)
  show "cos (radians 330) = sqrt 3 / 2" "sin (radians 330) = - 1 / 2"
    "cos (radians 210) = - sqrt 3 / 2" "sin (radians 210) = - 1 / 2"
    "cos (radians 30) = sqrt 3 / 2" "sin (radians 30) = 1 / 2"
    "cos (radians 150) = - sqrt 3 / 2" "sin (radians 150) = 1 / 2"
    unfolding a cos_diff sin_diff cos_add sin_add by (simp_all add: cos_30 sin_30)
qed

lemma hexPolygon_nth: "i < 6 \<Longrightarrow> hexPolygon lon lat r ! i = hex_corner lon lat r i"
  by (simp add: hexPolygon_def Let_def nth_append del: upt_Suc upt.simps)

lemma east_neighbour: "lattice_lon r (q + 1, s) = lattice_lon r (q, s) + degrees (r / LON_KM)"
  by (simp add: lattice_lon_def degrees_def add_divide_distrib algebra_simps)

section \<open>The bounding box\<close>

lemma quantise_eq: "quantise x f = of_int (f (x * 4)) / 4"
  by (simp add: quantise_def BBOX_QUANTUM_DEG_def)

lemma quantise_floor: "quantise x floor \<le> x" "x < quantise x floor + BBOX_QUANTUM_DEG"
  and quantise_ceiling: "x \<le> quantise x ceiling" "quantise x ceiling < x + BBOX_QUANTUM_DEG"
  unfolding quantise_eq BBOX_QUANTUM_DEG_def by linarith+

lemma quantise_grid [simp]:
  "quantise (of_int k * BBOX_QUANTUM_DEG) floor = of_int k * BBOX_QUANTUM_DEG"
  "quantise (of_int k * BBOX_QUANTUM_DEG) ceiling = of_int k * BBOX_QUANTUM_DEG"
  by (simp_all add: quantise_def BBOX_QUANTUM_DEG_def)

definition on_grid :: "real \<Rightarrow> bool" where
  "on_grid x \<longleftrightarrow> (\<exists>k. x = of_int k * BBOX_QUANTUM_DEG)"

lemma on_grid_quantise [simp]: "on_grid (quantise x f)"
  by (auto simp: on_grid_def quantise_def)

lemma on_grid_limits [simp]: "on_grid (- 180)" "on_grid 180" "on_grid (- 90)" "on_grid 90"
  unfolding on_grid_def BBOX_QUANTUM_DEG_def
  by (rule exI [of _ "- 720"], simp) (rule exI [of _ 720], simp, rule exI [of _ "- 360"], simp, rule exI [of _ 360], simp)

lemma quantise_on_grid: "on_grid x \<Longrightarrow> quantise x floor = x" "on_grid x \<Longrightarrow> quantise x ceiling = x"
  by (auto simp: on_grid_def)

lemma on_grid_max_min: "on_grid x \<Longrightarrow> on_grid y \<Longrightarrow> on_grid (max x y)" "on_grid x \<Longrightarrow> on_grid y \<Longrightarrow> on_grid (min x y)"
  by (simp_all add: max_def min_def)

lemma snapped_grid: "on_grid (west (snapped b)) \<and> on_grid (south (snapped b)) \<and> on_grid (east (snapped b)) \<and> on_grid (north (snapped b))"
  by (simp add: snapped_def on_grid_max_min)

lemma snapped_idem: "snapped (snapped b) = snapped b"
proof -
  have g: "on_grid (west (snapped b))" "on_grid (south (snapped b))" "on_grid (east (snapped b))" "on_grid (north (snapped b))"
    using snapped_grid by blast+
  have "- 180 \<le> west (snapped b)" "- 90 \<le> south (snapped b)" "east (snapped b) \<le> 180" "north (snapped b) \<le> 90"
    by (simp_all add: snapped_def)
  then show ?thesis
    using g unfolding snapped_def [of "snapped b"] by (simp add: quantise_on_grid max_def min_def)
qed

lemma bboxParam_snapped: "bboxParam z (Some (snapped b)) = bboxParam z (Some b)"
  by (simp add: bboxParam_def snapped_idem)

lemma nat_str_0: "nat_str 0 = ''0''"
  by (subst nat_str.simps) (simp add: digit_char_def char_of_eq_iff)

lemma num_str_zero: "num_str x = ''0'' \<Longrightarrow> x = 0"
proof -
  assume a: "num_str x = ''0''"
  note z = nat_str_0
  let ?i = "\<lfloor>\<bar>x\<bar>\<rfloor>" and ?f = "\<bar>x\<bar> - of_int \<lfloor>\<bar>x\<bar>\<rfloor>"
  have neg: "\<not> x < 0" using a by (auto simp: num_str_def Let_def)
  have f: "?f = 0"
  proof (rule ccontr)
    assume "?f \<noteq> 0"
    moreover have "Suc 0 \<le> length (nat_str (nat \<lfloor>x\<rfloor>))" by (simp add: Suc_le_eq)
    ultimately have "2 \<le> length (num_str x)" using neg by (simp add: num_str_def Let_def)
    with a show False by simp
  qed
  with a neg have "nat_str (nat ?i) = ''0''" by (simp add: num_str_def Let_def)
  then have "nat ?i = 0" using z by (metis nat_str_inject)
  then have "?i = 0" by (smt (verit) zero_le_floor abs_ge_zero nat_eq_iff2 of_nat_0)
  with f show "x = 0" by simp
qed

lemma num_str_0 [simp]: "num_str 0 = ''0''"
  by (simp add: num_str_def nat_str_0)

section \<open>Properties\<close>

text \<open>The two handover zooms the layers are built from: the grid starts at zoom 4, the first at
  which the coarsest published bin is at least eight pixels wide, and devices replace bins at
  zoom 14, the first at which the cell wanted is smaller than the finest bin published; both
  are exact for every later zoom.\<close>

theorem tier_handover_zooms:
  "GRID_MIN_ZOOM = 4 \<and> POINT_TIER_MIN_ZOOM = 14
    \<and> (POINT_TIER_MIN_ZOOM \<le> z \<longleftrightarrow> resolutionForZoom (real z) None < FINEST_TIER_KM)
    \<and> (GRID_MIN_ZOOM \<le> z \<longleftrightarrow> MIN_HEX_PX \<le> drawnPx z)"
proof -
  have f: "FINEST_TIER_KM = 1 / 4" by (simp add: FINEST_TIER_KM_def HEX_TIERS_KM_def)
  have pos: "0 < resolutionForZoom (real y) None" for y :: nat
    unfolding resolution_at using base_bounds by (intro divide_pos_pos) auto
  have r13: "1 / 4 \<le> resolutionForZoom (real (13::nat)) None" and r14: "resolutionForZoom (real (14::nat)) None < 1 / 4"
    unfolding resolution_at using base_bounds by simp_all
  have p: "14 \<le> z \<longleftrightarrow> resolutionForZoom (real z) None < 1 / 4"
    using r13 r14 resolution_antimono [of z 13] resolution_antimono [of 14 z] by linarith
  have d: "drawnPx y = 3200 / resolutionForZoom (real y) None" for y :: nat
    by (simp add: drawnPx_def TARGET_HEX_PX_def COARSEST_TIER_KM_def HEX_TIERS_KM_def)
  have m: "drawnPx x \<le> drawnPx y" if "x \<le> y" for x y :: nat
    unfolding d using resolution_antimono [OF that] pos by (intro divide_left_mono) (auto intro: mult_pos_pos)
  have d3: "drawnPx 3 < 8" unfolding d using pos [of 3] base_bounds unfolding resolution_at by (simp add: divide_less_eq)
  have d4: "8 \<le> drawnPx 4" unfolding d using pos [of 4] base_bounds unfolding resolution_at by (simp add: le_divide_eq)
  have g: "4 \<le> z \<longleftrightarrow> 8 \<le> drawnPx z"
    using d3 d4 m [of z 3] m [of 4 z] by linarith
  from p g show ?thesis by (simp add: point_tier_zoom grid_zoom f MIN_HEX_PX_def)
qed

text \<open>The bounding box a request carries is the viewport snapped outward: it covers every legal
  position on screen, its edges lie on the quarter-degree grid the server caches by, and every
  viewport with the same snapped box asks for the same URL.\<close>

theorem bbox_snapped_outward:
  shows "(west b \<le> lon \<and> lon \<le> east b \<and> - 180 \<le> lon \<and> lon \<le> 180 \<longrightarrow>
        west (snapped b) \<le> lon \<and> lon \<le> east (snapped b))
    \<and> (south b \<le> lat \<and> lat \<le> north b \<and> - 90 \<le> lat \<and> lat \<le> 90 \<longrightarrow>
        south (snapped b) \<le> lat \<and> lat \<le> north (snapped b))
    \<and> on_grid (west (snapped b)) \<and> on_grid (south (snapped b)) \<and> on_grid (east (snapped b)) \<and> on_grid (north (snapped b))
    \<and> (snapped a = snapped b \<longrightarrow> hexesURL zoom (Some a) w = hexesURL zoom (Some b) w)"
proof -
  have "bboxParam z (Some a) = bboxParam z (Some b)" if "snapped a = snapped b" for z
    using that by (simp add: bboxParam_def)
  then have u: "snapped a = snapped b \<longrightarrow> hexesURL zoom (Some a) w = hexesURL zoom (Some b) w"
    by (simp add: hexesURL_def hex_query_def)
  have x: "west b \<le> lon \<and> lon \<le> east b \<and> - 180 \<le> lon \<and> lon \<le> 180 \<longrightarrow>
        west (snapped b) \<le> lon \<and> lon \<le> east (snapped b)"
    using quantise_floor(1) [of "west b"] quantise_ceiling(1) [of "east b"] by (auto simp: snapped_def)
  have y: "south b \<le> lat \<and> lat \<le> north b \<and> - 90 \<le> lat \<and> lat \<le> 90 \<longrightarrow>
        south (snapped b) \<le> lat \<and> lat \<le> north (snapped b)"
    using quantise_floor(1) [of "south b"] quantise_ceiling(1) [of "north b"] by (auto simp: snapped_def)
  from u x y snapped_grid [of b] show ?thesis by blast
qed

definition sofia_view :: bounds where
  "sofia_view = \<lparr>west = 2321 / 100, south = 4261 / 100, east = 2349 / 100, north = 4277 / 100\<rparr>"

theorem bbox_snapped_outward_witness:
  "west (snapped sofia_view) \<le> 2333 / 100 \<and> 2333 / 100 \<le> east (snapped sofia_view)
    \<and> hexesURL 12 (Some sofia_view) None = hexesURL 12 (Some (snapped sofia_view)) None"
  using bbox_snapped_outward [where b = sofia_view and lon = "2333 / 100" and lat = 0 and a = "snapped sofia_view" and zoom = 12 and w = None]
  by (auto simp: sofia_view_def snapped_idem [unfolded sofia_view_def])

text \<open>The registry of single devices is only ever asked for inside a box: on the zooms the map
  offers, the resolution of the request is 0 exactly when the zoom has reached the point tier
  and a usable box is sent with it.\<close>

theorem devices_only_inside_a_box:
  assumes "0 \<le> math_round zoom" "math_round zoom \<le> 22"
    and "params = params_parse (drop (length ''/api/v1/hexes?'') (hexesURL zoom bnds w))"
  shows "(params_get params ''resolution_km'' = Some ''0'' \<longleftrightarrow> 14 \<le> math_round zoom \<and> bboxParam (math_round zoom) bnds \<noteq> [])
    \<and> params_get params ''bbox'' = (if bboxParam (math_round zoom) bnds = [] then None else Some (bboxParam (math_round zoom) bnds))"
proof -
  have p: "params = hex_query zoom bnds w" using assms(3) by (simp add: hexesURL_def)
  obtain z :: nat where z: "math_round zoom = int z" "z \<le> 22" using assms(1,2) by (metis nat_0_le nat_le_iff zero_le_numeral of_nat_numeral)
  let ?res = "resolutionForZoom (of_int (math_round zoom)) w"
  have t: "16 \<le> targetHexPx w" by (simp add: targetHexPx_def TARGET_HEX_PX_def split: option.splits)
  have "?res = (targetHexPx w * (M_PER_PX_Z0 / 1000)) / 2 ^ z"
    unfolding z by (simp add: resolutionForZoom_def powr_realpow)
  also have "\<dots> \<ge> (16 * (M_PER_PX_Z0 / 1000)) / 2 ^ 22"
    using t base_bounds z(2) by (intro frac_le mult_right_mono power_increasing) auto
  finally have r: "1 / 10000 \<le> ?res" using base_bounds by simp
  have "1 \<le> math_round (?res * 10000)"
    using math_round_mono [of 1 "?res * 10000"] math_round_of_int [of 1] r by simp
  then have "round_places ?res 4 \<noteq> 0" by (simp add: round_places_def)
  then have ne: "num_str (round_places ?res 4) \<noteq> ''0''" using num_str_zero by blast
  show ?thesis
    unfolding p hex_query_def Let_def using ne
    by (auto simp: point_tier_zoom params_get_def POINT_RESOLUTION_KM_def)
qed

theorem devices_only_inside_a_box_witness:
  "params_get (params_parse (drop (length ''/api/v1/hexes?'') (hexesURL 16 None None))) ''resolution_km'' \<noteq> Some ''0''"
proof -
  have z: "math_round 16 = 16" using math_round_of_int [of 16] by simp
  have b: "bboxParam 16 None = []" by (simp add: bboxParam_def)
  show ?thesis using devices_only_inside_a_box [of 16 _ None None, OF _ _ refl] z b by simp
qed

text \<open>C19. Merging the devices of the point tier onto the lattice loses and invents nothing. The merged
  cells are one for each lattice cell and network a device stands on, at the centre of that
  cell; each counts exactly its own devices and shows, for every metric, the mean of the readings
  of its own devices, which lies within their range (no reading when none of them has one); and
  the counts add up to the same total.\<close>

theorem lattice_merge_conserves:
  "(\<exists>ks. distinct ks \<and> set ks = lattice_key drawKM ` set hs
       \<and> map (\<lambda>c. (h_lon c, h_lat c, h_source c, count_of (h_n c), value_of (h_values c) m)) (snapToLattice hs drawKM)
          = map (\<lambda>k. (lattice_lon drawKM (fst k), lattice_lat drawKM (fst k), Some (snd k),
              sum_list (map (count_of \<circ> h_n) (devices_on drawKM k hs)), mean_of (readings_of m (devices_on drawKM k hs)))) ks)
    \<and> (\<forall>k x lo hi. mean_of (readings_of m (devices_on drawKM k hs)) = jreal x
         \<and> (\<forall>r \<in> set (readings_of m (devices_on drawKM k hs)). lo \<le> r \<and> r \<le> hi) \<longrightarrow> lo \<le> x \<and> x \<le> hi)
    \<and> sum_list (map (count_of \<circ> h_n) (snapToLattice hs drawKM)) = sum_list (map (count_of \<circ> h_n) hs)"
proof (intro conjI)
  let ?cells = "foldl (add_device drawKM) [] hs"
  note inv = lattice_inv_run [of drawKM hs, unfolded lattice_inv_def]
  have "map (count_of \<circ> h_n) (snapToLattice hs drawKM) = map (l_n \<circ> snd) ?cells"
    by (simp add: snapToLattice_def lattice_cell_def count_of_def case_prod_unfold)
  then show "sum_list (map (count_of \<circ> h_n) (snapToLattice hs drawKM)) = sum_list (map (count_of \<circ> h_n) hs)" using inv by simp
  show "\<forall>k x lo hi. mean_of (readings_of m (devices_on drawKM k hs)) = jreal x
         \<and> (\<forall>r \<in> set (readings_of m (devices_on drawKM k hs)). lo \<le> r \<and> r \<le> hi) \<longrightarrow> lo \<le> x \<and> x \<le> hi"
  proof (intro allI impI, elim conjE)
    fix k x lo hi assume x: "mean_of (readings_of m (devices_on drawKM k hs)) = jreal x"
      and r: "\<forall>r \<in> set (readings_of m (devices_on drawKM k hs)). lo \<le> r \<and> r \<le> hi"
    have "readings_of m (devices_on drawKM k hs) \<noteq> []" using x by (auto simp: mean_of_def)
    from mean_of_within [OF this r x] show "lo \<le> x \<and> x \<le> hi" .
  qed
  have "(h_lon c, h_lat c, h_source c, count_of (h_n c), value_of (h_values c) m)
      = (lattice_lon drawKM (fst k), lattice_lat drawKM (fst k), Some (snd k),
          sum_list (map (count_of \<circ> h_n) (devices_on drawKM k hs)), mean_of (readings_of m (devices_on drawKM k hs)))"
    if kl: "(k, l) \<in> set ?cells" and c: "c = lattice_cell drawKM (k, l)" for k l c
    using merged_cell [OF kl] unfolding c
    by (simp add: lattice_cell_def count_of_def value_of_def map_of_mean more_readings_def mean_of_def)
  then have "map (\<lambda>c. (h_lon c, h_lat c, h_source c, count_of (h_n c), value_of (h_values c) m)) (snapToLattice hs drawKM)
      = map (\<lambda>k. (lattice_lon drawKM (fst k), lattice_lat drawKM (fst k), Some (snd k),
          sum_list (map (count_of \<circ> h_n) (devices_on drawKM k hs)), mean_of (readings_of m (devices_on drawKM k hs)))) (map fst ?cells)"
    by (auto simp: snapToLattice_def)
  then show "\<exists>ks. distinct ks \<and> set ks = lattice_key drawKM ` set hs
       \<and> map (\<lambda>c. (h_lon c, h_lat c, h_source c, count_of (h_n c), value_of (h_values c) m)) (snapToLattice hs drawKM)
          = map (\<lambda>k. (lattice_lon drawKM (fst k), lattice_lat drawKM (fst k), Some (snd k),
              sum_list (map (count_of \<circ> h_n) (devices_on drawKM k hs)), mean_of (readings_of m (devices_on drawKM k hs)))) ks"
    using inv by (intro exI [of _ "map fst ?cells"]) simp
qed

definition device :: "real \<Rightarrow> cell" where
  "device v = \<lparr>h_lon = 23, h_lat = 42, h_values = [(''P1'', jreal v)], h_n = Some 1, h_by_source = None,
     h_source = None, h_sensor = Some 7, h_sensor_by_metric = [], h_carried = False\<rparr>"

theorem lattice_merge_conserves_witness:
  "(\<exists>c. snapToLattice [device 10, device 20] 1 = [c] \<and> count_of (h_n c) = 2 \<and> value_of (h_values c) ''P1'' = jreal 15)"
proof -
  let ?hs = "[device 10, device 20]"
  have k: "lattice_key 1 ` set ?hs = {lattice_key 1 (device 0)}" by (simp add: device_def lattice_key_def)
  have d: "devices_on 1 (lattice_key 1 (device 0)) ?hs = ?hs" by (simp add: devices_on_def device_def lattice_key_def)
  have m: "mean_of (readings_of ''P1'' ?hs) = jreal 15" by (simp add: mean_of_def readings_of_def device_def List.map_filter_simps)
  have n: "sum_list (map (count_of \<circ> h_n) ?hs) = 2" by (simp add: device_def count_of_def)
  obtain ks where ks: "distinct ks" "set ks = {lattice_key 1 (device 0)}"
    "map (\<lambda>c. (h_lon c, h_lat c, h_source c, count_of (h_n c), value_of (h_values c) ''P1'')) (snapToLattice ?hs 1)
      = map (\<lambda>k. (lattice_lon 1 (fst k), lattice_lat 1 (fst k), Some (snd k),
          sum_list (map (count_of \<circ> h_n) (devices_on 1 k ?hs)), mean_of (readings_of ''P1'' (devices_on 1 k ?hs)))) ks"
    using lattice_merge_conserves [of 1 ?hs "''P1''"] unfolding k by blast
  have "ks = [lattice_key 1 (device 0)]"
    using ks(1,2) by (cases ks; cases "tl ks") auto
  with ks(3) n show ?thesis by (auto simp: d m map_eq_Cons_conv)
qed

text \<open>C20. The lattice tiles: the centre of a lattice cell is snapped to that very cell, and the
  hexagon drawn there is closed and shares its eastern edge with its neighbour's western one.\<close>

theorem lattice_cells_tile:
  assumes "0 < resKM"
  defines "hex \<equiv> \<lambda>qr. hexPolygon (lattice_lon resKM qr) (lattice_lat resKM qr) resKM"
  shows "latticeCell (lattice_lon resKM qr) (lattice_lat resKM qr) resKM = qr
    \<and> length (hex qr) = 7 \<and> hex qr ! 6 = hex qr ! 0
    \<and> hex (q, r) ! 0 = hex (q + 1, r) ! 2 \<and> hex (q, r) ! 5 = hex (q + 1, r) ! 3"
proof -
  have closed: "length (hex qr) = 7 \<and> hex qr ! 6 = hex qr ! 0"
    by (simp add: hex_def hexPolygon_def Let_def nth_append del: upt_Suc upt.simps)
  have e: "degrees (resKM / sqrt 3 * (sqrt 3 / 2) / LON_KM) = degrees (resKM / LON_KM) + degrees (resKM / sqrt 3 * (- sqrt 3 / 2) / LON_KM)"
    by (simp add: degrees_def add_divide_distrib [symmetric] diff_divide_distrib [symmetric])
  have lat: "lattice_lat resKM (q + 1, r) = lattice_lat resKM (q, r)" by (simp add: lattice_lat_def)
  have "hex (q, r) ! 0 = hex (q + 1, r) ! 2" "hex (q, r) ! 5 = hex (q + 1, r) ! 3"
    unfolding hex_def lat east_neighbour using e
    by (simp_all add: hexPolygon_nth hex_corner_def Let_def corner_angles)
  with closed lattice_centre [OF assms(1)] show ?thesis by blast
qed

theorem lattice_cells_tile_witness:
  "latticeCell (lattice_lon 2 (3, 5)) (lattice_lat 2 (3, 5)) 2 = (3, 5)"
  using lattice_cells_tile [of 2 "(3, 5)"] by simp

text \<open>With only some of a cell's networks switched on, the numbers drawn come from those alone:
  the cell disappears exactly when none of them is on, its count is the sum of theirs, and its
  reading lies within the range of theirs.\<close>

theorem network_blend_within_enabled:
  assumes "h_by_source h = Some parts" "on \<noteq> []" "\<not> list_all (\<lambda>(src, _). src \<in> set on) parts"
    and "on_parts = map snd (filter (\<lambda>(src, _). src \<in> set on) parts)"
    and "\<forall>p \<in> set on_parts. 0 \<le> count_of (p_n p) \<and> distinct (map fst (p_values p)) \<and> values_within m lo hi (p_values p)"
  shows "case pick (Some on) h of
      None \<Rightarrow> on_parts = []
    | Some p \<Rightarrow> on_parts \<noteq> [] \<and> count_of (p_n p) = sum_list (map (\<lambda>p. count_of (p_n p)) on_parts)
        \<and> (\<forall>x. value_of (p_values p) m = jreal x \<longrightarrow> lo \<le> x \<and> x \<le> hi)"
proof -
  have pk: "pick (Some on) h = combine on_parts" using assms(1-4) by (simp add: pick_def)
  consider "on_parts = []" | p where "on_parts = [p]" | "2 \<le> length on_parts"
    by (cases on_parts; cases "tl on_parts") auto
  then show ?thesis
  proof cases
    case 1
    then show ?thesis by (simp add: pk combine_def)
  next
    case 2
    have "lo \<le> x \<and> x \<le> hi" if v: "value_of (p_values p) m = jreal x" for x
    proof -
      from v have "map_of (p_values p) m = Some (jreal x)"
        by (auto simp: value_of_def or_else_def split: option.splits if_splits)
      then have "(m, jreal x) \<in> set (p_values p)" by (rule map_of_SomeD)
      moreover have "values_within m lo hi (p_values p)" using assms(5) 2 by simp
      ultimately show ?thesis unfolding values_within_def by (metis finite_num.simps(1))
    qed
    then show ?thesis by (simp add: pk combine_def 2)
  next
    case 3
    have w: "sums_within m lo hi (sum_parts on_parts)" using assms(5) by (intro sum_parts_within) blast
    have "lo \<le> x \<and> x \<le> hi"
      if v: "value_of (mean_values (filter (\<lambda>(_, _, w). 0 < w) (sum_parts on_parts))) m = jreal x" for x
    proof -
      obtain tot wt where t: "map_of (sum_parts on_parts) m = Some (tot, wt)" "0 < wt" "x = tot / wt"
        using v w by (auto simp: value_of_def map_of_mean map_of_filter_distinct sums_within_def split: option.splits if_splits)
      then show ?thesis using w mean_within [of wt lo tot hi] by (auto simp: sums_within_def)
    qed
    then show ?thesis using 3 by (auto simp: pk combine_many count_of_def)
  qed
qed

definition two_networks :: cell where
  "two_networks = (device 0)\<lparr>h_by_source := Some [(CITIZEN_SOURCE, \<lparr>p_values = [(''P1'', jreal 10)], p_n = Some 3\<rparr>),
     (OFFICIAL_SOURCE, \<lparr>p_values = [(''P1'', jreal 30)], p_n = Some 1\<rparr>)]\<rparr>"

theorem network_blend_within_enabled_witness:
  "case pick (Some [OFFICIAL_SOURCE]) two_networks of None \<Rightarrow> False
    | Some p \<Rightarrow> count_of (p_n p) = 1 \<and> (\<forall>x. value_of (p_values p) ''P1'' = jreal x \<longrightarrow> 30 \<le> x)"
proof -
  let ?on = "[OFFICIAL_SOURCE]"
  let ?citizen = "\<lparr>p_values = [(''P1'', jreal 10)], p_n = Some 3\<rparr>"
  let ?official = "\<lparr>p_values = [(''P1'', jreal 30)], p_n = Some 1\<rparr>"
  have p: "h_by_source two_networks = Some [(CITIZEN_SOURCE, ?citizen), (OFFICIAL_SOURCE, ?official)]"
    by (simp add: two_networks_def)
  have n: "\<not> list_all (\<lambda>(src, _). src \<in> set ?on) [(CITIZEN_SOURCE, ?citizen), (OFFICIAL_SOURCE, ?official)]" by simp
  have o: "[?official] = map snd (filter (\<lambda>(src, _). src \<in> set ?on) [(CITIZEN_SOURCE, ?citizen), (OFFICIAL_SOURCE, ?official)])"
    by simp
  have one: "count_of (Some 1) = 1" by (simp add: count_of_def)
  show ?thesis
    using network_blend_within_enabled [OF p _ n o, of "''P1''" 30 30] one
    by (auto simp: values_within_def split: option.splits)
qed

text \<open>\<open>hexFeatures\<close> draws every cell that passes the filter exactly once, the cells without a
  reading before all the others so that none of them covers a reading, an aggregate cell at the
  size the server binned it to, and nothing at all when every network is off.\<close>

theorem hex_features_cover_cells:
  assumes "resolution_km body = jreal r" "0 \<le> r"
    and "fs = hexFeatures (Some body) metric bands nd colourOf pr enabled"
    and "cells = drawn_cells (hexes body) (r = 0) (if r = 0 then pr else r) enabled"
  shows "mset (map (\<lambda>f. (x_id f, f_value f, x_n f)) fs)
      = mset (map (\<lambda>h. (hexFeatureId (h_lon h) (h_lat h), value_of (h_values h) metric, h_n h)) cells)
    \<and> (\<exists>k. (\<forall>f \<in> set (take k fs). f_value f = JNull) \<and> (\<forall>f \<in> set (drop k fs). f_value f \<noteq> JNull))
    \<and> (0 < r \<longrightarrow> (\<forall>f \<in> set fs. \<exists>lon lat. x_geometry f = Polygon (hexPolygon lon lat r)))
    \<and> (enabled = Some [] \<longrightarrow> fs = [])"
proof -
  let ?f = "to_feature metric bands nd colourOf (r = 0) (if r = 0 then pr else r)"
  let ?null = "\<lambda>h. value_of (h_values h) metric = JNull"
  have fs: "fs = map ?f (filter ?null cells) @ map ?f (filter (\<lambda>h. \<not> ?null h) cells)"
    using assms by (simp add: hexFeatures_def nodata_first_def POINT_RESOLUTION_KM_def Let_def)
  let ?g = "\<lambda>h. (hexFeatureId (h_lon h) (h_lat h), value_of (h_values h) metric, h_n h)"
  have a: "map (\<lambda>f. (x_id f, f_value f, x_n f)) fs = map ?g (filter ?null cells @ filter (\<lambda>h. \<not> ?null h) cells)"
    by (simp add: fs to_feature_def Let_def)
  have b: "mset (filter ?null cells @ filter (\<lambda>h. \<not> ?null h) cells) = mset cells"
    using multiset_partition [of "mset cells" ?null] by simp
  have m: "mset (map (\<lambda>f. (x_id f, f_value f, x_n f)) fs) = mset (map ?g cells)"
    unfolding a mset_map b by (rule refl)
  have k: "(\<forall>f \<in> set (take (length (filter ?null cells)) fs). f_value f = JNull)
      \<and> (\<forall>f \<in> set (drop (length (filter ?null cells)) fs). f_value f \<noteq> JNull)"
    by (auto simp: fs to_feature_def Let_def)
  have g: "\<exists>lon lat. x_geometry f = Polygon (hexPolygon lon lat r)" if r: "0 < r" and f: "f \<in> set fs" for f
  proof -
    from f obtain h where "f = ?f h" unfolding fs by auto
    with r have "x_geometry f = Polygon (hexPolygon (h_lon h) (h_lat h) r)"
      by (simp add: to_feature_def Let_def ringFor_def)
    then show ?thesis by blast
  qed
  have "cells = []" if "enabled = Some []"
    using that assms(4) by (simp add: drawn_cells_def picked_def pick_def List.map_filter_def snapToLattice_def Let_def)
  then have e: "enabled = Some [] \<longrightarrow> fs = []" by (simp add: fs)
  show ?thesis using m k g e by (intro conjI) blast+
qed

theorem hex_features_cover_cells_witness:
  "\<exists>k. \<forall>f \<in> set (drop k (hexFeatures (Some \<lparr>resolution_km = jreal 5, hexes = [device 10]\<rparr>) ''P1'' pm_bands None rampColour 0 None)).
      f_value f \<noteq> JNull"
  using hex_features_cover_cells [of "\<lparr>resolution_km = jreal 5, hexes = [device 10]\<rparr>" 5, OF _ _ refl refl,
      of "''P1''" pm_bands None rampColour 0 None] by auto

end
