(* ===== verification/Timelapse.thy ===== *)
theory Timelapse
  imports Url_Params Hexes
begin

text \<open>
  The frames of the timelapse and the cursor over them, \<open>web/src/lib/timelapse.js\<close>: the
  published spans and speeds, the request URL, the pairing of a frame with the cell list,
  \<open>fillForward\<close>, which holds a silent cell at its last reading, and the frames captioned as
  thin. The player's DOM (\<open>mountPlayer\<close>) and the clock label are not modelled.
\<close>

section \<open>Spans and speeds\<close>

definition SPANS :: "string list" where
  "SPANS = [''24h'', ''48h'', ''7d'']"

definition FRAME_MS :: real where
  "FRAME_MS = 320"

definition SPEEDS :: "real list" where
  "SPEEDS = [1, 1 / 2, 1 / 4]"

definition DEFAULT_SPEED :: real where
  "DEFAULT_SPEED = hd SPEEDS"

fun index_of :: "'a \<Rightarrow> 'a list \<Rightarrow> int" where
  "index_of x [] = -1"
| "index_of x (y # ys) = (if x = y then 0 else (let i = index_of x ys in if i = -1 then -1 else i + 1))"

definition nextSpeed :: "real \<Rightarrow> real" where
  "nextSpeed speed = SPEEDS ! nat ((index_of speed SPEEDS + 1) mod int (length SPEEDS))"

definition frameDelay :: "real \<Rightarrow> real" where
  "frameDelay speed = (if speed \<in> set SPEEDS then FRAME_MS / speed else FRAME_MS)"

definition knownSpan :: "string \<Rightarrow> bool" where
  "knownSpan name \<longleftrightarrow> name \<in> set SPANS"

definition spanFor :: "string \<Rightarrow> string" where
  "spanFor window = (if knownSpan window then window else hd SPANS)"

definition timelapse_query :: "string \<Rightarrow> string \<Rightarrow> jsval \<Rightarrow> url_params" where
  "timelapse_query metric spn resolutionKm = (let params = [(''metric'', metric), (''span'', spanFor spn)] in
     case finite_num resolutionKm of
       Some r \<Rightarrow> params_set params ''resolution_km'' (num_str (round_places r 4))
     | None \<Rightarrow> params)"

definition timelapseURL :: "string \<Rightarrow> string \<Rightarrow> jsval \<Rightarrow> string" where
  "timelapseURL metric spn resolutionKm = ''/api/v1/timelapse?'' @ params_string (timelapse_query metric spn resolutionKm)"

section \<open>Frames\<close>

text \<open>A frame lists one value per cell, a number or null; \<open>c\<close> marks the held ones.\<close>

record frame =
  fr_v :: "jsval list"
  fr_c :: "bool list"

record tl_body =
  t_metric :: string
  t_resolution :: jsval
  t_cells :: "(real \<times> real) list"
  t_frames :: "frame list"

definition nth_or :: "'a \<Rightarrow> 'a list \<Rightarrow> nat \<Rightarrow> 'a" where
  "nth_or d xs i = (if i < length xs then xs ! i else d)"

definition frame_cell :: "tl_body \<Rightarrow> frame \<Rightarrow> nat \<Rightarrow> cell" where
  "frame_cell body frame j = \<lparr>h_lon = fst (t_cells body ! j), h_lat = snd (t_cells body ! j),
     h_values = [(t_metric body, or_else (nth_or JUndef (fr_v frame) j) JNull)],
     h_n = None, h_by_source = None, h_source = None, h_sensor = None, h_sensor_by_metric = [],
     h_carried = nth_or False (fr_c frame) j\<rparr>"

definition frameBody :: "tl_body option \<Rightarrow> nat \<Rightarrow> hex_body" where
  "frameBody body i = (case body of
      None \<Rightarrow> \<lparr>resolution_km = JUndef, hexes = []\<rparr>
    | Some b \<Rightarrow> \<lparr>resolution_km = t_resolution b,
        hexes = (if i < length (t_frames b) then map (frame_cell b (t_frames b ! i)) [0..<length (t_cells b)] else [])\<rparr>)"

definition frameCount :: "tl_body option \<Rightarrow> nat" where
  "frameCount body = (case body of None \<Rightarrow> 0 | Some b \<Rightarrow> length (t_frames b))"

section \<open>The playhead\<close>

record playhead =
  head_i :: nat
  head_count :: nat
  head_playing :: bool

definition cursor :: "nat \<Rightarrow> playhead" where
  "cursor n = \<lparr>head_i = 0, head_count = n, head_playing = False\<rparr>"

definition step :: "playhead \<Rightarrow> nat \<times> playhead" where
  "step c = (if head_count c = 0 then (0, c)
     else let i = (head_i c + 1) mod head_count c in (i, c\<lparr>head_i := i\<rparr>))"

text \<open>\<open>Math.trunc(i) || 0\<close>, clamped to the frames there are.\<close>

definition clamp_index :: "nat \<Rightarrow> jsnum \<Rightarrow> nat" where
  "clamp_index n i = (case i of
      Fin x \<Rightarrow> min (nat (max 0 (math_trunc x))) (n - 1)
    | PInf \<Rightarrow> n - 1 | NInf \<Rightarrow> 0 | NaN \<Rightarrow> 0)"

definition seek :: "playhead \<Rightarrow> jsnum \<Rightarrow> nat \<times> playhead" where
  "seek c i = (if head_count c = 0 then (0, c)
     else let j = clamp_index (head_count c) i in (j, c\<lparr>head_i := j\<rparr>))"

section \<open>Holding the last reading\<close>

text \<open>\<open>last\<close> is the sparse array of the source; an index never written reads \<open>undefined\<close>.\<close>

fun fill_values :: "nat \<Rightarrow> jsval list \<Rightarrow> (nat \<Rightarrow> jsval) \<Rightarrow> (jsval \<times> bool) list \<times> (nat \<Rightarrow> jsval)" where
  "fill_values j [] held = ([], held)"
| "fill_values j (value # vs) held =
     (let gap = nullish value;
          held' = (if gap then held else held(j := value));
          carried = (gap \<and> held' j \<noteq> JUndef);
          out = (if carried then held' j else if gap then JNull else value);
          (rest, lst) = fill_values (Suc j) vs held'
      in ((out, carried) # rest, lst))"

fun fill_frames :: "frame list \<Rightarrow> (nat \<Rightarrow> jsval) \<Rightarrow> frame list" where
  "fill_frames [] held = []"
| "fill_frames (f # fs) held = (case fill_values 0 (fr_v f) held of
     (vc, lst) \<Rightarrow> f\<lparr>fr_v := map fst vc, fr_c := map snd vc\<rparr> # fill_frames fs lst)"

definition fillForward :: "tl_body \<Rightarrow> tl_body" where
  "fillForward body = body\<lparr>t_frames := fill_frames (t_frames body) (\<lambda>_. JUndef)\<rparr>"

section \<open>Coverage\<close>

definition THIN_COVERAGE :: real where
  "THIN_COVERAGE = 1 / 4"

definition coverage :: "frame \<Rightarrow> nat" where
  "coverage f = foldl (\<lambda>n v. n + (if nullish v then 0 else 1)) 0 (fr_v f)"

definition frameCoverage :: "tl_body \<Rightarrow> nat list" where
  "frameCoverage body = map coverage (t_frames body)"

definition hasHistory :: "tl_body \<Rightarrow> bool" where
  "hasHistory body = list_ex (\<lambda>n. 0 < n) (frameCoverage body)"

definition thinFrames :: "tl_body \<Rightarrow> nat list" where
  "thinFrames body = (let cov = frameCoverage body; flr = real (foldl max 0 cov) * THIN_COVERAGE
     in filter (\<lambda>i. real (cov ! i) < flr) [0..<length cov])"

section \<open>Lemmas\<close>

lemma fill_values_Cons:
  "fst (fill_values j (v # vs) held) =
     (if \<not> nullish v then (v, False) else if held j \<noteq> JUndef then (held j, True) else (JNull, False))
       # fst (fill_values (Suc j) vs (if nullish v then held else held(j := v)))"
  "snd (fill_values j (v # vs) held) = snd (fill_values (Suc j) vs (if nullish v then held else held(j := v)))"
  by (simp_all add: Let_def case_prod_unfold)

lemma fill_values_length: "length (fst (fill_values j vs held)) = length vs"
  by (induction vs arbitrary: j held) (simp_all add: fill_values_Cons del: fill_values.simps(2))

lemma fill_values_held:
  "snd (fill_values j vs held) i = (if j \<le> i \<and> i - j < length vs \<and> \<not> nullish (vs ! (i - j)) then vs ! (i - j) else held i)"
proof (induction vs arbitrary: j held)
  case (Cons v vs)
  consider "i < j" | "i = j" | "j < i" by linarith
  then show ?case
  proof cases
    case 2
    then show ?thesis using Cons.IH [of "Suc j" "if nullish v then held else held(j := v)"]
      by (simp add: fill_values_Cons del: fill_values.simps(2))
  next
    case 3
    then have "i - j = Suc (i - Suc j)" by simp
    with 3 show ?thesis by (simp add: fill_values_Cons Cons.IH del: fill_values.simps(2))
  qed (simp add: fill_values_Cons Cons.IH del: fill_values.simps(2))
qed simp

lemma fill_values_nth:
  "i < length vs \<Longrightarrow> fst (fill_values j vs held) ! i =
     (let v = vs ! i in if \<not> nullish v then (v, False)
      else if held (j + i) \<noteq> JUndef then (held (j + i), True) else (JNull, False))"
proof (induction vs arbitrary: j held i)
  case (Cons v vs)
  show ?case
  proof (cases i)
    case 0
    then show ?thesis by (simp add: Let_def fill_values_Cons del: fill_values.simps(2))
  next
    case (Suc k)
    then have "k < length vs" using Cons.prems by simp
    note ih = Cons.IH [OF this, of "Suc j" "if nullish v then held else held(j := v)"]
    show ?thesis unfolding fill_values_Cons(1) Suc nth_Cons_Suc ih by (simp add: Let_def)
  qed
qed simp

text \<open>The reading of cell \<open>j\<close> in a frame, and the last one taken up to frame \<open>k\<close>.\<close>

definition reading :: "frame \<Rightarrow> nat \<Rightarrow> jsval" where
  "reading f j = nth_or JUndef (fr_v f) j"

definition latest :: "jsval \<Rightarrow> frame list \<Rightarrow> nat \<Rightarrow> nat \<Rightarrow> jsval" where
  "latest d fs k j = last (d # filter (\<lambda>v. \<not> nullish v) (map (\<lambda>f. reading f j) (take (Suc k) fs)))"

lemma fill_frames_length [simp]: "length (fill_frames fs held) = length fs"
  by (induction fs arbitrary: held) (auto split: prod.splits)

lemma fill_frames_nth:
  assumes "k < length fs" "j < length (fr_v (fs ! k))" "\<And>i. nullish (held i) \<Longrightarrow> held i = JUndef"
  shows "length (fr_v (fill_frames fs held ! k)) = length (fr_v (fs ! k))
    \<and> fr_v (fill_frames fs held ! k) ! j = or_else (latest (held j) fs k j) JNull
    \<and> fr_c (fill_frames fs held ! k) ! j = (nullish (reading (fs ! k) j) \<and> latest (held j) fs k j \<noteq> JUndef)"
  using assms
proof (induction fs arbitrary: k held)
  case (Cons f fs)
  obtain vc l where vc: "fill_values 0 (fr_v f) held = (vc, l)" by fastforce
  have l: "l i = (if nullish (reading f i) then held i else reading f i)" for i
    using fill_values_held [of 0 "fr_v f" held i] by (simp add: vc reading_def nth_or_def)
  show ?case
  proof (cases k)
    case 0
    have len: "length vc = length (fr_v f)" using fill_values_length [of 0 "fr_v f" held] by (simp add: vc)
    have j: "j < length (fr_v f)" using Cons.prems(2) 0 by simp
    note n = fill_values_nth [OF j, of 0 held, unfolded vc fst_conv]
    have "latest (held j) (f # fs) 0 j = (if nullish (fr_v f ! j) then held j else fr_v f ! j)"
      using j by (simp add: latest_def reading_def nth_or_def)
    then show ?thesis
      using n j len Cons.prems(3) [of j] by (auto simp: 0 vc Let_def reading_def nth_or_def or_else_def)
  next
    case (Suc k')
    have e: "latest (held j) (f # fs) (Suc k') j = latest (l j) fs k' j"
      by (simp add: latest_def l)
    have "\<And>i. nullish (l i) \<Longrightarrow> l i = JUndef" using Cons.prems(3) by (auto simp: l split: if_splits)
    then show ?thesis using Cons.IH [of k' l] Cons.prems Suc e by (simp add: vc)
  qed
qed simp

lemma coverage_eq: "coverage f = length (filter (\<lambda>v. \<not> nullish v) (fr_v f))"
proof -
  have "foldl (\<lambda>n v. n + (if nullish v then 0 else 1)) n vs = n + length (filter (\<lambda>v. \<not> nullish v) vs)" for n vs
    by (induction vs arbitrary: n) simp_all
  then show ?thesis by (simp add: coverage_def)
qed

lemma foldl_max: "foldl max a xs = (Max (insert a (set xs)) :: nat)"
proof (induction xs arbitrary: a)
  case (Cons x xs)
  have "foldl max a (x # xs) = Max (insert (max a x) (set xs))" using Cons by simp
  also have "\<dots> = Max (insert a (insert x (set xs)))"
    by (cases "xs = []") (simp_all add: max.assoc)
  finally show ?case by simp
qed simp

lemma step_wraps:
  assumes "head_i c < head_count c"
  shows "head_i (((\<lambda>c. snd (step c)) ^^ n) c) = (head_i c + n) mod head_count c
    \<and> head_count (((\<lambda>c. snd (step c)) ^^ n) c) = head_count c"
proof (induction n)
  case (Suc n)
  then show ?case using assms by (simp add: step_def Let_def mod_Suc_eq)
qed (use assms in simp)

lemma clamp_index_lt: "0 < n \<Longrightarrow> clamp_index n i < n"
  by (auto simp: clamp_index_def split: jsnum.splits)

section \<open>Properties\<close>

text \<open>C40. \<open>fillForward\<close> shows, for every hour and cell, the last reading taken up to that hour: a
  measured value is never changed, a gap after the first reading holds the last one and is
  flagged as carried, and an hour before the first reading stays without data.\<close>

theorem fill_forward_holds_last_reading:
  assumes "k < length (t_frames body)" "j < length (fr_v (t_frames body ! k))"
  defines "f' \<equiv> t_frames (fillForward body) ! k" and "v \<equiv> fr_v (t_frames body ! k) ! j"
  shows "fr_v f' ! j = or_else (latest JUndef (t_frames body) k j) JNull
    \<and> (\<not> nullish v \<longrightarrow> fr_v f' ! j = v \<and> \<not> fr_c f' ! j)
    \<and> (nullish v \<longrightarrow> fr_c f' ! j = (\<exists>i \<le> k. \<not> nullish (reading (t_frames body ! i) j)))"
proof -
  let ?fs = "t_frames body"
  have f: "fr_v f' ! j = or_else (latest JUndef ?fs k j) JNull"
    "fr_c f' ! j = (nullish (reading (?fs ! k) j) \<and> latest JUndef ?fs k j \<noteq> JUndef)"
    using fill_frames_nth [OF assms(1,2), of "\<lambda>_. JUndef"] by (simp_all add: f'_def fillForward_def)
  have r: "reading (?fs ! k) j = v" using assms(2) by (simp add: reading_def nth_or_def v_def)
  have taken: "take (Suc k) ?fs = take k ?fs @ [?fs ! k]" using assms(1) by (rule take_Suc_conv_app_nth)
  have now: "latest JUndef ?fs k j = v" if "\<not> nullish v"
    using that r by (simp add: latest_def taken)
  let ?rs = "filter (\<lambda>v. \<not> nullish v) (map (\<lambda>f. reading f j) (take (Suc k) ?fs))"
  have "latest JUndef ?fs k j \<noteq> JUndef \<longleftrightarrow> ?rs \<noteq> []"
    using last_in_set [of ?rs] by (auto simp: latest_def)
  also have "\<dots> \<longleftrightarrow> (\<exists>i \<le> k. \<not> nullish (reading (?fs ! i) j))"
  proof -
    have "?rs \<noteq> [] \<longleftrightarrow> (\<exists>f \<in> set (take (Suc k) ?fs). \<not> nullish (reading f j))" by (auto simp: filter_empty_conv)
    also have "\<dots> \<longleftrightarrow> (\<exists>i < Suc k. \<not> nullish (reading (?fs ! i) j))"
    proof -
      have "set (take (Suc k) ?fs) = (\<lambda>i. ?fs ! i) ` {..<Suc k}"
        using assms(1) by (simp add: nth_image [symmetric] lessThan_atLeast0)
      then show ?thesis by auto
    qed
    finally show ?thesis by (simp add: less_Suc_eq_le)
  qed
  finally show ?thesis using f r now by auto
qed

theorem fill_forward_holds_last_reading_witness:
  "let f = t_frames (fillForward \<lparr>t_metric = ''P1'', t_resolution = jreal 5, t_cells = [(23, 42)],
       t_frames = [\<lparr>fr_v = [jreal 9], fr_c = []\<rparr>, \<lparr>fr_v = [JNull], fr_c = []\<rparr>]\<rparr>) ! 1
   in fr_v f ! 0 = jreal 9 \<and> fr_c f ! 0"
proof -
  let ?b = "\<lparr>t_metric = ''P1'', t_resolution = jreal 5, t_cells = [(23, 42)],
       t_frames = [\<lparr>fr_v = [jreal 9], fr_c = []\<rparr>, \<lparr>fr_v = [JNull], fr_c = []\<rparr>]\<rparr>"
  have "\<exists>i \<le> 1. \<not> nullish (reading (t_frames ?b ! i) 0)"
    by (rule exI [of _ 0]) (simp add: reading_def nth_or_def)
  then show ?thesis
    using fill_forward_holds_last_reading [of 1 ?b 0]
    by (simp add: latest_def reading_def nth_or_def or_else_def)
qed

definition best_hour :: "tl_body \<Rightarrow> nat" where
  "best_hour body = Max (insert 0 (set (frameCoverage body)))"

text \<open>A frame is captioned as thin exactly when it carries less than a quarter of the readings
  of the body's best hour; the best hour itself never is, and a body with no history, which is
  not animated, has no thin hour.\<close>

theorem thin_frames_below_a_quarter:
  "(i \<in> set (thinFrames body) \<longleftrightarrow> i < length (t_frames body)
      \<and> 4 * length (filter (\<lambda>v. \<not> nullish v) (fr_v (t_frames body ! i))) < best_hour body)
   \<and> (t_frames body \<noteq> [] \<longrightarrow> (\<exists>b < length (t_frames body). coverage (t_frames body ! b) = best_hour body \<and> b \<notin> set (thinFrames body)))
   \<and> (hasHistory body \<longleftrightarrow> 0 < best_hour body) \<and> (\<not> hasHistory body \<longrightarrow> thinFrames body = [])"
proof -
  let ?cov = "frameCoverage body"
  have thin: "k \<in> set (thinFrames body) \<longleftrightarrow> k < length (t_frames body) \<and> 4 * coverage (t_frames body ! k) < best_hour body" for k
    by (auto simp: thinFrames_def Let_def foldl_max best_hour_def THIN_COVERAGE_def frameCoverage_def)
  have best: "\<exists>b < length (t_frames body). coverage (t_frames body ! b) = best_hour body" if ne: "t_frames body \<noteq> []"
  proof -
    from ne have "best_hour body = Max (set ?cov)" by (simp add: best_hour_def frameCoverage_def)
    moreover have "Max (set ?cov) \<in> set ?cov" using ne by (intro Max_in) (simp_all add: frameCoverage_def)
    ultimately show ?thesis by (auto simp: frameCoverage_def in_set_conv_nth)
  qed
  have hist: "hasHistory body \<longleftrightarrow> 0 < best_hour body"
    by (auto simp: hasHistory_def list_ex_iff best_hour_def Max_gr_iff)
  have none: "thinFrames body = []" if "\<not> hasHistory body"
    using that thin hist by (metis last_in_set less_zeroE neq0_conv)
  have best': "\<exists>b < length (t_frames body). coverage (t_frames body ! b) = best_hour body \<and> b \<notin> set (thinFrames body)"
    if "t_frames body \<noteq> []"
  proof -
    from best [OF that] obtain b where "b < length (t_frames body)" "coverage (t_frames body ! b) = best_hour body" by blast
    then show ?thesis using thin [of b] by (intro exI [of _ b]) simp
  qed
  from thin best' hist none show ?thesis unfolding coverage_eq [symmetric] by blast
qed

theorem thin_frames_below_a_quarter_witness:
  "thinFrames \<lparr>t_metric = ''P1'', t_resolution = jreal 5, t_cells = [], t_frames = []\<rparr> = []"
  using thin_frames_below_a_quarter [of _ "\<lparr>t_metric = ''P1'', t_resolution = jreal 5, t_cells = [], t_frames = []\<rparr>"]
  by (simp add: hasHistory_def frameCoverage_def)

text \<open>The playhead never leaves the frames there are, whatever is scrubbed to; stepping through
  all of them comes back to the frame it started from; and the speed button cycles through the
  published speeds, from which a slower speed always means a longer wait.\<close>

theorem playhead_stays_on_frames:
  assumes "0 < head_count c" "head_i c < head_count c"
  shows "fst (step c) < head_count c \<and> fst (seek c x) < head_count c
    \<and> ((\<lambda>c. snd (step c)) ^^ head_count c) c = c
    \<and> nextSpeed s \<in> set SPEEDS \<and> (s \<notin> set SPEEDS \<longrightarrow> nextSpeed s = DEFAULT_SPEED)
    \<and> (s \<in> set SPEEDS \<longrightarrow> nextSpeed (nextSpeed (nextSpeed s)) = s)
    \<and> (s \<in> set SPEEDS \<and> t \<in> set SPEEDS \<and> s < t \<longrightarrow> frameDelay t < frameDelay s) \<and> 0 < frameDelay s"
proof -
  let ?f = "\<lambda>c. snd (step c)"
  have pl: "head_playing ((?f ^^ n) c) = head_playing c" for n
    by (induction n) (simp_all add: step_def Let_def)
  have round: "(?f ^^ head_count c) c = c"
    using step_wraps [OF assms(2), of "head_count c"] pl [of "head_count c"] assms(2) by simp
  have sp: "SPEEDS = [1, 1 / 2, 1 / 4]" by (simp add: SPEEDS_def)
  have ns: "nextSpeed 1 = 1 / 2" "nextSpeed (1 / 2) = 1 / 4" "nextSpeed (1 / 4) = 1"
    by (simp_all add: nextSpeed_def sp Let_def)
  have un: "nextSpeed s = 1" if "s \<notin> set SPEEDS"
    using that by (simp add: nextSpeed_def sp Let_def)
  have sp': "s \<in> set SPEEDS \<longleftrightarrow> s = 1 \<or> s = 1 / 2 \<or> s = 1 / 4" for s by (simp add: sp)
  have cyc: "nextSpeed s \<in> set SPEEDS \<and> nextSpeed (nextSpeed (nextSpeed s)) = s" if "s \<in> set SPEEDS"
    using that [unfolded sp'] by (elim disjE) (simp_all only: ns sp' simp_thms)
  have in_sp: "nextSpeed s \<in> set SPEEDS" using cyc un by (cases "s \<in> set SPEEDS") (simp_all add: sp)
  have un': "s \<notin> set SPEEDS \<longrightarrow> nextSpeed s = DEFAULT_SPEED" using un by (simp add: DEFAULT_SPEED_def sp)
  have fd: "frameDelay 1 = 320" "frameDelay (1 / 2) = 640" "frameDelay (1 / 4) = 1280"
    by (simp_all add: frameDelay_def FRAME_MS_def sp)
  have pos: "0 < frameDelay s" by (auto simp: frameDelay_def FRAME_MS_def sp)
  have slow: "s \<in> set SPEEDS \<and> t \<in> set SPEEDS \<and> s < t \<longrightarrow> frameDelay t < frameDelay s"
  proof
    assume "s \<in> set SPEEDS \<and> t \<in> set SPEEDS \<and> s < t"
    then have st: "s = 1 \<or> s = 1 / 2 \<or> s = 1 / 4" "t = 1 \<or> t = 1 / 2 \<or> t = 1 / 4" "s < t"
      unfolding sp' by auto
    show "frameDelay t < frameDelay s"
      using st by (elim disjE; hypsubst; simp add: fd)
  qed
  note delay = pos slow
  show ?thesis
    using assms round cyc in_sp un' delay clamp_index_lt [OF assms(1)]
    by (simp add: step_def seek_def Let_def)
qed

theorem playhead_stays_on_frames_witness:
  "fst (seek (cursor 24) (Fin 99)) < 24 \<and> ((\<lambda>c. snd (step c)) ^^ 24) (cursor 24) = cursor 24"
  using playhead_stays_on_frames [of "cursor 24" "Fin 99"] by (simp add: cursor_def)

definition url_params :: "string \<Rightarrow> (string \<times> string) list" where
  "url_params url = params_parse (drop (length ''/api/v1/timelapse?'') url)"

text \<open>The request names the metric that was asked for and always a span an animation is
  published for, whatever window the map is on; it states a resolution exactly when a finite
  one was given, and reads back as it was written.\<close>

theorem timelapse_url_names_published_span:
  "params_get (url_params (timelapseURL m w r)) ''metric'' = Some m
    \<and> params_get (url_params (timelapseURL m w r)) ''span'' = Some (if w \<in> set SPANS then w else ''24h'')
    \<and> params_get (url_params (timelapseURL m w r)) ''resolution_km'' = map_option (\<lambda>x. num_str (round_places x 4)) (finite_num r)"
  by (auto simp: url_params_def timelapseURL_def timelapse_query_def spanFor_def knownSpan_def SPANS_def
      params_get_def Let_def split: option.splits)

end
