(* ===== verification/Timelapse_Island.thy ===== *)
theory Timelapse_Island
  imports Timelapse
begin

text \<open>
  The timelapse player as the map runs it, \<open>web/src/lib/timelapse-island.js\<close>: the state of the
  closure \<open>installTimelapse\<close> with the part of the page it reads (metric, window, zoom, filter,
  visibility), one definition per handler, and the step relation over them. A fetch is pending
  until it lands, so every other event may come before its answer; \<open>performance.now()\<close> and
  the frame clock are arguments of the events. The clock label is not modelled, and leaving
  the replay puts the live grid back at once.
\<close>

section \<open>State\<close>

datatype purpose = Play | Follow string

record load_request =
  l_url :: string
  l_purpose :: purpose

datatype caption = No_Note | Thin_Note | No_History_Note

type_synonym pos = "real \<times> real"

text \<open>\<open>drawn\<close> is \<open>None\<close> while the live grid is on screen; the fields \<open>e_\<close> belong to the page.\<close>

record island =
  head :: playhead
  body :: "tl_body option"
  loaded :: string
  running :: bool
  raf :: bool
  acc :: real
  last_now :: real
  speed :: real
  thin :: "nat list"
  is_open :: bool
  vis_listener :: bool
  zoom_listeners :: nat
  pending :: "load_request list"
  prevValued :: "pos list option"
  justArrived :: "pos list"
  drawn :: "(nat \<times> hex_feature list) option"
  ui_count :: nat
  ui_playing :: bool
  ui_note :: caption
  e_metric :: string
  e_window :: string
  e_res :: real
  e_scales :: scales
  e_status :: status
  e_reduced :: bool
  e_hidden :: bool

section \<open>Arrivals\<close>

definition forgetFrames :: "island \<Rightarrow> island" where
  "forgetFrames st = st\<lparr>prevValued := None, justArrived := []\<rparr>"

definition cellKey :: "hex_feature \<Rightarrow> pos" where
  "cellKey f = (case x_geometry f of Point lon lat \<Rightarrow> (lon, lat) | Polygon ring \<Rightarrow> ring ! 0)"

text \<open>One turn of the loop of \<open>markArrivals\<close>: the feature drawn, and the two sets it adds to.\<close>

definition mark_one :: "bool \<Rightarrow> pos list \<Rightarrow> pos list \<Rightarrow> hex_feature \<Rightarrow> pos list \<times> pos list \<Rightarrow> hex_feature \<times> pos list \<times> pos list" where
  "mark_one ramp prev just f va = (case va of (valued, arrived) \<Rightarrow>
     if nullish (f_value f) then (f, valued, arrived)
     else let key = cellKey f; valued' = set_add key valued in
       if \<not> ramp \<or> x_carried f then (f, valued', arrived)
       else if key \<notin> set prev then (f\<lparr>x_fresh := Some 0\<rparr>, valued', set_add key arrived)
       else if key \<in> set just then (f\<lparr>x_fresh := Some 1\<rparr>, valued', arrived)
       else (f, valued', arrived))"

fun mark_all :: "bool \<Rightarrow> pos list \<Rightarrow> pos list \<Rightarrow> hex_feature list \<Rightarrow> pos list \<times> pos list \<Rightarrow> hex_feature list \<times> pos list \<times> pos list" where
  "mark_all ramp prev just [] (valued, arrived) = ([], valued, arrived)"
| "mark_all ramp prev just (f # fs) va = (case mark_one ramp prev just f va of
     (f', va') \<Rightarrow> (case mark_all ramp prev just fs va' of (fs', va'') \<Rightarrow> (f' # fs', va'')))"

definition markArrivals :: "hex_feature list \<Rightarrow> island \<Rightarrow> hex_feature list \<times> island" where
  "markArrivals features st =
     (let ramp = (prevValued st \<noteq> None \<and> \<not> e_reduced st);
          prev = (case prevValued st of Some p \<Rightarrow> p | None \<Rightarrow> []);
          (fs, valued, arrived) = mark_all ramp prev (justArrived st) features ([], [])
      in (fs, st\<lparr>prevValued := Some valued, justArrived := arrived\<rparr>))"

section \<open>Painting, stopping and loading\<close>

definition paint :: "colour \<Rightarrow> nat \<Rightarrow> island \<Rightarrow> island" where
  "paint noDataColour i st =
     (let features = hexFeatures (Some (frameBody (body st) i)) (e_metric st)
            (bandsFor (e_scales st) (e_metric st)) noDataColour rampColour (e_res st) None;
          (fs, st1) = markArrivals (filterByStatus features (e_status st)) st
      in st1\<lparr>drawn := Some (i, fs), ui_note := (if i \<in> set (thin st) then Thin_Note else No_Note)\<rparr>)"

definition pauseClock :: "island \<Rightarrow> island" where
  "pauseClock st = st\<lparr>raf := False, running := False, vis_listener := False\<rparr>"

definition set_playing :: "bool \<Rightarrow> island \<Rightarrow> island" where
  "set_playing b st = st\<lparr>head := (head st)\<lparr>head_playing := b\<rparr>, ui_playing := b\<rparr>"

definition stop :: "bool \<Rightarrow> island \<Rightarrow> island" where
  "stop restore st =
     (let st1 = set_playing False (forgetFrames (pauseClock st));
          st2 = (if \<not> is_open st1 then st1\<lparr>zoom_listeners := 0\<rparr> else st1)
      in if restore then st2\<lparr>drawn := None\<rparr> else st2)"

definition wantedURL :: "island \<Rightarrow> string" where
  "wantedURL st = timelapseURL (e_metric st) (e_window st) (jreal (e_res st))"

definition held_already :: "island \<Rightarrow> bool" where
  "held_already st \<longleftrightarrow> wantedURL st = loaded st \<and> body st \<noteq> None"

definition show_held :: "island \<Rightarrow> island" where
  "show_held st = st\<lparr>ui_count := head_count (head st)\<rparr>"

text \<open>The second half of \<open>load\<close>, once the response is there.\<close>

definition apply_load :: "string \<Rightarrow> bool \<Rightarrow> tl_body \<Rightarrow> island \<Rightarrow> island" where
  "apply_load url keepPlayhead measured st =
     (let b = Some (fillForward measured);
          h = (head st)\<lparr>head_count := frameCount b\<rparr>;
          i = (if keepPlayhead then fst (seek h (Fin (real (head_i h)))) else 0)
      in (forgetFrames st)\<lparr>body := b, loaded := url, thin := thinFrames measured,
           head := h\<lparr>head_i := i\<rparr>, ui_count := frameCount b\<rparr>)"

definition run_clock :: "real \<Rightarrow> island \<Rightarrow> island" where
  "run_clock now st = st\<lparr>running := True, acc := 0, last_now := now, vis_listener := True, raf := \<not> e_hidden st\<rparr>"

definition has_history :: "island \<Rightarrow> bool" where
  "has_history st = (case body st of Some b \<Rightarrow> hasHistory b | None \<Rightarrow> False)"

text \<open>The rest of the play button's handler, after \<open>await load()\<close>.\<close>

definition start_play :: "colour \<Rightarrow> real \<Rightarrow> island \<Rightarrow> island" where
  "start_play nd now st =
     (if head_count (head st) = 0 then st
      else if \<not> has_history st then st\<lparr>ui_note := No_History_Note\<rparr>
      else let st1 = (if \<not> is_open st then st\<lparr>is_open := True, zoom_listeners := zoom_listeners st + 1\<rparr> else st);
               st2 = set_playing True st1
           in run_clock now (paint nd (head_i (head st2)) st2))"

section \<open>Handlers\<close>

definition ontoggle :: "colour \<Rightarrow> real \<Rightarrow> island \<Rightarrow> island" where
  "ontoggle nd now st = (if running st then stop True st
     else if held_already st then start_play nd now (show_held st)
     else st\<lparr>pending := pending st @ [\<lparr>l_url = wantedURL st, l_purpose = Play\<rparr>]\<rparr>)"

definition onZoom :: "island \<Rightarrow> island" where
  "onZoom st = (if held_already st then show_held st
     else st\<lparr>pending := pending st @ [\<lparr>l_url = wantedURL st, l_purpose = Follow (loaded st)\<rparr>]\<rparr>)"

definition zoom_to :: "real \<Rightarrow> island \<Rightarrow> island" where
  "zoom_to res st = (let st1 = st\<lparr>e_res := res\<rparr> in if 0 < zoom_listeners st then onZoom st1 else st1)"

definition land :: "colour \<Rightarrow> real \<Rightarrow> nat \<Rightarrow> tl_body \<Rightarrow> island \<Rightarrow> island" where
  "land nd now n measured st =
     (let req = pending st ! n; st0 = st\<lparr>pending := take n (pending st) @ drop (Suc n) (pending st)\<rparr>
      in case l_purpose req of
           Play \<Rightarrow> start_play nd now (apply_load (l_url req) False measured st0)
         | Follow was \<Rightarrow> let st1 = apply_load (l_url req) True measured st0 in
             if 0 < head_count (head st1) \<and> loaded st1 \<noteq> was \<and> head_playing (head st1)
             then paint nd (head_i (head st1)) st1 else st1)"

definition drop_request :: "nat \<Rightarrow> island \<Rightarrow> island" where
  "drop_request n st = st\<lparr>pending := take n (pending st) @ drop (Suc n) (pending st)\<rparr>"

definition onspeed :: "real \<Rightarrow> island \<Rightarrow> island" where
  "onspeed now st = (let st1 = st\<lparr>speed := nextSpeed (speed st)\<rparr> in if running st1 then run_clock now st1 else st1)"

definition onscrub :: "colour \<Rightarrow> jsnum \<Rightarrow> island \<Rightarrow> island" where
  "onscrub nd i st =
     (let st1 = (if running st then set_playing False (pauseClock st) else st)
      in if 0 < head_count (head st1)
         then (case seek (head st1) i of (j, h) \<Rightarrow> paint nd j (st1\<lparr>head := h\<rparr>)) else st1)"

definition onexit :: "island \<Rightarrow> island" where
  "onexit st = stop True (st\<lparr>is_open := False, ui_count := 0, ui_note := No_Note\<rparr>)"

text \<open>A change of metric or window: the page sets its own state and calls \<open>reset\<close>.\<close>

definition reset :: "string \<Rightarrow> string \<Rightarrow> island \<Rightarrow> island" where
  "reset metric window st = stop False (st\<lparr>e_metric := metric, e_window := window, is_open := False,
     body := None, loaded := [], head := (head st)\<lparr>head_count := 0\<rparr>, thin := [],
     ui_count := 0, ui_note := No_Note\<rparr>)"

definition onVisibility :: "real \<Rightarrow> bool \<Rightarrow> island \<Rightarrow> island" where
  "onVisibility now hidden st = (let st1 = st\<lparr>e_hidden := hidden\<rparr> in
     if \<not> vis_listener st then st1
     else if hidden then st1\<lparr>raf := False\<rparr>
     else if running st \<and> \<not> raf st then st1\<lparr>acc := 0, last_now := now, raf := True\<rparr> else st1)"

section \<open>The frame clock\<close>

definition MAX_CATCHUP_FRAMES :: real where
  "MAX_CATCHUP_FRAMES = 4"

definition effectiveDelay :: "island \<Rightarrow> real" where
  "effectiveDelay st = (let base = frameDelay (speed st) in
     if e_reduced st then max base (frameDelay (1 / 4)) else base)"

lemma frameDelay_pos: "0 < frameDelay s"
  by (auto simp: frameDelay_def FRAME_MS_def SPEEDS_def)

lemma effectiveDelay_pos: "0 < effectiveDelay st"
  using frameDelay_pos by (simp add: effectiveDelay_def Let_def less_max_iff_disj)

text \<open>
  The loop of \<open>tick\<close>: the playhead after every elapsed delay, the time left over and the number
  of frames advanced. The delay is always positive (\<open>effectiveDelay_pos\<close>), which the
  condition states for the termination proof.
\<close>

function catch_up :: "real \<Rightarrow> real \<Rightarrow> playhead \<Rightarrow> nat \<Rightarrow> playhead \<times> real \<times> nat" where
  "catch_up delay t h advanced = (if 0 < delay \<and> delay \<le> t
     then catch_up delay (t - delay) (snd (step h)) (Suc advanced) else (h, t, advanced))"
  by pat_completeness auto
termination
proof (relation "measure (\<lambda>(delay, t, h, advanced). nat \<lceil>t / delay\<rceil>)")
  fix delay t :: real and h :: playhead and advanced :: nat
  assume a: "0 < delay \<and> delay \<le> t"
  then have "(t - delay) / delay = t / delay - 1" "1 \<le> t / delay" by (simp_all add: diff_divide_distrib)
  then show "((delay, t - delay, snd (step h), Suc advanced), delay, t, h, advanced)
      \<in> measure (\<lambda>(delay, t, h, advanced). nat \<lceil>t / delay\<rceil>)"
    by (simp add: zless_nat_eq_int_zless)
qed simp

declare catch_up.simps [simp del]

definition tick :: "colour \<Rightarrow> real \<Rightarrow> island \<Rightarrow> island" where
  "tick nd now st =
     (let delay = effectiveDelay st; elapsed = acc st + (now - last_now st);
          capped = (if delay * MAX_CATCHUP_FRAMES < elapsed then delay * MAX_CATCHUP_FRAMES else elapsed)
      in case catch_up delay capped (head st) 0 of (h, rest, advanced) \<Rightarrow>
         let st1 = st\<lparr>head := h, acc := rest, last_now := now\<rparr>;
             st2 = (if 0 < advanced then paint nd (head_i h) st1 else st1)
         in st2\<lparr>raf := True\<rparr>)"

section \<open>The step relation\<close>

datatype tl_event =
    Toggle real
  | Land real nat tl_body
  | Load_Fails nat
  | Zoom real
  | Speed real
  | Scrub jsnum
  | Exit
  | Reset string string
  | Visibility real bool
  | Tick real
  | Page scales status bool

inductive tl_step :: "colour \<Rightarrow> island \<Rightarrow> tl_event \<Rightarrow> island \<Rightarrow> bool" for nd where
  toggle: "tl_step nd st (Toggle now) (ontoggle nd now st)"
| land: "n < length (pending st) \<Longrightarrow> tl_step nd st (Land now n b) (land nd now n b st)"
| load_fails: "n < length (pending st) \<Longrightarrow> tl_step nd st (Load_Fails n) (drop_request n st)"
| zoom: "tl_step nd st (Zoom res) (zoom_to res st)"
| speed: "tl_step nd st (Speed now) (onspeed now st)"
| scrub: "tl_step nd st (Scrub i) (onscrub nd i st)"
| exit: "tl_step nd st Exit (onexit st)"
| reset: "tl_step nd st (Reset m w) (reset m w st)"
| visibility: "tl_step nd st (Visibility now h) (onVisibility now h st)"
| tick: "raf st \<Longrightarrow> tl_step nd st (Tick now) (tick nd now st)"
| page: "tl_step nd st (Page sc s r) (st\<lparr>e_scales := sc, e_status := s, e_reduced := r\<rparr>)"

inductive_cases tl_stepE: "tl_step nd st e st'"

inductive tl_run :: "colour \<Rightarrow> island \<Rightarrow> tl_event list \<Rightarrow> island \<Rightarrow> bool" for nd where
  empty: "tl_run nd st [] st"
| more: "tl_run nd st es st' \<Longrightarrow> tl_step nd st' e st'' \<Longrightarrow> tl_run nd st (es @ [e]) st''"

definition init_island :: "string \<Rightarrow> string \<Rightarrow> real \<Rightarrow> scales \<Rightarrow> bool \<Rightarrow> bool \<Rightarrow> real \<Rightarrow> island" where
  "init_island metric window res scales reduced hidden rate =
     \<lparr>head = cursor 0, body = None, loaded = [], running = False, raf = False, acc = 0, last_now = 0,
      speed = rate, thin = [], is_open = False, vis_listener = False, zoom_listeners = 0, pending = [],
      prevValued = None, justArrived = [], drawn = None, ui_count = 0, ui_playing = False, ui_note = No_Note,
      e_metric = metric, e_window = window, e_res = res, e_scales = scales, e_status = Active,
      e_reduced = reduced, e_hidden = hidden\<rparr>"

section \<open>The player is consistent\<close>

text \<open>
  The clock runs exactly while the player plays, a frame is scheduled exactly while it runs in a
  visible page, the zoom listener is attached once and exactly while the player is open, and
  the playhead points at a frame of the body that is held.
\<close>

definition tl_inv :: "island \<Rightarrow> bool" where
  "tl_inv st \<longleftrightarrow> head_playing (head st) = running st \<and> ui_playing st = running st
     \<and> (running st \<longrightarrow> is_open st) \<and> (running st \<longrightarrow> body st \<noteq> None)
     \<and> raf st = (running st \<and> \<not> e_hidden st) \<and> vis_listener st = running st
     \<and> zoom_listeners st = (if is_open st then 1 else 0)
     \<and> head_count (head st) = frameCount (body st)
     \<and> (head_i (head st) < head_count (head st) \<or> head_count (head st) = 0)"

lemma paint_shape:
  "\<exists>p j fs c. paint nd i st = st\<lparr>prevValued := p, justArrived := j, drawn := Some (i, fs), ui_note := c\<rparr>"
proof -
  have "\<exists>fs p j. markArrivals feats st = (fs, st\<lparr>prevValued := p, justArrived := j\<rparr>)" for feats
    unfolding markArrivals_def Let_def by (simp add: case_prod_unfold) blast
  then obtain fs p j where m: "markArrivals (filterByStatus (hexFeatures (Some (frameBody (body st) i)) (e_metric st)
            (bandsFor (e_scales st) (e_metric st)) nd rampColour (e_res st) None) (e_status st)) st
      = (fs, st\<lparr>prevValued := p, justArrived := j\<rparr>)" by blast
  show ?thesis unfolding paint_def Let_def m
    by (intro exI [of _ p] exI [of _ j] exI [of _ fs] exI [of _ "if i \<in> set (thin st) then Thin_Note else No_Note"]) simp
qed

lemma paint_simps [simp]:
  "head (paint nd i st) = head st" "body (paint nd i st) = body st" "loaded (paint nd i st) = loaded st"
  "running (paint nd i st) = running st" "raf (paint nd i st) = raf st" "is_open (paint nd i st) = is_open st"
  "vis_listener (paint nd i st) = vis_listener st" "zoom_listeners (paint nd i st) = zoom_listeners st"
  "ui_playing (paint nd i st) = ui_playing st" "e_hidden (paint nd i st) = e_hidden st"
  "e_metric (paint nd i st) = e_metric st" "ui_count (paint nd i st) = ui_count st"
  "acc (paint nd i st) = acc st"
  using paint_shape [of nd i st] by auto

lemma step_simps [simp]: "head_count (snd (step h)) = head_count h" "head_playing (snd (step h)) = head_playing h"
  "head_i h < head_count h \<or> head_count h = 0 \<Longrightarrow> head_i (snd (step h)) < head_count h \<or> head_count h = 0"
  by (simp_all add: step_def Let_def)

lemma seek_simps: "seek h i = (j, h') \<Longrightarrow> head_count h' = head_count h \<and> head_playing h' = head_playing h
    \<and> (head_count h = 0 \<or> head_i h' < head_count h' \<and> j = head_i h')"
  by (auto simp: seek_def Let_def clamp_index_lt split: if_splits)

lemma catch_up_facts:
  "catch_up delay t h n = (h', t', n') \<Longrightarrow> head_count h' = head_count h \<and> head_playing h' = head_playing h
    \<and> (head_i h < head_count h \<or> head_count h = 0 \<longrightarrow> head_i h' < head_count h \<or> head_count h = 0)"
proof (induction delay t h n arbitrary: h' t' n' rule: catch_up.induct)
  case (1 delay t h n)
  show ?case
  proof (cases "0 < delay \<and> delay \<le> t")
    case True
    from 1(1) [OF True] 1(2) True have "head_count h' = head_count (snd (step h)) \<and> head_playing h' = head_playing (snd (step h))
      \<and> (head_i (snd (step h)) < head_count (snd (step h)) \<or> head_count (snd (step h)) = 0 \<longrightarrow>
           head_i h' < head_count (snd (step h)) \<or> head_count (snd (step h)) = 0)"
      by (subst (asm) (2) catch_up.simps) simp
    moreover have "head_i h < head_count h \<or> head_count h = 0 \<longrightarrow>
        head_i (snd (step h)) < head_count (snd (step h)) \<or> head_count (snd (step h)) = 0"
      by (simp add: step_def Let_def)
    ultimately show ?thesis unfolding step_simps(1,2) by argo
  next
    case False
    with 1(2) have "h' = h" by (subst (asm) catch_up.simps) (auto split: if_splits)
    then show ?thesis by simp
  qed
qed

lemma tl_inv_start_play:
  assumes "tl_inv st" "\<not> running st"
  shows "tl_inv (start_play nd now st)"
  using assms
  by (auto simp: tl_inv_def start_play_def Let_def run_clock_def set_playing_def has_history_def split: option.splits)

text \<open>\<open>stop\<close> needs less: the caller may have closed the player or dropped the body before it.\<close>

lemma tl_inv_stop:
  assumes "head_count (head st) = frameCount (body st)" "head_i (head st) < head_count (head st) \<or> head_count (head st) = 0"
    "is_open st \<longrightarrow> zoom_listeners st = 1"
  shows "tl_inv (stop restore st)"
  using assms by (auto simp: tl_inv_def stop_def Let_def pauseClock_def set_playing_def forgetFrames_def)

lemma tl_inv_apply:
  assumes "tl_inv st"
  shows "tl_inv (apply_load url keep b st)" "running (apply_load url keep b st) = running st"
proof -
  let ?h = "(head st)\<lparr>head_count := frameCount (Some (fillForward b))\<rparr>"
  have "fst (seek ?h (Fin (real (head_i ?h)))) < head_count ?h \<or> head_count ?h = 0"
    using clamp_index_lt [of "head_count ?h" "Fin (real (head_i ?h))"] by (simp add: seek_def Let_def)
  then show "tl_inv (apply_load url keep b st)"
    using assms by (auto simp: tl_inv_def apply_load_def Let_def forgetFrames_def)
  show "running (apply_load url keep b st) = running st" by (simp add: apply_load_def Let_def forgetFrames_def)
qed

lemma tl_inv_cong:
  assumes "tl_inv st" "head st' = head st" "body st' = body st" "running st' = running st" "raf st' = raf st"
    "is_open st' = is_open st" "vis_listener st' = vis_listener st" "zoom_listeners st' = zoom_listeners st"
    "ui_playing st' = ui_playing st" "e_hidden st' = e_hidden st"
  shows "tl_inv st'"
  using assms(1) unfolding tl_inv_def assms(2-10) .

lemma tl_inv_paint: "tl_inv (paint nd i st) = tl_inv st"
  by (simp add: tl_inv_def)

lemma tl_inv_toggle: "tl_inv st \<Longrightarrow> tl_inv (ontoggle nd now st)"
proof -
  assume a: "tl_inv st"
  show ?thesis
  proof (cases "running st")
    case True
    have "tl_inv (stop True st)" by (rule tl_inv_stop) (use a in \<open>auto simp: tl_inv_def\<close>)
    with True show ?thesis by (simp add: ontoggle_def)
  next
    case False
    have "tl_inv (show_held st)" by (rule tl_inv_cong [OF a]) (simp_all add: show_held_def)
    moreover have "\<not> running (show_held st)" using False by (simp add: show_held_def)
    ultimately have "tl_inv (start_play nd now (show_held st))" by (rule tl_inv_start_play)
    moreover have "tl_inv (st\<lparr>pending := ps\<rparr>)" for ps by (rule tl_inv_cong [OF a]) simp_all
    ultimately show ?thesis using False by (simp add: ontoggle_def)
  qed
qed

lemma tl_inv_zoom: "tl_inv st \<Longrightarrow> tl_inv (zoom_to res st)"
  by (rule tl_inv_cong, assumption) (auto simp: zoom_to_def Let_def onZoom_def show_held_def)

text \<open>A body that lands while a second press is already playing restarts the clock.\<close>

lemma tl_inv_start_running:
  assumes "tl_inv st"
  shows "tl_inv (start_play nd now st)"
proof (cases "running st")
  case True
  with assms show ?thesis
    by (auto simp: tl_inv_def start_play_def Let_def run_clock_def set_playing_def has_history_def split: option.splits)
qed (use tl_inv_start_play assms in blast)

lemma tl_inv_land: "tl_inv st \<Longrightarrow> tl_inv (land nd now n b st)"
proof -
  assume a: "tl_inv st"
  let ?st0 = "st\<lparr>pending := take n (pending st) @ drop (Suc n) (pending st)\<rparr>"
  have "tl_inv ?st0" by (rule tl_inv_cong [OF a]) simp_all
  then have "tl_inv (apply_load url keep b ?st0)" for url keep by (rule tl_inv_apply)
  then show ?thesis
    by (simp add: land_def Let_def tl_inv_start_running tl_inv_paint split: purpose.split)
qed

lemma tl_inv_speed: "tl_inv st \<Longrightarrow> tl_inv (onspeed now st)"
  by (auto simp: tl_inv_def onspeed_def Let_def run_clock_def)

lemma tl_inv_scrub: "tl_inv st \<Longrightarrow> tl_inv (onscrub nd i st)"
proof -
  assume a: "tl_inv st"
  let ?st1 = "if running st then set_playing False (pauseClock st) else st"
  have b: "tl_inv ?st1" using a by (auto simp: tl_inv_def set_playing_def pauseClock_def)
  have "tl_inv (?st1\<lparr>head := h\<rparr>)" if "seek (head ?st1) i = (j, h)" for j h
    using b seek_simps [OF that] by (auto simp: tl_inv_def)
  then show ?thesis using b by (auto simp: onscrub_def Let_def tl_inv_paint split: prod.splits)
qed

lemma tl_inv_exit: "tl_inv st \<Longrightarrow> tl_inv (onexit st)"
  unfolding onexit_def by (rule tl_inv_stop) (auto simp: tl_inv_def)

lemma tl_inv_reset: "tl_inv (reset m w st)"
  unfolding reset_def by (rule tl_inv_stop) (auto simp: frameCount_def)

lemma tl_inv_visibility: "tl_inv st \<Longrightarrow> tl_inv (onVisibility now h st)"
  by (auto simp: tl_inv_def onVisibility_def Let_def)

lemma tl_inv_tick: "tl_inv st \<Longrightarrow> raf st \<Longrightarrow> tl_inv (tick nd now st)"
proof -
  assume a: "tl_inv st" and r: "raf st"
  let ?d = "effectiveDelay st"
  let ?e = "acc st + (now - last_now st)"
  obtain h t n where c: "catch_up ?d (if ?d * MAX_CATCHUP_FRAMES < ?e then ?d * MAX_CATCHUP_FRAMES else ?e) (head st) 0 = (h, t, n)"
    using prod_cases3 by blast
  from catch_up_facts [OF c] a have "tl_inv (st\<lparr>head := h, acc := t, last_now := now\<rparr>)"
    by (auto simp: tl_inv_def)
  then have "tl_inv (if 0 < n then paint nd (head_i h) (st\<lparr>head := h, acc := t, last_now := now\<rparr>)
       else st\<lparr>head := h, acc := t, last_now := now\<rparr>)"
    by (simp add: tl_inv_paint)
  then show ?thesis using r unfolding tick_def Let_def c by (auto simp: tl_inv_def)
qed

lemma tl_inv_step: "tl_step nd st e st' \<Longrightarrow> tl_inv st \<Longrightarrow> tl_inv st'"
proof (induction rule: tl_step.induct)
  case (load_fails n st)
  show ?case by (rule tl_inv_cong [OF load_fails(2)]) (simp_all add: drop_request_def)
next
  case (page st sc s r)
  show ?case by (rule tl_inv_cong [OF page]) simp_all
qed (simp_all add: tl_inv_toggle tl_inv_land tl_inv_zoom tl_inv_speed tl_inv_scrub tl_inv_exit tl_inv_reset
      tl_inv_visibility tl_inv_tick)

lemma tl_inv_run: "tl_run nd st es st' \<Longrightarrow> tl_inv st \<Longrightarrow> tl_inv st'"
  by (induction rule: tl_run.induct) (auto intro: tl_inv_step)

lemma tl_inv_init: "tl_inv (init_island m w res sc red hid sp)"
  by (simp add: tl_inv_def init_island_def cursor_def frameCount_def)

section \<open>The clock and the arrivals\<close>

lemma catch_up_count:
  "catch_up delay t h n = (h', t', n') \<Longrightarrow> 0 < delay \<Longrightarrow>
     \<exists>k. n' = n + k \<and> t' = t - real k * delay \<and> t' < delay \<and> (0 < k \<longrightarrow> 0 \<le> t') \<and> h' = ((\<lambda>c. snd (step c)) ^^ k) h"
proof (induction delay t h n arbitrary: h' t' n' rule: catch_up.induct)
  case (1 delay t h n)
  show ?case
  proof (cases "0 < delay \<and> delay \<le> t")
    case True
    have e: "catch_up delay (t - delay) (snd (step h)) (Suc n) = (h', t', n')"
      using 1(2) True by (subst (asm) catch_up.simps) simp
    from 1(1) [OF True e 1(3)] obtain k where k: "n' = Suc n + k" "t' = t - delay - real k * delay" "t' < delay"
      "0 < k \<longrightarrow> 0 \<le> t'" "h' = ((\<lambda>c. snd (step c)) ^^ k) (snd (step h))" by blast
    have "0 \<le> t'" using k(2,4) True by (cases "k = 0") auto
    moreover have "t' = t - real (Suc k) * delay" unfolding k(2) by (simp add: algebra_simps)
    ultimately show ?thesis
      using k by (intro exI [of _ "Suc k"]) (simp add: funpow_Suc_right del: funpow.simps)
  next
    case False
    with 1(2) have "h' = h" "t' = t" "n' = n" by (subst (asm) catch_up.simps; auto split: if_splits)+
    then show ?thesis using False 1(3) by (intro exI [of _ 0]) auto
  qed
qed

definition is_valued :: "hex_feature \<Rightarrow> bool" where
  "is_valued f \<longleftrightarrow> \<not> nullish (f_value f)"

definition fresh_mark :: "bool \<Rightarrow> pos list \<Rightarrow> pos list \<Rightarrow> hex_feature \<Rightarrow> nat option" where
  "fresh_mark ramp prev just f = (if is_valued f \<and> ramp \<and> \<not> x_carried f
     then (if cellKey f \<notin> set prev then Some 0 else if cellKey f \<in> set just then Some 1 else x_fresh f)
     else x_fresh f)"

lemma mark_one_feature: "fst (mark_one ramp prev just f va) = f\<lparr>x_fresh := fresh_mark ramp prev just f\<rparr>"
  by (cases va) (simp add: mark_one_def fresh_mark_def is_valued_def Let_def)

lemma mark_one_sets:
  "set (fst (snd (mark_one ramp prev just f va))) = set (fst va) \<union> (if is_valued f then {cellKey f} else {})"
  "set (snd (snd (mark_one ramp prev just f va))) =
     set (snd va) \<union> (if is_valued f \<and> ramp \<and> \<not> x_carried f \<and> cellKey f \<notin> set prev then {cellKey f} else {})"
  by (cases va; simp add: mark_one_def is_valued_def Let_def)+

lemma mark_all_facts:
  "fst (mark_all ramp prev just fs va) = map (\<lambda>f. f\<lparr>x_fresh := fresh_mark ramp prev just f\<rparr>) fs
    \<and> set (fst (snd (mark_all ramp prev just fs va))) = set (fst va) \<union> cellKey ` {f \<in> set fs. is_valued f}
    \<and> set (snd (snd (mark_all ramp prev just fs va))) = set (snd va) \<union>
         cellKey ` {f \<in> set fs. is_valued f \<and> ramp \<and> \<not> x_carried f \<and> cellKey f \<notin> set prev}"
proof (induction fs arbitrary: va)
  case Nil
  then show ?case by (cases va) simp
next
  case (Cons f fs)
  obtain f' va' where m: "mark_one ramp prev just f va = (f', va')" by (rule prod.exhaust)
  have f': "f' = f\<lparr>x_fresh := fresh_mark ramp prev just f\<rparr>" using mark_one_feature [of ramp prev just f va] by (simp add: m)
  show ?case
    using Cons [of va'] mark_one_sets [of ramp prev just f va] unfolding m
    by (auto simp: f' m split: prod.splits if_splits)
qed

section \<open>Properties\<close>

text \<open>C21. After any run of presses, scrubs, zooms, loads, resets, tab switches and frames, the
  clock runs exactly while the button says so, only an open player runs and it has a body to
  play, a frame is scheduled exactly while it runs in a visible page, the zoom listener is
  attached once while the player is open and not at all otherwise, and the playhead is on a
  frame of the body.\<close>

theorem player_state_consistent:
  assumes "tl_run nd (init_island m w res sc red hid sp) es st"
  shows "head_playing (head st) = running st \<and> ui_playing st = running st
     \<and> (running st \<longrightarrow> is_open st \<and> body st \<noteq> None) \<and> raf st = (running st \<and> \<not> e_hidden st)
     \<and> zoom_listeners st = (if is_open st then 1 else 0)
     \<and> head_count (head st) = frameCount (body st)
     \<and> (head_i (head st) < frameCount (body st) \<or> frameCount (body st) = 0)"
  using tl_inv_run [OF assms tl_inv_init] unfolding tl_inv_def by (elim conjE) simp

theorem player_state_consistent_witness:
  "zoom_listeners (onexit (init_island ''P1'' ''24h'' 5 None False False 1)) = 0"
proof -
  let ?i = "init_island ''P1'' ''24h'' 5 None False False 1"
  have "tl_run None ?i ([] @ [Exit]) (onexit ?i)" by (intro tl_run.more [OF tl_run.empty] tl_step.exit)
  from player_state_consistent [OF this] show ?thesis
    by (simp add: onexit_def stop_def Let_def set_playing_def forgetFrames_def pauseClock_def)
qed

text \<open>C22. However late a frame comes, one tick advances the playhead by at most four frames, leaves
  less than one delay on the clock, and paints only when it advanced.\<close>

theorem tick_advances_at_most_four:
  assumes "tl_inv st" "0 < head_count (head st)"
  shows "\<exists>n \<le> 4. head_i (head (tick nd now st)) = (head_i (head st) + n) mod head_count (head st)
    \<and> acc (tick nd now st) < effectiveDelay st \<and> (n = 0 \<longrightarrow> drawn (tick nd now st) = drawn st)"
proof -
  let ?d = "effectiveDelay st"
  let ?e = "acc st + (now - last_now st)"
  let ?t = "if ?d * MAX_CATCHUP_FRAMES < ?e then ?d * MAX_CATCHUP_FRAMES else ?e"
  obtain h t n where c: "catch_up ?d ?t (head st) 0 = (h, t, n)" using prod_cases3 by blast
  from catch_up_count [OF c effectiveDelay_pos] have k: "t = ?t - real n * ?d" "t < ?d" "0 < n \<longrightarrow> 0 \<le> t"
    "h = ((\<lambda>c. snd (step c)) ^^ n) (head st)" by auto
  have "n \<le> 4"
  proof (cases "n = 0")
    case False
    with k have "real n * ?d \<le> ?t" by simp
    also have "\<dots> \<le> 4 * ?d" by (simp add: MAX_CATCHUP_FRAMES_def)
    finally show ?thesis using effectiveDelay_pos [of st] by simp
  qed simp
  moreover have "head_i (head st) < head_count (head st)" using assms by (auto simp: tl_inv_def)
  then have "head_i h = (head_i (head st) + n) mod head_count (head st)"
    unfolding k(4) using step_wraps by blast
  ultimately show ?thesis using k(2) unfolding tick_def Let_def c by (intro exI [of _ n]) simp
qed

theorem tick_advances_at_most_four_witness:
  "\<exists>n \<le> 4. head_i (head (tick None 99999 ((init_island ''P1'' ''24h'' 5 None False False 1)
     \<lparr>body := Some \<lparr>t_metric = ''P1'', t_resolution = JNull, t_cells = [], t_frames = replicate 24 \<lparr>fr_v = [], fr_c = []\<rparr>\<rparr>,
      head := cursor 24\<rparr>))) = n mod 24"
proof -
  let ?st = "(init_island ''P1'' ''24h'' 5 None False False 1)
     \<lparr>body := Some \<lparr>t_metric = ''P1'', t_resolution = JNull, t_cells = [], t_frames = replicate 24 \<lparr>fr_v = [], fr_c = []\<rparr>\<rparr>,
      head := cursor 24\<rparr>"
  have "tl_inv ?st" "head_count (head ?st) = 24" "head_i (head ?st) = 0"
    by (simp_all add: tl_inv_def init_island_def cursor_def frameCount_def)
  with tick_advances_at_most_four [of ?st None 99999] show ?thesis by force
qed

text \<open>The way out: exit stops the clock, detaches the zoom listener, folds the scrubber away and
  puts the live grid back, and so does pausing, which keeps the player open; in both cases the
  body stays held, so that the next press of play on the same view asks for nothing.\<close>

theorem leaving_restores_live_grid:
  assumes "tl_run nd (init_island m w res sc red hid sp) es st"
  shows "drawn (onexit st) = None \<and> \<not> running (onexit st) \<and> \<not> raf (onexit st) \<and> zoom_listeners (onexit st) = 0
      \<and> ui_count (onexit st) = 0 \<and> body (onexit st) = body st
    \<and> (running st \<longrightarrow> drawn (ontoggle nd now st) = None \<and> \<not> running (ontoggle nd now st) \<and> \<not> raf (ontoggle nd now st)
         \<and> is_open (ontoggle nd now st) \<and> zoom_listeners (ontoggle nd now st) = 1)
    \<and> (held_already st \<longrightarrow> pending (ontoggle nd now (onexit st)) = pending st)"
proof -
  have inv: "tl_inv st" by (rule tl_inv_run [OF assms tl_inv_init])
  have ex: "onexit st = st\<lparr>is_open := False, ui_count := 0, ui_note := No_Note, raf := False, running := False,
      vis_listener := False, prevValued := None, justArrived := [], head := (head st)\<lparr>head_playing := False\<rparr>,
      ui_playing := False, zoom_listeners := 0, drawn := None\<rparr>"
    by (simp add: onexit_def stop_def Let_def pauseClock_def forgetFrames_def set_playing_def)
  have "pending (start_play nd now s) = pending s" for s
    using paint_shape [of nd "head_i (head s)" "set_playing True (if \<not> is_open s then s\<lparr>is_open := True, zoom_listeners := zoom_listeners s + 1\<rparr> else s)"]
    by (auto simp: start_play_def Let_def run_clock_def set_playing_def)
  then have "held_already st \<longrightarrow> pending (ontoggle nd now (onexit st)) = pending st"
    by (simp add: ontoggle_def ex held_already_def wantedURL_def show_held_def)
  moreover have "running st \<longrightarrow> drawn (ontoggle nd now st) = None \<and> \<not> running (ontoggle nd now st) \<and> \<not> raf (ontoggle nd now st)
         \<and> is_open (ontoggle nd now st) \<and> zoom_listeners (ontoggle nd now st) = 1"
    using inv by (auto simp: ontoggle_def stop_def Let_def pauseClock_def forgetFrames_def set_playing_def tl_inv_def)
  ultimately show ?thesis by (simp add: ex)
qed

theorem leaving_restores_live_grid_witness:
  "drawn (onexit (init_island ''P1'' ''24h'' 5 None False False 1)) = None"
  using leaving_restores_live_grid [OF tl_run.empty, of "''P1''" "''24h''" 5 None False False 1] by blast

text \<open>Which digits fade in: a reading climbs from step 0 when its cell showed none in the frame
  drawn just before, stands at step 1 in the frame after, and everything else is drawn at full
  strength at once: held readings, the first frame of a run, and every frame under reduced
  motion. Only the fade is set, and the next frame compares against exactly these readings.\<close>

theorem arrivals_fade_in_once:
  assumes "markArrivals features st = (fs, st')" "\<forall>f \<in> set features. x_fresh f = None" "f \<in> set features"
  shows "length fs = length features \<and> map (\<lambda>f. f\<lparr>x_fresh := None\<rparr>) fs = features
    \<and> (\<exists>f' \<in> set fs. f'\<lparr>x_fresh := None\<rparr> = f \<and> x_fresh f' =
         (case prevValued st of None \<Rightarrow> None
          | Some prev \<Rightarrow> if e_reduced st \<or> x_carried f \<or> \<not> is_valued f then None
              else if cellKey f \<notin> set prev then Some 0
              else if cellKey f \<in> set (justArrived st) then Some 1 else None))
    \<and> (\<exists>p. prevValued st' = Some p \<and> set p = cellKey ` {f \<in> set features. is_valued f})
    \<and> set (justArrived st') = cellKey ` {f \<in> set features. \<exists>prev. prevValued st = Some prev \<and> \<not> e_reduced st
         \<and> is_valued f \<and> \<not> x_carried f \<and> cellKey f \<notin> set prev}"
proof -
  let ?ramp = "prevValued st \<noteq> None \<and> \<not> e_reduced st"
  let ?prev = "case prevValued st of Some p \<Rightarrow> p | None \<Rightarrow> []"
  let ?mark = "fresh_mark ?ramp ?prev (justArrived st)"
  obtain fs0 v a where m: "mark_all ?ramp ?prev (justArrived st) features ([], []) = (fs0, v, a)"
    using prod_cases3 by blast
  from mark_all_facts [of ?ramp ?prev "justArrived st" features "([], [])", unfolded m]
  have fs0: "fs0 = map (\<lambda>f. f\<lparr>x_fresh := ?mark f\<rparr>) features" "set v = cellKey ` {f \<in> set features. is_valued f}"
    "set a = cellKey ` {f \<in> set features. is_valued f \<and> ?ramp \<and> \<not> x_carried f \<and> cellKey f \<notin> set ?prev}"
    by simp_all
  have r: "fs = fs0" "st' = st\<lparr>prevValued := Some v, justArrived := a\<rparr>"
    using assms(1) unfolding markArrivals_def Let_def m by simp_all
  have same: "f\<lparr>x_fresh := None\<rparr> = f" if "f \<in> set features" for f using that assms(2) by simp
  let ?f' = "f\<lparr>x_fresh := ?mark f\<rparr>"
  have n: "map (\<lambda>f. f\<lparr>x_fresh := None\<rparr>) fs = features"
    unfolding r fs0 using same by (simp add: comp_def map_idI)
  have l: "length fs = length features" by (simp add: r fs0)
  have f': "?f'\<lparr>x_fresh := None\<rparr> = f" "?f' \<in> set fs"
    using same [OF assms(3)] assms(3) by (simp_all add: r fs0)
  have x: "x_fresh ?f' = (case prevValued st of None \<Rightarrow> None
          | Some prev \<Rightarrow> if e_reduced st \<or> x_carried f \<or> \<not> is_valued f then None
              else if cellKey f \<notin> set prev then Some 0
              else if cellKey f \<in> set (justArrived st) then Some 1 else None)"
    using assms(2,3) by (auto simp: fresh_mark_def split: option.splits)
  have j: "set a = cellKey ` {f \<in> set features. \<exists>prev. prevValued st = Some prev \<and> \<not> e_reduced st
         \<and> is_valued f \<and> \<not> x_carried f \<and> cellKey f \<notin> set prev}"
    unfolding fs0(3) by (auto split: option.splits)
  have pv: "prevValued st' = Some v" "justArrived st' = a" by (simp_all add: r)
  show ?thesis
    unfolding pv using l n j fs0(2) by (intro conjI bexI [OF _ f'(2)] f'(1) x exI [of _ v]) simp_all
qed

definition plain_point :: "real \<Rightarrow> hex_feature" where
  "plain_point v = \<lparr>f_value = jreal v, f_faulty = False, f_source = None, x_id = 0, x_geometry = Point 23 42,
     x_colour = None, x_height = 0, x_n = None, x_sensor = None, x_carried = False, x_fresh = None\<rparr>"

theorem arrivals_fade_in_once_witness:
  "\<exists>f' \<in> set (fst (markArrivals [plain_point 7] ((init_island ''P1'' ''24h'' 5 None False False 1)\<lparr>prevValued := Some []\<rparr>))).
     x_fresh f' = Some 0"
proof -
  let ?st = "(init_island ''P1'' ''24h'' 5 None False False 1)\<lparr>prevValued := Some []\<rparr>"
  have p: "\<forall>f \<in> set [plain_point 7]. x_fresh f = None" "plain_point 7 \<in> set [plain_point 7]"
    "is_valued (plain_point 7)" "\<not> x_carried (plain_point 7)" "prevValued ?st = Some []" "\<not> e_reduced ?st"
    by (simp_all add: plain_point_def is_valued_def init_island_def)
  from arrivals_fade_in_once [OF surjective_pairing p(1,2), of ?st] p(3-6) show ?thesis by fastforce
qed

text \<open>No cell of a body speaks for another metric than its own.\<close>

lemma foreign_metric_nodata:
  assumes "t_metric b \<noteq> m2" "t_resolution b = jreal r" "0 < r"
    "f \<in> set (hexFeatures (Some (frameBody (Some b) i)) m2 bands nd colourOf pr None)"
  shows "f_value f = JNull"
proof -
  have "f_value (to_feature m2 bands nd colourOf False r h) = JNull"
    if "h \<in> set (picked None (hexes (frameBody (Some b) i)))" for h
    using that assms(1)
    by (auto simp: picked_def pick_def whole_def List.map_filter_def frameBody_def frame_cell_def to_feature_def
        value_of_def Let_def split: if_splits)
  then show ?thesis
    using assms(2-4)
    by (auto simp: hexFeatures_def frameBody_def POINT_RESOLUTION_KM_def drawn_cells_def nodata_first_def Let_def)
qed

lemma foreign_metric_blank:
  assumes "t_metric held \<noteq> e_metric st" "t_resolution held = jreal r" "0 < r" "body st = Some held" "e_status st = Active"
  shows "drawn (paint nd i st) = Some (i, [])"
proof -
  have "filterByStatus (hexFeatures (Some (frameBody (body st) i)) (e_metric st)
            (bandsFor (e_scales st) (e_metric st)) nd rampColour (e_res st) None) Active = []"
    using foreign_metric_nodata [OF assms(1-3)] by (simp add: filter_empty_conv assms(4))
  then show ?thesis by (simp add: paint_def assms(5) markArrivals_def Let_def)
qed

text \<open>What \<open>reset\<close> does not do: it leaves a request for the old metric in flight. When the page
  changes metric while the first press of play is still loading, the old body lands in the
  reset player, which then runs its clock over a map with no reading on it.\<close>

theorem reset_leaves_stale_load_playing:
  assumes "hasHistory (fillForward b)" "t_resolution b = jreal r" "0 < r" "t_metric b \<noteq> m2"
  shows "\<exists>st. tl_run nd (init_island (t_metric b) w res sc red hid sp) [Toggle t0, Reset m2 w2, Land t1 0 b] st
    \<and> running st \<and> e_metric st = m2 \<and> (\<exists>held. body st = Some held \<and> t_metric held \<noteq> m2) \<and> drawn st = Some (0, [])"
proof -
  let ?st0 = "init_island (t_metric b) w res sc red hid sp"
  let ?url = "wantedURL ?st0"
  let ?st2 = "reset m2 w2 (ontoggle nd t0 ?st0)"
  have t: "ontoggle nd t0 ?st0 = ?st0\<lparr>pending := [\<lparr>l_url = ?url, l_purpose = Play\<rparr>]\<rparr>"
    by (simp add: ontoggle_def init_island_def held_already_def)
  have p2: "pending ?st2 = [\<lparr>l_url = ?url, l_purpose = Play\<rparr>]" "e_metric ?st2 = m2" "e_status ?st2 = Active"
    unfolding t by (simp_all add: reset_def stop_def Let_def set_playing_def forgetFrames_def pauseClock_def init_island_def)
  have "tl_run nd ?st0 ([] @ [Toggle t0]) (ontoggle nd t0 ?st0)" by (rule tl_run.more [OF tl_run.empty tl_step.toggle])
  then have "tl_run nd ?st0 (([] @ [Toggle t0]) @ [Reset m2 w2]) ?st2" by (rule tl_run.more [OF _ tl_step.reset])
  then have run: "tl_run nd ?st0 ((([] @ [Toggle t0]) @ [Reset m2 w2]) @ [Land t1 0 b]) (land nd t1 0 b ?st2)"
    by (rule tl_run.more [OF _ tl_step.land]) (simp add: p2(1))
  define st3 where "st3 = apply_load ?url False b (?st2\<lparr>pending := []\<rparr>)"
  have st3: "body st3 = Some (fillForward b)" "head_count (head st3) = length (t_frames (fillForward b))" "head_i (head st3) = 0"
      "e_metric st3 = m2" "e_status st3 = Active"
    using p2 by (simp_all add: st3_def apply_load_def forgetFrames_def Let_def frameCount_def)
  have "t_frames (fillForward b) \<noteq> []" using assms(1) by (auto simp: hasHistory_def frameCoverage_def)
  then have ne: "head_count (head st3) \<noteq> 0" "has_history st3" using st3 assms(1) by (simp_all add: has_history_def)
  let ?st4 = "set_playing True (if \<not> is_open st3 then st3\<lparr>is_open := True, zoom_listeners := zoom_listeners st3 + 1\<rparr> else st3)"
  have st4: "body ?st4 = Some (fillForward b)" "e_metric ?st4 = m2" "e_status ?st4 = Active" "head_i (head ?st4) = 0"
    using st3 by (simp_all add: set_playing_def)
  have held: "t_metric (fillForward b) = t_metric b" "t_resolution (fillForward b) = jreal r"
    using assms(2) by (simp_all add: fillForward_def)
  have land: "land nd t1 0 b ?st2 = run_clock t1 (paint nd 0 ?st4)"
    using p2(1) ne st4(4) by (simp add: land_def Let_def st3_def [symmetric] start_play_def)
  have "drawn (paint nd 0 ?st4) = Some (0, [])"
    using foreign_metric_blank [of "fillForward b" ?st4 r nd 0] st4 held assms(3,4) by simp
  then have "running (land nd t1 0 b ?st2) \<and> e_metric (land nd t1 0 b ?st2) = m2
      \<and> (\<exists>held. body (land nd t1 0 b ?st2) = Some held \<and> t_metric held \<noteq> m2) \<and> drawn (land nd t1 0 b ?st2) = Some (0, [])"
    unfolding land using st4 held assms(4) by (simp add: run_clock_def)
  with run show ?thesis by auto
qed

theorem reset_leaves_stale_load_playing_witness:
  "\<exists>st :: island. running st \<and> e_metric st = ''P2'' \<and> (\<exists>held. body st = Some held \<and> t_metric held \<noteq> ''P2'')"
proof -
  let ?b = "\<lparr>t_metric = ''P1'', t_resolution = jreal 5, t_cells = [(23, 42)], t_frames = [\<lparr>fr_v = [jreal 9], fr_c = []\<rparr>]\<rparr>"
  have "hasHistory (fillForward ?b)"
    by (simp add: hasHistory_def frameCoverage_def fillForward_def coverage_def Let_def)
  moreover have "t_resolution ?b = jreal 5" "(0::real) < 5" "t_metric ?b \<noteq> ''P2''" by simp_all
  ultimately have "\<exists>st. tl_run None (init_island (t_metric ?b) [] 5 None False False 1) [Toggle 0, Reset ''P2'' [], Land 1 0 ?b] st
    \<and> running st \<and> e_metric st = ''P2'' \<and> (\<exists>held. body st = Some held \<and> t_metric held \<noteq> ''P2'') \<and> drawn st = Some (0, [])"
    by (rule reset_leaves_stale_load_playing)
  then show ?thesis by blast
qed

end
