(* ===== verification/Province_Table.thy ===== *)
theory Province_Table
  imports Js_Prelude
begin

text \<open>
  The province table: reading, sorting, filtering, searching and paging its rows and the rules of
  its column menu (\<open>web/src/lib/table.js\<close>), and the parts of \<open>web/src/islands/table.js\<close> that
  put the result back (\<open>applyRows\<close>, \<open>applyColumns\<close>, \<open>markSorted\<close>, \<open>countLine\<close>). The locale's
  collation and case folding are arguments (\<open>collate\<close>, \<open>lower\<close>): \<open>localeCompare\<close> is a
  consistent comparator, and nothing else is used of it.
\<close>

section \<open>Rows\<close>

record row =
  r_el :: nat
  r_name :: string
  r_value :: "jsnum option"
  r_sensors :: jsnum
  r_nodata :: bool

text \<open>The data attributes of a rendered row; a missing attribute is \<open>None\<close>.\<close>

record dataset =
  d_name :: "string option"
  d_value :: "string option"
  d_sensors :: "string option"
  d_nodata :: bool

definition readRow :: "nat \<Rightarrow> dataset \<Rightarrow> row" where
  "readRow el d = (let value = map_option string_to_number (d_value d) in
     \<lparr>r_el = el, r_name = (case d_name d of Some n \<Rightarrow> n | None \<Rightarrow> []), r_value = value,
      r_sensors = (case d_sensors d of Some s \<Rightarrow> if s = [] then Fin 0 else string_to_number s | None \<Rightarrow> Fin 0),
      r_nodata = (d_nodata d \<or> value = None)\<rparr>)"

definition readRows :: "dataset list option \<Rightarrow> row list" where
  "readRows tbody = (case tbody of None \<Rightarrow> [] | Some ds \<Rightarrow> map (\<lambda>(i, d). readRow i d) (enumerate 0 ds))"

section \<open>Sorting\<close>

datatype dir = Asc | Desc

definition sort_value :: "string \<Rightarrow> row \<Rightarrow> jsnum" where
  "sort_value key a = (if key = ''value'' then (case r_value a of Some v \<Rightarrow> v | None \<Rightarrow> Fin 0) else r_sensors a)"

definition compare :: "(string \<Rightarrow> string \<Rightarrow> real) \<Rightarrow> string \<Rightarrow> dir \<Rightarrow> row \<Rightarrow> row \<Rightarrow> real" where
  "compare collate key dir a b =
     (if r_nodata a \<noteq> r_nodata b then (if r_nodata a then 1 else - 1)
      else let sign = (if dir = Asc then 1 else - 1) in
        if key = ''name'' then collate (r_name a) (r_name b) * sign
        else js_minus (sort_value key a) (sort_value key b) * sign)"

definition sortRows :: "(string \<Rightarrow> string \<Rightarrow> real) \<Rightarrow> row list \<Rightarrow> string \<Rightarrow> dir \<Rightarrow> row list" where
  "sortRows collate rows key dir = js_sort (compare collate key dir) rows"

definition firstDir :: "string \<Rightarrow> dir" where
  "firstDir key = (if key = ''name'' then Asc else Desc)"

type_synonym sorting = "string \<times> dir"

definition nextSort :: "sorting \<Rightarrow> string \<Rightarrow> sorting" where
  "nextSort cur key = (if fst cur = key then (key, if snd cur = Asc then Desc else Asc) else (key, firstDir key))"

section \<open>Filtering and searching\<close>

definition filterRows :: "row list \<Rightarrow> string \<Rightarrow> row list" where
  "filterRows rows mode = (if mode = ''withdata'' then filter (\<lambda>r. \<not> r_nodata r) rows
     else if mode = ''nodata'' then filter r_nodata rows else rows)"

definition str_includes :: "string \<Rightarrow> string \<Rightarrow> bool" where
  "str_includes s q \<longleftrightarrow> list_ex (\<lambda>i. take (length q) (drop i s) = q) [0..<Suc (length s)]"

definition queryRows :: "(string \<Rightarrow> string) \<Rightarrow> row list \<Rightarrow> string option \<Rightarrow> row list" where
  "queryRows lower rows query = (let q = lower (trim (case query of Some q \<Rightarrow> q | None \<Rightarrow> [])) in
     if q = [] then rows else filter (\<lambda>r. str_includes (lower (r_name r)) q) rows)"

section \<open>The column menu\<close>

definition nextHidden :: "string list \<Rightarrow> string \<Rightarrow> string list \<Rightarrow> string list" where
  "nextHidden hidden key dataKeys =
     (if key \<notin> set dataKeys then hidden
      else if key \<in> set hidden then filter (\<lambda>k. k \<noteq> key) hidden
      else if length (filter (\<lambda>k. k \<notin> set hidden) dataKeys) \<le> 1 then hidden
      else hidden @ [key])"

definition columnLocked :: "string list \<Rightarrow> string \<Rightarrow> string list \<Rightarrow> bool" where
  "columnLocked hidden key dataKeys = (if key \<in> set hidden then False
     else length (filter (\<lambda>k. k \<notin> set hidden) dataKeys) \<le> 1)"

definition sortAfterHide :: "sorting \<Rightarrow> string list \<Rightarrow> sorting" where
  "sortAfterHide cur hidden = (if fst cur \<notin> set hidden then cur else (''name'', firstDir ''name''))"

section \<open>Paging\<close>

datatype per_page = All | Per nat

definition perPageOptions :: "nat \<Rightarrow> nat list" where
  "perPageOptions tot = filter (\<lambda>n. tot mod n = 0) (rev [5..<tot])"

definition pageCount :: "nat \<Rightarrow> per_page \<Rightarrow> nat" where
  "pageCount tot perPage = (case perPage of All \<Rightarrow> 1
     | Per p \<Rightarrow> if p = 0 then 1 else max 1 (nat \<lceil>real tot / real p\<rceil>))"

record page_view =
  v_rows :: "row list"
  v_page :: nat
  v_pages :: nat
  v_total :: nat

definition pageSlice :: "row list \<Rightarrow> per_page \<Rightarrow> int \<Rightarrow> row list \<times> nat \<times> nat" where
  "pageSlice rows perPage page =
     (let pages = pageCount (length rows) perPage;
          cur = nat (min (max 1 page) (int pages))
      in case perPage of
           All \<Rightarrow> (rows, cur, pages)
         | Per p \<Rightarrow> (take p (drop ((cur - 1) * p) rows), cur, pages))"

definition viewRows ::
    "(string \<Rightarrow> string \<Rightarrow> real) \<Rightarrow> (string \<Rightarrow> string) \<Rightarrow> row list \<Rightarrow> string \<Rightarrow> string option \<Rightarrow> sorting \<Rightarrow> per_page \<Rightarrow> int \<Rightarrow> page_view" where
  "viewRows collate lower rows mode query srt perPage page =
     (let kept = queryRows lower (filterRows rows mode) query in
      case pageSlice (sortRows collate kept (fst srt) (snd srt)) perPage page of
        (rs, cur, pages) \<Rightarrow> \<lparr>v_rows = rs, v_page = cur, v_pages = pages, v_total = length kept\<rparr>)"

section \<open>The table element\<close>

text \<open>
  The table body as the order of its row elements and the hidden ones, the header cells with
  their \<open>aria-sort\<close>; \<open>appendChild\<close> of an element already there moves it to the end.
\<close>

record tbody =
  t_order :: "nat list"
  t_hidden :: "nat list"

definition append_child :: "nat \<Rightarrow> nat list \<Rightarrow> nat list" where
  "append_child e order = filter (\<lambda>x. x \<noteq> e) order @ [e]"

definition applyRows :: "row list \<Rightarrow> row list \<Rightarrow> tbody \<Rightarrow> tbody" where
  "applyRows all visible tb =
     \<lparr>t_order = foldl (\<lambda>order r. append_child (r_el r) order) (t_order tb) visible,
      t_hidden = map r_el (filter (\<lambda>r. r_el r \<notin> r_el ` set visible) all)\<rparr>"

text \<open>A header cell is its sort key and its \<open>cellIndex\<close>; of every body cell only \<open>hidden\<close> counts.\<close>

type_synonym header_cell = "string \<times> nat"

record grid_hidden =
  g_heads :: "(string \<times> bool) list"
  g_cells :: "bool list list"

definition set_cell :: "nat \<Rightarrow> bool \<Rightarrow> bool list \<Rightarrow> bool list" where
  "set_cell i off cells = (if i < length cells then cells[i := off] else cells)"

definition applyColumns :: "header_cell list \<Rightarrow> string list \<Rightarrow> bool list list \<Rightarrow> grid_hidden" where
  "applyColumns heads hidden rows =
     \<lparr>g_heads = map (\<lambda>(key, _). (key, key \<in> set hidden)) heads,
      g_cells = foldl (\<lambda>rows (key, i). map (set_cell i (key \<in> set hidden)) rows) rows heads\<rparr>"

definition markSorted :: "string list \<Rightarrow> sorting \<Rightarrow> (string \<times> string option) list" where
  "markSorted heads srt = map (\<lambda>key. (key, if key = fst srt
     then Some (if snd srt = Asc then ''ascending'' else ''descending'') else None)) heads"

section \<open>Lemmas\<close>

definition row_ok :: "row \<Rightarrow> bool" where
  "row_ok r \<longleftrightarrow> num_finite (r_sensors r) \<and> (case r_value r of Some v \<Rightarrow> num_finite v | None \<Rightarrow> r_nodata r)"

definition finite_key :: "string \<Rightarrow> row \<Rightarrow> real" where
  "finite_key key r = (case sort_value key r of Fin x \<Rightarrow> x | _ \<Rightarrow> 0)"

lemma sort_value_finite: "row_ok r \<Longrightarrow> sort_value key r = Fin (finite_key key r)"
  by (auto simp: row_ok_def sort_value_def finite_key_def num_finite_def split: option.splits jsnum.splits)

lemma compare_finite:
  "row_ok a \<Longrightarrow> row_ok b \<Longrightarrow> compare collate key dir a b =
     (if r_nodata a \<noteq> r_nodata b then (if r_nodata a then 1 else - 1)
      else (if key = ''name'' then collate (r_name a) (r_name b) else finite_key key a - finite_key key b)
        * (if dir = Asc then 1 else - 1))"
  by (simp add: compare_def sort_value_finite)

definition total_compare :: "(string \<Rightarrow> string \<Rightarrow> real) \<Rightarrow> string \<Rightarrow> dir \<Rightarrow> row \<Rightarrow> row \<Rightarrow> real" where
  "total_compare collate key dir a b =
     (if r_nodata a \<noteq> r_nodata b then (if r_nodata a then 1 else - 1)
      else (if key = ''name'' then collate (r_name a) (r_name b) else finite_key key a - finite_key key b)
        * (if dir = Asc then 1 else - 1))"

text \<open>What the standard guarantees of \<open>localeCompare\<close>: an ordering of the strings.\<close>

definition collation :: "(string \<Rightarrow> string \<Rightarrow> real) \<Rightarrow> bool" where
  "collation collate \<longleftrightarrow> (\<forall>a b. sgn (collate b a) = - sgn (collate a b))
     \<and> (\<forall>a b c. collate a b \<le> 0 \<and> collate b c \<le> 0 \<longrightarrow> collate a c \<le> 0)"

lemma collation_flip: "collation collate \<Longrightarrow> 0 \<le> collate a b \<longleftrightarrow> collate b a \<le> 0"
proof -
  assume "collation collate"
  then have "sgn (collate b a) = - sgn (collate a b)" unfolding collation_def by blast
  then show ?thesis by (auto simp: sgn_if split: if_splits)
qed

text \<open>A comparator that is a sign times a difference or a collation orders the rows.\<close>

definition base_compare :: "(string \<Rightarrow> string \<Rightarrow> real) \<Rightarrow> string \<Rightarrow> row \<Rightarrow> row \<Rightarrow> real" where
  "base_compare collate key a b = (if key = ''name'' then collate (r_name a) (r_name b) else finite_key key a - finite_key key b)"

lemma base_compare_facts:
  assumes "collation collate"
  shows "0 \<le> base_compare collate key a b \<longleftrightarrow> base_compare collate key b a \<le> 0"
    "base_compare collate key a b \<le> 0 \<Longrightarrow> base_compare collate key b c \<le> 0 \<Longrightarrow> base_compare collate key a c \<le> 0"
proof -
  show "0 \<le> base_compare collate key a b \<longleftrightarrow> base_compare collate key b a \<le> 0"
    using collation_flip [OF assms, of "r_name a" "r_name b"] by (simp add: base_compare_def)
  have t: "collate x y \<le> 0 \<Longrightarrow> collate y z \<le> 0 \<Longrightarrow> collate x z \<le> 0" for x y z
    using assms unfolding collation_def by blast
  show "base_compare collate key a b \<le> 0 \<Longrightarrow> base_compare collate key b c \<le> 0 \<Longrightarrow> base_compare collate key a c \<le> 0"
    using t [of "r_name a" "r_name b" "r_name c"] by (cases "key = ''name''") (simp_all add: base_compare_def)
qed

lemma total_compare_base:
  "total_compare collate key dir a b = (if r_nodata a \<noteq> r_nodata b then (if r_nodata a then 1 else - 1)
     else base_compare collate key a b * (if dir = Asc then 1 else - 1))"
  by (simp add: total_compare_def base_compare_def)

lemma consistent_grouped:
  fixes c :: "'a \<Rightarrow> 'a \<Rightarrow> real"
  assumes up: "\<And>a b. 0 < c a b \<longleftrightarrow> c b a < 0"
    and tr: "\<And>a b d. c a b \<le> 0 \<Longrightarrow> c b d \<le> 0 \<Longrightarrow> c a d \<le> 0"
  shows "consistent (\<lambda>a b. if P a \<noteq> P b then (if P a then 1 else - 1) else c a b)"
proof -
  let ?c = "\<lambda>a b. if P a \<noteq> P b then (if P a then 1 else - 1) else c a b"
  have "?c a b \<le> 0 \<or> ?c b a \<le> 0" for a b
    using up [of a b] by (cases "P a"; cases "P b"; simp; linarith)
  moreover have "?c b a < 0" if "0 < ?c a b" for a b
    using up [of a b] that by (cases "P a"; cases "P b"; simp)
  moreover have "?c a d \<le> 0" if "?c a b \<le> 0" "?c b d \<le> 0" for a b d
    using tr [of a b d] that by (cases "P a"; cases "P b"; cases "P d"; simp)
  ultimately show ?thesis unfolding consistent_def by blast
qed

lemma consistent_total:
  assumes "collation collate"
  shows "consistent (total_compare collate key dir)"
proof -
  note f = base_compare_facts [OF assms, of key]
  let ?c = "\<lambda>a b. base_compare collate key a b * (if dir = Asc then 1 else - 1)"
  have up: "0 < base_compare collate key a b \<longleftrightarrow> base_compare collate key b a < 0" for a b
    using f(1) [of b a] by linarith
  have rev: "0 \<le> base_compare collate key a b \<Longrightarrow> 0 \<le> base_compare collate key b c \<Longrightarrow> 0 \<le> base_compare collate key a c" for a b c
    using f(1) [of a b] f(1) [of b c] f(1) [of a c] f(2) [of c b a] by blast
  have "0 < ?c a b \<longleftrightarrow> ?c b a < 0" for a b using up [of a b] up [of b a] by simp
  moreover have "?c a b \<le> 0 \<Longrightarrow> ?c b d \<le> 0 \<Longrightarrow> ?c a d \<le> 0" for a b d
    using f(2) [of a b d] rev [of a b d] by (cases dir) simp_all
  ultimately show ?thesis
    unfolding total_compare_base [abs_def] by (rule consistent_grouped)
qed

lemma sortRows_total:
  "\<forall>r \<in> set rows. row_ok r \<Longrightarrow> sortRows collate rows key dir = js_sort (total_compare collate key dir) rows"
  unfolding sortRows_def by (rule js_sort_cong) (simp add: compare_finite total_compare_def)

lemma sunk_split:
  "sorted_wrt (\<lambda>a b. P a \<longrightarrow> P b) xs \<Longrightarrow> \<exists>k. (\<forall>x \<in> set (take k xs). \<not> P x) \<and> (\<forall>x \<in> set (drop k xs). P x)"
proof (induction xs)
  case (Cons x xs)
  show ?case
  proof (cases "P x")
    case True
    with Cons.prems show ?thesis by (intro exI [of _ 0]) auto
  next
    case False
    from Cons obtain k where "\<forall>x \<in> set (take k xs). \<not> P x" "\<forall>x \<in> set (drop k xs). P x" by auto
    with False show ?thesis by (intro exI [of _ "Suc k"]) auto
  qed
qed simp

lemma concat_pages: "concat (map (\<lambda>i. take p (drop (i * p) xs)) [0..<n]) = take (n * p) xs"
proof (induction n)
  case (Suc n)
  have "take (Suc n * p) xs = take (n * p) xs @ take p (drop (n * p) xs)"
    by (metis mult_Suc add.commute take_add)
  with Suc show ?case by simp
qed simp

lemma pageCount_covers: "0 < p \<Longrightarrow> m \<le> pageCount m (Per p) * p"
proof -
  assume p: "0 < p"
  have "real m / real p \<le> real (nat \<lceil>real m / real p\<rceil>)" by linarith
  then have "real m \<le> real (nat \<lceil>real m / real p\<rceil>) * real p" 
    using p by (simp only: pos_divide_le_eq of_nat_0_less_iff)
  then have "m \<le> nat \<lceil>real m / real p\<rceil> * p" by (metis of_nat_le_iff of_nat_mult)
  also have "\<dots> \<le> pageCount m (Per p) * p" using p by (simp add: pageCount_def)
  finally show ?thesis .
qed

lemma pageCount_exact: "0 < p \<Longrightarrow> m mod p = 0 \<Longrightarrow> 0 < m \<Longrightarrow> pageCount m (Per p) * p = m"
proof -
  assume a: "0 < p" "m mod p = 0" "0 < m"
  then obtain q where q: "m = q * p" by (metis dvd_div_mult_self mod_0_imp_dvd)
  with a have "nat \<lceil>real m / real p\<rceil> = q" "0 < q" by simp_all
  with a q show ?thesis by (simp add: pageCount_def)
qed

lemma pageSlice_page:
  "1 \<le> i \<Longrightarrow> i \<le> pageCount (length rows) (Per p) \<Longrightarrow>
     pageSlice rows (Per p) (int i) = (take p (drop ((i - 1) * p) rows), i, pageCount (length rows) (Per p))"
  by (simp add: pageSlice_def Let_def)

lemma pageSlice_clamped:
  "1 \<le> fst (snd (pageSlice rows pp page)) \<and> fst (snd (pageSlice rows pp page)) \<le> pageCount (length rows) pp"
proof -
  have "1 \<le> pageCount (length rows) pp" by (cases pp) (simp_all add: pageCount_def)
  then show ?thesis by (cases pp) (auto simp: pageSlice_def Let_def)
qed

lemma append_children:
  "foldl (\<lambda>order e. append_child e order) order es = filter (\<lambda>x. x \<notin> set es) order @ es" if "distinct es"
  using that
proof (induction es arbitrary: order)
  case (Cons e es)
  then show ?case by (auto simp: append_child_def conj_commute)
qed simp

lemma applyColumns_length [simp]: "length (g_cells (applyColumns heads hidden rows)) = length rows"
proof -
  have "length (foldl (\<lambda>rows (key, i). map (set_cell i (key \<in> set hidden)) rows) rows heads) = length rows" for heads
    by (induction heads arbitrary: rows) auto
  then show ?thesis by (simp add: applyColumns_def)
qed

lemma set_cell_length [simp]: "length (set_cell i off cells) = length cells"
  by (simp add: set_cell_def)

lemma set_cell_nth: "j < length cells \<Longrightarrow> set_cell i off cells ! j = (if i = j then off else cells ! j)"
  by (simp add: set_cell_def)

lemma fold_cells:
  "r < length rows \<Longrightarrow> j < length (rows ! r) \<Longrightarrow> distinct (map snd heads) \<Longrightarrow>
     foldl (\<lambda>rows (key, i). map (set_cell i (key \<in> set hidden)) rows) rows heads ! r ! j
       = (case map_of (map (\<lambda>(key, i). (i, key)) heads) j of Some key \<Rightarrow> key \<in> set hidden | None \<Rightarrow> rows ! r ! j)"
proof (induction heads arbitrary: rows)
  case (Cons h heads)
  obtain key i where h: "h = (key, i)" by (cases h)
  have "map_of (map (\<lambda>(key, i). (i, key)) heads) i = None"
    using Cons.prems(3) h by (auto simp: map_of_eq_None_iff image_iff)
  with Cons h show ?case by (auto simp: set_cell_nth split: option.splits)
qed simp

text \<open>The keys on show, and the runs of the column menu.\<close>

definition shown_keys :: "string list \<Rightarrow> string list \<Rightarrow> string list" where
  "shown_keys hidden dataKeys = filter (\<lambda>k. k \<notin> set hidden) dataKeys"

lemma nextHidden_keeps:
  assumes "shown_keys hidden dataKeys \<noteq> []" "distinct dataKeys" "set hidden \<subseteq> set dataKeys"
  shows "shown_keys (nextHidden hidden key dataKeys) dataKeys \<noteq> []"
    "set (nextHidden hidden key dataKeys) \<subseteq> set dataKeys"
proof -
  let ?v = "shown_keys hidden dataKeys"
  show "set (nextHidden hidden key dataKeys) \<subseteq> set dataKeys"
    using assms(3) by (auto simp: nextHidden_def)
  show "shown_keys (nextHidden hidden key dataKeys) dataKeys \<noteq> []"
  proof (cases "key \<in> set dataKeys \<and> key \<notin> set hidden \<and> 1 < length ?v")
    case True
    have "shown_keys (nextHidden hidden key dataKeys) dataKeys = filter (\<lambda>k. k \<noteq> key) ?v"
      using True by (auto simp: nextHidden_def shown_keys_def intro: filter_cong)
    moreover have "filter (\<lambda>k. k \<noteq> key) ?v \<noteq> []"
    proof
      assume "filter (\<lambda>k. k \<noteq> key) ?v = []"
      then have "set ?v \<subseteq> {key}" by (auto simp: filter_empty_conv)
      then have "card (set ?v) \<le> 1" using card_mono [of "{key}"] by simp
      moreover have "card (set ?v) = length ?v"
        using assms(2) by (intro distinct_card) (simp add: shown_keys_def)
      ultimately show False using True by simp
    qed
    ultimately show ?thesis by simp
  next
    case False
    then show ?thesis using assms(1)
      by (auto simp: nextHidden_def shown_keys_def filter_empty_conv)
  qed
qed

lemma menu_run:
  "shown_keys hidden dataKeys \<noteq> [] \<Longrightarrow> distinct dataKeys \<Longrightarrow> set hidden \<subseteq> set dataKeys \<Longrightarrow>
     shown_keys (foldl (\<lambda>h k. nextHidden h k dataKeys) hidden clicks) dataKeys \<noteq> []
     \<and> set (foldl (\<lambda>h k. nextHidden h k dataKeys) hidden clicks) \<subseteq> set dataKeys"
  by (induction clicks arbitrary: hidden) (simp_all add: nextHidden_keeps)

section \<open>Properties\<close>

text \<open>Sorting by any column in either direction only reorders the rows: the silent ones sink
  below every reading even when ascending, the readings and the silent rows are each in the
  order of the column, and rows the column cannot tell apart keep the server's ranking.\<close>

theorem sorted_rows_sink_and_rank:
  assumes "collation collate" "\<forall>r \<in> set rows. row_ok r" "out = sortRows collate rows key dir"
  shows "mset out = mset rows
    \<and> (\<exists>k. (\<forall>r \<in> set (take k out). \<not> r_nodata r) \<and> (\<forall>r \<in> set (drop k out). r_nodata r))
    \<and> sorted_wrt (\<lambda>a b. r_nodata a = r_nodata b \<longrightarrow>
         (if dir = Asc then base_compare collate key a b \<le> 0 else base_compare collate key b a \<le> 0)) out
    \<and> (key \<noteq> ''name'' \<longrightarrow> filter (\<lambda>r. r_nodata r = nd \<and> finite_key key r = v) out
         = filter (\<lambda>r. r_nodata r = nd \<and> finite_key key r = v) rows)"
proof -
  note out = assms(3) [unfolded sortRows_total [OF assms(2)]]
  have s: "sorted_wrt (\<lambda>a b. total_compare collate key dir a b \<le> 0) out"
    unfolding out by (rule sorted_js_sort [OF consistent_total [OF assms(1)]])
  have sink: "sorted_wrt (\<lambda>a b. r_nodata a \<longrightarrow> r_nodata b) out"
    by (rule sorted_wrt_mono_rel [OF _ s]) (auto simp: total_compare_base split: if_splits)
  have "sorted_wrt (\<lambda>a b. r_nodata a = r_nodata b \<longrightarrow>
      (if dir = Asc then base_compare collate key a b \<le> 0 else base_compare collate key b a \<le> 0)) out"
    using base_compare_facts(1) [OF assms(1), of key]
    by (intro sorted_wrt_mono_rel [OF _ s]) (auto simp: total_compare_base split: if_splits)
  moreover have "filter (\<lambda>r. r_nodata r = nd \<and> finite_key key r = v) out
      = filter (\<lambda>r. r_nodata r = nd \<and> finite_key key r = v) rows" if "key \<noteq> ''name''"
    unfolding out by (rule js_sort_stable) (simp add: total_compare_def that)
  ultimately show ?thesis using sunk_split [OF sink] by (simp add: out)
qed

definition a_row :: "nat \<Rightarrow> jsnum option \<Rightarrow> row" where
  "a_row i v = \<lparr>r_el = i, r_name = [], r_value = v, r_sensors = Fin 1, r_nodata = (v = None)\<rparr>"

theorem sorted_rows_sink_and_rank_witness:
  "\<exists>k. (\<forall>r \<in> set (take k (sortRows (\<lambda>_ _. 0) [a_row 0 None, a_row 1 (Some (Fin 3))] ''value'' Asc)). \<not> r_nodata r)
     \<and> (\<forall>r \<in> set (drop k (sortRows (\<lambda>_ _. 0) [a_row 0 None, a_row 1 (Some (Fin 3))] ''value'' Asc)). r_nodata r)"
  using sorted_rows_sink_and_rank [of "\<lambda>_ _. 0" "[a_row 0 None, a_row 1 (Some (Fin 3))]", OF _ _ refl]
  by (simp add: collation_def row_ok_def a_row_def num_finite_def)

text \<open>Paging shows every row exactly once and in order over pages 1 to the last, a page never
  holds more than it should, any page asked for is clamped into that range, and with a size the
  menu offers every page is full.\<close>

theorem pages_partition_the_rows:
  assumes "0 < p" "n = pageCount (length rows) (Per p)"
  shows "concat (map (\<lambda>i. fst (pageSlice rows (Per p) (int i))) [1..<Suc n]) = rows
    \<and> length (fst (pageSlice rows (Per p) page)) \<le> p
    \<and> 1 \<le> fst (snd (pageSlice rows (Per p) page)) \<and> fst (snd (pageSlice rows (Per p) page)) \<le> n
    \<and> (p \<in> set (perPageOptions (length rows)) \<longrightarrow> length (fst (pageSlice rows (Per p) page)) = p)"
proof -
  have pages: "map (\<lambda>i. fst (pageSlice rows (Per p) (int i))) [1..<Suc n] = map (\<lambda>i. take p (drop (i * p) rows)) [0..<n]"
  proof (rule nth_equalityI)
    fix i assume i: "i < length (map (\<lambda>i. fst (pageSlice rows (Per p) (int i))) [1..<Suc n])"
    then have "[1..<Suc n] ! i = Suc i" by (simp del: upt_Suc)
    with i show "map (\<lambda>i. fst (pageSlice rows (Per p) (int i))) [1..<Suc n] ! i = map (\<lambda>i. take p (drop (i * p) rows)) [0..<n] ! i"
      using pageSlice_page [of "Suc i" rows p] assms(2) by (simp del: upt_Suc)
  qed (simp del: upt_Suc)
  have cov: "take (n * p) rows = rows" using pageCount_covers [OF assms(1)] assms(2) by simp
  have full: "length (fst (pageSlice rows (Per p) page)) = p" if o: "p \<in> set (perPageOptions (length rows))"
  proof -
    let ?c = "fst (snd (pageSlice rows (Per p) page))"
    have e: "n * p = length rows" unfolding assms(2)
      using o by (intro pageCount_exact assms(1)) (auto simp: perPageOptions_def)
    have c: "1 \<le> ?c" "?c \<le> n" using pageSlice_clamped [of rows "Per p" page] assms(2) by auto
    have "fst (pageSlice rows (Per p) page) = take p (drop ((?c - 1) * p) rows)" by (simp add: pageSlice_def Let_def)
    moreover have "(?c - 1) * p + p \<le> n * p"
      using c by (metis Suc_diff_1 mult_Suc add.commute less_eq_Suc_le mult_le_mono1 One_nat_def)
    ultimately show ?thesis using e by simp
  qed
  have le: "length (fst (pageSlice rows (Per p) page)) \<le> p" by (simp add: pageSlice_def Let_def)
  show ?thesis
    unfolding pages concat_pages cov using full le pageSlice_clamped [of rows "Per p" page] assms(2) by simp
qed

theorem pages_partition_the_rows_witness:
  "concat (map (\<lambda>i. fst (pageSlice [a_row 0 None, a_row 1 None, a_row 2 None] (Per 2) (int i))) [1..<Suc 2])
     = [a_row 0 None, a_row 1 None, a_row 2 None]"
proof -
  let ?rows = "[a_row 0 None, a_row 1 None, a_row 2 None]"
  have "\<lceil>(3::real) / 2\<rceil> = 2" by (simp add: ceiling_unique)
  then have "2 = pageCount (length ?rows) (Per 2)" by (simp add: pageCount_def)
  from pages_partition_the_rows [OF _ this, of 1] show ?thesis by (simp del: upt_Suc)
qed

text \<open>The column menu cannot empty the table: after any clicks at least one data column is
  showing and the names are never hidden, a box is disabled exactly when clicking it would do
  nothing, and the column the table is then sorted by is one on show.\<close>

theorem column_menu_keeps_a_column:
  assumes "dataKeys \<noteq> []" "distinct dataKeys" "''name'' \<notin> set dataKeys" "key \<in> set dataKeys"
    "h = foldl (\<lambda>h k. nextHidden h k dataKeys) [] clicks"
  shows "shown_keys h dataKeys \<noteq> [] \<and> ''name'' \<notin> set h
    \<and> (columnLocked h key dataKeys \<longleftrightarrow> nextHidden h key dataKeys = h)
    \<and> fst (sortAfterHide srt h) \<notin> set h"
proof -
  have "shown_keys [] dataKeys \<noteq> []" using assms(1) by (simp add: shown_keys_def)
  from menu_run [OF this assms(2), of clicks] assms(5)
  have h: "shown_keys h dataKeys \<noteq> []" "set h \<subseteq> set dataKeys" by simp_all
  have "filter (\<lambda>k. k \<noteq> key) h \<noteq> h" if "key \<in> set h"
    using that by (metis (mono_tags, lifting) filter_id_conv)
  then have "columnLocked h key dataKeys \<longleftrightarrow> nextHidden h key dataKeys = h"
    using assms(4) by (auto simp: columnLocked_def nextHidden_def)
  with h assms(3) show ?thesis by (auto simp: sortAfterHide_def)
qed

theorem column_menu_keeps_a_column_witness:
  "columnLocked [''value''] ''sensors'' [''value'', ''sensors'']
     \<longleftrightarrow> nextHidden [''value''] ''sensors'' [''value'', ''sensors''] = [''value'']"
proof -
  have "[''value''] = foldl (\<lambda>h k. nextHidden h k [''value'', ''sensors'']) [] [''value'', ''sensors'']"
    by (simp add: nextHidden_def)
  from column_menu_keeps_a_column [OF _ _ _ _ this, of "''sensors''"] show ?thesis by simp
qed

text \<open>What the reader sees is the view: the rows of the table body that are not hidden are
  exactly the view's rows in the view's order, no row is lost or duplicated, and a cell is hidden
  exactly when the menu hides the column its header stands in.\<close>

theorem table_shows_the_view:
  assumes "distinct (t_order tb)" "map r_el rows = t_order tb" "distinct visible" "set visible \<subseteq> set rows"
    "distinct (map snd heads)" "(key, j) \<in> set heads" "r < length cells" "j < length (cells ! r)"
  shows "filter (\<lambda>e. e \<notin> set (t_hidden (applyRows rows visible tb))) (t_order (applyRows rows visible tb)) = map r_el visible
    \<and> mset (t_order (applyRows rows visible tb)) = mset (t_order tb)
    \<and> (g_cells (applyColumns heads hidden cells) ! r ! j \<longleftrightarrow> key \<in> set hidden)"
proof -
  have "distinct (map r_el rows)" unfolding assms(2) by (rule assms(1))
  then have inj: "inj_on r_el (set rows)" by (simp only: distinct_map)
  then have dv: "distinct (map r_el visible)"
    using assms(3,4) by (auto simp: distinct_map inj_on_subset)
  have sub: "r_el ` set visible \<subseteq> set (t_order tb)"
    using assms(4) by (auto simp flip: assms(2))
  have order: "t_order (applyRows rows visible tb)
      = filter (\<lambda>x. x \<notin> r_el ` set visible) (t_order tb) @ map r_el visible"
    using append_children [OF dv, of "t_order tb"] by (simp add: applyRows_def foldl_map)
  have "x \<in> set (t_hidden (applyRows rows visible tb)) \<longleftrightarrow> x \<in> set (t_order tb) \<and> x \<notin> r_el ` set visible" for x
    by (auto simp: applyRows_def simp flip: assms(2))
  then have "filter (\<lambda>e. e \<notin> set (t_hidden (applyRows rows visible tb))) (t_order (applyRows rows visible tb)) = map r_el visible"
    unfolding order by (auto simp: filter_empty_conv intro!: filter_True)
  moreover have "mset (t_order (applyRows rows visible tb)) = mset (t_order tb)"
  proof -
    have "set (t_order (applyRows rows visible tb)) = set (t_order tb)" unfolding order using sub by auto
    moreover have "distinct (t_order (applyRows rows visible tb))" unfolding order using dv assms(1) by auto
    ultimately show ?thesis using assms(1) set_eq_iff_mset_eq_distinct by blast
  qed
  moreover have "map_of (map (\<lambda>(key, i). (i, key)) heads) j = Some key"
    using assms(5,6) by (intro map_of_is_SomeI) (force simp: comp_def case_prod_unfold)+
  ultimately show ?thesis
    using fold_cells [OF assms(7,8,5), of hidden] by (simp add: applyColumns_def)
qed

definition two_rows :: tbody where
  "two_rows = \<lparr>t_order = [0, 1], t_hidden = []\<rparr>"

theorem table_shows_the_view_witness:
  "filter (\<lambda>e. e \<notin> set (t_hidden (applyRows [a_row 0 None, a_row 1 None] [a_row 1 None] two_rows)))
     (t_order (applyRows [a_row 0 None, a_row 1 None] [a_row 1 None] two_rows)) = map r_el [a_row 1 None]"
proof -
  let ?cells = "[[False, False]]"
  have "distinct (t_order two_rows)" "map r_el [a_row 0 None, a_row 1 None] = t_order two_rows"
    by (simp_all add: two_rows_def a_row_def)
  from table_shows_the_view [OF this, of "[a_row 1 None]" "[(''value'', 1)]" "''value''" 1 0 ?cells "[''value'']"]
  show ?thesis by (simp only: distinct.simps list.set list.simps length_Cons) simp
qed

end
