(* ===== verification/Stations.thy ===== *)
theory Stations
  imports Storage Filters Scales
begin

text \<open>
  What the map knows about sensors: a columnar response is a row per device, and everything the
  reader sees is a station, the devices at one address. Grouping, readings, flags
  (\<open>web/src/lib/stations.js\<close>), the registry that the panel reads (\<open>sensors.svelte.js\<close>), the
  markers (\<open>mapfeatures.js\<close>), the count line (\<open>sensorcount.js\<close>), the comparison with the area
  (\<open>areastats.js\<close>), the panel's rows (\<open>sensorview.js\<close>) and the nearest area or sensor
  (\<open>nearest.js\<close>). A response is a \<^typ>\<open>jsval\<close>: what is missing reads as \<open>undefined\<close>. Its
  objects have no inherited property names among their metrics.
\<close>

section \<open>Devices and stations (stations.js)\<close>

definition META_COLUMNS :: "string list" where
  "META_COLUMNS = [''id'', ''type'', ''lon'', ''lat'', ''quality'', ''flags'', ''station'', ''measures'',
     ''first_seen'', ''last_seen'', ''source'', ''station_code'', ''station_name'', ''station_type'', ''station_area'']"

definition col :: "jsval \<Rightarrow> string \<Rightarrow> jsval" where
  "col body name = jget (jget body ''sensors'') name"

definition ids :: "jsval \<Rightarrow> jsval list" where
  "ids body = elems (col body ''id'')"

definition metricColumnsOf :: "jsval \<Rightarrow> string list" where
  "metricColumnsOf body = filter (\<lambda>k. k \<notin> set META_COLUMNS) (map fst (obj_entries (jget body ''sensors'')))"

definition measuresAt :: "jsval \<Rightarrow> nat list \<Rightarrow> string list" where
  "measuresAt body indices = (let columns = metricColumnsOf body; measures = col body ''measures'' in
     if \<not> is_array measures then columns
     else let measured = foldl (\<lambda>acc i. foldl (\<lambda>acc m. set_add m acc) acc (elems (jidx measures i))) [] indices
       in filter (\<lambda>metric. JStr metric \<in> set measured) columns)"

definition station_key :: "jsval \<Rightarrow> nat \<Rightarrow> jsval" where
  "station_key body i = or_else (jidx (col body ''station'') i) (jidx (col body ''id'') i)"

type_synonym station = "jsval \<times> nat list"

definition add_member :: "jsval \<Rightarrow> station list \<Rightarrow> nat \<Rightarrow> station list" where
  "add_member body m i = (let k = station_key body i in
     AList.update k ((case map_of m k of Some is \<Rightarrow> is | None \<Rightarrow> []) @ [i]) m)"

definition by_id :: "jsval \<Rightarrow> nat \<Rightarrow> nat \<Rightarrow> real" where
  "by_id body a b = js_minus (to_number (jidx (col body ''id'') a)) (to_number (jidx (col body ''id'') b))"

definition stationsOf :: "jsval \<Rightarrow> station list" where
  "stationsOf body = map (\<lambda>(k, is). (k, js_sort (by_id body) is))
     (foldl (add_member body) [] [0..<length (ids body)])"

definition stationMembers :: "jsval \<Rightarrow> jsval \<Rightarrow> station option" where
  "stationMembers body i = (if nullish i then None
     else case find (\<lambda>k. num_eq (to_number (ids body ! k)) (to_number i)) [0..<length (ids body)] of
         None \<Rightarrow> None
       | Some k \<Rightarrow> find (\<lambda>s. num_eq (to_number (fst s)) (to_number (station_key body k))) (stationsOf body))"

definition reading_of :: "jsval \<Rightarrow> string \<Rightarrow> nat \<Rightarrow> jsval" where
  "reading_of body metric i = (if is_array (col body metric) then or_else (jidx (col body metric) i) JNull else JNull)"

definition readingAt :: "jsval \<Rightarrow> nat list \<Rightarrow> string \<Rightarrow> jsval \<times> jsval" where
  "readingAt body indices metric =
     (case find (\<lambda>i. reading_of body metric i \<noteq> JNull) indices of
        Some i \<Rightarrow> (reading_of body metric i, jidx (col body ''id'') i)
      | None \<Rightarrow> (JNull, case indices of [] \<Rightarrow> JNull | i # _ \<Rightarrow> or_else (jidx (col body ''id'') i) JNull))"

definition flagsAt :: "jsval \<Rightarrow> nat list \<Rightarrow> (string \<times> jsval) list" where
  "flagsAt body indices = (let column = col body ''flags'' in
     if \<not> is_array column then []
     else foldl (\<lambda>out i. foldl (\<lambda>out (metric, flag). if truthy flag \<and> metric \<notin> fst ` set out
         then out @ [(metric, flag)] else out) out (obj_entries (jidx column i))) [] indices)"

definition USABLE_FLAGS :: "jsval list" where
  "USABLE_FLAGS = [JStr [], JStr ''ok'', JStr ''no_neighbours'']"

definition isFaultyAt :: "jsval \<Rightarrow> nat list \<Rightarrow> string \<Rightarrow> bool" where
  "isFaultyAt body indices metric = (if fst (readingAt body indices metric) \<noteq> JNull then False
     else case map_of (flagsAt body indices) metric of
         None \<Rightarrow> False | Some flag \<Rightarrow> truthy flag \<and> flag \<notin> set USABLE_FLAGS)"

section \<open>The registry (sensors.svelte.js)\<close>

record registry =
  reg_body :: jsval
  reg_scales :: scales
  reg_area :: jsval

definition init_registry :: registry where
  "init_registry = \<lparr>reg_body = JNull, reg_scales = None, reg_area = JNull\<rparr>"

definition setSensors :: "jsval \<Rightarrow> jsval \<Rightarrow> registry \<Rightarrow> registry" where
  "setSensors next slug r = r\<lparr>reg_body := next, reg_area := slug\<rparr>"

definition setScales :: "scales \<Rightarrow> registry \<Rightarrow> registry" where
  "setScales next r = r\<lparr>reg_scales := next\<rparr>"

record device_row =
  dv_id :: jsval
  dv_type :: jsval
  dv_first :: jsval
  dv_last :: jsval

record sensor =
  sn_id :: jsval
  sn_flag :: jsval
  sn_flags :: "(string \<times> jsval) list option"
  sn_values :: "(string \<times> jsval) list"
  sn_sources :: "(string \<times> jsval) list"
  sn_lon :: jsval
  sn_lat :: jsval
  sn_source :: jsval
  sn_code :: jsval
  sn_name :: jsval
  sn_type :: jsval
  sn_area :: jsval
  sn_devices :: "device_row list"

text \<open>\<open>cols.name?.[i] ?? fallback\<close>\<close>

definition cell_or :: "jsval \<Rightarrow> string \<Rightarrow> nat \<Rightarrow> jsval \<Rightarrow> jsval" where
  "cell_or body name i fallback = or_else (jidx (col body name) i) fallback"

definition stationFlag :: "jsval \<Rightarrow> nat list \<Rightarrow> jsval" where
  "stationFlag body indices =
     (case find (\<lambda>i. truthy (cell_or body ''quality'' i (JStr [])) \<and> cell_or body ''quality'' i (JStr []) \<noteq> JStr ''ok'') indices of
        Some i \<Rightarrow> cell_or body ''quality'' i (JStr [])
      | None \<Rightarrow> (case indices of [] \<Rightarrow> JStr [] | i # _ \<Rightarrow> cell_or body ''quality'' i (JStr [])))"

definition normaliseSensor :: "jsval \<Rightarrow> jsval \<Rightarrow> sensor option" where
  "normaliseSensor body i = map_option (\<lambda>(k, is). let z = hd is; ms = measuresAt body is in
     \<lparr>sn_id = k, sn_flag = stationFlag body is,
      sn_flags = (if is_array (col body ''flags'') then Some (flagsAt body is) else None),
      sn_values = map (\<lambda>m. (m, fst (readingAt body is m))) ms,
      sn_sources = map (\<lambda>m. (m, snd (readingAt body is m))) ms,
      sn_lon = cell_or body ''lon'' z JNull, sn_lat = cell_or body ''lat'' z JNull,
      sn_source = cell_or body ''source'' z (JStr []), sn_code = cell_or body ''station_code'' z (JStr []),
      sn_name = cell_or body ''station_name'' z (JStr []), sn_type = cell_or body ''station_type'' z (JStr []),
      sn_area = cell_or body ''station_area'' z (JStr []),
      sn_devices = map (\<lambda>i. \<lparr>dv_id = cell_or body ''id'' i JNull, dv_type = cell_or body ''type'' i (JStr []),
         dv_first = cell_or body ''first_seen'' i JNull, dv_last = cell_or body ''last_seen'' i JNull\<rparr>) is\<rparr>)
     (stationMembers body i)"

definition findSensor :: "jsval \<Rightarrow> registry \<Rightarrow> sensor option" where
  "findSensor i r = (if nullish i then None else normaliseSensor (reg_body r) i)"

section \<open>Markers (mapfeatures.js)\<close>

record area_feature =
  af_lon :: jsval
  af_lat :: jsval
  af_slug :: jsval
  af_colour :: colour
  af_value :: jsval
  af_sensor_count :: jsval

definition areaFeatures :: "jsval \<Rightarrow> string \<Rightarrow> scales \<Rightarrow> colour \<Rightarrow> area_feature list" where
  "areaFeatures body metric scales noDataColour = map (\<lambda>a. let covered = truthy (jget a ''covered'');
       value = jget (jget a ''values'') metric in
     \<lparr>af_lon = jget a ''lon'', af_lat = jget a ''lat'', af_slug = jget a ''slug'',
      af_colour = (if covered then rampColour (finite_num value) (bandsFor scales metric) noDataColour else noDataColour),
      af_value = (if covered then or_else value JNull else JNull),
      af_sensor_count = jget a ''sensor_count''\<rparr>) (elems (jget body ''areas''))"

record sensor_feature = feature +
  sf_id :: jsval
  sf_lon :: jsval
  sf_lat :: jsval
  sf_colour :: colour
  sf_quality :: jsval

text \<open>\<open>s.lon[i]\<close> throws when there is a station and no coordinate column.\<close>

definition sensor_feature_of :: "jsval \<Rightarrow> string \<Rightarrow> scales \<Rightarrow> colour \<Rightarrow> station \<Rightarrow> sensor_feature" where
  "sensor_feature_of body metric scales noDataColour st = (case st of (k, is) \<Rightarrow>
     let value = fst (readingAt body is metric); i = hd is in
     \<lparr>f_value = value, f_faulty = isFaultyAt body is metric,
      f_source = as_str (cell_or body ''source'' i (JStr CITIZEN_SOURCE)),
      sf_id = k, sf_lon = jidx (col body ''lon'') i, sf_lat = jidx (col body ''lat'') i,
      sf_colour = rampColour (finite_num value) (bandsFor scales metric) noDataColour,
      sf_quality = cell_or body ''quality'' i (JStr [])\<rparr>)"

definition sensorFeatures :: "jsval \<Rightarrow> string \<Rightarrow> scales \<Rightarrow> colour \<Rightarrow> js_error + sensor_feature list" where
  "sensorFeatures body metric scales noDataColour =
     (if stationsOf body \<noteq> [] \<and> (nullish (col body ''lon'') \<or> nullish (col body ''lat'')) then Inl Thrown
      else Inr (map (sensor_feature_of body metric scales noDataColour) (stationsOf body)))"

section \<open>The count line (sensorcount.js)\<close>

record counts =
  ct_total :: nat
  ct_active :: nat
  ct_silent :: nat
  ct_faulty :: nat

definition countSensors :: "jsval \<Rightarrow> string \<Rightarrow> bool \<Rightarrow> counts" where
  "countSensors body metric showFaulty =
     (let sts = filter (\<lambda>(_, is). showFaulty \<or> \<not> isFaultyAt body is metric) (stationsOf body); n = length sts in
      if \<not> is_array (col body metric) then \<lparr>ct_total = n, ct_active = 0, ct_silent = n, ct_faulty = 0\<rparr>
      else let active = length (filter (\<lambda>(_, is). fst (readingAt body is metric) \<noteq> JNull) sts);
               bad = length (filter (\<lambda>(_, is). fst (readingAt body is metric) = JNull \<and> isFaultyAt body is metric) sts)
        in \<lparr>ct_total = n, ct_active = active, ct_silent = n - active, ct_faulty = bad\<rparr>)"

fun shown_count :: "counts \<Rightarrow> status \<Rightarrow> nat" where
  "shown_count c Active = ct_active c + ct_faulty c"
| "shown_count c Inactive = ct_silent c"
| "shown_count c All_Sensors = ct_total c"

record count_texts =
  tx_shown :: string
  tx_of :: string
  tx_sensors :: string
  tx_silent :: string

text \<open>The dash is U+2014 in UTF-8.\<close>

definition sensorCountLine :: "count_texts \<Rightarrow> counts \<Rightarrow> status \<Rightarrow> string" where
  "sensorCountLine t c status = tx_shown t @ '' '' @ nat_str (shown_count c status) @ '' '' @ tx_of t @ '' ''
     @ nat_str (ct_total c) @ '' '' @ tx_sensors t @ '' '' @ [char_of (0xE2::nat), char_of (0x80::nat), char_of (0x94::nat)]
     @ '' '' @ nat_str (ct_silent c) @ '' '' @ tx_silent t"

section \<open>Lemmas\<close>

lemma jidx_col_id: "i < length (ids body) \<Longrightarrow> jidx (col body ''id'') i = ids body ! i"
  by (cases "col body ''id''") (auto simp: ids_def)

definition members_of :: "jsval \<Rightarrow> nat list \<Rightarrow> jsval \<Rightarrow> nat list" where
  "members_of body is k = filter (\<lambda>i. station_key body i = k) is"

text \<open>The map under construction: what it holds for every key, and its keys.\<close>

lemma add_member_map:
  "map_of (foldl (add_member body) [] is) k = (if members_of body is k = [] then None else Some (members_of body is k))"
proof (induction "is" arbitrary: k rule: rev_induct)
  case (snoc i "is")
  show ?case
    using snoc by (auto simp: add_member_def Let_def update_conv' members_of_def)
qed (simp add: members_of_def)

lemma add_member_keys:
  "distinct (map fst (foldl (add_member body) [] is))
   \<and> set (map fst (foldl (add_member body) [] is)) = station_key body ` set is"
proof (induction "is" rule: rev_induct)
  case (snoc i "is")
  then show ?case
    by (simp add: add_member_def Let_def update_keys distinct_update del: set_map) auto
qed simp

lemma stationsOf_keys: "distinct (map fst (stationsOf body))"
  using add_member_keys [of body "[0..<length (ids body)]"]
  by (simp add: stationsOf_def case_prod_unfold comp_def)

lemma stationsOf_mem:
  assumes "(k, is) \<in> set (stationsOf body)"
  shows "is \<noteq> []" "set is = {i. i < length (ids body) \<and> station_key body i = k}" "distinct is"
    "is = js_sort (by_id body) (members_of body [0..<length (ids body)] k)"
proof -
  let ?m = "foldl (add_member body) [] [0..<length (ids body)]"
  let ?l = "members_of body [0..<length (ids body)] k"
  from assms obtain l where l: "(k, l) \<in> set ?m" "is = js_sort (by_id body) l" by (auto simp: stationsOf_def)
  have "map_of ?m k = Some l" using l(1) add_member_keys [of body "[0..<length (ids body)]"] by (simp add: map_of_is_SomeI)
  then have "l = ?l" "?l \<noteq> []" unfolding add_member_map by (simp_all split: if_splits)
  with l show "is \<noteq> []" "is = js_sort (by_id body) ?l" by simp_all
  then show "set is = {i. i < length (ids body) \<and> station_key body i = k}" "distinct is"
    by (auto simp: members_of_def)
qed

lemma stationsOf_cover:
  assumes "i < length (ids body)"
  shows "\<exists>is. (station_key body i, is) \<in> set (stationsOf body) \<and> i \<in> set is"
proof -
  let ?m = "foldl (add_member body) [] [0..<length (ids body)]"
  let ?l = "members_of body [0..<length (ids body)] (station_key body i)"
  have "i \<in> set ?l" using assms by (simp add: members_of_def)
  then have "map_of ?m (station_key body i) = Some ?l" unfolding add_member_map by auto
  then have "(station_key body i, ?l) \<in> set ?m" by (rule map_of_SomeD)
  then have "(station_key body i, js_sort (by_id body) ?l) \<in> set (stationsOf body)"
    by (force simp: stationsOf_def)
  with \<open>i \<in> set ?l\<close> show ?thesis by auto
qed

text \<open>A response as the server builds it: numbers for ids, each once, and for the stations named.\<close>

definition body_ok :: "jsval \<Rightarrow> bool" where
  "body_ok body \<longleftrightarrow> list_all (\<lambda>v. finite_num v \<noteq> None) (ids body) \<and> distinct (ids body)
     \<and> list_all (\<lambda>v. nullish v \<or> finite_num v \<noteq> None) (elems (col body ''station''))"

lemma finite_num_JNum: "finite_num v = Some x \<longleftrightarrow> v = jreal x"
  by (cases v rule: finite_num.cases) auto

lemma body_ok_id: "body_ok body \<Longrightarrow> i < length (ids body) \<Longrightarrow> \<exists>x. ids body ! i = jreal x"
  by (auto simp: body_ok_def list_all_length finite_num_JNum)

lemma body_ok_key:
  assumes "body_ok body" "i < length (ids body)"
  shows "\<exists>x. station_key body i = jreal x"
proof -
  obtain y where y: "jidx (col body ''id'') i = jreal y" using body_ok_id [OF assms] by (auto simp: jidx_col_id assms(2))
  show ?thesis
  proof (cases "nullish (jidx (col body ''station'') i)")
    case True
    then show ?thesis using y by (simp add: station_key_def)
  next
    case False
    then obtain xs where xs: "col body ''station'' = JArr xs" "i < length xs"
      by (cases "col body ''station''") (auto split: if_splits)
    with assms(1) False have "finite_num (xs ! i) \<noteq> None" by (auto simp: body_ok_def list_all_length)
    with xs False show ?thesis by (auto simp: station_key_def finite_num_JNum)
  qed
qed

definition id_num :: "jsval \<Rightarrow> nat \<Rightarrow> real" where
  "id_num body i = (case finite_num (ids body ! i) of Some x \<Rightarrow> x | None \<Rightarrow> 0)"

lemma by_id_num: "body_ok body \<Longrightarrow> a < length (ids body) \<Longrightarrow> b < length (ids body) \<Longrightarrow> by_id body a b = id_num body a - id_num body b"
  using body_ok_id [of body a] body_ok_id [of body b] by (auto simp: by_id_def id_num_def jidx_col_id)

lemma members_sorted:
  assumes "body_ok body" "(k, is) \<in> set (stationsOf body)"
  shows "sorted_wrt (\<lambda>a b. id_num body a < id_num body b) is"
proof -
  let ?l = "members_of body [0..<length (ids body)] k"
  have "is = js_sort (\<lambda>a b. id_num body a - id_num body b) ?l"
    unfolding stationsOf_mem(4) [OF assms(2)]
    by (rule js_sort_cong) (simp add: members_of_def by_id_num [OF assms(1)])
  moreover have "consistent (\<lambda>a b. id_num body a - id_num body b)" by (auto simp: consistent_def)
  ultimately have "sorted_wrt (\<lambda>a b. id_num body a - id_num body b \<le> 0) is" by (metis sorted_js_sort)
  then have le: "sorted_wrt (\<lambda>a b. id_num body a \<le> id_num body b) is"
    by (rule sorted_wrt_mono_rel [rotated]) simp
  have inj: "a = b" if "a \<in> set is" "b \<in> set is" "id_num body a = id_num body b" for a b
  proof -
    have ab: "a < length (ids body)" "b < length (ids body)" using that stationsOf_mem(2) [OF assms(2)] by auto
    obtain x y where "ids body ! a = jreal x" "ids body ! b = jreal y" using body_ok_id [OF assms(1)] ab by blast
    with that(3) have "ids body ! a = ids body ! b" by (simp add: id_num_def)
    with ab assms(1) show ?thesis by (simp add: body_ok_def nth_eq_iff_index_eq)
  qed
  show ?thesis unfolding sorted_wrt_iff_nth_less
  proof (intro allI impI)
    fix i j assume ij: "i < j" "j < length is"
    then have "id_num body (is ! i) \<le> id_num body (is ! j)" using le by (simp add: sorted_wrt_iff_nth_less)
    moreover have "is ! i \<noteq> is ! j" using ij stationsOf_mem(3) [OF assms(2)] by (simp add: nth_eq_iff_index_eq)
    ultimately show "id_num body (is ! i) < id_num body (is ! j)" using ij inj [of "is ! i" "is ! j"] by force
  qed
qed

lemma find_key:
  assumes "distinct (map fst m)" "(k, v) \<in> set m" "P k" "\<And>k'. k' \<in> fst ` set m \<Longrightarrow> P k' \<Longrightarrow> k' = k"
  shows "find (\<lambda>s. P (fst s)) m = Some (k, v)"
  using assms
proof (induction m)
  case (Cons p m)
  show ?case
  proof (cases "p = (k, v)")
    case True
    with Cons.prems(3) show ?thesis by simp
  next
    case False
    with Cons.prems(2) have "(k, v) \<in> set m" by simp
    moreover have "\<not> P (fst p)"
    proof
      assume "P (fst p)"
      then have "fst p = k" by (intro Cons.prems(4)) simp_all
      with \<open>(k, v) \<in> set m\<close> Cons.prems(1) show False by (auto simp: rev_image_eqI)
    qed
    moreover have "find (\<lambda>s. P (fst s)) m = Some (k, v)"
      by (rule Cons.IH [OF _ calculation(1) Cons.prems(3)]) (use Cons.prems(1,4) in auto)
    ultimately show ?thesis by simp
  qed
qed simp

lemma find_id:
  assumes "body_ok body" "i < length (ids body)"
  shows "find (\<lambda>k. num_eq (to_number (ids body ! k)) (to_number (ids body ! i))) [0..<length (ids body)] = Some i"
proof -
  have "num_eq (to_number (ids body ! k)) (to_number (ids body ! i)) \<longleftrightarrow> k = i" if k: "k < length (ids body)" for k
  proof -
    obtain x y where "ids body ! k = jreal x" "ids body ! i = jreal y"
      using body_ok_id [OF assms(1) k] body_ok_id [OF assms] by blast
    then have "num_eq (to_number (ids body ! k)) (to_number (ids body ! i)) \<longleftrightarrow> ids body ! k = ids body ! i"
      by (simp add: num_eq_def)
    also have "\<dots> \<longleftrightarrow> k = i" using assms k by (simp add: body_ok_def nth_eq_iff_index_eq)
    finally show ?thesis .
  qed
  then show ?thesis using assms(2) unfolding find_Some_iff by (intro exI [of _ i]) (simp only: length_upt nth_upt, simp)
qed

lemma stationMembers_of:
  assumes "body_ok body" "(k, is) \<in> set (stationsOf body)" "i \<in> set is"
  shows "stationMembers body (ids body ! i) = Some (k, is)"
proof -
  have i: "i < length (ids body)" "station_key body i = k" using assms(2,3) stationsOf_mem(2) by blast+
  have keys: "\<exists>x. k' = jreal x" if "k' \<in> fst ` set (stationsOf body)" for k'
  proof -
    from that obtain l where l: "(k', l) \<in> set (stationsOf body)" by auto
    have "hd l \<in> set l" using stationsOf_mem(1) [OF l] by simp
    then obtain j where "j < length (ids body)" "station_key body j = k'" unfolding stationsOf_mem(2) [OF l] by blast
    with body_ok_key [OF assms(1)] show ?thesis by blast
  qed
  obtain x where x: "k = jreal x" using body_ok_key [OF assms(1) i(1)] i(2) by auto
  have "find (\<lambda>s. num_eq (to_number (fst s)) (to_number k)) (stationsOf body) = Some (k, is)"
    by (rule find_key [OF stationsOf_keys assms(2)]) (use x keys in \<open>fastforce simp: num_eq_def\<close>)+
  moreover have "\<not> nullish (ids body ! i)" using body_ok_id [OF assms(1) i(1)] by auto
  ultimately show ?thesis by (simp add: stationMembers_def find_id [OF assms(1) i(1)] i(2))
qed

section \<open>What the filters draw is what the count line says\<close>

lemma faulty_is_silent: "isFaultyAt body is metric \<Longrightarrow> fst (readingAt body is metric) = JNull"
  by (simp add: isFaultyAt_def split: if_splits)

definition as_feature :: "jsval \<Rightarrow> string \<Rightarrow> station \<Rightarrow> jsval \<times> bool" where
  "as_feature body metric st = (fst (readingAt body (snd st) metric), isFaultyAt body (snd st) metric)"

lemma feature_of_fields:
  "f_value (sensor_feature_of body metric sc nd st) = fst (readingAt body (snd st) metric)"
  "f_faulty (sensor_feature_of body metric sc nd st) = isFaultyAt body (snd st) metric"
  by (simp_all add: sensor_feature_of_def Let_def case_prod_unfold)

lemma length_filter_or:
  "(\<And>s. b s \<Longrightarrow> v s = JNull) \<Longrightarrow>
     length (filter (\<lambda>s. v s \<noteq> JNull) xs) + length (filter (\<lambda>s. v s = JNull \<and> b s) xs)
       = length (filter (\<lambda>s. v s \<noteq> JNull \<or> b s) xs)"
  by (induction xs) auto

lemma length_filter_sub: "length (filter (\<lambda>s. p s \<and> q s) xs) \<le> length (filter p xs)"
  by (induction xs) auto

lemma length_filter_status:
  assumes "\<And>s. b s \<Longrightarrow> v s = JNull"
  shows "length (filter (\<lambda>s. if b s then sf else
       (case status of All_Sensors \<Rightarrow> True | Active \<Rightarrow> v s \<noteq> JNull | Inactive \<Rightarrow> v s = JNull)) xs)
     = (case status of All_Sensors \<Rightarrow> length (filter (\<lambda>s. sf \<or> \<not> b s) xs)
        | Active \<Rightarrow> length (filter (\<lambda>s. v s \<noteq> JNull \<or> b s) (filter (\<lambda>s. sf \<or> \<not> b s) xs))
        | Inactive \<Rightarrow> length (filter (\<lambda>s. v s = JNull) (filter (\<lambda>s. sf \<or> \<not> b s) xs)))"
proof (cases status)
  case Active
  then show ?thesis by (induction xs) (auto dest: assms)
next
  case Inactive
  then show ?thesis by (induction xs) (auto dest: assms)
qed (induction xs, auto)

text \<open>The lengths of the filters, over the stations.\<close>

lemma length_filterSensorFeatures:
  "length (filterSensorFeatures fs status sf) =
     length (filter (\<lambda>f. if f_faulty f then sf else
        (case status of All_Sensors \<Rightarrow> True | Active \<Rightarrow> f_value f \<noteq> JNull | Inactive \<Rightarrow> f_value f = JNull)) fs)"
  by (cases status; cases sf; induction fs) (auto simp: filterSensorFeatures_def Let_def)

section \<open>Properties\<close>

text \<open>C16. Grouping loses and invents no device: the stations have different keys, every row of the
  response belongs to exactly one of them, namely the one its key names, no station is empty,
  and the members of a station stand in ascending id.\<close>

theorem stations_partition_devices:
  assumes "body_ok body"
  shows "distinct (map fst (stationsOf body))
    \<and> mset (concat (map snd (stationsOf body))) = mset [0..<length (ids body)]
    \<and> (\<forall>(k, is) \<in> set (stationsOf body). is \<noteq> [] \<and> (\<forall>i \<in> set is. station_key body i = k)
         \<and> sorted_wrt (\<lambda>a b. id_num body a < id_num body b) is)"
proof -
  let ?st = "stationsOf body"
  have apart: "(k, a) \<in> set ?st \<Longrightarrow> (k', b) \<in> set ?st \<Longrightarrow> i \<in> set a \<Longrightarrow> i \<in> set b \<Longrightarrow> k = k' \<and> a = b" for k k' a b i
    using stationsOf_mem(2,4) by (metis (mono_tags, lifting) mem_Collect_eq)
  have "distinct (map snd ?st)"
  proof (rule distinct_map [THEN iffD2], intro conjI inj_onI)
    show "distinct ?st" using stationsOf_keys [of body] by (simp add: distinct_map)
    fix p q assume "p \<in> set ?st" "q \<in> set ?st" "snd p = snd q"
    then show "p = q" using apart [of "fst p" "snd p" "fst q" "snd q" "hd (snd p)"] stationsOf_mem(1) [of "fst p" "snd p"]
      by (metis hd_in_set prod.collapse)
  qed
  moreover have "distinct is" if "is \<in> set (map snd ?st)" for "is" using that stationsOf_mem(3) by auto
  moreover have "set a \<inter> set b = {}" if "a \<in> set (map snd ?st)" "b \<in> set (map snd ?st)" "a \<noteq> b" for a b
    using that apart by fastforce
  ultimately have "distinct (concat (map snd ?st))" by (rule distinct_concat)
  moreover have "set (concat (map snd ?st)) = set [0..<length (ids body)]"
    using stationsOf_mem(2) stationsOf_cover by fastforce
  ultimately have "mset (concat (map snd ?st)) = mset [0..<length (ids body)]"
    using set_eq_iff_mset_eq_distinct [of "concat (map snd ?st)" "[0..<length (ids body)]"] by simp
  then show ?thesis
    using stationsOf_keys stationsOf_mem(1,2) members_sorted [OF assms] by blast
qed

definition two_boxes :: jsval where
  "two_boxes = JObj [(''sensors'', JObj [(''id'', JArr [jreal 5966, jreal 5965, jreal 7]), (''station'', JArr [jreal 5965, jreal 5965, JNull]),
     (''lon'', JArr [jreal 23, jreal 23, jreal 24]), (''lat'', JArr [jreal 42, jreal 42, jreal 43]),
     (''P2'', JArr [JNull, jreal 12, JNull]), (''flags'', JArr [JObj [], JObj [], JObj [(''P2'', JStr ''stuck'')]])])]"

lemma two_boxes_ok: "body_ok two_boxes"
  by (simp add: body_ok_def two_boxes_def ids_def col_def)

lemma two_boxes_ids: "ids two_boxes = [jreal 5966, jreal 5965, jreal 7]"
  by (simp add: two_boxes_def ids_def col_def)

theorem stations_partition_devices_witness:
  "mset (concat (map snd (stationsOf two_boxes))) = {#0, 1, 2#}"
  using stations_partition_devices [OF two_boxes_ok] unfolding two_boxes_ids by (simp add: upt_rec)

text \<open>Naming any device of a station opens that station: every member's id, whether clicked or
  deep-linked, resolves to the same station, with one entry for each of its devices, and an id
  no row carries resolves to nothing.\<close>

theorem any_member_opens_its_station:
  assumes "body_ok body" "reg_body r = body" "(k, is) \<in> set (stationsOf body)" "i \<in> set is"
  shows "(\<exists>sn. findSensor (ids body ! i) r = Some sn \<and> sn_id sn = k
      \<and> map dv_id (sn_devices sn) = map (\<lambda>j. ids body ! j) is
      \<and> map fst (sn_values sn) = measuresAt body is)
    \<and> (jreal x \<notin> set (ids body) \<longrightarrow> findSensor (jreal x) r = None)"
proof -
  have lt: "j < length (ids body)" if "j \<in> set is" for j using that stationsOf_mem(2) [OF assms(3)] by blast
  have "\<not> nullish (ids body ! i)" using body_ok_id [OF assms(1) lt [OF assms(4)]] by auto
  moreover have "cell_or body ''id'' j JNull = ids body ! j" if "j \<in> set is" for j
    using body_ok_id [OF assms(1) lt [OF that]] by (auto simp: cell_or_def jidx_col_id [OF lt [OF that]])
  ultimately have 1: "\<exists>sn. findSensor (ids body ! i) r = Some sn \<and> sn_id sn = k
      \<and> map dv_id (sn_devices sn) = map (\<lambda>j. ids body ! j) is \<and> map fst (sn_values sn) = measuresAt body is"
    by (simp add: findSensor_def normaliseSensor_def stationMembers_of [OF assms(1,3,4)] assms(2) Let_def comp_def)
  have "findSensor (jreal x) r = None" if "jreal x \<notin> set (ids body)"
  proof -
    have "\<not> num_eq (to_number (ids body ! j)) (Fin x)" if "j < length (ids body)" for j
      using body_ok_id [OF assms(1) that] \<open>jreal x \<notin> set (ids body)\<close> nth_mem [OF that] by (auto simp: num_eq_def)
    then have "find (\<lambda>j. num_eq (to_number (ids body ! j)) (Fin x)) [0..<length (ids body)] = None"
      by (simp add: find_None_iff)
    then show ?thesis by (simp add: findSensor_def normaliseSensor_def stationMembers_def assms(2))
  qed
  with 1 show ?thesis by blast
qed

theorem any_member_opens_its_station_witness:
  "findSensor (jreal 8) (setSensors two_boxes JNull init_registry) = None"
proof -
  have "0 < length (ids two_boxes)" by (simp add: two_boxes_ids)
  from stationsOf_cover [OF this]
  obtain ms where ms: "(station_key two_boxes 0, ms) \<in> set (stationsOf two_boxes)" "0 \<in> set ms" by blast
  have "reg_body (setSensors two_boxes JNull init_registry) = two_boxes" by (simp add: setSensors_def)
  from any_member_opens_its_station [OF two_boxes_ok this ms, of 8]
  show ?thesis by (simp add: two_boxes_ids)
qed

lemma no_column_no_reading:
  "\<not> is_array (col body metric) \<Longrightarrow> fst (readingAt body is metric) = JNull"
  by (simp add: readingAt_def reading_of_def find_None_iff split: option.splits)

lemma length_faulty:
  "(\<And>s. b s \<Longrightarrow> v s = JNull) \<Longrightarrow>
     length (filter (\<lambda>s. v s = JNull \<and> b s) (filter (\<lambda>s. sf \<or> \<not> b s) xs)) = (if sf then length (filter b xs) else 0)"
  by (induction xs) auto

text \<open>C15. The count line against the map, on a payload the markers can be built from, for every status and
  either setting of the faulty toggle: the
  number it says is shown is the number of markers the two filters leave, except that an area
  without a column for the metric is said to have no faulty station, so that under the active
  status, with the faulty stations shown, the line is short by exactly the rings the map draws.
  The active and the silent stations add up to the total, and the faulty ones are silent.\<close>

theorem count_line_matches_markers:
  assumes "sensorFeatures body metric sc nd = Inr fs"
  shows "length (filterSensorFeatures fs status sf) = shown_count (countSensors body metric sf) status
        + (if \<not> is_array (col body metric) \<and> status = Active \<and> sf then length (filter f_faulty fs) else 0)
    \<and> ct_active (countSensors body metric sf) + ct_silent (countSensors body metric sf) = ct_total (countSensors body metric sf)
    \<and> ct_faulty (countSensors body metric sf) \<le> ct_silent (countSensors body metric sf)"
proof -
  let ?v = "\<lambda>s. fst (readingAt body (snd s) metric)" and ?b = "\<lambda>s. isFaultyAt body (snd s) metric"
  let ?all = "filter (\<lambda>s. sf \<or> \<not> ?b s) (stationsOf body)"
  have fs: "fs = map (sensor_feature_of body metric sc nd) (stationsOf body)"
    using assms(1) by (simp add: sensorFeatures_def split: if_splits)
  have silent: "?b s \<Longrightarrow> ?v s = JNull" for s by (rule faulty_is_silent)
  let ?act = "length (filter (\<lambda>s. ?v s \<noteq> JNull) ?all)" and ?bad = "length (filter (\<lambda>s. ?v s = JNull \<and> ?b s) ?all)"
  have c: "countSensors body metric sf = \<lparr>ct_total = length ?all, ct_active = ?act, ct_silent = length ?all - ?act,
      ct_faulty = (if is_array (col body metric) then ?bad else 0)\<rparr>"
    by (simp add: countSensors_def Let_def case_prod_unfold no_column_no_reading)
  have rings: "?bad = (if sf then length (filter f_faulty fs) else 0)"
    using length_faulty [where b = ?b and v = ?v and sf = sf and xs = "stationsOf body", OF silent]
    by (simp add: fs filter_map comp_def feature_of_fields)
  have split: "?act + length (filter (\<lambda>s. ?v s = JNull) ?all) = length ?all"
    using length_filter_split [of "\<lambda>s. ?v s \<noteq> JNull" ?all] by simp
  have bad: "?bad \<le> length (filter (\<lambda>s. ?v s = JNull) ?all)"
    by (rule length_filter_sub)
  have ab: "?act + ?bad = length (filter (\<lambda>s. ?v s \<noteq> JNull \<or> ?b s) ?all)"
    using silent by (rule length_filter_or)
  have "length (filterSensorFeatures fs status sf) = length (filter (\<lambda>s. if ?b s then sf else
      (case status of All_Sensors \<Rightarrow> True | Active \<Rightarrow> ?v s \<noteq> JNull | Inactive \<Rightarrow> ?v s = JNull)) (stationsOf body))"
    by (simp only: length_filterSensorFeatures fs filter_map comp_def feature_of_fields length_map)
  also have "\<dots> = (case status of All_Sensors \<Rightarrow> length ?all | Active \<Rightarrow> ?act + ?bad
      | Inactive \<Rightarrow> length (filter (\<lambda>s. ?v s = JNull) ?all))"
    unfolding ab by (rule length_filter_status [OF silent])
  finally have drawn: "length (filterSensorFeatures fs status sf) = \<dots>" .
  have "length (filterSensorFeatures fs status sf) = shown_count (countSensors body metric sf) status
      + (if \<not> is_array (col body metric) \<and> status = Active \<and> sf then length (filter f_faulty fs) else 0)"
    using drawn split rings by (cases status) (simp_all add: c split: if_splits)
  moreover have "ct_active (countSensors body metric sf) + ct_silent (countSensors body metric sf) = ct_total (countSensors body metric sf)"
    using split by (simp add: c)
  moreover have "ct_faulty (countSensors body metric sf) \<le> ct_silent (countSensors body metric sf)"
  proof -
    have "?bad \<le> length ?all - ?act" using split bad by linarith
    then show ?thesis by (simp add: c)
  qed
  ultimately show ?thesis by blast
qed

theorem count_line_matches_markers_witness:
  "\<exists>fs. sensorFeatures two_boxes ''P2'' None None = Inr fs
    \<and> length (filterSensorFeatures fs Active True) = shown_count (countSensors two_boxes ''P2'' True) Active"
proof -
  obtain fs where fs: "sensorFeatures two_boxes ''P2'' None None = Inr fs"
    by (simp add: sensorFeatures_def two_boxes_def col_def)
  have "is_array (col two_boxes ''P2'')" by (simp add: two_boxes_def col_def is_array_def)
  with count_line_matches_markers [OF fs, of Active True] fs show ?thesis by auto
qed

text \<open>Without a column for the metric the count line knows of no faulty station, while a station
  whose flags name that metric is still drawn as a ring.\<close>

lemma ring_not_counted:
  "\<exists>body fs. sensorFeatures body ''P1'' None None = Inr fs \<and> length (filterSensorFeatures fs Active True) = 1
    \<and> shown_count (countSensors body ''P1'' True) Active = 0"
proof -
  let ?b = "JObj [(''sensors'', JObj [(''id'', JArr [jreal 7]), (''lon'', JArr [jreal 24]), (''lat'', JArr [jreal 43]),
     (''flags'', JArr [JObj [(''P1'', JStr ''stuck'')]])])]"
  have st: "stationsOf ?b = [(jreal 7, [0])]"
    by (simp add: stationsOf_def ids_def col_def add_member_def station_key_def)
  have bad: "isFaultyAt ?b [0] ''P1''"
    by (simp add: isFaultyAt_def readingAt_def reading_of_def col_def is_array_def flagsAt_def USABLE_FLAGS_def)
  have "sensorFeatures ?b ''P1'' None None = Inr [sensor_feature_of ?b ''P1'' None None (jreal 7, [0])]"
    by (simp add: sensorFeatures_def st col_def)
  moreover have "shown_count (countSensors ?b ''P1'' True) Active = 0"
    by (simp add: countSensors_def Let_def col_def is_array_def)
  ultimately show ?thesis
    by (intro exI [of _ ?b] exI [of _ "[sensor_feature_of ?b ''P1'' None None (jreal 7, [0])]"])
      (simp add: filterSensorFeatures_def feature_of_fields bad)
qed

end
