(* ===== verification/Area_Stats.thy ===== *)
theory Area_Stats
  imports Stations
begin

text \<open>
  Numbers and rows about one open sensor, computed from the response the map already holds: its
  area's figures and its rank among them (\<open>web/src/lib/areastats.js\<close>), the nearest area and
  sensor to a point (\<open>nearest.js\<close>), and the rows of the panel (\<open>sensorview.js\<close>). Parsing a
  time stamp and printing a date in the reader's language are arguments.
\<close>

section \<open>The area around a sensor (areastats.js)\<close>

record station_value =
  sv_station :: jsval
  sv_id :: jsval
  sv_value :: real

definition add_station_value :: "jsval \<Rightarrow> string \<Rightarrow> station_value list \<Rightarrow> nat \<Rightarrow> station_value list" where
  "add_station_value body metric seen i = (case finite_num (jidx (col body metric) i) of
      None \<Rightarrow> seen
    | Some value \<Rightarrow> let st = station_key body i in
        if nullish st \<or> st \<in> sv_station ` set seen then seen
        else seen @ [\<lparr>sv_station = st, sv_id = or_else (jidx (col body ''id'') i) st, sv_value = value\<rparr>])"

definition stationValues :: "jsval \<Rightarrow> string \<Rightarrow> station_value list" where
  "stationValues body metric = (if \<not> is_array (col body metric) \<or> \<not> is_array (col body ''station'') then []
     else foldl (add_station_value body metric) [] [0..<length (elems (col body metric))])"

text \<open>The median of nothing reads past the array and is NaN.\<close>

definition median :: "real list \<Rightarrow> jsnum" where
  "median values = (let s = js_sort (\<lambda>a b. a - b) values; mid = length s div 2 in
     if s = [] then NaN
     else if even (length s) then Fin ((s ! (mid - 1) + s ! mid) / 2) else Fin (s ! mid))"

text \<open>\<open>===\<close>\<close>

definition strict_eq :: "jsval \<Rightarrow> jsval \<Rightarrow> bool" where
  "strict_eq a b \<longleftrightarrow> a = b \<and> a \<noteq> JNum NaN"

definition stationOf :: "jsval \<Rightarrow> jsval \<Rightarrow> jsval" where
  "stationOf body sensorId = (if nullish sensorId then JNull
     else let i = JNum (to_number sensorId) in
       case find (\<lambda>k. strict_eq (ids body ! k) i) [0..<length (ids body)] of
         None \<Rightarrow> i | Some k \<Rightarrow> or_else (jidx (col body ''station'') k) i)"

record area_stats =
  ar_high :: real
  ar_low :: real
  ar_median :: jsnum
  ar_total :: nat
  ar_value :: "real option"
  ar_rank :: "nat option"

definition areaStats :: "jsval \<Rightarrow> string \<Rightarrow> jsval \<Rightarrow> area_stats option" where
  "areaStats body metric sensorId = (let rows = stationValues body metric in
     if length rows < 2 then None
     else let values = map sv_value rows;
         mine = find (\<lambda>r. strict_eq (sv_station r) (stationOf body sensorId)) rows
       in Some \<lparr>ar_high = Max (set values), ar_low = Min (set values), ar_median = median values,
          ar_total = length rows, ar_value = map_option sv_value mine,
          ar_rank = map_option (\<lambda>r. length (filter (\<lambda>v. v < sv_value r) values) + 1) mine\<rparr>)"

text \<open>\<open><\<close> on strings, by code point.\<close>

fun str_less :: "string \<Rightarrow> string \<Rightarrow> bool" where
  "str_less _ [] = False"
| "str_less [] (_ # _) = True"
| "str_less (a # as) (b # bs) = ((of_char a :: nat) < of_char b \<or> a = b \<and> str_less as bs)"

definition str_cmp :: "string \<Rightarrow> string \<Rightarrow> real" where
  "str_cmp a b = (if str_less a b then - 1 else if str_less b a then 1 else 0)"

definition row_source :: "jsval \<Rightarrow> nat \<Rightarrow> string" where
  "row_source body i = sourceOf (as_str (jidx (col body ''source'') i))"

definition source_by_id :: "jsval \<Rightarrow> (jsval \<times> string) list" where
  "source_by_id body = foldl (\<lambda>m i. AList.update (ids body ! i) (row_source body i) m) [] [0..<length (ids body)]"

definition present_sources :: "jsval \<Rightarrow> string list" where
  "present_sources body = foldl (\<lambda>ps i. set_add (row_source body i) ps) [] [0..<length (ids body)]"

definition value_source :: "jsval \<Rightarrow> station_value \<Rightarrow> string" where
  "value_source body r = (case map_of (source_by_id body) (sv_id r) of Some s \<Rightarrow> s | None \<Rightarrow> CITIZEN_SOURCE)"

definition add_grouped :: "jsval \<Rightarrow> (string \<times> real list) list \<Rightarrow> station_value \<Rightarrow> (string \<times> real list) list" where
  "add_grouped body g r = (let s = value_source body r in
     AList.update s ((case map_of g s of Some vs \<Rightarrow> vs | None \<Rightarrow> []) @ [sv_value r]) g)"

record source_stats =
  so_source :: string
  so_n :: nat
  so_median :: jsnum

definition areaSourceStats :: "jsval \<Rightarrow> string \<Rightarrow> source_stats list" where
  "areaSourceStats body metric =
     (if \<not> is_array (col body ''source'') \<or> length (present_sources body) < 2 then []
      else js_sort (\<lambda>a b. str_cmp (so_source a) (so_source b))
        (map (\<lambda>(s, vs). \<lparr>so_source = s, so_n = length vs, so_median = median vs\<rparr>)
           (foldl (add_grouped body) [] (stationValues body metric))))"

section \<open>The nearest area and sensor (nearest.js)\<close>

text \<open>
  The loop keeps the first of the closest. A distance that is not a finite number is never
  smaller than the best one so far, so it is \<open>None\<close>.
\<close>

fun closest :: "('a \<Rightarrow> real option) \<Rightarrow> 'a list \<Rightarrow> ('a \<times> real) option \<Rightarrow> 'a option" where
  "closest far [] best = map_option fst best"
| "closest far (a # as) best = closest far as (case far a of
      None \<Rightarrow> best
    | Some d \<Rightarrow> (case best of None \<Rightarrow> Some (a, d) | Some (_, bestD) \<Rightarrow> if d < bestD then Some (a, d) else best))"

definition dist_sq :: "real \<times> real \<Rightarrow> real \<Rightarrow> real \<Rightarrow> real" where
  "dist_sq pt lon lat = (let k = cos (snd pt * pi / 180); dx = (lon - fst pt) * k; dy = lat - snd pt in dx * dx + dy * dy)"

definition area_dist :: "real \<times> real \<Rightarrow> jsval \<Rightarrow> real option" where
  "area_dist pt a = (case to_number (jget a ''lon'') of
      Fin lon \<Rightarrow> (case to_number (jget a ''lat'') of Fin lat \<Rightarrow> Some (dist_sq pt lon lat) | _ \<Rightarrow> None)
    | _ \<Rightarrow> None)"

definition nearestArea :: "real \<times> real \<Rightarrow> jsval list option \<Rightarrow> jsval option" where
  "nearestArea pt areas = (case areas of None \<Rightarrow> None
     | Some as \<Rightarrow> if as = [] then None else closest (area_dist pt) as None)"

definition sensor_dist :: "real \<times> real \<Rightarrow> jsval \<Rightarrow> nat \<Rightarrow> real option" where
  "sensor_dist pt body i = (case finite_num (jidx (col body ''lon'') i) of
      Some lon \<Rightarrow> (case finite_num (jidx (col body ''lat'') i) of Some lat \<Rightarrow> Some (dist_sq pt lon lat) | None \<Rightarrow> None)
    | None \<Rightarrow> None)"

text \<open>The row of the nearest sensor; the source answers its id and coordinates.\<close>

definition nearestSensor :: "real \<times> real \<Rightarrow> jsval \<Rightarrow> (jsval \<times> jsval \<times> jsval) option" where
  "nearestSensor pt body = map_option (\<lambda>i. (ids body ! i, jidx (col body ''lon'') i, jidx (col body ''lat'') i))
     (closest (sensor_dist pt body) [0..<length (ids body)] None)"

section \<open>The panel's rows (sensorview.js)\<close>

record panel_row =
  pr_metric :: string
  pr_label :: string
  pr_value :: jsval
  pr_unit :: string
  pr_missing :: bool

definition panelRows :: "sensor option \<Rightarrow> (string \<times> string) list \<Rightarrow> scales \<Rightarrow> panel_row list" where
  "panelRows sn options scales = (let values = (case sn of Some x \<Rightarrow> sn_values x | None \<Rightarrow> []) in
     map (\<lambda>(metric, label). let v = (case map_of values metric of Some v \<Rightarrow> v | None \<Rightarrow> JUndef) in
        \<lparr>pr_metric = metric, pr_label = label, pr_value = or_else v JNull, pr_unit = unitFor scales metric,
         pr_missing = nullish v\<rparr>)
       (filter (\<lambda>(metric, _). map_of values metric \<noteq> None) options))"

definition stamps :: "(jsval \<Rightarrow> jsnum) \<Rightarrow> jsval list \<Rightarrow> real list" where
  "stamps parseDate xs = List.map_filter (\<lambda>s. if truthy s then (case parseDate s of Fin t \<Rightarrow> Some t | _ \<Rightarrow> None) else None) xs"

definition earliest :: "(jsval \<Rightarrow> jsnum) \<Rightarrow> jsval list \<Rightarrow> real option" where
  "earliest parseDate xs = (let ts = stamps parseDate xs in if ts = [] then None else Some (Min (set ts)))"

definition latest_time :: "(jsval \<Rightarrow> jsnum) \<Rightarrow> jsval list \<Rightarrow> real option" where
  "latest_time parseDate xs = (let ts = stamps parseDate xs in if ts = [] then None else Some (Max (set ts)))"

definition lastUpdated :: "(jsval \<Rightarrow> jsnum) \<Rightarrow> sensor \<Rightarrow> real option" where
  "lastUpdated parseDate sn = latest_time parseDate (map dv_last (sn_devices sn))"

text \<open>\<open>String(v)\<close> of an id or a type: \<open>Array.prototype.join\<close> prints a missing one as nothing.\<close>

fun js_str :: "jsval \<Rightarrow> string" where
  "js_str (JStr s) = s"
| "js_str (JNum (Fin x)) = num_str x"
| "js_str (JBool b) = bool_str b"
| "js_str _ = []"

datatype row_key = Devices | Hardware | Since | Updated | Coords

definition detailRows ::
    "(jsval \<Rightarrow> jsnum) \<Rightarrow> (real \<Rightarrow> string) \<Rightarrow> (real \<Rightarrow> string) \<Rightarrow> (row_key \<Rightarrow> string) \<Rightarrow> sensor
      \<Rightarrow> (row_key \<times> string \<times> string) list" where
  "detailRows parseDate formatDate formatDateTime labels sn =
     (let devices = sn_devices sn;
          dids = filter (\<lambda>i. \<not> nullish i) (map dv_id devices);
          types = foldl (\<lambda>acc t. set_add t acc) [] (filter truthy (map dv_type devices))
      in (if dids = [] then [] else [(Devices, labels Devices, join_with '', '' (map js_str dids))])
       @ (if types = [] then [] else [(Hardware, labels Hardware, join_with '', '' (map js_str types))])
       @ (case earliest parseDate (map dv_first devices) of None \<Rightarrow> [] | Some t \<Rightarrow> [(Since, labels Since, formatDate t)])
       @ (case latest_time parseDate (map dv_last devices) of None \<Rightarrow> [] | Some t \<Rightarrow> [(Updated, labels Updated, formatDateTime t)])
       @ (case (finite_num (sn_lat sn), finite_num (sn_lon sn)) of
            (Some lat, Some lon) \<Rightarrow> [(Coords, labels Coords, to_fixed 4 lat @ '', '' @ to_fixed 4 lon)] | _ \<Rightarrow> []))"

definition stationMeta :: "(string \<Rightarrow> string) \<Rightarrow> sensor option \<Rightarrow> (string \<times> string \<times> jsval) list" where
  "stationMeta labels sn = (case sn of None \<Rightarrow> []
     | Some x \<Rightarrow> if sn_source x \<noteq> JStr OFFICIAL_SOURCE then []
         else filter (\<lambda>(_, _, v). truthy v)
           [(''code'', labels ''code'', sn_code x), (''type'', labels ''type'', sn_type x), (''area'', labels ''area'', sn_area x)])"

definition networkText :: "sensor option \<Rightarrow> string \<Rightarrow> string" where
  "networkText sn label = (case sn of None \<Rightarrow> []
     | Some x \<Rightarrow> label @ '': '' @ (if truthy (sn_source x) then js_str (sn_source x) else CITIZEN_SOURCE))"

section \<open>Lemmas\<close>

lemma js_sort_real: "js_sort (\<lambda>a b. a - b) xs = sort (xs :: real list)"
proof (rule properties_for_sort [symmetric])
  have "consistent (\<lambda>a b :: real. a - b)" by (auto simp: consistent_def)
  then have "sorted_wrt (\<lambda>a b. a - b \<le> 0) (js_sort (\<lambda>a b. a - b) xs)" by (rule sorted_js_sort)
  then show "sorted (js_sort (\<lambda>a b. a - b) xs)" by (rule sorted_wrt_mono_rel [rotated]) simp
qed simp

lemma length_filter_prefix: "(\<And>j. k \<le> j \<Longrightarrow> j < length s \<Longrightarrow> \<not> P (s ! j)) \<Longrightarrow> length (filter P s) \<le> k"
proof -
  assume a: "\<And>j. k \<le> j \<Longrightarrow> j < length s \<Longrightarrow> \<not> P (s ! j)"
  have "filter P (drop k s) = []" using a by (auto simp: filter_empty_conv in_set_conv_nth)
  then have "filter P s = filter P (take k s)" by (metis append_Nil2 append_take_drop_id filter_append)
  then show ?thesis by (metis length_filter_le length_take min.bounded_iff order_refl)
qed

lemma length_filter_suffix:
  "(\<And>j. j < k \<Longrightarrow> j < length s \<Longrightarrow> \<not> P (s ! j)) \<Longrightarrow> length (filter P s) \<le> length s - k"
proof -
  assume a: "\<And>j. j < k \<Longrightarrow> j < length s \<Longrightarrow> \<not> P (s ! j)"
  have "filter P (take k s) = []" using a by (auto simp: filter_empty_conv in_set_conv_nth)
  then have "filter P s = filter P (drop k s)" by (metis append_Nil append_take_drop_id filter_append)
  then show ?thesis by (metis length_drop length_filter_le)
qed

text \<open>The median of a non-empty list is a number with at most half of the list on either side.\<close>

lemma median_middle:
  assumes "xs \<noteq> []"
  shows "\<exists>m. median xs = Fin m \<and> 2 * length (filter (\<lambda>v. v < m) xs) \<le> length xs
    \<and> 2 * length (filter (\<lambda>v. m < v) xs) \<le> length xs \<and> Min (set xs) \<le> m \<and> m \<le> Max (set xs)"
proof -
  define s where "s = sort xs"
  define mid where "mid = length s div 2"
  define lo where "lo = (if even (length s) then s ! (mid - 1) else s ! mid)"
  have len: "length s = length xs" by (simp add: s_def)
  moreover have "0 < length xs" using assms by simp
  ultimately have len: "length s = length xs" "s \<noteq> []" "mid < length s" by (auto simp: mid_def)
  have srt: "sorted s" by (simp add: s_def)
  have st: "set s = set xs" by (simp add: s_def)
  define m where "m = (lo + s ! mid) / 2"
  have med: "median xs = Fin m"
    using len by (simp add: median_def js_sort_real s_def [symmetric] mid_def m_def lo_def Let_def)
  have lo_le: "lo \<le> s ! mid" using srt len by (auto simp: lo_def intro: sorted_nth_mono)
  have between: "lo \<le> m" "m \<le> s ! mid" using lo_le by (simp_all add: m_def)
  have flt: "length (filter P xs) = length (filter P s)" for P :: "real \<Rightarrow> bool"
    by (metis s_def mset_sort mset_filter size_mset)
  have "length (filter (\<lambda>v. v < m) s) \<le> mid"
  proof (intro length_filter_prefix)
    fix j assume j: "mid \<le> j" "j < length s"
    have "s ! mid \<le> s ! j" using srt j by (rule sorted_nth_mono)
    with between(2) show "\<not> s ! j < m" by simp
  qed
  moreover have "length (filter (\<lambda>v. m < v) s) \<le> length s - (length s - mid)"
  proof (intro length_filter_suffix)
    fix j assume j: "j < length s - mid" "j < length s"
    have "s ! j \<le> lo"
    proof (cases "even (length s)")
      case True
      then have "j \<le> mid - 1" "mid - 1 < length s" using j len(3) by (auto simp: mid_def elim!: evenE)
      then show ?thesis using True srt by (simp add: lo_def sorted_nth_mono)
    next
      case False
      then have "j \<le> mid" using j by (auto simp: mid_def elim!: oddE)
      then show ?thesis using False srt len(3) by (simp add: lo_def sorted_nth_mono)
    qed
    with between(1) show "\<not> m < s ! j" by simp
  qed
  moreover have "2 * mid \<le> length s" by (simp add: mid_def)
  moreover have "Min (set xs) \<le> lo" "s ! mid \<le> Max (set xs)"
  proof -
    have "mid - 1 < length s" using len(3) by simp
    then have "lo \<in> set s" using len(3) by (simp add: lo_def)
    then show "Min (set xs) \<le> lo" using st by simp
    show "s ! mid \<le> Max (set xs)" using len(3) st by (metis List.finite_set Max_ge nth_mem)
  qed
  ultimately show ?thesis using med between unfolding flt by (intro exI [of _ m]) (simp add: len(1))
qed

lemma stationValues_distinct: "distinct (map sv_station (stationValues body metric))"
proof -
  have "distinct (map sv_station (foldl (add_station_value body metric) acc is))" if "distinct (map sv_station acc)" for acc "is"
    using that
  proof (induction "is" arbitrary: acc)
    case (Cons i "is")
    have "distinct (map sv_station (add_station_value body metric acc i))"
      using Cons.prems by (auto simp: add_station_value_def Let_def split: option.splits)
    then show ?case using Cons.IH by simp
  qed simp
  then show ?thesis by (simp add: stationValues_def)
qed

lemma closest_spec:
  "closest far as best = Some a \<Longrightarrow> (case best of Some (b, d) \<Rightarrow> far b = Some d | None \<Rightarrow> True) \<Longrightarrow>
     \<exists>d. far a = Some d \<and> (a \<in> set as \<or> map_option fst best = Some a)
       \<and> (case best of Some (b, e) \<Rightarrow> d \<le> e | None \<Rightarrow> True) \<and> (\<forall>b \<in> set as. \<forall>e. far b = Some e \<longrightarrow> d \<le> e)"
proof (induction as arbitrary: best)
  case (Cons x as)
  let ?best = "case far x of None \<Rightarrow> best
    | Some d \<Rightarrow> (case best of None \<Rightarrow> Some (x, d) | Some (_, bestD) \<Rightarrow> if d < bestD then Some (x, d) else best)"
  have "closest far as ?best = Some a" using Cons.prems(1) by simp
  moreover have "case ?best of Some (b, d) \<Rightarrow> far b = Some d | None \<Rightarrow> True"
    using Cons.prems(2) by (auto split: option.splits)
  ultimately obtain d where "far a = Some d" "a \<in> set as \<or> map_option fst ?best = Some a"
    "case ?best of Some (b, e) \<Rightarrow> d \<le> e | None \<Rightarrow> True" "\<forall>b \<in> set as. \<forall>e. far b = Some e \<longrightarrow> d \<le> e"
    using Cons.IH by blast
  then show ?case
    by (intro exI [of _ d]) (auto split: option.splits if_splits)
qed (auto split: option.splits)

lemma closest_None: "closest far as best = None \<longleftrightarrow> best = None \<and> (\<forall>a \<in> set as. far a = None)"
  by (induction as arbitrary: best) (auto split: option.splits if_splits)

section \<open>Properties\<close>

text \<open>The figures beside an open sensor describe its area: every station counts once, the median
  has at most half of the readings on either side and lies between the lowest and the highest,
  and the sensor's rank is a place among them, the first exactly for the cleanest reading.\<close>

theorem area_figures_rank:
  assumes "areaStats body metric sid = Some st"
  shows "2 \<le> ar_total st \<and> ar_total st = card (sv_station ` set (stationValues body metric))
    \<and> (\<exists>m. ar_median st = Fin m \<and> ar_low st \<le> m \<and> m \<le> ar_high st
         \<and> 2 * length (filter (\<lambda>r. sv_value r < m) (stationValues body metric)) \<le> ar_total st
         \<and> 2 * length (filter (\<lambda>r. m < sv_value r) (stationValues body metric)) \<le> ar_total st)
    \<and> (case (ar_value st, ar_rank st) of
         (None, None) \<Rightarrow> True
       | (Some v, Some k) \<Rightarrow> 1 \<le> k \<and> k \<le> ar_total st \<and> ar_low st \<le> v \<and> v \<le> ar_high st \<and> (k = 1 \<longleftrightarrow> v = ar_low st)
       | _ \<Rightarrow> False)"
proof -
  let ?rows = "stationValues body metric" and ?vs = "map sv_value (stationValues body metric)"
  let ?mine = "find (\<lambda>r. strict_eq (sv_station r) (stationOf body sid)) ?rows"
  have two: "2 \<le> length ?rows" and st: "st = \<lparr>ar_high = Max (set ?vs), ar_low = Min (set ?vs), ar_median = median ?vs,
      ar_total = length ?rows, ar_value = map_option sv_value ?mine,
      ar_rank = map_option (\<lambda>r. length (filter (\<lambda>v. v < sv_value r) ?vs) + 1) ?mine\<rparr>"
    using assms by (auto simp: areaStats_def Let_def split: if_splits)
  have ne: "?vs \<noteq> []" using two by auto
  have card: "length ?rows = card (sv_station ` set ?rows)"
    using distinct_card [OF stationValues_distinct] by simp
  obtain m where m: "median ?vs = Fin m" "2 * length (filter (\<lambda>v. v < m) ?vs) \<le> length ?vs"
    "2 * length (filter (\<lambda>v. m < v) ?vs) \<le> length ?vs" "Min (set ?vs) \<le> m" "m \<le> Max (set ?vs)"
    using median_middle [OF ne] by blast
  have own: "case (map_option sv_value ?mine, map_option (\<lambda>r. length (filter (\<lambda>v. v < sv_value r) ?vs) + 1) ?mine) of
      (None, None) \<Rightarrow> True
    | (Some v, Some k) \<Rightarrow> 1 \<le> k \<and> k \<le> length ?rows \<and> Min (set ?vs) \<le> v \<and> v \<le> Max (set ?vs)
         \<and> (k = 1 \<longleftrightarrow> v = Min (set ?vs))
    | _ \<Rightarrow> False"
  proof (cases ?mine)
    case (Some r)
    then have r: "r \<in> set ?rows" by (auto simp: find_Some_iff)
    then have v: "sv_value r \<in> set ?vs" by simp
    have "length (filter (\<lambda>v. v < sv_value r) ?vs) < length ?vs"
      using v by (intro length_filter_less) auto
    moreover have "filter (\<lambda>v. v < sv_value r) ?vs = [] \<longleftrightarrow> sv_value r = Min (set ?vs)"
    proof
      assume "filter (\<lambda>v. v < sv_value r) ?vs = []"
      then have "\<forall>v \<in> set ?vs. sv_value r \<le> v" by (metis filter_empty_conv not_less)
      with v show "sv_value r = Min (set ?vs)" by (intro Min_eqI [symmetric]) auto
    next
      assume a: "sv_value r = Min (set ?vs)"
      show "filter (\<lambda>v. v < sv_value r) ?vs = []"
        unfolding a filter_empty_conv using Min_le [of "set ?vs"] by (metis List.finite_set not_less)
    qed
    ultimately show ?thesis
      using v Some Min_le [of "set ?vs"] Max_ge [of "set ?vs"] by (simp del: filter_map add: filter_empty_conv)
  qed simp
  have f: "length (filter P ?vs) = length (filter (\<lambda>r. P (sv_value r)) ?rows)" for P
    by (simp add: filter_map comp_def)
  have sel: "ar_high st = Max (set ?vs)" "ar_low st = Min (set ?vs)" "ar_median st = median ?vs"
    "ar_total st = length ?rows" "ar_value st = map_option sv_value ?mine"
    "ar_rank st = map_option (\<lambda>r. length (filter (\<lambda>v. v < sv_value r) ?vs) + 1) ?mine"
    by (simp_all add: st)
  show ?thesis
    unfolding sel using two card m [unfolded f, unfolded length_map] own by blast
qed

theorem area_figures_rank_witness:
  "\<exists>st. areaStats (JObj [(''sensors'', JObj [(''id'', JArr [jreal 5, jreal 7]), (''station'', JArr [jreal 5, jreal 7]),
      (''P2'', JArr [jreal 12, jreal 30])])]) ''P2'' (jreal 7) = Some st \<and> 2 \<le> ar_total st"
proof -
  let ?b = "JObj [(''sensors'', JObj [(''id'', JArr [jreal 5, jreal 7]), (''station'', JArr [jreal 5, jreal 7]),
      (''P2'', JArr [jreal 12, jreal 30])])]"
  have "areaStats ?b ''P2'' (jreal 7) \<noteq> None"
    by (simp add: areaStats_def stationValues_def col_def is_array_def add_station_value_def station_key_def Let_def)
  then obtain st where st: "areaStats ?b ''P2'' (jreal 7) = Some st" by blast
  from area_figures_rank [OF this] st show ?thesis by blast
qed

text \<open>Locating: the area picked is one of those offered, no other with coordinates is nearer,
  and nothing is picked only when none has coordinates; the same holds of the sensor picked
  among the rows of the response.\<close>

theorem nearest_is_closest:
  "(nearestArea pt (Some as) = Some a \<longrightarrow> a \<in> set as \<and> (\<exists>d. area_dist pt a = Some d
       \<and> (\<forall>b \<in> set as. \<forall>e. area_dist pt b = Some e \<longrightarrow> d \<le> e)))
   \<and> (nearestArea pt (Some as) = None \<longleftrightarrow> (\<forall>a \<in> set as. area_dist pt a = None))
   \<and> (nearestSensor pt body = Some s \<longrightarrow> (\<exists>i < length (ids body). \<exists>d. sensor_dist pt body i = Some d
       \<and> s = (ids body ! i, jidx (col body ''lon'') i, jidx (col body ''lat'') i)
       \<and> (\<forall>j < length (ids body). \<forall>e. sensor_dist pt body j = Some e \<longrightarrow> d \<le> e)))"
proof -
  have "a \<in> set as \<and> (\<exists>d. area_dist pt a = Some d \<and> (\<forall>b \<in> set as. \<forall>e. area_dist pt b = Some e \<longrightarrow> d \<le> e))"
    if "nearestArea pt (Some as) = Some a"
    using that closest_spec [of "area_dist pt" as None a] by (auto simp: nearestArea_def split: if_splits)
  moreover have "nearestArea pt (Some as) = None \<longleftrightarrow> (\<forall>a \<in> set as. area_dist pt a = None)"
    by (auto simp: nearestArea_def closest_None)
  moreover have "\<exists>i < length (ids body). \<exists>d. sensor_dist pt body i = Some d
      \<and> s = (ids body ! i, jidx (col body ''lon'') i, jidx (col body ''lat'') i)
      \<and> (\<forall>j < length (ids body). \<forall>e. sensor_dist pt body j = Some e \<longrightarrow> d \<le> e)"
    if s: "nearestSensor pt body = Some s"
  proof -
    from s obtain i where i: "closest (sensor_dist pt body) [0..<length (ids body)] None = Some i"
      "s = (ids body ! i, jidx (col body ''lon'') i, jidx (col body ''lat'') i)" by (auto simp: nearestSensor_def)
    from closest_spec [OF i(1)] i(2) show ?thesis by (intro exI [of _ i]) auto
  qed
  ultimately show ?thesis by blast
qed

theorem nearest_is_closest_witness:
  "\<exists>a. nearestArea (23, 42) (Some [JObj [(''lon'', jreal 24), (''lat'', jreal 43)]]) = Some a
     \<and> a \<in> set [JObj [(''lon'', jreal 24), (''lat'', jreal 43)]]"
proof -
  let ?as = "[JObj [(''lon'', jreal 24), (''lat'', jreal 43)]]"
  have "area_dist (23, 42) (hd ?as) \<noteq> None" by (simp add: area_dist_def)
  then have "nearestArea (23, 42) (Some ?as) \<noteq> None" using nearest_is_closest [of "(23, 42)" ?as] by simp
  then obtain a where "nearestArea (23, 42) (Some ?as) = Some a" by blast
  with nearest_is_closest [of "(23, 42)" ?as a] show ?thesis by blast
qed

end
