(* ===== verification/Wind_Field.thy ===== *)
theory Wind_Field
  imports Area_Stats Hexes
begin

text \<open>
  The forecast wind without its map: the payload, the arrow lattice resampled to the screen, the
  attribution and the age of a forecast (\<open>web/src/islands/wind.js\<close>), and the numbers behind the
  animated streaks (\<open>web/src/lib/windstreaks.js\<close>): colours, buckets, counts, the blend of the
  nearest vectors and the screen grid it is sampled onto. Angles and speeds are reals; the 32-bit
  rounding of the grid arrays is left out.
\<close>

section \<open>The payload (islands/wind.js)\<close>

definition arrowBearing :: "real \<Rightarrow> real" where
  "arrowBearing fromDeg = js_rem (fromDeg + 180) 360"

record wind_feature =
  wf_lon :: real
  wf_lat :: real
  wf_bearing :: real
  wf_speed :: real

definition wind_ok :: "jsval \<Rightarrow> bool" where
  "wind_ok body \<longleftrightarrow> truthy body \<and> jget body ''forecast'' = JBool True \<and> is_array (jget body ''vectors'')"

definition windFeatures :: "jsval \<Rightarrow> wind_feature list" where
  "windFeatures body = (if \<not> wind_ok body then []
     else map (\<lambda>v. \<lparr>wf_lon = the_num (jget v ''lon''), wf_lat = the_num (jget v ''lat''),
         wf_bearing = arrowBearing (the_num (jget v ''direction_deg'')), wf_speed = the_num (jget v ''speed_ms'')\<rparr>)
       (elems (jget body ''vectors'')))"

section \<open>The arrow lattice\<close>

definition WIND_SERVED_SPACING_KM :: real where
  "WIND_SERVED_SPACING_KM = 25"

definition WIND_ARROW_PX :: real where
  "WIND_ARROW_PX = 64"

definition WIND_FIELD_MAX :: int where
  "WIND_FIELD_MAX = 600"

definition KM_PER_DEG_LAT :: real where
  "KM_PER_DEG_LAT = pi * EARTH_RADIUS_KM / 180"

definition windSpacingKm :: "real \<Rightarrow> real" where
  "windSpacingKm zoom = (WIND_ARROW_PX * M_PER_PX_Z0) / 2 powr zoom / 1000"

definition wind_km :: "real \<Rightarrow> real \<Rightarrow> real \<Rightarrow> wind_feature \<Rightarrow> real" where
  "wind_km kmPerDegLon lon lat f = (let dx = (wf_lon f - lon) * kmPerDegLon; dy = (wf_lat f - lat) * KM_PER_DEG_LAT
     in sqrt (dx\<^sup>2 + dy\<^sup>2))"

definition nearest_wind :: "wind_feature list \<Rightarrow> real \<Rightarrow> real \<Rightarrow> real \<Rightarrow> wind_feature option" where
  "nearest_wind features lon lat kmPerDegLon = closest (\<lambda>f. Some (wind_km kmPerDegLon lon lat f)) features None"

definition ceil_div :: "int \<Rightarrow> int \<Rightarrow> int" where
  "ceil_div a b = \<lceil>of_int a / of_int b :: real\<rceil>"

text \<open>The step is widened until the lattice fits; once it exceeds both sides one point is left.\<close>

function widen :: "int \<Rightarrow> int \<Rightarrow> int \<Rightarrow> int" where
  "widen rows cols stride = (if 1 \<le> stride \<and> WIND_FIELD_MAX < ceil_div rows stride * ceil_div cols stride
     then widen rows cols (stride + 1) else stride)"
  by auto

lemma ceil_div_small: "1 \<le> s \<Longrightarrow> \<bar>a\<bar> \<le> s \<Longrightarrow> \<bar>ceil_div a s\<bar> \<le> 1"
proof -
  assume a: "1 \<le> s" "\<bar>a\<bar> \<le> s"
  then have "of_int a / of_int s \<le> (1 :: real)" "- 1 \<le> (of_int a / of_int s :: real)"
    by (simp_all add: field_simps)
  then show ?thesis unfolding ceil_div_def by linarith
qed

termination widen
proof (relation "measure (\<lambda>(rows, cols, stride). nat (\<bar>rows\<bar> + \<bar>cols\<bar> + 1 - stride))")
  fix rows cols stride
  assume big: "1 \<le> stride \<and> WIND_FIELD_MAX < ceil_div rows stride * ceil_div cols stride"
  have "stride < \<bar>rows\<bar> + \<bar>cols\<bar> + 1"
  proof (rule ccontr)
    assume "\<not> ?thesis"
    with big have "\<bar>ceil_div rows stride\<bar> \<le> 1" "\<bar>ceil_div cols stride\<bar> \<le> 1" by (auto intro!: ceil_div_small)
    then have "\<bar>ceil_div rows stride * ceil_div cols stride\<bar> \<le> 1 * 1" unfolding abs_mult by (intro mult_mono) auto
    with big show False by (simp add: WIND_FIELD_MAX_def)
  qed
  then show "((rows, cols, stride + 1), rows, cols, stride)
      \<in> measure (\<lambda>(rows, cols, stride). nat (\<bar>rows\<bar> + \<bar>cols\<bar> + 1 - stride))" by simp
qed simp

declare widen.simps [simp del]

definition first_stride :: "int \<Rightarrow> int \<Rightarrow> int" where
  "first_stride rows cols = max 1 \<lceil>sqrt (of_int (rows * cols) / of_int WIND_FIELD_MAX)\<rceil>"

text \<open>The indices of \<open>for (let i = 0; i * stride < n; i++)\<close>.\<close>

definition lattice_steps :: "int \<Rightarrow> int \<Rightarrow> nat list" where
  "lattice_steps n stride = filter (\<lambda>i. int i * stride < n) [0..<nat n]"

definition lattice_arrow :: "wind_feature list \<Rightarrow> real \<Rightarrow> real \<Rightarrow> real \<Rightarrow> wind_feature list" where
  "lattice_arrow served kmPerDegLon lon lat = (case nearest_wind served lon lat kmPerDegLon of
      None \<Rightarrow> []
    | Some f \<Rightarrow> if WIND_SERVED_SPACING_KM < wind_km kmPerDegLon lon lat f then []
        else [f\<lparr>wf_lon := lon, wf_lat := lat\<rparr>])"

definition windField :: "jsval \<Rightarrow> bounds \<Rightarrow> real \<Rightarrow> wind_feature list" where
  "windField body b zoom =
     (let served = windFeatures body; spacing = windSpacingKm zoom in
      if served = [] \<or> WIND_SERVED_SPACING_KM \<le> spacing then served
      else let dLat = spacing / KM_PER_DEG_LAT;
               kmPerDegLon = KM_PER_DEG_LAT * cos ((north b + south b) / 2 * pi / 180);
               dLon = spacing / kmPerDegLon;
               rows = \<lfloor>(north b - south b) / dLat\<rfloor> + 1;
               cols = \<lfloor>(east b - west b) / dLon\<rfloor> + 1;
               stride = widen rows cols (first_stride rows cols)
           in concat (map (\<lambda>r. concat (map (\<lambda>c. lattice_arrow served kmPerDegLon
                 (west b + real c * of_int stride * dLon) (south b + real r * of_int stride * dLat))
               (lattice_steps cols stride))) (lattice_steps rows stride)))"

section \<open>The attribution\<close>

definition MODEL_NAMES :: "(string \<times> string) list" where
  "MODEL_NAMES = [(''ecmwf'', ''ECMWF''), (''gfs'', ''GFS''), (''icon'', ''ICON'')]"

definition windModelName :: "string \<Rightarrow> string" where
  "windModelName i = (case find (\<lambda>(p, _). starts_with i p) MODEL_NAMES of Some (_, n) \<Rightarrow> n | None \<Rightarrow> i)"

text \<open>\<open>String.replace\<close> of a plain pattern: the first occurrence only.\<close>

fun replace_first :: "string \<Rightarrow> string \<Rightarrow> string \<Rightarrow> string" where
  "replace_first pat by s = (if take (length pat) s = pat then by @ drop (length pat) s
     else case s of [] \<Rightarrow> [] | c # t \<Rightarrow> c # replace_first pat by t)"

record wind_texts =
  wt_attribution :: string
  wt_note :: string
  wt_credit :: string

definition windLabel :: "(string \<Rightarrow> string) \<Rightarrow> wind_texts \<Rightarrow> jsval \<Rightarrow> string" where
  "windLabel formatTime t body = (if \<not> truthy body then []
     else let model = (case as_str (jget body ''model'') of Some s \<Rightarrow> s | None \<Rightarrow> ''undefined'');
              valid = (case as_str (jget body ''valid_at'') of Some s \<Rightarrow> s | None \<Rightarrow> ''undefined'');
              attribution = replace_first ''{time}'' (formatTime valid)
                (replace_first ''{model}'' (windModelName model) (wt_attribution t));
              labelled = (if wt_note t \<noteq> [] then wt_note t @ '' '' @ attribution else attribution)
          in if wt_credit t \<noteq> [] then labelled @ '' '' @ wt_credit t else labelled)"

section \<open>The age of a forecast\<close>

text \<open>
  \<open>Date.parse\<close> of the RFC 3339 instants the server writes, in milliseconds of the epoch; days are
  counted in the proleptic Gregorian calendar. Any other text is NaN here.
\<close>

definition days_from_civil :: "int \<Rightarrow> int \<Rightarrow> int \<Rightarrow> int" where
  "days_from_civil y m d = (let y' = (if m \<le> 2 then y - 1 else y);
      era = y' div 400; yoe = y' mod 400;
      doy = (153 * (if m > 2 then m - 3 else m + 9) + 2) div 5 + d - 1;
      doe = yoe * 365 + yoe div 4 - yoe div 100 + doy
    in era * 146097 + doe - 719468)"

definition field :: "string \<Rightarrow> nat \<Rightarrow> nat \<Rightarrow> int option" where
  "field s i n = (let w = take n (drop i s) in if length w = n \<and> list_all is_digit w then Some (int (digits_val w)) else None)"

text \<open>The milliseconds of a fraction, and the minutes of the zone after it.\<close>

definition zone_minutes :: "string \<Rightarrow> int option" where
  "zone_minutes z = (if z = ''Z'' then Some 0
     else case z of c # t \<Rightarrow> (case (field t 0 2, field t 3 2) of
         (Some h, Some m) \<Rightarrow> if length t = 5 \<and> t ! 2 = CHR '':'' then
             (if c = CHR ''+'' then Some (60 * h + m) else if c = CHR ''-'' then Some (- (60 * h + m)) else None) else None
       | _ \<Rightarrow> None)
     | [] \<Rightarrow> None)"

definition fraction_ms :: "string \<Rightarrow> (int \<times> string) option" where
  "fraction_ms s = (case s of c # t \<Rightarrow> if c = CHR ''.'' then
        (let ds = takeWhile is_digit t in if ds = [] then None
         else Some (int (digits_val (take 3 (ds @ ''00''))), dropWhile is_digit t))
      else Some (0, s)
    | [] \<Rightarrow> Some (0, []))"

definition iso_ms :: "string \<Rightarrow> int option" where
  "iso_ms s = (if \<not> (19 \<le> length s \<and> s ! 4 = CHR ''-'' \<and> s ! 7 = CHR ''-'' \<and> s ! 10 = CHR ''T'' \<and> s ! 13 = CHR '':'' \<and> s ! 16 = CHR '':'') then None
     else case (field s 0 4, field s 5 2, field s 8 2, field s 11 2, field s 14 2, field s 17 2, fraction_ms (drop 19 s)) of
       (Some y, Some mo, Some d, Some h, Some mi, Some sec, Some (ms, z)) \<Rightarrow>
         if 1 \<le> mo \<and> mo \<le> 12 \<and> 1 \<le> d \<and> d \<le> 31 \<and> h \<le> 23 \<and> mi \<le> 59 \<and> sec \<le> 59
         then map_option (\<lambda>zm. (((days_from_civil y mo d * 24 + h) * 60 + mi - zm) * 60 + sec) * 1000 + ms) (zone_minutes z)
         else None
     | _ \<Rightarrow> None)"

definition windIsStale :: "jsval \<Rightarrow> int \<Rightarrow> bool" where
  "windIsStale body now = (case Option.bind (as_str (jget body ''valid_at'')) iso_ms of
      None \<Rightarrow> False
    | Some validAt \<Rightarrow> validAt div 3600000 \<noteq> now div 3600000)"

section \<open>The streaks (windstreaks.js)\<close>

definition GRID_PX :: real where "GRID_PX = 20"
definition FULL_KM :: real where "FULL_KM = 30"
definition REACH_KM :: real where "REACH_KM = 80"
definition NEAREST :: nat where "NEAREST = 4"
definition AREA_PER_PARTICLE :: real where "AREA_PER_PARTICLE = 4500"
definition MAX_PARTICLES :: int where "MAX_PARTICLES = 500"
definition SPEED_PX_PER_MS :: real where "SPEED_PX_PER_MS = 0.009"
definition SPEED_MAX_MS :: real where "SPEED_MAX_MS = 12"
definition BUCKETS :: int where "BUCKETS = 6"

definition WIND_RAMP :: "(real \<times> real list) list" where
  "WIND_RAMP = [(0, [110, 170, 240]), (4, [60, 128, 222]), (8, [32, 90, 200]), (12, [24, 58, 170])]"

definition clamp_speed :: "real \<Rightarrow> real" where
  "clamp_speed v = min (max v 0) SPEED_MAX_MS"

text \<open>The index the loop stops at: the first stop not below the speed, or the last one.\<close>

fun ramp_index :: "real \<Rightarrow> nat \<Rightarrow> (real \<times> real list) list \<Rightarrow> nat" where
  "ramp_index s i (p # q # ps) = (if fst p < s then ramp_index s (Suc i) (q # ps) else i)"
| "ramp_index s i _ = i"

definition windColour :: "real \<Rightarrow> int list" where
  "windColour speedMs = (let s = clamp_speed speedMs; i = ramp_index s 1 (tl WIND_RAMP);
      (s0, a) = WIND_RAMP ! (i - 1); (s1, b) = WIND_RAMP ! i; t = (s - s0) / (s1 - s0)
    in map (\<lambda>(v, w). math_round (v + (w - v) * t)) (zip a b))"

definition speedBucket :: "real \<Rightarrow> int" where
  "speedBucket speedMs = min (BUCKETS - 1) \<lfloor>clamp_speed speedMs / SPEED_MAX_MS * of_int BUCKETS\<rfloor>"

definition bucketColour :: "int \<Rightarrow> int list" where
  "bucketColour i = windColour ((of_int i + 1 / 2) / of_int BUCKETS * SPEED_MAX_MS)"

definition particleCount :: "real \<Rightarrow> real \<Rightarrow> int" where
  "particleCount width height = min MAX_PARTICLES (max 0 (math_round (width * height / AREA_PER_PARTICLE)))"

definition stepPx :: "real \<Rightarrow> real \<Rightarrow> real" where
  "stepPx speedMs dtMs = speedMs * SPEED_PX_PER_MS * dtMs"

definition windfxMode :: "string \<Rightarrow> bool \<Rightarrow> string" where
  "windfxMode search reducedMotion = (if params_get (params_parse search) ''windfx'' = Some ''arrows'' \<or> reducedMotion
     then ''arrows'' else ''streaks'')"

record uv_vector =
  uv_lon :: real
  uv_lat :: real
  uv_u :: real
  uv_v :: real

definition toUV :: "jsval \<Rightarrow> uv_vector list" where
  "toUV body = (if \<not> wind_ok body then []
     else map (\<lambda>v. let a = radians (arrowBearing (the_num (jget v ''direction_deg''))); speed = the_num (jget v ''speed_ms'')
         in \<lparr>uv_lon = the_num (jget v ''lon''), uv_lat = the_num (jget v ''lat''), uv_u = speed * sin a, uv_v = speed * cos a\<rparr>)
       (elems (jget body ''vectors'')))"

definition near_vectors :: "uv_vector list \<Rightarrow> real \<Rightarrow> real \<Rightarrow> (real \<times> uv_vector) list" where
  "near_vectors vectors lon lat = (let kmLon = KM_PER_DEG_LAT * cos (lat * pi / 180) in
     filter (\<lambda>(d2, p). d2 < REACH_KM * REACH_KM)
       (map (\<lambda>p. let dx = (uv_lon p - lon) * kmLon; dy = (uv_lat p - lat) * KM_PER_DEG_LAT in (dx * dx + dy * dy, p)) vectors))"

definition idw :: "uv_vector list \<Rightarrow> real \<Rightarrow> real \<Rightarrow> (real \<times> real \<times> real) option" where
  "idw vectors lon lat = (let near = js_sort (\<lambda>a b. fst a - fst b) (near_vectors vectors lon lat) in
     if near = [] then None
     else let best = take NEAREST near;
              w = (\<lambda>(d2, p). 1 / (d2 + 25));
              su = sum_list (map (\<lambda>q. uv_u (snd q) * w q) best);
              sv = sum_list (map (\<lambda>q. uv_v (snd q) * w q) best);
              sw = sum_list (map w best);
              fade = min 1 ((REACH_KM - sqrt (fst (hd near))) / (REACH_KM - FULL_KM))
          in Some (su / sw, sv / sw, fade))"

text \<open>The screen grid: one node every \<open>GRID_PX\<close> pixels, \<open>None\<close> where the field has no vector near.\<close>

record wind_grid =
  wg_cols :: int
  wg_rows :: int
  wg_nodes :: "(real \<times> real \<times> real) option list"

definition screen_vector :: "real \<Rightarrow> real \<times> real \<times> real \<Rightarrow> real \<times> real \<times> real" where
  "screen_vector rot uv = (case uv of (u, v, fade) \<Rightarrow>
     (u * cos rot - v * sin rot, - (u * sin rot + v * cos rot), fade))"

definition buildGrid :: "uv_vector list \<Rightarrow> real \<Rightarrow> real \<Rightarrow> (real \<Rightarrow> real \<Rightarrow> real \<times> real) \<Rightarrow> real \<Rightarrow> wind_grid" where
  "buildGrid vectors width height unproject bearingDeg =
     (let cols = \<lceil>width / GRID_PX\<rceil> + 1; rows = \<lceil>height / GRID_PX\<rceil> + 1; rot = bearingDeg * pi / 180 in
      \<lparr>wg_cols = cols, wg_rows = rows,
       wg_nodes = concat (map (\<lambda>r. map (\<lambda>c. case unproject (real c * GRID_PX) (real r * GRID_PX) of
           (lon, lat) \<Rightarrow> map_option (screen_vector rot) (idw vectors lon lat)) [0..<nat cols]) [0..<nat rows])\<rparr>)"

definition bilinear_weight :: "real \<Rightarrow> real \<Rightarrow> nat \<Rightarrow> real" where
  "bilinear_weight tx ty j = (if odd j then tx else 1 - tx) * (if j div 2 = 1 then ty else 1 - ty)"

definition sample :: "wind_grid \<Rightarrow> real \<Rightarrow> real \<Rightarrow> (real \<times> real \<times> real) option" where
  "sample g x y = (let fx = x / GRID_PX; fy = y / GRID_PX; c = \<lfloor>fx\<rfloor>; r = \<lfloor>fy\<rfloor> in
     if c < 0 \<or> r < 0 \<or> wg_cols g \<le> c + 1 \<or> wg_rows g \<le> r + 1 then None
     else let tx = fx - of_int c; ty = fy - of_int r;
              parts = concat (map (\<lambda>j. case wg_nodes g ! nat ((r + int (j div 2)) * wg_cols g + c + int (j mod 2)) of
                  Some n \<Rightarrow> [(n, bilinear_weight tx ty j)] | None \<Rightarrow> []) [0..<4]);
              aw = sum_list (map snd parts)
          in if 0.35 < aw then Some (sum_list (map (\<lambda>((vx, _, _), w). vx * w) parts) / aw,
                 sum_list (map (\<lambda>((_, vy, _), w). vy * w) parts) / aw,
                 sum_list (map (\<lambda>((_, _, f), w). f * w) parts))
             else None)"

section \<open>Lemmas\<close>

lemma widen_fits: "1 \<le> s \<Longrightarrow> 1 \<le> widen rows cols s
    \<and> ceil_div rows (widen rows cols s) * ceil_div cols (widen rows cols s) \<le> WIND_FIELD_MAX"
proof (induction rows cols s rule: widen.induct)
  case (1 rows cols s)
  show ?case
  proof (cases "WIND_FIELD_MAX < ceil_div rows s * ceil_div cols s")
    case True
    with 1 show ?thesis by (simp add: widen.simps [of rows cols s])
  next
    case False
    with 1 show ?thesis by (simp add: widen.simps [of rows cols s])
  qed
qed

lemma length_lattice_steps: "1 \<le> s \<Longrightarrow> length (lattice_steps n s) \<le> nat (ceil_div n s)"
proof -
  assume s: "1 \<le> s"
  have "set (lattice_steps n s) \<subseteq> {0..<nat (ceil_div n s)}"
  proof
    fix i assume "i \<in> set (lattice_steps n s)"
    then have "int i * s < n" by (simp add: lattice_steps_def)
    then have "of_int (int i * s) < (of_int n :: real)" by (simp only: of_int_less_iff)
    then have "real i < of_int n / of_int s" using s by (simp add: field_simps)
    then have "int i < ceil_div n s" unfolding ceil_div_def by linarith
    then show "i \<in> {0..<nat (ceil_div n s)}" by simp
  qed
  moreover have "distinct (lattice_steps n s)" by (simp add: lattice_steps_def)
  ultimately show ?thesis
    by (metis card_atLeastLessThan card_mono diff_zero distinct_card finite_atLeastLessThan)
qed

lemma lattice_steps_Nil: "n \<le> 0 \<Longrightarrow> lattice_steps n s = []"
  by (simp add: lattice_steps_def)

lemma length_lattice_arrow: "length (lattice_arrow served k lon lat) \<le> 1"
  by (simp add: lattice_arrow_def split: option.split)

lemma length_concat_map: "(\<And>x. x \<in> set xs \<Longrightarrow> length (f x) \<le> k) \<Longrightarrow> length (concat (map f xs)) \<le> length xs * k"
  by (induction xs) (auto intro: add_mono)

lemma lattice_fits:
  assumes "1 \<le> s" "ceil_div rows s * ceil_div cols s \<le> WIND_FIELD_MAX"
  shows "length (lattice_steps rows s) * length (lattice_steps cols s) \<le> nat WIND_FIELD_MAX"
proof (cases "0 < rows \<and> 0 < cols")
  case True
  then have "(0::real) \<le> of_int rows / of_int s" "(0::real) \<le> of_int cols / of_int s" using assms(1) by simp_all
  then have pos: "0 \<le> ceil_div rows s" "0 \<le> ceil_div cols s" unfolding ceil_div_def by linarith+
  have "length (lattice_steps rows s) * length (lattice_steps cols s) \<le> nat (ceil_div rows s) * nat (ceil_div cols s)"
    using assms(1) by (intro mult_mono length_lattice_steps) auto
  also have "\<dots> = nat (ceil_div rows s * ceil_div cols s)" using pos by (simp add: nat_mult_distrib)
  also have "\<dots> \<le> nat WIND_FIELD_MAX" using assms(2) by (rule nat_mono)
  finally show ?thesis .
qed (auto simp: lattice_steps_Nil)

lemma lattice_arrow_served:
  assumes "f \<in> set (lattice_arrow served k lon lat)"
  obtains g where "g \<in> set served" "wf_bearing f = wf_bearing g" "wf_speed f = wf_speed g"
    "wind_km k (wf_lon f) (wf_lat f) g \<le> WIND_SERVED_SPACING_KM"
    "\<forall>h \<in> set served. wind_km k (wf_lon f) (wf_lat f) g \<le> wind_km k (wf_lon f) (wf_lat f) h"
proof -
  obtain g where g: "nearest_wind served lon lat k = Some g" "\<not> WIND_SERVED_SPACING_KM < wind_km k lon lat g"
    "f = g\<lparr>wf_lon := lon, wf_lat := lat\<rparr>"
    using assms by (cases "nearest_wind served lon lat k") (auto simp: lattice_arrow_def split: if_splits)
  with closest_spec [of "\<lambda>f. Some (wind_km k lon lat f)" served None g]
  have "g \<in> set served" "\<forall>h \<in> set served. wind_km k lon lat g \<le> wind_km k lon lat h"
    by (auto simp: nearest_wind_def)
  with g show ?thesis by (intro that [of g]) (auto simp: not_less)
qed

definition view_km_per_deg :: "bounds \<Rightarrow> real" where
  "view_km_per_deg b = KM_PER_DEG_LAT * cos ((north b + south b) / 2 * pi / 180)"

lemma windField_cases:
  obtains (served) "windField body b zoom = windFeatures body"
  | (lattice) rows cols dLon dLat where "windField body b zoom = concat (map (\<lambda>r. concat (map (\<lambda>c.
        lattice_arrow (windFeatures body) (view_km_per_deg b)
          (west b + real c * of_int (widen rows cols (first_stride rows cols)) * dLon)
          (south b + real r * of_int (widen rows cols (first_stride rows cols)) * dLat))
        (lattice_steps cols (widen rows cols (first_stride rows cols))))) (lattice_steps rows (widen rows cols (first_stride rows cols))))"
proof (cases "windFeatures body = [] \<or> WIND_SERVED_SPACING_KM \<le> windSpacingKm zoom")
  case False
  let ?dLat = "windSpacingKm zoom / KM_PER_DEG_LAT" and ?dLon = "windSpacingKm zoom / view_km_per_deg b"
  show thesis
    by (rule lattice [of "\<lfloor>(north b - south b) / ?dLat\<rfloor> + 1" "\<lfloor>(east b - west b) / ?dLon\<rfloor> + 1" ?dLon ?dLat])
      (use False in \<open>simp only: windField_def Let_def view_km_per_deg_def if_False\<close>)
qed (simp add: windField_def served)

section \<open>Properties\<close>

text \<open>The arrows stay the model's answer and fit the screen: the field drawn is the served one, or a
  lattice of at most 600 arrows each of which repeats the bearing and the speed of the served vector
  nearest to it, no further away than the served spacing of 25 km.\<close>

theorem wind_arrows_bounded_and_served:
  "windField body b zoom = windFeatures body
   \<or> length (windField body b zoom) \<le> 600 \<and> (\<forall>f \<in> set (windField body b zoom). \<exists>g \<in> set (windFeatures body).
        wf_bearing f = wf_bearing g \<and> wf_speed f = wf_speed g
        \<and> wind_km (view_km_per_deg b) (wf_lon f) (wf_lat f) g \<le> WIND_SERVED_SPACING_KM
        \<and> (\<forall>h \<in> set (windFeatures body). wind_km (view_km_per_deg b) (wf_lon f) (wf_lat f) g
              \<le> wind_km (view_km_per_deg b) (wf_lon f) (wf_lat f) h))"
proof (cases rule: windField_cases [of body b zoom])
  case (lattice rows cols dLon dLat)
  let ?s = "widen rows cols (first_stride rows cols)"
  have "1 \<le> first_stride rows cols" by (simp add: first_stride_def)
  from widen_fits [OF this] have s: "1 \<le> ?s" "ceil_div rows ?s * ceil_div cols ?s \<le> WIND_FIELD_MAX" by auto
  have "length (windField body b zoom) \<le> length (lattice_steps rows ?s) * (length (lattice_steps cols ?s) * 1)"
    unfolding lattice by (intro length_concat_map length_lattice_arrow)
  also have "\<dots> \<le> 600" using lattice_fits [OF s] by (simp add: WIND_FIELD_MAX_def)
  finally have len: "length (windField body b zoom) \<le> 600" .
  have "\<exists>g \<in> set (windFeatures body). wf_bearing f = wf_bearing g \<and> wf_speed f = wf_speed g
        \<and> wind_km (view_km_per_deg b) (wf_lon f) (wf_lat f) g \<le> WIND_SERVED_SPACING_KM
        \<and> (\<forall>h \<in> set (windFeatures body). wind_km (view_km_per_deg b) (wf_lon f) (wf_lat f) g
              \<le> wind_km (view_km_per_deg b) (wf_lon f) (wf_lat f) h)"
    if "f \<in> set (windField body b zoom)" for f
    using that unfolding lattice by (auto elim!: lattice_arrow_served)
  with len show ?thesis by blast
qed simp

definition forecast_body :: jsval where
  "forecast_body = JObj [(''forecast'', JBool True), (''vectors'', JArr [JObj [(''lon'', jreal 23.25), (''lat'', jreal 42.75),
     (''speed_ms'', jreal 4), (''direction_deg'', jreal 270)]])]"

theorem wind_arrows_bounded_and_served_witness:
  "windField forecast_body \<lparr>west = 23, south = 42, east = 24, north = 43\<rparr> 12 = windFeatures forecast_body
   \<or> length (windField forecast_body \<lparr>west = 23, south = 42, east = 24, north = 43\<rparr> 12) \<le> 600"
  using wind_arrows_bounded_and_served [of forecast_body "\<lparr>west = 23, south = 42, east = 24, north = 43\<rparr>" 12] by blast

lemma weighted_mean:
  assumes "\<forall>q \<in> set ps. lo \<le> x q \<and> x q \<le> (hi :: real)" "\<forall>q \<in> set ps. 0 < w q" "ps \<noteq> []"
  shows "lo \<le> sum_list (map (\<lambda>q. x q * w q) ps) / sum_list (map w ps)
    \<and> sum_list (map (\<lambda>q. x q * w q) ps) / sum_list (map w ps) \<le> hi"
proof -
  have "0 \<le> sum_list (map w qs)" if "\<forall>q \<in> set qs. 0 < w q" for qs
    using that by (induction qs) auto
  then have pos: "0 < sum_list (map w ps)"
    using assms(2,3) by (cases ps) (auto intro: add_pos_nonneg)
  have "lo * sum_list (map w qs) \<le> sum_list (map (\<lambda>q. x q * w q) qs) \<and> sum_list (map (\<lambda>q. x q * w q) qs) \<le> hi * sum_list (map w qs)"
    if "set qs \<subseteq> set ps" for qs
    using that
  proof (induction qs)
    case (Cons q qs)
    then have "lo * w q \<le> x q * w q" "x q * w q \<le> hi * w q" using assms(1,2) by (auto intro!: mult_right_mono less_imp_le)
    with Cons show ?case by (simp add: distrib_left add_mono)
  qed simp
  from this [of ps] pos show ?thesis by (simp add: field_simps)
qed

lemma near_vectors_dist: "q \<in> set (near_vectors vectors lon lat) \<Longrightarrow> 0 \<le> fst q \<and> fst q < REACH_KM * REACH_KM"
  by (auto simp: near_vectors_def Let_def)

text \<open>C13. The streaks blend what is near: where a vector is within 80 km the blended wind lies, in each
  component, between bounds that hold of every near vector, at a strength that is positive, at most
  full, and full exactly within 30 km of a vector; elsewhere there is no wind at all.\<close>

theorem streaks_blend_near_vectors:
  assumes "near = near_vectors vectors lon lat"
  shows "(idw vectors lon lat = None \<longleftrightarrow> near = [])
    \<and> (idw vectors lon lat = Some (u, v, fade) \<longrightarrow> 0 < fade \<and> fade \<le> 1 \<and> (fade = 1 \<longleftrightarrow> (\<exists>q \<in> set near. sqrt (fst q) \<le> FULL_KM))
       \<and> ((\<forall>q \<in> set near. lo \<le> uv_u (snd q) \<and> uv_u (snd q) \<le> hi) \<longrightarrow> lo \<le> u \<and> u \<le> hi)
       \<and> ((\<forall>q \<in> set near. lo \<le> uv_v (snd q) \<and> uv_v (snd q) \<le> hi) \<longrightarrow> lo \<le> v \<and> v \<le> hi))"
proof (cases "near = []")
  case True
  then show ?thesis using assms by (simp add: idw_def)
next
  case False
  let ?cmp = "\<lambda>a b. fst a - fst b :: real"
  define sorted where "sorted = js_sort ?cmp near"
  have "consistent ?cmp" by (auto simp: consistent_def)
  then have ord: "sorted_wrt (\<lambda>a b. ?cmp a b \<le> 0) sorted" unfolding sorted_def by (rule sorted_js_sort)
  have ne: "sorted \<noteq> []" "set sorted = set near" using False by (simp_all add: sorted_def)
  obtain q qs where q: "sorted = q # qs" using ne by (cases sorted) auto
  then have qn: "q \<in> set near" "\<forall>p \<in> set near. fst q \<le> fst p" using ord ne(2) by auto
  note d = near_vectors_dist [OF qn(1) [unfolded assms]]
  have root: "0 \<le> sqrt (fst q)" "sqrt (fst q) < REACH_KM"
    using d real_sqrt_less_mono [of "fst q" "REACH_KM * REACH_KM"] by (simp_all add: REACH_KM_def)
  have full: "1 \<le> (REACH_KM - sqrt (fst q)) / (REACH_KM - FULL_KM) \<longleftrightarrow> sqrt (fst q) \<le> FULL_KM"
    by (simp add: REACH_KM_def FULL_KM_def field_simps)
  have first: "(\<exists>p \<in> set near. sqrt (fst p) \<le> FULL_KM) \<longleftrightarrow> sqrt (fst q) \<le> FULL_KM"
    using qn by (meson order_trans real_sqrt_le_mono)
  let ?best = "take NEAREST sorted"
  define w where "w = (\<lambda>(d2, p :: uv_vector). 1 / (d2 + 25 :: real))"
  have best: "?best \<noteq> []" "set ?best \<subseteq> set near" using ne by (auto simp: NEAREST_def dest: in_set_takeD)
  have pos: "\<forall>p \<in> set ?best. 0 < w p"
  proof
    fix p assume "p \<in> set ?best"
    then have "0 \<le> fst p" using best(2) near_vectors_dist assms by blast
    then show "0 < w p" by (cases p) (simp add: w_def)
  qed
  let ?mean = "\<lambda>f. sum_list (map (\<lambda>q. f (snd q) * w q) ?best) / sum_list (map w ?best)"
  let ?fade = "(REACH_KM - sqrt (fst q)) / (REACH_KM - FULL_KM)"
  have x: "idw vectors lon lat = Some (?mean uv_u, ?mean uv_v, min 1 ?fade)"
    using False q unfolding w_def by (simp add: idw_def Let_def assms [symmetric] sorted_def [symmetric])
  have mean: "lo \<le> ?mean f \<and> ?mean f \<le> hi" if "\<forall>q \<in> set near. lo \<le> f (snd q) \<and> f (snd q) \<le> hi" for f
    using that best(2) by (intro weighted_mean pos best(1)) blast
  have "0 < ?fade" using root by (simp add: REACH_KM_def FULL_KM_def)
  moreover have "min 1 ?fade = 1 \<longleftrightarrow> sqrt (fst q) \<le> FULL_KM"
    using full by (simp add: min_def)
  ultimately have "0 < min 1 ?fade \<and> min 1 ?fade \<le> 1 \<and> (min 1 ?fade = 1 \<longleftrightarrow> (\<exists>q \<in> set near. sqrt (fst q) \<le> FULL_KM))"
    unfolding first by simp
  with mean [of uv_u] mean [of uv_v] False show ?thesis unfolding x by blast
qed

theorem streaks_blend_near_vectors_witness:
  "\<exists>v fade. idw [\<lparr>uv_lon = 23, uv_lat = 42, uv_u = 3, uv_v = 4\<rparr>] 23 42 = Some (3, v, fade) \<and> fade = 1"
proof -
  let ?p = "\<lparr>uv_lon = 23, uv_lat = 42, uv_u = 3, uv_v = 4\<rparr>"
  have near: "[(0, ?p)] = near_vectors [?p] 23 42" by (simp add: near_vectors_def Let_def REACH_KM_def)
  then have "idw [?p] 23 42 \<noteq> None" using streaks_blend_near_vectors [OF near, of 0 0 0 0 0] by blast
  then obtain u v fade where e: "idw [?p] 23 42 = Some (u, v, fade)" by (metis not_None_eq prod.collapse)
  from streaks_blend_near_vectors [OF near, of u v fade 3 3] e show ?thesis by (simp add: FULL_KM_def)
qed

end
