(* ===== verification/Json.thy ===== *)
theory Json
  imports Url_Params
begin

text \<open>
  \<open>JSON.parse\<close> and \<open>JSON.stringify\<close>, through which the client keeps structured values in the
  browser's storage: a recursive-descent parser over UTF-8 bytes and a printer of payload
  values, with the lemma that parsing undoes printing. A text that is not JSON is \<open>None\<close>, the
  exception the callers catch. The parser takes fuel; a text never needs more than twice its
  length, which is what \<open>json_parse\<close> gives it.
\<close>

section \<open>Lexical elements\<close>

definition json_ws :: "char \<Rightarrow> bool" where
  "json_ws c \<longleftrightarrow> (of_char c :: nat) \<in> {9, 10, 13, 32}"

definition skip_ws :: "string \<Rightarrow> string" where
  "skip_ws s = dropWhile json_ws s"

definition strip_prefix :: "string \<Rightarrow> string \<Rightarrow> string option" where
  "strip_prefix p s = (if take (length p) s = p then Some (drop (length p) s) else None)"

text \<open>A code point above 127 in an escape becomes its UTF-8 bytes.\<close>

definition utf8 :: "nat \<Rightarrow> string" where
  "utf8 k = (if k < 128 then [char_of k]
     else if k < 2048 then [char_of (192 + k div 64), char_of (128 + k mod 64)]
     else if k < 65536 then [char_of (224 + k div 4096), char_of (128 + k div 64 mod 64), char_of (128 + k mod 64)]
     else [char_of (240 + k div 262144), char_of (128 + k div 4096 mod 64), char_of (128 + k div 64 mod 64),
           char_of (128 + k mod 64)])"

definition hex4 :: "string \<Rightarrow> (nat \<times> string) option" where
  "hex4 s = (case s of a # b # c # d # t \<Rightarrow>
      (case (hex_val a, hex_val b, hex_val c, hex_val d) of
         (Some i, Some j, Some k, Some l) \<Rightarrow> Some (4096 * i + 256 * j + 16 * k + l, t)
       | _ \<Rightarrow> None)
    | _ \<Rightarrow> None)"

text \<open>Two escapes of a surrogate pair are one code point.\<close>

definition unicode_escape :: "string \<Rightarrow> (string \<times> string) option" where
  "unicode_escape s = (case hex4 s of None \<Rightarrow> None
     | Some (k, t) \<Rightarrow> (case (if 55296 \<le> k \<and> k < 56320 then Option.bind (strip_prefix [CHR 92, CHR ''u''] t) hex4 else None) of
           Some (l, t') \<Rightarrow> if 56320 \<le> l \<and> l < 57344
             then Some (utf8 (65536 + (k - 55296) * 1024 + (l - 56320)), t') else Some (utf8 k, t)
         | None \<Rightarrow> Some (utf8 k, t)))"

definition simple_escape :: "char \<Rightarrow> char option" where
  "simple_escape c = map_of [(CHR ''\"'', CHR ''\"''), (CHR 92, CHR 92), (CHR ''/'', CHR ''/''),
     (CHR ''b'', CHR 8), (CHR ''f'', CHR 12), (CHR ''n'', CHR 10), (CHR ''r'', CHR 13), (CHR ''t'', CHR 9)] c"

text \<open>The characters of a string literal up to its closing quote; control characters end it.\<close>

fun json_chars :: "nat \<Rightarrow> string \<Rightarrow> (string \<times> string) option" where
  "json_chars 0 s = None"
| "json_chars (Suc n) s = (case s of [] \<Rightarrow> None
     | c # t \<Rightarrow> if c = CHR ''\"'' then Some ([], t)
         else if (of_char c :: nat) < 32 then None
         else if c \<noteq> CHR 92 then map_option (\<lambda>(w, r). (c # w, r)) (json_chars n t)
         else case t of [] \<Rightarrow> None
           | e # t' \<Rightarrow> (case (if e = CHR ''u'' then unicode_escape t' else map_option (\<lambda>d. ([d], t')) (simple_escape e)) of
                 None \<Rightarrow> None
               | Some (d, t'') \<Rightarrow> map_option (\<lambda>(w, r). (d @ w, r)) (json_chars n t'')))"

definition number_char :: "char \<Rightarrow> bool" where
  "number_char c \<longleftrightarrow> is_digit c \<or> c \<in> set ''+-.eE''"

text \<open>No leading zeros, and digits on both sides of a decimal point.\<close>

definition json_unsigned :: "string \<Rightarrow> real option" where
  "json_unsigned u = (let ip = takeWhile is_digit u; r = dropWhile is_digit u in
     if ip = [] \<or> (hd ip = CHR ''0'' \<and> tl ip \<noteq> []) then None
     else if (case r of d # f \<Rightarrow> d = CHR ''.'' \<and> takeWhile is_digit f = [] | [] \<Rightarrow> False) then None
     else unsigned_decimal u)"

definition json_number :: "string \<Rightarrow> (jsval \<times> string) option" where
  "json_number s = (let w = takeWhile number_char s; neg = (take 1 w = ''-'')
     in map_option (\<lambda>x. (jreal (if neg then - x else x), dropWhile number_char s))
          (json_unsigned (if neg then tl w else w)))"

section \<open>The parser\<close>

fun json_value :: "nat \<Rightarrow> string \<Rightarrow> (jsval \<times> string) option"
  and json_items :: "nat \<Rightarrow> string \<Rightarrow> (jsval list \<times> string) option"
  and json_members :: "nat \<Rightarrow> (string \<times> jsval) list \<Rightarrow> string \<Rightarrow> ((string \<times> jsval) list \<times> string) option" where
  "json_value 0 s = None"
| "json_value (Suc n) s = (case skip_ws s of [] \<Rightarrow> None
     | c # t \<Rightarrow>
        if c = CHR ''{'' then (if take 1 (skip_ws t) = ''}'' then Some (JObj [], tl (skip_ws t))
          else map_option (\<lambda>(m, r). (JObj m, r)) (json_members n [] t))
        else if c = CHR ''['' then (if take 1 (skip_ws t) = '']'' then Some (JArr [], tl (skip_ws t))
          else map_option (\<lambda>(vs, r). (JArr vs, r)) (json_items n t))
        else if c = CHR ''\"'' then map_option (\<lambda>(w, r). (JStr w, r)) (json_chars (length (c # t)) t)
        else (case strip_prefix ''true'' (c # t) of Some r \<Rightarrow> Some (JBool True, r)
          | None \<Rightarrow> (case strip_prefix ''false'' (c # t) of Some r \<Rightarrow> Some (JBool False, r)
          | None \<Rightarrow> (case strip_prefix ''null'' (c # t) of Some r \<Rightarrow> Some (JNull, r)
          | None \<Rightarrow> json_number (c # t)))))"
| "json_items 0 s = None"
| "json_items (Suc n) s = (case json_value n s of None \<Rightarrow> None
     | Some (v, r) \<Rightarrow> (case skip_ws r of [] \<Rightarrow> None
         | c # t \<Rightarrow> if c = CHR '']'' then Some ([v], t)
             else if c = CHR '','' then map_option (\<lambda>(vs, r'). (v # vs, r')) (json_items n t)
             else None))"
| "json_members 0 acc s = None"
| "json_members (Suc n) acc s = (if take 1 (skip_ws s) \<noteq> ''\"'' then None
     else case json_chars (length (skip_ws s)) (tl (skip_ws s)) of None \<Rightarrow> None
       | Some (k, r) \<Rightarrow> if take 1 (skip_ws r) \<noteq> '':'' then None
           else case json_value n (tl (skip_ws r)) of None \<Rightarrow> None
             | Some (v, r') \<Rightarrow> (case skip_ws r' of [] \<Rightarrow> None
                 | c # t \<Rightarrow> if c = CHR ''}'' then Some (AList.update k v acc, t)
                     else if c = CHR '','' then json_members n (AList.update k v acc) t
                     else None))"

definition json_parse :: "string \<Rightarrow> jsval option" where
  "json_parse s = (case json_value (Suc (length s)) s of None \<Rightarrow> None
     | Some (v, r) \<Rightarrow> if skip_ws r = [] then Some v else None)"

section \<open>The printer\<close>

definition low_hex :: "nat \<Rightarrow> char" where
  "low_hex d = (if d < 10 then char_of (48 + d) else char_of (87 + d))"

definition escape_char :: "char \<Rightarrow> string" where
  "escape_char c = (let k = (of_char c :: nat) in
     if k = 34 \<or> k = 92 then [CHR 92, c]
     else if k = 8 then [CHR 92, CHR ''b''] else if k = 12 then [CHR 92, CHR ''f'']
     else if k = 10 then [CHR 92, CHR ''n''] else if k = 13 then [CHR 92, CHR ''r'']
     else if k = 9 then [CHR 92, CHR ''t'']
     else if k < 32 then [CHR 92, CHR ''u'', CHR ''0'', CHR ''0'', low_hex (k div 16), low_hex (k mod 16)]
     else [c])"

definition json_quote :: "string \<Rightarrow> string" where
  "json_quote s = CHR ''\"'' # concat (map escape_char s) @ ''\"''"

fun json_text :: "jsval \<Rightarrow> string" where
  "json_text (JStr s) = json_quote s"
| "json_text (JNum (Fin x)) = num_str x"
| "json_text (JBool b) = (if b then ''true'' else ''false'')"
| "json_text (JArr vs) = ''['' @ join_with '','' (map json_text vs) @ '']''"
| "json_text (JObj kvs) = ''{'' @ join_with '',''
     (map (\<lambda>kv. json_quote (fst kv) @ '':'' @ json_text (snd kv)) (filter (\<lambda>kv. snd kv \<noteq> JUndef) kvs)) @ ''}''"
| "json_text _ = ''null''"

definition json_stringify :: "jsval \<Rightarrow> string option" where
  "json_stringify v = (if v = JUndef then None else Some (json_text v))"

section \<open>Parsing undoes printing\<close>

text \<open>What survives the trip: finite numbers with a short decimal expansion, no \<open>undefined\<close>,
  and no key twice in an object.\<close>

definition decimal :: "real \<Rightarrow> bool" where
  "decimal x \<longleftrightarrow> is_integer (x * 10 ^ 17)"

fun json_ok :: "jsval \<Rightarrow> bool" where
  "json_ok (JNum n) = (case n of Fin x \<Rightarrow> decimal x | _ \<Rightarrow> False)"
| "json_ok JUndef = False"
| "json_ok (JArr vs) = (\<forall>v \<in> set vs. json_ok v)"
| "json_ok (JObj kvs) = (distinct (map fst kvs) \<and> (\<forall>kv \<in> set kvs. json_ok (snd kv)))"
| "json_ok _ = True"

text \<open>What may follow a value inside a larger text.\<close>

definition value_end :: "string \<Rightarrow> bool" where
  "value_end r \<longleftrightarrow> r = [] \<or> hd r \<in> set '',]}''"

lemma value_endI [simp]: "value_end []" "value_end (CHR '','' # r)" "value_end (CHR '']'' # r)" "value_end (CHR ''}'' # r)"
  by (simp_all add: value_end_def)

lemma is_integer_10: "is_integer x \<Longrightarrow> is_integer (x * 10 ^ k)"
  by (metis is_integerE is_integer_of_int of_int_mult of_int_numeral of_int_power)

lemma is_integer_diff: "is_integer x \<Longrightarrow> is_integer y \<Longrightarrow> is_integer (x - y)"
  by (metis is_integerE is_integer_of_int of_int_diff)

lemma fraction_digits_are_digits: "0 \<le> f \<Longrightarrow> f < 1 \<Longrightarrow> list_all is_digit (fraction_digits n f)"
proof (induction n arbitrary: f)
  case (Suc n)
  have "nat \<lfloor>10 * f\<rfloor> < 10" using Suc.prems by (auto simp: floor_less_iff nat_less_iff)
  moreover have "0 \<le> 10 * f - of_int \<lfloor>10 * f\<rfloor>" "10 * f - of_int \<lfloor>10 * f\<rfloor> < 1" by linarith+
  ultimately show ?case by (auto intro!: Suc.IH digit_char_digit)
qed simp

lemma digits_val_append: "digits_val (s @ t) = digits_val s * 10 ^ length t + digits_val t"
  by (induction s) (simp_all add: digits_val_Cons power_add algebra_simps)

lemma fraction_digits_value:
  "0 \<le> f \<Longrightarrow> f < 1 \<Longrightarrow> is_integer (f * 10 ^ n) \<Longrightarrow>
     real (digits_val (fraction_digits n f)) / 10 ^ length (fraction_digits n f) = f"
proof (induction n arbitrary: f)
  case 0
  then have "f = 0" by (auto simp: is_integer_def floor_less_iff le_floor_iff)
  then show ?case by (simp add: digits_val_def)
next
  case (Suc n)
  let ?d = "\<lfloor>10 * f\<rfloor>" and ?g = "10 * f - of_int \<lfloor>10 * f\<rfloor>"
  have d: "0 \<le> ?d" "?d < 10" using Suc.prems by (auto simp: floor_less_iff)
  have g: "0 \<le> ?g" "?g < 1" by linarith+
  have "is_integer (?g * 10 ^ n)"
    using is_integer_diff [OF Suc.prems(3) is_integer_10 [OF is_integer_of_int [of ?d], of n]]
    by (simp add: algebra_simps)
  note ih = Suc.IH [OF g this]
  show ?case
  proof (cases "f = 0")
    case False
    let ?w = "fraction_digits n ?g"
    have "real (digits_val (fraction_digits (Suc n) f)) / 10 ^ length (fraction_digits (Suc n) f)
        = (of_int ?d + real (digits_val ?w) / 10 ^ length ?w) / 10"
      using False d by (simp add: digits_val_Cons nat_less_iff add_divide_distrib)
    then show ?thesis unfolding ih by simp
  qed simp
qed

lemma decimal_abs: "decimal x \<Longrightarrow> decimal \<bar>x\<bar>"
  unfolding decimal_def by (metis abs_mult abs_of_nonneg is_integerE is_integer_of_int of_int_abs zero_le_numeral zero_le_power)

lemma nat_str_hd: "hd (nat_str n) = CHR ''0'' \<Longrightarrow> tl (nat_str n) = []"
proof (induction n rule: nat_str.induct)
  case (1 n)
  show ?case
  proof (cases "n < 10")
    case False
    then have "hd (nat_str (n div 10)) = CHR ''0'' \<Longrightarrow> nat_str (n div 10) = ''0''"
      using 1 by (metis hd_Cons_tl nat_str_not_Nil)
    moreover have "n div 10 \<noteq> 0" using False by simp
    then have "nat_str (n div 10) \<noteq> ''0''"
      using digits_val_nat_str [of "n div 10"] by (auto simp: digits_val_def digit_val_def)
    ultimately show ?thesis using False 1 by (simp add: nat_str.simps [of n])
  qed (simp add: nat_str.simps)
qed

lemma unsigned_num_str:
  assumes "0 \<le> a" "decimal a"
  shows "json_unsigned (num_str a) = Some a"
proof -
  let ?i = "nat_str (nat \<lfloor>a\<rfloor>)" and ?f = "a - of_int \<lfloor>a\<rfloor>"
  let ?w = "fraction_digits 17 ?f"
  have f: "0 \<le> ?f" "?f < 1" by linarith+
  have int: "is_integer (?f * 10 ^ 17)"
    using is_integer_diff [OF assms(2) [unfolded decimal_def] is_integer_10 [OF is_integer_of_int [of "\<lfloor>a\<rfloor>"], of 17]]
    by (simp add: left_diff_distrib)
  have dig: "list_all is_digit ?i" "list_all is_digit ?w"
    using nat_str_digits fraction_digits_are_digits [OF f] by auto
  have dot: "\<not> is_digit CHR ''.''" by (simp add: is_digit_def)
  have s: "num_str a = ?i @ (if ?f = 0 then [] else CHR ''.'' # ?w)" using assms(1) by (simp add: num_str_def Let_def)
  have tw: "takeWhile is_digit (?i @ CHR ''.'' # ?w) = ?i" "dropWhile is_digit (?i @ CHR ''.'' # ?w) = CHR ''.'' # ?w"
    using dig dot by (simp_all add: takeWhile_append dropWhile_append list_all_iff)
  have i: "real (nat \<lfloor>a\<rfloor>) = of_int \<lfloor>a\<rfloor>" using assms(1) by simp
  show ?thesis
  proof (cases "?f = 0")
    case True
    with dig i show ?thesis
      by (auto simp: json_unsigned_def s Let_def unsigned_decimal_digits dest!: nat_str_hd)
  next
    case False
    then have "?w \<noteq> []" by (simp add: numeral_eq_Suc)
    moreover have "real (digits_val (?i @ ?w)) / 10 ^ length ?w = a"
      using fraction_digits_value [OF f int] i by (simp add: digits_val_append add_divide_distrib)
    ultimately show ?thesis
      using False tw dig nat_str_hd [of "nat \<lfloor>a\<rfloor>"] by (auto simp: json_unsigned_def s Let_def unsigned_decimal_def)
  qed
qed

lemma digits_number: "list_all is_digit s \<Longrightarrow> list_all number_char s"
  by (auto simp: number_char_def list_all_iff)

lemma num_str_chars: "list_all number_char (num_str x)"
proof -
  let ?f = "\<bar>x\<bar> - of_int \<lfloor>\<bar>x\<bar>\<rfloor>"
  have "0 \<le> ?f" "?f < 1" by linarith+
  from digits_number [OF fraction_digits_are_digits [OF this, of 17]] digits_number [OF nat_str_digits]
  show ?thesis unfolding num_str_def Let_def by (simp add: number_char_def del: fraction_digits.simps)
qed

lemma value_end_takeWhile:
  assumes "list_all number_char s" "value_end r"
  shows "takeWhile number_char (s @ r) = s" "dropWhile number_char (s @ r) = r"
proof -
  have "\<not> number_char (hd r)" if "r \<noteq> []"
    using assms(2) that by (auto simp: value_end_def number_char_def is_digit_def)
  then have "takeWhile number_char r = []" "dropWhile number_char r = r"
    by (cases r; simp)+
  with assms(1) show "takeWhile number_char (s @ r) = s" "dropWhile number_char (s @ r) = r"
    by (simp_all add: takeWhile_append dropWhile_append list_all_iff)
qed

lemma num_str_head: "\<exists>c t. num_str x = c # t \<and> (is_digit c \<or> c = CHR ''-'')"
proof -
  obtain c t where "nat_str (nat \<lfloor>\<bar>x\<bar>\<rfloor>) = c # t" by (metis list.exhaust nat_str_not_Nil)
  moreover then have "is_digit c" using nat_str_digits [of "nat \<lfloor>\<bar>x\<bar>\<rfloor>"] by simp
  ultimately show ?thesis by (auto simp: num_str_def Let_def)
qed

lemma num_str_neg: "x < 0 \<Longrightarrow> num_str x = CHR ''-'' # num_str (- x)" "0 \<le> x \<Longrightarrow> take 1 (num_str x) \<noteq> ''-''"
proof -
  show "x < 0 \<Longrightarrow> num_str x = CHR ''-'' # num_str (- x)" by (simp add: num_str_def Let_def)
  assume "0 \<le> x"
  obtain c t where "nat_str (nat \<lfloor>\<bar>x\<bar>\<rfloor>) = c # t" by (metis list.exhaust nat_str_not_Nil)
  moreover then have "is_digit c" using nat_str_digits [of "nat \<lfloor>\<bar>x\<bar>\<rfloor>"] by simp
  ultimately show "take 1 (num_str x) \<noteq> ''-''" using \<open>0 \<le> x\<close> by (auto simp: num_str_def Let_def is_digit_def)
qed

lemma json_number_num_str:
  assumes "decimal x" "value_end r"
  shows "json_number (num_str x @ r) = Some (jreal x, r)"
proof -
  have tw: "takeWhile number_char (num_str x @ r) = num_str x" "dropWhile number_char (num_str x @ r) = r"
    using value_end_takeWhile [OF num_str_chars assms(2)] by auto
  show ?thesis
  proof (cases "x < 0")
    case True
    have "decimal (- x)" using decimal_abs [OF assms(1)] True by simp
    moreover have "number_char CHR ''-''" by (simp add: number_char_def)
    ultimately show ?thesis using unsigned_num_str [of "- x"] True tw
      unfolding json_number_def Let_def num_str_neg(1) [OF True] by simp
  next
    case False
    then show ?thesis using unsigned_num_str [of x] num_str_neg(2) [of x] assms(1)
      unfolding json_number_def Let_def tw by simp
  qed
qed

lemma low_hex_val [simp]: "d < 16 \<Longrightarrow> hex_val (low_hex d) = Some d"
  by (simp add: hex_val_def low_hex_def Let_def)

lemma json_chars_step:
  "json_chars (Suc n) (CHR ''\"'' # t) = Some ([], t)"
  "c \<noteq> CHR ''\"'' \<Longrightarrow> c \<noteq> CHR 92 \<Longrightarrow> 32 \<le> (of_char c :: nat) \<Longrightarrow>
     json_chars (Suc n) (c # t) = map_option (\<lambda>(w, r). (c # w, r)) (json_chars n t)"
  "e \<noteq> CHR ''u'' \<Longrightarrow> simple_escape e = Some d \<Longrightarrow>
     json_chars (Suc n) (CHR 92 # e # t) = map_option (\<lambda>(w, r). (d # w, r)) (json_chars n t)"
  "unicode_escape t = Some (w', t') \<Longrightarrow>
     json_chars (Suc n) (CHR 92 # CHR ''u'' # t) = map_option (\<lambda>(w, r). (w' @ w, r)) (json_chars n t')"
  by simp_all

declare json_chars.simps(2) [simp del]

lemma escape_control:
  "json_chars (Suc n) (escape_char c @ t) = map_option (\<lambda>(w, r). (c # w, r)) (json_chars n t)"
  if "c \<in> {CHR 34, CHR 92, CHR 8, CHR 9, CHR 10, CHR 12, CHR 13}" for c
  using that
  by (elim insertE emptyE; hypsubst) (simp add: escape_char_def simple_escape_def json_chars_step(3))+

lemma json_chars_escape:
  "json_chars (Suc n) (escape_char c @ t) = map_option (\<lambda>(w, r). (c # w, r)) (json_chars n t)"
proof (cases "c \<in> {CHR 34, CHR 92, CHR 8, CHR 9, CHR 10, CHR 12, CHR 13}")
  case False
  let ?k = "of_char c :: nat"
  have "\<forall>d \<in> {CHR 34, CHR 92, CHR 8, CHR 9, CHR 10, CHR 12, CHR 13}. ?k \<noteq> of_char d"
    using False by (simp only: of_char_eq_iff) blast
  then have k: "?k \<noteq> 34" "?k \<noteq> 92" "?k \<noteq> 8" "?k \<noteq> 9" "?k \<noteq> 10" "?k \<noteq> 12" "?k \<noteq> 13"
    by (simp_all del: of_char_eq_iff)
  show ?thesis
  proof (cases "?k < 32")
    case True
    have "?k div 16 < 16" "?k mod 16 < 16" using True by simp_all
    moreover have "16 * (?k div 16) + ?k mod 16 = ?k" by simp
    moreover have "hex_val CHR ''0'' = Some 0" by (simp add: hex_val_def)
    ultimately have h: "hex4 (CHR ''0'' # CHR ''0'' # low_hex (?k div 16) # low_hex (?k mod 16) # t) = Some (?k, t)"
      by (simp add: hex4_def)
    have u: "unicode_escape (CHR ''0'' # CHR ''0'' # low_hex (?k div 16) # low_hex (?k mod 16) # t) = Some ([c], t)"
      unfolding unicode_escape_def h using True by (simp add: utf8_def)
    have "escape_char c = [CHR 92, CHR ''u'', CHR ''0'', CHR ''0'', low_hex (?k div 16), low_hex (?k mod 16)]"
      using True k by (simp add: escape_char_def Let_def)
    then show ?thesis using json_chars_step(4) [OF u] by (simp)
  next
    case ge: False
    then have "escape_char c = [c]" using k by (simp add: escape_char_def Let_def)
    with False ge show ?thesis by (simp add: json_chars_step(2))
  qed
qed (rule escape_control)

lemma json_chars_quote:
  "length s < n \<Longrightarrow> json_chars n (concat (map escape_char s) @ CHR ''\"'' # r) = Some (s, r)"
proof (induction s arbitrary: n)
  case (Cons c s)
  then obtain k where "n = Suc k" "length s < k" by (cases n) auto
  with Cons.IH [of k] show ?case by (simp add: json_chars_escape)
next
  case Nil
  then show ?case by (cases n) (simp_all add: json_chars_step)
qed

lemma length_quoted: "length s \<le> length (concat (map escape_char s))"
proof (induction s)
  case (Cons c s)
  have "1 \<le> length (escape_char c)" by (simp add: escape_char_def Let_def)
  with Cons show ?case by simp
qed simp

text \<open>The texts of values start with no white space, so the parser's skipping is the identity on them.\<close>

lemma digit_head: "is_digit c \<or> c = CHR ''-'' \<Longrightarrow> \<not> json_ws c \<and> c \<notin> set ''],}''"
  by (auto simp: is_digit_def json_ws_def)

lemma json_text_head:
  assumes "json_ok v"
  obtains c t where "json_text v = c # t" "\<not> json_ws c" "c \<notin> set ''],}''"
proof (cases v)
  case (JNum n)
  with assms obtain x where "n = Fin x" by (cases n) auto
  with JNum num_str_head [of x] digit_head that show ?thesis by (metis json_text.simps(2))
next
  case (JBool b)
  with that show ?thesis by (cases b) (auto simp: json_ws_def)
qed (use assms that in \<open>auto simp: json_ws_def json_quote_def\<close>)

lemma skip_ws_head [simp]: "\<not> json_ws c \<Longrightarrow> skip_ws (c # t) = c # t" "skip_ws [] = []"
  by (simp_all add: skip_ws_def)

lemma json_ws_marks [simp]: "\<not> json_ws CHR '',''" "\<not> json_ws CHR '']''" "\<not> json_ws CHR ''}''" "\<not> json_ws CHR '':''"
  "\<not> json_ws CHR ''\"''" "\<not> json_ws CHR ''{''" "\<not> json_ws CHR ''[''"
  by (simp_all add: json_ws_def)

definition parses :: "jsval \<Rightarrow> bool" where
  "parses v \<longleftrightarrow> (\<forall>n r. length (json_text v) \<le> n \<longrightarrow> value_end r \<longrightarrow> json_value n (json_text v @ r) = Some (v, r))"

lemma parsesD: "parses v \<Longrightarrow> length (json_text v) \<le> n \<Longrightarrow> value_end r \<Longrightarrow> json_value n (json_text v @ r) = Some (v, r)"
  by (simp add: parses_def)

lemma json_items_text:
  "vs \<noteq> [] \<Longrightarrow> \<forall>v \<in> set vs. json_ok v \<and> parses v \<Longrightarrow> length (join_with '','' (map json_text vs)) < n \<Longrightarrow>
     json_items n (join_with '','' (map json_text vs) @ CHR '']'' # r) = Some (vs, r)"
proof (induction vs arbitrary: n)
  case (Cons v vs)
  then obtain k where n: "n = Suc k" by (cases n) auto
  show ?case
  proof (cases vs)
    case Nil
    with Cons.prems n show ?thesis by (simp add: parsesD)
  next
    case (Cons w ws)
    let ?rest = "join_with '','' (map json_text vs)"
    have t: "join_with '','' (map json_text (v # vs)) = json_text v @ CHR '','' # ?rest"
      using Cons by simp
    have "json_items k (?rest @ CHR '']'' # r) = Some (vs, r)"
      using Cons.prems n t Cons by (intro Cons.IH) auto
    then show ?thesis using Cons.prems n unfolding t by (simp add: parsesD)
  qed
qed simp

lemma json_key: "length k < n \<Longrightarrow> json_chars n (tl (json_quote k) @ r) = Some (k, r)"
  using json_chars_quote [of k n r] by (simp add: json_quote_def)

lemma json_members_text:
  "kvs \<noteq> [] \<Longrightarrow> \<forall>kv \<in> set kvs. json_ok (snd kv) \<and> parses (snd kv) \<Longrightarrow> distinct (map fst (acc @ kvs)) \<Longrightarrow>
   length (join_with '','' (map (\<lambda>kv. json_quote (fst kv) @ '':'' @ json_text (snd kv)) kvs)) < n \<Longrightarrow>
     json_members n acc (join_with '','' (map (\<lambda>kv. json_quote (fst kv) @ '':'' @ json_text (snd kv)) kvs) @ CHR ''}'' # r)
       = Some (acc @ kvs, r)"
proof (induction kvs arbitrary: n acc)
  case (Cons kv kvs)
  let ?f = "\<lambda>kv. json_quote (fst kv) @ '':'' @ json_text (snd kv)"
  obtain m where n: "n = Suc m" using Cons.prems by (cases n) auto
  obtain k v where kv: "kv = (k, v)" by (cases kv)
  have new: "AList.update k v acc = acc @ [(k, v)]"
    using Cons.prems(3) kv by (intro AList_update_new) auto
  have ok: "json_ok v" "parses v" using Cons.prems(2) kv by auto
  define q where "q = concat (map escape_char k) @ ''\"''"
  have q: "json_quote k = CHR ''\"'' # q" by (simp add: json_quote_def q_def)
  have chars: "json_chars (length (q @ u) + 1) (q @ u) = Some (k, u)" for u
    using json_key [of k _ u] length_quoted [of k] by (simp add: q q_def)
  define tail where "tail = (if kvs = [] then CHR ''}'' # r
    else CHR '','' # join_with '','' (map ?f kvs) @ CHR ''}'' # r)"
  have whole: "join_with '','' (map ?f (kv # kvs)) @ CHR ''}'' # r = CHR ''\"'' # q @ CHR '':'' # json_text v @ tail"
    using kv q by (cases kvs) (simp_all add: tail_def)
  have len: "length (json_text v) \<le> m" using Cons.prems(4) kv n by (cases kvs) simp_all
  have "value_end tail" by (simp add: tail_def)
  with ok len have v: "json_value m (json_text v @ tail) = Some (v, tail)" by (intro parsesD)
  have step: "json_members n acc (CHR ''\"'' # q @ CHR '':'' # json_text v @ tail)
      = (case skip_ws tail of [] \<Rightarrow> None
         | c # t \<Rightarrow> if c = CHR ''}'' then Some (acc @ [(k, v)], t)
             else if c = CHR '','' then json_members m (acc @ [(k, v)]) t else None)"
    using chars [of "CHR '':'' # json_text v @ tail"] v new by (simp add: n split: list.split)
  show ?case
  proof (cases "kvs = []")
    case True
    with step whole kv show ?thesis by (simp add: tail_def)
  next
    case False
    then have "json_members m (acc @ [(k, v)]) (join_with '','' (map ?f kvs) @ CHR ''}'' # r) = Some ((acc @ [(k, v)]) @ kvs, r)"
      using Cons.prems n kv by (intro Cons.IH) (cases kvs; auto)+
    with False step whole kv show ?thesis by (simp add: tail_def)
  qed
qed simp

lemma filter_defined: "\<forall>kv \<in> set kvs. json_ok (snd kv) \<Longrightarrow> filter (\<lambda>kv. snd kv \<noteq> JUndef) kvs = kvs"
  by (induction kvs) auto

theorem json_text_parses: "json_ok v \<Longrightarrow> parses v"
proof (induction v)
  case (JNum x)
  then obtain y where y: "x = Fin y" "decimal y" by (cases x) auto
  obtain c t where ct: "num_str y = c # t" "is_digit c \<or> c = CHR ''-''" using num_str_head by blast
  show ?case unfolding parses_def
  proof (intro allI impI)
    fix n r
    assume "length (json_text (JNum x)) \<le> n" and r: "value_end r"
    then obtain m where n: "n = Suc m" using y ct by (cases n) auto
    have c: "\<not> json_ws c" "c \<notin> set ''{[tfn''" "c \<noteq> CHR ''\"''"
      using ct(2) by (auto simp: is_digit_def json_ws_def)
    have "json_value n (num_str y @ r) = json_number (num_str y @ r)"
      using c unfolding n ct by (simp add: strip_prefix_def)
    with y r show "json_value n (json_text (JNum x) @ r) = Some (JNum x, r)"
      by (simp add: json_number_num_str)
  qed
next
  case (JStr s)
  show ?case unfolding parses_def
  proof (intro allI impI)
    fix n r
    assume "length (json_text (JStr s)) \<le> n"
    then obtain m where n: "n = Suc m" by (cases n) (auto simp: json_quote_def)
    have "json_chars (length (json_quote s @ r)) (tl (json_quote s) @ r) = Some (s, r)"
      using length_quoted [of s] by (intro json_key) (simp add: json_quote_def)
    then show "json_value n (json_text (JStr s) @ r) = Some (JStr s, r)"
      by (simp add: n json_quote_def)
  qed
next
  case (JArr vs)
  show ?case unfolding parses_def
  proof (intro allI impI)
    fix n r
    assume len: "length (json_text (JArr vs)) \<le> n"
    then obtain m where n: "n = Suc m" by (cases n) auto
    show "json_value n (json_text (JArr vs) @ r) = Some (JArr vs, r)"
    proof (cases vs)
      case (Cons v ws)
      then obtain c t where c: "json_text v = c # t" "\<not> json_ws c" "c \<notin> set ''],}''"
        using JArr.prems by (auto elim: json_text_head [of v])
      define body where "body = join_with '','' (map json_text vs)"
      have "\<exists>u. body = c # u" using c Cons by (cases ws) (auto simp: body_def)
      moreover have "json_items m (body @ CHR '']'' # r) = Some (vs, r)"
        unfolding body_def using JArr Cons len n by (intro json_items_text) auto
      moreover have "json_text (JArr vs) @ r = CHR ''['' # body @ CHR '']'' # r" by (simp add: body_def)
      ultimately show ?thesis using c n by (auto simp del: json_text.simps)
    qed (simp add: n)
  qed
next
  case (JObj kvs)
  show ?case unfolding parses_def
  proof (intro allI impI)
    fix n r
    assume len: "length (json_text (JObj kvs)) \<le> n"
    then obtain m where n: "n = Suc m" by (cases n) auto
    show "json_value n (json_text (JObj kvs) @ r) = Some (JObj kvs, r)"
    proof (cases kvs)
      case (Cons kv ws)
      define body where "body = join_with '','' (map (\<lambda>kv. json_quote (fst kv) @ '':'' @ json_text (snd kv)) kvs)"
      have f: "filter (\<lambda>kv. snd kv \<noteq> JUndef) kvs = kvs" using JObj.prems by (intro filter_defined) simp
      have "\<exists>u. body = CHR ''\"'' # u" using Cons by (cases ws) (auto simp: body_def json_quote_def)
      moreover have "\<forall>kv \<in> set kvs. json_ok (snd kv) \<and> parses (snd kv)" using JObj by (auto simp: snds.simps)
      then have "json_members m [] (body @ CHR ''}'' # r) = Some ([] @ kvs, r)"
        unfolding body_def using JObj.prems Cons len n f by (intro json_members_text) auto
      moreover have "json_text (JObj kvs) @ r = CHR ''{'' # body @ CHR ''}'' # r" using f by (simp add: body_def)
      ultimately show ?thesis using n by (auto simp del: json_text.simps)
    qed (simp add: n)
  qed
next
  case (JBool b)
  have "json_value (Suc m) (json_text (JBool b) @ r) = Some (JBool b, r)" for m r
    by (simp add: strip_prefix_def json_ws_def)
  then show ?case unfolding parses_def by (auto dest!: Suc_le_D)
next
  case JNull
  have "json_value (Suc m) (json_text JNull @ r) = Some (JNull, r)" for m r
    by (simp add: strip_prefix_def json_ws_def)
  then show ?case unfolding parses_def by (auto dest!: Suc_le_D)
qed simp

corollary json_round_trip: "json_ok v \<Longrightarrow> json_parse (json_text v) = Some v"
  using parsesD [OF json_text_parses, of v "Suc (length (json_text v))" "[]"] by (simp add: json_parse_def)

end
