(* ===== verification/Layers_Menu.thy ===== *)
theory Layers_Menu
  imports Json Storage
begin

text \<open>
  The layers menu over the map: the basemap's style (\<open>web/src/lib/mapstyle.js\<close>), the remembered
  boxes and the menu built from the mounted style (\<open>maplayers.js\<close>), and the view toggles of
  \<open>chrome.js\<close>. The state of the menu is its boxes in document order, the remembered choices and
  the storage; the map is its list of style layers and which of them are drawn. The remembered
  choices are a preference kept through the storage interface: \<open>layer_choices\<close> interprets it.
\<close>

section \<open>The map's style (mapstyle.js)\<close>

record style_layer =
  ly_id :: string
  ly_type :: string
  ly_source :: string
  ly_group :: "string option"

record basemap =
  bm_layers :: "style_layer list"
  bm_visible :: "string \<Rightarrow> bool"
  bm_legend :: bool
  bm_cell_values :: bool

text \<open>Setting a layout property of a layer the style does not have changes nothing.\<close>

definition set_visible :: "string \<Rightarrow> bool \<Rightarrow> basemap \<Rightarrow> basemap" where
  "set_visible i on bm = (if i \<in> ly_id ` set (bm_layers bm) then bm\<lparr>bm_visible := (bm_visible bm)(i := on)\<rparr> else bm)"

definition overlayLayers :: "style_layer list \<Rightarrow> style_layer list" where
  "overlayLayers style = filter (\<lambda>l. ly_type l \<noteq> ''background'' \<and> ly_type l \<noteq> ''fill'') style"

text \<open>The traced layers are laid under the layer \<open>beforeId\<close>, or on top when it is missing.\<close>

fun insert_before :: "string \<Rightarrow> style_layer list \<Rightarrow> style_layer list \<Rightarrow> style_layer list" where
  "insert_before i new [] = new"
| "insert_before i new (l # ls) = (if ly_id l = i then new @ l # ls else l # insert_before i new ls)"

definition addBasemapOverlay :: "string \<Rightarrow> style_layer list option \<Rightarrow> basemap \<Rightarrow> basemap" where
  "addBasemapOverlay beforeId answer bm = (case answer of None \<Rightarrow> bm
     | Some style \<Rightarrow> (let new = overlayLayers style
         in bm\<lparr>bm_layers := insert_before beforeId new (bm_layers bm),
               bm_visible := (\<lambda>i. i \<in> ly_id ` set new \<or> bm_visible bm i)\<rparr>))"

definition RASTER_LAYER_ID :: string where
  "RASTER_LAYER_ID = ''airbg-raster-base''"

text \<open>The style the map boots with.\<close>

definition mapStyle :: "style_layer list" where
  "mapStyle = [\<lparr>ly_id = ''bg'', ly_type = ''background'', ly_source = [], ly_group = None\<rparr>,
     \<lparr>ly_id = RASTER_LAYER_ID, ly_type = ''raster'', ly_source = ''airbg-raster'', ly_group = None\<rparr>]"

section \<open>The menu (maplayers.js)\<close>

definition STORAGE_KEY :: string where
  "STORAGE_KEY = ''kanarche:map-layers''"

definition LAYER_ORDER :: "string list" where
  "LAYER_ORDER = [''base'', ''water'', ''roads'', ''street-names'', ''buildings'', ''places'', ''boundaries'',
     ''poi-education'', ''poi-health'', ''poi-shop'', ''poi-transport'', ''poi-other'']"

type_synonym choices = "(string \<times> jsval) list"

text \<open>Only a plain object is a state; any other text, and a storage that throws, is the empty one.\<close>

fun state_of :: "js_error + string option \<Rightarrow> choices" where
  "state_of (Inl e) = []"
| "state_of (Inr None) = []"
| "state_of (Inr (Some raw)) = (case json_parse raw of Some (JObj kvs) \<Rightarrow> kvs | _ \<Rightarrow> [])"

definition readState :: "storage option \<Rightarrow> choices" where
  "readState st = state_of (try_get st STORAGE_KEY)"

definition writeState :: "choices \<Rightarrow> storage option \<Rightarrow> storage option" where
  "writeState saved st = try_set st STORAGE_KEY (json_text (JObj saved))"

definition groupsIn :: "style_layer list \<Rightarrow> string list" where
  "groupsIn layers = filter (\<lambda>g. list_ex (\<lambda>l. ly_group l = Some g) layers) LAYER_ORDER"

definition setGroup :: "string \<Rightarrow> bool \<Rightarrow> basemap \<Rightarrow> basemap" where
  "setGroup grp on bm = fold (\<lambda>l m. if ly_group l = Some grp then set_visible (ly_id l) on m else m) (bm_layers bm) bm"

text \<open>
  A view toggle: its apply acts on the map and may report, at once, the state it reached; what a
  fetched overlay reports later is a \<open>settle\<close> of its own.
\<close>

record layer_view =
  vw_id :: string
  vw_needs_map :: bool
  vw_default_off :: bool
  vw_initial :: "bool option"
  vw_apply :: "bool \<Rightarrow> basemap \<Rightarrow> basemap \<times> bool option"

record layers_menu =
  mn_boxes :: "(string \<times> bool) list"
  mn_saved :: choices
  mn_storage :: "storage option"
  mn_hidden :: bool

definition box_checked :: "choices \<Rightarrow> string \<Rightarrow> bool \<Rightarrow> bool option \<Rightarrow> bool" where
  "box_checked saved key defaultOff initial = (case initial of Some b \<Rightarrow> b
     | None \<Rightarrow> if defaultOff then map_of saved key = Some (JBool True) else map_of saved key \<noteq> Some (JBool False))"

definition view_key :: "layer_view \<Rightarrow> string" where
  "view_key v = ''view:'' @ vw_id v"

definition remember :: "string \<Rightarrow> bool \<Rightarrow> layers_menu \<Rightarrow> layers_menu" where
  "remember key on m = (let saved = AList.update key (JBool on) (mn_saved m)
     in m\<lparr>mn_saved := saved, mn_storage := writeState saved (mn_storage m)\<rparr>)"

definition settle :: "string \<Rightarrow> bool \<Rightarrow> bool option \<Rightarrow> layers_menu \<Rightarrow> layers_menu" where
  "settle key asked reached m = (case reached of None \<Rightarrow> m
     | Some r \<Rightarrow> if r = asked then m else remember key r (m\<lparr>mn_boxes := AList.update key r (mn_boxes m)\<rparr>))"

text \<open>The boxes: the views the map can carry first, then its categories.\<close>

definition offered_views :: "layer_view list \<Rightarrow> basemap \<Rightarrow> layer_view list" where
  "offered_views views bm = filter (\<lambda>v. \<not> (vw_needs_map v \<and> bm_layers bm = [])) views"

definition view_box :: "choices \<Rightarrow> layer_view \<Rightarrow> string \<times> bool" where
  "view_box saved v = (view_key v, box_checked saved (view_key v) (vw_default_off v) (vw_initial v))"

definition group_box :: "choices \<Rightarrow> string \<Rightarrow> string \<times> bool" where
  "group_box saved g = (g, box_checked saved g False None)"

text \<open>Built views first, applied categories first.\<close>

definition installLayers :: "layer_view list \<Rightarrow> storage option \<Rightarrow> basemap \<Rightarrow> layers_menu \<times> basemap" where
  "installLayers views st bm =
     (let saved = readState st;
          groups = map (group_box saved) (groupsIn (bm_layers bm));
          offered = offered_views views bm;
          boxes = map (view_box saved) offered @ groups;
          bm1 = fold (\<lambda>(g, on). setGroup g on) groups bm;
          bm2 = fold (\<lambda>v m. fst (vw_apply v (snd (view_box saved v)) m)) offered bm1
      in (\<lparr>mn_boxes = boxes, mn_saved = saved, mn_storage = st, mn_hidden = (boxes = [])\<rparr>, bm2))"

text \<open>The change of a box: the browser has flipped it, the choice is remembered, then applied.\<close>

definition change_box :: "string \<Rightarrow> bool \<Rightarrow> (bool \<Rightarrow> basemap \<Rightarrow> basemap \<times> bool option) \<Rightarrow> layers_menu \<times> basemap \<Rightarrow> layers_menu \<times> basemap" where
  "change_box key asked app st = (case st of (m, bm) \<Rightarrow>
     let m1 = remember key asked (m\<lparr>mn_boxes := AList.update key asked (mn_boxes m)\<rparr>)
     in case app asked bm of (bm1, reached) \<Rightarrow> (settle key asked reached m1, bm1))"

section \<open>The views of the chrome (chrome.js)\<close>

definition show_basemap :: "bool \<Rightarrow> basemap \<Rightarrow> basemap" where
  "show_basemap on bm = fold (\<lambda>l m. if ly_group l \<noteq> None then set_visible (ly_id l) on m else m) (bm_layers bm)
     (set_visible RASTER_LAYER_ID on bm)"

definition legend_view :: layer_view where
  "legend_view = \<lparr>vw_id = ''legend'', vw_needs_map = False, vw_default_off = False, vw_initial = None,
     vw_apply = (\<lambda>on bm. (bm\<lparr>bm_legend := on\<rparr>, None))\<rparr>"

definition cell_values_view :: layer_view where
  "cell_values_view = \<lparr>vw_id = ''cellValues'', vw_needs_map = False, vw_default_off = False, vw_initial = None,
     vw_apply = (\<lambda>on bm. (bm\<lparr>bm_cell_values := on\<rparr>, None))\<rparr>"

definition basemap_view :: layer_view where
  "basemap_view = \<lparr>vw_id = ''basemap'', vw_needs_map = True, vw_default_off = False, vw_initial = None,
     vw_apply = (\<lambda>on bm. (show_basemap on bm, None))\<rparr>"

definition layerViews :: "layer_view list" where
  "layerViews = [legend_view, cell_values_view, basemap_view]"

section \<open>The menu of a loaded page (mapload.js)\<close>

text \<open>
  The load handler asks for the vector style and, without waiting for it, adds the page's own layers and
  builds the menu from the style the map has then: the boot style under the page's layers. What
  follows is a sequence of events: the reader ticks a box, a view whose overlay is fetched reports
  what it reached (the three views of the chrome report nothing), and the answer of the vector
  style lays the detail under the grid.
\<close>

definition GRID_LAYER :: string where
  "GRID_LAYER = ''airbg-hex-fill''"

definition loaded_menu :: "layer_view list \<Rightarrow> storage option \<Rightarrow> style_layer list \<Rightarrow> (string \<Rightarrow> bool) \<Rightarrow> layers_menu \<times> basemap" where
  "loaded_menu extra st own vis = installLayers (layerViews @ extra) st
     \<lparr>bm_layers = mapStyle @ own, bm_visible = vis, bm_legend = True, bm_cell_values = True\<rparr>"

datatype menu_event =
    Ticked string bool
  | Reported string bool bool
  | Detail_Answers "style_layer list option"

fun layers_step :: "layer_view list \<Rightarrow> menu_event \<Rightarrow> layers_menu \<times> basemap \<Rightarrow> layers_menu \<times> basemap" where
  "layers_step extra (Ticked i asked) st = (case find (\<lambda>v. vw_id v = i) (layerViews @ extra) of
     None \<Rightarrow> st | Some v \<Rightarrow> change_box (view_key v) asked (vw_apply v) st)"
| "layers_step extra (Reported i asked reached) (m, bm) =
     (if i \<in> vw_id ` set extra then settle (''view:'' @ i) asked (Some reached) m else m, bm)"
| "layers_step extra (Detail_Answers answer) (m, bm) = (m, addBasemapOverlay GRID_LAYER answer bm)"

section \<open>Lemmas\<close>

lemma set_visible_simps [simp]:
  "bm_layers (set_visible i on bm) = bm_layers bm"
  "bm_visible (set_visible i on bm) j = (if j = i \<and> i \<in> ly_id ` set (bm_layers bm) then on else bm_visible bm j)"
  by (simp_all add: set_visible_def)

lemma fold_visible:
  "bm_layers (fold (\<lambda>l m. if P l then set_visible (ly_id l) on m else m) ls bm) = bm_layers bm
   \<and> bm_visible (fold (\<lambda>l m. if P l then set_visible (ly_id l) on m else m) ls bm) j
     = (if (\<exists>l \<in> set ls. P l \<and> ly_id l = j) \<and> j \<in> ly_id ` set (bm_layers bm) then on else bm_visible bm j)"
  by (induction ls arbitrary: bm) auto

lemma setGroup_layers [simp]: "bm_layers (setGroup g on bm) = bm_layers bm"
  by (simp add: setGroup_def fold_visible)

lemma setGroups_layers [simp]: "bm_layers (fold (\<lambda>(g, on). setGroup g on) gs bm) = bm_layers bm"
  by (induction gs arbitrary: bm) auto

lemma show_basemap_simps [simp]:
  "bm_layers (show_basemap on bm) = bm_layers bm"
  "l \<in> set (bm_layers bm) \<Longrightarrow> ly_group l = Some g \<Longrightarrow> bm_visible (show_basemap on bm) (ly_id l) = on"
  by (auto simp: show_basemap_def fold_visible)

definition of_basemap :: "style_layer \<Rightarrow> bool" where
  "of_basemap l \<longleftrightarrow> ly_group l \<noteq> None \<or> ly_id l = RASTER_LAYER_ID"

text \<open>What is asked of the other views of the menu (the sources, the inactive and faulty stations, the wind and
  the outlines): they have a name of their own and act on layers of their own.\<close>

definition leaves_basemap :: "layer_view \<Rightarrow> bool" where
  "leaves_basemap v \<longleftrightarrow> vw_id v \<notin> vw_id ` set layerViews
     \<and> (\<forall>on m. bm_layers (fst (vw_apply v on m)) = bm_layers m
        \<and> (\<forall>l \<in> set (bm_layers m). of_basemap l \<longrightarrow> bm_visible (fst (vw_apply v on m)) (ly_id l) = bm_visible m (ly_id l)))"

lemma leaves_basemapD:
  "leaves_basemap v \<Longrightarrow> bm_layers (fst (vw_apply v on m)) = bm_layers m"
  "leaves_basemap v \<Longrightarrow> l \<in> set (bm_layers m) \<Longrightarrow> of_basemap l \<Longrightarrow>
     bm_visible (fst (vw_apply v on m)) (ly_id l) = bm_visible m (ly_id l)"
  "leaves_basemap v \<Longrightarrow> vw_id v \<noteq> ''basemap''"
  by (auto simp: leaves_basemap_def layerViews_def basemap_view_def)

lemma fold_leaves:
  "\<forall>v \<in> set vs. leaves_basemap v \<Longrightarrow>
     bm_layers (fold (\<lambda>v m. fst (vw_apply v (f v) m)) vs bm) = bm_layers bm
   \<and> (l \<in> set (bm_layers bm) \<longrightarrow> of_basemap l \<longrightarrow>
       bm_visible (fold (\<lambda>v m. fst (vw_apply v (f v) m)) vs bm) (ly_id l) = bm_visible bm (ly_id l))"
  by (induction vs arbitrary: bm) (auto simp: leaves_basemapD)

lemma group_not_view: "g \<in> set LAYER_ORDER \<Longrightarrow> g \<noteq> view_key v"
  by (auto simp: LAYER_ORDER_def view_key_def)

lemma map_of_view_boxes: "g \<in> set LAYER_ORDER \<Longrightarrow> map_of (map (view_box saved) vs) g = None"
  by (auto simp: map_of_eq_None_iff view_box_def dest: group_not_view)

lemma map_of_group_boxes:
  "map_of (map (group_box saved) gs) g = (if g \<in> set gs then Some (box_checked saved g False None) else None)"
  by (induction gs) (auto simp: group_box_def)

lemma box_of_group:
  "g \<in> set LAYER_ORDER \<Longrightarrow> map_of (mn_boxes (fst (installLayers views st bm))) g
     = (if g \<in> set (groupsIn (bm_layers bm)) then Some (map_of (readState st) g \<noteq> Some (JBool False)) else None)"
  by (simp add: installLayers_def Let_def map_add_def map_of_view_boxes map_of_group_boxes box_checked_def)

lemma update_json_ok: "json_ok (JObj kvs) \<Longrightarrow> json_ok (JObj (AList.update k (JBool b) kvs))"
proof -
  assume ok: "json_ok (JObj kvs)"
  have "\<forall>kv \<in> set (AList.update k (JBool b) kvs). json_ok (snd kv)"
    using ok by (induction kvs) auto
  moreover have "distinct (map fst (AList.update k (JBool b) kvs))" using ok by (simp add: distinct_update)
  ultimately show ?thesis by simp
qed

definition spell_choices :: "choices \<Rightarrow> string" where
  "spell_choices kvs = json_text (JObj kvs)"

interpretation layer_choices: stored_preference getItem setItem removeItem storage_working app_key
    STORAGE_KEY spell_choices state_of "\<lambda>kvs. json_ok (JObj kvs)" "[]"
proof unfold_locales
  show "app_key STORAGE_KEY" by (simp add: STORAGE_KEY_def app_key_def starts_with_def KEY_PREFIX_def)
next
  fix kvs assume "json_ok (JObj kvs)"
  then show "state_of (Inr (Some (spell_choices kvs))) = kvs"
    using json_round_trip [of "JObj kvs"] by (simp add: spell_choices_def del: json_text.simps)
qed simp_all

lemma choices_written:
  assumes "storage_working s" "json_ok (JObj kvs)"
  shows "readState (writeState kvs (Some s)) = kvs"
  using layer_choices.write_then_read [OF assms] by (simp add: readState_def writeState_def spell_choices_def try_get_def try_set_def)

section \<open>Properties\<close>

text \<open>A choice is remembered and only that choice: on a working storage, after a box of the menu is
  changed and its overlay reports nothing else, the next visit ticks the box as it was left and
  every other box as it would have been, whether a box is on or off by default.\<close>

theorem layer_choice_remembered:
  assumes "storage_working s" "mn_storage m = Some s" "json_ok (JObj (mn_saved m))"
    "change_box key asked app (m, bm) = (m', bm')" "snd (app asked bm) = None \<or> snd (app asked bm) = Some asked"
  shows "box_checked (readState (mn_storage m')) key d None = asked
    \<and> (k \<noteq> key \<longrightarrow> box_checked (readState (mn_storage m')) k d i = box_checked (mn_saved m) k d i)
    \<and> map_of (mn_boxes m') key = Some asked"
proof -
  let ?saved = "AList.update key (JBool asked) (mn_saved m)"
  obtain bm1 r where app: "app asked bm = (bm1, r)" by (cases "app asked bm")
  have m': "m' = remember key asked (m\<lparr>mn_boxes := AList.update key asked (mn_boxes m)\<rparr>)"
    using assms(4,5) app by (auto simp: change_box_def settle_def Let_def split: option.splits)
  have "readState (mn_storage m') = ?saved"
    using choices_written [OF assms(1) update_json_ok [OF assms(3)]] by (simp add: m' remember_def Let_def assms(2))
  then show ?thesis by (auto simp: box_checked_def m' remember_def Let_def update_conv' split: option.splits)
qed

theorem layer_choice_remembered_witness:
  "box_checked (readState (mn_storage (fst (change_box ''roads'' False (\<lambda>on bm. (setGroup ''roads'' on bm, None))
     (\<lparr>mn_boxes = [(''roads'', True)], mn_saved = [], mn_storage = Some \<lparr>items = Map.empty, get_throws = False, set_throws = False,
        remove_throws = False\<rparr>, mn_hidden = False\<rparr>,
      \<lparr>bm_layers = mapStyle, bm_visible = (\<lambda>_. True), bm_legend = True, bm_cell_values = True\<rparr>))))) ''roads'' False None = False"
proof -
  let ?s = "\<lparr>items = Map.empty, get_throws = False, set_throws = False, remove_throws = False\<rparr>"
  let ?m = "\<lparr>mn_boxes = [(''roads'', True)], mn_saved = [], mn_storage = Some ?s, mn_hidden = False\<rparr>"
  let ?bm = "\<lparr>bm_layers = mapStyle, bm_visible = (\<lambda>_. True), bm_legend = True, bm_cell_values = True\<rparr>"
  let ?app = "\<lambda>on bm. (setGroup ''roads'' on bm, None)"
  obtain m' bm' where c: "change_box ''roads'' False ?app (?m, ?bm) = (m', bm')" by (metis prod.collapse)
  have "storage_working ?s" by (simp add: storage_working_def)
  from layer_choice_remembered [OF this _ _ c, of False "[]" None] c show ?thesis by simp
qed

text \<open>What the reader has said of the basemap: the stored choice, then the last tick of its box.\<close>

fun basemap_said :: "bool \<Rightarrow> menu_event list \<Rightarrow> bool" where
  "basemap_said b [] = b"
| "basemap_said b (Ticked i asked # es) = basemap_said (if i = ''basemap'' then asked else b) es"
| "basemap_said b (e # es) = basemap_said b es"

definition answers_detail :: "menu_event \<Rightarrow> bool" where
  "answers_detail e \<longleftrightarrow> (case e of Detail_Answers a \<Rightarrow> True | _ \<Rightarrow> False)"

definition ticks_basemap :: "menu_event \<Rightarrow> bool" where
  "ticks_basemap e \<longleftrightarrow> (case e of Ticked i asked \<Rightarrow> i = ''basemap'' | _ \<Rightarrow> False)"

lemma menu_event_kinds [simp]:
  "answers_detail (Detail_Answers a)" "\<not> answers_detail (Ticked i asked)" "\<not> answers_detail (Reported i asked r)"
  "ticks_basemap (Ticked i asked) = (i = ''basemap'')" "\<not> ticks_basemap (Detail_Answers a)" "\<not> ticks_basemap (Reported i asked r)"
  by (simp_all add: answers_detail_def ticks_basemap_def)

lemma basemap_said_untouched: "\<not> list_ex ticks_basemap es \<Longrightarrow> basemap_said b es = b"
  by (induction b es rule: basemap_said.induct) auto

text \<open>The menu without categories, its basemap box at \<open>box\<close>, and the detail drawn or not.\<close>

definition bare_menu :: "bool \<Rightarrow> bool \<Rightarrow> layers_menu \<times> basemap \<Rightarrow> bool" where
  "bare_menu box drawn st \<longleftrightarrow> (case st of (m, bm) \<Rightarrow>
     (\<forall>g \<in> set LAYER_ORDER. map_of (mn_boxes m) g = None)
     \<and> map_of (mn_boxes m) ''view:basemap'' = Some box
     \<and> RASTER_LAYER_ID \<in> ly_id ` set (bm_layers bm) \<and> bm_visible bm RASTER_LAYER_ID = box
     \<and> (\<forall>l \<in> set (bm_layers bm). ly_group l \<noteq> None \<longrightarrow> ly_id l \<noteq> RASTER_LAYER_ID \<and> bm_visible bm (ly_id l) = drawn))"

lemma find_chrome_view:
  "find (\<lambda>v. vw_id v = i) (layerViews @ extra) = (if i = ''legend'' then Some legend_view
     else if i = ''cellValues'' then Some cell_values_view else if i = ''basemap'' then Some basemap_view
     else find (\<lambda>v. vw_id v = i) extra)"
  by (auto simp: layerViews_def legend_view_def cell_values_view_def basemap_view_def)

lemma find_view:
  assumes "find (\<lambda>v. vw_id v = i) vs = Some v" shows "vw_id v = i" "v \<in> set vs"
  using assms by (auto simp: find_Some_iff)

lemma category_box_kept:
  "g \<in> set LAYER_ORDER \<Longrightarrow> map_of (AList.update (CHR ''v'' # k) b bs) g = map_of bs g"
  by (auto simp: update_conv' LAYER_ORDER_def)

lemma basemap_box_kept [simplified]:
  "i \<noteq> ''basemap'' \<Longrightarrow> map_of (AList.update (''view:'' @ i) b bs) ''view:basemap'' = map_of bs ''view:basemap''"
  by (auto simp: update_conv')

lemma settle_boxes: "mn_boxes (settle key asked r m) = (case r of Some v \<Rightarrow> if v = asked then mn_boxes m
     else AList.update key v (mn_boxes m) | None \<Rightarrow> mn_boxes m)"
  by (simp add: settle_def remember_def Let_def split: option.splits)

lemma change_box_facts:
  "mn_boxes (fst (change_box key asked app (m, bm))) = (let bs = AList.update key asked (mn_boxes m)
     in case snd (app asked bm) of Some v \<Rightarrow> if v = asked then bs else AList.update key v bs | None \<Rightarrow> bs)"
  "snd (change_box key asked app (m, bm)) = fst (app asked bm)"
  by (simp_all add: change_box_def Let_def settle_boxes remember_def split: prod.splits option.splits)

lemma show_basemap_raster:
  assumes "RASTER_LAYER_ID \<in> ly_id ` set (bm_layers bm)"
  shows "bm_visible (show_basemap on bm) RASTER_LAYER_ID = on"
  using assms by (simp add: show_basemap_def fold_visible)

lemma bare_tick_basemap:
  assumes "bare_menu box drawn st"
  shows "bare_menu on on (change_box (view_key basemap_view) on (vw_apply basemap_view) st)"
proof -
  obtain m bm where st: "st = (m, bm)" by (cases st)
  let ?st = "change_box (view_key basemap_view) on (vw_apply basemap_view) (m, bm)"
  have boxes: "mn_boxes (fst ?st) = AList.update ''view:basemap'' on (mn_boxes m)"
    and bm: "snd ?st = show_basemap on bm"
    by (simp_all add: change_box_facts basemap_view_def view_key_def)
  have none: "\<forall>g \<in> set LAYER_ORDER. map_of (mn_boxes m) g = None" using assms by (simp add: bare_menu_def st)
  have "\<forall>g \<in> set LAYER_ORDER. map_of (mn_boxes (fst ?st)) g = None"
    using none by (simp add: boxes category_box_kept)
  moreover have "map_of (mn_boxes (fst ?st)) ''view:basemap'' = Some on" by (simp add: boxes update_conv')
  ultimately show ?thesis
    using assms show_basemap_raster [of bm on] bm unfolding st bare_menu_def
    by (auto simp: case_prod_unfold)
qed

lemma bare_tick_other:
  assumes "bare_menu box drawn (m, bm)" "vw_id v \<noteq> ''basemap''" "bm_layers (fst (vw_apply v asked bm)) = bm_layers bm"
    "\<forall>l \<in> set (bm_layers bm). of_basemap l \<longrightarrow> bm_visible (fst (vw_apply v asked bm)) (ly_id l) = bm_visible bm (ly_id l)"
  shows "bare_menu box drawn (change_box (view_key v) asked (vw_apply v) (m, bm))"
proof -
  let ?st = "change_box (view_key v) asked (vw_apply v) (m, bm)"
  have "map_of (mn_boxes (fst ?st)) ''view:basemap'' = map_of (mn_boxes m) ''view:basemap''"
    and "\<forall>g \<in> set LAYER_ORDER. map_of (mn_boxes (fst ?st)) g = map_of (mn_boxes m) g"
    using assms(2)
    by (auto simp: basemap_box_kept change_box_facts Let_def view_key_def category_box_kept split: option.splits)
  moreover have "bm_layers (snd ?st) = bm_layers bm" using assms(3) by (simp add: change_box_facts)
  moreover have "\<forall>l \<in> set (bm_layers bm). of_basemap l \<longrightarrow> bm_visible (snd ?st) (ly_id l) = bm_visible bm (ly_id l)"
    using assms(4) by (simp add: change_box_facts)
  then have "RASTER_LAYER_ID \<in> ly_id ` set (bm_layers bm) \<longrightarrow> bm_visible (snd ?st) RASTER_LAYER_ID = bm_visible bm RASTER_LAYER_ID"
    and "\<forall>l \<in> set (bm_layers bm). ly_group l \<noteq> None \<longrightarrow> bm_visible (snd ?st) (ly_id l) = bm_visible bm (ly_id l)"
    by (auto simp: of_basemap_def)
  ultimately show ?thesis
    using assms(1) unfolding bare_menu_def case_prod_unfold by (simp del: bex_simps)
qed

lemma bare_tick:
  assumes "bare_menu box drawn st" "\<forall>v \<in> set extra. leaves_basemap v"
  shows "bare_menu (basemap_said box [Ticked i asked]) (if i = ''basemap'' then asked else drawn) (layers_step extra (Ticked i asked) st)"
proof (cases "i = ''basemap''")
  case True
  then show ?thesis using bare_tick_basemap [OF assms(1)] by (simp add: find_chrome_view)
next
  case False
  show ?thesis
  proof (cases "find (\<lambda>v. vw_id v = i) (layerViews @ extra)")
    case None
    then show ?thesis using assms(1) False by simp
  next
    case (Some v)
    obtain m bm where st: "st = (m, bm)" by (cases st)
    have "bm_layers (fst (vw_apply v asked bm)) = bm_layers bm \<and> (\<forall>l \<in> set (bm_layers bm). of_basemap l \<longrightarrow>
        bm_visible (fst (vw_apply v asked bm)) (ly_id l) = bm_visible bm (ly_id l))"
    proof (cases "v \<in> set extra")
      case True
      then show ?thesis using assms(2) by (simp add: leaves_basemapD)
    next
      case out: False
      then have "v = legend_view \<or> v = cell_values_view"
        using Some False find_view(2) [of i extra v] by (auto simp: find_chrome_view split: if_splits)
      then show ?thesis by (auto simp: legend_view_def cell_values_view_def)
    qed
    then show ?thesis
      using bare_tick_other [of box drawn m bm v asked] assms(1) False Some find_view(1) [OF Some] by (simp add: st)
  qed
qed

lemma bare_report:
  assumes "bare_menu box drawn (m, bm)" "\<forall>v \<in> set extra. leaves_basemap v"
  shows "bare_menu box drawn (layers_step extra (Reported i asked r) (m, bm))"
proof -
  have "i \<in> vw_id ` set extra \<Longrightarrow> i \<noteq> ''basemap''" using assms(2) by (auto dest: leaves_basemapD)
  then show ?thesis
    using assms(1) by (auto simp: basemap_box_kept bare_menu_def settle_boxes category_box_kept)
qed

lemma set_insert_before [simp]: "set (insert_before i new ls) = set new \<union> set ls"
  by (induction ls) auto

lemma bare_run:
  assumes "\<forall>v \<in> set extra. leaves_basemap v" "list_all (\<lambda>e. \<not> answers_detail e) es" "bare_menu box drawn st"
  shows "bare_menu (basemap_said box es) (if list_ex ticks_basemap es then basemap_said box es else drawn)
     (fold (layers_step extra) es st)"
  using assms(2,3)
proof (induction es arbitrary: box drawn st)
  case Nil
  then show ?case by simp
next
  case (Cons e es)
  show ?case
  proof (cases e)
    case (Ticked i asked)
    have "bare_menu (if i = ''basemap'' then asked else box) (if i = ''basemap'' then asked else drawn) (layers_step extra e st)"
      using bare_tick [OF Cons.prems(2) assms(1), of i asked] by (simp add: Ticked)
    from Cons.IH [OF _ this] Cons.prems(1) show ?thesis
      using basemap_said_untouched [of es asked] by (cases "i = ''basemap''") (auto simp: Ticked split: if_splits)
  next
    case (Reported i asked r)
    have "bare_menu box drawn (layers_step extra e st)"
      using bare_report [OF _ assms(1), of box drawn "fst st" "snd st"] Cons.prems(2) by (simp add: Reported)
    from Cons.IH [OF _ this] Cons.prems(1) show ?thesis by (simp add: Reported split: if_splits)
  next
    case (Detail_Answers a)
    with Cons.prems(1) show ?thesis by simp
  qed
qed

lemma loaded_layers:
  assumes "\<forall>v \<in> set extra. leaves_basemap v"
  shows "bm_layers (snd (loaded_menu extra st own vis)) = mapStyle @ own"
proof -
  have views: "bm_layers (fold (\<lambda>v m. fst (vw_apply v (f v) m)) vs m0) = bm_layers m0"
    if "\<forall>v \<in> set vs. \<forall>on m. bm_layers (fst (vw_apply v on m)) = bm_layers m" for f vs m0
    using that by (induction vs arbitrary: m0) simp_all
  have "\<forall>v \<in> set (offered_views (layerViews @ extra) bm). \<forall>on m. bm_layers (fst (vw_apply v on m)) = bm_layers m" for bm
    using assms
    by (auto simp: offered_views_def layerViews_def legend_view_def cell_values_view_def basemap_view_def leaves_basemapD)
  then show ?thesis by (simp add: loaded_menu_def installLayers_def Let_def views)
qed

lemma bare_loaded:
  assumes "\<forall>v \<in> set extra. leaves_basemap v" "\<forall>l \<in> set own. ly_group l = None"
  shows "bare_menu (map_of (readState st) ''view:basemap'' \<noteq> Some (JBool False)) d (loaded_menu extra st own vis)"
proof -
  let ?on = "map_of (readState st) ''view:basemap'' \<noteq> Some (JBool False)"
  let ?bm = "\<lparr>bm_layers = mapStyle @ own, bm_visible = vis, bm_legend = True, bm_cell_values = True\<rparr>"
  have offered: "offered_views (layerViews @ extra) ?bm = [legend_view, cell_values_view, basemap_view] @ extra"
    by (simp add: offered_views_def layerViews_def mapStyle_def)
  have flat: "\<forall>l \<in> set (mapStyle @ own). ly_group l = None" using assms(2) by (auto simp: mapStyle_def)
  then have groups: "groupsIn (mapStyle @ own) = []"
    unfolding groupsIn_def filter_empty_conv by (auto simp: list_ex_iff)
  define start where "start = show_basemap ?on (?bm\<lparr>bm_legend := snd (view_box (readState st) legend_view),
    bm_cell_values := snd (view_box (readState st) cell_values_view)\<rparr>)"
  define over where "over = fold (\<lambda>v m. fst (vw_apply v (snd (view_box (readState st) v)) m)) extra start"
  have e: "loaded_menu extra st own vis = (\<lparr>mn_boxes = map (view_box (readState st)) ([legend_view, cell_values_view, basemap_view] @ extra),
      mn_saved = readState st, mn_storage = st, mn_hidden = False\<rparr>, over)"
    unfolding loaded_menu_def installLayers_def Let_def offered over_def start_def
    by (simp add: groups legend_view_def cell_values_view_def basemap_view_def view_box_def view_key_def box_checked_def)
  have raster: "\<lparr>ly_id = RASTER_LAYER_ID, ly_type = ''raster'', ly_source = ''airbg-raster'', ly_group = None\<rparr> \<in> set (bm_layers start)"
    by (simp add: start_def mapStyle_def)
  have layers: "bm_layers over = mapStyle @ own"
    unfolding over_def using fold_leaves [OF assms(1)] by (simp add: start_def)
  have "bm_visible over RASTER_LAYER_ID = bm_visible start RASTER_LAYER_ID"
    unfolding over_def using fold_leaves [OF assms(1), of _ start, THEN conjunct2, rule_format, OF raster] by (simp add: of_basemap_def)
  also have "\<dots> = ?on" unfolding start_def by (rule show_basemap_raster) (simp add: mapStyle_def)
  finally have vis: "bm_visible over RASTER_LAYER_ID = ?on" .
  have "\<forall>g \<in> set LAYER_ORDER. map_of (mn_boxes (fst (loaded_menu extra st own vis))) g = None"
    unfolding e fst_conv layers_menu.simps by (auto simp only: map_of_view_boxes)
  moreover have "map_of (mn_boxes (fst (loaded_menu extra st own vis))) ''view:basemap'' = Some ?on"
    by (simp add: e view_box_def view_key_def legend_view_def cell_values_view_def basemap_view_def box_checked_def)
  ultimately show ?thesis using vis layers flat by (auto simp: bare_menu_def e mapStyle_def)
qed

lemma bare_detail:
  assumes "bare_menu box drawn (m, bm)" "\<forall>l \<in> set (bm_layers bm). ly_group l = None"
    "\<forall>l \<in> set style. ly_id l \<noteq> RASTER_LAYER_ID"
  shows "bare_menu box True (m, addBasemapOverlay GRID_LAYER (Some style) bm)"
  using assms by (auto simp: bare_menu_def addBasemapOverlay_def Let_def overlayLayers_def)

lemma flat_step:
  assumes "\<forall>v \<in> set extra. leaves_basemap v" "\<not> answers_detail e"
  shows "bm_layers (snd (layers_step extra e st)) = bm_layers (snd st)"
proof (cases e)
  case (Ticked i asked)
  show ?thesis
  proof (cases "find (\<lambda>v. vw_id v = i) (layerViews @ extra)")
    case None
    then show ?thesis by (simp add: Ticked)
  next
    case (Some v)
    have "bm_layers (fst (vw_apply v asked (snd st))) = bm_layers (snd st)"
      using find_view(2) [OF Some] assms(1)
      by (auto simp: layerViews_def legend_view_def cell_values_view_def basemap_view_def leaves_basemapD)
    then show ?thesis using Some by (cases st) (simp add: Ticked change_box_facts)
  qed
qed (use assms in \<open>cases st; simp\<close>)+

lemma flat_run:
  assumes "\<forall>v \<in> set extra. leaves_basemap v" "list_all (\<lambda>e. \<not> answers_detail e) es"
  shows "bm_layers (snd (fold (layers_step extra) es st)) = bm_layers (snd st)"
  using assms(2) by (induction es arbitrary: st) (simp_all add: flat_step [OF assms(1)])

lemma basemap_said_append [simp]: "basemap_said b (es @ es') = basemap_said (basemap_said b es) es'"
  by (induction b es rule: basemap_said.induct) simp_all

text \<open>C12. What a loaded page draws of the basemap. The menu is built from the boot style, so it never has
  a box for a category of the basemap. After any events, the other views of the menu acting on
  layers of their own and the vector style not using the raster's name, the basemap box shows what
  was last said of it (the stored choice, then each tick) and the raster is drawn exactly when it is
  ticked; and the detail layers, which arrive once with the answer of the vector style, are drawn
  whatever the box says until it is ticked or unticked again, and from then on exactly when it is
  ticked.\<close>

theorem late_detail_escapes_the_menu:
  assumes "\<forall>v \<in> set extra. leaves_basemap v" "\<forall>l \<in> set own. ly_group l = None"
    "\<forall>l \<in> set style. ly_id l \<noteq> RASTER_LAYER_ID"
    "list_all (\<lambda>e. \<not> answers_detail e) before" "list_all (\<lambda>e. \<not> answers_detail e) after"
    "fold (layers_step extra) (before @ Detail_Answers (Some style) # after) (loaded_menu extra st own vis) = (m, bm)"
    "l \<in> set (overlayLayers style)" "ly_group l = Some g" "h \<in> set LAYER_ORDER"
  shows "map_of (mn_boxes m) h = None
    \<and> map_of (mn_boxes m) ''view:basemap''
        = Some (basemap_said (map_of (readState st) ''view:basemap'' \<noteq> Some (JBool False)) (before @ after))
    \<and> bm_visible bm RASTER_LAYER_ID = (map_of (mn_boxes m) ''view:basemap'' = Some True)
    \<and> l \<in> set (bm_layers bm)
    \<and> bm_visible bm (ly_id l) = (if list_ex ticks_basemap after then map_of (mn_boxes m) ''view:basemap'' = Some True else True)"
proof -
  let ?b = "map_of (readState st) ''view:basemap'' \<noteq> Some (JBool False)"
  obtain m1 bm1 where mid: "fold (layers_step extra) before (loaded_menu extra st own vis) = (m1, bm1)" by (metis prod.collapse)
  have "bare_menu (basemap_said ?b before) (if list_ex ticks_basemap before then basemap_said ?b before else True) (m1, bm1)"
    using bare_run [OF assms(1,4) bare_loaded [OF assms(1,2), of st True vis]] by (simp add: mid)
  moreover have "bm_layers bm1 = bm_layers (snd (loaded_menu extra st own vis))"
    using flat_run [OF assms(1,4), of "loaded_menu extra st own vis"] by (simp add: mid)
  moreover have "bm_layers (snd (loaded_menu extra st own vis)) = mapStyle @ own"
    using loaded_layers [OF assms(1)] by simp
  moreover have "\<forall>l \<in> set (mapStyle @ own). ly_group l = None" using assms(2) by (auto simp: mapStyle_def)
  ultimately have "bare_menu (basemap_said ?b before) True (m1, addBasemapOverlay GRID_LAYER (Some style) bm1)"
    using bare_detail assms(3) by metis
  from bare_run [OF assms(1,5) this] have "bare_menu (basemap_said ?b (before @ after))
      (if list_ex ticks_basemap after then basemap_said ?b (before @ after) else True) (m, bm)"
    using assms(6) by (simp add: mid split: if_splits)
  moreover have "l \<in> set (bm_layers bm)"
    using flat_run [OF assms(1,5), of "(m1, addBasemapOverlay GRID_LAYER (Some style) bm1)"] assms(6,7)
    by (simp add: mid addBasemapOverlay_def Let_def)
  ultimately show ?thesis using assms(8,9) by (simp add: bare_menu_def)
qed

definition basemap_off :: storage where
  "basemap_off = \<lparr>items = [STORAGE_KEY \<mapsto> spell_choices [(''view:basemap'', JBool False)]],
     get_throws = False, set_throws = False, remove_throws = False\<rparr>"

definition road_layer :: style_layer where
  "road_layer = \<lparr>ly_id = ''road'', ly_type = ''line'', ly_source = ''v'', ly_group = Some ''roads''\<rparr>"

definition grid_layer :: style_layer where
  "grid_layer = \<lparr>ly_id = GRID_LAYER, ly_type = ''fill'', ly_source = ''airbg-hex'', ly_group = None\<rparr>"

definition faulty_view :: layer_view where
  "faulty_view = \<lparr>vw_id = ''faultySensors'', vw_needs_map = False, vw_default_off = False, vw_initial = None,
     vw_apply = (\<lambda>on bm. (bm, Some on))\<rparr>"

lemma basemap_off_state: "readState (Some basemap_off) = [(''view:basemap'', JBool False)]"
  using layer_choices.read_spell [of "[(''view:basemap'', JBool False)]"]
  by (simp add: readState_def try_get_def basemap_off_def getItem_def raw_get_def split: option.splits)

abbreviation witness_menu :: "menu_event list \<Rightarrow> menu_event list \<Rightarrow> layers_menu \<times> basemap" where
  "witness_menu before after \<equiv> fold (layers_step [faulty_view]) (before @ Detail_Answers (Some [road_layer]) # after)
     (loaded_menu [faulty_view] (Some basemap_off) [grid_layer] (\<lambda>_. True))"

text \<open>The basemap was switched off on an earlier visit: the streets are drawn under an unticked box, and
  ticking and unticking it again takes them away.\<close>

theorem late_detail_escapes_the_menu_witness:
  "bm_visible (snd (witness_menu [Ticked ''faultySensors'' False] [])) ''road''
   \<and> map_of (mn_boxes (fst (witness_menu [Ticked ''faultySensors'' False] []))) ''view:basemap'' = Some False
   \<and> \<not> bm_visible (snd (witness_menu [] [Ticked ''basemap'' True, Ticked ''basemap'' False])) ''road''"
proof -
  have extra: "\<forall>v \<in> set [faulty_view]. leaves_basemap v"
    by (simp add: leaves_basemap_def faulty_view_def layerViews_def legend_view_def cell_values_view_def basemap_view_def)
  have own: "\<forall>l \<in> set [grid_layer]. ly_group l = None" by (simp add: grid_layer_def)
  have style: "\<forall>l \<in> set [road_layer]. ly_id l \<noteq> RASTER_LAYER_ID" by (simp add: road_layer_def RASTER_LAYER_ID_def)
  have road: "road_layer \<in> set (overlayLayers [road_layer])" "ly_group road_layer = Some ''roads''" "''roads'' \<in> set LAYER_ORDER"
    by (simp_all add: overlayLayers_def road_layer_def LAYER_ORDER_def)
  obtain m bm where a: "witness_menu [Ticked ''faultySensors'' False] [] = (m, bm)" by (metis prod.collapse)
  obtain m2 bm2 where b: "witness_menu [] [Ticked ''basemap'' True, Ticked ''basemap'' False] = (m2, bm2)" by (metis prod.collapse)
  have "bm_visible bm ''road'' \<and> map_of (mn_boxes m) ''view:basemap'' = Some False"
    using late_detail_escapes_the_menu [OF extra own style _ _ a road] by (simp add: basemap_off_state road_layer_def)
  moreover have "\<not> bm_visible bm2 ''road''"
    using late_detail_escapes_the_menu [OF extra own style _ _ b road] by (simp add: basemap_off_state road_layer_def)
  ultimately show ?thesis unfolding a b by simp
qed

end
