(* ===== verification/Map_Window.thy ===== *)
theory Map_Window
  imports Url_Params Storage
begin

text \<open>
  \<open>web/src/lib/mapwindow.js\<close>: the averaging window as a name, a request parameter, a remembered
  choice and a disclosure of radio buttons. The remembered window is one of the preferences kept
  through the storage interface: \<open>window_pref\<close> interprets it.
\<close>

section \<open>Names and requests\<close>

definition WINDOW_STORAGE_KEY :: string where
  "WINDOW_STORAGE_KEY = ''kanarche:map-window''"

definition LIVE_WINDOW :: string where
  "LIVE_WINDOW = []"

definition WINDOWS :: "string list" where
  "WINDOWS = [''24h'', ''48h'', ''7d'']"

definition WINDOW_CHOICES :: "string list" where
  "WINDOW_CHOICES = LIVE_WINDOW # WINDOWS"

definition LIVE_FALLBACK :: string where
  "LIVE_FALLBACK = ''live''"

definition knownWindow :: "string \<Rightarrow> bool" where
  "knownWindow name \<longleftrightarrow> name = LIVE_WINDOW \<or> name \<in> set WINDOWS"

fun window_of :: "js_error + string option \<Rightarrow> string" where
  "window_of (Inr (Some raw)) = (if knownWindow raw then raw else LIVE_WINDOW)"
| "window_of _ = LIVE_WINDOW"

definition readWindow :: "storage option \<Rightarrow> string" where
  "readWindow st = window_of (try_get st WINDOW_STORAGE_KEY)"

definition writeWindow :: "string \<Rightarrow> storage option \<Rightarrow> storage option" where
  "writeWindow name st = try_set st WINDOW_STORAGE_KEY name"

definition withWindow :: "string \<Rightarrow> string \<Rightarrow> string" where
  "withWindow url name = (if \<not> knownWindow name \<or> name = LIVE_WINDOW then url
     else url @ (if CHR ''?'' \<in> set url then ''&'' else ''?'') @ ''window='' @ encode_uri_component name)"

definition windowOptions :: "string list \<Rightarrow> (string \<times> string) list" where
  "windowOptions labels = map (\<lambda>(i, v). let l = (if i < length labels then labels ! i else []) in
     (v, if l \<noteq> [] then l else if v \<noteq> [] then v else LIVE_FALLBACK)) (enumerate 0 WINDOW_CHOICES)"

text \<open>The state a pick changes is the map's window and the storage; the answer is whether to reload.\<close>

definition chooseWindow :: "string \<Rightarrow> string \<times> storage option \<Rightarrow> bool \<times> string \<times> storage option" where
  "chooseWindow name st = (if \<not> knownWindow name then (False, st)
     else if name = fst st \<and> name \<noteq> LIVE_WINDOW then (False, st)
     else (True, name, writeWindow name (snd st)))"

section \<open>The disclosure\<close>

text \<open>
  What the built control shows: the options, the checked one, the text on the button, whether the
  panel is open, and the values handed to the listeners of a pick so far. A radio group always
  has at most one input checked; the browser unchecks the others.
\<close>

record window_menu =
  wm_options :: "(string \<times> string) list"
  wm_checked :: "nat option"
  wm_label :: string
  wm_open :: bool
  wm_focus_button :: bool
  wm_picks :: "string list"

definition mountWindow :: "(string \<times> string) list \<Rightarrow> string \<Rightarrow> window_menu" where
  "mountWindow options val =
     (let checked = find (\<lambda>i. fst (options ! i) = val) (rev [0..<length options]);
          said = (case checked of Some i \<Rightarrow> snd (options ! i) | None \<Rightarrow> [])
      in \<lparr>wm_options = options, wm_checked = checked,
          wm_label = (if said \<noteq> [] then said else case options of [] \<Rightarrow> LIVE_FALLBACK | (_, t) # _ \<Rightarrow> t),
          wm_open = False, wm_focus_button = False, wm_picks = []\<rparr>)"

datatype menu_event = Click_Button | Pick nat | Escape | Mouse_Outside

fun menu_step :: "window_menu \<Rightarrow> menu_event \<Rightarrow> window_menu" where
  "menu_step m Click_Button = m\<lparr>wm_open := \<not> wm_open m\<rparr>"
| "menu_step m (Pick i) = (if i < length (wm_options m) \<and> wm_checked m \<noteq> Some i
     then m\<lparr>wm_checked := Some i, wm_label := snd (wm_options m ! i), wm_open := False,
            wm_focus_button := True, wm_picks := wm_picks m @ [fst (wm_options m ! i)]\<rparr>
     else m)"
| "menu_step m Escape = (if wm_open m then m\<lparr>wm_open := False, wm_focus_button := True\<rparr> else m)"
| "menu_step m Mouse_Outside = (if wm_open m then m\<lparr>wm_open := False\<rparr> else m)"

section \<open>Lemmas\<close>

lemma knownWindow_cases: "knownWindow name \<longleftrightarrow> name \<in> set WINDOW_CHOICES"
  by (auto simp: knownWindow_def WINDOW_CHOICES_def)

interpretation window_pref: stored_preference getItem setItem removeItem storage_working app_key
    WINDOW_STORAGE_KEY "\<lambda>w. w" window_of knownWindow LIVE_WINDOW
  by unfold_locales (simp_all add: WINDOW_STORAGE_KEY_def app_key_def starts_with_def KEY_PREFIX_def)

lemma readWindow_known: "knownWindow (readWindow st)"
  by (cases "try_get st WINDOW_STORAGE_KEY" rule: window_of.cases) (auto simp: readWindow_def knownWindow_def)

lemma windowOptions_values: "map fst (windowOptions labels) = WINDOW_CHOICES"
  by (simp add: windowOptions_def comp_def case_prod_unfold Let_def)

text \<open>The menu says what is checked.\<close>

definition menu_inv :: "window_menu \<Rightarrow> bool" where
  "menu_inv m \<longleftrightarrow> (case wm_checked m of None \<Rightarrow> wm_picks m = []
     | Some i \<Rightarrow> i < length (wm_options m) \<and> wm_label m = snd (wm_options m ! i)
         \<and> (wm_picks m \<noteq> [] \<longrightarrow> last (wm_picks m) = fst (wm_options m ! i)))"

lemma menu_inv_step: "menu_inv m \<Longrightarrow> menu_inv (menu_step m e) \<and> wm_options (menu_step m e) = wm_options m"
  by (cases e) (auto simp: menu_inv_def split: option.splits)

lemma menu_inv_run: "menu_inv m \<Longrightarrow> menu_inv (foldl menu_step m es) \<and> wm_options (foldl menu_step m es) = wm_options m"
  by (induction es arbitrary: m) (simp_all add: menu_inv_step)

lemma menu_inv_mount:
  assumes "\<forall>p \<in> set options. snd p \<noteq> []"
  shows "menu_inv (mountWindow options val)"
proof (cases "find (\<lambda>i. fst (options ! i) = val) (rev [0..<length options])")
  case None
  then show ?thesis by (simp add: menu_inv_def mountWindow_def)
next
  case (Some i)
  then have "i \<in> set (rev [0..<length options])" by (metis find_Some_iff nth_mem)
  then have i: "i < length options" by simp
  with assms have "snd (options ! i) \<noteq> []" by simp
  with Some i show ?thesis by (simp add: menu_inv_def mountWindow_def)
qed

section \<open>Properties\<close>

text \<open>A pick is remembered: after choosing a window that the server publishes, the next page
  reads it back, the requests of this page carry it as their one \<open>window\<close> parameter, and the
  live view leaves every request as it was.\<close>

theorem window_choice_remembered:
  assumes "storage_working s" "knownWindow w" "chooseWindow w (cur, Some s) = (changed, w', st')"
  shows "(changed \<longrightarrow> w' = w \<and> readWindow st' = w) \<and> (\<not> changed \<longrightarrow> w' = cur \<and> st' = Some s \<and> cur = w \<and> w \<noteq> LIVE_WINDOW)
    \<and> withWindow url LIVE_WINDOW = url
    \<and> (w \<noteq> LIVE_WINDOW \<longrightarrow> (\<exists>sep. sep \<in> {''?'', ''&''} \<and> withWindow url w = url @ sep @ ''window='' @ w
         \<and> (sep = ''?'' \<longleftrightarrow> CHR ''?'' \<notin> set url)))"
proof -
  have "readWindow (writeWindow w (Some s)) = w"
    using window_pref.write_then_read [OF assms(1,2)] by (simp add: readWindow_def writeWindow_def try_get_def try_set_def)
  moreover have "encode_uri_component w = w" if "w \<noteq> LIVE_WINDOW"
    using assms(2) that by (auto simp: knownWindow_def WINDOWS_def encode_uri_component_def uri_safe_def is_alnum_def)
  ultimately show ?thesis
    using assms(2,3) by (auto simp: chooseWindow_def withWindow_def split: if_splits)
qed

theorem window_choice_remembered_witness:
  "readWindow (snd (snd (chooseWindow ''7d'' (LIVE_WINDOW, Some \<lparr>items = Map.empty, get_throws = False, set_throws = False, remove_throws = False\<rparr>)))) = ''7d''"
proof -
  let ?s = "\<lparr>items = Map.empty, get_throws = False, set_throws = False, remove_throws = False\<rparr>"
  obtain c w st where e: "chooseWindow ''7d'' (LIVE_WINDOW, Some ?s) = (c, w, st)" by (metis prod.collapse)
  have "storage_working ?s" "knownWindow ''7d''" by (simp_all add: storage_working_def knownWindow_def WINDOWS_def)
  from window_choice_remembered [OF this e, of "[]"] e show ?thesis
    by (auto simp: chooseWindow_def knownWindow_def WINDOWS_def LIVE_WINDOW_def split: if_splits)
qed

text \<open>The button says which window is chosen: after any clicks, picks and escapes its text is
  that of the checked option, and the last value the listeners heard is the checked one.\<close>

theorem window_button_says_choice:
  assumes "m = foldl menu_step (mountWindow (windowOptions labels) w) es" "wm_checked m = Some i"
  shows "i < length WINDOW_CHOICES \<and> wm_label m = snd (windowOptions labels ! i)
    \<and> (wm_picks m \<noteq> [] \<longrightarrow> last (wm_picks m) = WINDOW_CHOICES ! i)"
proof -
  have "\<forall>p \<in> set (windowOptions labels). snd p \<noteq> []"
    by (simp add: windowOptions_def Let_def LIVE_FALLBACK_def case_prod_unfold)
  then have "menu_inv (mountWindow (windowOptions labels) w)" by (rule menu_inv_mount)
  from menu_inv_run [OF this, of es]
  have m: "menu_inv m" "wm_options m = windowOptions labels"
    by (simp_all add: assms(1) mountWindow_def Let_def)
  moreover have "fst (windowOptions labels ! i) = WINDOW_CHOICES ! i" if "i < length (windowOptions labels)"
    using that windowOptions_values [of labels] by (metis nth_map)
  moreover have "length (windowOptions labels) = length WINDOW_CHOICES"
    using windowOptions_values [of labels] by (metis length_map)
  ultimately show ?thesis using assms(2) by (simp add: menu_inv_def)
qed

theorem window_button_says_choice_witness:
  "wm_label (foldl menu_step (mountWindow (windowOptions [''now'']) LIVE_WINDOW) [Click_Button, Pick 3]) = ''7d''"
proof -
  let ?m = "foldl menu_step (mountWindow (windowOptions [''now'']) LIVE_WINDOW) [Click_Button, Pick 3]"
  have "wm_checked ?m = Some 3"
    by (simp add: mountWindow_def windowOptions_def WINDOW_CHOICES_def WINDOWS_def LIVE_WINDOW_def Let_def)
  from window_button_says_choice [OF refl this]
  show ?thesis by (simp add: windowOptions_def WINDOW_CHOICES_def WINDOWS_def LIVE_WINDOW_def)
qed

end
