(* ===== verification/Map_Data.thy ===== *)
theory Map_Data
  imports Stations Hexes Map_Window
begin

text \<open>
  The map's data seam: which tier a zoom may read (\<open>web/src/lib/tier.js\<close>) and the loaders of
  \<open>mapdata.js\<close>, which fetch the markers of that tier, the sensors of an area and the hex grid
  of the viewport, and repaint. A loader runs up to its \<open>await\<close>; what follows is a pending
  request, and its landing or failing is an event of its own that reads the state as it is then.
  \<open>getJSON\<close> answers at any time and in any order; a cancelled request never runs on.
\<close>

section \<open>Tiers (tier.js)\<close>

datatype tier = Country | City | Sensors

instantiation tier :: linorder
begin

fun tier_rank :: "tier \<Rightarrow> nat" where
  "tier_rank Country = 0" | "tier_rank City = 1" | "tier_rank Sensors = 2"

definition less_eq_tier :: "tier \<Rightarrow> tier \<Rightarrow> bool" where
  "a \<le> b \<longleftrightarrow> tier_rank a \<le> tier_rank b"

definition less_tier :: "tier \<Rightarrow> tier \<Rightarrow> bool" where
  "a < b \<longleftrightarrow> tier_rank a < tier_rank b"

instance
proof
  fix a b c :: tier
  show "a < b \<longleftrightarrow> a \<le> b \<and> \<not> b \<le> a" by (auto simp: less_eq_tier_def less_tier_def)
  show "a \<le> a" by (simp add: less_eq_tier_def)
  show "a \<le> b \<Longrightarrow> b \<le> c \<Longrightarrow> a \<le> c" by (simp add: less_eq_tier_def)
  show "a \<le> b \<Longrightarrow> b \<le> a \<Longrightarrow> a = b" by (cases a; cases b) (simp_all add: less_eq_tier_def)
  show "a \<le> b \<or> b \<le> a" by (simp add: less_eq_tier_def linear)
qed

end

definition tierFor :: "real \<Rightarrow> real \<Rightarrow> real \<Rightarrow> tier" where
  "tierFor zoom zoomCity zoomSensor = (if zoom < zoomCity then Country else if zoom < zoomSensor then City else Sensors)"

fun tier_name :: "tier \<Rightarrow> string" where
  "tier_name Country = ''country''"
| "tier_name City = ''city''"
| "tier_name Sensors = ''sensors''"

section \<open>Requests, captions, hints\<close>

definition urlFor :: "tier \<Rightarrow> string option \<Rightarrow> string" where
  "urlFor tr slug = (case tr of
      Country \<Rightarrow> ''/api/v1/overview''
    | City \<Rightarrow> ''/api/v1/overview?tier=city''
    | Sensors \<Rightarrow> ''/api/v1/area/'' @ encode_uri_component (case slug of Some s \<Rightarrow> s | None \<Rightarrow> ''undefined'') @ ''/sensors'')"

definition MOVE_DEBOUNCE_MS :: nat where
  "MOVE_DEBOUNCE_MS = 250"

definition cellTier :: "real \<Rightarrow> tier \<Rightarrow> tier" where
  "cellTier zoom markerTier = (if POINT_TIER_MIN_ZOOM_FRACTIONAL \<le> zoom then Sensors
     else if markerTier = Sensors then City else markerTier)"

record texts =
  tt_hint :: string
  tt_no_sources :: string
  tt_unavailable :: string
  tt_unscaled :: string
  tt_not_measured :: string

definition mapHint :: "texts \<Rightarrow> bool \<Rightarrow> string list \<Rightarrow> string" where
  "mapHint t fellBack sources = (if sources = [] then tt_no_sources t else if fellBack then tt_hint t else [])"

definition metricNote :: "scales \<Rightarrow> string \<Rightarrow> string \<Rightarrow> string" where
  "metricNote scales metric text = (if hasScale scales metric then [] else text)"

text \<open>The label of one network in the layers menu; \<open>coverage\<close> is \<open>coverage?.[source]\<close>.\<close>

definition setSourceViewAvailability :: "string \<Rightarrow> texts \<Rightarrow> (string \<times> real) list option \<Rightarrow> string \<Rightarrow> string" where
  "setSourceViewAvailability metric t coverage label = (case coverage of
      None \<Rightarrow> label
    | Some per \<Rightarrow> if per = [] then label
        else if 0 < (case map_of per metric of Some n \<Rightarrow> n | None \<Rightarrow> 0) then label
        else label @ '' '' @ [char_of (0xE2::nat), char_of (0x80::nat), char_of (0x94::nat)] @ '' '' @ tt_not_measured t)"

text \<open>\<open>hintController\<close> of \<open>chrome.js\<close>: an error, once shown, outranks every later hint.\<close>

record banner =
  bn_sticky :: string
  bn_text :: string

definition showHint :: "string \<Rightarrow> banner \<Rightarrow> banner" where
  "showHint text b = (if bn_sticky b \<noteq> [] then b else b\<lparr>bn_text := text\<rparr>)"

definition showError :: "string \<Rightarrow> banner \<Rightarrow> banner" where
  "showError text b = b\<lparr>bn_sticky := text, bn_text := text\<rparr>"

section \<open>The state\<close>

record map_cfg =
  mc_zoom_city :: real
  mc_zoom_sensor :: real
  mc_slug :: "string option"
  mc_nodata :: colour
  mc_unscaled :: colour
  mc_texts :: texts

datatype request =
    Marker_Req tier string bool \<comment> \<open>effective tier, dedup key, deferred paint\<close>
  | List_Req string string \<comment> \<open>dedup key and slug\<close>
  | Hex_Req string bool \<comment> \<open>URL, deferred paint\<close>
  | Locate_Req \<comment> \<open>where the visitor or a sensor is; \<open>placement.js\<close> reads the answer\<close>
  | Areas_Req \<comment> \<open>the list of areas a deep link needs for a name\<close>
  | Fill_Req string \<comment> \<open>the sensors of the area a deep link adopted, for the panel\<close>

datatype markers = Area_Markers "area_feature list" | Sensor_Markers "sensor_feature list"

datatype held_paint = Held_Markers markers | Held_Cells "hex_feature list"

text \<open>
  \<open>state\<close> of the island together with what it draws: the markers, the cells, the banner, the note,
  the registry and the filters. \<open>ms_pending\<close> are the requests awaited, each with its identity
  and URL; \<open>ms_held\<close> the paints a caller deferred; \<open>ms_requests\<close> every URL asked for so far; \<open>ms_linked\<close> the areas that
  \<open>openDeepLinkedSensor\<close> adopted and may still fill the registry for.
\<close>

record map_state =
  ms_slug :: "string option"
  ms_window :: string
  ms_scales :: scales
  ms_metric :: string
  ms_tier :: "string option"
  ms_fell_back :: bool
  ms_areas :: "jsval list option"
  ms_sensor_body :: "jsval option"
  ms_list_key :: "string option"
  ms_hex_url :: "string option"
  ms_hex_body :: "hex_body option"
  ms_hex_abort :: "nat option"
  ms_registry :: registry
  ms_status :: status
  ms_show_faulty :: bool
  ms_sources :: "string list"
  ms_caption_tier :: tier
  ms_handover_tier :: tier
  ms_banner :: banner
  ms_note :: string
  ms_paint :: paint
  ms_markers :: "markers option"
  ms_cells :: "hex_feature list option"
  ms_held :: "held_paint list"
  ms_pending :: "(nat \<times> string \<times> request) list"
  ms_next :: nat
  ms_requests :: "string list"
  ms_linked :: "string list"

definition ask :: "string \<Rightarrow> request \<Rightarrow> map_state \<Rightarrow> map_state" where
  "ask url r st = st\<lparr>ms_pending := ms_pending st @ [(ms_next st, url, r)], ms_next := Suc (ms_next st),
     ms_requests := ms_requests st @ [url]\<rparr>"

definition drop_request :: "nat \<Rightarrow> map_state \<Rightarrow> map_state" where
  "drop_request i st = st\<lparr>ms_pending := filter (\<lambda>p. fst p \<noteq> i) (ms_pending st)\<rparr>"

section \<open>Markers\<close>

definition slug_key :: "string option \<Rightarrow> string" where
  "slug_key slug = (case slug of Some s \<Rightarrow> s | None \<Rightarrow> [])"

definition listKeyFor :: "map_state \<Rightarrow> string" where
  "listKeyFor st = slug_key (ms_slug st) @ '':'' @ ms_window st"

text \<open>A slug is selected when it is there and not the empty string.\<close>

definition has_slug :: "string option \<Rightarrow> bool" where
  "has_slug slug \<longleftrightarrow> slug_key slug \<noteq> []"

definition loadAreaSensors :: "map_cfg \<Rightarrow> bool \<Rightarrow> map_state \<Rightarrow> map_state" where
  "loadAreaSensors cfg force st = (if \<not> has_slug (mc_slug cfg) \<or> \<not> has_slug (ms_slug st) then st
     else let key = listKeyFor st in
       if \<not> force \<and> ms_list_key st = Some key then st
       else ask (withWindow (urlFor Sensors (ms_slug st)) (ms_window st)) (List_Req key (slug_key (ms_slug st)))
              (st\<lparr>ms_list_key := Some key\<rparr>))"

definition effective_tier :: "map_cfg \<Rightarrow> real \<Rightarrow> map_state \<Rightarrow> tier" where
  "effective_tier cfg zoom st = (let tr = tierFor zoom (mc_zoom_city cfg) (mc_zoom_sensor cfg)
     in if tr = Sensors \<and> \<not> has_slug (ms_slug st) then City else tr)"

definition marker_key :: "tier \<Rightarrow> map_state \<Rightarrow> string" where
  "marker_key tr st = tier_name tr @ '':'' @ slug_key (ms_slug st) @ '':'' @ ms_window st"

text \<open>\<open>refresh\<close> up to its \<open>await\<close>.\<close>

definition refresh :: "map_cfg \<Rightarrow> real \<Rightarrow> bool \<Rightarrow> bool \<Rightarrow> map_state \<Rightarrow> map_state" where
  "refresh cfg zoom force later st =
     (let tr = tierFor zoom (mc_zoom_city cfg) (mc_zoom_sensor cfg);
          effective = effective_tier cfg zoom st;
          st1 = st\<lparr>ms_fell_back := (effective \<noteq> tr),
                   ms_banner := showHint (mapHint (mc_texts cfg) (effective \<noteq> tr) (ms_sources st)) (ms_banner st),
                   ms_caption_tier := cellTier zoom effective, ms_handover_tier := effective\<rparr>;
          url = withWindow (urlFor effective (ms_slug st)) (ms_window st);
          key = marker_key effective st
      in if \<not> force \<and> ms_tier st = Some key then st1
         else ask url (Marker_Req effective key later)
                (if effective \<noteq> Sensors then loadAreaSensors cfg force st1 else st1))"

definition sensor_markers :: "map_cfg \<Rightarrow> jsval \<Rightarrow> map_state \<Rightarrow> js_error + markers" where
  "sensor_markers cfg body st = (case sensorFeatures body (ms_metric st) (ms_scales st) (mc_nodata cfg) of
      Inl e \<Rightarrow> Inl e
    | Inr fs \<Rightarrow> Inr (Sensor_Markers (filterBySource (filterSensorFeatures fs (ms_status st) (ms_show_faulty st)) (ms_sources st))))"

definition paint_or_hold :: "bool \<Rightarrow> markers \<Rightarrow> map_state \<Rightarrow> map_state" where
  "paint_or_hold later fs st = (if later then st\<lparr>ms_held := ms_held st @ [Held_Markers fs]\<rparr> else st\<lparr>ms_markers := Some fs\<rparr>)"

text \<open>The rest of \<open>refresh\<close>: it reads the slug, the metric and the filters of the moment it runs.\<close>

definition land_markers :: "map_cfg \<Rightarrow> tier \<Rightarrow> string \<Rightarrow> bool \<Rightarrow> jsval \<Rightarrow> map_state \<Rightarrow> map_state" where
  "land_markers cfg effective key later body st =
     (if effective = Sensors then
        let st1 = st\<lparr>ms_tier := Some key,
              ms_registry := setSensors body (case ms_slug st of Some s \<Rightarrow> JStr s | None \<Rightarrow> JNull) (ms_registry st),
              ms_sensor_body := Some body, ms_list_key := Some (listKeyFor st)\<rparr>
        in (case sensor_markers cfg body st1 of Inl _ \<Rightarrow> st1 | Inr fs \<Rightarrow> paint_or_hold later fs st1)
      else let st1 = st\<lparr>ms_tier := Some key, ms_sensor_body := None, ms_areas := Some (elems (jget body ''areas''))\<rparr>
        in paint_or_hold later (Area_Markers (areaFeatures body (ms_metric st1) (ms_scales st1) (mc_nodata cfg))) st1)"

definition land_list :: "string \<Rightarrow> string \<Rightarrow> jsval \<Rightarrow> map_state \<Rightarrow> map_state" where
  "land_list key slug body st = (if ms_list_key st \<noteq> Some key then st
     else st\<lparr>ms_registry := setSensors body (JStr slug) (ms_registry st)\<rparr>)"

definition repaintSensors :: "map_cfg \<Rightarrow> map_state \<Rightarrow> map_state" where
  "repaintSensors cfg st = (case ms_sensor_body st of None \<Rightarrow> st
     | Some body \<Rightarrow> (case sensor_markers cfg body st of Inl _ \<Rightarrow> st | Inr fs \<Rightarrow> st\<lparr>ms_markers := Some fs\<rparr>))"

section \<open>The grid\<close>

record viewport =
  vp_zoom :: real
  vp_bounds :: "bounds option"
  vp_width :: "real option"

definition draw_cells :: "map_cfg \<Rightarrow> real \<Rightarrow> bool \<Rightarrow> map_state \<Rightarrow> map_state" where
  "draw_cells cfg zoom later st =
     (let features = hexFeatures (ms_hex_body st) (ms_metric st) (bandsFor (ms_scales st) (ms_metric st)) (mc_nodata cfg)
            rampColour (resolutionForZoom (of_int (math_round zoom)) None) (Some (ms_sources st))
      in if later then st\<lparr>ms_held := ms_held st @ [Held_Cells features]\<rparr>
         else st\<lparr>ms_cells := Some (filterByStatus features (ms_status st))\<rparr>)"

definition hex_url :: "viewport \<Rightarrow> map_state \<Rightarrow> string" where
  "hex_url v st = withWindow (hexesURL (vp_zoom v) (vp_bounds v) (vp_width v)) (ms_window st)"

definition refreshHexes :: "map_cfg \<Rightarrow> viewport \<Rightarrow> bool \<Rightarrow> map_state \<Rightarrow> map_state" where
  "refreshHexes cfg v later st = (let url = hex_url v st in
     if ms_hex_url st \<noteq> Some url then
       let st1 = (case ms_hex_abort st of Some i \<Rightarrow> drop_request i st | None \<Rightarrow> st)
       in ask url (Hex_Req url later) (st1\<lparr>ms_hex_abort := Some (ms_next st1)\<rparr>)
     else draw_cells cfg (vp_zoom v) later st)"

definition land_cells :: "map_cfg \<Rightarrow> real \<Rightarrow> string \<Rightarrow> bool \<Rightarrow> hex_body \<Rightarrow> map_state \<Rightarrow> map_state" where
  "land_cells cfg zoom url later body st = draw_cells cfg zoom later (st\<lparr>ms_hex_url := Some url, ms_hex_body := Some body\<rparr>)"

section \<open>Events\<close>

text \<open>\<open>paintSource\<close> for the paints a caller held until every loader was ready.\<close>

definition paint_held :: "map_state \<Rightarrow> held_paint \<Rightarrow> map_state" where
  "paint_held st h = (case h of Held_Markers fs \<Rightarrow> st\<lparr>ms_markers := Some fs\<rparr>
     | Held_Cells fs \<Rightarrow> st\<lparr>ms_cells := Some (filterByStatus fs (ms_status st))\<rparr>)"

definition flush :: "map_state \<Rightarrow> map_state" where
  "flush st = (foldl paint_held st (ms_held st))\<lparr>ms_held := []\<rparr>"

definition applyMetricColours :: "map_cfg \<Rightarrow> string \<Rightarrow> map_state \<Rightarrow> map_state" where
  "applyMetricColours cfg metric st = st\<lparr>ms_metric := metric,
     ms_paint := markerPaint (bandsFor (ms_scales st) metric) (mc_nodata cfg) (mc_unscaled cfg) (hasScale (ms_scales st) metric),
     ms_note := metricNote (ms_scales st) metric (tt_unscaled (mc_texts cfg))\<rparr>"

definition onMetricChange :: "map_cfg \<Rightarrow> viewport \<Rightarrow> string \<Rightarrow> map_state \<Rightarrow> map_state" where
  "onMetricChange cfg v metric st = refreshHexes cfg v False (refresh cfg (vp_zoom v) True False (applyMetricColours cfg metric st))"

definition loadScales :: "map_cfg \<Rightarrow> scales \<Rightarrow> map_state \<Rightarrow> map_state" where
  "loadScales cfg answer st = (if answer = None then st\<lparr>ms_banner := showError (tt_unavailable (mc_texts cfg)) (ms_banner st)\<rparr> else st)"

text \<open>\<open>initData\<close> once the scales are there; \<open>place\<close> is what the opening camera adopts.\<close>

definition initData :: "map_cfg \<Rightarrow> viewport \<Rightarrow> scales \<Rightarrow> string option \<Rightarrow> map_state \<Rightarrow> map_state" where
  "initData cfg v answer place st =
     (let st1 = loadScales cfg answer st;
          st2 = st1\<lparr>ms_scales := answer, ms_registry := setScales answer (ms_registry st1)\<rparr>;
          st3 = (case place of Some slug \<Rightarrow> st2\<lparr>ms_slug := Some slug\<rparr> | None \<Rightarrow> st2)
      in refreshHexes cfg v True (refresh cfg (vp_zoom v) False True st3))"

definition showArea :: "map_cfg \<Rightarrow> real \<Rightarrow> jsval \<Rightarrow> map_state \<Rightarrow> bool \<times> map_state" where
  "showArea cfg zoom area st = (case jget area ''slug'' of
      JStr slug \<Rightarrow> (True, refresh cfg zoom True False (st\<lparr>ms_slug := Some slug\<rparr>))
    | _ \<Rightarrow> (False, st))"

text \<open>
  What the page's reload button, its timer and the window menu do (\<open>mapload.js\<close>), in two
  halves: the second waits for the first to settle, so other events may come between.
\<close>

definition reload_markers :: "map_cfg \<Rightarrow> real \<Rightarrow> map_state \<Rightarrow> map_state" where
  "reload_markers cfg zoom st = refresh cfg zoom True False st"

definition reload_grid :: "map_cfg \<Rightarrow> viewport \<Rightarrow> map_state \<Rightarrow> map_state" where
  "reload_grid cfg v st = refreshHexes cfg v False st"

text \<open>The subscriptions to the three filters.\<close>

definition on_status :: "map_cfg \<Rightarrow> viewport \<Rightarrow> status \<Rightarrow> map_state \<Rightarrow> map_state" where
  "on_status cfg v s st = refreshHexes cfg v False (repaintSensors cfg (st\<lparr>ms_status := s\<rparr>))"

definition on_faulty :: "map_cfg \<Rightarrow> bool \<Rightarrow> map_state \<Rightarrow> map_state" where
  "on_faulty cfg b st = repaintSensors cfg (st\<lparr>ms_show_faulty := b\<rparr>)"

definition on_sources :: "map_cfg \<Rightarrow> viewport \<Rightarrow> string list \<Rightarrow> map_state \<Rightarrow> map_state" where
  "on_sources cfg v src st = (let st1 = refreshHexes cfg v False (repaintSensors cfg (st\<lparr>ms_sources := src\<rparr>))
     in st1\<lparr>ms_banner := showHint (mapHint (mc_texts cfg) (ms_fell_back st1) (ms_sources st1)) (ms_banner st1)\<rparr>)"

text \<open>The pan handler of \<open>islands/map.js\<close>, after its debounce.\<close>

definition onMoveEnd :: "map_cfg \<Rightarrow> viewport \<Rightarrow> map_state \<Rightarrow> map_state" where
  "onMoveEnd cfg v st = refreshHexes cfg v True (refresh cfg (vp_zoom v) False True st)"

text \<open>
  The requests of \<open>placement.js\<close>: the two locates, and those of \<open>openDeepLinkedSensor\<close> after its
  answer, which run one after the other with an \<open>await\<close> between: the list of areas, when there is
  none to name the slug by; the slug adopted and a forced refresh; the grid (\<open>reload_grid\<close>); and the
  sensors of the area, asked for without a window, when the panel's sensor is not among those held.
\<close>

definition locate_url :: string where
  "locate_url = ''/api/v1/locate''"

definition sensor_locate_url :: "nat \<Rightarrow> string" where
  "sensor_locate_url i = ''/api/v1/sensor/'' @ nat_str i @ ''/locate''"

definition link_areas :: "string \<Rightarrow> map_state \<Rightarrow> map_state" where
  "link_areas slug st = (if slug \<noteq> [] \<and> (case ms_areas st of None \<Rightarrow> True | Some as \<Rightarrow> as = [])
     then ask (urlFor City None) Areas_Req st else st)"

definition link_adopt :: "map_cfg \<Rightarrow> real \<Rightarrow> string \<Rightarrow> map_state \<Rightarrow> map_state" where
  "link_adopt cfg zoom slug st = refresh cfg zoom True False
     (if slug = [] then st else st\<lparr>ms_slug := Some slug, ms_linked := ms_linked st @ [slug]\<rparr>)"

definition link_fill :: "string \<Rightarrow> bool \<Rightarrow> map_state \<Rightarrow> map_state" where
  "link_fill slug sensor_held st = (if slug \<noteq> [] \<and> slug \<in> set (ms_linked st) \<and> \<not> sensor_held
     then ask (urlFor Sensors (Some slug)) (Fill_Req slug) st else st)"

definition land_areas :: "jsval \<Rightarrow> map_state \<Rightarrow> map_state" where
  "land_areas body st = (if elems (jget body ''areas'') = [] then st else st\<lparr>ms_areas := Some (elems (jget body ''areas''))\<rparr>)"

definition land_fill :: "string \<Rightarrow> jsval \<Rightarrow> map_state \<Rightarrow> map_state" where
  "land_fill slug body st = (if truthy body then st\<lparr>ms_registry := setSensors body (JStr slug) (ms_registry st)\<rparr> else st)"

datatype map_event =
    Move viewport
  | Metric viewport string
  | Adopt string real \<comment> \<open>a click selects an area and refreshes\<close>
  | Show real jsval
  | Take_Slug string \<comment> \<open>a placement (\<open>placement.js\<close>) names the area\<close>
  | Window string real
  | Reload real
  | Reload_Grid viewport
  | Set_Status viewport status
  | Set_Faulty bool
  | Set_Sources viewport "string list"
  | Body nat jsval \<comment> \<open>a marker or list request is answered\<close>
  | Grid real nat hex_body \<comment> \<open>a grid request is answered while the map is at this zoom\<close>
  | Fails nat
  | Paint_Held
  | Locate
  | Locate_Sensor nat
  | Link_Areas string
  | Link_Adopt string real
  | Link_Fill string bool

definition land :: "map_cfg \<Rightarrow> nat \<Rightarrow> jsval \<Rightarrow> map_state \<Rightarrow> map_state" where
  "land cfg i body st = (case map_of (ms_pending st) i of
      Some (_, Marker_Req effective key later) \<Rightarrow> land_markers cfg effective key later body (drop_request i st)
    | Some (_, List_Req key slug) \<Rightarrow> land_list key slug body (drop_request i st)
    | Some (_, Locate_Req) \<Rightarrow> drop_request i st
    | Some (_, Areas_Req) \<Rightarrow> land_areas body (drop_request i st)
    | Some (_, Fill_Req slug) \<Rightarrow> land_fill slug body (drop_request i st)
    | _ \<Rightarrow> st)"

definition land_grid :: "map_cfg \<Rightarrow> real \<Rightarrow> nat \<Rightarrow> hex_body \<Rightarrow> map_state \<Rightarrow> map_state" where
  "land_grid cfg zoom i body st = (case map_of (ms_pending st) i of
      Some (_, Hex_Req url later) \<Rightarrow> land_cells cfg zoom url later body (drop_request i st)
    | _ \<Rightarrow> st)"

definition request_fails :: "map_cfg \<Rightarrow> nat \<Rightarrow> map_state \<Rightarrow> map_state" where
  "request_fails cfg i st = (case map_of (ms_pending st) i of
      Some (_, Marker_Req _ _ _) \<Rightarrow> (drop_request i st)\<lparr>ms_banner := showHint (tt_unavailable (mc_texts cfg)) (ms_banner st)\<rparr>
    | Some (_, List_Req key _) \<Rightarrow> (drop_request i st)\<lparr>ms_list_key := (if ms_list_key st = Some key then None else ms_list_key st)\<rparr>
    | Some _ \<Rightarrow> drop_request i st
    | None \<Rightarrow> st)"

fun map_step :: "map_cfg \<Rightarrow> map_state \<Rightarrow> map_event \<Rightarrow> map_state" where
  "map_step cfg st (Move v) = onMoveEnd cfg v st"
| "map_step cfg st (Metric v m) = onMetricChange cfg v m st"
| "map_step cfg st (Adopt slug zoom) = refresh cfg zoom False False (st\<lparr>ms_slug := Some slug\<rparr>)"
| "map_step cfg st (Show zoom area) = snd (showArea cfg zoom area st)"
| "map_step cfg st (Take_Slug slug) = st\<lparr>ms_slug := Some slug\<rparr>"
| "map_step cfg st (Window w zoom) = reload_markers cfg zoom (st\<lparr>ms_window := w\<rparr>)"
| "map_step cfg st (Reload zoom) = reload_markers cfg zoom st"
| "map_step cfg st (Reload_Grid v) = reload_grid cfg v st"
| "map_step cfg st (Set_Status v s) = on_status cfg v s st"
| "map_step cfg st (Set_Faulty b) = on_faulty cfg b st"
| "map_step cfg st (Set_Sources v src) = on_sources cfg v src st"
| "map_step cfg st (Body i body) = land cfg i body st"
| "map_step cfg st (Grid zoom i body) = land_grid cfg zoom i body st"
| "map_step cfg st (Fails i) = request_fails cfg i st"
| "map_step cfg st Paint_Held = flush st"
| "map_step cfg st Locate = ask locate_url Locate_Req st"
| "map_step cfg st (Locate_Sensor i) = ask (sensor_locate_url i) Locate_Req st"
| "map_step cfg st (Link_Areas slug) = link_areas slug st"
| "map_step cfg st (Link_Adopt slug zoom) = link_adopt cfg zoom slug st"
| "map_step cfg st (Link_Fill slug held) = link_fill slug held st"

definition map_run :: "map_cfg \<Rightarrow> map_event list \<Rightarrow> map_state \<Rightarrow> map_state" where
  "map_run cfg es st = foldl (map_step cfg) st es"

section \<open>What the steps leave alone\<close>

lemma paint_or_hold_same [simp]:
  "ms_requests (paint_or_hold l fs st) = ms_requests st" "ms_slug (paint_or_hold l fs st) = ms_slug st"
  "ms_pending (paint_or_hold l fs st) = ms_pending st" "ms_next (paint_or_hold l fs st) = ms_next st"
  "ms_window (paint_or_hold l fs st) = ms_window st" "ms_hex_url (paint_or_hold l fs st) = ms_hex_url st"
  "ms_hex_body (paint_or_hold l fs st) = ms_hex_body st" "ms_tier (paint_or_hold l fs st) = ms_tier st"
  "ms_linked (paint_or_hold l fs st) = ms_linked st"
  "ms_sensor_body (paint_or_hold l fs st) = ms_sensor_body st" "ms_registry (paint_or_hold l fs st) = ms_registry st"
  by (simp_all add: paint_or_hold_def)

lemma draw_cells_same [simp]:
  "ms_requests (draw_cells cfg z l st) = ms_requests st" "ms_slug (draw_cells cfg z l st) = ms_slug st"
  "ms_pending (draw_cells cfg z l st) = ms_pending st" "ms_next (draw_cells cfg z l st) = ms_next st"
  "ms_window (draw_cells cfg z l st) = ms_window st" "ms_hex_url (draw_cells cfg z l st) = ms_hex_url st"
  "ms_hex_body (draw_cells cfg z l st) = ms_hex_body st" "ms_tier (draw_cells cfg z l st) = ms_tier st"
  "ms_sensor_body (draw_cells cfg z l st) = ms_sensor_body st" "ms_linked (draw_cells cfg z l st) = ms_linked st"
  by (simp_all add: draw_cells_def Let_def)

lemma drop_request_same [simp]:
  "ms_requests (drop_request i st) = ms_requests st" "ms_slug (drop_request i st) = ms_slug st"
  "ms_next (drop_request i st) = ms_next st" "ms_window (drop_request i st) = ms_window st"
  "ms_hex_url (drop_request i st) = ms_hex_url st" "ms_hex_body (drop_request i st) = ms_hex_body st"
  "ms_tier (drop_request i st) = ms_tier st" "ms_sensor_body (drop_request i st) = ms_sensor_body st"
  "ms_linked (drop_request i st) = ms_linked st"
  "ms_pending (drop_request i st) = filter (\<lambda>p. fst p \<noteq> i) (ms_pending st)"
  by (simp_all add: drop_request_def)

lemma repaint_same [simp]:
  "ms_requests (repaintSensors cfg st) = ms_requests st" "ms_slug (repaintSensors cfg st) = ms_slug st"
  "ms_pending (repaintSensors cfg st) = ms_pending st" "ms_next (repaintSensors cfg st) = ms_next st"
  "ms_window (repaintSensors cfg st) = ms_window st" "ms_hex_url (repaintSensors cfg st) = ms_hex_url st"
  "ms_hex_body (repaintSensors cfg st) = ms_hex_body st" "ms_tier (repaintSensors cfg st) = ms_tier st"
  "ms_sensor_body (repaintSensors cfg st) = ms_sensor_body st" "ms_linked (repaintSensors cfg st) = ms_linked st"
  by (simp_all add: repaintSensors_def split: option.splits sum.splits)

lemma paint_held_same:
  "ms_requests (foldl paint_held st hs) = ms_requests st \<and> ms_slug (foldl paint_held st hs) = ms_slug st
   \<and> ms_pending (foldl paint_held st hs) = ms_pending st \<and> ms_next (foldl paint_held st hs) = ms_next st
   \<and> ms_window (foldl paint_held st hs) = ms_window st \<and> ms_hex_url (foldl paint_held st hs) = ms_hex_url st
   \<and> ms_hex_body (foldl paint_held st hs) = ms_hex_body st \<and> ms_tier (foldl paint_held st hs) = ms_tier st
   \<and> ms_sensor_body (foldl paint_held st hs) = ms_sensor_body st \<and> ms_linked (foldl paint_held st hs) = ms_linked st"
  by (induction hs arbitrary: st) (auto simp: paint_held_def split: held_paint.splits)

lemma flush_same [simp]:
  "ms_requests (flush st) = ms_requests st" "ms_slug (flush st) = ms_slug st"
  "ms_pending (flush st) = ms_pending st" "ms_next (flush st) = ms_next st"
  "ms_window (flush st) = ms_window st" "ms_hex_url (flush st) = ms_hex_url st"
  "ms_hex_body (flush st) = ms_hex_body st" "ms_tier (flush st) = ms_tier st"
  "ms_sensor_body (flush st) = ms_sensor_body st" "ms_linked (flush st) = ms_linked st"
  using paint_held_same [of st "ms_held st"] by (simp_all add: flush_def)

lemma effective_tier_cases:
  "effective_tier cfg zoom st \<le> tierFor zoom (mc_zoom_city cfg) (mc_zoom_sensor cfg)"
  "effective_tier cfg zoom st = Sensors \<Longrightarrow> has_slug (ms_slug st)"
  by (auto simp: effective_tier_def Let_def less_eq_tier_def split: if_splits)

lemma tierFor_mono: "zoom \<le> zoom' \<Longrightarrow> zc \<le> zs \<Longrightarrow> tierFor zoom zc zs \<le> tierFor zoom' zc zs"
  by (simp add: tierFor_def less_eq_tier_def)

lemma urlFor_slug: "tr = Sensors \<longrightarrow> has_slug slug \<Longrightarrow> urlFor tr slug = urlFor tr (Some (slug_key slug))"
  by (cases tr) (auto simp: urlFor_def has_slug_def slug_key_def split: option.splits)

section \<open>Which addresses are asked for\<close>

definition area_url :: "string \<Rightarrow> string \<Rightarrow> string" where
  "area_url slug w = withWindow (urlFor Sensors (Some slug)) w"

text \<open>An aggregate, a grid, a place, or the sensors of an area among \<open>slugs\<close>.\<close>

definition request_ok :: "string set \<Rightarrow> string \<Rightarrow> bool" where
  "request_ok slugs u \<longleftrightarrow> (\<exists>w tr. tr \<noteq> Sensors \<and> u = withWindow (urlFor tr None) w)
     \<or> (\<exists>v st. u = hex_url v st) \<or> u = locate_url \<or> (\<exists>i. u = sensor_locate_url i) \<or> (\<exists>slug w. slug \<in> slugs \<and> slug \<noteq> [] \<and> u = area_url slug w)"

definition asks_inv :: "string set \<Rightarrow> map_state \<Rightarrow> bool" where
  "asks_inv slugs st \<longleftrightarrow> (\<forall>u \<in> set (ms_requests st). request_ok slugs u)
     \<and> (has_slug (ms_slug st) \<longrightarrow> slug_key (ms_slug st) \<in> slugs) \<and> set (ms_linked st) \<subseteq> slugs"

lemma request_ok_mono: "request_ok A u \<Longrightarrow> A \<subseteq> B \<Longrightarrow> request_ok B u"
  unfolding request_ok_def by blast

lemma asks_inv_mono: "asks_inv A st \<Longrightarrow> A \<subseteq> B \<Longrightarrow> asks_inv B st"
  unfolding asks_inv_def using request_ok_mono by blast

lemma asks_inv_fields [simp]:
  "asks_inv A (st\<lparr>ms_list_key := x0\<rparr>) = asks_inv A st"
  "asks_inv A (st\<lparr>ms_fell_back := x1\<rparr>) = asks_inv A st"
  "asks_inv A (st\<lparr>ms_banner := x2\<rparr>) = asks_inv A st"
  "asks_inv A (st\<lparr>ms_caption_tier := x3\<rparr>) = asks_inv A st"
  "asks_inv A (st\<lparr>ms_handover_tier := x4\<rparr>) = asks_inv A st"
  "asks_inv A (st\<lparr>ms_tier := x5\<rparr>) = asks_inv A st"
  "asks_inv A (st\<lparr>ms_registry := x6\<rparr>) = asks_inv A st"
  "asks_inv A (st\<lparr>ms_sensor_body := x7\<rparr>) = asks_inv A st"
  "asks_inv A (st\<lparr>ms_areas := x8\<rparr>) = asks_inv A st"
  "asks_inv A (st\<lparr>ms_hex_url := x9\<rparr>) = asks_inv A st"
  "asks_inv A (st\<lparr>ms_hex_body := x10\<rparr>) = asks_inv A st"
  "asks_inv A (st\<lparr>ms_hex_abort := x11\<rparr>) = asks_inv A st"
  "asks_inv A (st\<lparr>ms_status := x12\<rparr>) = asks_inv A st"
  "asks_inv A (st\<lparr>ms_show_faulty := x13\<rparr>) = asks_inv A st"
  "asks_inv A (st\<lparr>ms_sources := x14\<rparr>) = asks_inv A st"
  "asks_inv A (st\<lparr>ms_window := x15\<rparr>) = asks_inv A st"
  "asks_inv A (st\<lparr>ms_metric := x16\<rparr>) = asks_inv A st"
  "asks_inv A (st\<lparr>ms_paint := x17\<rparr>) = asks_inv A st"
  "asks_inv A (st\<lparr>ms_note := x18\<rparr>) = asks_inv A st"
  "asks_inv A (st\<lparr>ms_cells := x19\<rparr>) = asks_inv A st"
  "asks_inv A (st\<lparr>ms_markers := x20\<rparr>) = asks_inv A st"
  "asks_inv A (st\<lparr>ms_held := x21\<rparr>) = asks_inv A st"
  "asks_inv A (st\<lparr>ms_pending := x22\<rparr>) = asks_inv A st"
  "asks_inv A (st\<lparr>ms_next := x23\<rparr>) = asks_inv A st"
  by (simp_all add: asks_inv_def)

lemma asks_inv_drawing [simp]:
  "asks_inv A (flush st) = asks_inv A st" "asks_inv A (repaintSensors cfg st) = asks_inv A st"
  "asks_inv A (draw_cells cfg z l st) = asks_inv A st" "asks_inv A (drop_request i st) = asks_inv A st"
  "asks_inv A (paint_or_hold l fs st) = asks_inv A st"
  by (simp_all add: asks_inv_def)

lemma asks_inv_ask: "asks_inv A st \<Longrightarrow> request_ok A u \<Longrightarrow> asks_inv A (ask u r st)"
  by (simp add: asks_inv_def ask_def)

lemma request_ok_area: "asks_inv A st \<Longrightarrow> has_slug (ms_slug st) \<Longrightarrow> request_ok A (withWindow (urlFor Sensors (ms_slug st)) w)"
  using urlFor_slug [of Sensors "ms_slug st"]
  by (auto simp: request_ok_def asks_inv_def area_url_def has_slug_def)

lemma asks_inv_list: "asks_inv A st \<Longrightarrow> asks_inv A (loadAreaSensors cfg force st)"
  using request_ok_area [of A st]
  by (simp add: loadAreaSensors_def Let_def asks_inv_ask)

lemma loadAreaSensors_slug [simp]: "ms_slug (loadAreaSensors cfg force st) = ms_slug st"
  by (simp add: loadAreaSensors_def Let_def ask_def)

lemma asks_inv_refresh:
  assumes "asks_inv A st"
  shows "asks_inv A (refresh cfg zoom force later st)"
proof -
  let ?e = "effective_tier cfg zoom st"
  have ok: "request_ok A (withWindow (urlFor ?e (ms_slug st)) w)" for w
  proof (cases "?e = Sensors")
    case True
    then show ?thesis using request_ok_area [OF assms] effective_tier_cases(2) by metis
  next
    case False
    then have "urlFor ?e (ms_slug st) = urlFor ?e None" by (cases ?e) (simp_all add: urlFor_def)
    with False show ?thesis unfolding request_ok_def by metis
  qed
  show ?thesis
    using assms ok by (simp add: refresh_def Let_def asks_inv_ask asks_inv_list)
qed

lemma asks_inv_hexes: "asks_inv A st \<Longrightarrow> asks_inv A (refreshHexes cfg v later st)"
proof -
  assume i: "asks_inv A st"
  have u: "request_ok A (hex_url v st)" unfolding request_ok_def by blast
  have d: "asks_inv A (case ms_hex_abort st of Some i \<Rightarrow> drop_request i st | None \<Rightarrow> st)"
    using i by (auto simp: drop_request_def split: option.splits)
  show ?thesis
    using i u d by (simp add: refreshHexes_def Let_def asks_inv_ask)
qed

fun event_slugs :: "map_event \<Rightarrow> string set" where
  "event_slugs (Adopt slug _) = {slug}"
| "event_slugs (Take_Slug slug) = {slug}"
| "event_slugs (Link_Adopt slug _) = {slug}"
| "event_slugs (Show _ area) = set_option (as_str (jget area ''slug''))"
| "event_slugs _ = {}"

lemma withWindow_live: "withWindow u LIVE_WINDOW = u"
  by (simp add: withWindow_def LIVE_WINDOW_def)

lemma asks_inv_step:
  assumes "asks_inv A st"
  shows "asks_inv (A \<union> event_slugs e) (map_step cfg st e)"
proof -
  have take: "asks_inv (insert slug A) (st\<lparr>ms_slug := Some slug\<rparr>)" for slug
    using asks_inv_mono [OF assms, of "insert slug A"] by (auto simp: asks_inv_def slug_key_def)
  show ?thesis
proof (cases e)
  case (Show zoom area)
  show ?thesis
  proof (cases "jget area ''slug''")
    case (JStr slug)
    with Show take [of slug] show ?thesis by (simp add: showArea_def asks_inv_refresh)
  qed (use Show assms in \<open>simp_all add: showArea_def\<close>)
next
  case (Body i body)
  have "asks_inv A (land cfg i body st)"
    using assms by (auto simp: land_def land_markers_def land_list_def land_areas_def land_fill_def asks_inv_def Let_def split: option.splits request.splits sum.splits)
  with Body show ?thesis by simp
next
  case (Grid zoom i body)
  have "asks_inv A (land_grid cfg zoom i body st)"
    using assms by (auto simp: land_grid_def land_cells_def asks_inv_def split: option.splits request.splits)
  with Grid show ?thesis by simp
next
  case (Fails i)
  have "asks_inv A (request_fails cfg i st)"
    using assms by (auto simp: request_fails_def asks_inv_def split: option.splits request.splits)
  with Fails show ?thesis by simp
next
  case (Locate_Sensor i)
  have "request_ok A (sensor_locate_url i)" unfolding request_ok_def by blast
  with Locate_Sensor assms show ?thesis by (simp add: asks_inv_ask)
next
  case (Link_Areas slug)
  have "request_ok A (urlFor City None)"
    unfolding request_ok_def using withWindow_live by (metis tier.distinct(5))
  with Link_Areas assms show ?thesis by (simp add: link_areas_def asks_inv_ask)
next
  case (Link_Adopt slug zoom)
  have "asks_inv (insert slug A) (if slug = [] then st else st\<lparr>ms_slug := Some slug, ms_linked := ms_linked st @ [slug]\<rparr>)"
    using take [of slug] asks_inv_mono [OF assms, of "insert slug A"] by (auto simp: asks_inv_def)
  with Link_Adopt show ?thesis by (simp add: link_adopt_def asks_inv_refresh)
next
  case (Link_Fill slug held)
  have "request_ok A (urlFor Sensors (Some slug))" if "slug \<in> set (ms_linked st)" "slug \<noteq> []"
    using that assms withWindow_live unfolding request_ok_def area_url_def asks_inv_def by (metis subsetD)
  with Link_Fill assms show ?thesis by (auto simp: link_fill_def intro: asks_inv_ask)
qed (simp_all add: assms asks_inv_ask request_ok_def [of A locate_url] onMoveEnd_def onMetricChange_def applyMetricColours_def reload_markers_def reload_grid_def
      on_status_def on_faulty_def on_sources_def Let_def asks_inv_hexes asks_inv_refresh take)
qed

lemma asks_inv_run: "asks_inv A st \<Longrightarrow> asks_inv (A \<union> (\<Union>e \<in> set es. event_slugs e)) (map_run cfg es st)"
proof (induction es arbitrary: A st)
  case (Cons e es)
  from Cons.IH [OF asks_inv_step [OF Cons.prems, of e cfg]] show ?case by (simp add: map_run_def Un_assoc)
qed (simp add: map_run_def)

section \<open>What is drawn is what was answered\<close>

text \<open>The dedup key names the tier, the slug and the window, and is read back from the end.\<close>

definition key_of :: "tier \<Rightarrow> string \<Rightarrow> string \<Rightarrow> string" where
  "key_of tr slug w = tier_name tr @ '':'' @ slug @ '':'' @ w"

lemma marker_key_of: "marker_key tr st = key_of tr (slug_key (ms_slug st)) (ms_window st)"
  by (simp add: marker_key_def key_of_def)

lemma window_no_colon: "knownWindow w \<Longrightarrow> CHR '':'' \<notin> set w"
  by (auto simp: knownWindow_def WINDOWS_def LIVE_WINDOW_def)

lemma last_field: "CHR '':'' \<notin> set w \<Longrightarrow> takeWhile (\<lambda>c. c \<noteq> CHR '':'') (rev (x @ CHR '':'' # w)) = rev w"
  by (simp add: takeWhile_append)

lemma key_of_inject:
  assumes "key_of tr slug w = key_of tr' slug' w'" "knownWindow w" "knownWindow w'"
  shows "tr = tr' \<and> slug = slug' \<and> w = w'"
proof -
  have first: "takeWhile (\<lambda>c. c \<noteq> CHR '':'') (key_of t s v) = tier_name t" for t s v
    by (cases t) (simp_all add: key_of_def)
  have tr: "tr = tr'" using first [of tr slug w] first [of tr' slug' w'] assms(1) by (cases tr; cases tr') auto
  have "takeWhile (\<lambda>c. c \<noteq> CHR '':'') (rev (key_of t s v)) = rev v" if "knownWindow v" for t s v
    using last_field [OF window_no_colon [OF that], of "tier_name t @ '':'' @ s"] by (simp add: key_of_def)
  from this [OF assms(2), of tr slug] this [OF assms(3), of tr' slug'] assms(1) have "rev w = rev w'" by simp
  with tr assms(1) show ?thesis by (simp add: key_of_def)
qed

definition req_ok :: "string \<times> request \<Rightarrow> bool" where
  "req_ok p = (case p of (u, r) \<Rightarrow> (case r of
      Marker_Req tr key _ \<Rightarrow> (\<exists>slug w. (tr = Sensors \<longrightarrow> slug \<noteq> []) \<and> knownWindow w
         \<and> u = withWindow (urlFor tr (Some slug)) w \<and> key = key_of tr slug w)
    | Hex_Req v _ \<Rightarrow> v = u
    | _ \<Rightarrow> True))"

text \<open>The sensor body held is the answer for the address the dedup key names.\<close>

definition labelled :: "(string \<Rightarrow> jsval) \<Rightarrow> string option \<Rightarrow> jsval option \<Rightarrow> bool" where
  "labelled ans key body = (case key of None \<Rightarrow> body = None
     | Some k \<Rightarrow> (\<exists>tr slug w. k = key_of tr slug w \<and> knownWindow w \<and>
            body = (if tr = Sensors then Some (ans (area_url slug w)) else None)))"

text \<open>\<open>ans\<close> and \<open>grid\<close> are what the server answers for a URL.\<close>

definition drawn_inv :: "(string \<Rightarrow> jsval) \<Rightarrow> (string \<Rightarrow> hex_body) \<Rightarrow> map_state \<Rightarrow> bool" where
  "drawn_inv ans grid st \<longleftrightarrow> knownWindow (ms_window st)
     \<and> (\<forall>p \<in> set (ms_pending st). req_ok (snd p))
     \<and> ms_hex_body st = map_option grid (ms_hex_url st)
     \<and> labelled ans (ms_tier st) (ms_sensor_body st)"

lemma drawn_inv_fields [simp]:
  "drawn_inv a g (st\<lparr>ms_list_key := x1\<rparr>) = drawn_inv a g st" "drawn_inv a g (st\<lparr>ms_fell_back := x2\<rparr>) = drawn_inv a g st"
  "drawn_inv a g (st\<lparr>ms_banner := x3\<rparr>) = drawn_inv a g st" "drawn_inv a g (st\<lparr>ms_caption_tier := x4\<rparr>) = drawn_inv a g st"
  "drawn_inv a g (st\<lparr>ms_handover_tier := x5\<rparr>) = drawn_inv a g st" "drawn_inv a g (st\<lparr>ms_registry := x6\<rparr>) = drawn_inv a g st"
  "drawn_inv a g (st\<lparr>ms_areas := x7\<rparr>) = drawn_inv a g st" "drawn_inv a g (st\<lparr>ms_hex_abort := x8\<rparr>) = drawn_inv a g st"
  "drawn_inv a g (st\<lparr>ms_status := x9\<rparr>) = drawn_inv a g st" "drawn_inv a g (st\<lparr>ms_show_faulty := x10\<rparr>) = drawn_inv a g st"
  "drawn_inv a g (st\<lparr>ms_sources := x11\<rparr>) = drawn_inv a g st" "drawn_inv a g (st\<lparr>ms_metric := x12\<rparr>) = drawn_inv a g st"
  "drawn_inv a g (st\<lparr>ms_paint := x13\<rparr>) = drawn_inv a g st" "drawn_inv a g (st\<lparr>ms_note := x14\<rparr>) = drawn_inv a g st"
  "drawn_inv a g (st\<lparr>ms_slug := x15\<rparr>) = drawn_inv a g st" "drawn_inv a g (st\<lparr>ms_linked := x17\<rparr>) = drawn_inv a g st" "drawn_inv a g (st\<lparr>ms_next := x16\<rparr>) = drawn_inv a g st"
  "drawn_inv a g (flush st) = drawn_inv a g st" "drawn_inv a g (repaintSensors cfg st) = drawn_inv a g st"
  "drawn_inv a g (draw_cells cfg z l st) = drawn_inv a g st" "drawn_inv a g (paint_or_hold l fs st) = drawn_inv a g st"
  by (simp_all add: drawn_inv_def)

lemma drawn_inv_drop: "drawn_inv a g st \<Longrightarrow> drawn_inv a g (drop_request i st)"
  by (auto simp: drawn_inv_def)

lemma drawn_inv_ask: "drawn_inv a g st \<Longrightarrow> req_ok (u, r) \<Longrightarrow> drawn_inv a g (ask u r st)"
  by (auto simp: drawn_inv_def ask_def)

lemma drawn_inv_list: "drawn_inv a g st \<Longrightarrow> drawn_inv a g (loadAreaSensors cfg force st)"
  by (simp add: loadAreaSensors_def Let_def drawn_inv_ask req_ok_def)

lemma drawn_inv_refresh:
  assumes "drawn_inv a g st"
  shows "drawn_inv a g (refresh cfg zoom force later st)"
proof -
  let ?e = "effective_tier cfg zoom st"
  have w: "knownWindow (ms_window st)" using assms by (simp add: drawn_inv_def)
  have s: "?e = Sensors \<longrightarrow> has_slug (ms_slug st)" using effective_tier_cases(2) by blast
  have "req_ok (withWindow (urlFor ?e (ms_slug st)) (ms_window st), Marker_Req ?e (marker_key ?e st) later)"
    unfolding req_ok_def prod.case request.case
    by (rule exI [of _ "slug_key (ms_slug st)"], rule exI [of _ "ms_window st"])
      (use w s urlFor_slug [OF s] in \<open>simp add: marker_key_of has_slug_def\<close>)
  with assms show ?thesis by (simp add: refresh_def Let_def drawn_inv_ask drawn_inv_list)
qed

lemma drawn_inv_hexes: "drawn_inv a g st \<Longrightarrow> drawn_inv a g (refreshHexes cfg v later st)"
  by (auto simp: refreshHexes_def Let_def req_ok_def drawn_inv_drop intro!: drawn_inv_ask split: option.splits)

text \<open>The answers of an honest server, to windows the menu offers.\<close>

fun honest :: "(string \<Rightarrow> jsval) \<Rightarrow> (string \<Rightarrow> hex_body) \<Rightarrow> map_state \<Rightarrow> map_event \<Rightarrow> bool" where
  "honest ans grid st (Body i body) = (case map_of (ms_pending st) i of Some (u, _) \<Rightarrow> body = ans u | None \<Rightarrow> True)"
| "honest ans grid st (Grid _ i body) = (case map_of (ms_pending st) i of Some (u, _) \<Rightarrow> body = grid u | None \<Rightarrow> True)"
| "honest ans grid st (Window w _) = knownWindow w"
| "honest ans grid st _ = True"

fun honest_run :: "(string \<Rightarrow> jsval) \<Rightarrow> (string \<Rightarrow> hex_body) \<Rightarrow> map_cfg \<Rightarrow> map_event list \<Rightarrow> map_state \<Rightarrow> bool" where
  "honest_run ans grid cfg [] st = True"
| "honest_run ans grid cfg (e # es) st = (honest ans grid st e \<and> honest_run ans grid cfg es (map_step cfg st e))"

lemma drawn_inv_markers:
  assumes "drawn_inv ans grid st" "req_ok (u, Marker_Req tr key later)"
  shows "drawn_inv ans grid (land_markers cfg tr key later (ans u) st)"
proof -
  obtain slug w where k: "knownWindow w" "u = withWindow (urlFor tr (Some slug)) w" "key = key_of tr slug w"
    using assms(2) by (auto simp: req_ok_def)
  have "drawn_inv ans grid (st\<lparr>ms_tier := Some key, ms_sensor_body := (if tr = Sensors then Some (ans (area_url slug w)) else None)\<rparr>)"
    using assms(1) k(1,3) by (auto simp: drawn_inv_def labelled_def)
  then show ?thesis
    using k(2) by (auto simp: land_markers_def Let_def area_url_def drawn_inv_def split: sum.splits)
qed

lemma drawn_inv_step:
  assumes "drawn_inv ans grid st" "honest ans grid st e"
  shows "drawn_inv ans grid (map_step cfg st e)"
proof -
  have pend: "req_ok (u, r)" if "map_of (ms_pending st) i = Some (u, r)" for i u r
    using assms(1) map_of_SomeD [OF that] by (force simp: drawn_inv_def)
  show ?thesis
  proof (cases e)
    case (Body i body)
    show ?thesis
    proof (cases "map_of (ms_pending st) i")
      case (Some p)
      obtain u r where p: "p = (u, r)" by (cases p)
      show ?thesis
      proof (cases r)
        case (Marker_Req tr key later)
        with drawn_inv_markers [OF drawn_inv_drop [OF assms(1)] pend [of i u r, unfolded Marker_Req]] Some p Body assms(2)
        show ?thesis by (simp add: land_def)
      qed (use Some p Body assms in \<open>simp_all add: land_def land_list_def land_areas_def land_fill_def drawn_inv_drop\<close>)
    qed (use Body assms in \<open>simp add: land_def\<close>)
  next
    case (Grid zoom i body)
    show ?thesis
    proof (cases "map_of (ms_pending st) i")
      case (Some p)
      obtain u r where p: "p = (u, r)" by (cases p)
      show ?thesis
      proof (cases r)
        case (Hex_Req v later)
        with pend [of i u r] Some p have "v = u" by (simp add: req_ok_def)
        with drawn_inv_drop [OF assms(1), of i] Some p Grid assms(2) Hex_Req show ?thesis
          by (simp add: land_grid_def land_cells_def) (simp add: drawn_inv_def)
      qed (use Some p Grid assms in \<open>simp_all add: land_grid_def\<close>)
    qed (use Grid assms in \<open>simp add: land_grid_def\<close>)
  next
    case (Fails i)
    with assms(1) show ?thesis
      by (auto simp: request_fails_def drawn_inv_drop split: option.splits request.splits)
  next
    case (Show zoom area)
    with assms(1) show ?thesis by (cases "jget area ''slug''") (simp_all add: showArea_def drawn_inv_refresh)
  next
    case (Window w zoom)
    have "drawn_inv ans grid (st\<lparr>ms_window := w\<rparr>)" using assms Window by (simp add: drawn_inv_def)
    with Window show ?thesis by (simp add: reload_markers_def drawn_inv_refresh)
  qed (use assms(1) in \<open>simp_all add: onMoveEnd_def onMetricChange_def applyMetricColours_def reload_markers_def
      reload_grid_def on_status_def on_faulty_def on_sources_def link_areas_def link_adopt_def link_fill_def
      Let_def drawn_inv_hexes drawn_inv_refresh drawn_inv_ask req_ok_def\<close>)
qed

lemma drawn_inv_run:
  "drawn_inv ans grid st \<Longrightarrow> honest_run ans grid cfg es st \<Longrightarrow> drawn_inv ans grid (map_run cfg es st)"
  by (induction es arbitrary: st) (simp_all add: map_run_def drawn_inv_step)

lemma map_of_filter_neq: "k \<noteq> i \<Longrightarrow> map_of (filter (\<lambda>p. fst p \<noteq> i) m) k = map_of m k"
  by (induction m) auto

section \<open>Properties\<close>

definition init_map :: "string option \<Rightarrow> string \<Rightarrow> string \<Rightarrow> map_state" where
  "init_map slug w metric = \<lparr>ms_slug = slug, ms_window = w, ms_scales = None, ms_metric = metric, ms_tier = None,
     ms_fell_back = False, ms_areas = None, ms_sensor_body = None, ms_list_key = None, ms_hex_url = None,
     ms_hex_body = None, ms_hex_abort = None, ms_registry = init_registry, ms_status = Active,
     ms_show_faulty = False, ms_sources = SOURCES, ms_caption_tier = Country, ms_handover_tier = Country,
     ms_banner = \<lparr>bn_sticky = [], bn_text = []\<rparr>, ms_note = [], ms_paint = Null_Case None None,
     ms_markers = None, ms_cells = None, ms_held = [], ms_pending = [], ms_next = 0, ms_requests = [], ms_linked = []\<rparr>"

text \<open>C6. Enumeration is bounded by deliberate acts: of the requests of the map's loaders and of the
  placements (refresh, grid, area list, locates and the deep link's own), whatever is panned,
  zoomed, filtered, reloaded, linked to and answered in whatever order, each is for an aggregate,
  for a grid, for where the visitor or a sensor is, or for the sensors of an area that the page's
  address names or that a click, the finder or a placement adopted. The loaders of the scales, the
  overlays, the replay and the charts are not part of this.\<close>

theorem area_requests_only_adopted:
  assumes "u \<in> set (ms_requests (map_run cfg es (init_map slug w metric)))"
  shows "(\<exists>v tr. tr \<noteq> Sensors \<and> u = withWindow (urlFor tr None) v) \<or> (\<exists>v st. u = hex_url v st)
    \<or> u = locate_url \<or> (\<exists>i. u = sensor_locate_url i)
    \<or> (\<exists>s v. s \<noteq> [] \<and> (slug = Some s \<or> (\<exists>e \<in> set es. s \<in> event_slugs e)) \<and> u = area_url s v)"
proof -
  have "asks_inv (set_option slug) (init_map slug w metric)"
    by (auto simp: asks_inv_def init_map_def has_slug_def slug_key_def split: option.splits)
  from asks_inv_run [OF this] assms
  have "request_ok (set_option slug \<union> (\<Union>e \<in> set es. event_slugs e)) u" unfolding asks_inv_def by blast
  then show ?thesis unfolding request_ok_def by (auto simp: elem_set)
qed

definition small_cfg :: map_cfg where
  "small_cfg = \<lparr>mc_zoom_city = 8, mc_zoom_sensor = 11, mc_slug = None, mc_nodata = None, mc_unscaled = None,
     mc_texts = \<lparr>tt_hint = [], tt_no_sources = [], tt_unavailable = [], tt_unscaled = [], tt_not_measured = []\<rparr>\<rparr>"

lemma area_requests_only_adopted_witness:
  "\<exists>u s v. u \<in> set (ms_requests (map_run small_cfg [Locate_Sensor 7, Link_Adopt ''sofia'' 6, Link_Fill ''varna'' False, Link_Fill ''sofia'' False]
        (init_map None LIVE_WINDOW ''P2''))) \<and> u = urlFor Sensors (Some ''sofia'')
     \<and> (u = area_url s v \<or> u = withWindow (urlFor City None) v \<or> u = withWindow (urlFor Country None) v
        \<or> u = locate_url \<or> (\<exists>i. u = sensor_locate_url i) \<or> (\<exists>p st. u = hex_url p st))"
proof -
  let ?st = "map_run small_cfg [Locate_Sensor 7, Link_Adopt ''sofia'' 6, Link_Fill ''varna'' False, Link_Fill ''sofia'' False]
    (init_map None LIVE_WINDOW ''P2'')"
  let ?u = "urlFor Sensors (Some ''sofia'')"
  have u: "?u \<in> set (ms_requests ?st)"
    by (simp add: map_run_def link_adopt_def link_fill_def refresh_def init_map_def ask_def Let_def small_cfg_def
        loadAreaSensors_def has_slug_def slug_key_def)
  from area_requests_only_adopted [OF u] consider v tr where "tr \<noteq> Sensors" "?u = withWindow (urlFor tr None) v"
    | v st where "?u = hex_url v st" | "?u = locate_url" | i where "?u = sensor_locate_url i" | s v where "?u = area_url s v" by blast
  then show ?thesis
  proof cases
    case (1 v tr)
    then show ?thesis using u by (cases tr) blast+
  qed (use u in blast)+
qed

text \<open>Skipping is sound: when an unforced refresh finds its key unchanged, or the grid its address,
  what is held is the server's answer to exactly the request that was skipped, whatever
  interleaving of moves, picks, filters, failures and late answers came before.\<close>

theorem skipped_request_already_drawn:
  assumes "honest_run ans grid cfg es (init_map slug w metric)" "knownWindow w"
    "st = map_run cfg es (init_map slug w metric)"
  shows "(ms_tier st = Some (marker_key (effective_tier cfg zoom st) st) \<longrightarrow>
      ms_sensor_body st = (if effective_tier cfg zoom st = Sensors
        then Some (ans (withWindow (urlFor Sensors (ms_slug st)) (ms_window st))) else None))
    \<and> (ms_hex_url st = Some (hex_url v st) \<longrightarrow> ms_hex_body st = Some (grid (hex_url v st)))"
proof -
  have "drawn_inv ans grid (init_map slug w metric)"
    using assms(2) by (simp add: drawn_inv_def init_map_def labelled_def)
  from drawn_inv_run [OF this assms(1)] have i: "drawn_inv ans grid st" by (simp add: assms(3))
  let ?e = "effective_tier cfg zoom st"
  have "ms_sensor_body st = (if ?e = Sensors then Some (ans (withWindow (urlFor Sensors (ms_slug st)) (ms_window st))) else None)"
    if k: "ms_tier st = Some (marker_key ?e st)"
  proof -
    from i k obtain tr sl v where t: "key_of ?e (slug_key (ms_slug st)) (ms_window st) = key_of tr sl v" "knownWindow v"
      "ms_sensor_body st = (if tr = Sensors then Some (ans (area_url sl v)) else None)"
      by (auto simp: drawn_inv_def labelled_def marker_key_of)
    have "knownWindow (ms_window st)" using i by (simp add: drawn_inv_def)
    from key_of_inject [OF t(1) this t(2)] t(3) effective_tier_cases(2) [of cfg zoom st] urlFor_slug [of ?e "ms_slug st"]
    show ?thesis by (auto simp: area_url_def)
  qed
  with i show ?thesis by (simp add: drawn_inv_def)
qed

definition wide_view :: viewport where
  "wide_view = \<lparr>vp_zoom = 6, vp_bounds = None, vp_width = None\<rparr>"

theorem skipped_request_already_drawn_witness:
  "ms_hex_body (map_run small_cfg [Reload_Grid wide_view, Grid 6 0 \<lparr>resolution_km = jreal 5, hexes = []\<rparr>]
     (init_map None LIVE_WINDOW ''P2'')) = Some \<lparr>resolution_km = jreal 5, hexes = []\<rparr>"
proof -
  let ?b = "\<lparr>resolution_km = jreal 5, hexes = []\<rparr>" and ?st = "init_map None LIVE_WINDOW ''P2''"
  let ?es = "[Reload_Grid wide_view, Grid 6 0 ?b]"
  have u: "hex_url wide_view st = hex_url wide_view ?st" if "ms_window st = LIVE_WINDOW" for st
    using that by (simp add: hex_url_def init_map_def)
  have "honest_run (\<lambda>_. JNull) (\<lambda>_. ?b) small_cfg ?es ?st"
    by (simp add: reload_grid_def refreshHexes_def Let_def init_map_def ask_def split: option.splits)
  note p = skipped_request_already_drawn [OF this _ refl, where v = wide_view]
  have "ms_window (map_run small_cfg ?es ?st) = LIVE_WINDOW"
    "ms_hex_url (map_run small_cfg ?es ?st) = Some (hex_url wide_view ?st)"
    by (simp_all add: map_run_def reload_grid_def refreshHexes_def Let_def init_map_def ask_def land_grid_def land_cells_def)
  with p u show ?thesis by (simp add: knownWindow_def)
qed

text \<open>A late answer wins: when a second area is picked before the first has answered, and the first
  answers last, the registry holds the first area's sensors under the second area's name, and
  the map draws the first area's sensors, until the next pan asks again.\<close>

theorem late_area_answer_wins:
  assumes "mc_zoom_sensor cfg \<le> zoom" "mc_zoom_city cfg \<le> mc_zoom_sensor cfg" "a \<noteq> []" "b \<noteq> []" "a \<noteq> b"
    "st = map_run cfg [Adopt a zoom, Adopt b zoom, Body 1 second, Body 0 first] (init_map None w metric)"
  shows "ms_slug st = Some b \<and> reg_body (ms_registry st) = first \<and> reg_area (ms_registry st) = JStr b
    \<and> ms_sensor_body st = Some first \<and> ms_tier st \<noteq> Some (marker_key Sensors st)"
proof -
  have tr: "tierFor zoom (mc_zoom_city cfg) (mc_zoom_sensor cfg) = Sensors" using assms(1,2) by (simp add: tierFor_def)
  have eff: "effective_tier cfg zoom s = Sensors" if "ms_slug s = Some c" "c \<noteq> []" for s c
    using that tr by (simp add: effective_tier_def has_slug_def slug_key_def)
  define s1 where "s1 = map_step cfg (init_map None w metric) (Adopt a zoom)"
  have s1: "ms_slug s1 = Some a" "ms_tier s1 = None" "ms_next s1 = 1" "ms_window s1 = w"
    "ms_pending s1 = [(0, withWindow (urlFor Sensors (Some a)) w, Marker_Req Sensors (key_of Sensors a w) False)]"
    using assms(3) by (simp_all add: s1_def refresh_def eff Let_def ask_def init_map_def marker_key_of slug_key_def)
  define s2 where "s2 = map_step cfg s1 (Adopt b zoom)"
  have s2: "ms_slug s2 = Some b" "ms_window s2 = w"
    "map_of (ms_pending s2) 0 = Some (withWindow (urlFor Sensors (Some a)) w, Marker_Req Sensors (key_of Sensors a w) False)"
    "map_of (ms_pending s2) 1 = Some (withWindow (urlFor Sensors (Some b)) w, Marker_Req Sensors (key_of Sensors b w) False)"
    using assms(4) s1 by (simp_all add: s2_def refresh_def eff Let_def ask_def marker_key_of slug_key_def)
  have land: "ms_slug (land_markers cfg Sensors k False x s) = ms_slug s"
    "ms_window (land_markers cfg Sensors k False x s) = ms_window s"
    "ms_pending (land_markers cfg Sensors k False x s) = ms_pending s"
    "ms_tier (land_markers cfg Sensors k False x s) = Some k"
    "ms_sensor_body (land_markers cfg Sensors k False x s) = Some x"
    "ms_slug s = Some c \<Longrightarrow> ms_registry (land_markers cfg Sensors k False x s) = setSensors x (JStr c) (ms_registry s)" for k x s c
    by (simp_all add: land_markers_def Let_def split: sum.splits)
  define s3 where "s3 = map_step cfg s2 (Body 1 second)"
  have s3: "ms_slug s3 = Some b" "ms_window s3 = w"
    "map_of (ms_pending s3) 0 = Some (withWindow (urlFor Sensors (Some a)) w, Marker_Req Sensors (key_of Sensors a w) False)"
    using s2 by (simp_all add: s3_def land_def land map_of_filter_neq)
  have st: "st = map_step cfg s3 (Body 0 first)"
    by (simp add: assms(6) map_run_def s1_def s2_def s3_def)
  have "key_of Sensors a w \<noteq> key_of Sensors b w" using assms(5) by (simp add: key_of_def)
  then show ?thesis
    using s3 by (simp add: st land_def land setSensors_def marker_key_of slug_key_def)
qed

theorem late_area_answer_wins_witness:
  "ms_sensor_body (map_run small_cfg [Adopt ''a'' 12, Adopt ''b'' 12, Body 1 JNull, Body 0 (JArr [])]
     (init_map None LIVE_WINDOW ''P2'')) = Some (JArr [])"
proof -
  have "mc_zoom_sensor small_cfg \<le> 12" "mc_zoom_city small_cfg \<le> mc_zoom_sensor small_cfg"
    "''a'' \<noteq> ([] :: string)" "''b'' \<noteq> ([] :: string)" "''a'' \<noteq> ''b''" by (simp_all add: small_cfg_def)
  from late_area_answer_wins [OF this refl, of JNull "JArr []" LIVE_WINDOW "''P2''"] show ?thesis by (elim conjE)
qed

text \<open>C7. The reload reaches the markers but not the grid: over an unchanged view the button and its
  timer ask for the markers again, unchanged or not, and then only redraw the cells from the grid
  body already held, asking for nothing; and panning back to a grid already drawn does not call
  off the request of the pan before, whose answer then replaces that grid.\<close>

theorem reload_and_return_keep_wrong_grid:
  assumes "ms_hex_url st = Some (hex_url v st)"
  shows "last (ms_requests (reload_markers cfg zoom st)) = withWindow (urlFor (effective_tier cfg zoom st) (ms_slug st)) (ms_window st)
    \<and> length (ms_requests st) < length (ms_requests (reload_markers cfg zoom st))
    \<and> reload_grid cfg v (reload_markers cfg zoom st) = draw_cells cfg (vp_zoom v) False (reload_markers cfg zoom st)
    \<and> ms_cells (reload_grid cfg v (reload_markers cfg zoom st)) =
        Some (filterByStatus (hexFeatures (ms_hex_body st) (ms_metric st) (bandsFor (ms_scales st) (ms_metric st)) (mc_nodata cfg)
            rampColour (resolutionForZoom (of_int (math_round (vp_zoom v))) None) (Some (ms_sources st))) (ms_status st))
    \<and> ms_hex_body (reload_grid cfg v (reload_markers cfg zoom st)) = ms_hex_body st
    \<and> ms_requests (reload_grid cfg v (reload_markers cfg zoom st)) = ms_requests (reload_markers cfg zoom st)
    \<and> (hex_url away st \<noteq> hex_url v st \<and> (\<forall>p \<in> set (ms_pending st). fst p < ms_next st) \<longrightarrow>
        (\<exists>st'. st' = map_run cfg [Reload_Grid away, Reload_Grid v, Grid (vp_zoom v) (ms_next st) body] st
           \<and> ms_hex_url st' = Some (hex_url away st) \<and> ms_hex_body st' = Some body))"
proof (intro conjI impI)
  let ?r = "reload_markers cfg zoom st"
  have same: "ms_hex_url ?r = ms_hex_url st" "ms_hex_body ?r = ms_hex_body st" "ms_window ?r = ms_window st"
    "ms_metric ?r = ms_metric st" "ms_scales ?r = ms_scales st" "ms_sources ?r = ms_sources st" "ms_status ?r = ms_status st"
    by (simp_all add: reload_markers_def refresh_def ask_def loadAreaSensors_def Let_def)
  show "last (ms_requests ?r) = withWindow (urlFor (effective_tier cfg zoom st) (ms_slug st)) (ms_window st)"
    "length (ms_requests st) < length (ms_requests ?r)"
    by (simp_all add: reload_markers_def refresh_def ask_def loadAreaSensors_def Let_def)
  have url: "hex_url v ?r = hex_url v st" using same by (simp add: hex_url_def)
  show d: "reload_grid cfg v ?r = draw_cells cfg (vp_zoom v) False ?r"
    using same url assms by (simp add: reload_grid_def refreshHexes_def)
  show "ms_hex_body (reload_grid cfg v ?r) = ms_hex_body st" "ms_requests (reload_grid cfg v ?r) = ms_requests ?r"
    by (simp_all add: d same)
  show "ms_cells (reload_grid cfg v ?r) =
      Some (filterByStatus (hexFeatures (ms_hex_body st) (ms_metric st) (bandsFor (ms_scales st) (ms_metric st)) (mc_nodata cfg)
          rampColour (resolutionForZoom (of_int (math_round (vp_zoom v))) None) (Some (ms_sources st))) (ms_status st))"
    unfolding d by (simp add: draw_cells_def Let_def same)
  assume a: "hex_url away st \<noteq> hex_url v st \<and> (\<forall>p \<in> set (ms_pending st). fst p < ms_next st)"
  let ?s1 = "map_step cfg st (Reload_Grid away)"
  let ?drop = "case ms_hex_abort st of Some i \<Rightarrow> drop_request i st | None \<Rightarrow> st"
  have fresh: "map_of (ms_pending ?drop) (ms_next st) = None"
    using a by (force simp: map_of_eq_None_iff split: option.splits)
  have s1: "ms_hex_url ?s1 = ms_hex_url st" "ms_window ?s1 = ms_window st"
    "map_of (ms_pending ?s1) (ms_next st) = Some (hex_url away st, Hex_Req (hex_url away st) False)"
    using a assms fresh by (auto simp: reload_grid_def refreshHexes_def Let_def ask_def map_add_def split: option.splits)
  then have "hex_url v ?s1 = hex_url v st" by (simp add: hex_url_def)
  then have "map_step cfg ?s1 (Reload_Grid v) = draw_cells cfg (vp_zoom v) False ?s1"
    using s1(1) assms by (simp add: reload_grid_def refreshHexes_def)
  then show "\<exists>st'. st' = map_run cfg [Reload_Grid away, Reload_Grid v, Grid (vp_zoom v) (ms_next st) body] st
           \<and> ms_hex_url st' = Some (hex_url away st) \<and> ms_hex_body st' = Some body"
    using s1 by (simp add: map_run_def land_grid_def land_cells_def)
qed

definition drawn_map :: map_state where
  "drawn_map = map_run small_cfg [Reload_Grid wide_view, Grid 6 0 \<lparr>resolution_km = jreal 5, hexes = []\<rparr>] (init_map None LIVE_WINDOW ''P2'')"

lemma reload_and_return_keep_wrong_grid_witness:
  "ms_hex_body (reload_grid small_cfg wide_view (reload_markers small_cfg 6 drawn_map)) = Some \<lparr>resolution_km = jreal 5, hexes = []\<rparr>
   \<and> last (ms_requests (reload_markers small_cfg 6 drawn_map)) = ''/api/v1/overview''"
proof -
  let ?st = "init_map None LIVE_WINDOW ''P2''"
  have w: "ms_window drawn_map = LIVE_WINDOW" "ms_hex_url drawn_map = Some (hex_url wide_view ?st)"
    "ms_hex_body drawn_map = Some \<lparr>resolution_km = jreal 5, hexes = []\<rparr>" "ms_slug drawn_map = None"
    by (simp_all add: drawn_map_def map_run_def reload_grid_def refreshHexes_def Let_def init_map_def ask_def land_grid_def land_cells_def)
  then have "ms_hex_url drawn_map = Some (hex_url wide_view drawn_map)" by (simp add: hex_url_def init_map_def)
  note r = reload_and_return_keep_wrong_grid [OF this, of small_cfg 6 wide_view "\<lparr>resolution_km = jreal 5, hexes = []\<rparr>"]
  have "effective_tier small_cfg 6 drawn_map = Country"
    by (simp add: effective_tier_def small_cfg_def tierFor_def)
  then have "withWindow (urlFor (effective_tier small_cfg 6 drawn_map) (ms_slug drawn_map)) (ms_window drawn_map) = ''/api/v1/overview''"
    by (simp add: w urlFor_def withWindow_live)
  with r w(3) show ?thesis by metis
qed

end
