(* ===== verification/Opening.thy ===== *)
theory Opening
  imports Map_Data Area_Stats Json
begin

text \<open>
  Where the home map opens: the remembered camera (\<open>web/src/lib/lastview.js\<close>), the starred sensor
  (\<open>favourite.js\<close>, \<open>favourite.svelte.js\<close>), the first-visit callout (\<open>locatehint.js\<close>), the
  server's guess (\<open>locate.js\<close>) and the placement that asks them in turn (\<open>placement.js\<close>,
  \<open>mapload.js\<close>). The camera is a centre and a zoom. The saved view and the favourite are
  preferences kept through the storage interface; \<open>saved_view\<close> and \<open>favourite_pref\<close> interpret it.
\<close>

section \<open>The last view (lastview.js)\<close>

record camera =
  cam_lon :: real
  cam_lat :: real
  cam_zoom :: real

definition LAST_VIEW_KEY :: string where
  "LAST_VIEW_KEY = ''kanarche:map-view''"

definition MIN_ZOOM :: real where
  "MIN_ZOOM = 2"

definition MAX_ZOOM_CEILING :: real where
  "MAX_ZOOM_CEILING = 24"

definition BOUNDS_SOUTH :: real where "BOUNDS_SOUTH = 40.5"
definition BOUNDS_NORTH :: real where "BOUNDS_NORTH = 45"
definition BOUNDS_WEST :: real where "BOUNDS_WEST = 21.5"
definition BOUNDS_EAST :: real where "BOUNDS_EAST = 29.5"

definition VIEW_KEYS :: "string list" where
  "VIEW_KEYS = [''sensor'', ''lat'', ''lng'', ''lon'', ''zoom'']"

definition view_in_bounds :: "camera \<Rightarrow> bool" where
  "view_in_bounds v \<longleftrightarrow> BOUNDS_SOUTH \<le> cam_lat v \<and> cam_lat v \<le> BOUNDS_NORTH
     \<and> BOUNDS_WEST \<le> cam_lon v \<and> cam_lon v \<le> BOUNDS_EAST
     \<and> MIN_ZOOM \<le> cam_zoom v \<and> cam_zoom v \<le> MAX_ZOOM_CEILING"

definition view_of_json :: "jsval \<Rightarrow> camera option" where
  "view_of_json v = (case v of JObj _ \<Rightarrow>
       (case (finite_num (jget v ''lat''), finite_num (jget v ''lng''), finite_num (jget v ''zoom'')) of
          (Some lat, Some lng, Some z) \<Rightarrow> (let c = \<lparr>cam_lon = lng, cam_lat = lat, cam_zoom = z\<rparr>
             in if view_in_bounds c then Some c else None)
        | _ \<Rightarrow> None)
     | _ \<Rightarrow> None)"

definition parseLastView :: "string option \<Rightarrow> camera option" where
  "parseLastView raw = (case raw of None \<Rightarrow> None
     | Some s \<Rightarrow> if s = [] then None else Option.bind (json_parse s) view_of_json)"

fun last_view_of :: "js_error + string option \<Rightarrow> camera option" where
  "last_view_of (Inr raw) = parseLastView raw"
| "last_view_of (Inl _) = None"

definition readLastView :: "storage option \<Rightarrow> camera option" where
  "readLastView st = last_view_of (try_get st LAST_VIEW_KEY)"

text \<open>\<open>Math.round(n * 10 ** places) / 10 ** places\<close> keeps NaN and the infinities.\<close>

definition round_num :: "jsnum \<Rightarrow> nat \<Rightarrow> jsnum" where
  "round_num n places = (case n of Fin x \<Rightarrow> Fin (round_places x places) | other \<Rightarrow> other)"

definition view_json :: "jsnum \<Rightarrow> jsnum \<Rightarrow> jsnum \<Rightarrow> string" where
  "view_json lat lng z = json_text (JObj [(''lat'', JNum (round_num lat 4)), (''lng'', JNum (round_num lng 4)), (''zoom'', JNum (round_num z 2))])"

definition writeLastView :: "jsnum \<Rightarrow> jsnum \<Rightarrow> jsnum \<Rightarrow> storage option \<Rightarrow> storage option" where
  "writeLastView lat lng z st = (let raw = view_json lat lng z in
     if parseLastView (Some raw) = None then st else try_set st LAST_VIEW_KEY raw)"

definition strip_mark :: "string \<Rightarrow> string" where
  "strip_mark s = (case s of c # t \<Rightarrow> if c = CHR ''#'' \<or> c = CHR ''?'' then t else s | [] \<Rightarrow> [])"

definition hasExplicitView :: "string option \<Rightarrow> string option \<Rightarrow> bool" where
  "hasExplicitView hash search \<longleftrightarrow> list_ex (\<lambda>source.
     let params = params_parse (strip_mark (case source of Some s \<Rightarrow> s | None \<Rightarrow> [])) in list_ex (params_has params) VIEW_KEYS)
     [hash, search]"

datatype opening_view = Explicit | Favourite nat | Saved camera | Default

definition resolveOpeningView :: "string option \<Rightarrow> string option \<Rightarrow> camera option \<Rightarrow> nat option \<Rightarrow> opening_view" where
  "resolveOpeningView hash search saved favourite =
     (if hasExplicitView hash search then Explicit
      else case favourite of Some i \<Rightarrow> Favourite i
        | None \<Rightarrow> (case saved of Some v \<Rightarrow> Saved v | None \<Rightarrow> Default))"

record page =
  pg_hash :: "string option"
  pg_search :: "string option"
  pg_remember :: bool

definition restoreLastView :: "page \<Rightarrow> storage option \<Rightarrow> camera \<Rightarrow> bool \<times> camera" where
  "restoreLastView pg st cam = (if \<not> pg_remember pg then (False, cam)
     else case resolveOpeningView (pg_hash pg) (pg_search pg) (readLastView st) None of
       Saved v \<Rightarrow> (True, v) | _ \<Rightarrow> (False, cam))"

text \<open>
  The debounced writer: a settled move of the visitor's own arms the timer again, and the camera
  is read when it fires.
\<close>

definition SAVE_DEBOUNCE_MS :: nat where
  "SAVE_DEBOUNCE_MS = 500"

record tracker =
  tk_timer :: "nat option" \<comment> \<open>milliseconds left\<close>
  tk_camera :: camera
  tk_storage :: "storage option"

datatype track_event = Moved camera bool | Elapsed nat

definition save_camera :: "tracker \<Rightarrow> tracker" where
  "save_camera t = t\<lparr>tk_timer := None, tk_storage := writeLastView (Fin (cam_lat (tk_camera t))) (Fin (cam_lon (tk_camera t)))
     (Fin (cam_zoom (tk_camera t))) (tk_storage t)\<rparr>"

fun trackLastView :: "bool \<Rightarrow> track_event \<Rightarrow> tracker \<Rightarrow> tracker" where
  "trackLastView remember (Moved cam user) t = (if remember \<and> user
     then t\<lparr>tk_camera := cam, tk_timer := Some SAVE_DEBOUNCE_MS\<rparr> else t\<lparr>tk_camera := cam\<rparr>)"
| "trackLastView remember (Elapsed ms) t = (case tk_timer t of None \<Rightarrow> t
     | Some left \<Rightarrow> if left \<le> ms then save_camera t else t\<lparr>tk_timer := Some (left - ms)\<rparr>)"

section \<open>The favourite (favourite.js, favourite.svelte.js)\<close>

definition FAVOURITE_KEY :: string where
  "FAVOURITE_KEY = ''kanarche:favourite-sensor''"

definition MAX_SAFE_INTEGER :: nat where
  "MAX_SAFE_INTEGER = 9007199254740991"

text \<open>One to sixteen digits, the first of them not zero, and a safe integer.\<close>

definition parseFavourite :: "string option \<Rightarrow> nat option" where
  "parseFavourite raw = (case raw of None \<Rightarrow> None
     | Some s \<Rightarrow> if s \<noteq> [] \<and> list_all is_digit s \<and> hd s \<noteq> CHR ''0'' \<and> length s \<le> 16
         then (if digits_val s \<le> MAX_SAFE_INTEGER then Some (digits_val s) else None) else None)"

fun favourite_of :: "js_error + string option \<Rightarrow> nat option" where
  "favourite_of (Inr raw) = parseFavourite raw"
| "favourite_of (Inl _) = None"

definition readFavourite :: "storage option \<Rightarrow> nat option" where
  "readFavourite st = favourite_of (try_get st FAVOURITE_KEY)"

definition writeFavourite :: "nat \<Rightarrow> storage option \<Rightarrow> storage option" where
  "writeFavourite i st = (let raw = nat_str i in
     if parseFavourite (Some raw) = None then st else try_set st FAVOURITE_KEY raw)"

definition clearFavourite :: "storage option \<Rightarrow> storage option" where
  "clearFavourite st = try_remove st FAVOURITE_KEY"

record favourite_store =
  fs_id :: "nat option"
  fs_storage :: "storage option"

definition createFavouriteStore :: "storage option \<Rightarrow> favourite_store" where
  "createFavouriteStore st = \<lparr>fs_id = readFavourite st, fs_storage = st\<rparr>"

definition toggle_favourite :: "nat \<Rightarrow> favourite_store \<Rightarrow> favourite_store" where
  "toggle_favourite sensorId fs = (if fs_id fs = Some sensorId
     then \<lparr>fs_id = None, fs_storage = clearFavourite (fs_storage fs)\<rparr>
     else \<lparr>fs_id = Some sensorId, fs_storage = writeFavourite sensorId (fs_storage fs)\<rparr>)"

section \<open>The callout (locatehint.js)\<close>

definition LOCATE_HINT_KEY :: string where
  "LOCATE_HINT_KEY = ''kanarche:locate-hint-seen''"

definition shouldShowLocateHint :: "page \<Rightarrow> storage option \<Rightarrow> bool" where
  "shouldShowLocateHint pg st = (case st of None \<Rightarrow> False
     | Some s \<Rightarrow> pg_remember pg \<and> \<not> hasExplicitView (pg_hash pg) (pg_search pg)
         \<and> readLastView st = None \<and> getItem s LOCATE_HINT_KEY = Inr None)"

text \<open>Whether the callout is shown, and the storage in which it is marked seen.\<close>

definition installLocateHint :: "string \<Rightarrow> page \<Rightarrow> storage option \<Rightarrow> bool \<times> storage option" where
  "installLocateHint txt pg st = (if txt = [] \<or> \<not> shouldShowLocateHint pg st then (False, st)
     else case st of None \<Rightarrow> (False, st)
       | Some s \<Rightarrow> (case setItem s LOCATE_HINT_KEY ''1'' of
           (Some _, s1) \<Rightarrow> (False, Some s1)
         | (None, s1) \<Rightarrow> (True, Some s1)))"

section \<open>The placement (locate.js, placement.js)\<close>

text \<open>What the answers move: the camera, the adopted area and the list of areas.\<close>

record place_state =
  pl_camera :: camera
  pl_slug :: "string option"
  pl_areas :: "jsval list option"

record located =
  lo_move :: bool
  lo_camera :: camera
  lo_slug :: "string option"

definition applyLocate :: "jsval \<Rightarrow> camera \<Rightarrow> located" where
  "applyLocate body defaultView = (if \<not> truthy body \<or> jget body ''source'' \<noteq> JStr ''geoip''
     then \<lparr>lo_move = False, lo_camera = defaultView, lo_slug = None\<rparr>
     else \<lparr>lo_move = True,
           lo_camera = \<lparr>cam_lon = the_num (jget body ''lon''), cam_lat = the_num (jget body ''lat''),
             cam_zoom = the_num (jget body ''zoom'')\<rparr>,
           lo_slug = as_str (jget body ''slug'')\<rparr>)"

text \<open>
  \<open>placeVisitor\<close>, given what the lookup answered before the race was over: \<open>None\<close> is a rejected
  lookup or the timeout. The server's placement carries a finite centre and zoom.
\<close>

definition placeVisitor :: "camera \<Rightarrow> jsval option \<Rightarrow> place_state \<Rightarrow> bool \<times> place_state" where
  "placeVisitor home answer st = (let located = applyLocate (case answer of Some b \<Rightarrow> b | None \<Rightarrow> JNull) home in
     if \<not> lo_move located then (False, st)
     else (True, st\<lparr>pl_camera := lo_camera located, pl_slug := lo_slug located\<rparr>))"

definition LOCATE_TIMEOUT_MS :: nat where
  "LOCATE_TIMEOUT_MS = 400"

definition placeVisitor_within :: "nat option \<Rightarrow> camera \<Rightarrow> nat \<Rightarrow> jsval option \<Rightarrow> place_state \<Rightarrow> bool \<times> place_state" where
  "placeVisitor_within timeoutMs home arrives answer st =
     placeVisitor home (case timeoutMs of None \<Rightarrow> answer | Some t \<Rightarrow> if arrives < t then answer else None) st"

text \<open>The requests \<open>prefetchPlacement\<close> starts.\<close>

definition prefetchPlacement :: "nat option \<Rightarrow> string option \<Rightarrow> registry \<Rightarrow> string list" where
  "prefetchPlacement sensorId slug r = (case sensorId of
      Some i \<Rightarrow> if findSensor (jreal (real i)) r = None then [sensor_locate_url i]
        else if \<not> has_slug slug then [''/api/v1/locate''] else []
    | None \<Rightarrow> if \<not> has_slug slug then [''/api/v1/locate''] else [])"

definition DEEP_LINK_ZOOM :: nat where
  "DEEP_LINK_ZOOM = POINT_TIER_MIN_ZOOM + 2"

definition adopted_slug :: "jsval \<Rightarrow> real \<times> real \<Rightarrow> jsval list option \<Rightarrow> string option" where
  "adopted_slug body pt areas = (case jget body ''slug'' of
      JStr s \<Rightarrow> if s \<noteq> [] then Some s else Option.bind (nearestArea pt areas) (\<lambda>a. as_str (jget a ''slug''))
    | _ \<Rightarrow> Option.bind (nearestArea pt areas) (\<lambda>a. as_str (jget a ''slug'')))"

definition some_areas :: "jsval list option \<Rightarrow> bool" where
  "some_areas areas \<longleftrightarrow> (case areas of Some as \<Rightarrow> as \<noteq> [] | None \<Rightarrow> False)"

text \<open>
  \<open>openDeepLinkedSensor\<close> without its paint: \<open>fetchJSON\<close> answers a URL with a body, or \<open>None\<close> when
  it rejects. The result says whether it moved the map.
\<close>

definition openDeepLinkedSensor :: "(string \<Rightarrow> jsval option) \<Rightarrow> registry \<Rightarrow> bool \<Rightarrow> nat option \<Rightarrow> place_state \<Rightarrow> bool \<times> place_state" where
  "openDeepLinkedSensor fetchJSON r move sensorId st = (case sensorId of None \<Rightarrow> (False, st)
     | Some i \<Rightarrow> if findSensor (jreal (real i)) r \<noteq> None then (False, st)
       else (let body = (case fetchJSON (sensor_locate_url i) of Some b \<Rightarrow> b | None \<Rightarrow> JNull) in
         case (finite_num (jget body ''lon''), finite_num (jget body ''lat'')) of
           (Some lon, Some lat) \<Rightarrow>
             (let st1 = (if move then st\<lparr>pl_camera := \<lparr>cam_lon = lon, cam_lat = lat, cam_zoom = real DEEP_LINK_ZOOM\<rparr>\<rparr> else st);
                  slug = adopted_slug body (lon, lat) (pl_areas st1);
                  st2 = (if has_slug slug \<and> \<not> some_areas (pl_areas st1)
                    then (case fetchJSON (urlFor City None) of
                        Some overview \<Rightarrow> if elems (jget overview ''areas'') \<noteq> []
                          then st1\<lparr>pl_areas := Some (elems (jget overview ''areas''))\<rparr> else st1
                      | None \<Rightarrow> st1) else st1)
              in (True, if has_slug slug then st2\<lparr>pl_slug := slug\<rparr> else st2))
         | _ \<Rightarrow> (False, st)))"

text \<open>A favourite opens as a link to its sensor would; the third component is the sensor then shown.\<close>

definition openFavouriteSensor :: "(string \<Rightarrow> jsval option) \<Rightarrow> registry \<Rightarrow> page \<Rightarrow> storage option \<Rightarrow> place_state
    \<Rightarrow> bool \<times> place_state \<times> nat option" where
  "openFavouriteSensor fetchJSON r pg st ps = (if \<not> pg_remember pg then (False, ps, None)
     else case resolveOpeningView (pg_hash pg) (pg_search pg) None (readFavourite st) of
       Favourite i \<Rightarrow> (case openDeepLinkedSensor fetchJSON r True (Some i) ps of
           (moved, ps1) \<Rightarrow> if moved then (True, ps1, Some i) else (False, ps1, None))
     | _ \<Rightarrow> (False, ps, None))"

text \<open>
  The \<open>place\<close> step of \<open>mapload.js\<close>: the linked sensor, else the favourite, else the saved view,
  else, off an area page, the server's guess. The answer says who placed the map.
\<close>

datatype placed_by = By_Link | By_Favourite nat | By_Saved | By_Visitor | By_Late_Visitor | By_Nobody

definition place :: "(string \<Rightarrow> jsval option) \<Rightarrow> registry \<Rightarrow> page \<Rightarrow> storage option \<Rightarrow> string option \<Rightarrow> camera \<Rightarrow> nat
    \<Rightarrow> nat option \<Rightarrow> place_state \<Rightarrow> placed_by \<times> place_state" where
  "place fetchJSON r pg st slug home arrives sensorId ps =
     (case openDeepLinkedSensor fetchJSON r True sensorId ps of
        (True, ps1) \<Rightarrow> (By_Link, ps1)
      | (False, ps1) \<Rightarrow> (case openFavouriteSensor fetchJSON r pg st ps1 of
          (True, ps2, i) \<Rightarrow> (By_Favourite (the i), ps2)
        | (False, ps2, _) \<Rightarrow> (case restoreLastView pg st (pl_camera ps2) of
            (True, cam) \<Rightarrow> (By_Saved, ps2\<lparr>pl_camera := cam\<rparr>)
          | (False, _) \<Rightarrow> if has_slug slug then (By_Nobody, ps2)
              else (case placeVisitor_within (Some LOCATE_TIMEOUT_MS) home arrives (fetchJSON ''/api/v1/locate'') ps2 of
                  (True, ps3) \<Rightarrow> (By_Visitor, ps3)
                | (False, ps3) \<Rightarrow> (By_Nobody, ps3)))))"

text \<open>
  The opening as a whole (the end of the load handler): a map that nobody placed is asked for again,
  off an area page, and without a limit on the wait (\<open>locateVisitor\<close>). The lookup then answers
  \<open>late\<close>, and moves whatever the map has become by then (\<open>meanwhile\<close>: the reader's own moves).
\<close>

definition locateVisitor :: "camera \<Rightarrow> jsval option \<Rightarrow> place_state \<Rightarrow> bool \<times> place_state" where
  "locateVisitor home late ps = placeVisitor_within None home 0 late ps"

definition open_map :: "(string \<Rightarrow> jsval option) \<Rightarrow> registry \<Rightarrow> page \<Rightarrow> storage option \<Rightarrow> string option \<Rightarrow> camera \<Rightarrow> nat
    \<Rightarrow> nat option \<Rightarrow> jsval option \<Rightarrow> (place_state \<Rightarrow> place_state) \<Rightarrow> place_state \<Rightarrow> placed_by \<times> place_state" where
  "open_map fetchJSON r pg st slug home arrives sensorId late meanwhile ps =
     (case place fetchJSON r pg st slug home arrives sensorId ps of (who, ps1) \<Rightarrow>
        if who = By_Nobody \<and> \<not> has_slug slug
        then (case locateVisitor home late (meanwhile ps1) of
            (True, ps2) \<Rightarrow> (By_Late_Visitor, ps2)
          | (False, ps2) \<Rightarrow> (By_Nobody, ps2))
        else (who, meanwhile ps1))"

text \<open>
  \<open>locateMe\<close>: the precise fix. \<open>showNearestSensor\<close> runs up to its refresh, and once that has landed
  re-centres on the nearest sensor of the registry and redraws the grid.
\<close>

datatype geo_answer = No_Geolocation | Fix "real \<times> real" | Refused int

definition showNearestSensor :: "map_cfg \<Rightarrow> string \<Rightarrow> real \<times> real \<Rightarrow> camera \<times> map_state \<Rightarrow> bool \<times> camera \<times> map_state" where
  "showNearestSensor cfg failed pt st = (case st of (cam, ms) \<Rightarrow>
     if \<not> some_areas (ms_areas ms) then (False, cam, ms\<lparr>ms_banner := showHint failed (ms_banner ms)\<rparr>)
     else let cam1 = \<lparr>cam_lon = fst pt, cam_lat = snd pt, cam_zoom = real DEEP_LINK_ZOOM\<rparr>;
              slug = Option.bind (nearestArea pt (ms_areas ms)) (\<lambda>a. as_str (jget a ''slug''))
       in (True, cam1, refresh cfg (cam_zoom cam1) True False (ms\<lparr>ms_slug := slug\<rparr>)))"

definition recentre :: "map_cfg \<Rightarrow> viewport \<Rightarrow> real \<times> real \<Rightarrow> camera \<times> map_state \<Rightarrow> camera \<times> map_state" where
  "recentre cfg v pt st = (case st of (cam, ms) \<Rightarrow>
     (case nearestSensor pt (reg_body (ms_registry ms)) of
        Some (_, lon, lat) \<Rightarrow> \<lparr>cam_lon = the_num lon, cam_lat = the_num lat, cam_zoom = real DEEP_LINK_ZOOM\<rparr>
      | None \<Rightarrow> cam, refreshHexes cfg v False ms))"

definition locateMe :: "map_cfg \<Rightarrow> string \<Rightarrow> string \<Rightarrow> geo_answer \<Rightarrow> camera \<times> map_state \<Rightarrow> bool \<times> camera \<times> map_state" where
  "locateMe cfg failed denied answer st = (case answer of
      Fix pt \<Rightarrow> showNearestSensor cfg failed pt st
    | No_Geolocation \<Rightarrow> (False, fst st, (snd st)\<lparr>ms_banner := showHint failed (ms_banner (snd st))\<rparr>)
    | Refused code \<Rightarrow> (False, fst st, (snd st)\<lparr>ms_banner := showHint (if code = 1 then denied else failed) (ms_banner (snd st))\<rparr>))"

section \<open>Lemmas\<close>

lemma decimal_round: "p \<le> 17 \<Longrightarrow> decimal (round_places x p)"
proof -
  assume "p \<le> 17"
  then have e: "(10::real) ^ 17 = 10 ^ p * 10 ^ (17 - p)" by (simp flip: power_add)
  have "round_places x p * 10 ^ 17 = of_int (math_round (x * 10 ^ p)) * 10 ^ (17 - p)"
    unfolding round_places_def e by simp
  then show ?thesis unfolding decimal_def by (simp only: is_integer_10 is_integer_of_int)
qed

definition rounded_camera :: "camera \<Rightarrow> camera" where
  "rounded_camera c = \<lparr>cam_lon = round_places (cam_lon c) 4, cam_lat = round_places (cam_lat c) 4, cam_zoom = round_places (cam_zoom c) 2\<rparr>"

lemma parse_view_json:
  "parseLastView (Some (view_json (Fin (cam_lat c)) (Fin (cam_lon c)) (Fin (cam_zoom c))))
     = (if view_in_bounds (rounded_camera c) then Some (rounded_camera c) else None)"
proof -
  let ?v = "JObj [(''lat'', JNum (round_num (Fin (cam_lat c)) 4)), (''lng'', JNum (round_num (Fin (cam_lon c)) 4)),
    (''zoom'', JNum (round_num (Fin (cam_zoom c)) 2))]"
  have "json_ok ?v" by (simp add: round_num_def decimal_round)
  from json_round_trip [OF this]
  have "json_parse (view_json (Fin (cam_lat c)) (Fin (cam_lon c)) (Fin (cam_zoom c))) = Some ?v"
    by (simp add: view_json_def del: json_text.simps)
  moreover have "view_json (Fin (cam_lat c)) (Fin (cam_lon c)) (Fin (cam_zoom c)) \<noteq> []" by (simp add: view_json_def)
  moreover have "view_of_json ?v = (if view_in_bounds (rounded_camera c) then Some (rounded_camera c) else None)"
    by (simp add: view_of_json_def round_num_def rounded_camera_def)
  ultimately show ?thesis by (simp add: parseLastView_def)
qed

lemma parseFavourite_nat_str:
  "parseFavourite (Some (nat_str i)) = (if 0 < i \<and> i \<le> MAX_SAFE_INTEGER then Some i else None)"
proof -
  have "hd (nat_str i) = CHR ''0'' \<longleftrightarrow> i = 0"
  proof
    assume "hd (nat_str i) = CHR ''0''"
    then have "nat_str i = ''0''" using nat_str_hd by (metis hd_Cons_tl nat_str_not_Nil)
    then show "i = 0" using digits_val_nat_str [of i] by (simp add: digits_val_def digit_val_def)
  qed (simp add: nat_str_0)
  moreover have "length (nat_str i) \<le> 16" if "i \<le> MAX_SAFE_INTEGER"
    using that by (intro length_nat_str) (simp_all add: MAX_SAFE_INTEGER_def)
  ultimately show ?thesis by (auto simp: parseFavourite_def nat_str_digits)
qed

lemma keys_owned: "app_key LAST_VIEW_KEY" "app_key FAVOURITE_KEY" "app_key LOCATE_HINT_KEY"
  by (simp_all add: LAST_VIEW_KEY_def FAVOURITE_KEY_def LOCATE_HINT_KEY_def app_key_def starts_with_def KEY_PREFIX_def)

text \<open>A favourite worth keeping is a safe identifier, a view worth keeping one rounded inside the bounds.\<close>

definition keepable :: "nat option \<Rightarrow> bool" where
  "keepable v = (case v of Some i \<Rightarrow> 0 < i \<and> i \<le> MAX_SAFE_INTEGER | None \<Rightarrow> False)"

definition spell_id :: "nat option \<Rightarrow> string" where
  "spell_id v = (case v of Some i \<Rightarrow> nat_str i | None \<Rightarrow> [])"

interpretation favourite_pref: stored_preference getItem setItem removeItem storage_working app_key
    FAVOURITE_KEY spell_id favourite_of keepable None
  by unfold_locales (auto simp: keys_owned parseFavourite_nat_str parseFavourite_def [of None] keepable_def spell_id_def
    split: option.splits)

definition spell_view :: "camera option \<Rightarrow> string" where
  "spell_view v = (case v of Some c \<Rightarrow> view_json (Fin (cam_lat c)) (Fin (cam_lon c)) (Fin (cam_zoom c)) | None \<Rightarrow> [])"

definition keepable_view :: "camera option \<Rightarrow> bool" where
  "keepable_view v = (case v of Some c \<Rightarrow> view_in_bounds c \<and> rounded_camera c = c | None \<Rightarrow> False)"

interpretation saved_view: stored_preference getItem setItem removeItem storage_working app_key
    LAST_VIEW_KEY spell_view last_view_of keepable_view None
  by unfold_locales (auto simp: keys_owned parse_view_json parseLastView_def [of None] keepable_view_def spell_view_def
    split: option.splits)

lemma rounded_idem [simp]: "rounded_camera (rounded_camera c) = rounded_camera c"
  by (simp add: rounded_camera_def round_places_idem)

lemma spell_rounded: "spell_view (Some (rounded_camera c)) = view_json (Fin (cam_lat c)) (Fin (cam_lon c)) (Fin (cam_zoom c))"
  by (simp add: spell_view_def view_json_def round_num_def rounded_camera_def round_places_idem)

lemma writeLastView_working:
  assumes "storage_working s"
  shows "readLastView (writeLastView (Fin (cam_lat c)) (Fin (cam_lon c)) (Fin (cam_zoom c)) (Some s))
    = (if view_in_bounds (rounded_camera c) then Some (rounded_camera c) else readLastView (Some s))"
proof (cases "view_in_bounds (rounded_camera c)")
  case True
  then have "keepable_view (Some (rounded_camera c))" by (simp add: keepable_view_def)
  from saved_view.write_then_read [OF assms this] True show ?thesis
    by (simp add: writeLastView_def readLastView_def Let_def parse_view_json try_get_def try_set_def spell_rounded)
next
  case False
  then show ?thesis by (simp add: writeLastView_def Let_def parse_view_json)
qed

lemma favourite_written:
  assumes "storage_working s" "keepable (Some i)"
  shows "readFavourite (writeFavourite i (Some s)) = Some i" "readFavourite (clearFavourite (Some s)) = None"
  using favourite_pref.write_then_read [OF assms] favourite_pref.remove_then_read [OF assms(1)] assms(2)
  by (simp_all add: readFavourite_def writeFavourite_def clearFavourite_def Let_def try_get_def try_set_def try_remove_def
    spell_id_def parseFavourite_nat_str keepable_def)

lemma writes_keep_working:
  "map_option storage_working st = Some True \<Longrightarrow> map_option storage_working (writeFavourite i st) = Some True"
  "map_option storage_working st = Some True \<Longrightarrow> map_option storage_working (clearFavourite st) = Some True"
  by (cases st; simp add: writeFavourite_def clearFavourite_def Let_def try_set_def try_remove_def ls.kv_simps)+

section \<open>Specification of the opening\<close>

text \<open>A lookup finds a sensor the map does not hold yet and that the server can place.\<close>

definition lookup_finds :: "(string \<Rightarrow> jsval option) \<Rightarrow> registry \<Rightarrow> nat \<Rightarrow> bool" where
  "lookup_finds fetchJSON r i \<longleftrightarrow> findSensor (jreal (real i)) r = None
     \<and> (case fetchJSON (sensor_locate_url i) of None \<Rightarrow> False
        | Some body \<Rightarrow> finite_num (jget body ''lon'') \<noteq> None \<and> finite_num (jget body ''lat'') \<noteq> None)"

definition geoip_answer :: "jsval option \<Rightarrow> bool" where
  "geoip_answer answer \<longleftrightarrow> (case answer of None \<Rightarrow> False | Some body \<Rightarrow> truthy body \<and> jget body ''source'' = JStr ''geoip'')"

definition geoip :: "(string \<Rightarrow> jsval option) \<Rightarrow> bool" where
  "geoip fetchJSON \<longleftrightarrow> geoip_answer (fetchJSON ''/api/v1/locate'')"

definition first_of :: "(bool \<times> placed_by) list \<Rightarrow> placed_by" where
  "first_of cs = (case find fst cs of Some (_, w) \<Rightarrow> w | None \<Rightarrow> By_Nobody)"

definition home_opening :: "page \<Rightarrow> bool" where
  "home_opening pg \<longleftrightarrow> pg_remember pg \<and> \<not> hasExplicitView (pg_hash pg) (pg_search pg)"

text \<open>The linked sensor, the favourite, the saved view and the visitor's city, in this order.\<close>

definition placed_spec :: "(string \<Rightarrow> jsval option) \<Rightarrow> registry \<Rightarrow> page \<Rightarrow> storage option \<Rightarrow> string option \<Rightarrow> nat \<Rightarrow> nat option \<Rightarrow> placed_by" where
  "placed_spec fetchJSON r pg st slug arrives sensorId = first_of
     [(case sensorId of Some i \<Rightarrow> lookup_finds fetchJSON r i | None \<Rightarrow> False, By_Link),
      (home_opening pg \<and> (case readFavourite st of Some i \<Rightarrow> lookup_finds fetchJSON r i | None \<Rightarrow> False),
         By_Favourite (the (readFavourite st))),
      (home_opening pg \<and> readLastView st \<noteq> None, By_Saved),
      (\<not> has_slug slug \<and> arrives < LOCATE_TIMEOUT_MS \<and> geoip fetchJSON, By_Visitor)]"

lemma deep_link_moves:
  "fst (openDeepLinkedSensor fetchJSON r move (Some i) ps) \<longleftrightarrow> lookup_finds fetchJSON r i"
  by (cases "fetchJSON (sensor_locate_url i)")
    (auto simp: openDeepLinkedSensor_def lookup_finds_def Let_def split: option.splits)

lemma deep_link_none [simp]: "openDeepLinkedSensor fetchJSON r move None ps = (False, ps)"
  by (simp add: openDeepLinkedSensor_def)

lemma deep_link_stays: "openDeepLinkedSensor fetchJSON r move i ps = (False, ps1) \<Longrightarrow> ps1 = ps"
  by (auto simp: openDeepLinkedSensor_def Let_def split: option.splits if_splits)

lemma favourite_moves:
  "fst (openFavouriteSensor fetchJSON r pg st ps) \<longleftrightarrow> home_opening pg
     \<and> (case readFavourite st of Some i \<Rightarrow> lookup_finds fetchJSON r i | None \<Rightarrow> False)"
  using deep_link_moves [of fetchJSON r True]
  by (auto simp: openFavouriteSensor_def home_opening_def resolveOpeningView_def split: option.splits prod.splits) (metis fst_conv)+

lemma favourite_result:
  "openFavouriteSensor fetchJSON r pg st ps = (moved, ps1, i) \<Longrightarrow> (if moved then i = readFavourite st else ps1 = ps)"
  by (auto simp: openFavouriteSensor_def resolveOpeningView_def dest: deep_link_stays split: option.splits prod.splits if_splits)

lemma restore_moves:
  "restoreLastView pg st cam = (if home_opening pg then (case readLastView st of Some v \<Rightarrow> (True, v) | None \<Rightarrow> (False, cam)) else (False, cam))"
  by (auto simp: restoreLastView_def home_opening_def resolveOpeningView_def split: option.splits)

lemma visitor_moves:
  "fst (placeVisitor_within (Some LOCATE_TIMEOUT_MS) home arrives (fetchJSON ''/api/v1/locate'') ps)
     \<longleftrightarrow> arrives < LOCATE_TIMEOUT_MS \<and> geoip fetchJSON"
  "placeVisitor_within t home arrives answer ps = (False, ps1) \<Longrightarrow> ps1 = ps"
  by (auto simp: placeVisitor_within_def placeVisitor_def applyLocate_def geoip_def geoip_answer_def Let_def split: option.splits if_splits)

lemma place_cases:
  "place fetchJSON r pg st slug home arrives sensorId ps =
     (case placed_spec fetchJSON r pg st slug arrives sensorId of
        By_Link \<Rightarrow> (By_Link, snd (openDeepLinkedSensor fetchJSON r True sensorId ps))
      | By_Favourite i \<Rightarrow> (By_Favourite i, fst (snd (openFavouriteSensor fetchJSON r pg st ps)))
      | By_Saved \<Rightarrow> (By_Saved, ps\<lparr>pl_camera := the (readLastView st)\<rparr>)
      | By_Visitor \<Rightarrow> (By_Visitor, snd (placeVisitor_within (Some LOCATE_TIMEOUT_MS) home arrives (fetchJSON ''/api/v1/locate'') ps))
      | By_Late_Visitor \<Rightarrow> (By_Nobody, ps)
      | By_Nobody \<Rightarrow> (By_Nobody, ps))"
proof -
  obtain m1 ps1 where link: "openDeepLinkedSensor fetchJSON r True sensorId ps = (m1, ps1)" by (cases "openDeepLinkedSensor fetchJSON r True sensorId ps")
  have m1: "m1 \<longleftrightarrow> (case sensorId of Some i \<Rightarrow> lookup_finds fetchJSON r i | None \<Rightarrow> False)"
    using link deep_link_moves [of fetchJSON r True] by (cases sensorId) (auto, (metis fst_conv)+)
  obtain m2 ps2 i where fav: "openFavouriteSensor fetchJSON r pg st ps = (m2, ps2, i)" by (cases "openFavouriteSensor fetchJSON r pg st ps") auto
  have m2: "m2 \<longleftrightarrow> home_opening pg \<and> (case readFavourite st of Some i \<Rightarrow> lookup_finds fetchJSON r i | None \<Rightarrow> False)"
    using favourite_moves [of fetchJSON r pg st ps] fav by simp
  obtain m4 ps4 where vis: "placeVisitor_within (Some LOCATE_TIMEOUT_MS) home arrives (fetchJSON ''/api/v1/locate'') ps = (m4, ps4)"
    by (cases "placeVisitor_within (Some LOCATE_TIMEOUT_MS) home arrives (fetchJSON ''/api/v1/locate'') ps")
  have m4: "m4 \<longleftrightarrow> arrives < LOCATE_TIMEOUT_MS \<and> geoip fetchJSON"
    using visitor_moves(1) [of home arrives fetchJSON ps] vis by simp
  show ?thesis
  proof (cases m1)
    case True
    with link m1 show ?thesis by (simp add: place_def placed_spec_def first_of_def)
  next
    case no_link: False
    with link have ps1: "ps1 = ps" by (simp add: deep_link_stays)
    show ?thesis
    proof (cases m2)
      case True
      with no_link link fav favourite_result [OF fav] m1 m2 ps1 show ?thesis
        by (simp add: place_def placed_spec_def first_of_def)
    next
      case False
      with favourite_result [OF fav] have "ps2 = ps" by simp
      with no_link link fav m1 m2 m4 False ps1 vis visitor_moves(2) [of _ home arrives _ ps ps4] show ?thesis
        by (auto simp: place_def placed_spec_def first_of_def restore_moves split: option.splits)
    qed
  qed
qed

lemma favourite_state:
  "home_opening pg \<Longrightarrow> readFavourite st = Some i \<Longrightarrow> lookup_finds fetchJSON r i \<Longrightarrow>
     fst (snd (openFavouriteSensor fetchJSON r pg st ps)) = snd (openDeepLinkedSensor fetchJSON r True (Some i) ps)"
  using deep_link_moves [of fetchJSON r True i ps]
  by (auto simp: openFavouriteSensor_def home_opening_def resolveOpeningView_def split: prod.splits)

lemma favourite_kept:
  "storage_working s \<Longrightarrow> readFavourite (writeLastView lat lng z (Some s)) = readFavourite (Some s)"
proof -
  have "LAST_VIEW_KEY \<noteq> FAVOURITE_KEY" by (simp add: LAST_VIEW_KEY_def FAVOURITE_KEY_def)
  then show "storage_working s \<Longrightarrow> ?thesis"
    using ls.get_put_other [of s FAVOURITE_KEY LAST_VIEW_KEY] keys_owned
    by (simp add: writeLastView_def Let_def readFavourite_def try_get_def try_set_def)
qed

text \<open>The linked sensor, the favourite, the saved view, the visitor's city in time and the visitor's city late.\<close>

definition opened_spec :: "(string \<Rightarrow> jsval option) \<Rightarrow> registry \<Rightarrow> page \<Rightarrow> storage option \<Rightarrow> string option \<Rightarrow> nat \<Rightarrow> nat option
    \<Rightarrow> jsval option \<Rightarrow> placed_by" where
  "opened_spec fetchJSON r pg st slug arrives sensorId late = first_of
     [(case sensorId of Some i \<Rightarrow> lookup_finds fetchJSON r i | None \<Rightarrow> False, By_Link),
      (home_opening pg \<and> (case readFavourite st of Some i \<Rightarrow> lookup_finds fetchJSON r i | None \<Rightarrow> False),
         By_Favourite (the (readFavourite st))),
      (home_opening pg \<and> readLastView st \<noteq> None, By_Saved),
      (\<not> has_slug slug \<and> arrives < LOCATE_TIMEOUT_MS \<and> geoip fetchJSON, By_Visitor),
      (\<not> has_slug slug \<and> geoip_answer late, By_Late_Visitor)]"

definition answered_camera :: "jsval option \<Rightarrow> camera" where
  "answered_camera answer = (let body = (case answer of Some b \<Rightarrow> b | None \<Rightarrow> JNull) in
     \<lparr>cam_lon = the_num (jget body ''lon''), cam_lat = the_num (jget body ''lat''), cam_zoom = the_num (jget body ''zoom'')\<rparr>)"

definition answered_slug :: "jsval option \<Rightarrow> string option" where
  "answered_slug answer = (case answer of Some b \<Rightarrow> as_str (jget b ''slug'') | None \<Rightarrow> None)"

lemma visitor_placed:
  "placeVisitor_within t home arrives answer ps =
     (if geoip_answer answer \<and> (case t of None \<Rightarrow> True | Some l \<Rightarrow> arrives < l)
      then (True, ps\<lparr>pl_camera := answered_camera answer, pl_slug := answered_slug answer\<rparr>) else (False, ps))"
  by (auto simp: placeVisitor_within_def placeVisitor_def applyLocate_def geoip_answer_def answered_camera_def answered_slug_def
    Let_def split: option.splits)

section \<open>Properties\<close>

text \<open>C9. The map opens where it was left: on a working storage a camera that rounds into the bounds of
  the country is read back by the next visit within half a unit of its last digit. The home page,
  when its address names no view, then opens there, whatever the server says of the visitor,
  unless a favourite is starred that the server can place: that one comes first. Any other camera
  leaves the storage untouched, so the key never holds a value its reader would refuse.\<close>

theorem saved_view_round_trip:
  assumes "storage_working s" "st = writeLastView (Fin (cam_lat c)) (Fin (cam_lon c)) (Fin (cam_zoom c)) (Some s)"
  shows "(view_in_bounds (rounded_camera c) \<longrightarrow> readLastView st = Some (rounded_camera c)
      \<and> \<bar>cam_lat (rounded_camera c) - cam_lat c\<bar> \<le> 1 / 20000 \<and> \<bar>cam_lon (rounded_camera c) - cam_lon c\<bar> \<le> 1 / 20000
      \<and> \<bar>cam_zoom (rounded_camera c) - cam_zoom c\<bar> \<le> 1 / 200
      \<and> (home_opening pg \<longrightarrow> restoreLastView pg st cam = (True, rounded_camera c)
          \<and> open_map fetchJSON r pg st slug home arrives None late (\<lambda>ps. ps) ps =
            (case readFavourite (Some s) of
               Some i \<Rightarrow> if lookup_finds fetchJSON r i
                 then (By_Favourite i, snd (openDeepLinkedSensor fetchJSON r True (Some i) ps))
                 else (By_Saved, ps\<lparr>pl_camera := rounded_camera c\<rparr>)
             | None \<Rightarrow> (By_Saved, ps\<lparr>pl_camera := rounded_camera c\<rparr>))))
    \<and> (\<not> view_in_bounds (rounded_camera c) \<longrightarrow> st = Some s)"
proof (intro conjI impI)
  show "\<bar>cam_lat (rounded_camera c) - cam_lat c\<bar> \<le> 1 / 20000" "\<bar>cam_lon (rounded_camera c) - cam_lon c\<bar> \<le> 1 / 20000"
    "\<bar>cam_zoom (rounded_camera c) - cam_zoom c\<bar> \<le> 1 / 200"
    using round_places_dist [of _ 4] round_places_dist [of _ 2] by (simp_all add: rounded_camera_def)
  show "\<not> view_in_bounds (rounded_camera c) \<Longrightarrow> st = Some s"
    by (simp add: assms(2) writeLastView_def Let_def parse_view_json)
  assume b: "view_in_bounds (rounded_camera c)"
  show saved: "readLastView st = Some (rounded_camera c)"
    using writeLastView_working [OF assms(1), of c] b by (simp add: assms(2))
  assume h: "home_opening pg"
  then show "restoreLastView pg st cam = (True, rounded_camera c)" using saved by (simp add: restore_moves)
  have fav: "readFavourite st = readFavourite (Some s)"
    unfolding assms(2) by (rule favourite_kept [OF assms(1)])
  have who: "placed_spec fetchJSON r pg st slug arrives None = (case readFavourite (Some s) of
      Some i \<Rightarrow> if lookup_finds fetchJSON r i then By_Favourite i else By_Saved | None \<Rightarrow> By_Saved)"
    using h saved by (auto simp: placed_spec_def first_of_def fav split: option.splits)
  have p: "place fetchJSON r pg st slug home arrives None ps = (case readFavourite (Some s) of
      Some i \<Rightarrow> if lookup_finds fetchJSON r i
        then (By_Favourite i, snd (openDeepLinkedSensor fetchJSON r True (Some i) ps))
        else (By_Saved, ps\<lparr>pl_camera := rounded_camera c\<rparr>)
    | None \<Rightarrow> (By_Saved, ps\<lparr>pl_camera := rounded_camera c\<rparr>))"
    unfolding place_cases who by (auto simp: saved favourite_state [OF h] fav split: option.splits)
  show "open_map fetchJSON r pg st slug home arrives None late (\<lambda>ps. ps) ps = (case readFavourite (Some s) of
      Some i \<Rightarrow> if lookup_finds fetchJSON r i
        then (By_Favourite i, snd (openDeepLinkedSensor fetchJSON r True (Some i) ps))
        else (By_Saved, ps\<lparr>pl_camera := rounded_camera c\<rparr>)
    | None \<Rightarrow> (By_Saved, ps\<lparr>pl_camera := rounded_camera c\<rparr>))"
    unfolding open_map_def p by (auto split: option.splits)
qed

definition empty_storage :: storage where
  "empty_storage = \<lparr>items = Map.empty, get_throws = False, set_throws = False, remove_throws = False\<rparr>"

definition sofia :: camera where
  "sofia = \<lparr>cam_lon = 23.3219, cam_lat = 42.6977, cam_zoom = 12.5\<rparr>"

lemma empty_storage_working: "storage_working empty_storage"
  by (simp add: empty_storage_def storage_working_def)

lemma sofia_rounded: "rounded_camera sofia = sofia"
  by (simp add: rounded_camera_def sofia_def round_places_def math_round_def)

lemma sofia_in_bounds: "view_in_bounds sofia"
  by (simp add: view_in_bounds_def sofia_def BOUNDS_SOUTH_def BOUNDS_NORTH_def BOUNDS_WEST_def BOUNDS_EAST_def
    MIN_ZOOM_def MAX_ZOOM_CEILING_def)

theorem saved_view_round_trip_witness:
  "readLastView (writeLastView (Fin (cam_lat sofia)) (Fin (cam_lon sofia)) (Fin (cam_zoom sofia)) (Some empty_storage)) = Some sofia"
  using saved_view_round_trip [OF empty_storage_working refl, of sofia] sofia_rounded sofia_in_bounds by simp

text \<open>C8. Who places the map when the page opens: the first that has an answer of the linked sensor; on the
  home page, and only when the address names no view, the favourite and then the saved view; off
  an area page the visitor's city, within the time it is given; and, off an area page and nobody
  having placed it, the visitor's city whenever that answers, which moves the map from wherever it
  is by then. Each leaves the camera, the area and the list of areas it says, and a map that
  nobody places stays as it is.\<close>

theorem opening_refines_precedence:
  "fst (open_map fetchJSON r pg st slug home arrives sensorId late meanwhile ps) = opened_spec fetchJSON r pg st slug arrives sensorId late
    \<and> snd (open_map fetchJSON r pg st slug home arrives sensorId late meanwhile ps) =
      (case opened_spec fetchJSON r pg st slug arrives sensorId late of
         By_Link \<Rightarrow> meanwhile (snd (openDeepLinkedSensor fetchJSON r True sensorId ps))
       | By_Favourite i \<Rightarrow> meanwhile (snd (openDeepLinkedSensor fetchJSON r True (Some i) ps))
       | By_Saved \<Rightarrow> meanwhile (ps\<lparr>pl_camera := the (readLastView st)\<rparr>)
       | By_Visitor \<Rightarrow> meanwhile (ps\<lparr>pl_camera := answered_camera (fetchJSON ''/api/v1/locate''), pl_slug := answered_slug (fetchJSON ''/api/v1/locate'')\<rparr>)
       | By_Late_Visitor \<Rightarrow> (meanwhile ps)\<lparr>pl_camera := answered_camera late, pl_slug := answered_slug late\<rparr>
       | By_Nobody \<Rightarrow> meanwhile ps)"
proof (cases "placed_spec fetchJSON r pg st slug arrives sensorId")
  case By_Nobody
  then have "opened_spec fetchJSON r pg st slug arrives sensorId late =
      (if \<not> has_slug slug \<and> geoip_answer late then By_Late_Visitor else By_Nobody)"
    by (auto simp: opened_spec_def placed_spec_def first_of_def split: if_splits)
  moreover have "place fetchJSON r pg st slug home arrives sensorId ps = (By_Nobody, ps)"
    by (simp add: place_cases By_Nobody)
  ultimately show ?thesis
    by (simp add: open_map_def locateVisitor_def visitor_placed)
next
  case (By_Favourite i)
  then have f: "home_opening pg" "readFavourite st = Some i" "lookup_finds fetchJSON r i"
    by (auto simp: placed_spec_def first_of_def split: if_splits option.splits)
  have "opened_spec fetchJSON r pg st slug arrives sensorId late = By_Favourite i"
    using By_Favourite by (auto simp: opened_spec_def placed_spec_def first_of_def split: if_splits)
  with By_Favourite show ?thesis by (simp add: open_map_def place_cases favourite_state [OF f])
next
  case By_Visitor
  then have v: "geoip_answer (fetchJSON ''/api/v1/locate'')" "arrives < LOCATE_TIMEOUT_MS"
    by (auto simp: placed_spec_def first_of_def geoip_def split: if_splits)
  have "opened_spec fetchJSON r pg st slug arrives sensorId late = By_Visitor"
    using By_Visitor by (auto simp: opened_spec_def placed_spec_def first_of_def split: if_splits)
  with By_Visitor v show ?thesis by (simp add: open_map_def place_cases visitor_placed)
qed (auto simp: open_map_def place_cases opened_spec_def placed_spec_def first_of_def split: if_splits)

definition home_page :: "string \<Rightarrow> page" where
  "home_page hash = \<lparr>pg_hash = Some hash, pg_search = None, pg_remember = True\<rparr>"

definition unplaced :: "camera \<Rightarrow> place_state" where
  "unplaced c = \<lparr>pl_camera = c, pl_slug = None, pl_areas = None\<rparr>"

text \<open>Server and storage of the witness: sensor 7 is starred, a view is saved, and the visitor is in Plovdiv.\<close>

definition witness_server :: "string \<Rightarrow> jsval option" where
  "witness_server url = (if url = ''/api/v1/locate'' then Some (JObj [(''source'', JStr ''geoip''), (''lon'', jreal 24.75),
       (''lat'', jreal 42.15), (''zoom'', jreal 11), (''slug'', JStr ''plovdiv'')])
     else if url = sensor_locate_url 7 then Some (JObj [(''lon'', jreal 27.9), (''lat'', jreal 43.2), (''slug'', JStr ''varna'')])
     else None)"

lemma nothing_held: "findSensor (jreal x) init_registry = None"
  by (simp add: findSensor_def init_registry_def normaliseSensor_def stationMembers_def ids_def col_def)

lemma opening_refines_precedence_witness:
  "fst (open_map witness_server init_registry (home_page []) (writeFavourite 7 (Some empty_storage)) None sofia 20 None None (\<lambda>ps. ps) (unplaced sofia))
     = By_Favourite 7
   \<and> pl_slug (snd (open_map witness_server init_registry (home_page []) (writeFavourite 7 (Some empty_storage)) None sofia 20 None None (\<lambda>ps. ps) (unplaced sofia)))
     = Some ''varna''
   \<and> pl_slug (snd (open_map witness_server init_registry (home_page ''#lat=42.5'') (writeFavourite 7 (Some empty_storage)) None sofia 20 None None (\<lambda>ps. ps) (unplaced sofia)))
     = Some ''plovdiv''
   \<and> pl_slug (snd (open_map witness_server init_registry (home_page ''#lat=42.5'') None None sofia 500 None
        (witness_server ''/api/v1/locate'') (\<lambda>ps. ps) (unplaced sofia))) = Some ''plovdiv''"
proof -
  have fav: "readFavourite (writeFavourite 7 (Some empty_storage)) = Some 7"
    using favourite_written(1) [OF empty_storage_working, of 7] by (simp add: keepable_def MAX_SAFE_INTEGER_def)
  have finds: "lookup_finds witness_server init_registry 7"
    by (simp add: lookup_finds_def witness_server_def sensor_locate_url_def nothing_held)
  have home: "home_opening (home_page [])" "\<not> home_opening (home_page ''#lat=42.5'')" by code_simp+
  have g: "geoip_answer (witness_server ''/api/v1/locate'')" "answered_slug (witness_server ''/api/v1/locate'') = Some ''plovdiv''"
    by (simp_all add: geoip_answer_def answered_slug_def witness_server_def truthy_def)
  note slug = has_slug_def [of None] slug_key_def [of None]
  have "opened_spec witness_server init_registry (home_page []) (writeFavourite 7 (Some empty_storage)) None 20 None None = By_Favourite 7"
    by (simp add: opened_spec_def first_of_def home fav finds)
  moreover have "opened_spec witness_server init_registry (home_page ''#lat=42.5'') (writeFavourite 7 (Some empty_storage)) None 20 None None = By_Visitor"
    by (simp add: opened_spec_def first_of_def home geoip_def g slug LOCATE_TIMEOUT_MS_def)
  moreover have "opened_spec witness_server init_registry (home_page ''#lat=42.5'') None None 500 None (witness_server ''/api/v1/locate'') = By_Late_Visitor"
    by (simp add: opened_spec_def first_of_def home geoip_def g slug LOCATE_TIMEOUT_MS_def)
  moreover have "pl_slug (snd (openDeepLinkedSensor witness_server init_registry True (Some 7) (unplaced sofia))) = Some ''varna''"
    by (simp add: openDeepLinkedSensor_def witness_server_def sensor_locate_url_def nothing_held Let_def
        adopted_slug_def unplaced_def has_slug_def slug_key_def some_areas_def urlFor_def)
  ultimately show ?thesis
    using opening_refines_precedence [of witness_server init_registry "home_page []" "writeFavourite 7 (Some empty_storage)" None sofia 20 None None "\<lambda>ps. ps" "unplaced sofia"]
      opening_refines_precedence [of witness_server init_registry "home_page ''#lat=42.5''" "writeFavourite 7 (Some empty_storage)" None sofia 20 None None "\<lambda>ps. ps" "unplaced sofia"]
      opening_refines_precedence [of witness_server init_registry "home_page ''#lat=42.5''" None None sofia 500 None "witness_server ''/api/v1/locate''" "\<lambda>ps. ps" "unplaced sofia"]
    by (simp add: g)
qed

text \<open>A view the address names is not kept from the geoip placement: on the home page an address that
  names a view but no sensor passes over the saved view and the favourite, nothing applies the
  named view, and the visitor's city, answered in time, moves the camera.\<close>

theorem explicit_view_yields_to_geoip:
  assumes "hasExplicitView (pg_hash pg) (pg_search pg)" "\<not> has_slug slug" "geoip fetchJSON" "arrives < LOCATE_TIMEOUT_MS"
    "fetchJSON ''/api/v1/locate'' = Some body"
  shows "fst (place fetchJSON r pg st slug home arrives None ps) = By_Visitor
    \<and> pl_camera (snd (place fetchJSON r pg st slug home arrives None ps))
        = \<lparr>cam_lon = the_num (jget body ''lon''), cam_lat = the_num (jget body ''lat''), cam_zoom = the_num (jget body ''zoom'')\<rparr>"
proof -
  have "placed_spec fetchJSON r pg st slug arrives None = By_Visitor"
    using assms by (simp add: placed_spec_def first_of_def home_opening_def)
  with assms show ?thesis
    by (simp add: place_cases placeVisitor_within_def placeVisitor_def applyLocate_def geoip_def geoip_answer_def Let_def)
qed

definition geoip_server :: "string \<Rightarrow> jsval option" where
  "geoip_server url = (if url = ''/api/v1/locate'' then Some (JObj [(''source'', JStr ''geoip''), (''lon'', jreal 24.75),
     (''lat'', jreal 42.15), (''zoom'', jreal 11), (''slug'', JStr ''plovdiv'')]) else None)"

theorem explicit_view_yields_to_geoip_witness:
  "pl_camera (snd (place geoip_server init_registry (home_page ''#lat=42.5&lng=27.5&zoom=14'') None None sofia 20 None (unplaced sofia)))
     = \<lparr>cam_lon = 24.75, cam_lat = 42.15, cam_zoom = 11\<rparr>"
proof -
  have "hasExplicitView (pg_hash (home_page ''#lat=42.5&lng=27.5&zoom=14'')) (pg_search (home_page ''#lat=42.5&lng=27.5&zoom=14''))"
    by code_simp
  moreover have "geoip geoip_server" by (simp add: geoip_def geoip_answer_def geoip_server_def truthy_def)
  ultimately show ?thesis
    using explicit_view_yields_to_geoip [of "home_page ''#lat=42.5&lng=27.5&zoom=14''" None geoip_server 20
        "JObj [(''source'', JStr ''geoip''), (''lon'', jreal 24.75), (''lat'', jreal 42.15), (''zoom'', jreal 11), (''slug'', JStr ''plovdiv'')]"
        init_registry None sofia "unplaced sofia"]
    by (simp add: has_slug_def slug_key_def LOCATE_TIMEOUT_MS_def geoip_server_def the_num_def)
qed

lemma toggle_step:
  assumes "map_option storage_working (fs_storage fs) = Some True" "fs_id fs = readFavourite (fs_storage fs)" "keepable (Some i)"
  shows "map_option storage_working (fs_storage (toggle_favourite i fs)) = Some True
    \<and> fs_id (toggle_favourite i fs) = readFavourite (fs_storage (toggle_favourite i fs))"
proof -
  obtain s where "fs_storage fs = Some s" "storage_working s" using assms(1) by auto
  with favourite_written [OF this(2) assms(3)] writes_keep_working [OF assms(1)] show ?thesis
    by (auto simp: toggle_favourite_def)
qed

text \<open>Every star agrees with the storage: after any toggles of valid sensors on a working storage the
  shared store names the sensor a new visit would read, and toggling a sensor twice from no
  favourite leaves no favourite.\<close>

theorem favourite_store_in_step:
  assumes "storage_working s" "\<forall>i \<in> set js. keepable (Some i)" "fs = fold toggle_favourite js (createFavouriteStore (Some s))"
  shows "fs_id fs = readFavourite (fs_storage fs)
    \<and> (keepable (Some j) \<and> fs_id fs = None \<longrightarrow> readFavourite (fs_storage (toggle_favourite j (toggle_favourite j fs))) = None)"
proof -
  have inv: "map_option storage_working (fs_storage fs) = Some True \<and> fs_id fs = readFavourite (fs_storage fs)"
    if "\<forall>i \<in> set js. keepable (Some i)" "map_option storage_working (fs_storage f0) = Some True"
      "fs_id f0 = readFavourite (fs_storage f0)" "fs = fold toggle_favourite js f0" for f0 fs js
    using that toggle_step by (induction js arbitrary: f0) auto
  have start: "map_option storage_working (fs_storage (createFavouriteStore (Some s))) = Some True"
    "fs_id (createFavouriteStore (Some s)) = readFavourite (fs_storage (createFavouriteStore (Some s)))"
    using assms(1) by (simp_all add: createFavouriteStore_def)
  from inv [OF assms(2) start assms(3)]
  have fs: "map_option storage_working (fs_storage fs) = Some True" "fs_id fs = readFavourite (fs_storage fs)" by auto
  moreover have "readFavourite (fs_storage (toggle_favourite j (toggle_favourite j fs))) = None"
    if j: "keepable (Some j)" "fs_id fs = None"
  proof -
    note one = toggle_step [OF fs j(1)]
    have "fs_id (toggle_favourite j fs) = Some j" using j(2) by (simp add: toggle_favourite_def)
    then have "fs_id (toggle_favourite j (toggle_favourite j fs)) = None" by (simp add: toggle_favourite_def [of j "toggle_favourite j fs"])
    with toggle_step [OF conjunct1 [OF one] conjunct2 [OF one] j(1)] show ?thesis by simp
  qed
  ultimately show ?thesis by blast
qed

theorem favourite_store_in_step_witness:
  "readFavourite (fs_storage (fold toggle_favourite [5, 7] (createFavouriteStore (Some empty_storage)))) = Some 7"
proof -
  have "\<forall>i \<in> set [5, 7]. keepable (Some i)" by (simp add: keepable_def MAX_SAFE_INTEGER_def)
  moreover have "fs_id (createFavouriteStore (Some empty_storage)) = None"
    by (simp add: createFavouriteStore_def readFavourite_def try_get_def empty_storage_def storage_op_defs parseFavourite_def
      split: option.splits)
  then have "fs_id (fold toggle_favourite [5, 7] (createFavouriteStore (Some empty_storage))) = Some 7"
    by (simp add: toggle_favourite_def)
  ultimately show ?thesis using favourite_store_in_step [OF empty_storage_working _ refl, of "[5, 7]" 1] by simp
qed

text \<open>C10. A pending save records whatever camera it finds: when a placement moves the map between the
  visitor's own pan and the debounced write, the view kept for the next visit is the placed one,
  which the visitor never chose.\<close>

theorem pending_save_records_placement:
  assumes "storage_working s" "tk_storage t = Some s" "d < SAVE_DEBOUNCE_MS" "view_in_bounds (rounded_camera fix_camera)"
  shows "readLastView (tk_storage (fold (trackLastView True) [Moved panned True, Elapsed d, Moved fix_camera False, Elapsed SAVE_DEBOUNCE_MS] t))
    = Some (rounded_camera fix_camera)"
proof -
  have "fold (trackLastView True) [Moved panned True, Elapsed d, Moved fix_camera False, Elapsed SAVE_DEBOUNCE_MS] t
    = save_camera (t\<lparr>tk_timer := Some (SAVE_DEBOUNCE_MS - d), tk_camera := fix_camera\<rparr>)"
    using assms(3) by simp
  then show ?thesis
    using writeLastView_working [OF assms(1), of fix_camera] assms(2,4) by (simp add: save_camera_def)
qed

theorem pending_save_records_placement_witness:
  "readLastView (tk_storage (fold (trackLastView True) [Moved \<lparr>cam_lon = 25, cam_lat = 43, cam_zoom = 7\<rparr> True, Elapsed 100,
     Moved sofia False, Elapsed SAVE_DEBOUNCE_MS] \<lparr>tk_timer = None, tk_camera = sofia, tk_storage = Some empty_storage\<rparr>)) = Some sofia"
  using pending_save_records_placement [OF empty_storage_working, of "\<lparr>tk_timer = None, tk_camera = sofia, tk_storage = Some empty_storage\<rparr>"
      100 sofia "\<lparr>cam_lon = 25, cam_lat = 43, cam_zoom = 7\<rparr>"] sofia_rounded sofia_in_bounds
  by (simp add: SAVE_DEBOUNCE_MS_def)

end
