(* ===== verification/Overlays.thy ===== *)
theory Overlays
  imports Wind_Field Layers_Menu Opening
begin

text \<open>
  The two overlays the map fetches on demand, the forecast wind (\<open>web/src/lib/mapwind.js\<close>) and the
  province outlines (\<open>boundaries.js\<close>, \<open>mapboundaries.js\<close>), each with the checkbox that drives it. A
  request runs up to an \<open>await\<close>; its continuation is an event of its own, so changes of the
  box may come between. The locale \<open>settling_overlay\<close> states what the box needs of an overlay to
  agree with it; it is interpreted on both.
\<close>

section \<open>The wind (mapwind.js)\<close>

text \<open>
  What the screen shows: the arrow layer with its data, the streak canvases, and the disclosure: the
  row of the colour key (\<open>wi_row\<close>) and the note with its text (\<open>wi_shown\<close>).
\<close>

record wind =
  wi_on :: bool
  wi_body :: jsval
  wi_loading :: bool
  wi_streaks :: "nat option"
  wi_canvases :: "nat list"
  wi_next :: nat
  wi_arrows :: bool
  wi_drawn :: "wind_feature list"
  wi_row :: bool
  wi_shown :: bool
  wi_text :: string
  wi_mode :: string

definition init_wind :: wind where
  "init_wind = \<lparr>wi_on = False, wi_body = JNull, wi_loading = False, wi_streaks = None, wi_canvases = [], wi_next = 0,
     wi_arrows = False, wi_drawn = [], wi_row = False, wi_shown = False, wi_text = [], wi_mode = ''streaks''\<rparr>"

text \<open>The page around the overlay: viewport, texts, and what decides between streaks and arrows.\<close>

record wind_page =
  wp_bounds :: bounds
  wp_zoom :: real
  wp_texts :: wind_texts
  wp_time :: "string \<Rightarrow> string"
  wp_search :: string
  wp_reduced :: bool

text \<open>\<open>showWind\<close> of \<open>chrome.js\<close>: the note is hidden when there is nothing to say.\<close>

definition showWind :: "bool \<Rightarrow> string \<Rightarrow> string \<Rightarrow> wind \<Rightarrow> wind" where
  "showWind on txt mode w = w\<lparr>wi_row := on, wi_shown := (on \<and> txt \<noteq> []), wi_text := (if on then txt else []), wi_mode := mode\<rparr>"

definition stop_streaks :: "wind \<Rightarrow> wind" where
  "stop_streaks w = (case wi_streaks w of None \<Rightarrow> w
     | Some h \<Rightarrow> w\<lparr>wi_canvases := filter (\<lambda>c. c \<noteq> h) (wi_canvases w)\<rparr>)"

definition paintWind :: "wind_page \<Rightarrow> wind \<Rightarrow> wind" where
  "paintWind pg w = (if \<not> truthy (wi_body w) \<or> wi_streaks w \<noteq> None then w
     else w\<lparr>wi_drawn := windField (wi_body w) (wp_bounds pg) (wp_zoom pg)\<rparr>)"

text \<open>One overlay per map: starting streaks stops whatever ran before.\<close>

definition startStreaks :: "wind \<Rightarrow> wind" where
  "startStreaks w = w\<lparr>wi_streaks := Some (wi_next w), wi_canvases := [wi_next w], wi_next := Suc (wi_next w)\<rparr>"

text \<open>What a call does next: it is over with the state it reached, or it awaits.\<close>

datatype wind_call = Settled bool | Await_Body | Await_Streaks

definition setWind :: "wind_page \<Rightarrow> bool \<Rightarrow> wind \<Rightarrow> wind_call \<times> wind" where
  "setWind pg on w = (if \<not> on then
       (Settled False, showWind False [] ''streaks'' ((stop_streaks (w\<lparr>wi_on := False, wi_arrows := False\<rparr>))\<lparr>wi_streaks := None\<rparr>))
     else if wi_loading w then (Settled (wi_on w), w)
     else if \<not> truthy (wi_body w) then (Await_Body, w\<lparr>wi_loading := True\<rparr>)
     else (Await_Streaks, paintWind pg w))"

text \<open>The fetch has answered: a body, or \<open>None\<close> when it was rejected.\<close>

definition wind_body_answers :: "wind_page \<Rightarrow> jsval option \<Rightarrow> wind \<Rightarrow> wind_call \<times> wind" where
  "wind_body_answers pg answer w = (case answer of
      None \<Rightarrow> (Settled False, (showWind False [] ''streaks'' w)\<lparr>wi_loading := False\<rparr>)
    | Some b \<Rightarrow> (Await_Streaks, paintWind pg (w\<lparr>wi_body := b, wi_loading := False\<rparr>)))"

text \<open>The streaks module is there, or was not wanted.\<close>

definition wind_streaks_answer :: "wind_page \<Rightarrow> wind \<Rightarrow> wind_call \<times> wind" where
  "wind_streaks_answer pg w = (let streaks = (windfxMode (wp_search pg) (wp_reduced pg) = ''streaks'');
       w1 = (if streaks then startStreaks (stop_streaks w) else w)
     in (Settled True, showWind True (windLabel (wp_time pg) (wp_texts pg) (wi_body w1)) (if streaks then ''streaks'' else ''arrows'')
           (w1\<lparr>wi_arrows := \<not> streaks, wi_on := True\<rparr>)))"

text \<open>\<open>refreshWind\<close> up to its own \<open>setWind\<close>; the first component says whether the forecast was dropped.\<close>

definition refreshWind :: "wind_page \<Rightarrow> int \<Rightarrow> wind \<Rightarrow> bool \<times> wind_call \<times> wind" where
  "refreshWind pg now w = (if \<not> windIsStale (wi_body w) now then (False, Settled (wi_on w), w)
     else let w1 = w\<lparr>wi_body := JNull\<rparr>
       in (True, if wi_on w1 then setWind pg True w1 else (Settled (wi_on w1), w1)))"

section \<open>The wind with its box\<close>

text \<open>
  Who waits for a call: the box, with the state it asked for, or the page (the menu being built,
  the hourly refresh), which ignores the answer. The calls awaiting the body and those awaiting
  the streaks are kept apart.
\<close>

datatype asker = Box bool | Page

record wind_ui =
  wu_wind :: wind
  wu_box :: bool
  wu_bodies :: "asker list"
  wu_streaks :: "asker list"

definition answer_asker :: "asker \<Rightarrow> bool \<Rightarrow> bool \<Rightarrow> bool" where
  "answer_asker who reached box = (case who of Page \<Rightarrow> box | Box asked \<Rightarrow> if reached = asked then box else reached)"

definition go_on :: "asker \<Rightarrow> wind_call \<times> wind \<Rightarrow> wind_ui \<Rightarrow> wind_ui" where
  "go_on who r u = (case r of (c, w) \<Rightarrow> (case c of
      Settled reached \<Rightarrow> u\<lparr>wu_wind := w, wu_box := answer_asker who reached (wu_box u)\<rparr>
    | Await_Body \<Rightarrow> u\<lparr>wu_wind := w, wu_bodies := wu_bodies u @ [who]\<rparr>
    | Await_Streaks \<Rightarrow> u\<lparr>wu_wind := w, wu_streaks := wu_streaks u @ [who]\<rparr>))"

datatype wind_event =
    Box_Changed bool
  | Built bool
  | Body_Answers "jsval option"
  | Streaks_Answer
  | Refreshed int
  | Camera_Moved

fun wind_step :: "wind_page \<Rightarrow> wind_event \<Rightarrow> wind_ui \<Rightarrow> wind_ui" where
  "wind_step pg (Box_Changed on) u = go_on (Box on) (setWind pg on (wu_wind u)) (u\<lparr>wu_box := on\<rparr>)"
| "wind_step pg (Built on) u = go_on Page (setWind pg on (wu_wind u)) (u\<lparr>wu_box := on\<rparr>)"
| "wind_step pg (Body_Answers b) u = (case wu_bodies u of [] \<Rightarrow> u
     | who # rest \<Rightarrow> go_on who (wind_body_answers pg b (wu_wind u)) (u\<lparr>wu_bodies := rest\<rparr>))"
| "wind_step pg Streaks_Answer u = (case wu_streaks u of [] \<Rightarrow> u
     | who # rest \<Rightarrow> go_on who (wind_streaks_answer pg (wu_wind u)) (u\<lparr>wu_streaks := rest\<rparr>))"
| "wind_step pg (Refreshed now) u = go_on Page (snd (refreshWind pg now (wu_wind u))) u"
| "wind_step pg Camera_Moved u = (if wi_on (wu_wind u) then u\<lparr>wu_wind := paintWind pg (wu_wind u)\<rparr> else u)"

definition init_wind_ui :: "bool \<Rightarrow> wind_ui" where
  "init_wind_ui box = \<lparr>wu_wind = init_wind, wu_box = box, wu_bodies = [], wu_streaks = []\<rparr>"

definition wind_run :: "wind_page \<Rightarrow> wind_event list \<Rightarrow> wind_ui \<Rightarrow> wind_ui" where
  "wind_run pg es u = fold (wind_step pg) es u"

lemma wind_run_append: "wind_run pg (es @ fs) u = wind_run pg fs (wind_run pg es u)"
  by (simp add: wind_run_def)

section \<open>The outlines' geometry (boundaries.js)\<close>

text \<open>A position is an array that starts with two numbers; everything else is walked.\<close>

record box =
  bx_west :: real
  bx_south :: real
  bx_east :: real
  bx_north :: real

definition grow :: "real \<Rightarrow> real \<Rightarrow> box option \<Rightarrow> box option" where
  "grow lon lat b = Some (case b of None \<Rightarrow> \<lparr>bx_west = lon, bx_south = lat, bx_east = lon, bx_north = lat\<rparr>
     | Some x \<Rightarrow> \<lparr>bx_west = min (bx_west x) lon, bx_south = min (bx_south x) lat,
          bx_east = max (bx_east x) lon, bx_north = max (bx_north x) lat\<rparr>)"

definition position_of :: "jsval list \<Rightarrow> (real \<times> real) option" where
  "position_of vs = (case vs of a # b # _ \<Rightarrow>
       (case (finite_num a, finite_num b) of (Some lon, Some lat) \<Rightarrow> Some (lon, lat) | _ \<Rightarrow> None)
     | _ \<Rightarrow> None)"

fun walk :: "jsval \<Rightarrow> box option \<Rightarrow> box option" where
  "walk (JArr vs) b = (case position_of vs of Some (lon, lat) \<Rightarrow> grow lon lat b
     | None \<Rightarrow> fold walk vs b)"
| "walk _ b = b"

definition boundsOf :: "jsval \<Rightarrow> box option" where
  "boundsOf feature = walk (jget (jget feature ''geometry'') ''coordinates'') None"

definition findBoundary :: "jsval \<Rightarrow> string option \<Rightarrow> jsval option" where
  "findBoundary body slug = (if \<not> has_slug slug then None
     else find (\<lambda>f. jget (jget f ''properties'') ''slug'' = JStr (slug_key slug)) (elems (jget body ''features'')))"

text \<open>The slug the highlight layer keeps; the empty one matches nothing.\<close>

definition selectedFilter :: "string option \<Rightarrow> string" where
  "selectedFilter slug = slug_key slug"

section \<open>The outlines' control (mapboundaries.js)\<close>

record outlines =
  ou_on :: bool
  ou_body :: jsval
  ou_loading :: bool
  ou_visible :: bool
  ou_data :: jsval
  ou_selected :: string

definition init_outlines :: outlines where
  "init_outlines = \<lparr>ou_on = False, ou_body = JNull, ou_loading = False, ou_visible = False, ou_data = JNull, ou_selected = []\<rparr>"

definition boundaryChoice :: "string option \<Rightarrow> jsval \<Rightarrow> string option" where
  "boundaryChoice slug feature = (if has_slug slug then None
     else case jget (jget feature ''properties'') ''slug'' of JStr s \<Rightarrow> if s = [] then None else Some s | _ \<Rightarrow> None)"

definition highlightBoundary :: "string option \<Rightarrow> outlines \<Rightarrow> outlines" where
  "highlightBoundary slug o' = o'\<lparr>ou_selected := selectedFilter slug\<rparr>"

text \<open>\<open>Some reached\<close> when the call is over, \<open>None\<close> when it awaits the collection.\<close>

definition paint_outlines :: "string option \<Rightarrow> outlines \<Rightarrow> bool option \<times> outlines" where
  "paint_outlines slug o' = (Some True, (highlightBoundary slug (o'\<lparr>ou_data := ou_body o'\<rparr>))\<lparr>ou_visible := True, ou_on := True\<rparr>)"

definition setBoundaries :: "string option \<Rightarrow> bool \<Rightarrow> outlines \<Rightarrow> bool option \<times> outlines" where
  "setBoundaries slug on o' = (if \<not> on then (Some False, o'\<lparr>ou_on := False, ou_visible := False\<rparr>)
     else if ou_loading o' then (Some (ou_on o'), o')
     else if \<not> truthy (ou_body o') then (None, o'\<lparr>ou_loading := True\<rparr>)
     else paint_outlines slug o')"

definition boundaries_answer :: "string option \<Rightarrow> jsval option \<Rightarrow> outlines \<Rightarrow> bool option \<times> outlines" where
  "boundaries_answer slug answer o' = (case answer of
      None \<Rightarrow> (Some False, o'\<lparr>ou_visible := False, ou_loading := False\<rparr>)
    | Some b \<Rightarrow> paint_outlines slug (o'\<lparr>ou_body := b, ou_loading := False\<rparr>))"

text \<open>The area an aggregate cell click selects: \<open>lngLat\<close> is missing when the event has no position.\<close>

definition cellArea :: "string option \<Rightarrow> jsval list option \<Rightarrow> (real \<times> real) option \<Rightarrow> string option" where
  "cellArea slug areas lngLat = (case lngLat of None \<Rightarrow> None
     | Some pt \<Rightarrow> if has_slug slug then None
         else Option.bind (nearestArea pt areas) (\<lambda>a. as_str (jget a ''slug'')))"

section \<open>A box and its overlay\<close>

text \<open>
  A change of the box that is left to finish: \<open>turn\<close> runs the request of an overlay to its end with
  the answer \<open>out\<close> of its fetch, and the box takes the state reached.
\<close>

definition box_turn :: "('o \<Rightarrow> bool \<Rightarrow> 's \<Rightarrow> bool \<times> 's) \<Rightarrow> 'o \<times> bool \<Rightarrow> bool \<times> 's \<Rightarrow> bool \<times> 's" where
  "box_turn turn c st = (case turn (fst c) (snd c) (snd st) of (reached, s') \<Rightarrow> (answer_asker (Box (snd c)) reached (snd c), s'))"

locale settling_overlay =
  fixes turn :: "'o \<Rightarrow> bool \<Rightarrow> 's \<Rightarrow> bool \<times> 's"
    and drawn :: "'s \<Rightarrow> bool"
    and sound :: "'s \<Rightarrow> bool"
    and usable :: "'o \<Rightarrow> bool"
  assumes turn_sound: "sound s \<Longrightarrow> usable out \<Longrightarrow> turn out on s = (reached, s') \<Longrightarrow> sound s' \<and> reached = drawn s'"
    and turn_off: "sound s \<Longrightarrow> turn out False s = (reached, s') \<Longrightarrow> \<not> reached"
begin

lemma box_turn_agrees:
  "sound s \<Longrightarrow> usable out \<Longrightarrow> box_turn turn (out, on) (b, s) = (b', s') \<Longrightarrow> sound s' \<and> b' = drawn s'"
  using turn_sound [of s out on] by (auto simp: box_turn_def answer_asker_def split: prod.splits if_splits)

lemma box_turns_agree:
  "sound s \<Longrightarrow> b = drawn s \<Longrightarrow> \<forall>c \<in> set cs. usable (fst c) \<Longrightarrow> fold (box_turn turn) cs (b, s) = (b', s') \<Longrightarrow>
     sound s' \<and> b' = drawn s'"
proof (induction cs arbitrary: b s)
  case (Cons c cs)
  obtain b1 s1 where t: "box_turn turn c (b, s) = (b1, s1)" by (cases "box_turn turn c (b, s)")
  obtain out on where c: "c = (out, on)" by (cases c)
  have "sound s1 \<and> b1 = drawn s1" using Cons.prems t box_turn_agrees [of s out on b] unfolding c by auto
  with Cons t show ?case by auto
qed simp

lemma last_off_hides:
  "sound s \<Longrightarrow> b = drawn s \<Longrightarrow> \<forall>c \<in> set cs. usable (fst c) \<Longrightarrow> usable out \<Longrightarrow>
     fold (box_turn turn) (cs @ [(out, False)]) (b, s) = (b', s') \<Longrightarrow> \<not> b' \<and> \<not> drawn s'"
proof -
  assume a: "sound s" "b = drawn s" "\<forall>c \<in> set cs. usable (fst c)" "usable out"
    "fold (box_turn turn) (cs @ [(out, False)]) (b, s) = (b', s')"
  obtain b1 s1 where m: "fold (box_turn turn) cs (b, s) = (b1, s1)" by (cases "fold (box_turn turn) cs (b, s)")
  from box_turns_agree [OF a(1-3) m] have "sound s1" by simp
  moreover have t: "box_turn turn (out, False) (b1, s1) = (b', s')" using a(5) m by simp
  ultimately show ?thesis
    using box_turn_agrees [of s1 out False b1 b' s'] turn_off [of s1 out] a(4)
    by (auto simp: box_turn_def answer_asker_def split: prod.splits if_splits)
qed

end

definition wind_turn :: "wind_page \<Rightarrow> jsval option \<Rightarrow> bool \<Rightarrow> wind \<Rightarrow> bool \<times> wind" where
  "wind_turn pg out on w = (let streaks = (\<lambda>w. case wind_streaks_answer pg w of (c, w') \<Rightarrow> (c = Settled True, w')) in
     case setWind pg on w of
       (Settled r, w1) \<Rightarrow> (r, w1)
     | (Await_Streaks, w1) \<Rightarrow> streaks w1
     | (Await_Body, w1) \<Rightarrow> (case wind_body_answers pg out w1 of
           (Settled r, w2) \<Rightarrow> (r, w2)
         | (_, w2) \<Rightarrow> streaks w2))"

definition wind_visible :: "wind \<Rightarrow> bool" where
  "wind_visible w \<longleftrightarrow> wi_arrows w \<or> wi_streaks w \<noteq> None"

definition wind_sound :: "wind \<Rightarrow> bool" where
  "wind_sound w \<longleftrightarrow> \<not> wi_loading w \<and> (wi_on w \<longleftrightarrow> wind_visible w) \<and> (wi_on w \<longrightarrow> truthy (wi_body w))"

definition usable_answer :: "jsval option \<Rightarrow> bool" where
  "usable_answer out \<longleftrightarrow> (case out of Some b \<Rightarrow> truthy b | None \<Rightarrow> True)"

lemma wind_simps [simp]:
  "wi_on (stop_streaks w) = wi_on w" "wi_body (stop_streaks w) = wi_body w" "wi_loading (stop_streaks w) = wi_loading w"
  "wi_row (stop_streaks w) = wi_row w" "wi_row (paintWind pg w) = wi_row w"
  "wi_arrows (stop_streaks w) = wi_arrows w" "wi_shown (stop_streaks w) = wi_shown w" "wi_streaks (stop_streaks w) = wi_streaks w"
  "wi_on (paintWind pg w) = wi_on w" "wi_body (paintWind pg w) = wi_body w" "wi_loading (paintWind pg w) = wi_loading w"
  "wi_arrows (paintWind pg w) = wi_arrows w" "wi_shown (paintWind pg w) = wi_shown w" "wi_streaks (paintWind pg w) = wi_streaks w"
  "wi_canvases (paintWind pg w) = wi_canvases w"
  by (simp_all add: stop_streaks_def paintWind_def split: option.split)

lemmas wind_op_defs = setWind_def wind_body_answers_def wind_streaks_answer_def showWind_def startStreaks_def Let_def

interpretation wind_box: settling_overlay "wind_turn pg" wind_visible wind_sound usable_answer for pg
proof
  fix s s' :: wind and out on reached
  assume s: "wind_sound s"
  show "wind_sound s' \<and> reached = wind_visible s'" if "usable_answer out" "wind_turn pg out on s = (reached, s')"
    using s that by (cases out) (auto simp: wind_turn_def wind_op_defs wind_sound_def wind_visible_def usable_answer_def split: if_splits)
  show "\<not> reached" if "wind_turn pg out False s = (reached, s')"
    using that by (simp add: wind_turn_def wind_op_defs)
qed

definition outlines_turn :: "string option \<Rightarrow> jsval option \<Rightarrow> bool \<Rightarrow> outlines \<Rightarrow> bool \<times> outlines" where
  "outlines_turn slug out on o' = (case setBoundaries slug on o' of
      (Some r, o1) \<Rightarrow> (r, o1)
    | (None, o1) \<Rightarrow> (case boundaries_answer slug out o1 of (r, o2) \<Rightarrow> (r = Some True, o2)))"

definition outlines_sound :: "outlines \<Rightarrow> bool" where
  "outlines_sound o' \<longleftrightarrow> \<not> ou_loading o' \<and> (ou_on o' \<longleftrightarrow> ou_visible o') \<and> (ou_on o' \<longrightarrow> truthy (ou_body o'))"

lemmas outlines_op_defs = setBoundaries_def boundaries_answer_def paint_outlines_def highlightBoundary_def

interpretation outline_box: settling_overlay "outlines_turn slug" ou_visible outlines_sound usable_answer for slug
proof
  fix s s' :: outlines and out on reached
  assume s: "outlines_sound s"
  show "outlines_sound s' \<and> reached = ou_visible s'" if "usable_answer out" "outlines_turn slug out on s = (reached, s')"
    using s that by (cases out) (auto simp: outlines_turn_def outlines_op_defs outlines_sound_def usable_answer_def split: if_splits)
  show "\<not> reached" if "outlines_turn slug out False s = (reached, s')"
    using that by (simp add: outlines_turn_def outlines_op_defs)
qed

section \<open>The wind under interleaving\<close>

definition wind_inv :: "wind_ui \<Rightarrow> bool" where
  "wind_inv u \<longleftrightarrow> (let w = wu_wind u in (wi_shown w \<longrightarrow> wi_row w) \<and> (wi_row w \<longrightarrow> wi_on w) \<and> (wi_on w \<longleftrightarrow> wind_visible w)
     \<and> wi_canvases w = (case wi_streaks w of None \<Rightarrow> [] | Some h \<Rightarrow> [h])
     \<and> length (wu_bodies u) = (if wi_loading w then 1 else 0))"

definition wind_disclosed :: "wind_ui \<Rightarrow> bool" where
  "wind_disclosed u \<longleftrightarrow> (wi_on (wu_wind u) \<longrightarrow> wi_row (wu_wind u))"

lemma stop_streaks_canvases [simp]:
  "wi_canvases w = (case wi_streaks w of None \<Rightarrow> [] | Some h \<Rightarrow> [h]) \<Longrightarrow> wi_canvases (stop_streaks w) = []"
  by (auto simp: stop_streaks_def split: option.splits)

lemma wind_inv_init: "wind_inv (init_wind_ui b) \<and> wind_disclosed (init_wind_ui b)"
  by (simp add: wind_inv_def wind_disclosed_def init_wind_ui_def init_wind_def wind_visible_def)

lemma wind_inv_set:
  assumes "wind_inv u"
  shows "wind_inv (go_on who (setWind pg on (wu_wind u)) (u\<lparr>wu_box := b\<rparr>))
    \<and> (wind_disclosed u \<longrightarrow> wind_disclosed (go_on who (setWind pg on (wu_wind u)) (u\<lparr>wu_box := b\<rparr>)))"
  using assms
  by (auto simp: wind_inv_def wind_disclosed_def go_on_def wind_op_defs wind_visible_def split: if_splits)

lemma wind_inv_body:
  assumes "wind_inv u" "wu_bodies u = who # rest"
  shows "wind_inv (go_on who (wind_body_answers pg ans (wu_wind u)) (u\<lparr>wu_bodies := rest\<rparr>))
    \<and> (wind_disclosed u \<and> ans \<noteq> None \<longrightarrow> wind_disclosed (go_on who (wind_body_answers pg ans (wu_wind u)) (u\<lparr>wu_bodies := rest\<rparr>)))"
  using assms
  by (auto simp: wind_inv_def wind_disclosed_def go_on_def wind_op_defs wind_visible_def split: if_splits option.splits)

lemma wind_inv_streaks:
  assumes "wind_inv u" "wu_streaks u = who # rest"
  shows "wind_inv (go_on who (wind_streaks_answer pg (wu_wind u)) (u\<lparr>wu_streaks := rest\<rparr>))
    \<and> wind_disclosed (go_on who (wind_streaks_answer pg (wu_wind u)) (u\<lparr>wu_streaks := rest\<rparr>))"
  using assms
  by (auto simp: wind_inv_def wind_disclosed_def go_on_def wind_op_defs wind_visible_def split: if_splits)

lemma go_on_wind: "go_on who r (u\<lparr>wu_wind := w\<rparr>) = go_on who r u"
  by (cases r) (simp add: go_on_def split: wind_call.split)

lemma wind_inv_same [simp]:
  "wind_inv (u\<lparr>wu_box := b\<rparr>) = wind_inv u" "wind_disclosed (u\<lparr>wu_box := b\<rparr>) = wind_disclosed u"
  by (simp_all add: wind_inv_def wind_disclosed_def)

lemma wind_inv_drop [simp]:
  "wind_inv (u\<lparr>wu_wind := (wu_wind u)\<lparr>wi_body := v\<rparr>\<rparr>) = wind_inv u"
  "wind_disclosed (u\<lparr>wu_wind := (wu_wind u)\<lparr>wi_body := v\<rparr>\<rparr>) = wind_disclosed u"
  by (simp_all add: wind_inv_def wind_disclosed_def wind_visible_def Let_def)

lemma go_on_settled: "go_on who (Settled r, w) u = u\<lparr>wu_wind := w, wu_box := answer_asker who r (wu_box u)\<rparr>"
  by (simp add: go_on_def)

lemma wind_inv_refresh:
  assumes "wind_inv u"
  shows "wind_inv (go_on who (snd (refreshWind pg now (wu_wind u))) u)
    \<and> (wind_disclosed u \<longrightarrow> wind_disclosed (go_on who (snd (refreshWind pg now (wu_wind u))) u))"
proof (cases "windIsStale (wi_body (wu_wind u)) now")
  case True
  let ?w = "(wu_wind u)\<lparr>wi_body := JNull\<rparr>"
  show ?thesis
  proof (cases "wi_on (wu_wind u)")
    case on: True
    have "wind_inv (u\<lparr>wu_wind := ?w\<rparr>)" using assms by simp
    from wind_inv_set [OF this, of who pg True "wu_box u"] True on show ?thesis
      by (simp add: refreshWind_def Let_def go_on_wind)
  next
    case False
    with True assms show ?thesis by (simp add: refreshWind_def Let_def go_on_settled)
  qed
qed (use assms in \<open>simp add: refreshWind_def go_on_settled\<close>)

lemma wind_inv_step:
  assumes "wind_inv u"
  shows "wind_inv (wind_step pg e u) \<and> (wind_disclosed u \<and> e \<noteq> Body_Answers None \<longrightarrow> wind_disclosed (wind_step pg e u))"
proof (cases e)
  case (Body_Answers ans)
  with wind_inv_body [OF assms] assms show ?thesis by (cases "wu_bodies u") auto
next
  case Streaks_Answer
  with wind_inv_streaks [OF assms] assms show ?thesis by (cases "wu_streaks u") auto
next
  case (Refreshed now)
  with wind_inv_refresh [OF assms] show ?thesis by simp
next
  case Camera_Moved
  with assms show ?thesis by (auto simp: wind_inv_def wind_disclosed_def wind_visible_def Let_def)
qed (use assms wind_inv_set [OF assms] in auto)

text \<open>
  A run in which the server answers every request with a forecast and no refresh drops the forecast
  while a call is waiting for the streaks.
\<close>

fun calm :: "wind_ui \<Rightarrow> wind_event \<Rightarrow> bool" where
  "calm u (Body_Answers ans) = (case ans of Some b \<Rightarrow> truthy b | None \<Rightarrow> False)"
| "calm u (Refreshed now) = (wu_streaks u = [])"
| "calm u _ = True"

primrec calm_run :: "wind_page \<Rightarrow> wind_event list \<Rightarrow> wind_ui \<Rightarrow> bool" where
  "calm_run pg [] u = True"
| "calm_run pg (e # es) u = (calm u e \<and> calm_run pg es (wind_step pg e u))"

definition wind_named :: "wind_ui \<Rightarrow> bool" where
  "wind_named u \<longleftrightarrow> (wi_on (wu_wind u) \<longrightarrow> wi_shown (wu_wind u)) \<and> (wu_streaks u \<noteq> [] \<longrightarrow> truthy (wi_body (wu_wind u)))"

lemma windLabel_says: "wt_note t \<noteq> [] \<Longrightarrow> truthy body \<Longrightarrow> windLabel time t body \<noteq> []"
  by (simp add: windLabel_def Let_def)

lemma wind_named_step:
  assumes "wind_named u" "calm u e" "wt_note (wp_texts pg) \<noteq> []"
  shows "wind_named (wind_step pg e u)"
proof (cases e)
  case (Body_Answers ans)
  then obtain b where b: "ans = Some b" "truthy b" using assms(2) by (cases ans) auto
  show ?thesis
    using assms(1) Body_Answers b by (cases "wu_bodies u") (auto simp: wind_named_def wind_body_answers_def go_on_def)
next
  case Streaks_Answer
  show ?thesis
  proof (cases "wu_streaks u")
    case (Cons who rest)
    then have "truthy (wi_body (wu_wind u))" using assms(1) by (simp add: wind_named_def)
    with Cons Streaks_Answer windLabel_says [OF assms(3)] show ?thesis
      by (simp add: wind_named_def wind_streaks_answer_def go_on_def showWind_def startStreaks_def Let_def)
  qed (use Streaks_Answer assms(1) in simp)
next
  case (Refreshed now)
  then have "wu_streaks u = []" using assms(2) by simp
  then show ?thesis
    using assms(1) Refreshed
    by (auto simp: wind_named_def refreshWind_def setWind_def go_on_def Let_def truthy_def split: if_splits)
next
  case Camera_Moved
  then show ?thesis using assms(1) by (auto simp: wind_named_def)
qed (use assms(1) in \<open>auto simp: wind_named_def go_on_def setWind_def showWind_def split: if_splits\<close>)

lemma wind_named_run:
  "wind_named u \<Longrightarrow> calm_run pg es u \<Longrightarrow> wt_note (wp_texts pg) \<noteq> [] \<Longrightarrow> wind_named (wind_run pg es u)"
  by (induction es arbitrary: u) (simp_all add: wind_run_def wind_named_step)

section \<open>The bounds of an outline\<close>

text \<open>The positions of a geometry, however deep they are nested.\<close>

fun positions :: "jsval \<Rightarrow> (real \<times> real) list" where
  "positions (JArr vs) = (case position_of vs of Some p \<Rightarrow> [p] | None \<Rightarrow> concat (map positions vs))"
| "positions _ = []"

lemma fold_concat_map: "fold (\<lambda>x. fold f (g x)) xs s = fold f (concat (map g xs)) s"
  by (induction xs arbitrary: s) simp_all

lemma walk_positions: "walk v b = fold (\<lambda>(lon, lat). grow lon lat) (positions v) b"
proof (induction v arbitrary: b)
  case (JArr vs)
  have "fold walk vs b = fold (\<lambda>v. fold (\<lambda>(lon, lat). grow lon lat) (positions v)) vs b"
    using JArr by (intro fold_cong) auto
  then show ?case by (cases "position_of vs") (auto simp: fold_concat_map)
qed simp_all

definition tight :: "(real \<times> real) list \<Rightarrow> box option \<Rightarrow> bool" where
  "tight ps b \<longleftrightarrow> (case b of None \<Rightarrow> ps = []
     | Some x \<Rightarrow> (\<forall>p \<in> set ps. bx_west x \<le> fst p \<and> fst p \<le> bx_east x \<and> bx_south x \<le> snd p \<and> snd p \<le> bx_north x)
         \<and> bx_west x \<in> fst ` set ps \<and> bx_east x \<in> fst ` set ps \<and> bx_south x \<in> snd ` set ps \<and> bx_north x \<in> snd ` set ps)"

lemma tight_grow: "tight ps b \<Longrightarrow> tight (ps @ [(lon, lat)]) (grow lon lat b)"
  by (cases b) (auto simp: tight_def grow_def min_def max_def)

lemma tight_fold: "tight ps b \<Longrightarrow> tight (ps @ qs) (fold (\<lambda>(lon, lat). grow lon lat) qs b)"
proof (induction qs arbitrary: ps b)
  case (Cons q qs)
  obtain lon lat where q: "q = (lon, lat)" by (cases q)
  with Cons.IH [OF tight_grow [OF Cons.prems]] show ?case by simp
qed simp

section \<open>Properties\<close>

text \<open>C11. The forecast is never drawn in two ways or asked for twice at a time, and is disclosed with the
  layer: whatever the order of clicks, answers, refreshes and camera moves, the layer is on exactly
  when arrows or streaks are visible, the note and the row of the key are shown only over a layer
  that is on, at most one canvas runs and at most one request is pending; while no request is
  refused, the key names every layer that is on; and while each request is answered with a forecast
  and no refresh drops the forecast a call is about to draw streaks from, the note, on a page that
  has its text, is shown over every layer that is on, too.\<close>

theorem wind_disclosed_with_the_layer:
  assumes "u = wind_run pg es (init_wind_ui b)" "w = wu_wind u"
  shows "(wi_on w \<longleftrightarrow> wi_arrows w \<or> wi_streaks w \<noteq> None) \<and> (wi_shown w \<longrightarrow> wi_on w) \<and> (wi_row w \<longrightarrow> wi_on w)
    \<and> length (wi_canvases w) \<le> 1 \<and> length (wu_bodies u) \<le> 1
    \<and> (Body_Answers None \<notin> set es \<longrightarrow> wi_on w \<longrightarrow> wi_row w)
    \<and> (calm_run pg es (init_wind_ui b) \<and> wt_note (wp_texts pg) \<noteq> [] \<longrightarrow> wi_on w \<longrightarrow> wi_shown w)"
proof -
  have "wind_inv (wind_run pg es u0) \<and> (wind_disclosed u0 \<and> Body_Answers None \<notin> set es \<longrightarrow> wind_disclosed (wind_run pg es u0))"
    if "wind_inv u0" for u0
    using that
  proof (induction es arbitrary: u0)
    case (Cons e es)
    with Cons.IH [of "wind_step pg e u0"] wind_inv_step [of u0 pg e] show ?case by (auto simp: wind_run_def)
  qed (simp add: wind_run_def)
  with wind_inv_init [of b] assms have inv: "wind_inv u" "Body_Answers None \<notin> set es \<Longrightarrow> wind_disclosed u" by auto
  have "wind_named (init_wind_ui b)" by (simp add: wind_named_def init_wind_ui_def init_wind_def)
  then have "calm_run pg es (init_wind_ui b) \<and> wt_note (wp_texts pg) \<noteq> [] \<Longrightarrow> wind_named u"
    using assms(1) wind_named_run by blast
  then show ?thesis
    using inv assms(2) by (auto simp: wind_inv_def wind_disclosed_def wind_named_def wind_visible_def Let_def split: option.splits)
qed

text \<open>
  The refresh it has to exclude: an hour that ends while the streaks load leaves the layer on, drawn
  from nothing, with its row in the key and without its note.
\<close>

lemma refresh_while_streaks_load_hides_note:
  assumes "truthy b" "windIsStale b now"
  shows "wi_on (wu_wind (wind_run pg [Built True, Body_Answers (Some b), Refreshed now, Streaks_Answer] (init_wind_ui True)))
    \<and> \<not> wi_shown (wu_wind (wind_run pg [Built True, Body_Answers (Some b), Refreshed now, Streaks_Answer] (init_wind_ui True)))"
  using assms by (simp add: wind_run_def init_wind_ui_def init_wind_def go_on_def setWind_def wind_body_answers_def paintWind_def
    refreshWind_def wind_streaks_answer_def showWind_def startStreaks_def windLabel_def Let_def truthy_def)

definition sofia_page :: wind_page where
  "sofia_page = \<lparr>wp_bounds = \<lparr>west = 23, south = 42, east = 24, north = 43\<rparr>, wp_zoom = 7,
     wp_texts = \<lparr>wt_attribution = ''{model}, {time}'', wt_note = ''Forecast'', wt_credit = []\<rparr>, wp_time = (\<lambda>s. s), wp_search = [], wp_reduced = False\<rparr>"

lemma wind_disclosed_with_the_layer_witness:
  "wi_on (wu_wind (wind_run sofia_page [Built True, Body_Answers (Some forecast_body), Streaks_Answer] (init_wind_ui True)))
   \<and> wi_shown (wu_wind (wind_run sofia_page [Built True, Body_Answers (Some forecast_body), Streaks_Answer] (init_wind_ui True)))"
proof -
  let ?es = "[Built True, Body_Answers (Some forecast_body), Streaks_Answer]"
  have "truthy forecast_body" by (simp add: forecast_body_def truthy_def)
  then have "calm_run sofia_page ?es (init_wind_ui True)" by simp
  moreover have "wi_on (wu_wind (wind_run sofia_page ?es (init_wind_ui True)))"
    by (simp add: wind_run_def init_wind_ui_def init_wind_def go_on_def setWind_def wind_body_answers_def
      wind_streaks_answer_def showWind_def truthy_def Let_def)
  ultimately show ?thesis
    using wind_disclosed_with_the_layer [OF refl refl, of sofia_page ?es True] by (simp add: sofia_page_def)
qed

text \<open>Left to finish, the box agrees with the map: for the wind and for the outlines, from a map in which
  box and overlay agree, any sequence of changes each of which runs to its end leaves the box
  ticked exactly when the overlay is drawn, whether or not the fetches succeed, and a last change
  that switches it off hides it.\<close>

theorem finished_changes_agree:
  assumes "\<forall>c \<in> set cs. usable_answer (fst c)"
  shows "(wind_sound w \<and> fold (box_turn (wind_turn pg)) cs (wind_visible w, w) = (b, w') \<longrightarrow> b = wind_visible w')
    \<and> (outlines_sound o1 \<and> fold (box_turn (outlines_turn slug)) cs (ou_visible o1, o1) = (b, o2) \<longrightarrow> b = ou_visible o2)
    \<and> (wind_sound w \<and> usable_answer out \<and> fold (box_turn (wind_turn pg)) (cs @ [(out, False)]) (wind_visible w, w) = (b, w')
         \<longrightarrow> \<not> wind_visible w')
    \<and> (outlines_sound o1 \<and> usable_answer out \<and> fold (box_turn (outlines_turn slug)) (cs @ [(out, False)]) (ou_visible o1, o1) = (b, o2)
         \<longrightarrow> \<not> ou_visible o2)"
  using wind_box.box_turns_agree [OF _ refl assms] outline_box.box_turns_agree [OF _ refl assms]
    wind_box.last_off_hides [OF _ refl assms] outline_box.last_off_hides [OF _ refl assms] by blast

theorem finished_changes_agree_witness:
  "fst (fold (box_turn (outlines_turn None)) [(None, True), (Some (JObj []), True)] (False, init_outlines))
     = ou_visible (snd (fold (box_turn (outlines_turn None)) [(None, True), (Some (JObj []), True)] (False, init_outlines)))"
proof -
  let ?cs = "[(None, True), (Some (JObj []), True)]"
  obtain b o2 where e: "fold (box_turn (outlines_turn None)) ?cs (ou_visible init_outlines, init_outlines) = (b, o2)"
    by (metis prod.collapse)
  have "\<forall>c \<in> set ?cs. usable_answer (fst c)" "outlines_sound init_outlines"
    by (simp_all add: usable_answer_def outlines_sound_def init_outlines_def truthy_def)
  then have "b = ou_visible o2"
    using finished_changes_agree [of ?cs init_wind sofia_page b init_wind init_outlines None o2 None] e by blast
  moreover have "ou_visible init_outlines = False" by (simp add: init_outlines_def)
  ultimately show ?thesis using e by simp
qed

text \<open>Switching off while the data loads is not honoured: whatever the page, a wind or outlines box that is
  unticked between the request and its answer stays unticked, and the answer then draws the
  overlay under it.\<close>

theorem untick_while_loading_is_undone:
  assumes "u = wind_run pg [Built True, Box_Changed False, Body_Answers (Some b), Streaks_Answer] (init_wind_ui True)"
    "(reached, o2) = boundaries_answer slug (Some c) (snd (setBoundaries slug False (snd (setBoundaries slug True init_outlines))))"
  shows "\<not> wu_box u \<and> wi_on (wu_wind u) \<and> wi_row (wu_wind u) \<and> wind_visible (wu_wind u)
     \<and> fst (setBoundaries slug False (snd (setBoundaries slug True init_outlines))) = Some False \<and> reached = Some True \<and> ou_visible o2"
proof -
  let ?u = "\<lparr>wu_wind = init_wind\<lparr>wi_loading := True\<rparr>, wu_box = False, wu_bodies = [Page], wu_streaks = []\<rparr>"
  have start: "wind_run pg [Built True, Box_Changed False] (init_wind_ui True) = ?u"
    by (simp add: wind_run_def init_wind_ui_def init_wind_def go_on_def setWind_def showWind_def stop_streaks_def truthy_def answer_asker_def)
  have "u = wind_run pg ([Built True, Box_Changed False] @ [Body_Answers (Some b), Streaks_Answer]) (init_wind_ui True)"
    using assms(1) by simp
  then have "u = wind_run pg [Body_Answers (Some b), Streaks_Answer] ?u" unfolding wind_run_append start .
  then have "\<not> wu_box u \<and> wi_on (wu_wind u) \<and> wi_row (wu_wind u) \<and> wind_visible (wu_wind u)"
    by (simp add: wind_run_def wind_body_answers_def go_on_def wind_streaks_answer_def showWind_def startStreaks_def
      answer_asker_def wind_visible_def Let_def)
  moreover have "reached = Some True \<and> ou_visible o2 \<and> fst (setBoundaries slug False (snd (setBoundaries slug True init_outlines))) = Some False"
    using assms(2) by (simp add: outlines_op_defs init_outlines_def truthy_def)
  ultimately show ?thesis by blast
qed

theorem untick_while_loading_is_undone_witness:
  "wi_on (wu_wind (wind_run sofia_page [Built True, Box_Changed False, Body_Answers (Some forecast_body), Streaks_Answer] (init_wind_ui True)))"
proof -
  obtain reached o2 where "(reached, o2) = boundaries_answer None (Some JNull) (snd (setBoundaries None False (snd (setBoundaries None True init_outlines))))"
    by (metis prod.collapse)
  from untick_while_loading_is_undone [OF refl this] show ?thesis by blast
qed

text \<open>A refused hourly refresh hides the wrong half: when the hour of the forecast has passed and the server
  refuses the new one, the old arrows or streaks stay on the map with their attribution taken away,
  and the box stays as it was.\<close>

theorem refused_refresh_leaves_undisclosed_wind:
  assumes "wi_on (wu_wind u)" "wind_inv u" "windIsStale (wi_body (wu_wind u)) now" "wu_bodies u = []"
    "u' = wind_run pg [Refreshed now, Body_Answers None] u"
  shows "wi_on (wu_wind u') \<and> wind_visible (wu_wind u') \<and> wi_drawn (wu_wind u') = wi_drawn (wu_wind u)
    \<and> wi_canvases (wu_wind u') = wi_canvases (wu_wind u) \<and> \<not> wi_shown (wu_wind u') \<and> wi_text (wu_wind u') = []
    \<and> wu_box u' = wu_box u"
proof -
  have idle: "\<not> wi_loading (wu_wind u)" using assms(2,4) by (simp add: wind_inv_def Let_def split: if_splits)
  have "wind_visible (wu_wind u)" using assms(1,2) by (simp add: wind_inv_def Let_def)
  with assms(1,3-5) idle show ?thesis
    by (simp add: wind_run_def refreshWind_def go_on_def wind_op_defs wind_visible_def answer_asker_def truthy_def)
qed

definition noon_body :: jsval where
  "noon_body = JObj [(''forecast'', JBool True), (''vectors'', JArr []), (''valid_at'', JStr ''1970-01-01T12:00:00Z'')]"

theorem refused_refresh_leaves_undisclosed_wind_witness:
  "\<not> wi_shown (wu_wind (wind_run sofia_page [Refreshed (13 * 3600000), Body_Answers None]
      (wind_run sofia_page [Built True, Body_Answers (Some noon_body), Streaks_Answer] (init_wind_ui True))))"
proof -
  let ?u = "wind_run sofia_page [Built True, Body_Answers (Some noon_body), Streaks_Answer] (init_wind_ui True)"
  have "wi_on (wu_wind ?u)" "wind_inv ?u" "wu_bodies ?u = []" and b: "wi_body (wu_wind ?u) = noon_body"
    by (simp_all add: wind_run_def init_wind_ui_def init_wind_def go_on_def wind_op_defs truthy_def wind_inv_def
      wind_visible_def stop_streaks_def)
  moreover have "iso_ms ''1970-01-01T12:00:00Z'' = Some (12 * 3600000)" by code_simp
  then have "windIsStale noon_body (13 * 3600000)" by (simp add: windIsStale_def noon_body_def)
  ultimately show ?thesis using refused_refresh_leaves_undisclosed_wind [OF _ _ _ _ refl, of ?u "13 * 3600000" sofia_page] by simp
qed

text \<open>A selected province is fitted exactly: the box the camera flies to contains every position of the
  outline, Polygon or MultiPolygon, touches one on each of its four sides, and there is no box only
  when the geometry has no position at all.\<close>

theorem bounds_enclose_outline:
  assumes "ps = positions (jget (jget feature ''geometry'') ''coordinates'')"
  shows "case boundsOf feature of None \<Rightarrow> ps = []
    | Some x \<Rightarrow> (\<forall>p \<in> set ps. bx_west x \<le> fst p \<and> fst p \<le> bx_east x \<and> bx_south x \<le> snd p \<and> snd p \<le> bx_north x)
        \<and> bx_west x \<in> fst ` set ps \<and> bx_east x \<in> fst ` set ps \<and> bx_south x \<in> snd ` set ps \<and> bx_north x \<in> snd ` set ps"
proof -
  have "tight [] None" by (simp add: tight_def)
  from tight_fold [OF this, of ps] have "tight ps (boundsOf feature)"
    by (simp add: assms boundsOf_def walk_positions)
  then show ?thesis unfolding tight_def .
qed

definition triangle :: jsval where
  "triangle = JObj [(''geometry'', JObj [(''coordinates'', JArr [JArr [JArr [jreal 1, jreal 2], JArr [jreal 4, jreal 3], JArr [jreal 2, jreal 7]]])])]"

theorem bounds_enclose_outline_witness:
  "\<exists>x. boundsOf triangle = Some x \<and> bx_west x \<le> 2 \<and> 7 \<le> bx_north x"
proof -
  have p: "[(1, 2), (4, 3), (2, 7)] = positions (jget (jget triangle ''geometry'') ''coordinates'')"
    by (simp add: triangle_def position_of_def)
  from bounds_enclose_outline [OF p] show ?thesis by (cases "boundsOf triangle") auto
qed

end
