(* ===== verification/Freshness.thy ===== *)
theory Freshness
  imports Storage
begin

text \<open>
  How fresh the numbers are (\<open>web/src/lib/freshness.js\<close>, \<open>freshness.svelte.js\<close>): the page-wide store
  behind the refresh button, the freshness line and the automatic reload. A round of reloads runs
  up to the promises of its providers; their answer, the first refusal or the last success, is an
  event of its own. Times are milliseconds; the reader's clock format is an argument.
\<close>

section \<open>The line (freshness.js)\<close>

definition AUTO_KEY :: string where
  "AUTO_KEY = ''kanarche:auto-refresh''"

definition AUTO_INTERVAL_MS :: nat where
  "AUTO_INTERVAL_MS = 5 * 60 * 1000"

record freshness_texts =
  ft_loading :: string
  ft_failed :: string
  ft_updated :: string

definition statusText :: "(nat \<Rightarrow> string) \<Rightarrow> freshness_texts \<Rightarrow> bool \<Rightarrow> nat option \<Rightarrow> bool \<Rightarrow> string" where
  "statusText formatTime t busy at_time failed = (if busy then ft_loading t
     else if failed then ft_failed t
     else case at_time of None \<Rightarrow> [] | Some a \<Rightarrow> ft_updated t @ '' '' @ formatTime a)"

section \<open>The store (freshness.svelte.js)\<close>

text \<open>\<open>fr_intervals\<close> are the browser's running intervals, \<open>fr_rounds\<close> the rounds of reloads that each
  provider has been asked for so far, \<open>fr_open\<close> the rounds whose promises are awaited.\<close>

record freshness =
  fr_auto :: bool
  fr_busy :: bool
  fr_failed :: bool
  fr_at :: nat
  fr_providers :: "nat list"
  fr_timer :: "nat option"
  fr_intervals :: "nat list"
  fr_next :: nat
  fr_storage :: "storage option"
  fr_rounds :: "nat list list"
  fr_open :: nat

definition schedule :: "freshness \<Rightarrow> freshness" where
  "schedule f = (let f1 = (case fr_timer f of None \<Rightarrow> f
       | Some t \<Rightarrow> f\<lparr>fr_intervals := filter (\<lambda>i. i \<noteq> t) (fr_intervals f), fr_timer := None\<rparr>)
     in if fr_auto f1 then f1\<lparr>fr_timer := Some (fr_next f1), fr_intervals := fr_intervals f1 @ [fr_next f1], fr_next := Suc (fr_next f1)\<rparr>
        else f1)"

definition createFreshness :: "storage option \<Rightarrow> nat \<Rightarrow> freshness" where
  "createFreshness st now = schedule \<lparr>fr_auto = readFlag AUTO_KEY True st, fr_busy = False, fr_failed = False, fr_at = now,
     fr_providers = [], fr_timer = None, fr_intervals = [], fr_next = 0, fr_storage = st, fr_rounds = [], fr_open = 0\<rparr>"

definition request :: "freshness \<Rightarrow> freshness" where
  "request f = (if fr_busy f then f
     else f\<lparr>fr_busy := True, fr_failed := False, fr_rounds := fr_rounds f @ [fr_providers f], fr_open := Suc (fr_open f)\<rparr>)"

definition round_settles :: "bool \<Rightarrow> nat \<Rightarrow> freshness \<Rightarrow> freshness" where
  "round_settles ok now f = (if fr_open f = 0 then f
     else (if ok then f\<lparr>fr_at := now\<rparr> else f\<lparr>fr_failed := True\<rparr>)\<lparr>fr_busy := False, fr_open := fr_open f - 1\<rparr>)"

definition setAuto :: "bool \<Rightarrow> freshness \<Rightarrow> freshness" where
  "setAuto next f = (if next = fr_auto f then f
     else schedule (f\<lparr>fr_auto := next, fr_storage := writeFlag AUTO_KEY next (fr_storage f)\<rparr>))"

definition provide :: "nat \<Rightarrow> freshness \<Rightarrow> freshness" where
  "provide p f = f\<lparr>fr_providers := set_add p (fr_providers f)\<rparr>"

definition unprovide :: "nat \<Rightarrow> freshness \<Rightarrow> freshness" where
  "unprovide p f = f\<lparr>fr_providers := filter (\<lambda>q. q \<noteq> p) (fr_providers f)\<rparr>"

definition destroy :: "freshness \<Rightarrow> freshness" where
  "destroy f = (case fr_timer f of None \<Rightarrow> f | Some t \<Rightarrow> f\<lparr>fr_intervals := filter (\<lambda>i. i \<noteq> t) (fr_intervals f)\<rparr>)
     \<lparr>fr_timer := None, fr_providers := []\<rparr>"

datatype freshness_event =
    Request
  | Interval nat
  | Settles bool nat
  | Set_Auto bool
  | Provide nat
  | Unprovide nat
  | Destroy

text \<open>An interval only fires while the browser runs it.\<close>

fun freshness_step :: "freshness_event \<Rightarrow> freshness \<Rightarrow> freshness" where
  "freshness_step Request f = request f"
| "freshness_step (Interval t) f = (if t \<in> set (fr_intervals f) then request f else f)"
| "freshness_step (Settles ok now) f = round_settles ok now f"
| "freshness_step (Set_Auto b) f = setAuto b f"
| "freshness_step (Provide p) f = provide p f"
| "freshness_step (Unprovide p) f = unprovide p f"
| "freshness_step Destroy f = destroy f"

inductive fresh_reachable :: "storage option \<Rightarrow> nat \<Rightarrow> freshness \<Rightarrow> bool" for st :: "storage option" and t0 :: nat where
  created: "fresh_reachable st t0 (createFreshness st t0)"
| stepped: "fresh_reachable st t0 f \<Longrightarrow> fresh_reachable st t0 (freshness_step e f)"

section \<open>Invariants\<close>

definition fresh_inv :: "freshness \<Rightarrow> bool" where
  "fresh_inv f \<longleftrightarrow> fr_open f = (if fr_busy f then 1 else 0) \<and> (fr_busy f \<longrightarrow> \<not> fr_failed f)
     \<and> fr_intervals f = (case fr_timer f of None \<Rightarrow> [] | Some t \<Rightarrow> [t]) \<and> (fr_timer f \<noteq> None \<longrightarrow> fr_auto f)
     \<and> distinct (fr_providers f)"

definition auto_kept :: "freshness \<Rightarrow> bool" where
  "auto_kept f \<longleftrightarrow> map_option storage_working (fr_storage f) = Some True \<longrightarrow> readFlag AUTO_KEY True (fr_storage f) = fr_auto f"

lemma schedule_auto [simp]: "fr_auto (schedule f) = fr_auto f" "fr_storage (schedule f) = fr_storage f"
  by (simp_all add: schedule_def Let_def split: option.split)

lemma schedule_inv: "fresh_inv f \<or> fresh_inv (f\<lparr>fr_auto := b\<rparr>) \<Longrightarrow> fresh_inv (schedule f)"
  by (auto simp: fresh_inv_def schedule_def Let_def split: option.splits if_splits)

lemma flag_written:
  "storage_working s \<Longrightarrow> readFlag AUTO_KEY d (writeFlag AUTO_KEY b (Some s)) = b"
  "storage_working s \<Longrightarrow> map_option storage_working (writeFlag AUTO_KEY b (Some s)) = Some True"
  using flag.write_then_read [of s b d]
  by (simp_all add: readFlag_def writeFlag_def try_get_def try_set_def AUTO_KEY_def ls.kv_simps)

lemma working_back: "map_option storage_working (writeFlag k b st) = Some True \<Longrightarrow> map_option storage_working st = Some True"
proof (cases st)
  case (Some s)
  assume "map_option storage_working (writeFlag k b st) = Some True"
  with Some show ?thesis
    by (cases "set_throws s"; cases "legacyKey k") (auto simp: writeFlag_def try_set_def storage_working_def storage_op_defs split: if_splits)
qed (simp add: writeFlag_def try_set_def)

lemma freshness_step_inv:
  assumes "fresh_inv f" "auto_kept f"
  shows "fresh_inv (freshness_step e f) \<and> auto_kept (freshness_step e f)"
proof (cases e)
  case (Set_Auto b)
  have "auto_kept (setAuto b f)" if "b \<noteq> fr_auto f"
  proof -
    have "readFlag AUTO_KEY True (writeFlag AUTO_KEY b (fr_storage f)) = b"
      if "map_option storage_working (writeFlag AUTO_KEY b (fr_storage f)) = Some True"
      using working_back [OF that] flag_written(1) by (cases "fr_storage f") auto
    with \<open>b \<noteq> fr_auto f\<close> show ?thesis by (simp add: auto_kept_def setAuto_def)
  qed
  moreover have "fresh_inv (setAuto b f)"
    using assms(1) by (auto simp: setAuto_def fresh_inv_def schedule_def Let_def split: option.splits)
  ultimately show ?thesis using assms Set_Auto by (auto simp: setAuto_def)
qed (use assms in \<open>auto simp: fresh_inv_def auto_kept_def request_def round_settles_def provide_def unprovide_def destroy_def
  split: option.splits\<close>)

lemma fresh_reachable_inv: "fresh_reachable st t0 f \<Longrightarrow> fresh_inv f \<and> auto_kept f"
proof (induction rule: fresh_reachable.induct)
  case created
  then show ?case by (simp add: createFreshness_def fresh_inv_def auto_kept_def schedule_def Let_def)
next
  case (stepped f e)
  then show ?case using freshness_step_inv by blast
qed

section \<open>Properties\<close>

text \<open>C14. One reload at a time, and a line that tells the truth: in every reachable state at most one round is
  awaited, it is the one the line announces, a request during it asks no provider again, at most
  one interval runs and only while automatic reloading is on, the choice survives the visit on a
  working storage, and once a round has settled the line says either that it failed or the time
  at which it succeeded.\<close>

theorem one_reload_at_a_time:
  assumes "fresh_reachable st t0 f"
  shows "fr_open f \<le> 1 \<and> (fr_busy f \<longleftrightarrow> fr_open f = 1)
    \<and> (fr_busy f \<longrightarrow> request f = f \<and> statusText formatTime t (fr_busy f) (Some (fr_at f)) (fr_failed f) = ft_loading t)
    \<and> length (fr_intervals f) \<le> 1 \<and> (fr_intervals f \<noteq> [] \<longrightarrow> fr_auto f)
    \<and> (map_option storage_working (fr_storage f) = Some True \<longrightarrow> fr_auto (createFreshness (fr_storage f) later) = fr_auto f)
    \<and> (fr_busy f \<longrightarrow> (let g = round_settles ok now f in
         statusText formatTime t (fr_busy g) (Some (fr_at g)) (fr_failed g)
           = (if ok then ft_updated t @ '' '' @ formatTime now else ft_failed t)))"
  using fresh_reachable_inv [OF assms]
  by (auto simp: fresh_inv_def auto_kept_def request_def statusText_def round_settles_def createFreshness_def Let_def
    split: option.splits if_splits)

theorem one_reload_at_a_time_witness:
  "fr_open (freshness_step Request (freshness_step Request (createFreshness None 0))) \<le> 1"
  using one_reload_at_a_time [OF fresh_reachable.stepped [OF fresh_reachable.stepped [OF fresh_reachable.created]],
    of Request Request None 0] by blast

end
