(* ===== verification/Charts.thy ===== *)
theory Charts
  imports Wind_Field
begin

text \<open>
  What the charts plot (\<open>web/src/lib/series.js\<close>, \<open>timeaxis.js\<close>, \<open>nearby.js\<close>, \<open>visitors.js\<close>):
  several series on one time axis, the labels under it, the lines of the neighbourhood, and the
  daily visitors. Instants are seconds of the epoch, as the plot library wants them; the reader's
  own date format is an argument.
\<close>

section \<open>One series (series.js)\<close>

text \<open>\<open>Date.parse\<close> of a payload value, and the division by 1000.\<close>

definition date_parse :: "jsval \<Rightarrow> jsnum" where
  "date_parse v = (case Option.bind (as_str v) iso_ms of Some ms \<Rightarrow> Fin (real_of_int ms) | None \<Rightarrow> NaN)"

fun seconds :: "jsnum \<Rightarrow> jsnum" where
  "seconds (Fin x) = Fin (x / 1000)"
| "seconds n = n"

definition toUplotData :: "jsval \<Rightarrow> string \<Rightarrow> jsnum list \<times> jsval list" where
  "toUplotData body column = (let times = elems (or_else (jget body ''t'') (JArr []));
      vals = elems (or_else (jget body column) (JArr []));
      n = min (length times) (length vals)
    in (map (\<lambda>i. seconds (date_parse (times ! i))) [0..<n], map (\<lambda>i. vals ! i) [0..<n]))"

section \<open>Several series on one axis\<close>

text \<open>
  \<open>at\<close> is the \<open>Map\<close> of one column; two equal instants keep the later value. A \<open>Map\<close> compares its
  keys like \<open>=\<close> here: NaN is one key.
\<close>

definition column_map :: "jsval \<Rightarrow> string \<Rightarrow> (jsnum \<times> jsval) list" where
  "column_map body column = (case toUplotData body column of (xs, ys) \<Rightarrow> fold (\<lambda>(x, y). AList.update x y) (zip xs ys) [])"

definition column_of :: "string list \<Rightarrow> nat \<Rightarrow> string" where
  "column_of columns i = (case nth_opt columns i of Some c \<Rightarrow> c | None \<Rightarrow> ''v'')"

definition all_stamps :: "(jsnum \<times> jsval) list list \<Rightarrow> jsnum list" where
  "all_stamps cols = fold set_add (concat (map (map fst) cols)) []"

definition or_null :: "jsval option \<Rightarrow> jsval" where
  "or_null v = (case v of Some w \<Rightarrow> w | None \<Rightarrow> JNull)"

definition mergeSeries :: "jsval list \<Rightarrow> string list \<Rightarrow> jsnum list \<times> jsval list list" where
  "mergeSeries bodies columns = (let cols = map (\<lambda>i. column_map (bodies ! i) (column_of columns i)) [0..<length bodies];
      xs = js_sort js_minus (all_stamps cols)
    in (xs, map (\<lambda>m. map (\<lambda>x. or_null (map_of m x)) xs) cols))"

section \<open>The labels of the time axis (timeaxis.js)\<close>

definition DAY :: real where
  "DAY = 86400"

datatype tick_mode = Tick_Hour | Tick_Day | Tick_Month

fun js_sub :: "jsnum \<Rightarrow> jsnum \<Rightarrow> jsnum" where
  "js_sub (Fin x) (Fin y) = Fin (x - y)"
| "js_sub PInf (Fin _) = PInf"
| "js_sub PInf NInf = PInf"
| "js_sub NInf (Fin _) = NInf"
| "js_sub NInf PInf = NInf"
| "js_sub (Fin _) PInf = NInf"
| "js_sub (Fin _) NInf = PInf"
| "js_sub _ _ = NaN"

definition tickMode :: "jsnum \<Rightarrow> tick_mode" where
  "tickMode s = (if \<not> num_above s (2 * DAY) then Tick_Hour else if num_at_most s (60 * DAY) then Tick_Day else Tick_Month)"

definition axis_span :: "jsnum list \<Rightarrow> jsnum" where
  "axis_span xs = (if 1 < length xs then js_sub (last xs) (hd xs) else Fin 0)"

fun blank_repeats :: "string option \<Rightarrow> string list \<Rightarrow> string list" where
  "blank_repeats prev [] = []"
| "blank_repeats prev (l # ls) = (if prev = Some l then [] # blank_repeats prev ls else l # blank_repeats (Some l) ls)"

definition tickValues :: "(tick_mode \<Rightarrow> real \<Rightarrow> string) \<Rightarrow> jsnum list \<Rightarrow> real list \<Rightarrow> string list" where
  "tickValues formatTick xs splits = blank_repeats None (map (formatTick (tickMode (axis_span xs))) splits)"

section \<open>The lines of the neighbourhood (nearby.js)\<close>

definition NEARBY_KEYS :: "string list" where
  "NEARBY_KEYS = [''low'', ''median'', ''high'']"

definition NEARBY_COLUMN :: "string \<Rightarrow> string" where
  "NEARBY_COLUMN key = (if key = ''low'' then ''lo'' else if key = ''median'' then ''v'' else ''hi'')"

definition NEARBY_DASH :: "string \<Rightarrow> nat list" where
  "NEARBY_DASH key = (if key = ''low'' then [2, 4] else if key = ''median'' then [7, 4] else [12, 4])"

definition label_or_key :: "(string \<Rightarrow> string option) \<Rightarrow> string \<Rightarrow> string" where
  "label_or_key labels key = (case labels key of Some l \<Rightarrow> if l = [] then key else l | None \<Rightarrow> key)"

definition nearbyOptions :: "(string \<Rightarrow> string option) \<Rightarrow> (string \<times> string) list" where
  "nearbyOptions labels = map (\<lambda>key. (key, label_or_key labels key)) NEARBY_KEYS"

record nearby_source =
  ns_url :: string
  ns_column :: string
  ns_dash :: "nat list"
  ns_label :: string
  ns_colour :: string
  ns_scale :: string
  ns_unit :: string

definition given :: "string option \<Rightarrow> bool" where
  "given s \<longleftrightarrow> s \<noteq> None \<and> s \<noteq> Some []"

definition nearbySources :: "string option \<Rightarrow> string option \<Rightarrow> string option \<Rightarrow> string list \<Rightarrow> string \<Rightarrow> string \<Rightarrow> string
    \<Rightarrow> (string \<Rightarrow> string option) \<Rightarrow> nearby_source list" where
  "nearbySources slug metric query keys colour scl unit labels = (if \<not> given slug \<or> \<not> given metric \<or> \<not> given query then []
     else let url = ''/api/v1/area/'' @ encode_uri_component (the slug) @ ''/series?metric='' @ encode_uri_component (the metric)
                @ ''&band=1&'' @ the query
       in map (\<lambda>key. \<lparr>ns_url = url, ns_column = NEARBY_COLUMN key, ns_dash = NEARBY_DASH key, ns_label = label_or_key labels key,
            ns_colour = colour, ns_scale = scl, ns_unit = unit\<rparr>) (filter (\<lambda>key. key \<in> set keys) NEARBY_KEYS))"

section \<open>The daily visitors (visitors.js)\<close>

definition day_text :: "string \<Rightarrow> bool" where
  "day_text s \<longleftrightarrow> length s = 10 \<and> s ! 4 = CHR ''-'' \<and> s ! 7 = CHR ''-''
     \<and> field s 0 4 \<noteq> None \<and> field s 5 2 \<noteq> None \<and> field s 8 2 \<noteq> None"

definition visitor_point :: "jsval \<Rightarrow> (jsnum \<times> real) option" where
  "visitor_point row = (case (as_str (jget row ''day''), finite_num (jget row ''uniques'')) of
      (Some day, Some n) \<Rightarrow> if day_text day then Some (seconds (date_parse (JStr (day @ ''T00:00:00Z''))), n) else None
    | _ \<Rightarrow> None)"

definition visitorSeries :: "jsval \<Rightarrow> (jsnum list \<times> real list) option" where
  "visitorSeries body = (let points = List.map_filter visitor_point (elems (jget body ''days'')) in
     if length points < 2 then None
     else let s = js_sort (\<lambda>a b. js_minus (fst a) (fst b)) points in Some (map fst s, map snd s))"

section \<open>Lemmas\<close>

subsection \<open>The merged axis\<close>

fun real_of_num :: "jsnum \<Rightarrow> real" where
  "real_of_num (Fin x) = x"
| "real_of_num _ = 0"

lemma finite_numE: "num_finite x \<Longrightarrow> \<exists>a. x = Fin a"
  by (cases x) (auto simp: num_finite_def)

lemma sort_finite_numbers:
  assumes "\<And>x. x \<in> set xs \<Longrightarrow> num_finite x"
  shows "sorted_wrt (\<lambda>a b. js_minus a b \<le> 0) (js_sort js_minus xs)"
proof -
  let ?cmp = "\<lambda>a b. real_of_num a - real_of_num b"
  have same: "js_minus a b = ?cmp a b" if "a \<in> set xs" "b \<in> set xs" for a b
    using assms [OF that(1)] assms [OF that(2)] by (cases a; cases b) (simp_all add: num_finite_def)
  have "consistent ?cmp" by (auto simp: consistent_def)
  then have "sorted_wrt (\<lambda>a b. ?cmp a b \<le> 0) (js_sort ?cmp xs)" by (rule sorted_js_sort)
  moreover have "js_sort js_minus xs = js_sort ?cmp xs" by (rule js_sort_cong) (simp add: same)
  ultimately have "sorted_wrt (\<lambda>a b. ?cmp a b \<le> 0) (js_sort js_minus xs)" by simp
  then show ?thesis by (rule sorted_wrt_mono_rel [rotated]) (simp add: same)
qed

lemma fold_set_add: "set (fold set_add ys acc) = set acc \<union> set ys"
  "distinct acc \<Longrightarrow> distinct (fold set_add ys acc)"
  by (induction ys arbitrary: acc) auto

lemma all_stamps_facts: "set (all_stamps cols) = (\<Union>m \<in> set cols. fst ` set m)" "distinct (all_stamps cols)"
  by (auto simp: all_stamps_def fold_set_add)

lemma strict_of_distinct:
  assumes "sorted_wrt (\<lambda>a b. js_minus a b \<le> 0) xs" "distinct xs" "\<And>x. x \<in> set xs \<Longrightarrow> num_finite x"
  shows "sorted_wrt (\<lambda>a b. js_minus a b < 0) xs"
  using assms
proof (induction xs)
  case (Cons a xs)
  have "js_minus a b < 0" if "b \<in> set xs" for b
  proof -
    have "js_minus a b \<le> 0" "a \<noteq> b" "num_finite a" "num_finite b" using Cons.prems that by auto
    then show ?thesis by (cases a; cases b) (auto simp: num_finite_def)
  qed
  with Cons show ?case by simp
qed simp

text \<open>The last value a series has at an instant, which is what its \<open>Map\<close> keeps.\<close>

definition last_at :: "(jsnum \<times> jsval) list \<Rightarrow> jsnum \<Rightarrow> jsval" where
  "last_at ps x = (case find (\<lambda>p. fst p = x) (rev ps) of Some p \<Rightarrow> snd p | None \<Rightarrow> JNull)"

lemma map_of_fold_update:
  "map_of (fold (\<lambda>(x, y). AList.update x y) ps m) = (\<lambda>x. case find (\<lambda>p. fst p = x) (rev ps) of Some p \<Rightarrow> Some (snd p) | None \<Rightarrow> map_of m x)"
proof (induction ps rule: rev_induct)
  case (snoc p ps)
  then show ?case by (cases p) (auto simp: update_conv fun_eq_iff)
qed simp

lemma keys_fold_update: "fst ` set (fold (\<lambda>(x, y). AList.update x y) ps m) = fst ` set m \<union> fst ` set ps"
proof (induction ps arbitrary: m)
  case (Cons p ps)
  then show ?case by (cases p) (simp add: dom_update)
qed simp

lemma last_at_map: "or_null (map_of (fold (\<lambda>(x, y). AList.update x y) ps []) x) = last_at ps x"
  by (simp add: map_of_fold_update last_at_def or_null_def split: option.split)

definition points :: "jsval \<Rightarrow> string \<Rightarrow> (jsnum \<times> jsval) list" where
  "points body column = zip (fst (toUplotData body column)) (snd (toUplotData body column))"

lemma column_map_points: "column_map body column = fold (\<lambda>(x, y). AList.update x y) (points body column) []"
  by (simp add: column_map_def points_def split: prod.split)

lemma points_stamps: "map fst (points body column) = fst (toUplotData body column)"
  by (simp add: points_def toUplotData_def Let_def)

text \<open>The rows of a payload as the server sent them: the stamp and the value of each index both columns have.\<close>

definition payload_times :: "jsval \<Rightarrow> jsval list" where
  "payload_times body = elems (or_else (jget body ''t'') (JArr []))"

definition payload_column :: "jsval \<Rightarrow> string \<Rightarrow> jsval list" where
  "payload_column body c = elems (or_else (jget body c) (JArr []))"

definition payload_rows :: "jsval \<Rightarrow> string \<Rightarrow> nat" where
  "payload_rows body c = min (length (payload_times body)) (length (payload_column body c))"

definition stamp :: "jsval \<Rightarrow> nat \<Rightarrow> jsnum" where
  "stamp body k = seconds (date_parse (payload_times body ! k))"

definition value_at :: "jsval \<Rightarrow> string \<Rightarrow> jsnum \<Rightarrow> jsval" where
  "value_at body c x = (case filter (\<lambda>k. stamp body k = x) [0..<payload_rows body c] of
      [] \<Rightarrow> JNull | k # ks \<Rightarrow> payload_column body c ! last (k # ks))"

lemma points_payload:
  "points body c = map (\<lambda>k. (stamp body k, payload_column body c ! k)) [0..<payload_rows body c]"
  by (simp add: points_def toUplotData_def Let_def payload_times_def payload_column_def payload_rows_def stamp_def zip_map_map
      map_zip_map map_zip_map2 zip_same_conv_map)

lemma find_rev: "find P (rev xs) = (case filter P xs of [] \<Rightarrow> None | y # ys \<Rightarrow> Some (last (y # ys)))"
  by (induction xs rule: rev_induct) (auto split: list.splits)

lemma last_at_payload: "last_at (points body c) x = value_at body c x"
  by (simp add: last_at_def find_rev points_payload filter_map comp_def value_at_def last_map split: list.splits)

text \<open>Every stamp of every plotted row parses as a date.\<close>

definition finite_stamps :: "jsval list \<Rightarrow> string list \<Rightarrow> bool" where
  "finite_stamps bodies columns \<longleftrightarrow>
     (\<forall>i < length bodies. \<forall>k < payload_rows (bodies ! i) (column_of columns i). num_finite (stamp (bodies ! i) k))"

lemma finite_points:
  "finite_stamps bodies columns \<longleftrightarrow> (\<forall>i < length bodies. \<forall>p \<in> set (points (bodies ! i) (column_of columns i)). num_finite (fst p))"
  by (auto simp: finite_stamps_def points_payload)

lemma merged_stamps:
  "set (fst (mergeSeries bodies columns)) = (\<Union>i < length bodies. fst ` set (points (bodies ! i) (column_of columns i)))"
  by (simp add: mergeSeries_def Let_def all_stamps_facts column_map_points keys_fold_update atLeast0LessThan)

lemma merged_distinct: "distinct (fst (mergeSeries bodies columns))"
  by (simp add: mergeSeries_def Let_def all_stamps_facts)

lemma merged_finite: "finite_stamps bodies columns \<Longrightarrow> x \<in> set (fst (mergeSeries bodies columns)) \<Longrightarrow> num_finite x"
  by (auto simp: merged_stamps finite_points)

lemma merged_strict:
  assumes "finite_stamps bodies columns"
  shows "sorted_wrt (\<lambda>a b. js_minus a b < 0) (fst (mergeSeries bodies columns))"
proof (rule strict_of_distinct)
  show "sorted_wrt (\<lambda>a b. js_minus a b \<le> 0) (fst (mergeSeries bodies columns))"
    using sort_finite_numbers [of "all_stamps (map (\<lambda>i. column_map (bodies ! i) (column_of columns i)) [0..<length bodies])"]
      merged_finite [OF assms] by (simp add: mergeSeries_def Let_def)
qed (use merged_distinct merged_finite [OF assms] in auto)

subsection \<open>The labels\<close>

text \<open>Reading a row of labels back: a blank stands for the label before it.\<close>

fun carried :: "string \<Rightarrow> string list \<Rightarrow> string list" where
  "carried prev [] = []"
| "carried prev (l # ls) = (if l = [] then prev # carried prev ls else l # carried l ls)"

lemma carried_blank: "[] \<notin> set ls \<Longrightarrow> carried prev (blank_repeats (Some prev) ls) = ls"
  by (induction ls arbitrary: prev) auto

lemma carried_blank_start: "[] \<notin> set ls \<Longrightarrow> carried prev (blank_repeats None ls) = ls"
  by (cases ls) (auto simp: carried_blank)

lemma length_blank [simp]: "length (blank_repeats prev ls) = length ls"
  by (induction ls arbitrary: prev) auto

lemma blank_nth:
  "i < length ls \<Longrightarrow> blank_repeats prev ls ! i = (if (if i = 0 then prev = Some (ls ! 0) else ls ! i = ls ! (i - 1)) then [] else ls ! i)"
proof (induction ls arbitrary: i prev)
  case (Cons l ls)
  show ?case
  proof (cases i)
    case (Suc j)
    have "blank_repeats prev (l # ls) ! i = blank_repeats (Some l) ls ! j" using Suc by auto
    also have "\<dots> = (if (if j = 0 then l = ls ! 0 else ls ! j = ls ! (j - 1)) then [] else ls ! j)"
      using Cons Suc by auto
    finally show ?thesis using Suc by (cases j) auto
  qed auto
qed simp

lemma span_of_strict:
  assumes "sorted_wrt (\<lambda>a b. js_minus a b < 0) xs" "\<And>x. x \<in> set xs \<Longrightarrow> num_finite x" "xs \<noteq> []"
  shows "\<exists>s. axis_span xs = Fin s \<and> 0 \<le> s \<and> (\<forall>x \<in> set xs. \<forall>y \<in> set xs. real_of_num x - real_of_num y \<le> s)
    \<and> (\<exists>x \<in> set xs. \<exists>y \<in> set xs. s = real_of_num x - real_of_num y)"
proof -
  have le: "real_of_num (hd xs) \<le> real_of_num x \<and> real_of_num x \<le> real_of_num (last xs)" if "x \<in> set xs" for x
    using assms that
  proof (induction xs arbitrary: x)
    case (Cons a xs)
    have step: "real_of_num a \<le> real_of_num b" if "b \<in> set xs" for b
    proof -
      have "js_minus a b < 0" "num_finite a" "num_finite b" using Cons.prems that by auto
      then show ?thesis by (cases a; cases b) (auto simp: num_finite_def)
    qed
    show ?case
    proof (cases "xs = []")
      case False
      have ih: "real_of_num y \<le> real_of_num (last xs)" if "y \<in> set xs" for y using Cons that False by auto
      have "real_of_num a \<le> real_of_num (last xs)" using step False by simp
      with step ih Cons.prems(4) False show ?thesis by auto
    qed (use Cons.prems in auto)
  qed simp
  show ?thesis
  proof (cases "1 < length xs")
    case True
    obtain a b where ab: "hd xs = Fin a" "last xs = Fin b"
      using finite_numE [OF assms(2) [OF hd_in_set]] finite_numE [OF assms(2) [OF last_in_set]] assms(3) by blast
    have "\<forall>x \<in> set xs. \<forall>y \<in> set xs. real_of_num x - real_of_num y \<le> b - a"
      using le ab by (fastforce simp: algebra_simps intro: diff_mono)
    moreover have "a \<le> b" using le [OF hd_in_set [OF assms(3)]] ab by simp
    moreover have "b - a = real_of_num (last xs) - real_of_num (hd xs)" by (simp add: ab)
    moreover have "axis_span xs = Fin (b - a)" using True ab by (simp add: axis_span_def)
    ultimately show ?thesis using hd_in_set [OF assms(3)] last_in_set [OF assms(3)]
      by (intro exI [of _ "b - a"]) (auto intro: bexI)
  next
    case False
    with assms(3) obtain x where "xs = [x]" by (cases xs) auto
    then show ?thesis by (simp add: axis_span_def)
  qed
qed

section \<open>Properties\<close>

text \<open>C38. Several series share one axis without sliding against each other, when every stamp parses as a
  date: the axis is the union of the instants the payloads stamp, strictly ascending, each line has
  one entry for each instant, and that entry is the value its own payload holds in the last row it
  stamps with that instant, or a gap when no row has it; so no point is moved, lost or invented.\<close>

theorem merged_chart_aligned:
  assumes "finite_stamps bodies columns" and "mergeSeries bodies columns = (xs, yss)"
  shows "sorted_wrt (\<lambda>a b. js_minus a b < 0) xs
    \<and> set xs = (\<Union>i < length bodies. stamp (bodies ! i) ` {..<payload_rows (bodies ! i) (column_of columns i)})
    \<and> length yss = length bodies
    \<and> (\<forall>i < length bodies. yss ! i = map (value_at (bodies ! i) (column_of columns i)) xs)"
proof (intro conjI allI impI)
  have xs: "xs = fst (mergeSeries bodies columns)" and yss: "yss = snd (mergeSeries bodies columns)" using assms(2) by simp_all
  show "sorted_wrt (\<lambda>a b. js_minus a b < 0) xs" using merged_strict [OF assms(1)] xs by simp
  show "set xs = (\<Union>i < length bodies. stamp (bodies ! i) ` {..<payload_rows (bodies ! i) (column_of columns i)})"
    by (simp add: xs merged_stamps points_payload image_image atLeast0LessThan)
  show "length yss = length bodies" by (simp add: yss mergeSeries_def Let_def)
  fix i
  assume "i < length bodies"
  then show "yss ! i = map (value_at (bodies ! i) (column_of columns i)) xs"
    by (simp add: xs yss mergeSeries_def Let_def column_map_points last_at_map last_at_payload)
qed

definition quiet_hour :: "jsval list" where
  "quiet_hour = [JObj [(''t'', JArr [JStr ''2026-09-07T10:00:00Z'', JStr ''2026-09-07T12:00:00Z'']), (''v'', JArr [jreal 4, jreal 6])],
     JObj [(''t'', JArr [JStr ''2026-09-07T11:00:00Z'', JStr ''2026-09-07T12:00:00Z'']), (''v'', JArr [jreal 40])]]"

lemma quiet_hour_points:
  "points (quiet_hour ! 0) ''v'' = [(Fin 1788775200, jreal 4), (Fin 1788782400, jreal 6)]"
  "points (quiet_hour ! 1) ''v'' = [(Fin 1788778800, jreal 40)]"
  by (simp_all add: points_def toUplotData_def quiet_hour_def date_parse_def iso_ms_def field_def digits_val_def digit_val_def
    fraction_ms_def zone_minutes_def days_from_civil_def is_digit_def upt_rec or_else_def nullish_def)

lemma quiet_hour_finite: "finite_stamps quiet_hour []"
proof -
  have "i = 0 \<or> i = 1" if "i < length quiet_hour" for i using that by (auto simp: quiet_hour_def)
  then show ?thesis
    using quiet_hour_points by (force simp: finite_points column_of_def nth_opt_def num_finite_def)
qed

theorem merged_chart_aligned_witness:
  "fst (mergeSeries quiet_hour []) = [Fin 1788775200, Fin 1788778800, Fin 1788782400]
    \<and> snd (mergeSeries quiet_hour []) ! 0 = [jreal 4, JNull, jreal 6] \<and> snd (mergeSeries quiet_hour []) ! 1 = [JNull, jreal 40, JNull]"
proof -
  have len: "length quiet_hour = 2" by (simp add: quiet_hour_def)
  have cols: "column_of [] i = ''v''" for i by (simp add: column_of_def nth_opt_def)
  have xs: "fst (mergeSeries quiet_hour []) = [Fin 1788775200, Fin 1788778800, Fin 1788782400]"
    by (simp add: mergeSeries_def Let_def len cols upt_rec column_map_points quiet_hour_points quiet_hour_points(2) [simplified] all_stamps_def set_add_def)
  have ys: "\<forall>i < length quiet_hour. snd (mergeSeries quiet_hour []) ! i = map (value_at (quiet_hour ! i) (column_of [] i)) (fst (mergeSeries quiet_hour []))"
    using merged_chart_aligned [OF quiet_hour_finite, of "fst (mergeSeries quiet_hour [])" "snd (mergeSeries quiet_hour [])"] by simp
  have "0 < length quiet_hour" "1 < length quiet_hour" by (simp_all add: len)
  from ys [rule_format, OF this(1)] ys [rule_format, OF this(2)] xs show ?thesis
    unfolding cols last_at_payload [symmetric] quiet_hour_points by (simp add: last_at_def)
qed

text \<open>The labels under a chart answer the period it covers: on the axis of a merged chart they are
  all written in the one mode that the distance between the earliest and the latest instant asks
  for, hours up to two days, dates up to sixty, months beyond; a label is blanked only where it
  repeats the one before it, so reading the row from the left gives back every label.\<close>

theorem axis_labels_answer_span:
  assumes "finite_stamps bodies columns" and "fst (mergeSeries bodies columns) = xs" and "xs \<noteq> []"
    and "\<And>m x. formatTick m x \<noteq> []"
  shows "\<exists>s mode. (\<forall>x \<in> set xs. \<forall>y \<in> set xs. real_of_num x - real_of_num y \<le> s)
    \<and> (\<exists>x \<in> set xs. \<exists>y \<in> set xs. s = real_of_num x - real_of_num y)
    \<and> mode = (if s \<le> 2 * DAY then Tick_Hour else if s \<le> 60 * DAY then Tick_Day else Tick_Month)
    \<and> length (tickValues formatTick xs splits) = length splits
    \<and> (\<forall>i < length splits. tickValues formatTick xs splits ! i =
         (if 0 < i \<and> formatTick mode (splits ! i) = formatTick mode (splits ! (i - 1)) then [] else formatTick mode (splits ! i)))
    \<and> carried prev (tickValues formatTick xs splits) = map (formatTick mode) splits"
proof -
  obtain s where s: "axis_span xs = Fin s" "\<forall>x \<in> set xs. \<forall>y \<in> set xs. real_of_num x - real_of_num y \<le> s"
    "\<exists>x \<in> set xs. \<exists>y \<in> set xs. s = real_of_num x - real_of_num y"
    using span_of_strict [of xs] merged_strict [OF assms(1)] merged_finite [OF assms(1)] assms(2,3) by auto
  let ?mode = "if s \<le> 2 * DAY then Tick_Hour else if s \<le> 60 * DAY then Tick_Day else Tick_Month"
  have tv: "tickValues formatTick xs splits = blank_repeats None (map (formatTick ?mode) splits)"
    by (simp add: tickValues_def s(1) tickMode_def not_less)
  have "carried prev (tickValues formatTick xs splits) = map (formatTick ?mode) splits"
    unfolding tv by (rule carried_blank_start) (auto simp: assms(4) eq_commute [of "[]"] simp del: if_split)
  moreover have "\<forall>i < length splits. tickValues formatTick xs splits ! i =
         (if 0 < i \<and> formatTick ?mode (splits ! i) = formatTick ?mode (splits ! (i - 1)) then [] else formatTick ?mode (splits ! i))"
    unfolding tv by (auto simp: blank_nth)
  moreover have "length (tickValues formatTick xs splits) = length splits" unfolding tv by simp
  ultimately show ?thesis using s(2,3) by blast
qed

theorem axis_labels_answer_span_witness:
  "carried [] (tickValues (\<lambda>m x. ''10:00'') (fst (mergeSeries quiet_hour [])) [1, 2]) = [''10:00'', ''10:00'']"
proof -
  have "fst (mergeSeries quiet_hour []) \<noteq> []"
    using merged_stamps [of quiet_hour "[]"] quiet_hour_points(1)
    by (auto simp: quiet_hour_def column_of_def nth_opt_def lessThan_Suc)
  from axis_labels_answer_span [OF quiet_hour_finite refl this, of "\<lambda>m x. ''10:00''"]
  have "carried [] (tickValues (\<lambda>m x. ''10:00'') (fst (mergeSeries quiet_hour [])) [1, 2]) = map (\<lambda>x. ''10:00'') [1 :: real, 2]" by blast
  then show ?thesis by simp
qed

text \<open>Fewer than two usable days are nothing to draw; otherwise every usable row is plotted once, in order.\<close>

lemma visitors_plot_usable_days:
  "case visitorSeries body of
     None \<Rightarrow> length (List.map_filter visitor_point (elems (jget body ''days''))) < 2
   | Some (xs, ys) \<Rightarrow> 2 \<le> length xs \<and> length ys = length xs
       \<and> mset (zip xs ys) = mset (List.map_filter visitor_point (elems (jget body ''days'')))"
  by (simp add: visitorSeries_def Let_def zip_map_fst_snd)

text \<open>The lines of the neighbourhood share one request and keep their order, whatever order the boxes were ticked in.\<close>

lemma nearby_lines_one_request:
  "set keys = set keys' \<Longrightarrow> nearbySources slug metric query keys c s u l = nearbySources slug metric query keys' c s u l"
  "length (remdups (map ns_url (nearbySources slug metric query keys c s u l))) \<le> 1"
  by (auto simp: nearbySources_def NEARBY_KEYS_def Let_def)

end
