(* ===== verification/Period.thy ===== *)
theory Period
  imports Wind_Field
begin

text \<open>
  The window a chart asks for (\<open>web/src/lib/period.js\<close>): instants as the API takes them, the naive
  local text of a datetime-local input, and the query. Instants are milliseconds of the epoch. The
  reader's time zone is two arguments, the wall clock of an instant and the instant of a wall
  clock, both in milliseconds.
\<close>

section \<open>Dates\<close>

text \<open>The civil date of a day number; years are counted from March inside an era of 400.\<close>

record march_date =
  md_year :: int
  md_month :: int
  md_day :: int

definition march_of_days :: "int \<Rightarrow> march_date" where
  "march_of_days z = (let doe = z mod 146097; c = min 3 (doe div 36524); doc = doe - c * 36524;
      q = doc div 1461; doq = doc mod 1461; y = min 3 (doq div 365); doy = doq - y * 365;
      mp = (5 * doy + 2) div 153
    in \<lparr>md_year = 400 * (z div 146097) + 100 * c + 4 * q + y, md_month = mp, md_day = doy - (153 * mp + 2) div 5 + 1\<rparr>)"

definition civil_from_days :: "int \<Rightarrow> int \<times> int \<times> int" where
  "civil_from_days d = (let md = march_of_days (d + 719468); m = (if md_month md < 10 then md_month md + 3 else md_month md - 9)
    in (if m \<le> 2 then md_year md + 1 else md_year md, m, md_day md))"

definition pad2 :: "int \<Rightarrow> string" where
  "pad2 n = pad_zeros 2 (nat_str (nat n))"

definition MS_DAY :: int where
  "MS_DAY = 86400000"

text \<open>\<open>toISOString\<close>: years outside 0 to 9999 take a sign and six digits.\<close>

definition year_text :: "int \<Rightarrow> string" where
  "year_text y = (if 0 \<le> y \<and> y \<le> 9999 then pad_zeros 4 (nat_str (nat y))
     else (if y < 0 then CHR ''-'' else CHR ''+'') # pad_zeros 6 (nat_str (nat \<bar>y\<bar>)))"

definition toISOString :: "int \<Rightarrow> string" where
  "toISOString t = (case civil_from_days (t div MS_DAY) of (y, m, d) \<Rightarrow>
     let r = t mod MS_DAY in year_text y @ ''-'' @ pad2 m @ ''-'' @ pad2 d @ ''T'' @ pad2 (r div 3600000) @ '':''
       @ pad2 (r div 60000 mod 60) @ '':'' @ pad2 (r div 1000 mod 60) @ ''.'' @ pad_zeros 3 (nat_str (nat (r mod 1000))) @ ''Z'')"

text \<open>
  \<open>new Date\<close> of the text of a datetime-local input: the wall clock it names, to the minute, the
  second or the millisecond. Any other text is an invalid date here.
\<close>

definition parse_wall :: "string \<Rightarrow> int option" where
  "parse_wall s = iso_ms (s @ (if length s = 16 then '':00Z'' else ''Z''))"

section \<open>The window (period.js)\<close>

definition CUSTOM :: string where
  "CUSTOM = ''custom''"

definition toInstant :: "(int \<Rightarrow> int) \<Rightarrow> string option \<Rightarrow> string option" where
  "toInstant utc_of_wall loc = (case loc of None \<Rightarrow> None
     | Some s \<Rightarrow> if s = [] then None else map_option (\<lambda>w. toISOString (utc_of_wall w)) (parse_wall s))"

definition localNow :: "(int \<Rightarrow> int) \<Rightarrow> int \<Rightarrow> string" where
  "localNow wall_of_utc t = (let w = wall_of_utc t; r = w mod MS_DAY in case civil_from_days (w div MS_DAY) of (y, m, d) \<Rightarrow>
     int_str y @ ''-'' @ pad2 m @ ''-'' @ pad2 d @ ''T'' @ pad2 (r div 3600000) @ '':'' @ pad2 (r div 60000 mod 60))"

definition customRangeValid :: "(int \<Rightarrow> int) \<Rightarrow> string option \<Rightarrow> string option \<Rightarrow> bool" where
  "customRangeValid z from_text to_text = (case (toInstant z from_text, toInstant z to_text) of
      (Some a, Some b) \<Rightarrow> str_less a b
    | _ \<Rightarrow> False)"

definition periodQuery :: "(int \<Rightarrow> int) \<Rightarrow> string \<Rightarrow> string option \<Rightarrow> string option \<Rightarrow> string option" where
  "periodQuery z period from_text to_text = (if period \<noteq> CUSTOM then Some (''period='' @ encode_uri_component period)
     else if \<not> customRangeValid z from_text to_text then None
     else Some (''period='' @ CUSTOM @ ''&from='' @ encode_uri_component (the (toInstant z from_text))
       @ ''&to='' @ encode_uri_component (the (toInstant z to_text))))"

section \<open>Calendar lemmas\<close>

lemma div_facts:
  fixes a b :: int
  assumes "0 < b"
  shows "b * (a div b) \<le> a" "a < b * (a div b) + b"
  using assms mult_div_mod_eq [of b a] pos_mod_sign [of b a] pos_mod_bound [of b a] by linarith+

text \<open>A capped division: the quotient is at most \<open>k\<close>, and the rest stays below the last chunk's end.\<close>

lemma capped_div:
  fixes a b k :: int
  assumes "0 < b" "0 \<le> a" "a < b * k + r" "b \<le> r" "0 \<le> k"
  shows "0 \<le> min k (a div b)" "min k (a div b) \<le> k" "0 \<le> a - min k (a div b) * b" "a - min k (a div b) * b < r"
    "min k (a div b) < k \<Longrightarrow> a - min k (a div b) * b < b"
proof -
  have d: "b * (a div b) \<le> a" "a < b * (a div b) + b" using div_facts [OF assms(1)] by auto
  have nn: "0 \<le> a div b" using assms by (simp add: pos_imp_zdiv_nonneg_iff)
  show "0 \<le> min k (a div b)" "min k (a div b) \<le> k" using nn assms by auto
  show "0 \<le> a - min k (a div b) * b"
  proof (cases "k \<le> a div b")
    case True
    then have "k * b \<le> (a div b) * b" using assms(1) by (intro mult_right_mono) auto
    then have "b * k \<le> a" using d(1) by (simp add: mult.commute)
    with True show ?thesis by (simp add: min_def mult.commute)
  qed (use d in \<open>simp add: min_def mult.commute\<close>)
  show "a - min k (a div b) * b < r"
    using d assms by (cases "k \<le> a div b") (auto simp: min_def mult.commute)
  show "min k (a div b) < k \<Longrightarrow> a - min k (a div b) * b < b"
    using d by (auto simp: min_def mult.commute)
qed

text \<open>The remainders of the calendar's divisions, named once.\<close>

lemma march_parts:
  obtains e c q y doy where
    "0 \<le> c" "c \<le> 3" "0 \<le> q" "q \<le> 24" "0 \<le> y" "y \<le> 3" "0 \<le> doy" "doy \<le> 365"
    "y < 3 \<longrightarrow> doy < 365" "365 * y + doy < 1461" "c < 3 \<longrightarrow> 1461 * q + 365 * y + doy < 36524"
    "36524 * c + 1461 * q + 365 * y + doy < 146097"
    "z = 146097 * e + 36524 * c + 1461 * q + 365 * y + doy"
    "march_of_days z = \<lparr>md_year = 400 * e + 100 * c + 4 * q + y, md_month = (5 * doy + 2) div 153,
       md_day = doy - (153 * ((5 * doy + 2) div 153) + 2) div 5 + 1\<rparr>"
proof -
  define doe where "doe = z mod 146097"
  define c where "c = min 3 (doe div 36524)"
  define doc where "doc = doe - c * 36524"
  define q where "q = doc div 1461"
  define doq where "doq = doc mod 1461"
  define y where "y = min 3 (doq div 365)"
  define doy where "doy = doq - y * 365"
  have doe: "0 \<le> doe" "doe < 146097" "z = 146097 * (z div 146097) + doe" by (simp_all add: doe_def)
  have c: "0 \<le> c" "c \<le> 3" "0 \<le> doc" "doc < 36525" "c < 3 \<Longrightarrow> doc < 36524"
    using capped_div [of 36524 doe 3 36525] doe unfolding c_def doc_def by simp_all
  have doq: "doc = 1461 * q + doq" "0 \<le> doq" "doq < 1461" by (simp_all add: q_def doq_def)
  have q: "0 \<le> q" "q \<le> 24" using doq c by linarith+
  have y: "0 \<le> y" "y \<le> 3" "0 \<le> doy" "doy < 366" "y < 3 \<Longrightarrow> doy < 365"
    using capped_div [of 365 doq 3 366] doq unfolding y_def doy_def by simp_all
  have z: "z = 146097 * (z div 146097) + 36524 * c + 1461 * q + 365 * y + doy"
    using doe(3) doq(1) doc_def doy_def by linarith
  have m: "march_of_days z = \<lparr>md_year = 400 * (z div 146097) + 100 * c + 4 * q + y, md_month = (5 * doy + 2) div 153,
       md_day = doy - (153 * ((5 * doy + 2) div 153) + 2) div 5 + 1\<rparr>"
    unfolding march_of_days_def Let_def doe_def [symmetric] c_def [symmetric] doc_def [symmetric] q_def [symmetric]
      doq_def [symmetric] y_def [symmetric] doy_def [symmetric] by (rule refl)
  have top: "doy \<le> 365" using y(4) by simp
  have doq': "doq = 365 * y + doy" by (simp add: doy_def)
  have doe': "doe = 36524 * c + doc" by (simp add: doc_def)
  have e1: "y < 3 \<longrightarrow> doy < 365" using y(5) by blast
  have e2: "365 * y + doy < 1461" using doq(3) doq' by simp
  have e3: "c < 3 \<longrightarrow> 1461 * q + 365 * y + doy < 36524"
  proof
    assume "c < 3"
    then have "doc < 36524" by (rule c(5))
    with doq(1) doq' show "1461 * q + 365 * y + doy < 36524" by linarith
  qed
  have e4: "36524 * c + 1461 * q + 365 * y + doy < 146097" using doe(2) doe' doq(1) doq' by simp
  show thesis using that [OF c(1,2) q y(1-3) top e1 e2 e3 e4 z m] .
qed

lemma month_bounds:
  fixes doy :: int
  assumes "0 \<le> doy" "doy \<le> 365"
  shows "0 \<le> (5 * doy + 2) div 153" "(5 * doy + 2) div 153 \<le> 11"
    "1 \<le> doy - (153 * ((5 * doy + 2) div 153) + 2) div 5 + 1" "doy - (153 * ((5 * doy + 2) div 153) + 2) div 5 + 1 \<le> 31"
proof -
  define mp where "mp = (5 * doy + 2) div 153"
  define x where "x = (153 * mp + 2) div 5"
  have mp: "153 * mp \<le> 5 * doy + 2" "5 * doy + 2 < 153 * mp + 153" unfolding mp_def using div_facts [of 153 "5 * doy + 2"] by simp_all
  have x: "5 * x \<le> 153 * mp + 2" "153 * mp + 2 < 5 * x + 5" unfolding x_def using div_facts [of 5 "153 * mp + 2"] by simp_all
  have "0 \<le> mp" "mp \<le> 11" "1 \<le> doy - x + 1" "doy - x + 1 \<le> 31" using mp x assms by linarith+
  then show "0 \<le> (5 * doy + 2) div 153" "(5 * doy + 2) div 153 \<le> 11"
    "1 \<le> doy - (153 * ((5 * doy + 2) div 153) + 2) div 5 + 1" "doy - (153 * ((5 * doy + 2) div 153) + 2) div 5 + 1 \<le> 31"
    by (simp_all add: mp_def x_def)
qed

lemma civil_date_valid:
  assumes "civil_from_days n = (y, m, d)"
  shows "1 \<le> m \<and> m \<le> 12 \<and> 1 \<le> d \<and> d \<le> 31"
proof -
  obtain e c q yy doy where doy: "0 \<le> doy" "doy \<le> 365" and md: "march_of_days (n + 719468) = \<lparr>md_year = 400 * e + 100 * c + 4 * q + yy,
      md_month = (5 * doy + 2) div 153, md_day = doy - (153 * ((5 * doy + 2) div 153) + 2) div 5 + 1\<rparr>"
    by (rule march_parts)
  show ?thesis using assms month_bounds [OF doy] by (auto simp: civil_from_days_def md Let_def split: if_splits)
qed

lemma days_of_civil: "case civil_from_days n of (y, m, d) \<Rightarrow> days_from_civil y m d = n"
proof -
  obtain e c q y doy where b: "0 \<le> c" "c \<le> 3" "0 \<le> q" "q \<le> 24" "0 \<le> y" "y \<le> 3" "0 \<le> doy" "doy \<le> 365"
    and z: "n + 719468 = 146097 * e + 36524 * c + 1461 * q + 365 * y + doy"
    and md: "march_of_days (n + 719468) = \<lparr>md_year = 400 * e + 100 * c + 4 * q + y,
      md_month = (5 * doy + 2) div 153, md_day = doy - (153 * ((5 * doy + 2) div 153) + 2) div 5 + 1\<rparr>"
    by (rule march_parts)
  let ?yr = "400 * e + 100 * c + 4 * q + y"
  have yr: "?yr div 400 = e" "?yr mod 400 = 100 * c + 4 * q + y"
    using b int_div_pos_eq [of ?yr 400 e "100 * c + 4 * q + y"] int_mod_pos_eq [of ?yr 400 e "100 * c + 4 * q + y"] by auto
  have leap: "(100 * c + 4 * q + y) div 4 = 25 * c + q" "(100 * c + 4 * q + y) div 100 = c"
    using b int_div_pos_eq [of "100 * c + 4 * q + y" 4 "25 * c + q" y] int_div_pos_eq [of "100 * c + 4 * q + y" 100 c "4 * q + y"] by auto
  define mp where "mp = (5 * doy + 2) div 153"
  have mp: "0 \<le> mp" "mp \<le> 11" using month_bounds [OF b(7,8)] by (simp_all add: mp_def)
  have undone: "days_from_civil (if (if mp < 10 then mp + 3 else mp - 9) \<le> 2 then ?yr + 1 else ?yr) (if mp < 10 then mp + 3 else mp - 9)
      (doy - (153 * mp + 2) div 5 + 1) = n"
    using mp z by (simp add: days_from_civil_def Let_def yr leap)
  show ?thesis unfolding civil_from_days_def md Let_def march_date.simps mp_def [symmetric] using undone by (simp only: prod.case)
qed

text \<open>Later days have later dates: the date, read as one number, grows with the day.\<close>

fun civil_key :: "int \<times> int \<times> int \<Rightarrow> int" where
  "civil_key (y, m, d) = (12 * y + m) * 32 + d"

lemma civil_key_march:
  "civil_key (civil_from_days n) = (let md = march_of_days (n + 719468) in (12 * md_year md + md_month md + 3) * 32 + md_day md)"
proof -
  have "0 \<le> md_month (march_of_days (n + 719468))" "md_month (march_of_days (n + 719468)) \<le> 11"
    by (rule march_parts [of "n + 719468"], simp add: month_bounds)+
  then show ?thesis by (simp add: civil_from_days_def Let_def algebra_simps)
qed

lemma carry:
  fixes a x x' r r' :: int
  assumes "a * x + r < a * x' + r'" "0 < a" "0 \<le> r" "x' < x \<longrightarrow> r' < a"
  shows "x < x' \<or> x = x' \<and> r < r'"
proof (cases x x' rule: linorder_cases)
  case greater
  then have "a * (x' + 1) \<le> a * x" using assms(2) by (intro mult_left_mono) auto
  with greater assms show ?thesis by (simp add: algebra_simps)
qed (use assms in auto)

lemma same_parts:
  fixes a x x' r r' :: int
  assumes "a * x + r = a * x' + r'" "0 < a" "0 \<le> r" "r < a" "0 \<le> r'" "r' < a"
  shows "x = x' \<and> r = r'"
proof -
  have "x = (a * x + r) div a" "x' = (a * x' + r') div a"
    using int_div_pos_eq [of "a * x + r" a x r] int_div_pos_eq [of "a * x' + r'" a x' r'] assms(3-6) by simp_all
  then have "x = x'" using assms(1) by simp
  then show ?thesis using assms(1) by simp
qed

lemma key_less:
  fixes y y' m m' d d' :: int
  assumes "y < y' \<or> y = y' \<and> (m < m' \<or> m = m' \<and> d < d')"
    and "0 \<le> m" "m \<le> 11" "1 \<le> d" "d \<le> 31" "0 \<le> m'" "m' \<le> 11" "1 \<le> d'" "d' \<le> 31"
  shows "(12 * y + m + 3) * 32 + d < (12 * y' + m' + 3) * 32 + d'"
proof -
  consider "y + 1 \<le> y'" | "y = y'" "m + 1 \<le> m'" | "y = y'" "m = m'" "d < d'" using assms(1) by fastforce
  then show ?thesis using assms(2-) by cases (simp_all add: algebra_simps)
qed

lemma march_order:
  assumes "z < z'"
  shows "(12 * md_year (march_of_days z) + md_month (march_of_days z) + 3) * 32 + md_day (march_of_days z)
    < (12 * md_year (march_of_days z') + md_month (march_of_days z') + 3) * 32 + md_day (march_of_days z')"
proof -
  obtain e c q y doy where
    b: "0 \<le> c" "c \<le> 3" "0 \<le> q" "q \<le> 24" "0 \<le> y" "y \<le> 3" "0 \<le> doy" "doy \<le> 365"
    and s: "y < 3 \<longrightarrow> doy < 365" "365 * y + doy < 1461" "c < 3 \<longrightarrow> 1461 * q + 365 * y + doy < 36524"
      "36524 * c + 1461 * q + 365 * y + doy < 146097"
    and z: "z = 146097 * e + 36524 * c + 1461 * q + 365 * y + doy"
    and md: "march_of_days z = \<lparr>md_year = 400 * e + 100 * c + 4 * q + y, md_month = (5 * doy + 2) div 153,
       md_day = doy - (153 * ((5 * doy + 2) div 153) + 2) div 5 + 1\<rparr>" by (rule march_parts)
  obtain e' c' q' y' doy' where
    b': "0 \<le> c'" "c' \<le> 3" "0 \<le> q'" "q' \<le> 24" "0 \<le> y'" "y' \<le> 3" "0 \<le> doy'" "doy' \<le> 365"
    and s': "y' < 3 \<longrightarrow> doy' < 365" "365 * y' + doy' < 1461" "c' < 3 \<longrightarrow> 1461 * q' + 365 * y' + doy' < 36524"
      "36524 * c' + 1461 * q' + 365 * y' + doy' < 146097"
    and z': "z' = 146097 * e' + 36524 * c' + 1461 * q' + 365 * y' + doy'"
    and md': "march_of_days z' = \<lparr>md_year = 400 * e' + 100 * c' + 4 * q' + y', md_month = (5 * doy' + 2) div 153,
       md_day = doy' - (153 * ((5 * doy' + 2) div 153) + 2) div 5 + 1\<rparr>" by (rule march_parts)
  define mp where "mp = (5 * doy + 2) div 153"
  define mp' where "mp' = (5 * doy' + 2) div 153"
  define d where "d = doy - (153 * mp + 2) div 5 + 1"
  define d' where "d' = doy' - (153 * mp' + 2) div 5 + 1"
  have m: "0 \<le> mp" "mp \<le> 11" "1 \<le> d" "d \<le> 31" "0 \<le> mp'" "mp' \<le> 11" "1 \<le> d'" "d' \<le> 31"
    using month_bounds [OF b(7,8), folded mp_def, folded d_def] month_bounds [OF b'(7,8), folded mp'_def, folded d'_def] by blast+
  let ?yr = "400 * e + 100 * c + 4 * q + y" and ?yr' = "400 * e' + 100 * c' + 4 * q' + y'"
  define r1 where "r1 = 365 * y + doy"
  define r2 where "r2 = 1461 * q + r1"
  define r3 where "r3 = 36524 * c + r2"
  define r1' where "r1' = 365 * y' + doy'"
  define r2' where "r2' = 1461 * q' + r1'"
  define r3' where "r3' = 36524 * c' + r2'"
  have zr: "146097 * e + r3 < 146097 * e' + r3'"
    using assms unfolding z z' r1_def r2_def r3_def r1'_def r2'_def r3'_def by simp
  have lo: "0 \<le> r1" "0 \<le> r2" "0 \<le> r3" using b unfolding r1_def r2_def r3_def by simp_all
  have hi: "r1' < 1461" "r3' < 146097" using s'(2,4) unfolding r1'_def r2'_def r3'_def by simp_all
  have hi2: "c' < c \<longrightarrow> r2' < 36524"
  proof
    assume "c' < c"
    then have "c' < 3" using b(2) by simp
    with s'(3) have "1461 * q' + 365 * y' + doy' < 36524" by blast
    then show "r2' < 36524" unfolding r1'_def r2'_def by simp
  qed
  have hi0: "y' < y \<longrightarrow> doy' < 365"
  proof
    assume "y' < y"
    then have "y' < 3" using b(6) by simp
    with s'(1) show "doy' < 365" by blast
  qed
  have "e < e' \<or> e = e' \<and> r3 < r3'" by (rule carry [OF zr _ lo(3)]) (simp_all add: hi)
  moreover have "c < c' \<or> c = c' \<and> r2 < r2'" if "r3 < r3'"
    by (rule carry [OF that [unfolded r3_def r3'_def] _ lo(2) hi2]) simp
  moreover have "q < q' \<or> q = q' \<and> r1 < r1'" if "r2 < r2'"
    by (rule carry [OF that [unfolded r2_def r2'_def] _ lo(1)]) (simp_all add: hi)
  moreover have "y < y' \<or> y = y' \<and> doy < doy'" if "r1 < r1'"
    by (rule carry [OF that [unfolded r1_def r1'_def] _ b(7) hi0]) simp
  ultimately consider "e < e'" | "e = e'" "c < c'" | "e = e'" "c = c'" "q < q'" | "e = e'" "c = c'" "q = q'" "y < y'"
    | "e = e'" "c = c'" "q = q'" "y = y'" "doy < doy'" by blast
  then have "?yr < ?yr' \<or> ?yr = ?yr' \<and> doy < doy'" by cases (use b b' in linarith)+
  moreover have "mp < mp' \<or> mp = mp' \<and> d < d'" if "doy < doy'"
  proof (cases "mp = mp'")
    case True
    then show ?thesis using that by (simp add: d_def d'_def)
  next
    case False
    have "mp \<le> mp'" unfolding mp_def mp'_def using that by (intro zdiv_mono1) auto
    with False show ?thesis by simp
  qed
  ultimately have "?yr < ?yr' \<or> ?yr = ?yr' \<and> (mp < mp' \<or> mp = mp' \<and> d < d')" by blast
  then have "(12 * ?yr + mp + 3) * 32 + d < (12 * ?yr' + mp' + 3) * 32 + d'" by (rule key_less) (rule m)+
  then show ?thesis by (simp add: md md' mp_def mp'_def d_def d'_def)
qed

lemma civil_order: "n < n' \<Longrightarrow> civil_key (civil_from_days n) < civil_key (civil_from_days n')"
  unfolding civil_key_march Let_def by (rule march_order) simp

section \<open>Fixed-width numerals\<close>

lemma digits_val_bound: "list_all is_digit s \<Longrightarrow> digits_val s < 10 ^ length s"
proof (induction s)
  case (Cons c s)
  then have "digit_val c \<le> 9" "digits_val s < 10 ^ length s" by (auto simp: digit_val_def is_digit_def)
  then have "digit_val c * 10 ^ length s \<le> 9 * 10 ^ length s" by (intro mult_right_mono) auto
  with \<open>digits_val s < 10 ^ length s\<close> have "digit_val c * 10 ^ length s + digits_val s < 10 * 10 ^ length s" by linarith
  then show ?case by (simp add: digits_val_Cons)
qed simp

definition numeral_of :: "nat \<Rightarrow> nat \<Rightarrow> string \<Rightarrow> bool" where
  "numeral_of w n s \<longleftrightarrow> length s = w \<and> list_all is_digit s \<and> digits_val s = n"

lemma pad_numeral:
  assumes "n < 10 ^ w" "0 < w"
  shows "numeral_of w n (pad_zeros w (nat_str n))"
proof -
  have zeros: "digits_val (replicate k CHR ''0'' @ s) = digits_val s" for k s
    by (induction k) (simp_all add: digits_val_Cons digit_val_def)
  have rep: "list_all is_digit (replicate k CHR ''0'')" for k by (induction k) (simp_all add: is_digit_def)
  have "length (nat_str n) \<le> w" using length_nat_str [of n w] assms by simp
  then show ?thesis
    by (simp add: numeral_of_def pad_zeros_def zeros nat_str_digits list_all_append rep)
qed

lemma digits_order:
  "length s = length t \<Longrightarrow> list_all is_digit s \<Longrightarrow> list_all is_digit t \<Longrightarrow> str_less s t \<longleftrightarrow> digits_val s < digits_val t"
proof (induction s t rule: list_induct2)
  case (Cons a s b t)
  let ?m = "10 ^ length s"
  have d: "digits_val s < ?m" "digits_val t < ?m" using Cons digits_val_bound by fastforce+
  have step: "i < j \<Longrightarrow> i * ?m + digits_val u < j * ?m" if "digits_val u < ?m" for i j :: nat and u
  proof -
    assume "i < j"
    then have "Suc i * ?m \<le> j * ?m" by (intro mult_right_mono) auto
    with that show ?thesis by simp
  qed
  have ab: "of_char a = (48 + digit_val a :: nat)" "of_char b = (48 + digit_val b :: nat)" using Cons.prems by (auto simp: digit_val_def is_digit_def)
  have eq: "a = b \<longleftrightarrow> digit_val a = digit_val b" using ab by (metis of_char_eq_iff)
  show ?case
  proof (cases "digit_val a" "digit_val b" rule: linorder_cases)
    case less
    then show ?thesis using step [OF d(1) less] Cons.hyps by (simp add: digits_val_Cons ab)
  next
    case equal
    then show ?thesis using Cons eq by (simp add: digits_val_Cons)
  next
    case greater
    then show ?thesis using step [OF d(2) greater] Cons.hyps eq ab by (simp add: digits_val_Cons)
  qed
qed simp

lemma digits_inject:
  "length s = length t \<Longrightarrow> list_all is_digit s \<Longrightarrow> list_all is_digit t \<Longrightarrow> digits_val s = digits_val t \<Longrightarrow> s = t"
proof (induction s t rule: list_induct2)
  case (Cons a s b t)
  let ?m = "10 ^ length s"
  have d: "digits_val s < ?m" "digits_val t < ?m" using Cons digits_val_bound by fastforce+
  have "digit_val a * ?m + digits_val s = digit_val b * ?m + digits_val t" using Cons by (simp add: digits_val_Cons)
  then have "(digit_val a * ?m + digits_val s) div ?m = (digit_val b * ?m + digits_val t) div ?m" by simp
  then have eq: "digit_val a = digit_val b" using d by simp
  have "of_char a = (48 + digit_val a :: nat)" "of_char b = (48 + digit_val b :: nat)" using Cons.prems by (auto simp: digit_val_def is_digit_def)
  with eq have "a = b" by (metis of_char_eq_iff)
  moreover have "s = t" using Cons eq by (simp add: digits_val_Cons)
  ultimately show ?case by simp
qed simp

lemma str_less_append:
  "length p = length q \<Longrightarrow> str_less (p @ s) (q @ t) \<longleftrightarrow> str_less p q \<or> p = q \<and> str_less s t"
  by (induction p q rule: list_induct2) auto

lemma str_less_numeral:
  assumes "numeral_of w m p" "numeral_of w n q"
  shows "str_less (p @ s) (q @ t) \<longleftrightarrow> m < n \<or> m = n \<and> str_less s t"
  using assms digits_order [of p q] digits_inject [of p q] by (auto simp: numeral_of_def str_less_append)

lemma str_less_field:
  assumes "numeral_of w (nat m) p" "numeral_of w (nat n) q" "0 \<le> m" "0 \<le> n"
  shows "str_less (p @ s) (q @ t) \<longleftrightarrow> m < n \<or> m = n \<and> str_less s t"
  using assms(3,4) by (auto simp: str_less_numeral [OF assms(1,2)])

lemma str_less_irrefl: "\<not> str_less s s"
  by (induction s) auto

lemma str_less_asym: "str_less s t \<Longrightarrow> \<not> str_less t s"
  by (induction s t rule: str_less.induct) auto

section \<open>Instants and their texts\<close>

definition four_digit_year :: "int \<Rightarrow> bool" where
  "four_digit_year t \<longleftrightarrow> 0 \<le> fst (civil_from_days (t div MS_DAY)) \<and> fst (civil_from_days (t div MS_DAY)) \<le> 9999"

text \<open>The fields of an instant: year, month, day, hour, minute, second, millisecond.\<close>

lemma clock_bounds:
  fixes r :: int
  assumes "0 \<le> r" "r < MS_DAY"
  shows "0 \<le> r div 3600000" "r div 3600000 \<le> 23" "0 \<le> r div 60000 mod 60" "r div 60000 mod 60 \<le> 59"
    "0 \<le> r div 1000 mod 60" "r div 1000 mod 60 \<le> 59" "0 \<le> r mod 1000" "r mod 1000 \<le> 999"
proof -
  show "0 \<le> r div 3600000" using assms by (simp add: pos_imp_zdiv_nonneg_iff)
  show "r div 3600000 \<le> 23" using div_facts(1) [of 3600000 r] assms unfolding MS_DAY_def by simp
  have "a mod 60 \<le> 59" for a :: int using pos_mod_bound [of 60 a] by simp
  then show "r div 60000 mod 60 \<le> 59" "r div 1000 mod 60 \<le> 59" by simp_all
  show "r mod 1000 \<le> 999" using pos_mod_bound [of 1000 r] by simp
qed simp_all

lemma clock_split: "r = ((r div 3600000 * 60 + r div 60000 mod 60) * 60 + r div 1000 mod 60) * 1000 + r mod 1000" for r :: int
proof -
  have 1: "r = 1000 * (r div 1000) + r mod 1000" by simp
  have "r div 60000 = r div 1000 div 60" using zdiv_zmult2_eq [of 60 r 1000] by simp
  then have 2: "r div 1000 = 60 * (r div 60000) + r div 1000 mod 60" by (metis mult_div_mod_eq)
  have "r div 3600000 = r div 60000 div 60" using zdiv_zmult2_eq [of 60 r 60000] by simp
  then have 3: "r div 60000 = 60 * (r div 3600000) + r div 60000 mod 60" by (metis mult_div_mod_eq)
  have glue: "x = ((c * 60 + m) * 60 + v) * 1000 + w" if "x = 1000 * a + w" "a = 60 * b + v" "b = 60 * c + m" for x a b c m v w :: int
    using that by simp
  show ?thesis by (rule glue [OF 1 2 3])
qed

lemma pad_int: "0 \<le> n \<Longrightarrow> n < 10 ^ w \<Longrightarrow> 0 < w \<Longrightarrow> numeral_of w (nat n) (pad_zeros w (nat_str (nat n)))"
proof (rule pad_numeral)
  assume "0 \<le> n" "n < 10 ^ w"
  then have "int (nat n) < int (10 ^ w)" by simp
  then show "nat n < 10 ^ w" by linarith
qed

lemma iso_fields:
  assumes "four_digit_year t"
  obtains y m d h mi sec ms Y M D H Mi S Ms where
    "civil_from_days (t div MS_DAY) = (y, m, d)" "t mod MS_DAY = ((h * 60 + mi) * 60 + sec) * 1000 + ms"
    "0 \<le> y" "1 \<le> m" "m \<le> 12" "1 \<le> d" "d \<le> 31" "0 \<le> h" "h \<le> 23" "0 \<le> mi" "mi \<le> 59" "0 \<le> sec" "sec \<le> 59" "0 \<le> ms" "ms \<le> 999"
    "numeral_of 4 (nat y) Y" "numeral_of 2 (nat m) M" "numeral_of 2 (nat d) D" "numeral_of 2 (nat h) H" "numeral_of 2 (nat mi) Mi"
    "numeral_of 2 (nat sec) S" "numeral_of 3 (nat ms) Ms"
    "toISOString t = Y @ ''-'' @ M @ ''-'' @ D @ ''T'' @ H @ '':'' @ Mi @ '':'' @ S @ ''.'' @ Ms @ ''Z''"
proof -
  obtain y m d where c: "civil_from_days (t div MS_DAY) = (y, m, d)" by (cases "civil_from_days (t div MS_DAY)")
  have y: "0 \<le> y" "y \<le> 9999" using assms c by (simp_all add: four_digit_year_def)
  have md: "1 \<le> m" "m \<le> 12" "1 \<le> d" "d \<le> 31" using civil_date_valid [OF c] by simp_all
  let ?r = "t mod MS_DAY"
  have r: "0 \<le> ?r" "?r < MS_DAY" by (simp_all add: MS_DAY_def)
  note b = clock_bounds [OF r]
  have "toISOString t = pad_zeros 4 (nat_str (nat y)) @ ''-'' @ pad2 m @ ''-'' @ pad2 d @ ''T'' @ pad2 (?r div 3600000) @ '':''
       @ pad2 (?r div 60000 mod 60) @ '':'' @ pad2 (?r div 1000 mod 60) @ ''.'' @ pad_zeros 3 (nat_str (nat (?r mod 1000))) @ ''Z''"
    using y by (simp add: toISOString_def c Let_def year_text_def)
  moreover have two: "numeral_of 2 (nat n) (pad2 n)" if "0 \<le> n" "n \<le> 99" for n using that by (simp add: pad2_def pad_int)
  moreover have "numeral_of 4 (nat y) (pad_zeros 4 (nat_str (nat y)))" using y by (simp add: pad_int)
  moreover have "numeral_of 3 (nat (?r mod 1000)) (pad_zeros 3 (nat_str (nat (?r mod 1000))))" using b(7,8) by (intro pad_int) simp_all
  moreover have "numeral_of 2 (nat m) (pad2 m)" "numeral_of 2 (nat d) (pad2 d)" "numeral_of 2 (nat (?r div 3600000)) (pad2 (?r div 3600000))"
    "numeral_of 2 (nat (?r div 60000 mod 60)) (pad2 (?r div 60000 mod 60))" "numeral_of 2 (nat (?r div 1000 mod 60)) (pad2 (?r div 1000 mod 60))"
    by (rule two; use md b in linarith)+
  ultimately show thesis using that [OF c clock_split [of ?r] y(1) md b] by blast
qed

lemma iso_order:
  assumes "four_digit_year s" "four_digit_year t" "s < t"
  shows "str_less (toISOString s) (toISOString t)"
proof -
  obtain y m d h mi sec ms Y M D H Mi S Ms where
    c: "civil_from_days (s div MS_DAY) = (y, m, d)" "s mod MS_DAY = ((h * 60 + mi) * 60 + sec) * 1000 + ms"
    and b: "0 \<le> y" "1 \<le> m" "m \<le> 12" "1 \<le> d" "d \<le> 31" "0 \<le> h" "h \<le> 23" "0 \<le> mi" "mi \<le> 59" "0 \<le> sec" "sec \<le> 59" "0 \<le> ms" "ms \<le> 999"
    and n: "numeral_of 4 (nat y) Y" "numeral_of 2 (nat m) M" "numeral_of 2 (nat d) D" "numeral_of 2 (nat h) H" "numeral_of 2 (nat mi) Mi"
    "numeral_of 2 (nat sec) S" "numeral_of 3 (nat ms) Ms"
    and iso: "toISOString s = Y @ ''-'' @ M @ ''-'' @ D @ ''T'' @ H @ '':'' @ Mi @ '':'' @ S @ ''.'' @ Ms @ ''Z''"
    by (rule iso_fields [OF assms(1)])
  obtain y' m' d' h' mi' sec' ms' Y' M' D' H' Mi' S' Ms' where
    c': "civil_from_days (t div MS_DAY) = (y', m', d')" "t mod MS_DAY = ((h' * 60 + mi') * 60 + sec') * 1000 + ms'"
    and b': "0 \<le> y'" "1 \<le> m'" "m' \<le> 12" "1 \<le> d'" "d' \<le> 31" "0 \<le> h'" "h' \<le> 23" "0 \<le> mi'" "mi' \<le> 59" "0 \<le> sec'" "sec' \<le> 59" "0 \<le> ms'" "ms' \<le> 999"
    and n': "numeral_of 4 (nat y') Y'" "numeral_of 2 (nat m') M'" "numeral_of 2 (nat d') D'" "numeral_of 2 (nat h') H'" "numeral_of 2 (nat mi') Mi'"
    "numeral_of 2 (nat sec') S'" "numeral_of 3 (nat ms') Ms'"
    and iso': "toISOString t = Y' @ ''-'' @ M' @ ''-'' @ D' @ ''T'' @ H' @ '':'' @ Mi' @ '':'' @ S' @ ''.'' @ Ms' @ ''Z''"
    by (rule iso_fields [OF assms(2)])
  have lex: "y < y' \<or> y = y' \<and> (m < m' \<or> m = m' \<and> (d < d' \<or> d = d' \<and> (h < h' \<or> h = h' \<and> (mi < mi' \<or> mi = mi' \<and>
      (sec < sec' \<or> sec = sec' \<and> ms < ms')))))"
  proof (cases "s div MS_DAY = t div MS_DAY")
    case True
    then have date: "y = y'" "m = m'" "d = d'" using c(1) c'(1) by simp_all
    have "s mod MS_DAY < t mod MS_DAY"
    proof -
      have "MS_DAY * (t div MS_DAY) + s mod MS_DAY = s" by (metis True mult_div_mod_eq)
      then show ?thesis using assms(3) mult_div_mod_eq [of MS_DAY t] by linarith
    qed
    then have "1000 * ((h * 60 + mi) * 60 + sec) + ms < 1000 * ((h' * 60 + mi') * 60 + sec') + ms'" using c(2) c'(2) by simp
    then have "(h * 60 + mi) * 60 + sec < (h' * 60 + mi') * 60 + sec' \<or> (h * 60 + mi) * 60 + sec = (h' * 60 + mi') * 60 + sec' \<and> ms < ms'"
      by (rule carry) (use b b' in simp_all)
    moreover have "60 * h + mi < 60 * h' + mi' \<or> 60 * h + mi = 60 * h' + mi' \<and> sec < sec'" if "(h * 60 + mi) * 60 + sec < (h' * 60 + mi') * 60 + sec'"
      by (rule carry [of 60]) (use that b(10) b'(11) in simp_all)
    moreover have "h < h' \<or> h = h' \<and> mi < mi'" if "60 * h + mi < 60 * h' + mi'"
      by (rule carry [OF that]) (use b(8) b'(9) in simp_all)
    moreover have "h = h' \<and> mi = mi'" if "60 * h + mi = 60 * h' + mi'" by (rule same_parts [OF that]) (use b b' in simp_all)
    moreover have "60 * h + mi = 60 * h' + mi' \<and> sec = sec'" if "(h * 60 + mi) * 60 + sec = (h' * 60 + mi') * 60 + sec'"
      by (rule same_parts [of 60]) (use that b b' in simp_all)
    ultimately have "h < h' \<or> h = h' \<and> (mi < mi' \<or> mi = mi' \<and> (sec < sec' \<or> sec = sec' \<and> ms < ms'))" by blast
    then show ?thesis using date by blast
  next
    case False
    have "s div MS_DAY \<le> t div MS_DAY" using assms(3) by (intro zdiv_mono1) (simp_all add: MS_DAY_def)
    with False have "civil_key (y, m, d) < civil_key (y', m', d')" using civil_order [of "s div MS_DAY" "t div MS_DAY"] c(1) c'(1) by simp
    then have "32 * (12 * y + m) + d < 32 * (12 * y' + m') + d'" by simp
    then have "12 * y + m < 12 * y' + m' \<or> 12 * y + m = 12 * y' + m' \<and> d < d'"
      by (rule carry) (use b(4) b'(5) in simp_all)
    moreover have "12 * y + (m - 1) < 12 * y' + (m' - 1) \<longrightarrow> y < y' \<or> y = y' \<and> m - 1 < m' - 1"
      using carry [of 12 y "m - 1" y' "m' - 1"] b(2) b'(3) by simp
    moreover have "12 * y + (m - 1) = 12 * y' + (m' - 1) \<longrightarrow> y = y' \<and> m - 1 = m' - 1"
      using same_parts [of 12 y "m - 1" y' "m' - 1"] b(2,3) b'(2,3) by simp
    ultimately have "y < y' \<or> y = y' \<and> (m < m' \<or> m = m' \<and> d < d')" by auto
    then show ?thesis by blast
  qed
  show ?thesis
    unfolding iso iso' using lex b b'
    by (simp add: str_less_field [OF n(1) n'(1)] str_less_field [OF n(2) n'(2)] str_less_field [OF n(3) n'(3)] str_less_field [OF n(4) n'(4)]
      str_less_field [OF n(5) n'(5)] str_less_field [OF n(6) n'(6)] str_less_field [OF n(7) n'(7)])
qed

lemma iso_less_iff:
  assumes "four_digit_year s" "four_digit_year t"
  shows "str_less (toISOString s) (toISOString t) \<longleftrightarrow> s < t"
  using iso_order [OF assms] iso_order [OF assms(2,1)] str_less_irrefl str_less_asym by (cases s t rule: linorder_cases) auto

subsection \<open>Reading an instant back\<close>

lemma field_at:
  assumes "numeral_of w n p" "length a = i"
  shows "field (a @ p @ s) i w = Some (int n)"
  using assms by (simp add: field_def numeral_of_def)

lemma fraction_text:
  assumes "numeral_of 3 n p"
  shows "fraction_ms (CHR ''.'' # p @ ''Z'') = Some (int n, ''Z'')"
proof -
  have p: "length p = 3" "list_all is_digit p" "digits_val p = n" using assms by (simp_all add: numeral_of_def)
  then have "takeWhile is_digit (p @ ''Z'') = p" "dropWhile is_digit (p @ ''Z'') = ''Z''"
    by (simp_all add: takeWhile_append list_all_iff dropWhile_append is_digit_def)
  then show ?thesis using p by (auto simp: fraction_ms_def Let_def)
qed

lemma iso_ms_fields:
  assumes "numeral_of 4 y Y" "numeral_of 2 m M" "numeral_of 2 d D" "numeral_of 2 h H" "numeral_of 2 mi Mi" "numeral_of 2 sec S"
    and "1 \<le> m" "m \<le> 12" "1 \<le> d" "d \<le> 31" "h \<le> 23" "mi \<le> 59" "sec \<le> 59" and f: "fraction_ms F = Some (ms, ''Z'')"
  shows "iso_ms (Y @ ''-'' @ M @ ''-'' @ D @ ''T'' @ H @ '':'' @ Mi @ '':'' @ S @ F)
    = Some ((((days_from_civil (int y) (int m) (int d) * 24 + int h) * 60 + int mi) * 60 + int sec) * 1000 + ms)"
proof -
  have len: "length Y = 4" "length M = 2" "length D = 2" "length H = 2" "length Mi = 2" "length S = 2"
    using assms(1-6) by (simp_all add: numeral_of_def)
  let ?s = "Y @ ''-'' @ M @ ''-'' @ D @ ''T'' @ H @ '':'' @ Mi @ '':'' @ S @ F"
  have fields: "field ?s 0 4 = Some (int y)" "field ?s 5 2 = Some (int m)" "field ?s 8 2 = Some (int d)" "field ?s 11 2 = Some (int h)"
    "field ?s 14 2 = Some (int mi)" "field ?s 17 2 = Some (int sec)"
    using field_at [OF assms(1), of "[]" 0] field_at [OF assms(2), of "Y @ ''-''" 5] field_at [OF assms(3), of "Y @ ''-'' @ M @ ''-''" 8]
      field_at [OF assms(4), of "Y @ ''-'' @ M @ ''-'' @ D @ ''T''" 11] field_at [OF assms(5), of "Y @ ''-'' @ M @ ''-'' @ D @ ''T'' @ H @ '':''" 14]
      field_at [OF assms(6), of "Y @ ''-'' @ M @ ''-'' @ D @ ''T'' @ H @ '':'' @ Mi @ '':''" 17] by (simp_all add: len)
  have seps: "?s ! 4 = CHR ''-''" "?s ! 7 = CHR ''-''" "?s ! 10 = CHR ''T''" "?s ! 13 = CHR '':''" "?s ! 16 = CHR '':''"
    by (simp_all add: nth_append len)
  have rest: "drop 19 ?s = F" "19 \<le> length ?s" by (simp_all add: len)
  show ?thesis unfolding iso_ms_def fields seps rest(1) f using rest(2) assms(7-13) by (simp add: zone_minutes_def)
qed

lemma iso_round_trip:
  assumes "four_digit_year t"
  shows "iso_ms (toISOString t) = Some t"
proof -
  obtain y m d h mi sec ms Y M D H Mi S Ms where
    c: "civil_from_days (t div MS_DAY) = (y, m, d)" "t mod MS_DAY = ((h * 60 + mi) * 60 + sec) * 1000 + ms"
    and b: "0 \<le> y" "1 \<le> m" "m \<le> 12" "1 \<le> d" "d \<le> 31" "0 \<le> h" "h \<le> 23" "0 \<le> mi" "mi \<le> 59" "0 \<le> sec" "sec \<le> 59" "0 \<le> ms" "ms \<le> 999"
    and n: "numeral_of 4 (nat y) Y" "numeral_of 2 (nat m) M" "numeral_of 2 (nat d) D" "numeral_of 2 (nat h) H" "numeral_of 2 (nat mi) Mi"
    "numeral_of 2 (nat sec) S" "numeral_of 3 (nat ms) Ms"
    and iso: "toISOString t = Y @ ''-'' @ M @ ''-'' @ D @ ''T'' @ H @ '':'' @ Mi @ '':'' @ S @ ''.'' @ Ms @ ''Z''"
    by (rule iso_fields [OF assms])
  have "iso_ms (toISOString t) = Some ((((days_from_civil (int (nat y)) (int (nat m)) (int (nat d)) * 24 + int (nat h)) * 60 + int (nat mi)) * 60
      + int (nat sec)) * 1000 + int (nat ms))"
    unfolding iso by (rule iso_ms_fields [OF n(1-6)]) (use b fraction_text [OF n(7)] in simp_all)
  moreover have "days_from_civil y m d = t div MS_DAY" using days_of_civil [of "t div MS_DAY"] c(1) by simp
  ultimately have e: "iso_ms (toISOString t) = Some ((((t div MS_DAY * 24 + h) * 60 + mi) * 60 + sec) * 1000 + ms)" using b by simp
  have glue: "(((k * 24 + h) * 60 + mi) * 60 + sec) * 1000 + ms = MS_DAY * k + (((h * 60 + mi) * 60 + sec) * 1000 + ms)" for k
    by (simp add: MS_DAY_def algebra_simps)
  show ?thesis unfolding e glue by (metis c(2) mult_div_mod_eq)
qed

section \<open>The query\<close>

lemma uri_decode: "form_decode (encode_uri_component s) = s"
proof (induction s)
  case (Cons c s)
  have "c \<noteq> CHR ''+'' \<and> c \<noteq> CHR ''%''" if "uri_safe c" using that by (auto simp: uri_safe_def is_alnum_def Let_def)
  with Cons show ?case by (auto simp: encode_uri_component_def form_decode_plain form_decode_percent)
qed (simp add: encode_uri_component_def)

lemma uri_no_sep: "set (encode_uri_component s) \<inter> {CHR ''&'', CHR ''='', CHR ''?'', CHR ''#''} = {}"
proof -
  have "uri_safe c \<Longrightarrow> c \<notin> {CHR ''&'', CHR ''='', CHR ''?'', CHR ''#''}" for c
    by (auto simp: uri_safe_def is_alnum_def Let_def)
  then show ?thesis using percent_no_sep by (fastforce simp: encode_uri_component_def)
qed

lemma parse_uri_pair:
  "CHR ''='' \<notin> set k \<Longrightarrow> form_decode k = k \<Longrightarrow> parse_pair (k @ CHR ''='' # encode_uri_component v) = (k, v)"
proof -
  assume k: "CHR ''='' \<notin> set k" "form_decode k = k"
  then have "takeWhile (\<lambda>c. c \<noteq> CHR ''='') (k @ CHR ''='' # encode_uri_component v) = k"
    "dropWhile (\<lambda>c. c \<noteq> CHR ''='') (k @ CHR ''='' # encode_uri_component v) = CHR ''='' # encode_uri_component v"
    by (subst takeWhile_append2 dropWhile_append2; force)+
  then show ?thesis using k by (simp add: parse_pair_def uri_decode)
qed

lemma split_plain: "CHR ''&'' \<notin> set w \<Longrightarrow> split_on CHR ''&'' w = [w]"
  using split_on_join [of "[w]"] by simp

lemma query_named:
  "params_parse (''period='' @ encode_uri_component p) = [(''period'', p)]"
proof -
  have "split_on CHR ''&'' (''period='' @ encode_uri_component p) = [''period='' @ encode_uri_component p]"
    by (rule split_plain) (use uri_no_sep [of p] in auto)
  then show ?thesis using parse_uri_pair [of "''period''" p] by (simp add: params_parse_def)
qed

lemma query_custom:
  "params_parse (''period='' @ CUSTOM @ ''&from='' @ encode_uri_component a @ ''&to='' @ encode_uri_component b)
    = [(''period'', CUSTOM), (''from'', a), (''to'', b)]"
proof -
  let ?ws = "[''period='' @ CUSTOM, ''from='' @ encode_uri_component a, ''to='' @ encode_uri_component b]"
  have "split_on CHR ''&'' (join_with ''&'' ?ws) = ?ws"
    by (rule split_on_join) (use uri_no_sep [of a] uri_no_sep [of b] in \<open>auto simp: CUSTOM_def\<close>)
  then have "split_on CHR ''&'' (''period='' @ CUSTOM @ ''&from='' @ encode_uri_component a @ ''&to='' @ encode_uri_component b) = ?ws" by simp
  moreover have "parse_pair (''period='' @ CUSTOM) = (''period'', CUSTOM)"
    using parse_uri_pair [of "''period''" CUSTOM] by (simp add: CUSTOM_def encode_uri_component_def uri_safe_def is_alnum_def)
  ultimately show ?thesis
    using parse_uri_pair [of "''from''" a] parse_uri_pair [of "''to''" b] by (simp add: params_parse_def)
qed

lemma named_query: "period \<noteq> CUSTOM \<Longrightarrow> map_option params_parse (periodQuery z period f u) = Some [(''period'', period)]"
  using query_named [of period] by (simp add: periodQuery_def)

lemma year_numeral:
  assumes "1000 \<le> y" "y \<le> 9999"
  shows "numeral_of 4 (nat y) (int_str y)"
proof -
  have "nat y < 10 ^ length (nat_str (nat y))" using digits_val_bound [OF nat_str_digits, of "nat y"] by simp
  moreover have "(10 :: nat) ^ length (nat_str (nat y)) \<le> 1000" if "length (nat_str (nat y)) \<le> 3"
    using power_increasing [OF that, of "10 :: nat"] by simp
  moreover have "1000 \<le> nat y" using assms by simp
  ultimately have "\<not> length (nat_str (nat y)) \<le> 3" by (meson not_le order_less_le_trans)
  then have "4 \<le> length (nat_str (nat y))" by simp
  then have "pad_zeros 4 (nat_str (nat y)) = nat_str (nat y)" by (simp add: pad_zeros_def)
  then show ?thesis using pad_int [of y 4] assms by (simp add: int_str_def)
qed

lemma pad2_numeral: "0 \<le> n \<Longrightarrow> n \<le> 99 \<Longrightarrow> numeral_of 2 (nat n) (pad2 n)"
  by (simp add: pad2_def pad_int)

lemma minute_split: "r - r mod 60000 = ((r div 3600000 * 60 + r div 60000 mod 60) * 60) * 1000" for r :: int
proof -
  have "r div 3600000 = r div 60000 div 60" using zdiv_zmult2_eq [of 60 r 60000] by simp
  then have 1: "r div 60000 = 60 * (r div 3600000) + r div 60000 mod 60" by (metis mult_div_mod_eq)
  have 2: "r - r mod 60000 = 60000 * (r div 60000)" by (simp add: minus_mod_eq_mult_div)
  have glue: "x = ((c * 60 + m) * 60) * 1000" if "x = 60000 * b" "b = 60 * c + m" for x b c m :: int using that by simp
  show ?thesis by (rule glue [OF 2 1])
qed

lemma now_text:
  fixes wall_of_utc :: "int \<Rightarrow> int" and t w :: int
  assumes "w = wall_of_utc t" and "1000 \<le> fst (civil_from_days (w div MS_DAY))" "fst (civil_from_days (w div MS_DAY)) \<le> 9999"
  shows "parse_wall (localNow wall_of_utc t) = Some (w - w mod 60000)"
proof -
  obtain y m d where c: "civil_from_days (w div MS_DAY) = (y, m, d)" by (cases "civil_from_days (w div MS_DAY)")
  have y: "1000 \<le> y" "y \<le> 9999" using assms(2,3) c by simp_all
  have md: "1 \<le> m" "m \<le> 12" "1 \<le> d" "d \<le> 31" using civil_date_valid [OF c] by simp_all
  let ?r = "w mod MS_DAY"
  have r: "0 \<le> ?r" "?r < MS_DAY" by (simp_all add: MS_DAY_def)
  note b = clock_bounds [OF r]
  define h where "h = ?r div 3600000"
  define mi where "mi = ?r div 60000 mod 60"
  have hm: "0 \<le> h" "h \<le> 23" "0 \<le> mi" "mi \<le> 59" unfolding h_def mi_def by (rule b)+
  have n: "numeral_of 4 (nat y) (int_str y)" "numeral_of 2 (nat m) (pad2 m)" "numeral_of 2 (nat d) (pad2 d)"
    "numeral_of 2 (nat h) (pad2 h)" "numeral_of 2 (nat mi) (pad2 mi)" "numeral_of 2 0 ''00''"
    using year_numeral [OF y] pad2_numeral md hm by (simp_all add: numeral_of_def digits_val_Cons digit_val_def is_digit_def)
  have written: "localNow wall_of_utc t = int_str y @ ''-'' @ pad2 m @ ''-'' @ pad2 d @ ''T'' @ pad2 h @ '':'' @ pad2 mi"
    by (simp add: localNow_def Let_def c h_def mi_def flip: assms(1))
  have len: "length (localNow wall_of_utc t) = 16" using n unfolding written by (simp add: numeral_of_def)
  have z: "fraction_ms ''Z'' = Some (0, ''Z'')" by (simp add: fraction_ms_def)
  have "iso_ms (localNow wall_of_utc t @ '':00Z'') = Some ((((days_from_civil (int (nat y)) (int (nat m)) (int (nat d)) * 24 + int (nat h)) * 60
      + int (nat mi)) * 60 + int 0) * 1000 + 0)"
    using iso_ms_fields [OF n _ _ _ _ _ _ _ z] md hm unfolding written by simp
  moreover have "days_from_civil y m d = w div MS_DAY" using days_of_civil [of "w div MS_DAY"] c by simp
  ultimately have e: "parse_wall (localNow wall_of_utc t) = Some (((w div MS_DAY * 24 + h) * 60 + mi) * 60 * 1000)"
    using y md hm len by (simp add: parse_wall_def)
  have "60000 dvd MS_DAY" unfolding MS_DAY_def by simp
  then have "?r mod 60000 = w mod 60000" by (rule mod_mod_cancel)
  then have "w - w mod 60000 = MS_DAY * (w div MS_DAY) + (?r - ?r mod 60000)"
    using mult_div_mod_eq [of MS_DAY w] by linarith
  also have "\<dots> = MS_DAY * (w div MS_DAY) + (h * 60 + mi) * 60 * 1000" by (simp only: minute_split h_def mi_def)
  finally have "w - w mod 60000 = MS_DAY * (w div MS_DAY) + (h * 60 + mi) * 60 * 1000" .
  moreover have "((k * 24 + h) * 60 + mi) * 60 * 1000 = MS_DAY * k + (h * 60 + mi) * 60 * 1000" for k
    by (simp add: MS_DAY_def algebra_simps)
  ultimately show ?thesis using e by simp
qed

section \<open>Properties\<close>

text \<open>The years after 9999 are written with a sign, which sorts before every digit.\<close>

definition far_year :: "int \<Rightarrow> bool" where
  "far_year t \<longleftrightarrow> 9999 < fst (civil_from_days (t div MS_DAY))"

lemma far_after:
  assumes "four_digit_year s" "far_year t"
  shows "s < t"
proof (rule ccontr)
  assume "\<not> s < t"
  then have "t div MS_DAY \<le> s div MS_DAY" by (intro zdiv_mono1) (simp_all add: MS_DAY_def)
  moreover have "t div MS_DAY \<noteq> s div MS_DAY" using assms by (auto simp: four_digit_year_def far_year_def)
  ultimately have "civil_key (civil_from_days (t div MS_DAY)) < civil_key (civil_from_days (s div MS_DAY))"
    by (intro civil_order) simp
  moreover obtain y m d y' m' d' where c: "civil_from_days (t div MS_DAY) = (y, m, d)" "civil_from_days (s div MS_DAY) = (y', m', d')"
    by (metis prod_cases3)
  moreover have "9999 < y" "y' \<le> 9999" using assms c by (simp_all add: four_digit_year_def far_year_def)
  ultimately show False using civil_date_valid [OF c(1)] civil_date_valid [OF c(2)] by simp
qed

lemma far_text: "far_year t \<Longrightarrow> \<exists>r. toISOString t = CHR ''+'' # r"
  by (auto simp: far_year_def toISOString_def Let_def year_text_def split: prod.splits)

lemma four_text:
  assumes "four_digit_year t"
  shows "\<exists>c r. toISOString t = c # r \<and> is_digit c"
proof -
  obtain y m d where c: "civil_from_days (t div MS_DAY) = (y, m, d)" by (cases "civil_from_days (t div MS_DAY)")
  then have y: "0 \<le> y" "y \<le> 9999" using assms by (simp_all add: four_digit_year_def)
  then have "numeral_of 4 (nat y) (year_text y)" by (simp add: year_text_def pad_numeral)
  then show ?thesis by (cases "year_text y") (auto simp: toISOString_def c Let_def numeral_of_def)
qed

lemma far_sorts_first:
  assumes "far_year s" "four_digit_year t"
  shows "str_less (toISOString s) (toISOString t)" "\<not> str_less (toISOString t) (toISOString s)"
  using far_text [OF assms(1)] four_text [OF assms(2)] by (auto simp: is_digit_def)

text \<open>C36. A custom range asks for exactly the window that was chosen, as long as both instants fall into the
  years 0 to 9999 of UTC: with two readable inputs the query then exists iff the first instant lies
  before the second, although the code compares their texts; and the server, reading the query
  back, finds the two instants to the millisecond. Across the end of
  these years the text comparison is wrong: a range that ends beyond the year 9999 (the last hours of an input's own last year, read
  west of UTC) is refused although it is in order, and one that begins there is asked for backwards.\<close>

theorem custom_range_is_the_chosen_window:
  assumes "parse_wall f = Some a" "parse_wall u = Some b"
  shows "(four_digit_year (utc_of_wall a) \<and> four_digit_year (utc_of_wall b) \<longrightarrow>
     (case periodQuery utc_of_wall CUSTOM (Some f) (Some u) of
        None \<Rightarrow> utc_of_wall b \<le> utc_of_wall a
      | Some q \<Rightarrow> utc_of_wall a < utc_of_wall b
          \<and> (\<exists>x y. params_parse q = [(''period'', CUSTOM), (''from'', x), (''to'', y)]
               \<and> iso_ms x = Some (utc_of_wall a) \<and> iso_ms y = Some (utc_of_wall b))))
    \<and> (four_digit_year (utc_of_wall a) \<and> far_year (utc_of_wall b) \<longrightarrow>
         utc_of_wall a < utc_of_wall b \<and> periodQuery utc_of_wall CUSTOM (Some f) (Some u) = None)
    \<and> (far_year (utc_of_wall a) \<and> four_digit_year (utc_of_wall b) \<longrightarrow>
         utc_of_wall b < utc_of_wall a \<and> periodQuery utc_of_wall CUSTOM (Some f) (Some u) \<noteq> None)"
proof (intro conjI impI; (elim conjE)?)
  have "f \<noteq> []" "u \<noteq> []" using assms(1,2) by (auto simp: parse_wall_def iso_ms_def)
  then have i: "toInstant utc_of_wall (Some f) = Some (toISOString (utc_of_wall a))" "toInstant utc_of_wall (Some u) = Some (toISOString (utc_of_wall b))"
    using assms(1,2) by (simp_all add: toInstant_def)
  have valid: "customRangeValid utc_of_wall (Some f) (Some u) = str_less (toISOString (utc_of_wall a)) (toISOString (utc_of_wall b))"
    by (simp add: customRangeValid_def i)
  {
    assume four: "four_digit_year (utc_of_wall a)" "four_digit_year (utc_of_wall b)"
    show "case periodQuery utc_of_wall CUSTOM (Some f) (Some u) of
        None \<Rightarrow> utc_of_wall b \<le> utc_of_wall a
      | Some q \<Rightarrow> utc_of_wall a < utc_of_wall b
          \<and> (\<exists>x y. params_parse q = [(''period'', CUSTOM), (''from'', x), (''to'', y)]
               \<and> iso_ms x = Some (utc_of_wall a) \<and> iso_ms y = Some (utc_of_wall b))"
      using query_custom iso_round_trip [OF four(1)] iso_round_trip [OF four(2)] iso_less_iff [OF four]
      by (simp add: periodQuery_def valid i)
  }
  {
    assume far: "four_digit_year (utc_of_wall a)" "far_year (utc_of_wall b)"
    show "utc_of_wall a < utc_of_wall b" by (rule far_after [OF far])
    show "periodQuery utc_of_wall CUSTOM (Some f) (Some u) = None"
      using far_sorts_first(2) [OF far(2,1)] by (simp add: periodQuery_def valid)
  }
  {
    assume far: "far_year (utc_of_wall a)" "four_digit_year (utc_of_wall b)"
    show "utc_of_wall b < utc_of_wall a" by (rule far_after [OF far(2,1)])
    show "periodQuery utc_of_wall CUSTOM (Some f) (Some u) \<noteq> None"
      using far_sorts_first(1) [OF far] by (simp add: periodQuery_def valid i)
  }
qed

text \<open>A zone five hours behind UTC.\<close>

definition utc_of_new_york :: "int \<Rightarrow> int" where
  "utc_of_new_york w = w + 18000000"

text \<open>A zone three hours ahead of UTC.\<close>

definition utc_of_sofia :: "int \<Rightarrow> int" where
  "utc_of_sofia w = w - 10800000"

definition sofia_of_utc :: "int \<Rightarrow> int" where
  "sofia_of_utc t = t + 10800000"

theorem custom_range_is_the_chosen_window_witness:
  "(case periodQuery utc_of_sofia CUSTOM (Some ''2026-09-07T14:00'') (Some ''2026-09-08T14:00'') of
      None \<Rightarrow> (1788865200000 :: int) \<le> 1788778800000
    | Some q \<Rightarrow> (1788778800000 :: int) < 1788865200000
        \<and> (\<exists>x y. params_parse q = [(''period'', CUSTOM), (''from'', x), (''to'', y)] \<and> iso_ms x = Some 1788778800000 \<and> iso_ms y = Some 1788865200000))
    \<and> periodQuery utc_of_new_york CUSTOM (Some ''2026-09-07T14:00'') (Some ''9999-12-31T23:00'') = None"
proof
  have p: "parse_wall ''2026-09-07T14:00'' = Some 1788789600000" "parse_wall ''2026-09-08T14:00'' = Some 1788876000000"
    "parse_wall ''9999-12-31T23:00'' = Some 253402297200000"
    by code_simp+
  have u: "utc_of_sofia 1788789600000 = 1788778800000" "utc_of_sofia 1788876000000 = 1788865200000"
    by (simp_all add: utc_of_sofia_def)
  have y: "four_digit_year 1788778800000" "four_digit_year 1788865200000" by code_simp+
  show "case periodQuery utc_of_sofia CUSTOM (Some ''2026-09-07T14:00'') (Some ''2026-09-08T14:00'') of
      None \<Rightarrow> (1788865200000 :: int) \<le> 1788778800000
    | Some q \<Rightarrow> (1788778800000 :: int) < 1788865200000
        \<and> (\<exists>x y. params_parse q = [(''period'', CUSTOM), (''from'', x), (''to'', y)] \<and> iso_ms x = Some 1788778800000 \<and> iso_ms y = Some 1788865200000)"
    using custom_range_is_the_chosen_window [OF p(1,2), of utc_of_sofia, unfolded u] y by blast
  have n: "four_digit_year (utc_of_new_york 1788789600000)" "far_year (utc_of_new_york 253402297200000)" by code_simp+
  show "periodQuery utc_of_new_york CUSTOM (Some ''2026-09-07T14:00'') (Some ''9999-12-31T23:00'') = None"
    using custom_range_is_the_chosen_window [OF p(1,3), of utc_of_new_york] n by blast
qed

text \<open>The "now" button names the reader's own present minute: the text it writes into the input is read
  back as that minute, wherever the time zone maps the wall clock back to the instant it came from.\<close>

theorem now_button_names_this_minute:
  assumes "1000 \<le> fst (civil_from_days (wall_of_utc t div MS_DAY))" "fst (civil_from_days (wall_of_utc t div MS_DAY)) \<le> 9999"
    and zone: "utc_of_wall (wall_of_utc t - wall_of_utc t mod 60000) = t - t mod 60000"
  shows "toInstant utc_of_wall (Some (localNow wall_of_utc t)) = Some (toISOString (t - t mod 60000))"
proof -
  have "parse_wall (localNow wall_of_utc t) = Some (wall_of_utc t - wall_of_utc t mod 60000)" 
    using now_text [of "wall_of_utc t" wall_of_utc t] assms(1,2) by simp
  moreover from this have "localNow wall_of_utc t \<noteq> []" by (auto simp: parse_wall_def iso_ms_def)
  ultimately show ?thesis using zone by (simp add: toInstant_def)
qed

theorem now_button_names_this_minute_witness:
  "toInstant utc_of_sofia (Some (localNow sofia_of_utc 1788778830000)) = Some (toISOString (1788778830000 - 1788778830000 mod 60000))"
proof -
  have "fst (civil_from_days (sofia_of_utc 1788778830000 div MS_DAY)) = 2026" by code_simp
  then have y: "1000 \<le> fst (civil_from_days (sofia_of_utc 1788778830000 div MS_DAY))" "fst (civil_from_days (sofia_of_utc 1788778830000 div MS_DAY)) \<le> 9999"
    by simp_all
  have "utc_of_sofia (sofia_of_utc 1788778830000 - sofia_of_utc 1788778830000 mod 60000) = 1788778830000 - 1788778830000 mod 60000" by code_simp
  from now_button_names_this_minute [of sofia_of_utc 1788778830000 utc_of_sofia, OF y this] show ?thesis .
qed

end
