(* ===== verification/Axis_Colour.thy ===== *)
theory Axis_Colour
  imports Scales
begin

text \<open>
  The colour of a chart's axis (\<open>web/src/lib/axiscolour.js\<close>): a metric's configured colour, moved
  towards white or black until it can be read on the page. A channel is a number or NaN (\<open>None\<close>);
  digits and dots never read as an infinity.
\<close>

type_synonym channels = "real option \<times> real option \<times> real option"

section \<open>Reading a colour\<close>

definition channel_char :: "char \<Rightarrow> bool" where
  "channel_char c \<longleftrightarrow> is_digit c \<or> c = CHR ''.''"

definition channel_sep :: "char \<Rightarrow> bool" where
  "channel_sep c \<longleftrightarrow> c = CHR '','' \<or> is_ws c"

definition channel_num :: "string \<Rightarrow> real option" where
  "channel_num s = (case string_to_number s of Fin x \<Rightarrow> Some x | _ \<Rightarrow> None)"

text \<open>The classes of the pattern do not overlap, so a greedy reading is the only one.\<close>

definition rgb_at :: "string \<Rightarrow> channels option" where
  "rgb_at s = (if map lower_ascii (take 3 s) \<noteq> ''rgb'' then None
     else let s1 = drop 3 s; s2 = (if map lower_ascii (take 1 s1) = ''a'' then drop 1 s1 else s1) in
       if take 1 s2 \<noteq> ''('' then None
       else let s3 = dropWhile is_ws (drop 1 s2);
          r = takeWhile channel_char s3; s4 = dropWhile channel_char s3;
          s5 = dropWhile channel_sep s4; g = takeWhile channel_char s5; s6 = dropWhile channel_char s5;
          s7 = dropWhile channel_sep s6; b = takeWhile channel_char s7
        in if r = [] \<or> takeWhile channel_sep s4 = [] \<or> g = [] \<or> takeWhile channel_sep s6 = [] \<or> b = [] then None
           else Some (channel_num r, channel_num g, channel_num b))"

fun rgb_search :: "string \<Rightarrow> channels option" where
  "rgb_search [] = None"
| "rgb_search (c # s) = (case rgb_at (c # s) of Some v \<Rightarrow> Some v | None \<Rightarrow> rgb_search s)"

definition parseColour :: "colour \<Rightarrow> channels option" where
  "parseColour v = (case v of None \<Rightarrow> None
     | Some s \<Rightarrow> (case parse_hash s of
         Some (r, g, b) \<Rightarrow> Some (Some (real r), Some (real g), Some (real b))
       | None \<Rightarrow> rgb_search s))"

section \<open>Contrast\<close>

definition channel_luminance :: "real \<Rightarrow> real" where
  "channel_luminance v = (let s = v / 255 in if s \<le> 3928 / 100000 then s / (1292 / 100) else ((s + 55 / 1000) / (1055 / 1000)) powr (24 / 10))"

definition relativeLuminance :: "channels \<Rightarrow> real option" where
  "relativeLuminance c = (case c of
      (Some r, Some g, Some b) \<Rightarrow> Some (2126 / 10000 * channel_luminance r + 7152 / 10000 * channel_luminance g + 722 / 10000 * channel_luminance b)
    | _ \<Rightarrow> None)"

text \<open>\<open>null\<close>, NaN, or a ratio.\<close>

definition contrastRatio :: "colour \<Rightarrow> colour \<Rightarrow> real option option" where
  "contrastRatio a b = (case (parseColour a, parseColour b) of
      (Some ca, Some cb) \<Rightarrow> Some (case (relativeLuminance ca, relativeLuminance cb) of
          (Some la, Some lb) \<Rightarrow> Some ((max la lb + 5 / 100) / (min la lb + 5 / 100))
        | _ \<Rightarrow> None)
    | _ \<Rightarrow> None)"

definition clears :: "real \<Rightarrow> real option option \<Rightarrow> bool" where
  "clears m ratio = (case ratio of None \<Rightarrow> m \<le> 0 | Some None \<Rightarrow> False | Some (Some r) \<Rightarrow> m \<le> r)"

section \<open>Moving the colour\<close>

definition mix_channel :: "real option \<Rightarrow> real \<Rightarrow> real \<Rightarrow> int option" where
  "mix_channel v to t = map_option (\<lambda>x. math_round (x + (to - x) * t)) v"

definition mix :: "channels \<Rightarrow> real \<Rightarrow> real \<Rightarrow> int option \<times> int option \<times> int option" where
  "mix from_c to t = (case from_c of (r, g, b) \<Rightarrow> (mix_channel r to t, mix_channel g to t, mix_channel b to t))"

definition channel_text :: "int option \<Rightarrow> string" where
  "channel_text c = (case c of Some n \<Rightarrow> int_str n | None \<Rightarrow> ''NaN'')"

definition rgb_text :: "string \<Rightarrow> int option \<times> int option \<times> int option \<Rightarrow> string" where
  "rgb_text sep c = (case c of (r, g, b) \<Rightarrow> ''rgb('' @ channel_text r @ sep @ channel_text g @ sep @ channel_text b @ '')'')"

text \<open>
  \<open>t += 0.02\<close> from 0 while \<open>t <= 1\<close>: in doubles the fiftieth sum is above 1, so the loop tries the
  fifty steps from 0 to 0.98 and never the target itself.
\<close>

definition MIX_STEPS :: "real list" where
  "MIX_STEPS = map (\<lambda>k. real k / 50) [0..<50]"

fun legible_loop :: "channels \<Rightarrow> real \<Rightarrow> colour \<Rightarrow> real \<Rightarrow> real list \<Rightarrow> int option \<times> int option \<times> int option \<Rightarrow> int option \<times> int option \<times> int option" where
  "legible_loop from_c to bg m [] rgb = rgb"
| "legible_loop from_c to bg m (t # ts) rgb = (let c = mix from_c to t in
     if clears m (contrastRatio (Some (rgb_text '','' c)) bg) then c else legible_loop from_c to bg m ts c)"

definition legibleStroke :: "colour \<Rightarrow> colour \<Rightarrow> real \<Rightarrow> colour" where
  "legibleStroke colour bg m = (case (parseColour colour, parseColour bg) of
      (Some from_c, Some against) \<Rightarrow> if clears m (contrastRatio colour bg) then colour
        else let to = (case relativeLuminance against of Some l \<Rightarrow> if l < 1 / 2 then 255 else 0 | None \<Rightarrow> 0)
          in Some (rgb_text '', '' (legible_loop from_c to bg m MIX_STEPS (mix from_c to 0)))
    | _ \<Rightarrow> colour)"

section \<open>Lemmas\<close>

lemma int_str_nonneg: "0 \<le> n \<Longrightarrow> int_str n = nat_str (nat n)"
  by (simp add: int_str_def)

lemma digit_channel: "list_all is_digit s \<Longrightarrow> takeWhile channel_char (s @ c # t) = (if channel_char c then s @ c # takeWhile channel_char t else s)"
  "list_all is_digit s \<Longrightarrow> dropWhile channel_char (s @ c # t) = (if channel_char c then dropWhile channel_char t else c # t)"
  by (induction s) (auto simp: channel_char_def)

lemma digit_not_sep: "is_digit c \<Longrightarrow> \<not> channel_sep c \<and> \<not> is_ws c"
  using digit_not_ws by (auto simp: channel_sep_def is_digit_def)

lemma skip_to_digits:
  assumes "list_all is_digit s" "s \<noteq> []"
  shows "dropWhile channel_sep (s @ t) = s @ t" "dropWhile is_ws (s @ t) = s @ t"
  using assms digit_not_sep by (cases s; auto)+

lemma channel_num_nat [simp]: "channel_num (nat_str n) = Some (real n)"
  by (simp add: channel_num_def)

lemma rgb_at_open:
  "rgb_at (''rgb('' @ z) = (let s3 = dropWhile is_ws z;
          r = takeWhile channel_char s3; s4 = dropWhile channel_char s3;
          s5 = dropWhile channel_sep s4; g = takeWhile channel_char s5; s6 = dropWhile channel_char s5;
          s7 = dropWhile channel_sep s6; b = takeWhile channel_char s7
        in if r = [] \<or> takeWhile channel_sep s4 = [] \<or> g = [] \<or> takeWhile channel_sep s6 = [] \<or> b = [] then None
           else Some (channel_num r, channel_num g, channel_num b))"
proof -
  have "map lower_ascii (take 3 (''rgb('' @ z)) = ''rgb''" "drop 3 (''rgb('' @ z) = CHR ''('' # z"
    "map lower_ascii (take 1 (CHR ''('' # z)) \<noteq> ''a''" "take 1 (CHR ''('' # z) = ''(''" "drop 1 (CHR ''('' # z) = z"
    by (simp_all add: lower_ascii_def Let_def)
  then show ?thesis unfolding rgb_at_def by (simp only: Let_def simp_thms if_False if_True)
qed

lemma rgb_at_digits:
  assumes R: "list_all is_digit R" "R \<noteq> []" and G: "list_all is_digit G" "G \<noteq> []" and B: "list_all is_digit B" "B \<noteq> []"
    and sep: "sep = '','' \<or> sep = '', ''"
  shows "rgb_at (''rgb('' @ R @ sep @ G @ sep @ B @ '')'') = Some (channel_num R, channel_num G, channel_num B)"
proof -
  obtain sp where sp: "sep = CHR '','' # sp" "sp = [] \<or> sp = '' ''" using sep by auto
  have ch: "\<not> channel_char CHR '',''" "\<not> channel_char CHR '')''" by (simp_all add: channel_char_def is_digit_def)
  have number: "takeWhile channel_char (X @ CHR '','' # t) = X" "dropWhile channel_char (X @ CHR '','' # t) = CHR '','' # t"
    "takeWhile channel_char (X @ '')'') = X" if "list_all is_digit X" for X t
    using digit_channel [OF that] ch by simp_all
  have gap: "dropWhile channel_sep (CHR '','' # sp @ X @ t) = X @ t" "takeWhile channel_sep (CHR '','' # sp @ X @ t) \<noteq> []"
    if "list_all is_digit X" "X \<noteq> []" for X t
    using skip_to_digits [OF that] sp(2) by (auto simp: channel_sep_def is_ws_def)
  show ?thesis
    unfolding rgb_at_open Let_def unfolding sp(1) append_Cons append_assoc
    by (simp only: skip_to_digits [OF R] number [OF R(1)] gap [OF G] number [OF G(1)] gap [OF B] number [OF B(1)] R G B
      simp_thms if_False if_True)
qed

lemma parse_rgb_text:
  assumes "0 \<le> r" "0 \<le> g" "0 \<le> b" "sep = '','' \<or> sep = '', ''"
  shows "parseColour (Some (rgb_text sep (Some r, Some g, Some b))) = Some (Some (of_int r), Some (of_int g), Some (of_int b))"
proof -
  have t: "rgb_text sep (Some r, Some g, Some b) = ''rgb('' @ nat_str (nat r) @ sep @ nat_str (nat g) @ sep @ nat_str (nat b) @ '')''"
    using assms(1-3) by (simp add: rgb_text_def channel_text_def int_str_nonneg)
  have "rgb_at (rgb_text sep (Some r, Some g, Some b)) = Some (Some (of_int r), Some (of_int g), Some (of_int b))"
    unfolding t rgb_at_digits [OF nat_str_digits nat_str_not_Nil nat_str_digits nat_str_not_Nil nat_str_digits nat_str_not_Nil assms(4)]
      channel_num_nat using assms(1-3) by simp
  then obtain c u where cu: "rgb_text sep (Some r, Some g, Some b) = c # u" "c = CHR ''r''"
    "rgb_at (c # u) = Some (Some (of_int r), Some (of_int g), Some (of_int b))" by (simp add: rgb_text_def)
  have "parse_hash (c # u) = None" by (simp add: parse_hash_def cu(2))
  then show ?thesis unfolding parseColour_def cu(1) by (simp add: cu(3))
qed

lemma loop_end:
  "ts \<noteq> [] \<Longrightarrow> clears m (contrastRatio (Some (rgb_text '','' (legible_loop from_c to bg m ts c))) bg)
     \<or> legible_loop from_c to bg m ts c = mix from_c to (last ts)"
proof (induction ts arbitrary: c)
  case (Cons t ts)
  then show ?case by (cases "ts = []") (auto simp: Let_def)
qed simp

lemma loop_mixes: "ts \<noteq> [] \<Longrightarrow> \<exists>t \<in> set ts. legible_loop from_c to bg m ts c = mix from_c to t"
proof (induction ts arbitrary: c)
  case (Cons t ts)
  then show ?case by (cases "ts = []") (auto simp: Let_def)
qed simp

lemma bright_channel:
  assumes "250 \<le> v" "v \<le> 255"
  shows "944 / 1000 \<le> channel_luminance v"
proof -
  define x where "x = (v / 255 + 55 / 1000) / (1055 / 1000)"
  have x: "981 / 1000 \<le> x" "x \<le> 1" using assms by (simp_all add: x_def field_simps)
  have "(944 / 1000 :: real) \<le> (981 / 1000) ^ 3" by (simp add: power3_eq_cube)
  also have "\<dots> \<le> x ^ 3" using x by (intro power_mono) simp_all
  also have "x ^ 3 = x powr 3" using x by (simp add: powr_numeral)
  also have "\<dots> \<le> x powr (24 / 10)" using x by (intro powr_mono') simp_all
  also have "\<dots> = channel_luminance v" using assms by (simp add: channel_luminance_def Let_def x_def)
  finally show ?thesis .
qed

lemma dark_channel: "0 \<le> v \<Longrightarrow> v \<le> 5 \<Longrightarrow> channel_luminance v \<le> 2 / 1000"
  by (simp add: channel_luminance_def Let_def)

lemma channel_nonneg: "0 \<le> v \<Longrightarrow> 0 \<le> channel_luminance v"
  by (simp add: channel_luminance_def Let_def)

definition byte_channels :: "channels \<Rightarrow> bool" where
  "byte_channels c \<longleftrightarrow> (\<exists>r g b. c = (Some r, Some g, Some b) \<and> 0 \<le> r \<and> r \<le> 255 \<and> 0 \<le> g \<and> g \<le> 255 \<and> 0 \<le> b \<and> b \<le> 255)"

lemma last_step: "MIX_STEPS \<noteq> []" "last MIX_STEPS = 49 / 50"
  by (simp_all add: MIX_STEPS_def last_map)

lemma round_up: "of_int n - 1 / 2 \<le> x \<Longrightarrow> n \<le> math_round x"
  unfolding math_round_def by (simp add: le_floor_iff)

lemma round_down: "x < of_int n + 1 / 2 \<Longrightarrow> math_round x \<le> n"
  unfolding math_round_def by (simp add: floor_le_iff)

lemma mix_white:
  assumes "0 \<le> x" "x \<le> 255"
  shows "250 \<le> math_round (x + (255 - x) * (49 / 50)) \<and> math_round (x + (255 - x) * (49 / 50)) \<le> 255"
proof
  show "250 \<le> math_round (x + (255 - x) * (49 / 50))" by (rule round_up) (use assms in \<open>simp add: field_simps\<close>)
  show "math_round (x + (255 - x) * (49 / 50)) \<le> 255" by (rule round_down) (use assms in \<open>simp add: field_simps\<close>)
qed

lemma mix_black:
  assumes "0 \<le> x" "x \<le> 255"
  shows "0 \<le> math_round (x + (0 - x) * (49 / 50)) \<and> math_round (x + (0 - x) * (49 / 50)) \<le> 5"
proof
  show "0 \<le> math_round (x + (0 - x) * (49 / 50))" by (rule round_up) (use assms in \<open>simp add: field_simps\<close>)
  show "math_round (x + (0 - x) * (49 / 50)) \<le> 5" by (rule round_down) (use assms in \<open>simp add: field_simps\<close>)
qed

lemma steps_between: "t \<in> set MIX_STEPS \<Longrightarrow> 0 \<le> t \<and> t \<le> 49 / 50"
  by (auto simp: MIX_STEPS_def)

lemma mix_nonneg:
  assumes "0 \<le> x" "0 \<le> to" "0 \<le> t" "t \<le> 49 / 50"
  shows "0 \<le> math_round (x + (to - x) * t)"
proof (rule round_up)
  have "x + (to - x) * t = x * (1 - t) + to * t" by (simp add: algebra_simps)
  also have "0 \<le> x * (1 - t) + to * t" using assms by (intro add_nonneg_nonneg mult_nonneg_nonneg) auto
  ultimately show "of_int 0 - 1 / 2 \<le> x + (to - x) * t" by simp
qed

text \<open>The contrast of what the loop ends with, read back from the string the code returns.\<close>

lemma stroke_contrast:
  assumes "parseColour bg = Some ag" "relativeLuminance ag = Some l" "0 \<le> r" "0 \<le> g" "0 \<le> b" "sep = '','' \<or> sep = '', ''"
  shows "contrastRatio (Some (rgb_text sep (Some r, Some g, Some b))) bg
    = Some (Some (let c = 2126 / 10000 * channel_luminance (of_int r) + 7152 / 10000 * channel_luminance (of_int g) + 722 / 10000 * channel_luminance (of_int b)
        in (max c l + 5 / 100) / (min c l + 5 / 100)))"
  unfolding contrastRatio_def parse_rgb_text [OF assms(3-6)] using assms(1,2) by (simp add: relativeLuminance_def Let_def)

lemma white_clears:
  fixes c l :: real
  assumes "944 / 1000 \<le> c" "0 \<le> l" "l \<le> 17 / 100"
  shows "9 / 2 \<le> (max c l + 5 / 100) / (min c l + 5 / 100)"
proof -
  have "max c l = c" "min c l = l" using assms by auto
  then show ?thesis using assms by (simp add: field_simps)
qed

lemma black_clears:
  fixes c l :: real
  assumes "c \<le> 2 / 1000" "0 \<le> c" "1 / 2 \<le> l"
  shows "9 / 2 \<le> (max c l + 5 / 100) / (min c l + 5 / 100)"
proof -
  have "max c l = l" "min c l = c" using assms by auto
  then show ?thesis using assms by (simp add: field_simps)
qed

lemma luminance_nonneg: "0 \<le> r \<Longrightarrow> 0 \<le> g \<Longrightarrow> 0 \<le> b \<Longrightarrow>
  0 \<le> 2126 / 10000 * channel_luminance r + 7152 / 10000 * channel_luminance g + 722 / 10000 * channel_luminance b"
  using channel_nonneg [of r] channel_nonneg [of g] channel_nonneg [of b] by simp

section \<open>Properties\<close>

text \<open>C39. An axis can be read: on a page whose background is dark or light (luminance at most 0.17, or at
  least 0.5), every configured colour comes out with a contrast of at least 4.5 to 1, whether it is kept or
  moved, measured on the very string that is handed to the plot.\<close>

theorem axis_is_legible:
  assumes "parseColour colour = Some from_c" "byte_channels from_c" "parseColour bg = Some ag" "byte_channels ag"
    and "relativeLuminance ag = Some l" "l \<le> 17 / 100 \<or> 1 / 2 \<le> l"
  shows "\<exists>r. contrastRatio (legibleStroke colour bg (9 / 2)) bg = Some (Some r) \<and> 9 / 2 \<le> r"
proof (cases "clears (9 / 2) (contrastRatio colour bg)")
  case True
  then have "legibleStroke colour bg (9 / 2) = colour" using assms(1,3) by (simp add: legibleStroke_def)
  with True show ?thesis by (auto simp: clears_def split: option.splits)
next
  case False
  obtain x y z where xyz: "from_c = (Some x, Some y, Some z)" "0 \<le> x" "x \<le> 255" "0 \<le> y" "y \<le> 255" "0 \<le> z" "z \<le> 255"
    using assms(2) by (auto simp: byte_channels_def)
  define to where "to = (if l < 1 / 2 then 255 else 0 :: real)"
  define c where "c = legible_loop from_c to bg (9 / 2) MIX_STEPS (mix from_c to 0)"
  have stroke: "legibleStroke colour bg (9 / 2) = Some (rgb_text '', '' c)"
    using False assms(1,3,5) by (simp add: legibleStroke_def c_def to_def)
  obtain t where t: "t \<in> set MIX_STEPS" "c = mix from_c to t" using loop_mixes [OF last_step(1)] c_def by blast
  define r where "r = math_round (x + (to - x) * t)"
  define g where "g = math_round (y + (to - y) * t)"
  define b where "b = math_round (z + (to - z) * t)"
  have crgb: "c = (Some r, Some g, Some b)" by (simp add: t(2) xyz(1) mix_def mix_channel_def r_def g_def b_def)
  have nn: "0 \<le> r" "0 \<le> g" "0 \<le> b"
    using mix_nonneg [of _ to t] xyz steps_between [OF t(1)] by (simp_all add: r_def g_def b_def to_def)
  note same = stroke_contrast [OF assms(3,5) nn]
  have l0: "0 \<le> l" using assms(4,5) luminance_nonneg by (auto simp: byte_channels_def relativeLuminance_def)
  consider "clears (9 / 2) (contrastRatio (Some (rgb_text '','' c)) bg)" | "c = mix from_c to (49 / 50)"
    using loop_end [OF last_step(1), of "9 / 2" from_c to bg "mix from_c to 0"] last_step(2) by (auto simp: c_def)
  then show ?thesis
  proof cases
    case 1
    then show ?thesis using same [of "'',''"] same [of "'', ''"] unfolding stroke crgb by (simp add: clears_def Let_def)
  next
    case 2
    then have c2: "r = math_round (x + (to - x) * (49 / 50))" "g = math_round (y + (to - y) * (49 / 50))" "b = math_round (z + (to - z) * (49 / 50))"
      unfolding crgb by (simp_all only: xyz(1) mix_def mix_channel_def prod.case option.map prod.inject option.inject)
    let ?c = "2126 / 10000 * channel_luminance (of_int r) + 7152 / 10000 * channel_luminance (of_int g) + 722 / 10000 * channel_luminance (of_int b)"
    have "9 / 2 \<le> (max ?c l + 5 / 100) / (min ?c l + 5 / 100)"
    proof (cases "l < 1 / 2")
      case True
      then have "250 \<le> r \<and> r \<le> 255" "250 \<le> g \<and> g \<le> 255" "250 \<le> b \<and> b \<le> 255" using mix_white xyz by (simp_all add: c2 to_def)
      then have "944 / 1000 \<le> channel_luminance (of_int r)" "944 / 1000 \<le> channel_luminance (of_int g)" "944 / 1000 \<le> channel_luminance (of_int b)"
        by (intro bright_channel; simp)+
      then have "944 / 1000 \<le> ?c" by simp
      then show ?thesis using True assms(6) l0 by (intro white_clears) auto
    next
      case False
      then have "0 \<le> r \<and> r \<le> 5" "0 \<le> g \<and> g \<le> 5" "0 \<le> b \<and> b \<le> 5" using mix_black xyz by (simp_all add: c2 to_def)
      then have d: "channel_luminance (of_int r) \<le> 2 / 1000" "channel_luminance (of_int g) \<le> 2 / 1000" "channel_luminance (of_int b) \<le> 2 / 1000"
        by (intro dark_channel; simp)+
      then have "?c \<le> 2 / 1000" by simp
      moreover have "0 \<le> ?c" using nn by (intro luminance_nonneg) simp_all
      ultimately show ?thesis using False by (intro black_clears) auto
    qed
    then show ?thesis using same [of "'', ''"] unfolding stroke crgb by (simp add: Let_def)
  qed
qed

theorem axis_is_legible_witness:
  "\<exists>r. contrastRatio (legibleStroke (Some ''#000000'') (Some ''#000'') (9 / 2)) (Some ''#000'') = Some (Some r) \<and> 9 / 2 \<le> r"
proof -
  have p: "parseColour (Some ''#000000'') = Some (Some 0, Some 0, Some 0)" "parseColour (Some ''#000'') = Some (Some 0, Some 0, Some 0)"
    by (simp_all add: parseColour_def parse_hash_def is_hex_def hex_val_def hex_pair_def)
  have l: "relativeLuminance (Some 0, Some 0, Some 0) = Some 0" by (simp add: relativeLuminance_def channel_luminance_def)
  have byt: "byte_channels (Some 0, Some 0, Some 0)" by (simp add: byte_channels_def)
  show ?thesis by (rule axis_is_legible [OF p(1) byt p(2) byt l]) simp
qed

end
