(* ===== verification/Finder.thy ===== *)
theory Finder
  imports Js_Prelude
begin

text \<open>
  Finding one area (\<open>web/src/lib/find.js\<close>) and sending the map there
  (\<open>web/src/lib/mapareas.svelte.js\<close>). Names are lists of code units of any kind; the reader's
  case folding, white space and collation are arguments.
\<close>

section \<open>Names (find.js)\<close>

definition trim_units :: "('u \<Rightarrow> bool) \<Rightarrow> 'u list \<Rightarrow> 'u list" where
  "trim_units white s = rev (dropWhile white (rev (dropWhile white s)))"

text \<open>A link of the rendered list is its text and its address.\<close>

definition readAreas :: "('u \<Rightarrow> bool) \<Rightarrow> ('u list \<times> 'b) list option \<Rightarrow> ('u list \<times> 'b) list" where
  "readAreas white links = (case links of None \<Rightarrow> []
     | Some ls \<Rightarrow> filter (\<lambda>(name, _). name \<noteq> []) (map (\<lambda>(text_content, href). (trim_units white text_content, href)) ls))"

definition area_label :: "string \<Rightarrow> jsval \<Rightarrow> string" where
  "area_label lang a = (let bg = (case as_str (jget a ''name_bg'') of Some s \<Rightarrow> s | None \<Rightarrow> []) in
     if lang = ''en'' then (case as_str (jget a ''name_en'') of Some s \<Rightarrow> if s = [] then bg else s | None \<Rightarrow> bg) else bg)"

definition areaOptions :: "jsval list option \<Rightarrow> string \<Rightarrow> (string \<times> jsval) list" where
  "areaOptions entries lang = filter (\<lambda>(name, _). name \<noteq> [])
     (map (\<lambda>a. (area_label lang a, a)) (case entries of Some es \<Rightarrow> es | None \<Rightarrow> []))"

text \<open>\<open>indexOf\<close>\<close>

fun index_of :: "'u list \<Rightarrow> 'u list \<Rightarrow> nat option" where
  "index_of q [] = (if q = [] then Some 0 else None)"
| "index_of q (c # s) = (if take (length q) (c # s) = q then Some 0 else map_option Suc (index_of q s))"

record ('u, 'b) found =
  fd_name :: "'u list"
  fd_area :: 'b
  fd_at :: int
  fd_len :: nat

definition typed :: "('u \<Rightarrow> bool) \<Rightarrow> ('u list \<Rightarrow> 'u list) \<Rightarrow> 'u list option \<Rightarrow> 'u list" where
  "typed white lower query = lower (trim_units white (case query of Some s \<Rightarrow> s | None \<Rightarrow> []))"

definition match_area :: "('u list \<Rightarrow> 'u list) \<Rightarrow> 'u list \<Rightarrow> 'u list \<times> 'b \<Rightarrow> ('u, 'b) found option" where
  "match_area lower q a = (if q = [] then Some \<lparr>fd_name = fst a, fd_area = snd a, fd_at = - 1, fd_len = 0\<rparr>
     else map_option (\<lambda>i. \<lparr>fd_name = fst a, fd_area = snd a, fd_at = int i, fd_len = length q\<rparr>) (index_of q (lower (fst a))))"

definition matchAreas :: "('u \<Rightarrow> bool) \<Rightarrow> ('u list \<Rightarrow> 'u list) \<Rightarrow> ('u list \<Rightarrow> 'u list \<Rightarrow> real) \<Rightarrow> ('u list \<times> 'b) list
    \<Rightarrow> 'u list option \<Rightarrow> ('u, 'b) found list" where
  "matchAreas white lower collate areas query = js_sort (\<lambda>a b. collate (fd_name a) (fd_name b))
     (List.map_filter (match_area lower (typed white lower query)) areas)"

definition exactMatch :: "('u \<Rightarrow> bool) \<Rightarrow> ('u list \<Rightarrow> 'u list) \<Rightarrow> ('u, 'b) found list \<Rightarrow> 'u list option \<Rightarrow> ('u, 'b) found option" where
  "exactMatch white lower matches query = (let q = typed white lower query in
     if q = [] then None
     else let whole = filter (\<lambda>m. lower (fd_name m) = q) matches in
       if length whole = 1 then Some (hd whole)
       else if length matches = 1 then Some (hd matches) else None)"

definition splitMark :: "'u list \<Rightarrow> int \<Rightarrow> nat \<Rightarrow> 'u list \<times> 'u list \<times> 'u list" where
  "splitMark name i len = (if i < 0 \<or> len = 0 then (name, [], [])
     else (take (nat i) name, take len (drop (nat i) name), drop (nat i + len) name))"

section \<open>The map beside the finder (mapareas.svelte.js)\<close>

text \<open>The registered camera move is named by a number; what it answers is an argument.\<close>

record map_areas =
  ma_areas :: "jsval list"
  ma_select :: "nat option"

definition init_map_areas :: map_areas where
  "init_map_areas = \<lparr>ma_areas = [], ma_select = None\<rparr>"

definition setMapAreas :: "jsval list option \<Rightarrow> map_areas \<Rightarrow> map_areas" where
  "setMapAreas next_areas s = s\<lparr>ma_areas := (case next_areas of Some as \<Rightarrow> as | None \<Rightarrow> [])\<rparr>"

definition provideAreaSelect :: "nat \<Rightarrow> map_areas \<Rightarrow> map_areas" where
  "provideAreaSelect f s = s\<lparr>ma_select := Some f\<rparr>"

definition drop_area_select :: "nat \<Rightarrow> map_areas \<Rightarrow> map_areas" where
  "drop_area_select f s = (if ma_select s = Some f then s\<lparr>ma_select := None\<rparr> else s)"

definition selectMapArea :: "(nat \<Rightarrow> jsval \<Rightarrow> bool) \<Rightarrow> jsval \<Rightarrow> map_areas \<Rightarrow> bool" where
  "selectMapArea go area s = (case ma_select s of Some f \<Rightarrow> go f area | None \<Rightarrow> False)"

section \<open>Lemmas\<close>

lemma index_of_Some: "index_of q s = Some i \<Longrightarrow> i + length q \<le> length s \<and> take (length q) (drop i s) = q"
proof (induction q s arbitrary: i rule: index_of.induct)
  case (2 q c s)
  show ?case
  proof (cases "take (length q) (c # s) = q")
    case True
    then have "length q \<le> length (c # s)" by (metis length_take min.absorb_iff2)
    with True 2(2) show ?thesis by auto
  next
    case False
    then obtain j where "index_of q s = Some j" "i = Suc j" using 2(2) by (auto simp: map_option_case split: option.splits)
    with 2(1) [OF False] show ?thesis by auto
  qed
qed (auto split: if_splits)

lemma index_of_first: "index_of q s = Some i \<Longrightarrow> j < i \<Longrightarrow> take (length q) (drop j s) \<noteq> q"
proof (induction q s arbitrary: i j rule: index_of.induct)
  case (2 q c s)
  then have n: "take (length q) (c # s) \<noteq> q" by (auto split: if_splits)
  with 2(2) obtain k where k: "index_of q s = Some k" "i = Suc k" by (auto simp: map_option_case split: option.splits)
  show ?case using 2(1) [OF n k(1)] 2(3) k(2) n by (cases j) auto
qed (auto split: if_splits)

definition contains :: "'u list \<Rightarrow> 'u list \<Rightarrow> bool" where
  "contains s q \<longleftrightarrow> (\<exists>a b. s = a @ q @ b)"

lemma index_of_None: "index_of q s = None \<Longrightarrow> \<not> contains s q"
proof (induction q s rule: index_of.induct)
  case (2 q c s)
  then have n: "take (length q) (c # s) \<noteq> q" "index_of q s = None" by (auto split: if_splits)
  show ?case
  proof
    assume "contains (c # s) q"
    then obtain a b where ab: "c # s = a @ q @ b" by (auto simp: contains_def)
    then have "a \<noteq> []" using n(1) by (metis append_eq_conv_conj append_Nil)
    with ab have "contains s q" by (cases a) (auto simp: contains_def)
    with 2(1) [OF n(1,2)] show False by blast
  qed
qed (auto simp: contains_def split: if_splits)

lemma index_of_contains: "(\<exists>i. index_of q s = Some i) \<longleftrightarrow> contains s q"
proof
  assume "\<exists>i. index_of q s = Some i"
  then obtain i where "index_of q s = Some i" by blast
  from index_of_Some [OF this] have "s = take i s @ q @ drop (length q) (drop i s)"
    by (metis append_take_drop_id)
  then show "contains s q" unfolding contains_def by blast
next
  assume "contains s q"
  then show "\<exists>i. index_of q s = Some i" using index_of_None [of q s] by auto
qed

lemma split_mark_whole: "case splitMark name i len of (a, hit, b) \<Rightarrow> a @ hit @ b = name"
  by (simp add: splitMark_def) (metis append_take_drop_id drop_drop add.commute)

definition hits :: "('u list \<Rightarrow> 'u list) \<Rightarrow> 'u list \<Rightarrow> ('u list \<times> 'b) list \<Rightarrow> ('u list \<times> 'b) list" where
  "hits lower q areas = filter (\<lambda>a. q = [] \<or> contains (lower (fst a)) q) areas"

lemma match_found: "(match_area lower q a \<noteq> None) = (q = [] \<or> contains (lower (fst a)) q)"
  by (auto simp: match_area_def simp flip: index_of_contains)

lemma match_name: "match_area lower q a = Some m \<Longrightarrow> (fd_name m, fd_area m) = a"
  by (auto simp: match_area_def split: if_splits)

lemma map_filter_hits:
  "map (\<lambda>m. (fd_name m, fd_area m)) (List.map_filter (match_area lower q) areas) = hits lower q areas"
proof (induction areas)
  case (Cons a areas)
  show ?case
  proof (cases "match_area lower q a")
    case None
    then have "\<not> (q = [] \<or> contains (lower (fst a)) q)" using match_found [of lower q a] by simp
    with None Cons show ?thesis by (simp add: List.map_filter_simps hits_def)
  next
    case (Some m)
    then have "q = [] \<or> contains (lower (fst a)) q" using match_found [of lower q a] by simp
    with Some Cons match_name [OF Some] show ?thesis by (simp add: List.map_filter_simps hits_def)
  qed
qed (simp add: List.map_filter_simps hits_def)

lemma found_are_hits:
  "mset (map (\<lambda>m. (fd_name m, fd_area m)) (matchAreas white lower collate areas query)) = mset (hits lower (typed white lower query) areas)"
  by (simp add: matchAreas_def flip: map_filter_hits)

lemma contains_self: "contains q q"
  unfolding contains_def by (metis append.left_neutral append.right_neutral)

lemma whole_are_hits: "filter (\<lambda>a. lower (fst a) = q) (hits lower q areas) = filter (\<lambda>a. lower (fst a) = q) areas"
  by (auto simp: hits_def contains_self intro!: filter_cong)

lemma only_one: "mset (map g ms) = mset as \<Longrightarrow> length as = 1 \<Longrightarrow> g (hd ms) = hd as"
proof -
  assume m: "mset (map g ms) = mset as" and l: "length as = 1"
  then have "length ms = 1" using mset_eq_length [OF m] by simp
  then obtain x y where "ms = [x]" "as = [y]" using l by (metis One_nat_def length_0_conv length_Suc_conv)
  then show ?thesis using m by simp
qed

lemma mset_map_filter: "mset (map g ms) = mset as \<Longrightarrow> mset (map g (filter (\<lambda>m. P (g m)) ms)) = mset (filter P as)"
proof -
  assume "mset (map g ms) = mset as"
  moreover have "map g (filter (\<lambda>m. P (g m)) ms) = filter P (map g ms)" by (simp add: filter_map o_def)
  ultimately show ?thesis by (simp add: mset_filter)
qed

section \<open>Properties\<close>

text \<open>What the finder lists: exactly the areas whose folded name contains what was typed, in the reader's
  alphabetical order; and where folding keeps every unit in its place, the marked run of a name is
  the first run that folds to the typed text, with nothing of the name lost around it.\<close>

theorem finder_marks_what_was_typed:
  assumes "consistent collate" "lower = map f" "q = typed white lower query" "ms = matchAreas white lower collate areas query"
  shows "mset (map (\<lambda>m. (fd_name m, fd_area m)) ms) = mset (hits lower q areas)
    \<and> sorted_wrt (\<lambda>a b. collate (fd_name a) (fd_name b) \<le> 0) ms
    \<and> (\<forall>m \<in> set ms. case splitMark (fd_name m) (fd_at m) (fd_len m) of (before, hit, after) \<Rightarrow>
         before @ hit @ after = fd_name m \<and> lower hit = q \<and> (\<forall>j < length before. take (length q) (drop j (lower (fd_name m))) \<noteq> q \<or> q = []))"
proof (intro conjI ballI)
  show "mset (map (\<lambda>m. (fd_name m, fd_area m)) ms) = mset (hits lower q areas)" unfolding assms(3,4) by (rule found_are_hits)
  have "consistent (\<lambda>a b. collate (fd_name a) (fd_name b))" using assms(1) unfolding consistent_def by blast
  then show "sorted_wrt (\<lambda>a b. collate (fd_name a) (fd_name b) \<le> 0) ms" unfolding assms(4) matchAreas_def by (rule sorted_js_sort)
  fix m
  assume "m \<in> set ms"
  then obtain a where a: "match_area lower q a = Some m" by (auto simp: assms(3,4) matchAreas_def List.map_filter_def)
  show "case splitMark (fd_name m) (fd_at m) (fd_len m) of (before, hit, after) \<Rightarrow>
         before @ hit @ after = fd_name m \<and> lower hit = q \<and> (\<forall>j < length before. take (length q) (drop j (lower (fd_name m))) \<noteq> q \<or> q = [])"
  proof (cases "q = []")
    case True
    then show ?thesis using a assms(2) by (auto simp: match_area_def splitMark_def)
  next
    case False
    with a obtain i where i: "index_of q (lower (fst a)) = Some i"
      "m = \<lparr>fd_name = fst a, fd_area = snd a, fd_at = int i, fd_len = length q\<rparr>" by (auto simp: match_area_def)
    have "map f (take (length q) (drop i (fst a))) = q" using index_of_Some [OF i(1)] assms(2) by (simp add: take_map drop_map)
    moreover have "\<forall>j < i. take (length q) (drop j (lower (fst a))) \<noteq> q" using index_of_first [OF i(1)] by blast
    ultimately show ?thesis using False split_mark_whole [of "fst a" "int i" "length q"] assms(2)
      by (auto simp: i(2) splitMark_def)
  qed
qed

text \<open>Enter goes somewhere only when what was typed is unambiguous, whatever the order of the list: to the
  one area that has exactly that name, else to the one area whose name contains it, else nowhere.\<close>

theorem enter_is_unambiguous:
  "map_option (\<lambda>m. (fd_name m, fd_area m)) (exactMatch white lower (matchAreas white lower collate areas query) query)
    = (let q = typed white lower query; named = filter (\<lambda>a. lower (fst a) = q) areas; containing = hits lower q areas in
       if q = [] then None else if length named = 1 then Some (hd named) else if length containing = 1 then Some (hd containing) else None)"
proof -
  let ?q = "typed white lower query" and ?ms = "matchAreas white lower collate areas query"
  let ?g = "\<lambda>m. (fd_name m, fd_area m)"
  let ?named = "filter (\<lambda>a. lower (fst a) = ?q) areas"
  have all: "mset (map ?g ?ms) = mset (hits lower ?q areas)" by (rule found_are_hits)
  have whole: "mset (map ?g (filter (\<lambda>m. lower (fd_name m) = ?q) ?ms)) = mset ?named"
    using mset_map_filter [OF all, of "\<lambda>a. lower (fst a) = ?q"] by (simp add: whole_are_hits)
  have len: "length (filter (\<lambda>m. lower (fd_name m) = ?q) ?ms) = length ?named" "length ?ms = length (hits lower ?q areas)"
    using mset_eq_length [OF whole] mset_eq_length [OF all] by simp_all
  show ?thesis unfolding exactMatch_def Let_def len using only_one [OF whole] only_one [OF all] by simp
qed

definition ascii_lower :: "char \<Rightarrow> char" where
  "ascii_lower c = (let k = (of_char c :: nat) in if 65 \<le> k \<and> k \<le> 90 then char_of (k + 32) else c)"

theorem finder_marks_what_was_typed_witness:
  "mset (map (\<lambda>m. (fd_name m, fd_area m)) (matchAreas is_ws (map ascii_lower) (\<lambda>a b. 0) [(''Vidin'', 1 :: nat), (''Varna'', 2)] (Some '' AR ''))) = {#(''Varna'', 2)#}"
proof -
  have q: "typed is_ws (map ascii_lower) (Some '' AR '') = ''ar''" by code_simp
  have h: "hits (map ascii_lower) ''ar'' [(''Vidin'', 1 :: nat), (''Varna'', 2)] = [(''Varna'', 2)]"
  proof -
    have "index_of ''ar'' (map ascii_lower ''Vidin'') = None" "index_of ''ar'' (map ascii_lower ''Varna'') = Some 1" by code_simp+
    then show ?thesis unfolding hits_def index_of_contains [symmetric] by simp
  qed
  have c: "consistent (\<lambda>a b :: string. 0)" by (simp add: consistent_def)
  show ?thesis using finder_marks_what_was_typed [OF c refl q [symmetric] refl, of "[(''Vidin'', 1 :: nat), (''Varna'', 2)]"]
    unfolding h by simp
qed

text \<open>A teardown that comes after another map has registered itself leaves that map in place.\<close>

lemma late_teardown_spares_next_map:
  "f \<noteq> g \<Longrightarrow> selectMapArea go area (drop_area_select f (provideAreaSelect g (provideAreaSelect f s))) = go g area"
  by (simp add: selectMapArea_def drop_area_select_def provideAreaSelect_def)

end
