(* ===== verification/Readout_Cards.thy ===== *)
theory Readout_Cards
  imports Area_Stats
begin

text \<open>
  The cards above the national strip while a sensor is open (\<open>web/src/lib/areacards.js\<close>,
  \<open>islands/readouts.svelte.js\<close>) and the split of their labels (\<open>readoutLabel.js\<close>). The number
  format is an argument; a text put into a template is one without dollar signs, which
  \<open>replaceAll\<close> would read as a pattern.
\<close>

section \<open>The gauge of a card (areacards.js)\<close>

text \<open>Micrograms per cubic metre, in UTF-8.\<close>

definition GAUGE_UNIT :: string where
  "GAUGE_UNIT = [CHR 0xC2, CHR 0xB5] @ ''g/m'' @ [CHR 0xC2, CHR 0xB3]"

record arc =
  ac_percent :: jsnum
  ac_colour :: colour

fun bandColour :: "band list \<Rightarrow> jsnum \<Rightarrow> colour" where
  "bandColour [] v = Some []"
| "bandColour (b # bs) v = (case b_upper b of None \<Rightarrow> b_colour b
     | Some u \<Rightarrow> if num_at_most v u then b_colour b else bandColour bs v)"

definition top_upper :: "band list \<Rightarrow> real" where
  "top_upper bands = foldl (\<lambda>t b. case b_upper b of Some u \<Rightarrow> if t < u then u else t | None \<Rightarrow> t) 0 bands"

fun percent_of :: "real \<Rightarrow> jsnum \<Rightarrow> jsnum" where
  "percent_of c (Fin v) = Fin (of_int (max 0 (min 100 (math_round (v / c * 100)))))"
| "percent_of c PInf = Fin 100"
| "percent_of c NInf = Fin 0"
| "percent_of c NaN = NaN"

definition gaugeFor :: "scale option \<Rightarrow> jsnum \<Rightarrow> arc option" where
  "gaugeFor sc v = (case sc of None \<Rightarrow> None
     | Some s \<Rightarrow> if s_unit s \<noteq> Some GAUGE_UNIT then None
         else let bands = (case s_bands s of Some bs \<Rightarrow> bs | None \<Rightarrow> []);
             c = (case s_ceiling s of Some x \<Rightarrow> if 0 < x then x else top_upper bands | None \<Rightarrow> top_upper bands)
           in if \<not> 0 < c then None else Some \<lparr>ac_percent = percent_of c v, ac_colour = bandColour bands v\<rparr>)"

section \<open>Texts\<close>

function replace_all :: "string \<Rightarrow> string \<Rightarrow> string \<Rightarrow> string" where
  "replace_all pat by [] = []"
| "replace_all pat by (c # s) = (if pat \<noteq> [] \<and> take (length pat) (c # s) = pat then by @ replace_all pat by (drop (length pat) (c # s))
     else c # replace_all pat by s)"
  by pat_completeness auto
termination by (relation "measure (\<lambda>(pat, by, s). length s)") auto

definition fill_text :: "string option \<Rightarrow> (string \<times> string) list \<Rightarrow> string" where
  "fill_text text_opt vals = foldl (\<lambda>s (key, v). replace_all (''{'' @ key @ ''}'') v s) (case text_opt of Some t \<Rightarrow> t | None \<Rightarrow> []) vals"

record card_texts =
  kt_high :: string
  kt_low :: string
  kt_median :: string
  kt_this :: string
  kt_of_total :: string
  kt_above :: string
  kt_below :: string
  kt_at :: string
  kt_area_sensors :: string
  kt_sensors_only :: string
  kt_row :: string
  kt_row_one :: string
  kt_official :: string
  kt_community :: string

record card =
  cd_label :: string
  cd_metric :: "string option"
  cd_value :: string
  cd_unit :: string
  cd_tier :: string
  cd_gauge :: "arc option"
  cd_network :: "string option"

section \<open>The cards\<close>

definition scale_unit :: "scale option \<Rightarrow> string" where
  "scale_unit sc = (case Option.bind sc s_unit of Some u \<Rightarrow> u | None \<Rightarrow> [])"

definition figure_card :: "(jsnum \<Rightarrow> string) \<Rightarrow> string \<Rightarrow> scale option \<Rightarrow> string \<Rightarrow> string \<Rightarrow> jsnum \<Rightarrow> card" where
  "figure_card fmt metricLabel sc where_text label_text v = \<lparr>cd_label = fill_text (Some label_text) [(''metric'', metricLabel)],
     cd_metric = Some metricLabel, cd_value = fmt v, cd_unit = scale_unit sc, cd_tier = where_text, cd_gauge = gaugeFor sc v, cd_network = None\<rparr>"

definition rank_card :: "card_texts \<Rightarrow> area_stats \<Rightarrow> nat \<Rightarrow> card" where
  "rank_card t stats rank = (let above = js_minus (Fin (case ar_value stats of Some v \<Rightarrow> v | None \<Rightarrow> 0)) (ar_median stats) in
     \<lparr>cd_label = kt_this t, cd_metric = None, cd_value = nat_str rank,
       cd_unit = fill_text (Some (kt_of_total t)) [(''total'', nat_str (ar_total stats))],
       cd_tier = (if 0 < above then kt_above t else if above < 0 then kt_below t else kt_at t), cd_gauge = None, cd_network = None\<rparr>)"

definition areaCards :: "(jsnum \<Rightarrow> string) \<Rightarrow> card_texts \<Rightarrow> area_stats option \<Rightarrow> string \<Rightarrow> scale option \<Rightarrow> string \<Rightarrow> card list" where
  "areaCards fmt t stats metricLabel sc area = (case stats of None \<Rightarrow> []
     | Some st \<Rightarrow> let total = nat_str (ar_total st);
           where_text = (if area \<noteq> [] then fill_text (Some (kt_area_sensors t)) [(''area'', area), (''total'', total)]
              else fill_text (Some (kt_sensors_only t)) [(''total'', total)]);
           figure = figure_card fmt metricLabel sc where_text
         in [figure (kt_high t) (Fin (ar_high st)), figure (kt_low t) (Fin (ar_low st)), figure (kt_median t) (ar_median st)]
            @ (case ar_rank st of None \<Rightarrow> [] | Some r \<Rightarrow> [rank_card t st r]))"

definition source_label :: "card_texts \<Rightarrow> string \<Rightarrow> string" where
  "source_label t s = (if s = ''eea'' then kt_official t else if s = ''sensor.community'' then kt_community t else s)"

definition areaSourceCards :: "(jsnum \<Rightarrow> string) \<Rightarrow> card_texts \<Rightarrow> source_stats list \<Rightarrow> string \<Rightarrow> scale option \<Rightarrow> card list" where
  "areaSourceCards fmt t rows metricLabel sc = map (\<lambda>row. \<lparr>cd_label = metricLabel, cd_metric = Some metricLabel, cd_value = fmt (so_median row),
     cd_unit = scale_unit sc, cd_tier = (if so_n row = 1 then kt_row_one t else fill_text (Some (kt_row t)) [(''n'', nat_str (so_n row))]),
     cd_gauge = gaugeFor sc (so_median row), cd_network = Some (source_label t (so_source row))\<rparr>) rows"

section \<open>The row of an open sensor (readouts.svelte.js)\<close>

definition areaName :: "jsval list \<Rightarrow> jsval \<Rightarrow> string \<Rightarrow> string" where
  "areaName areas slug lang = (case find (\<lambda>a. strict_eq (jget a ''slug'') slug) areas of None \<Rightarrow> []
     | Some a \<Rightarrow> (case as_str (jget a (if lang = ''bg'' then ''name_bg'' else ''name_en'')) of Some s \<Rightarrow> s | None \<Rightarrow> []))"

definition sensor_cards :: "(jsnum \<Rightarrow> string) \<Rightarrow> card_texts \<Rightarrow> (string \<times> string) list \<Rightarrow> string \<Rightarrow> registry \<Rightarrow> jsval list \<Rightarrow> string \<Rightarrow> nat option
    \<Rightarrow> card list" where
  "sensor_cards fmt t labels lang reg areas metric sensorId = (case sensorId of None \<Rightarrow> []
     | Some i \<Rightarrow> let sc = find (\<lambda>s. s_metric s = metric) (case reg_scales reg of Some ss \<Rightarrow> ss | None \<Rightarrow> []);
           metricLabel = str_or (map_option snd (find (\<lambda>o'. fst o' = metric) labels)) metric;
           base = areaCards fmt t (areaStats (reg_body reg) metric (jreal (real i))) metricLabel sc (areaName areas (reg_area reg) lang)
         in if base = [] then base else base @ areaSourceCards fmt t (areaSourceStats (reg_body reg) metric) metricLabel sc)"

section \<open>The metric word of a label (readoutLabel.js)\<close>

text \<open>A middle dot between spaces, in UTF-8.\<close>

definition SEP :: string where
  "SEP = '' '' @ [CHR 0xC2, CHR 0xB7] @ '' ''"

datatype label_place = Prefix | Suffix | Nowhere

definition ends_with :: "string \<Rightarrow> string \<Rightarrow> bool" where
  "ends_with s p \<longleftrightarrow> length p \<le> length s \<and> drop (length s - length p) s = p"

definition splitReadoutLabel :: "string option \<Rightarrow> string \<Rightarrow> label_place \<times> string \<times> string" where
  "splitReadoutLabel label metric = (let t = (case label of Some l \<Rightarrow> l | None \<Rightarrow> []) in
     if metric \<noteq> [] \<and> take (length (metric @ SEP)) t = metric @ SEP then (Prefix, metric, drop (length metric + length SEP) t)
     else if metric \<noteq> [] \<and> ends_with t (SEP @ metric) then (Suffix, metric, take (length t - length metric - length SEP) t)
     else (Nowhere, [], t))"

section \<open>Lemmas\<close>

lemma percent_mono: "0 < c \<Longrightarrow> v \<le> w \<Longrightarrow> max 0 (min 100 (math_round (v / c * 100))) \<le> max 0 (min 100 (math_round (w / c * 100)))"
proof -
  assume "0 < c" "v \<le> w"
  then have "math_round (v / c * 100) \<le> math_round (w / c * 100)" by (intro math_round_mono) (simp add: divide_right_mono)
  then show ?thesis by linarith
qed

lemma label_rejoined:
  "case splitReadoutLabel label metric of
     (Prefix, m, rest) \<Rightarrow> label = Some (m @ SEP @ rest) \<and> m = metric
   | (Suffix, m, rest) \<Rightarrow> label = Some (rest @ SEP @ m) \<and> m = metric
   | (Nowhere, m, rest) \<Rightarrow> rest = (case label of Some l \<Rightarrow> l | None \<Rightarrow> [])"
proof (cases label)
  case None
  then show ?thesis by (simp add: splitReadoutLabel_def SEP_def ends_with_def)
next
  case (Some t)
  have pre: "t = metric @ SEP @ drop (length metric + length SEP) t" if "take (length (metric @ SEP)) t = metric @ SEP"
    using append_take_drop_id [of "length (metric @ SEP)" t] that by (metis append_assoc length_append)
  have suf: "t = take (length t - length metric - length SEP) t @ SEP @ metric" if "ends_with t (SEP @ metric)"
  proof -
    have "length t - length metric - length SEP = length t - length (SEP @ metric)" by simp
    then show ?thesis using that unfolding ends_with_def by (metis append_take_drop_id)
  qed
  show ?thesis using pre suf Some by (auto simp: splitReadoutLabel_def Let_def)
qed

lemma gauge_drawn_alike:
  "gaugeFor sc v = None \<longleftrightarrow> gaugeFor sc w = None"
  by (simp add: gaugeFor_def Let_def split: option.split)

lemma gauge_percent:
  assumes "gaugeFor sc (Fin v) = Some a"
  shows "\<exists>c > 0. ac_percent a = Fin (of_int (max 0 (min 100 (math_round (v / c * 100)))))
    \<and> (\<forall>w b. gaugeFor sc (Fin w) = Some b \<longrightarrow> ac_percent b = Fin (of_int (max 0 (min 100 (math_round (w / c * 100))))))"
  using assms by (auto simp: gaugeFor_def Let_def split: option.splits if_splits)

definition gauges_ordered :: "arc option \<Rightarrow> arc option \<Rightarrow> arc option \<Rightarrow> bool" where
  "gauges_ordered l m h \<longleftrightarrow> (l = None \<and> m = None \<and> h = None)
     \<or> (\<exists>a b c x y z. l = Some a \<and> m = Some b \<and> h = Some c \<and> ac_percent a = Fin x \<and> ac_percent b = Fin y \<and> ac_percent c = Fin z
          \<and> 0 \<le> x \<and> x \<le> y \<and> y \<le> z \<and> z \<le> 100)"

lemma gauges_follow_values:
  assumes "l \<le> m" "m \<le> h"
  shows "gauges_ordered (gaugeFor sc (Fin l)) (gaugeFor sc (Fin m)) (gaugeFor sc (Fin h))"
proof (cases "gaugeFor sc (Fin l)")
  case None
  then have "gaugeFor sc (Fin m) = None" "gaugeFor sc (Fin h) = None" using gauge_drawn_alike by metis+
  with None show ?thesis by (simp add: gauges_ordered_def)
next
  case (Some a)
  then obtain b c where bc: "gaugeFor sc (Fin m) = Some b" "gaugeFor sc (Fin h) = Some c" using gauge_drawn_alike by (metis not_None_eq)
  obtain k where k: "0 < k" "ac_percent a = Fin (of_int (max 0 (min 100 (math_round (l / k * 100)))))"
    "ac_percent b = Fin (of_int (max 0 (min 100 (math_round (m / k * 100)))))" "ac_percent c = Fin (of_int (max 0 (min 100 (math_round (h / k * 100)))))"
    using gauge_percent [OF Some] bc by blast
  define x where "x = max 0 (min 100 (math_round (l / k * 100)))"
  define y where "y = max 0 (min 100 (math_round (m / k * 100)))"
  define z where "z = max 0 (min 100 (math_round (h / k * 100)))"
  have "0 \<le> x" "x \<le> y" "y \<le> z" "z \<le> 100"
    using percent_mono [OF k(1) assms(1)] percent_mono [OF k(1) assms(2)] by (simp_all add: x_def y_def z_def)
  then have "gauges_ordered (Some a) (Some b) (Some c)"
    using k(2-4) [folded x_def y_def z_def] unfolding gauges_ordered_def
    by (intro disjI2 exI [of _ a] exI [of _ b] exI [of _ c] exI [of _ "of_int x"] exI [of _ "of_int y"] exI [of _ "of_int z"]) simp
  then show ?thesis by (simp add: Some bc)
qed

section \<open>Properties\<close>

text \<open>The row over an open sensor says what its area reports: the highest, the lowest and the median reading,
  with gauges in that order between 0 and 100 or with none at all, then the sensor's own place
  among the stations when it reports the metric, then one card for each network; without figures
  for the area there is no row.\<close>

theorem open_sensor_row:
  assumes "areaStats (reg_body reg) metric (jreal (real i)) = Some st"
  shows "\<exists>hi lo md own nets. sensor_cards fmt t labels lang reg areas metric (Some i) = [hi, lo, md] @ own @ nets
    \<and> (\<exists>m. ar_median st = Fin m \<and> cd_value lo = fmt (Fin (ar_low st)) \<and> cd_value md = fmt (Fin m) \<and> cd_value hi = fmt (Fin (ar_high st))
         \<and> ar_low st \<le> m \<and> m \<le> ar_high st)
    \<and> gauges_ordered (cd_gauge lo) (cd_gauge md) (cd_gauge hi)
    \<and> (case ar_rank st of None \<Rightarrow> own = [] | Some k \<Rightarrow> 1 \<le> k \<and> k \<le> ar_total st \<and> map cd_value own = [nat_str k])
    \<and> map cd_network nets = map (\<lambda>row. Some (source_label t (so_source row))) (areaSourceStats (reg_body reg) metric)"
proof -
  let ?sc = "find (\<lambda>s. s_metric s = metric) (case reg_scales reg of Some ss \<Rightarrow> ss | None \<Rightarrow> [])"
  let ?lab = "str_or (map_option snd (find (\<lambda>o'. fst o' = metric) labels)) metric"
  let ?area = "areaName areas (reg_area reg) lang"
  define w where "w = (if ?area \<noteq> [] then fill_text (Some (kt_area_sensors t)) [(''area'', ?area), (''total'', nat_str (ar_total st))]
              else fill_text (Some (kt_sensors_only t)) [(''total'', nat_str (ar_total st))])"
  obtain m where m: "ar_median st = Fin m" "ar_low st \<le> m" "m \<le> ar_high st" using area_figures_rank [OF assms] by blast
  have rank: "case ar_rank st of None \<Rightarrow> True | Some k \<Rightarrow> 1 \<le> k \<and> k \<le> ar_total st"
    using area_figures_rank [OF assms] by (auto split: option.splits)
  let ?fig = "figure_card fmt ?lab ?sc w"
  let ?own = "case ar_rank st of None \<Rightarrow> [] | Some r \<Rightarrow> [rank_card t st r]"
  have row: "sensor_cards fmt t labels lang reg areas metric (Some i)
      = [?fig (kt_high t) (Fin (ar_high st)), ?fig (kt_low t) (Fin (ar_low st)), ?fig (kt_median t) (Fin m)] @ ?own
        @ areaSourceCards fmt t (areaSourceStats (reg_body reg) metric) ?lab ?sc"
    using m(1) by (simp add: sensor_cards_def areaCards_def Let_def assms w_def)
  show ?thesis
    unfolding row
    by (intro exI conjI, rule refl)
      (use m rank gauges_follow_values [OF m(2,3), of ?sc] in
        \<open>auto simp: figure_card_def rank_card_def Let_def areaSourceCards_def split: option.splits\<close>)
qed

definition two_stations :: registry where
  "two_stations = \<lparr>reg_body = JObj [(''sensors'', JObj [(''id'', JArr [jreal 5, jreal 7]), (''station'', JArr [jreal 5, jreal 7]),
      (''P2'', JArr [jreal 12, jreal 30])])], reg_scales = None, reg_area = JNull\<rparr>"

theorem open_sensor_row_witness:
  "\<exists>t. 3 \<le> length (sensor_cards (\<lambda>v. ''x'') t [] ''bg'' two_stations [] ''P2'' (Some 7))"
proof -
  have "areaStats (reg_body two_stations) ''P2'' (jreal (real 7)) \<noteq> None"
    by (simp add: two_stations_def areaStats_def stationValues_def col_def is_array_def add_station_value_def station_key_def Let_def)
  then obtain st where "areaStats (reg_body two_stations) ''P2'' (jreal (real 7)) = Some st" by blast
  from open_sensor_row [OF this] obtain hi lo md own nets where
    "sensor_cards (\<lambda>v. ''x'') undefined [] ''bg'' two_stations [] ''P2'' (Some 7) = [hi, lo, md] @ own @ nets" by blast
  then have "3 \<le> length (sensor_cards (\<lambda>v. ''x'') undefined [] ''bg'' two_stations [] ''P2'' (Some 7))" by simp
  then show ?thesis by blast
qed

end
