(* ===== verification/Search_Boxes.thy ===== *)
theory Search_Boxes
  imports Finder Province_Table
begin

text \<open>
  The two search boxes of the site as machines driven by the reader's events: the area finder
  (\<open>web/src/components/AreaFind.svelte\<close>, over \<open>Finder\<close>) and the controls of the province table
  (\<open>web/src/components/TableView.svelte\<close>, over \<open>Province_Table\<close>). A handler that throws is \<open>None\<close>.
  What is derived from the state (the matches, the view) is computed from it afresh at every event.
\<close>

datatype key = Arrow_Down | Arrow_Up | Home | End | Enter | Escape | Other_Key

section \<open>The area finder (AreaFind.svelte)\<close>

record 'u find_box =
  fb_query :: "'u list"
  fb_open :: bool
  fb_active :: int

definition empty_box :: "'u find_box" where
  "empty_box = \<lparr>fb_query = [], fb_open = False, fb_active = - 1\<rparr>"

text \<open>Reading an array at an index that may be out of range.\<close>

definition at_index :: "'a list \<Rightarrow> int \<Rightarrow> 'a option" where
  "at_index xs i = (if 0 \<le> i \<and> i < int (length xs) then Some (xs ! nat i) else None)"

definition show_list :: "'u find_box \<Rightarrow> 'u find_box" where
  "show_list st = st\<lparr>fb_open := True, fb_active := - 1\<rparr>"

definition hide_list :: "'u find_box \<Rightarrow> 'u find_box" where
  "hide_list st = st\<lparr>fb_open := False, fb_active := - 1\<rparr>"

definition pick_match :: "('u, 'b) found \<Rightarrow> 'u find_box \<Rightarrow> 'u find_box" where
  "pick_match m st = hide_list (st\<lparr>fb_query := fd_name m\<rparr>)"

definition roving :: "int \<Rightarrow> nat \<Rightarrow> int \<Rightarrow> int" where
  "roving step n active = (if active < 0 then (if 0 < step then 0 else int n - 1) else (active + step + int n) mod int n)"

definition move_active :: "int \<Rightarrow> nat \<Rightarrow> 'u find_box \<Rightarrow> 'u find_box" where
  "move_active step n st = (if n = 0 then st else st\<lparr>fb_open := True, fb_active := roving step n (fb_active st)\<rparr>)"

text \<open>The option \<open>aria-activedescendant\<close> names.\<close>

definition active_option :: "('u, 'b) found list \<Rightarrow> 'u find_box \<Rightarrow> ('u, 'b) found option" where
  "active_option ms st = at_index ms (fb_active st)"

text \<open>A key returns the area it picked, if any; \<open>exact\<close> is the exact match of the query.\<close>

fun find_key :: "('u, 'b) found list \<Rightarrow> ('u, 'b) found option \<Rightarrow> key \<Rightarrow> 'u find_box \<Rightarrow> 'u find_box \<times> ('u, 'b) found option" where
  "find_key ms exact Arrow_Down st = (move_active 1 (length ms) st, None)"
| "find_key ms exact Arrow_Up st = (move_active (- 1) (length ms) st, None)"
| "find_key ms exact Home st = (if \<not> fb_open st then st else st\<lparr>fb_active := 0\<rparr>, None)"
| "find_key ms exact End st = (if \<not> fb_open st then st else st\<lparr>fb_active := int (length ms) - 1\<rparr>, None)"
| "find_key ms exact Enter st = (case (if 0 \<le> fb_active st then at_index ms (fb_active st) else exact) of
      None \<Rightarrow> (st, None)
    | Some m \<Rightarrow> (pick_match m st, Some m))"
| "find_key ms exact Escape st = (if fb_open st then hide_list st else if fb_query st \<noteq> [] then st\<lparr>fb_query := []\<rparr> else st, None)"
| "find_key ms exact Other_Key st = (st, None)"

datatype 'u find_event =
    Type "'u list"
  | Focus
  | Blurred
  | Key key
  | Press nat

text \<open>The reader's locale: white space, case folding and the collator.\<close>

record 'u locale_rules =
  lr_white :: "'u \<Rightarrow> bool"
  lr_lower :: "'u list \<Rightarrow> 'u list"
  lr_collate :: "'u list \<Rightarrow> 'u list \<Rightarrow> real"

definition box_matches :: "'u locale_rules \<Rightarrow> ('u list \<times> 'b) list \<Rightarrow> 'u find_box \<Rightarrow> ('u, 'b) found list" where
  "box_matches l areas st = matchAreas (lr_white l) (lr_lower l) (lr_collate l) areas (Some (fb_query st))"

definition box_exact :: "'u locale_rules \<Rightarrow> ('u list \<times> 'b) list \<Rightarrow> 'u find_box \<Rightarrow> ('u, 'b) found option" where
  "box_exact l areas st = exactMatch (lr_white l) (lr_lower l) (box_matches l areas st) (Some (fb_query st))"

text \<open>The list of areas is a getter: every event meets the areas the map has loaded by then.\<close>

fun find_step :: "'u locale_rules \<Rightarrow> ('u list \<times> 'b) list \<times> 'u find_event \<Rightarrow> 'u find_box \<Rightarrow> 'u find_box \<times> ('u, 'b) found option" where
  "find_step l (areas, Type q) st = (show_list (st\<lparr>fb_query := q\<rparr>), None)"
| "find_step l (areas, Focus) st = (show_list st, None)"
| "find_step l (areas, Blurred) st = (hide_list st, None)"
| "find_step l (areas, Key k) st = find_key (box_matches l areas st) (box_exact l areas st) k st"
| "find_step l (areas, Press i) st = (case at_index (box_matches l areas st) (int i) of
      None \<Rightarrow> (st, None)
    | Some m \<Rightarrow> (pick_match m st, Some m))"

definition find_run :: "'u locale_rules \<Rightarrow> (('u list \<times> 'b) list \<times> 'u find_event) list \<Rightarrow> 'u find_box" where
  "find_run l evs = fold (\<lambda>e st. fst (find_step l e st)) evs empty_box"

section \<open>The table's controls (TableView.svelte)\<close>

record table_env =
  te_rows :: "row list"
  te_columns :: "string list"
  te_compare :: "string \<Rightarrow> string \<Rightarrow> real"
  te_locale :: "char locale_rules"

record table_state =
  tv_mode :: string
  tv_query :: string
  tv_list :: bool
  tv_active :: int
  tv_sort :: sorting
  tv_per :: per_page
  tv_page :: int
  tv_hidden :: "string list"
  tv_menu :: bool

definition init_table :: table_state where
  "init_table = \<lparr>tv_mode = ''all'', tv_query = [], tv_list = False, tv_active = - 1, tv_sort = (''value'', Desc),
     tv_per = All, tv_page = 1, tv_hidden = [], tv_menu = False\<rparr>"

definition table_view :: "table_env \<Rightarrow> table_state \<Rightarrow> page_view" where
  "table_view e st = viewRows (te_compare e) (lr_lower (te_locale e)) (te_rows e) (tv_mode st) (Some (tv_query st))
     (tv_sort st) (tv_per st) (tv_page st)"

definition filtered_rows :: "table_env \<Rightarrow> table_state \<Rightarrow> row list" where
  "filtered_rows e st = v_rows (viewRows (te_compare e) (lr_lower (te_locale e)) (te_rows e) (tv_mode st) None (''value'', Desc) All 1)"

definition suggestions :: "table_env \<Rightarrow> table_state \<Rightarrow> (char, row) found list" where
  "suggestions e st = matchAreas (lr_white (te_locale e)) (lr_lower (te_locale e)) (lr_collate (te_locale e))
     (map (\<lambda>r. (r_name r, r)) (filtered_rows e st)) (Some (tv_query st))"

definition setMode :: "string \<Rightarrow> table_state \<Rightarrow> table_state" where
  "setMode m st = st\<lparr>tv_mode := m, tv_page := 1\<rparr>"

definition setQuery :: "string \<Rightarrow> table_state \<Rightarrow> table_state" where
  "setQuery q st = st\<lparr>tv_query := q, tv_page := 1, tv_active := - 1\<rparr>"

definition moveActive :: "int \<Rightarrow> nat \<Rightarrow> table_state \<Rightarrow> table_state" where
  "moveActive step n st = (if n = 0 then st else st\<lparr>tv_list := True, tv_active := roving step n (tv_active st)\<rparr>)"

definition sortBy :: "string \<Rightarrow> table_state \<Rightarrow> table_state" where
  "sortBy k st = st\<lparr>tv_sort := nextSort (tv_sort st) k, tv_page := 1\<rparr>"

definition toggleColumn :: "string list \<Rightarrow> string \<Rightarrow> table_state \<Rightarrow> table_state" where
  "toggleColumn cols k st = (let next_hidden = nextHidden (tv_hidden st) k cols in
     if next_hidden = tv_hidden st then st
     else st\<lparr>tv_hidden := next_hidden, tv_sort := sortAfterHide (tv_sort st) next_hidden\<rparr>)"

definition setPerPage :: "per_page \<Rightarrow> table_state \<Rightarrow> table_state" where
  "setPerPage p st = st\<lparr>tv_per := p, tv_page := 1\<rparr>"

datatype page_button = First | Prev | Next | Last

fun go :: "table_env \<Rightarrow> page_button \<Rightarrow> table_state \<Rightarrow> table_state" where
  "go e First st = st\<lparr>tv_page := 1\<rparr>"
| "go e Prev st = st\<lparr>tv_page := max 1 (int (v_page (table_view e st)) - 1)\<rparr>"
| "go e Next st = st\<lparr>tv_page := min (int (v_pages (table_view e st))) (int (v_page (table_view e st)) + 1)\<rparr>"
| "go e Last st = st\<lparr>tv_page := int (v_pages (table_view e st))\<rparr>"

text \<open>\<open>Enter\<close> reads the name of the option under the cursor, which throws when there is none.\<close>

fun onSearchKeydown :: "table_env \<Rightarrow> key \<Rightarrow> table_state \<Rightarrow> table_state option" where
  "onSearchKeydown e Arrow_Down st = Some (moveActive 1 (length (suggestions e st)) st)"
| "onSearchKeydown e Arrow_Up st = Some (moveActive (- 1) (length (suggestions e st)) st)"
| "onSearchKeydown e Enter st = (if tv_active st < 0 then Some st
     else map_option (\<lambda>m. (setQuery (fd_name m) st)\<lparr>tv_list := False\<rparr>) (at_index (suggestions e st) (tv_active st)))"
| "onSearchKeydown e Escape st = Some (if tv_list st then st\<lparr>tv_list := False, tv_active := - 1\<rparr>
     else if tv_query st \<noteq> [] then setQuery [] st else st)"
| "onSearchKeydown e _ st = Some st"

text \<open>The window's own Escape (\<open>menu.js\<close>), which a key in the search field reaches after the field.\<close>

definition closeOnEscape :: "key \<Rightarrow> table_state \<Rightarrow> table_state" where
  "closeOnEscape k st = (if k \<noteq> Escape \<or> \<not> tv_menu st then st else st\<lparr>tv_menu := False\<rparr>)"

datatype table_event =
    Sort_By string
  | Set_Mode string
  | Type_Query string
  | Focus_Search
  | Blur_Search
  | Search_Key key
  | Press_Option nat
  | Set_Per per_page
  | Go page_button
  | Toggle_Column string
  | Menu_Button
  | Press_Outside
  | Window_Key key

fun table_step :: "table_env \<Rightarrow> table_event \<Rightarrow> table_state \<Rightarrow> table_state option" where
  "table_step e (Sort_By k) st = Some (sortBy k st)"
| "table_step e (Set_Mode m) st = Some (setMode m st)"
| "table_step e (Type_Query q) st = Some ((setQuery q st)\<lparr>tv_list := True\<rparr>)"
| "table_step e Focus_Search st = Some (st\<lparr>tv_list := True\<rparr>)"
| "table_step e Blur_Search st = Some (st\<lparr>tv_list := False\<rparr>)"
| "table_step e (Search_Key k) st = map_option (closeOnEscape k) (onSearchKeydown e k st)"
| "table_step e (Press_Option i) st = (case at_index (suggestions e st) (int i) of None \<Rightarrow> Some st
     | Some m \<Rightarrow> Some ((setQuery (fd_name m) st)\<lparr>tv_list := False\<rparr>))"
| "table_step e (Set_Per p) st = Some (setPerPage p st)"
| "table_step e (Go b) st = Some (go e b st)"
| "table_step e (Toggle_Column k) st = Some (toggleColumn (te_columns e) k st)"
| "table_step e Menu_Button st = Some (st\<lparr>tv_menu := \<not> tv_menu st\<rparr>)"
| "table_step e Press_Outside st = Some (st\<lparr>tv_menu := False\<rparr>)"
| "table_step e (Window_Key k) st = Some (closeOnEscape k st)"

text \<open>The header of a hidden column is hidden with it: its button cannot be pressed.\<close>

definition pressable :: "table_event \<Rightarrow> table_state \<Rightarrow> bool" where
  "pressable ev st = (case ev of Sort_By k \<Rightarrow> k \<notin> set (tv_hidden st) | _ \<Rightarrow> True)"

inductive table_reachable :: "table_env \<Rightarrow> table_state \<Rightarrow> bool" for e where
  start: "table_reachable e init_table"
| event: "table_reachable e st \<Longrightarrow> pressable ev st \<Longrightarrow> table_step e ev st = Some st' \<Longrightarrow> table_reachable e st'"

section \<open>Lemmas\<close>

lemma at_index_mem: "at_index xs i = Some x \<Longrightarrow> x \<in> set xs"
  by (auto simp: at_index_def split: if_splits)

lemma roving_range: "0 < n \<Longrightarrow> 0 \<le> roving step n active \<and> roving step n active < int n"
  by (auto simp: roving_def)

lemma box_simps [simp]:
  "fb_active (show_list st) = - 1" "fb_open (show_list st)" "fb_query (show_list st) = fb_query st"
  "fb_active (hide_list st) = - 1" "\<not> fb_open (hide_list st)" "fb_query (hide_list st) = fb_query st"
  by (simp_all add: show_list_def hide_list_def)

lemma pick_simps [simp]:
  "fb_active (pick_match m st) = - 1" "\<not> fb_open (pick_match m st)" "fb_query (pick_match m st) = fd_name m"
  by (simp_all add: pick_match_def)

text \<open>The cursor is only ever on an option of an open list.\<close>

definition cursor_ok :: "'u find_box \<Rightarrow> bool" where
  "cursor_ok st \<longleftrightarrow> - 1 \<le> fb_active st \<and> (0 \<le> fb_active st \<longrightarrow> fb_open st)"

lemma cursor_key: "cursor_ok st \<Longrightarrow> cursor_ok (fst (find_key ms exact k st))"
proof (cases k)
  case Arrow_Down
  assume "cursor_ok st"
  with Arrow_Down roving_range [of "length ms" 1 "fb_active st"] show ?thesis by (auto simp: cursor_ok_def move_active_def)
next
  case Arrow_Up
  assume "cursor_ok st"
  with Arrow_Up roving_range [of "length ms" "- 1" "fb_active st"] show ?thesis by (auto simp: cursor_ok_def move_active_def)
qed (auto simp: cursor_ok_def split: option.splits)

lemma cursor_step: "cursor_ok st \<Longrightarrow> cursor_ok (fst (find_step l e st))"
proof (cases e)
  case (Pair areas ev)
  assume "cursor_ok st"
  with Pair cursor_key show ?thesis by (cases ev) (auto simp: cursor_ok_def split: option.splits)
qed

lemma cursor_run: "cursor_ok (find_run l evs)"
proof -
  have "cursor_ok st \<Longrightarrow> cursor_ok (fold (\<lambda>e st. fst (find_step l e st)) evs st)" for st
    by (induction evs arbitrary: st) (simp_all add: cursor_step)
  then show ?thesis by (simp add: find_run_def empty_box_def cursor_ok_def)
qed

lemma exact_in_matches: "exactMatch white lower ms query = Some m \<Longrightarrow> m \<in> set ms"
proof -
  assume e: "exactMatch white lower ms query = Some m"
  define whole where "whole = filter (\<lambda>m. lower (fd_name m) = typed white lower query) ms"
  from e have "(length whole = 1 \<and> m = hd whole) \<or> (length ms = 1 \<and> m = hd ms)"
    by (auto simp: exactMatch_def whole_def Let_def split: if_splits)
  moreover have "hd whole \<in> set ms" if "length whole = 1"
  proof -
    have "whole \<noteq> []" using that by auto
    then have "hd whole \<in> set whole" by (rule hd_in_set)
    then show ?thesis by (simp add: whole_def)
  qed
  moreover have "hd ms \<in> set ms" if "length ms = 1" using that hd_in_set [of ms] by fastforce
  ultimately show ?thesis by blast
qed

lemma picked_key:
  "snd (find_key ms exact k st) = Some m \<Longrightarrow> k = Enter \<and> fst (find_key ms exact k st) = pick_match m st
     \<and> (if 0 \<le> fb_active st then active_option ms st = Some m else exact = Some m)"
  by (cases k) (auto simp: active_option_def split: option.splits if_splits)

definition table_ok :: "table_env \<Rightarrow> table_state \<Rightarrow> bool" where
  "table_ok e st \<longleftrightarrow> fst (tv_sort st) \<notin> set (tv_hidden st) \<and> shown_keys (tv_hidden st) (te_columns e) \<noteq> []
     \<and> set (tv_hidden st) \<subseteq> set (te_columns e) \<and> 1 \<le> tv_page st \<and> tv_page st \<le> int (v_pages (table_view e st)) \<and> - 1 \<le> tv_active st"

definition columns_ok :: "table_env \<Rightarrow> bool" where
  "columns_ok e \<longleftrightarrow> te_columns e \<noteq> [] \<and> distinct (te_columns e) \<and> ''name'' \<notin> set (te_columns e)"

lemma view_pages:
  "v_pages (table_view e st) = pageCount (length (queryRows (lr_lower (te_locale e)) (filterRows (te_rows e) (tv_mode st)) (Some (tv_query st)))) (tv_per st)"
  by (cases "tv_per st") (simp_all add: table_view_def viewRows_def pageSlice_def sortRows_def Let_def)

lemma pages_pos: "1 \<le> v_pages (table_view e st)"
  by (cases "tv_per st") (simp_all add: view_pages pageCount_def)

lemma view_page: "1 \<le> tv_page st \<Longrightarrow> tv_page st \<le> int (v_pages (table_view e st)) \<Longrightarrow> int (v_page (table_view e st)) = tv_page st"
  unfolding view_pages by (cases "tv_per st") (simp_all add: table_view_def viewRows_def pageSlice_def sortRows_def Let_def)

text \<open>What an event leaves alone of the state that decides how many pages there are.\<close>

lemma pages_same:
  "tv_mode st' = tv_mode st \<Longrightarrow> tv_query st' = tv_query st \<Longrightarrow> tv_per st' = tv_per st \<Longrightarrow>
     v_pages (table_view e st') = v_pages (table_view e st)"
  by (simp add: view_pages)

lemma ok_same_table:
  assumes "table_ok e st" "tv_mode st' = tv_mode st" "tv_query st' = tv_query st" "tv_per st' = tv_per st"
    "tv_sort st' = tv_sort st" "tv_hidden st' = tv_hidden st" "tv_page st' = tv_page st" "- 1 \<le> tv_active st'"
  shows "table_ok e st'"
  using assms pages_same [OF assms(2-4), of e] by (simp add: table_ok_def)

lemma ok_first_page:
  assumes "table_ok e st" "fst (tv_sort st') \<notin> set (tv_hidden st')" "tv_hidden st' = tv_hidden st" "tv_page st' = 1" "- 1 \<le> tv_active st'"
  shows "table_ok e st'"
  using assms pages_pos [of e st'] by (simp add: table_ok_def)

lemma ok_init: "columns_ok e \<Longrightarrow> table_ok e init_table"
  using pages_pos [of e init_table] by (simp add: table_ok_def init_table_def shown_keys_def columns_ok_def)

lemma ok_query: "table_ok e st \<Longrightarrow> table_ok e (setQuery q st)"
  by (rule ok_first_page, assumption) (simp_all add: table_ok_def setQuery_def)

lemma ok_list: "table_ok e st \<Longrightarrow> table_ok e (st\<lparr>tv_list := b\<rparr>)"
  by (rule ok_same_table, assumption) (simp_all add: table_ok_def)

lemma ok_cursor: "table_ok e st \<Longrightarrow> - 1 \<le> i \<Longrightarrow> table_ok e (st\<lparr>tv_list := b, tv_active := i\<rparr>)"
  by (rule ok_same_table, assumption) simp_all

lemma ok_menu: "table_ok e st \<Longrightarrow> table_ok e (st\<lparr>tv_menu := b\<rparr>)"
  by (rule ok_same_table, assumption) (simp_all add: table_ok_def)

lemma ok_move: "table_ok e st \<Longrightarrow> table_ok e (moveActive step n st)"
proof (cases "n = 0")
  case False
  assume "table_ok e st"
  moreover have "- 1 \<le> roving step n (tv_active st)" using roving_range [of n step "tv_active st"] False by simp
  ultimately show ?thesis using False by (simp add: moveActive_def ok_cursor)
qed (simp add: moveActive_def)

lemma ok_search: "table_ok e st \<Longrightarrow> onSearchKeydown e k st = Some st' \<Longrightarrow> table_ok e st'"
  by (cases k) (auto simp: ok_move ok_list ok_query ok_cursor split: if_splits)

lemma ok_escape: "table_ok e st \<Longrightarrow> table_ok e (closeOnEscape k st)"
  by (simp add: closeOnEscape_def ok_menu)

lemma nextSort_key: "fst (nextSort cur k) = k"
  by (simp add: nextSort_def)

lemma ok_sort: "table_ok e st \<Longrightarrow> k \<notin> set (tv_hidden st) \<Longrightarrow> table_ok e (sortBy k st)"
  by (rule ok_first_page, assumption) (simp_all add: table_ok_def sortBy_def nextSort_key)

lemma ok_go: "table_ok e st \<Longrightarrow> table_ok e (go e b st)"
proof -
  assume ok: "table_ok e st"
  have page: "table_ok e (st\<lparr>tv_page := p\<rparr>)" if "1 \<le> p" "p \<le> int (v_pages (table_view e st))" for p
    using ok that pages_same [of "st\<lparr>tv_page := p\<rparr>" st e] by (simp add: table_ok_def)
  have "int (v_page (table_view e st)) = tv_page st" "1 \<le> tv_page st" "tv_page st \<le> int (v_pages (table_view e st))"
    using ok view_page [of st e] by (simp_all add: table_ok_def)
  then show ?thesis using pages_pos [of e st] by (cases b) (auto intro!: page)
qed

lemma ok_toggle:
  assumes "table_ok e st" "columns_ok e"
  shows "table_ok e (toggleColumn (te_columns e) k st)"
proof -
  define h where "h = nextHidden (tv_hidden st) k (te_columns e)"
  have h: "shown_keys h (te_columns e) \<noteq> []" "set h \<subseteq> set (te_columns e)"
    using nextHidden_keeps [of "tv_hidden st" "te_columns e" k] assms by (simp_all add: h_def table_ok_def columns_ok_def)
  then have sorted_by: "fst (sortAfterHide (tv_sort st) h) \<notin> set h"
    using assms(2) by (auto simp: sortAfterHide_def columns_ok_def)
  let ?st = "st\<lparr>tv_hidden := h, tv_sort := sortAfterHide (tv_sort st) h\<rparr>"
  have "table_ok e ?st" using assms(1) h sorted_by pages_same [of ?st st e] by (simp add: table_ok_def)
  with assms(1) show ?thesis by (simp add: toggleColumn_def Let_def flip: h_def)
qed

lemma ok_step:
  assumes "table_ok e st" "columns_ok e" "pressable ev st" "table_step e ev st = Some st'"
  shows "table_ok e st'"
proof (cases ev)
  case (Sort_By k) with assms ok_sort show ?thesis by (simp add: pressable_def) blast
next
  case (Set_Mode m)
  with assms show ?thesis by (intro ok_first_page [OF assms(1)]) (auto simp: table_ok_def setMode_def)
next
  case (Set_Per p)
  with assms show ?thesis by (intro ok_first_page [OF assms(1)]) (auto simp: table_ok_def setPerPage_def)
next
  case (Search_Key k)
  with assms ok_search ok_escape show ?thesis by fastforce
qed (use assms in \<open>auto simp: ok_query ok_list ok_menu ok_escape ok_go ok_toggle split: option.splits\<close>)

lemma ok_reachable: "table_reachable e st \<Longrightarrow> columns_ok e \<Longrightarrow> table_ok e st"
  by (induction rule: table_reachable.induct) (use ok_init ok_step in blast)+

text \<open>Only \<open>Enter\<close> can throw.\<close>

lemma step_throws:
  "table_step e ev st = None \<longleftrightarrow> ev = Search_Key Enter \<and> 0 \<le> tv_active st \<and> int (length (suggestions e st)) \<le> tv_active st"
proof (cases ev)
  case (Search_Key k)
  then show ?thesis by (cases k) (auto simp: at_index_def)
qed (auto split: option.splits)

definition table_run :: "table_env \<Rightarrow> table_event list \<Rightarrow> table_state option" where
  "table_run e evs = fold (\<lambda>ev s. Option.bind s (table_step e ev)) evs (Some init_table)"

text \<open>With no query every filtered row is suggested.\<close>

lemma all_suggested:
  assumes "lr_lower (te_locale e) [] = []" "tv_query st = []"
  shows "length (suggestions e st) = length (filterRows (te_rows e) (tv_mode st))"
proof -
  let ?l = "te_locale e"
  have typed: "typed (lr_white ?l) (lr_lower ?l) (Some []) = []" using assms(1) by (simp add: typed_def trim_units_def)
  have rows: "filtered_rows e st = sortRows (te_compare e) (filterRows (te_rows e) (tv_mode st)) ''value'' Desc"
    using assms(1) by (simp add: filtered_rows_def viewRows_def queryRows_def trim_def pageSlice_def Let_def)
  have "length (suggestions e st) = length (hits (lr_lower ?l) [] (map (\<lambda>r. (r_name r, r)) (filtered_rows e st)))"
    using mset_eq_length [OF found_are_hits, of "lr_white ?l" "lr_lower ?l" "lr_collate ?l" _ "Some []"]
    unfolding suggestions_def assms(2) typed by simp
  then show ?thesis by (simp add: hits_def rows sortRows_def)
qed

section \<open>Properties\<close>

text \<open>C33. The finder opens only what it shows: whatever was typed, pressed and loaded before, an area
  is opened only by pressing its option, or by Enter on the option lit in the open list, or by
  Enter with no option lit and a query that has an exact match; the area is one of those listed,
  and afterwards the field names it and the list is closed with no cursor.\<close>

theorem finder_opens_only_what_it_shows:
  assumes "st = find_run l evs" "find_step l (areas, ev) st = (st', Some m)"
  shows "m \<in> set (box_matches l areas st) \<and> fb_query st' = fd_name m \<and> \<not> fb_open st' \<and> fb_active st' = - 1
    \<and> ((\<exists>i. ev = Press i \<and> at_index (box_matches l areas st) (int i) = Some m)
      \<or> ev = Key Enter \<and> fb_open st \<and> active_option (box_matches l areas st) st = Some m
      \<or> ev = Key Enter \<and> fb_active st = - 1 \<and> box_exact l areas st = Some m)"
proof (cases ev)
  case (Key k)
  let ?ms = "box_matches l areas st" and ?ex = "box_exact l areas st"
  have cursor: "cursor_ok st" unfolding assms(1) by (rule cursor_run)
  have k: "k = Enter" "st' = pick_match m st" "if 0 \<le> fb_active st then active_option ?ms st = Some m else ?ex = Some m"
    using picked_key [of ?ms ?ex k st m] assms(2) Key by simp_all
  show ?thesis
  proof (cases "0 \<le> fb_active st")
    case True
    with cursor k(3) have "fb_open st" "active_option ?ms st = Some m" by (simp_all add: cursor_ok_def)
    moreover from this have "m \<in> set ?ms" by (simp add: active_option_def at_index_mem)
    ultimately show ?thesis using Key k by simp
  next
    case False
    with cursor k(3) have "fb_active st = - 1" "?ex = Some m" by (simp_all add: cursor_ok_def)
    moreover from this have "m \<in> set ?ms" unfolding box_exact_def using exact_in_matches by blast
    ultimately show ?thesis using Key k by simp
  qed
next
  case (Press i)
  with assms(2) have "at_index (box_matches l areas st) (int i) = Some m" "st' = pick_match m st" by (auto split: option.splits)
  moreover from this have "m \<in> set (box_matches l areas st)" by (simp add: at_index_mem)
  ultimately show ?thesis using Press by auto
qed (use assms(2) in simp_all)

definition plain_locale :: "char locale_rules" where
  "plain_locale = \<lparr>lr_white = is_ws, lr_lower = map ascii_lower, lr_collate = (\<lambda>a b. 0)\<rparr>"

definition two_areas :: "(string \<times> nat) list" where
  "two_areas = [(''Vidin'', 7), (''Varna'', 8)]"

theorem finder_opens_only_what_it_shows_witness:
  "\<exists>st' m. find_step plain_locale (two_areas, Key Enter) (find_run plain_locale [(two_areas, Type ''vi'')]) = (st', Some m)
    \<and> fb_query st' = fd_name m \<and> fd_name m = ''Vidin''"
proof -
  let ?st = "find_run plain_locale [(two_areas, Type ''vi'')]"
  have typed: "typed is_ws (map ascii_lower) (Some ''vi'') = ''vi''" by code_simp
  have one: "match_area (map ascii_lower) ''vi'' (''Vidin'', 7 :: nat) = Some \<lparr>fd_name = ''Vidin'', fd_area = 7, fd_at = 0, fd_len = 2\<rparr>"
    "match_area (map ascii_lower) ''vi'' (''Varna'', 8 :: nat) = None" by code_simp+
  have st: "fb_query ?st = ''vi''" "fb_active ?st = - 1" by (simp_all add: find_run_def)
  have ms: "box_matches plain_locale two_areas ?st = [\<lparr>fd_name = ''Vidin'', fd_area = 7, fd_at = 0, fd_len = 2\<rparr>]"
    unfolding box_matches_def st(1) by (simp add: plain_locale_def two_areas_def matchAreas_def typed one List.map_filter_simps)
  have "map ascii_lower ''Vidin'' \<noteq> ''vi''" by code_simp
  then have ex: "box_exact plain_locale two_areas ?st = Some \<lparr>fd_name = ''Vidin'', fd_area = 7, fd_at = 0, fd_len = 2\<rparr>"
    unfolding box_exact_def ms st(1) exactMatch_def by (simp add: plain_locale_def typed)
  obtain st' m where step: "find_step plain_locale (two_areas, Key Enter) ?st = (st', Some m)"
    using ex st(2) by simp
  have "fb_query st' = fd_name m" "m \<in> set (box_matches plain_locale two_areas ?st)"
    using finder_opens_only_what_it_shows [OF refl step] by blast+
  with step show ?thesis by (intro exI [of _ st'] exI [of _ m]) (simp add: ms)
qed

text \<open>C34. However the table's controls are used, the column it is sorted by is one on show, at least
  one data column is, and the page named is a page there is; and the one handler that can throw
  is Enter in the search field with the cursor beyond the suggestions.\<close>

theorem table_controls_stay_consistent:
  assumes "columns_ok e" "table_reachable e st"
  shows "fst (tv_sort st) \<notin> set (tv_hidden st) \<and> shown_keys (tv_hidden st) (te_columns e) \<noteq> []
    \<and> int (v_page (table_view e st)) = tv_page st \<and> 1 \<le> v_page (table_view e st) \<and> v_page (table_view e st) \<le> v_pages (table_view e st)
    \<and> (table_step e ev st = None \<longleftrightarrow> ev = Search_Key Enter \<and> int (length (suggestions e st)) \<le> tv_active st \<and> 0 \<le> tv_active st)"
proof -
  have ok: "table_ok e st" by (rule ok_reachable [OF assms(2,1)])
  then have "int (v_page (table_view e st)) = tv_page st" using view_page [of st e] by (simp add: table_ok_def)
  with ok show ?thesis unfolding step_throws by (auto simp: table_ok_def)
qed

definition two_provinces :: table_env where
  "two_provinces = \<lparr>te_rows = [\<lparr>r_el = 0, r_name = ''Vidin'', r_value = Some (Fin 7), r_sensors = Fin 2, r_nodata = False\<rparr>,
       \<lparr>r_el = 1, r_name = ''Varna'', r_value = Some (Fin 5), r_sensors = Fin 9, r_nodata = False\<rparr>],
     te_columns = [''value'', ''sensors''], te_compare = (\<lambda>a b. 0), te_locale = plain_locale\<rparr>"

lemma two_provinces_ok: "columns_ok two_provinces"
  by (simp add: columns_ok_def two_provinces_def)

theorem table_controls_stay_consistent_witness:
  "fst (tv_sort (toggleColumn [''value'', ''sensors''] ''value'' init_table)) \<notin> set (tv_hidden (toggleColumn [''value'', ''sensors''] ''value'' init_table))"
proof -
  have "table_step two_provinces (Toggle_Column ''value'') init_table = Some (toggleColumn [''value'', ''sensors''] ''value'' init_table)"
    by (simp add: two_provinces_def)
  then have "table_reachable two_provinces (toggleColumn [''value'', ''sensors''] ''value'' init_table)"
    by (rule table_reachable.event [OF table_reachable.start, rotated]) (simp add: pressable_def)
  from table_controls_stay_consistent [OF two_provinces_ok this] show ?thesis by blast
qed

text \<open>A cursor that outlives its list: leaving the field closes the list but keeps the cursor, so
  after a filter that leaves no province (here, those without data when all have data) coming back
  and pressing Enter throws.\<close>

theorem stale_cursor_breaks_enter:
  assumes "te_rows e \<noteq> []" "\<forall>r \<in> set (te_rows e). \<not> r_nodata r" "lr_lower (te_locale e) [] = []"
  shows "table_run e [Focus_Search, Search_Key Arrow_Up, Blur_Search, Set_Mode ''nodata'', Focus_Search] \<noteq> None
    \<and> table_run e [Focus_Search, Search_Key Arrow_Up, Blur_Search, Set_Mode ''nodata'', Focus_Search, Search_Key Enter] = None"
proof -
  let ?n = "length (te_rows e)"
  define s1 where "s1 = init_table\<lparr>tv_list := True, tv_active := int ?n - 1\<rparr>"
  define s2 where "s2 = (setMode ''nodata'' (s1\<lparr>tv_list := False\<rparr>))\<lparr>tv_list := True\<rparr>"
  have "length (suggestions e (init_table\<lparr>tv_list := True\<rparr>)) = ?n"
    using all_suggested [OF assms(3), of "init_table\<lparr>tv_list := True\<rparr>"] by (simp add: init_table_def filterRows_def)
  then have up: "table_step e (Search_Key Arrow_Up) (init_table\<lparr>tv_list := True\<rparr>) = Some s1"
    using assms(1) by (simp add: closeOnEscape_def moveActive_def roving_def s1_def init_table_def)
  have fields: "tv_query s2 = []" "tv_mode s2 = ''nodata''" "tv_active s2 = int ?n - 1"
    by (simp_all add: s2_def s1_def init_table_def setMode_def)
  have "suggestions e s2 = []"
    using all_suggested [OF assms(3) fields(1)] assms(2) by (simp add: fields(2) filterRows_def filter_empty_conv)
  then have "table_step e (Search_Key Enter) s2 = None"
    unfolding step_throws using assms(1) fields(3) by (cases "te_rows e") simp_all
  moreover have "table_step e Focus_Search init_table = Some (init_table\<lparr>tv_list := True\<rparr>)"
    "table_step e Blur_Search s1 = Some (s1\<lparr>tv_list := False\<rparr>)"
    "table_step e (Set_Mode ''nodata'') (s1\<lparr>tv_list := False\<rparr>) = Some (setMode ''nodata'' (s1\<lparr>tv_list := False\<rparr>))"
    "table_step e Focus_Search (setMode ''nodata'' (s1\<lparr>tv_list := False\<rparr>)) = Some s2"
    by (simp_all add: s2_def)
  ultimately show ?thesis using up by (simp add: table_run_def del: table_step.simps)
qed

theorem stale_cursor_breaks_enter_witness:
  "table_run two_provinces [Focus_Search, Search_Key Arrow_Up, Blur_Search, Set_Mode ''nodata'', Focus_Search, Search_Key Enter] = None"
proof -
  have "te_rows two_provinces \<noteq> []" "\<forall>r \<in> set (te_rows two_provinces). \<not> r_nodata r" "lr_lower (te_locale two_provinces) [] = []"
    by (simp_all add: two_provinces_def plain_locale_def)
  from stale_cursor_breaks_enter [OF this] show ?thesis by blast
qed

text \<open>Hiding the column the table is sorted by sorts it by name, but stays on the page it was on.\<close>

lemma hiding_sorted_column_keeps_page:
  "k \<in> set (te_columns e) \<Longrightarrow> k \<notin> set (tv_hidden st) \<Longrightarrow> 1 < length (shown_keys (tv_hidden st) (te_columns e)) \<Longrightarrow> fst (tv_sort st) = k \<Longrightarrow>
     tv_sort (toggleColumn (te_columns e) k st) = (''name'', Asc) \<and> tv_page (toggleColumn (te_columns e) k st) = tv_page st"
  by (auto simp: toggleColumn_def nextHidden_def sortAfterHide_def shown_keys_def firstDir_def Let_def)

end
