(* ===== verification/Chart_Loader.thy ===== *)
theory Chart_Loader
  imports Charts Axis_Colour Period
begin

text \<open>
  The chart component (\<open>web/src/components/Chart.svelte\<close>) as the run of its effect over sources that
  change and requests that answer in any order, and the two components that tell it what to draw:
  the sensor's chart (\<open>SensorChart.svelte\<close>) with its metrics, window and neighbourhood, and the
  area's (\<open>ChartPanel.svelte\<close>). The plotting library is what is handed to it.
\<close>

section \<open>What is handed to the plotting library (Chart.svelte)\<close>

record line =
  ln_url :: string
  ln_label :: string
  ln_colour :: colour
  ln_scale :: "string option"
  ln_unit :: string
  ln_column :: "string option"
  ln_dash :: "nat list option"

definition line_scale :: "line \<Rightarrow> string" where
  "line_scale l = (case ln_scale l of Some s \<Rightarrow> s | None \<Rightarrow> ''y'')"

text \<open>One axis per scale, in the order the lines name them.\<close>

definition axis_scales :: "line list \<Rightarrow> string list" where
  "axis_scales ls = fold set_add (map line_scale ls) []"

record theme_tokens =
  tk_axis :: string
  tk_grid :: string
  tk_bg :: string

record axis =
  ax_scale :: string
  ax_side :: nat
  ax_stroke :: colour
  ax_label :: "string option"
  ax_ticks :: string
  ax_grid :: string
  ax_show_grid :: bool

definition first_on :: "line list \<Rightarrow> string \<Rightarrow> line option" where
  "first_on ls s = find (\<lambda>l. line_scale l = s) ls"

definition coloured :: "colour \<Rightarrow> bool" where
  "coloured c \<longleftrightarrow> c \<noteq> None \<and> c \<noteq> Some []"

definition axis_stroke :: "theme_tokens \<Rightarrow> line option \<Rightarrow> colour" where
  "axis_stroke tk l = (case l of Some l \<Rightarrow> if coloured (ln_colour l) then legibleStroke (ln_colour l) (Some (tk_bg tk)) (9 / 2)
       else Some (tk_axis tk) | None \<Rightarrow> Some (tk_axis tk))"

definition axis_for :: "theme_tokens \<Rightarrow> line list \<Rightarrow> nat \<times> string \<Rightarrow> axis" where
  "axis_for tk ls = (\<lambda>(i, s). let l = first_on ls s in
     \<lparr>ax_scale = s, ax_side = (if i = 0 then 3 else 1), ax_stroke = axis_stroke tk l,
      ax_label = (case l of Some l \<Rightarrow> if ln_unit l = [] then None else Some (ln_unit l) | None \<Rightarrow> None),
      ax_ticks = tk_axis tk, ax_grid = tk_grid tk, ax_show_grid = (i = 0)\<rparr>)"

definition plot_axes :: "theme_tokens \<Rightarrow> line list \<Rightarrow> axis list" where
  "plot_axes tk ls = map (axis_for tk ls) (enumerate 0 (axis_scales ls))"

record plot_series =
  ps_label :: string
  ps_stroke :: colour
  ps_scale :: string
  ps_dash :: "nat list option"

record plot =
  pl_series :: "plot_series list"
  pl_time_axis :: "string \<times> string"
  pl_axes :: "axis list"
  pl_xs :: "jsnum list"
  pl_ys :: "jsval list list"

definition columns_of :: "line list \<Rightarrow> string list" where
  "columns_of ls = map (\<lambda>l. case ln_column l of Some c \<Rightarrow> c | None \<Rightarrow> ''v'') ls"

definition new_plot :: "theme_tokens \<Rightarrow> line list \<Rightarrow> jsnum list \<times> jsval list list \<Rightarrow> plot" where
  "new_plot tk ls d = \<lparr>pl_series = map (\<lambda>l. \<lparr>ps_label = ln_label l, ps_stroke = ln_colour l, ps_scale = line_scale l, ps_dash = ln_dash l\<rparr>) ls,
     pl_time_axis = (tk_axis tk, tk_grid tk), pl_axes = plot_axes tk ls, pl_xs = fst d, pl_ys = snd d\<rparr>"

text \<open>A change of theme restyles the axes of the plot that is there.\<close>

definition restyle_axis :: "theme_tokens \<Rightarrow> line list \<Rightarrow> axis \<Rightarrow> axis" where
  "restyle_axis tk ls a = a\<lparr>ax_stroke := axis_stroke tk (first_on ls (ax_scale a)), ax_ticks := tk_axis tk, ax_grid := tk_grid tk\<rparr>"

definition restyleAxes :: "theme_tokens \<Rightarrow> line list \<Rightarrow> plot \<Rightarrow> plot" where
  "restyleAxes tk ls p = p\<lparr>pl_time_axis := (tk_axis tk, tk_grid tk), pl_axes := map (restyle_axis tk ls) (pl_axes p)\<rparr>"

section \<open>The component's effect\<close>

datatype answer = Waiting | Answered jsval | Failed

datatype chart_status = Loading | Empty_Plot | Plotted | Unavailable

text \<open>
  A run of the effect: the lines it read, what each request has come to, whether the code after
  the await has run, and whether the effect has been torn down.
\<close>

record fetch_run =
  fr_lines :: "line list"
  fr_answers :: "answer list"
  fr_resumed :: bool
  fr_cancelled :: bool

record chart =
  ch_status :: chart_status
  ch_plot :: "plot option"
  ch_runs :: "fetch_run list"
  ch_theme :: theme_tokens

definition init_chart :: "theme_tokens \<Rightarrow> chart" where
  "init_chart tk = \<lparr>ch_status = Loading, ch_plot = None, ch_runs = [], ch_theme = tk\<rparr>"

definition teardown_run :: "chart \<Rightarrow> chart" where
  "teardown_run st = st\<lparr>ch_plot := None, ch_runs := map (fr_cancelled_update (\<lambda>_. True)) (ch_runs st)\<rparr>"

definition start_run :: "line list \<Rightarrow> chart \<Rightarrow> chart" where
  "start_run ls st = (let torn = teardown_run st in torn\<lparr>ch_status := Loading,
     ch_runs := ch_runs torn @ [\<lparr>fr_lines = ls, fr_answers = replicate (length ls) Waiting, fr_resumed = False, fr_cancelled = False\<rparr>]\<rparr>)"

definition upd_run :: "nat \<Rightarrow> (fetch_run \<Rightarrow> fetch_run) \<Rightarrow> chart \<Rightarrow> chart" where
  "upd_run i f st = (if i < length (ch_runs st) then st\<lparr>ch_runs := (ch_runs st)[i := f (ch_runs st ! i)]\<rparr> else st)"

text \<open>A request settles once.\<close>

definition settle :: "nat \<Rightarrow> nat \<Rightarrow> answer \<Rightarrow> chart \<Rightarrow> chart" where
  "settle i j a st = upd_run i (\<lambda>r. if j < length (fr_answers r) \<and> fr_answers r ! j = Waiting
     then r\<lparr>fr_answers := (fr_answers r)[j := a]\<rparr> else r) st"

definition run_ready :: "fetch_run \<Rightarrow> bool" where
  "run_ready r \<longleftrightarrow> \<not> fr_resumed r \<and> (Failed \<in> set (fr_answers r) \<or> Waiting \<notin> set (fr_answers r))"

fun body_of :: "answer \<Rightarrow> jsval" where
  "body_of (Answered b) = b"
| "body_of _ = JUndef"

definition run_data :: "fetch_run \<Rightarrow> jsnum list \<times> jsval list list" where
  "run_data r = mergeSeries (map body_of (fr_answers r)) (columns_of (fr_lines r))"

definition resume :: "nat \<Rightarrow> chart \<Rightarrow> chart" where
  "resume i st = (if i < length (ch_runs st) \<and> run_ready (ch_runs st ! i) then
     let r = ch_runs st ! i; st1 = upd_run i (fr_resumed_update (\<lambda>_. True)) st in
       if Failed \<in> set (fr_answers r) then (if fr_cancelled r then st1 else st1\<lparr>ch_status := Unavailable\<rparr>)
       else if fr_cancelled r then st1
       else if length (fst (run_data r)) < 2 then st1\<lparr>ch_status := Empty_Plot\<rparr>
       else st1\<lparr>ch_status := Plotted, ch_plot := Some (new_plot (ch_theme st) (fr_lines r) (run_data r))\<rparr>
   else st)"

text \<open>The observers of the theme live as long as the plot they restyle.\<close>

definition retheme :: "theme_tokens \<Rightarrow> chart \<Rightarrow> chart" where
  "retheme tk st = st\<lparr>ch_theme := tk, ch_plot := (if ch_runs st = [] then ch_plot st
     else map_option (restyleAxes tk (fr_lines (last (ch_runs st)))) (ch_plot st))\<rparr>"

datatype chart_event =
    Sources "line list"
  | Settles nat nat answer
  | Resumes nat
  | Theme theme_tokens

fun chart_step :: "chart_event \<Rightarrow> chart \<Rightarrow> chart" where
  "chart_step (Sources ls) st = start_run ls st"
| "chart_step (Settles i j a) st = settle i j a st"
| "chart_step (Resumes i) st = resume i st"
| "chart_step (Theme tk) st = retheme tk st"

definition chart_run :: "theme_tokens \<Rightarrow> chart_event list \<Rightarrow> chart" where
  "chart_run tk evs = fold chart_step evs (init_chart tk)"

section \<open>The sensor's chart (SensorChart.svelte)\<close>

fun scale_names_from :: "(string \<times> string) list \<Rightarrow> string list \<Rightarrow> string list" where
  "scale_names_from by_unit [] = []"
| "scale_names_from by_unit (u # us) = (case map_of by_unit u of
      Some s \<Rightarrow> s # scale_names_from by_unit us
    | None \<Rightarrow> let s = (if by_unit = [] then ''y'' else ''y'' @ nat_str (length by_unit + 1))
        in s # scale_names_from (by_unit @ [(u, s)]) us)"

definition scaleNames :: "scales \<Rightarrow> string list \<Rightarrow> string list" where
  "scaleNames scl ms = scale_names_from [] (map (unitFor scl) ms)"

text \<open>What the panel passes in.\<close>

record sensor_chart_props =
  sp_station :: string
  sp_sources :: "string \<Rightarrow> string option"
  sp_options :: "(string \<times> string) list"
  sp_initial_period :: string
  sp_initial_metric :: string
  sp_colours :: "string list"
  sp_nearby_labels :: "string \<Rightarrow> string option"

record sensor_chart =
  sc_metrics :: "string list"
  sc_period :: string
  sc_from :: string
  sc_to :: string
  sc_nearby :: "string list"
  sc_reset :: nat

definition seedMetric :: "sensor_chart_props \<Rightarrow> string option" where
  "seedMetric p = (if sp_initial_metric p \<in> fst ` set (sp_options p) then Some (sp_initial_metric p)
     else case sp_options p of [] \<Rightarrow> None | o1 # _ \<Rightarrow> Some (fst o1))"

definition seeded :: "sensor_chart_props \<Rightarrow> string list" where
  "seeded p = (case seedMetric p of Some m \<Rightarrow> [m] | None \<Rightarrow> [])"

definition init_sensor_chart :: "sensor_chart_props \<Rightarrow> sensor_chart" where
  "init_sensor_chart p = \<lparr>sc_metrics = seeded p, sc_period = sp_initial_period p, sc_from = [], sc_to = [], sc_nearby = [], sc_reset = 0\<rparr>"

definition labelOf :: "sensor_chart_props \<Rightarrow> string \<Rightarrow> string" where
  "labelOf p m = (case map_of (sp_options p) m of Some l \<Rightarrow> l | None \<Rightarrow> m)"

definition sensor_query :: "(int \<Rightarrow> int) \<Rightarrow> sensor_chart \<Rightarrow> string option" where
  "sensor_query zone st = periodQuery zone (sc_period st) (Some (sc_from st)) (Some (sc_to st))"

definition series_url :: "sensor_chart_props \<Rightarrow> string \<Rightarrow> string \<Rightarrow> string" where
  "series_url p query m = ''/api/v1/sensor/'' @ encode_uri_component (case sp_sources p m of Some d \<Rightarrow> d | None \<Rightarrow> sp_station p)
     @ ''/series?metric='' @ encode_uri_component m @ ''&'' @ query"

definition palette :: "sensor_chart_props \<Rightarrow> nat \<Rightarrow> colour" where
  "palette p i = nth_opt (sp_colours p) (i mod length (sp_colours p))"

definition own_lines :: "sensor_chart_props \<Rightarrow> scales \<Rightarrow> string \<Rightarrow> string list \<Rightarrow> line list" where
  "own_lines p scl query ms = map (\<lambda>(i, m). \<lparr>ln_url = series_url p query m, ln_label = labelOf p m, ln_colour = palette p i,
     ln_scale = nth_opt (scaleNames scl ms) i, ln_unit = unitFor scl m, ln_column = None, ln_dash = None\<rparr>) (enumerate 0 ms)"

definition line_of_nearby :: "nearby_source \<Rightarrow> line" where
  "line_of_nearby n = \<lparr>ln_url = ns_url n, ln_label = ns_label n, ln_colour = Some (ns_colour n), ln_scale = Some (ns_scale n),
     ln_unit = ns_unit n, ln_column = Some (ns_column n), ln_dash = Some (ns_dash n)\<rparr>"

definition bandable :: "string option \<Rightarrow> sensor_chart \<Rightarrow> bool" where
  "bandable area st \<longleftrightarrow> length (sc_metrics st) = 1 \<and> given area"

definition chartSources :: "(int \<Rightarrow> int) \<Rightarrow> sensor_chart_props \<Rightarrow> scales \<Rightarrow> string option \<Rightarrow> sensor_chart \<Rightarrow> line list" where
  "chartSources zone p scl area st = (case sensor_query zone st of None \<Rightarrow> []
     | Some query \<Rightarrow> let ms = sc_metrics st; own = own_lines p scl query ms in
         if \<not> bandable area st then own
         else own @ map line_of_nearby (nearbySources area (Some (hd ms)) (Some query) (sc_nearby st)
           (case palette p 1 of Some c \<Rightarrow> c | None \<Rightarrow> []) (hd (scaleNames scl ms)) (unitFor scl (hd ms)) (sp_nearby_labels p)))"

text \<open>The controls.\<close>

datatype sensor_control =
    Toggle_Metric string
  | Toggle_Nearby string
  | Segment string
  | Pick_Period string string string
  | Custom
  | Reset

definition toggle :: "string \<Rightarrow> string list \<Rightarrow> string list" where
  "toggle k ks = (if k \<in> set ks then filter (\<lambda>x. x \<noteq> k) ks else ks @ [k])"

definition reset_sensor_chart :: "sensor_chart_props \<Rightarrow> sensor_chart \<Rightarrow> sensor_chart" where
  "reset_sensor_chart p st = \<lparr>sc_metrics = seeded p, sc_period = sp_initial_period p, sc_from = [], sc_to = [], sc_nearby = [],
     sc_reset = sc_reset st + 1\<rparr>"

fun use_control :: "sensor_chart_props \<Rightarrow> sensor_control \<Rightarrow> sensor_chart \<Rightarrow> sensor_chart" where
  "use_control p (Toggle_Metric m) st = (if toggle m (sc_metrics st) = [] then st else st\<lparr>sc_metrics := toggle m (sc_metrics st)\<rparr>)"
| "use_control p (Toggle_Nearby k) st = st\<lparr>sc_nearby := toggle k (sc_nearby st)\<rparr>"
| "use_control p (Segment q) st = st\<lparr>sc_period := q, sc_from := [], sc_to := []\<rparr>"
| "use_control p (Pick_Period q f u) st = st\<lparr>sc_period := q, sc_from := f, sc_to := u\<rparr>"
| "use_control p Custom st = st\<lparr>sc_period := CUSTOM\<rparr>"
| "use_control p Reset st = reset_sensor_chart p st"

text \<open>What stands where the chart does.\<close>

datatype chart_place = Nothing_There | Message string | Chart_Of "line list"

definition sensor_chart_place :: "(int \<Rightarrow> int) \<Rightarrow> sensor_chart_props \<Rightarrow> scales \<Rightarrow> string option \<Rightarrow> string \<Rightarrow> sensor_chart \<Rightarrow> chart_place" where
  "sensor_chart_place zone p scl area range_invalid st =
     (if sc_period st = CUSTOM \<and> sensor_query zone st = None then Message range_invalid
      else if chartSources zone p scl area st \<noteq> [] then Chart_Of (chartSources zone p scl area st) else Nothing_There)"

section \<open>Lemmas\<close>

subsection \<open>The effect\<close>

text \<open>What a run of the effect has to show: nothing yet, a failure, too little, or its plot.\<close>

definition shown_of :: "theme_tokens \<Rightarrow> fetch_run \<Rightarrow> chart_status \<times> plot option" where
  "shown_of tk r = (if \<not> fr_resumed r then (Loading, None)
     else if Failed \<in> set (fr_answers r) then (Unavailable, None)
     else if length (fst (run_data r)) < 2 then (Empty_Plot, None)
     else (Plotted, Some (new_plot tk (fr_lines r) (run_data r))))"

definition chart_inv :: "chart \<Rightarrow> bool" where
  "chart_inv st \<longleftrightarrow> (\<forall>r \<in> set (ch_runs st). fr_resumed r \<longrightarrow> Failed \<in> set (fr_answers r) \<or> Waiting \<notin> set (fr_answers r))
     \<and> (\<forall>i < length (ch_runs st). fr_cancelled (ch_runs st ! i) \<longleftrightarrow> Suc i < length (ch_runs st))
     \<and> (ch_status st, ch_plot st) = (if ch_runs st = [] then (Loading, None) else shown_of (ch_theme st) (last (ch_runs st)))"

lemma teardown_simps [simp]:
  "ch_status (teardown_run st) = ch_status st" "ch_theme (teardown_run st) = ch_theme st" "ch_plot (teardown_run st) = None"
  "length (ch_runs (teardown_run st)) = length (ch_runs st)"
  by (simp_all add: teardown_run_def)

lemma inv_start_run: "chart_inv st \<Longrightarrow> chart_inv (start_run ls st)"
  by (auto simp: chart_inv_def start_run_def teardown_run_def shown_of_def nth_append Let_def less_Suc_eq)

lemma upd_run_simps [simp]:
  "ch_status (upd_run i f st) = ch_status st" "ch_theme (upd_run i f st) = ch_theme st" "ch_plot (upd_run i f st) = ch_plot st"
  "length (ch_runs (upd_run i f st)) = length (ch_runs st)" "ch_runs (upd_run i f st) = [] \<longleftrightarrow> ch_runs st = []"
  by (simp_all add: upd_run_def)

text \<open>Changing one run keeps the invariant when what the last run shows is kept.\<close>

lemma inv_upd:
  assumes inv: "chart_inv st" and i: "i < length (ch_runs st)"
    and keep: "fr_cancelled (f (ch_runs st ! i)) = fr_cancelled (ch_runs st ! i)"
      "fr_resumed (f (ch_runs st ! i)) \<Longrightarrow> Failed \<in> set (fr_answers (f (ch_runs st ! i))) \<or> Waiting \<notin> set (fr_answers (f (ch_runs st ! i)))"
    and status: "st' = upd_run i f st\<lparr>ch_status := s, ch_plot := p\<rparr>"
    and shown: "(s, p) = (if Suc i = length (ch_runs st) then shown_of (ch_theme st) (f (ch_runs st ! i)) else (ch_status st, ch_plot st))"
  shows "chart_inv st'"
proof -
  have runs: "ch_runs st' = (ch_runs st)[i := f (ch_runs st ! i)]" "ch_theme st' = ch_theme st" "ch_status st' = s" "ch_plot st' = p"
    using i unfolding status by (simp_all add: upd_run_def)
  have ne: "ch_runs st \<noteq> []" using i by auto
  have "fr_resumed r \<longrightarrow> Failed \<in> set (fr_answers r) \<or> Waiting \<notin> set (fr_answers r)" if "r \<in> set (ch_runs st')" for r
    using that inv keep(2) set_update_subset_insert [of "ch_runs st" i "f (ch_runs st ! i)"] unfolding runs chart_inv_def by blast
  moreover have "fr_cancelled (ch_runs st' ! k) \<longleftrightarrow> Suc k < length (ch_runs st')" if "k < length (ch_runs st')" for k
    using that inv keep(1) i unfolding runs chart_inv_def by (cases "k = i") simp_all
  moreover have "last (ch_runs st') = (if Suc i = length (ch_runs st) then f (ch_runs st ! i) else last (ch_runs st))"
    unfolding runs(1) last_list_update [OF ne] using i by auto
  ultimately show ?thesis using inv shown ne unfolding chart_inv_def runs(2-4) by (simp add: runs(1))
qed

lemma settled_shows:
  assumes "fr_resumed r \<longrightarrow> Failed \<in> set (fr_answers r) \<or> Waiting \<notin> set (fr_answers r)" "j < length (fr_answers r)" "fr_answers r ! j = Waiting"
  shows "shown_of tk (r\<lparr>fr_answers := (fr_answers r)[j := a]\<rparr>) = shown_of tk r"
    "fr_resumed r \<Longrightarrow> Failed \<in> set ((fr_answers r)[j := a])"
proof -
  have w: "Waiting \<in> set (fr_answers r)" using assms(2,3) by (metis nth_mem)
  show f: "fr_resumed r \<Longrightarrow> Failed \<in> set ((fr_answers r)[j := a])"
  proof -
    assume "fr_resumed r"
    with assms(1) w obtain k where "k < length (fr_answers r)" "fr_answers r ! k = Failed" by (auto simp: in_set_conv_nth)
    moreover from this have "k \<noteq> j" using assms(3) by auto
    ultimately show ?thesis by (metis length_list_update nth_list_update_neq nth_mem)
  qed
  from f assms(1) w show "shown_of tk (r\<lparr>fr_answers := (fr_answers r)[j := a]\<rparr>) = shown_of tk r" by (simp add: shown_of_def)
qed

lemma inv_last_shown:
  "chart_inv st \<Longrightarrow> Suc i = length (ch_runs st) \<Longrightarrow> (ch_status st, ch_plot st) = shown_of (ch_theme st) (ch_runs st ! i)"
  by (cases "ch_runs st" rule: rev_cases) (auto simp: chart_inv_def)

lemma inv_settle:
  assumes "chart_inv st"
  shows "chart_inv (settle i j a st)"
proof (cases "i < length (ch_runs st) \<and> j < length (fr_answers (ch_runs st ! i)) \<and> fr_answers (ch_runs st ! i) ! j = Waiting")
  case True
  let ?r = "ch_runs st ! i"
  let ?f = "\<lambda>r. r\<lparr>fr_answers := (fr_answers r)[j := a]\<rparr>"
  have r: "fr_resumed ?r \<longrightarrow> Failed \<in> set (fr_answers ?r) \<or> Waiting \<notin> set (fr_answers ?r)"
    using assms True unfolding chart_inv_def by (metis nth_mem)
  note s = settled_shows [OF r, of j] True
  have "settle i j a st = upd_run i ?f st\<lparr>ch_status := ch_status st, ch_plot := ch_plot st\<rparr>"
    using True by (simp add: settle_def upd_run_def)
  then show ?thesis
    by (rule inv_upd [OF assms, rotated 3]) (use s inv_last_shown [OF assms] in auto)
next
  case False
  then have "settle i j a st = st" by (auto simp: settle_def upd_run_def list_update_id)
  with assms show ?thesis by simp
qed

lemma inv_resume:
  assumes "chart_inv st"
  shows "chart_inv (resume i st)"
proof (cases "i < length (ch_runs st) \<and> run_ready (ch_runs st ! i)")
  case True
  let ?r = "ch_runs st ! i"
  have c: "fr_cancelled ?r \<longleftrightarrow> Suc i \<noteq> length (ch_runs st)" using assms True unfolding chart_inv_def by (metis Suc_lessI less_not_refl)
  define sp where "sp = (if Suc i = length (ch_runs st) then shown_of (ch_theme st) (?r\<lparr>fr_resumed := True\<rparr>) else (ch_status st, ch_plot st))"
  have old: "ch_plot st = None" if "Suc i = length (ch_runs st)"
    using inv_last_shown [OF assms that] True by (simp add: shown_of_def run_ready_def)
  have "resume i st = upd_run i (fr_resumed_update (\<lambda>_. True)) st\<lparr>ch_status := fst sp, ch_plot := snd sp\<rparr>"
    using True c old by (auto simp: resume_def sp_def shown_of_def run_data_def Let_def upd_run_def)
  then show ?thesis
    by (rule inv_upd [OF assms, rotated 3]) (use True in \<open>auto simp: run_ready_def sp_def\<close>)
next
  case False
  then have "resume i st = st" by (simp only: resume_def if_False)
  with assms show ?thesis by simp
qed

lemma restyle_plot: "restyleAxes tk ls (new_plot tk' ls d) = new_plot tk ls d"
  by (simp add: restyleAxes_def new_plot_def plot_axes_def axis_for_def restyle_axis_def Let_def case_prod_unfold)

lemma inv_retheme: "chart_inv st \<Longrightarrow> chart_inv (retheme tk st)"
  by (auto simp: chart_inv_def retheme_def shown_of_def restyle_plot split: if_splits)

lemma inv_chart: "chart_inv (chart_run tk evs)"
proof -
  have "chart_inv st \<Longrightarrow> chart_inv (fold chart_step evs st)" for st
  proof (induction evs arbitrary: st)
    case (Cons e evs)
    then show ?case by (cases e) (simp_all add: inv_start_run inv_settle inv_resume inv_retheme)
  qed simp
  moreover have "chart_inv (init_chart tk)" by (simp add: chart_inv_def init_chart_def)
  ultimately show ?thesis by (simp add: chart_run_def)
qed

text \<open>What the events have last said: the sources and the theme.\<close>

fun latest_sources :: "line list option \<Rightarrow> chart_event list \<Rightarrow> line list option" where
  "latest_sources ls [] = ls"
| "latest_sources ls (Sources ls' # evs) = latest_sources (Some ls') evs"
| "latest_sources ls (_ # evs) = latest_sources ls evs"

fun latest_theme :: "theme_tokens \<Rightarrow> chart_event list \<Rightarrow> theme_tokens" where
  "latest_theme tk [] = tk"
| "latest_theme tk (Theme tk' # evs) = latest_theme tk' evs"
| "latest_theme tk (_ # evs) = latest_theme tk evs"

definition current_lines :: "chart \<Rightarrow> line list option" where
  "current_lines st = (if ch_runs st = [] then None else Some (fr_lines (last (ch_runs st))))"

lemma current_upd: "(\<And>r. fr_lines (f r) = fr_lines r) \<Longrightarrow> current_lines (upd_run i f st) = current_lines st"
  by (cases "ch_runs st" rule: rev_cases) (auto simp: current_lines_def upd_run_def list_update_append nth_append split: nat.splits)

lemma current_step:
  "current_lines (chart_step e st) = (case e of Sources ls \<Rightarrow> Some ls | _ \<Rightarrow> current_lines st)"
  "ch_theme (chart_step e st) = (case e of Theme tk \<Rightarrow> tk | _ \<Rightarrow> ch_theme st)"
proof -
  have resumed: "current_lines (upd_run i (fr_resumed_update (\<lambda>_. True)) st) = current_lines st" for i by (rule current_upd) simp
  have settled: "current_lines (settle i j a st) = current_lines st" for i j a unfolding settle_def by (rule current_upd) simp
  have more: "current_lines (x\<lparr>ch_status := s\<rparr>) = current_lines x" "current_lines (x\<lparr>ch_plot := p\<rparr>) = current_lines x" for x s p
    by (simp_all add: current_lines_def)
  have "current_lines (resume i st) = current_lines st" for i by (simp add: resume_def Let_def more resumed)
  then show "current_lines (chart_step e st) = (case e of Sources ls \<Rightarrow> Some ls | _ \<Rightarrow> current_lines st)"
    using settled by (cases e) (simp_all add: start_run_def current_lines_def Let_def retheme_def)
  show "ch_theme (chart_step e st) = (case e of Theme tk \<Rightarrow> tk | _ \<Rightarrow> ch_theme st)"
    by (cases e) (simp_all add: start_run_def Let_def settle_def resume_def retheme_def)
qed

lemma current_run:
  "current_lines (fold chart_step evs st) = latest_sources (current_lines st) evs"
  "ch_theme (fold chart_step evs st) = latest_theme (ch_theme st) evs"
proof (induction evs arbitrary: st)
  case (Cons e evs)
  { case 1 show ?case using Cons by (cases e) (simp_all add: current_step del: chart_step.simps) }
  { case 2 show ?case using Cons by (cases e) (simp_all add: current_step del: chart_step.simps) }
qed simp_all

subsection \<open>Axes\<close>

lemma distinct_fold_add: "distinct (fold set_add ys acc) = distinct acc"
  by (induction ys arbitrary: acc) auto

lemma axis_scales_facts: "set (axis_scales ls) = line_scale ` set ls" "distinct (axis_scales ls)"
  by (simp_all add: axis_scales_def fold_set_add distinct_fold_add)

lemma plot_axes_scales: "map ax_scale (plot_axes tk ls) = axis_scales ls"
  by (simp add: plot_axes_def axis_for_def Let_def case_prod_unfold o_def)

definition scale_at :: "nat \<Rightarrow> string" where
  "scale_at k = (if k = 0 then ''y'' else ''y'' @ nat_str (k + 1))"

lemma scale_at_inject: "scale_at j = scale_at k \<longleftrightarrow> j = k"
  by (auto simp: scale_at_def) (metis nat_str_not_Nil)+

definition named :: "(string \<times> string) list \<Rightarrow> bool" where
  "named m \<longleftrightarrow> map snd m = map scale_at [0..<length m] \<and> distinct (map fst m)"

lemma named_scale: "named m \<Longrightarrow> map_of m u = Some s \<Longrightarrow> map_of m v = Some s \<Longrightarrow> u = v"
proof -
  assume m: "named m" "map_of m u = Some s" "map_of m v = Some s"
  then have "distinct (map snd m)" by (simp add: named_def distinct_map inj_on_def scale_at_inject)
  moreover have "(u, s) \<in> set m" "(v, s) \<in> set m" using m by (simp_all add: map_of_SomeD)
  ultimately show "u = v" by (metis eq_snd_iff inj_on_def distinct_map fst_conv)
qed

lemma names_from:
  "named m \<Longrightarrow> \<exists>m'. named m' \<and> map_of m \<subseteq>\<^sub>m map_of m' \<and> map (map_of m') us = map Some (scale_names_from m us)"
proof (induction us arbitrary: m)
  case (Cons u us)
  show ?case
  proof (cases "map_of m u")
    case (Some s)
    from Cons.IH [OF Cons.prems] obtain m' where m': "named m'" "map_of m \<subseteq>\<^sub>m map_of m'"
      "map (map_of m') us = map Some (scale_names_from m us)" by blast
    moreover have "map_of m' u = Some s" using m'(2) Some by (auto simp: map_le_def dom_def)
    ultimately show ?thesis using Some by (intro exI [of _ m']) simp
  next
    case None
    define s where "s = (if m = [] then ''y'' else ''y'' @ nat_str (length m + 1))"
    have s: "s = scale_at (length m)" by (simp add: s_def scale_at_def)
    have n: "named (m @ [(u, s)])" using Cons.prems None by (auto simp: named_def s map_of_eq_None_iff)
    from Cons.IH [OF n] obtain m' where m': "named m'" "map_of (m @ [(u, s)]) \<subseteq>\<^sub>m map_of m'"
      "map (map_of m') us = map Some (scale_names_from (m @ [(u, s)]) us)" by blast
    have u: "map_of (m @ [(u, s)]) u = Some s" using None by (simp add: map_add_def)
    have "map_of m \<subseteq>\<^sub>m map_of (m @ [(u, s)])" using None by (auto simp: map_le_def map_add_def split: option.splits)
    then have "map_of m \<subseteq>\<^sub>m map_of m'" using m'(2) map_le_trans by blast
    moreover have "map_of m' u = Some s" using m'(2) u by (auto simp: map_le_def dom_def)
    ultimately show ?thesis using None m' by (intro exI [of _ m']) (simp add: Let_def s_def)
  qed
qed auto

text \<open>One scale per unit.\<close>

lemma scale_names_iff:
  "length (scale_names_from [] us) = length us"
  "i < length us \<Longrightarrow> j < length us \<Longrightarrow> scale_names_from [] us ! i = scale_names_from [] us ! j \<longleftrightarrow> us ! i = us ! j"
proof -
  obtain m where m: "named m" "map (map_of m) us = map Some (scale_names_from [] us)"
    using names_from [of "[]" us] by (auto simp: named_def)
  show l: "length (scale_names_from [] us) = length us" using arg_cong [OF m(2), of length] by simp
  assume ij: "i < length us" "j < length us"
  have "map_of m (us ! k) = Some (scale_names_from [] us ! k)" if "k < length us" for k
    using arg_cong [OF m(2), of "\<lambda>xs. xs ! k"] that l by simp
  with ij named_scale [OF m(1)] show "scale_names_from [] us ! i = scale_names_from [] us ! j \<longleftrightarrow> us ! i = us ! j"
    by (metis option.inject)
qed

text \<open>The pair of scale and unit of every line the sensor's chart draws is that of one of its own metrics.\<close>

lemma sensor_line_scale:
  assumes "l \<in> set (chartSources zone p scl area st)"
  obtains i where "i < length (sc_metrics st)" "line_scale l = scaleNames scl (sc_metrics st) ! i" "ln_unit l = unitFor scl (sc_metrics st ! i)"
proof -
  let ?ms = "sc_metrics st"
  note found = that
  have len: "length (scaleNames scl ?ms) = length ?ms" by (simp add: scaleNames_def scale_names_iff)
  obtain query where q: "sensor_query zone st = Some query" using assms by (cases "sensor_query zone st") (simp_all add: chartSources_def)
  have own: thesis if "l \<in> set (own_lines p scl query ?ms)"
  proof -
    from that obtain i where "i < length ?ms" "l = own_lines p scl query ?ms ! i" by (auto simp: own_lines_def in_set_conv_nth)
    then show thesis using len by (intro found [of i]) (simp_all add: own_lines_def nth_enumerate_eq line_scale_def nth_opt_def)
  qed
  show thesis
  proof (cases "l \<in> set (own_lines p scl query ?ms)")
    case False
    with assms q have b: "bandable area st" and n: "l \<in> line_of_nearby ` set (nearbySources area (Some (hd ?ms)) (Some query) (sc_nearby st)
           (case palette p 1 of Some c \<Rightarrow> c | None \<Rightarrow> []) (hd (scaleNames scl ?ms)) (unitFor scl (hd ?ms)) (sp_nearby_labels p))"
      by (auto simp: chartSources_def Let_def split: if_splits)
    from b have one: "length ?ms = 1" by (simp add: bandable_def)
    then have hds: "hd ?ms = ?ms ! 0" "hd (scaleNames scl ?ms) = scaleNames scl ?ms ! 0" using len by (cases ?ms; cases "scaleNames scl ?ms"; simp)+
    from n have "line_scale l = hd (scaleNames scl ?ms)" "ln_unit l = unitFor scl (hd ?ms)"
      by (auto simp: nearbySources_def line_of_nearby_def line_scale_def Let_def split: if_splits)
    with hds one show thesis by (intro found [of 0]) simp_all
  qed (rule own)
qed

lemma same_scale_iff_unit:
  assumes "l \<in> set (chartSources zone p scl area st)" "l' \<in> set (chartSources zone p scl area st)"
  shows "line_scale l = line_scale l' \<longleftrightarrow> ln_unit l = ln_unit l'"
proof -
  obtain i where i: "i < length (sc_metrics st)" "line_scale l = scaleNames scl (sc_metrics st) ! i" "ln_unit l = unitFor scl (sc_metrics st ! i)"
    by (rule sensor_line_scale [OF assms(1)])
  obtain j where j: "j < length (sc_metrics st)" "line_scale l' = scaleNames scl (sc_metrics st) ! j" "ln_unit l' = unitFor scl (sc_metrics st ! j)"
    by (rule sensor_line_scale [OF assms(2)])
  show ?thesis unfolding i(2,3) j(2,3) scaleNames_def using scale_names_iff(2) [of i _ j] i(1) j(1) by simp
qed

section \<open>Properties\<close>

text \<open>C31. Whatever order the requests settle in and however often the sources change under them, the
  chart speaks for the latest sources in the latest theme: it is loading until their requests
  settle, unavailable if one of them failed, empty on fewer than two instants, and otherwise it is
  the plot of their merged answers; an answer to older sources changes nothing.\<close>

theorem chart_speaks_for_latest_sources:
  assumes "st = chart_run tk evs" "latest_sources None evs = Some ls"
  shows "\<exists>r. last (ch_runs st) = r \<and> fr_lines r = ls \<and> \<not> fr_cancelled r
    \<and> (ch_status st = Loading \<longleftrightarrow> \<not> fr_resumed r)
    \<and> (ch_status st = Unavailable \<longleftrightarrow> fr_resumed r \<and> Failed \<in> set (fr_answers r))
    \<and> (ch_status st = Plotted \<longleftrightarrow> fr_resumed r \<and> Failed \<notin> set (fr_answers r) \<and> Waiting \<notin> set (fr_answers r) \<and> 2 \<le> length (fst (run_data r)))
    \<and> ch_plot st = (if ch_status st = Plotted then Some (new_plot (latest_theme tk evs) ls (run_data r)) else None)"
proof (rule exI [of _ "last (ch_runs st)"])
  let ?r = "last (ch_runs st)"
  have inv: "chart_inv st" unfolding assms(1) by (rule inv_chart)
  have cur: "current_lines st = Some ls" "ch_theme st = latest_theme tk evs"
    using current_run [of evs "init_chart tk"] assms by (simp_all add: chart_run_def init_chart_def current_lines_def)
  then have ne: "ch_runs st \<noteq> []" and ls: "fr_lines ?r = ls" by (simp_all add: current_lines_def split: if_splits)
  have live: "\<not> fr_cancelled ?r" using inv ne unfolding chart_inv_def by (simp add: last_conv_nth)
  have settled: "fr_resumed ?r \<Longrightarrow> Failed \<in> set (fr_answers ?r) \<or> Waiting \<notin> set (fr_answers ?r)"
    using inv ne last_in_set unfolding chart_inv_def by blast
  have shown: "(ch_status st, ch_plot st) = shown_of (latest_theme tk evs) ?r" using inv ne cur(2) by (simp add: chart_inv_def)
  show "?r = ?r \<and> fr_lines ?r = ls \<and> \<not> fr_cancelled ?r
    \<and> (ch_status st = Loading \<longleftrightarrow> \<not> fr_resumed ?r)
    \<and> (ch_status st = Unavailable \<longleftrightarrow> fr_resumed ?r \<and> Failed \<in> set (fr_answers ?r))
    \<and> (ch_status st = Plotted \<longleftrightarrow> fr_resumed ?r \<and> Failed \<notin> set (fr_answers ?r) \<and> Waiting \<notin> set (fr_answers ?r) \<and> 2 \<le> length (fst (run_data ?r)))
    \<and> ch_plot st = (if ch_status st = Plotted then Some (new_plot (latest_theme tk evs) ls (run_data ?r)) else None)"
    using shown settled ls live by (auto simp: shown_of_def split: if_splits)
qed

definition one_line :: "string \<Rightarrow> line" where
  "one_line u = \<lparr>ln_url = u, ln_label = u, ln_colour = None, ln_scale = None, ln_unit = [], ln_column = None, ln_dash = None\<rparr>"

definition plain_theme :: theme_tokens where
  "plain_theme = \<lparr>tk_axis = ''black'', tk_grid = ''grey'', tk_bg = ''white''\<rparr>"

definition late_answers :: "chart_event list" where
  "late_answers = [Sources [one_line ''a''], Sources [one_line ''b''], Settles 0 0 (Answered JNull), Resumes 0, Settles 1 0 Failed, Resumes 1]"

theorem chart_speaks_for_latest_sources_witness:
  "ch_status (chart_run plain_theme late_answers) = Unavailable \<and> ch_plot (chart_run plain_theme late_answers) = None"
proof -
  let ?st = "chart_run plain_theme late_answers"
  have r: "last (ch_runs ?st) = \<lparr>fr_lines = [one_line ''b''], fr_answers = [Failed], fr_resumed = True, fr_cancelled = False\<rparr>"
    by (simp add: chart_run_def late_answers_def init_chart_def start_run_def teardown_run_def settle_def upd_run_def resume_def run_ready_def Let_def)
  have "latest_sources None late_answers = Some [one_line ''b'']" by (simp add: late_answers_def)
  from chart_speaks_for_latest_sources [OF refl this, of plain_theme] show ?thesis unfolding r by auto
qed

text \<open>C32. Every line the sensor's chart draws can be read off its axis: there is one axis per scale, two
  lines share one exactly when they are counted in the same unit, and the axis is labelled with the
  unit of every line drawn against it, the lines of the neighbourhood included.\<close>

theorem lines_read_their_axis:
  assumes "axes = plot_axes tk (chartSources zone p scl area st)" "l \<in> set (chartSources zone p scl area st)"
    "l' \<in> set (chartSources zone p scl area st)"
  shows "distinct (map ax_scale axes) \<and> (\<exists>ax \<in> set axes. ax_scale ax = line_scale l)
    \<and> (line_scale l = line_scale l' \<longleftrightarrow> ln_unit l = ln_unit l')
    \<and> (\<forall>ax \<in> set axes. ax_scale ax = line_scale l \<longrightarrow> ax_label ax = (if ln_unit l = [] then None else Some (ln_unit l)))"
proof (intro conjI ballI impI)
  let ?ls = "chartSources zone p scl area st"
  show "distinct (map ax_scale axes)" unfolding assms(1) plot_axes_scales by (rule axis_scales_facts)
  have "line_scale l \<in> set (map ax_scale axes)" unfolding assms(1) plot_axes_scales axis_scales_facts using assms(2) by blast
  then show "\<exists>ax \<in> set axes. ax_scale ax = line_scale l" by auto
  show "line_scale l = line_scale l' \<longleftrightarrow> ln_unit l = ln_unit l'" by (rule same_scale_iff_unit [OF assms(2,3)])
  fix ax
  assume ax: "ax \<in> set axes" "ax_scale ax = line_scale l"
  from ax(1) obtain i s where a: "ax = axis_for tk ?ls (i, s)" unfolding assms(1) plot_axes_def by auto
  with ax(2) have s: "s = line_scale l" by (simp add: axis_for_def Let_def)
  have "find (\<lambda>k. line_scale k = s) ?ls \<noteq> None" using assms(2) s by (auto simp: find_None_iff)
  then obtain k where k: "first_on ?ls s = Some k" by (auto simp: first_on_def)
  then have "k \<in> set ?ls" "line_scale k = s" unfolding first_on_def find_Some_iff by auto
  then have "ln_unit k = ln_unit l" using same_scale_iff_unit [of k zone p scl area st l] assms(2) s by simp
  then show "ax_label ax = (if ln_unit l = [] then None else Some (ln_unit l))" by (simp add: a axis_for_def k Let_def)
qed

definition dust_and_heat :: sensor_chart_props where
  "dust_and_heat = \<lparr>sp_station = ''7'', sp_sources = (\<lambda>_. None), sp_options = [(''P1'', ''PM10''), (''T'', ''Heat'')], sp_initial_period = ''24h'',
     sp_initial_metric = ''P1'', sp_colours = [''blue'', ''red''], sp_nearby_labels = (\<lambda>_. None)\<rparr>"

definition dust_and_heat_chart :: sensor_chart where
  "dust_and_heat_chart = use_control dust_and_heat (Toggle_Metric ''T'') (init_sensor_chart dust_and_heat)"

theorem lines_read_their_axis_witness:
  "\<exists>l \<in> set (chartSources (\<lambda>t. t) dust_and_heat None None dust_and_heat_chart).
     \<exists>ax \<in> set (plot_axes plain_theme (chartSources (\<lambda>t. t) dust_and_heat None None dust_and_heat_chart)). ax_scale ax = line_scale l \<and> ax_label ax = None"
proof -
  let ?ls = "chartSources (\<lambda>t. t) dust_and_heat None None dust_and_heat_chart"
  have ms: "sc_metrics dust_and_heat_chart = [''P1'', ''T'']" "sc_period dust_and_heat_chart = ''24h''"
    by (simp_all add: dust_and_heat_chart_def init_sensor_chart_def seeded_def seedMetric_def dust_and_heat_def toggle_def)
  have q: "sensor_query (\<lambda>t. t) dust_and_heat_chart = Some (''period='' @ encode_uri_component ''24h'')"
    by (simp add: sensor_query_def ms periodQuery_def CUSTOM_def)
  have ls: "?ls = own_lines dust_and_heat None (''period='' @ encode_uri_component ''24h'') [''P1'', ''T'']"
    by (simp add: chartSources_def q ms bandable_def Let_def)
  have units: "ln_unit l = []" if "l \<in> set ?ls" for l
    using that unfolding ls by (auto simp: own_lines_def unitFor_def scaleFor_def)
  obtain l where l: "l \<in> set ?ls" unfolding ls by (auto simp: own_lines_def)
  from lines_read_their_axis [OF refl l l, of plain_theme] units [OF l] l show ?thesis by fastforce
qed

text \<open>A metric is always left to draw, and the reset takes every control back.\<close>

lemma metrics_kept: "sc_metrics st \<noteq> [] \<Longrightarrow> seeded p \<noteq> [] \<Longrightarrow> sc_metrics (use_control p c st) \<noteq> []"
  by (cases c) (auto simp: reset_sensor_chart_def)

lemma reset_undoes: "(use_control p Reset st)\<lparr>sc_reset := 0\<rparr> = init_sensor_chart p"
  by (simp add: init_sensor_chart_def reset_sensor_chart_def)

section \<open>The area's chart (ChartPanel.svelte)\<close>

record area_chart_props =
  ap_slug :: string
  ap_options :: "(string \<times> string) list"
  ap_units :: "string \<Rightarrow> string option"
  ap_periods :: "string list"
  ap_period_labels :: "string list"
  ap_custom_label :: string
  ap_tier :: string
  ap_initial_period :: string
  ap_range_invalid :: string
  ap_unavailable :: string
  ap_value_label :: string
  ap_colour :: colour

record area_chart =
  ac_period :: string
  ac_from :: string
  ac_to :: string
  ac_reset :: nat

definition area_query :: "(int \<Rightarrow> int) \<Rightarrow> area_chart \<Rightarrow> string option" where
  "area_query zone st = periodQuery zone (ac_period st) (Some (ac_from st)) (Some (ac_to st))"

definition index_in :: "'a \<Rightarrow> 'a list \<Rightarrow> nat option" where
  "index_in x xs = find (\<lambda>i. xs ! i = x) [0..<length xs]"

definition periodLabel :: "area_chart_props \<Rightarrow> area_chart \<Rightarrow> string" where
  "periodLabel p st = (if ac_period st = CUSTOM then ap_custom_label p
     else case Option.bind (index_in (ac_period st) (ap_periods p)) (nth_opt (ap_period_labels p)) of Some l \<Rightarrow> l | None \<Rightarrow> ac_period st)"

definition metricLabel :: "area_chart_props \<Rightarrow> string \<Rightarrow> string" where
  "metricLabel p m = (case map_of (ap_options p) m of Some l \<Rightarrow> l | None \<Rightarrow> m)"

definition metricMeasured :: "area_chart_props \<Rightarrow> string \<Rightarrow> bool" where
  "metricMeasured p m \<longleftrightarrow> m \<in> fst ` set (ap_options p)"

fun join_parts :: "string \<Rightarrow> string list \<Rightarrow> string" where
  "join_parts sep [] = []"
| "join_parts sep [x] = x"
| "join_parts sep (x # y # xs) = x @ sep @ join_parts sep (y # xs)"

definition caption :: "string \<Rightarrow> area_chart_props \<Rightarrow> string \<Rightarrow> area_chart \<Rightarrow> string" where
  "caption dot p m st = join_parts dot (filter (\<lambda>s. s \<noteq> []) [metricLabel p m, periodLabel p st, ap_tier p])"

text \<open>A template prints a missing query as the word null.\<close>

definition area_url :: "(int \<Rightarrow> int) \<Rightarrow> area_chart_props \<Rightarrow> string \<Rightarrow> area_chart \<Rightarrow> string" where
  "area_url zone p m st = ''/api/v1/area/'' @ encode_uri_component (ap_slug p) @ ''/series?metric='' @ encode_uri_component m @ ''&''
     @ (case area_query zone st of Some q \<Rightarrow> q | None \<Rightarrow> ''null'')"

definition reset_area_chart :: "area_chart_props \<Rightarrow> area_chart \<Rightarrow> area_chart" where
  "reset_area_chart p st = \<lparr>ac_period = ap_initial_period p, ac_from = [], ac_to = [], ac_reset = ac_reset st + 1\<rparr>"

definition area_line :: "(int \<Rightarrow> int) \<Rightarrow> area_chart_props \<Rightarrow> string \<Rightarrow> area_chart \<Rightarrow> line" where
  "area_line zone p m st = \<lparr>ln_url = area_url zone p m st, ln_label = ap_value_label p, ln_colour = ap_colour p, ln_scale = Some ''y'',
     ln_unit = (case ap_units p m of Some u \<Rightarrow> u | None \<Rightarrow> []), ln_column = None, ln_dash = None\<rparr>"

definition area_chart_place :: "(int \<Rightarrow> int) \<Rightarrow> area_chart_props \<Rightarrow> string \<Rightarrow> bool \<Rightarrow> area_chart \<Rightarrow> chart_place" where
  "area_chart_place zone p m selected st = (if selected then Nothing_There
     else if \<not> metricMeasured p m then Message (ap_unavailable p)
     else if ac_period st = CUSTOM \<and> area_query zone st = None then Message (ap_range_invalid p)
     else Chart_Of [area_line zone p m st])"

text \<open>A chart is only drawn of a metric the area measures, over a window there is.\<close>

lemma area_chart_asks_for_a_window:
  "area_chart_place zone p m selected st = Chart_Of ls \<Longrightarrow> \<not> selected \<and> metricMeasured p m
     \<and> (\<exists>q. area_query zone st = Some q \<and> map ln_url ls = [''/api/v1/area/'' @ encode_uri_component (ap_slug p)
         @ ''/series?metric='' @ encode_uri_component m @ ''&'' @ q])"
  by (cases "area_query zone st") (auto simp: area_chart_place_def area_line_def area_url_def area_query_def periodQuery_def split: if_splits)

end
