(* ===== verification/Docking.thy ===== *)
theory Docking
  imports Storage
begin

text \<open>
  Where the open sensor's readings are shown: under the map in their panel, in the dock along its
  bottom (\<open>web/src/lib/sidedock.svelte.js\<close>) or in the fullscreen sheet
  (\<open>web/src/lib/sensorsheet.svelte.js\<close>), with the panel's header buttons moved along
  (\<open>web/src/lib/panelstar.js\<close>), and the fullscreen switch that decides between them
  (\<open>mountFullscreen\<close> of \<open>web/src/lib/mapcontrols.js\<close>, its \<open>onChange\<close> of \<open>web/src/lib/chrome.js\<close>).
  Nodes are moved, never copied: a node is named by its kind and the panel that rendered it, and of
  the document matter where each node stands, which panel is on the page, and the comments that
  mark the nodes' places. Rendering a panel afresh and tearing it down are events of the component
  library. The chart's copy in the dock, the focus and the measured height are left out.
\<close>

section \<open>Nodes and places\<close>

datatype kind = Gauges | Star | Info

text \<open>\<open>Absent\<close>: never rendered. \<open>Removed\<close>: taken off the page.\<close>

datatype spot = In_Panel nat | In_Dock | In_Sheet | Removed | Absent

type_synonym node = "kind \<times> nat"

record page_dom =
  pd_panel :: "nat option"
  pd_next :: nat
  pd_at :: "node \<Rightarrow> spot"

definition move :: "node \<Rightarrow> spot \<Rightarrow> page_dom \<Rightarrow> page_dom" where
  "move n s doc = doc\<lparr>pd_at := (pd_at doc)(n := s)\<rparr>"

text \<open>\<open>querySelector\<close> inside a panel.\<close>

definition native :: "kind \<Rightarrow> nat \<Rightarrow> page_dom \<Rightarrow> node option" where
  "native k p doc = find (\<lambda>n. pd_at doc n = In_Panel p) (map (\<lambda>q. (k, q)) [0..<pd_next doc])"

text \<open>A slot holds a node taken out of a panel and the panel in which its marker stands.\<close>

record slot =
  sl_node :: "node option"
  sl_marker :: "nat option"

definition no_slot :: slot where
  "no_slot = \<lparr>sl_node = None, sl_marker = None\<rparr>"

text \<open>A node already moved out of this panel is its own.\<close>

definition own_node :: "spot \<Rightarrow> nat \<Rightarrow> slot \<times> page_dom \<Rightarrow> node option" where
  "own_node s p st = (case (sl_node (fst st), sl_marker (fst st)) of
      (Some n, Some m) \<Rightarrow> if pd_at (snd st) n = s \<and> p = m then Some n else None
    | _ \<Rightarrow> None)"

definition next_node :: "spot \<Rightarrow> kind \<Rightarrow> slot \<times> page_dom \<Rightarrow> node option" where
  "next_node s k st = (case pd_panel (snd st) of None \<Rightarrow> None
     | Some p \<Rightarrow> (case native k p (snd st) of Some n \<Rightarrow> Some n | None \<Rightarrow> own_node s p st))"

section \<open>The header buttons (panelstar.js)\<close>

text \<open>A marker that left the document means the panel was torn down: the button is an orphan.\<close>

definition release :: "slot \<times> page_dom \<Rightarrow> slot \<times> page_dom" where
  "release st = (case st of (sl, doc) \<Rightarrow>
     (no_slot, case sl_node sl of None \<Rightarrow> doc
        | Some n \<Rightarrow> (case sl_marker sl of
            Some m \<Rightarrow> if pd_panel doc = Some m then move n (In_Panel m) doc else move n Removed doc
          | None \<Rightarrow> move n Removed doc)))"

definition take_slot :: "spot \<Rightarrow> kind \<Rightarrow> slot \<times> page_dom \<Rightarrow> slot \<times> page_dom" where
  "take_slot s k st = (case next_node s k st of None \<Rightarrow> release st
     | Some n \<Rightarrow> if sl_node (fst st) = Some n then (fst st, move n s (snd st))
         else (case release st of (_, doc) \<Rightarrow>
           (\<lparr>sl_node = Some n, sl_marker = pd_panel doc\<rparr>, move n s doc)))"

section \<open>The gauges\<close>

definition restoreGauges :: "slot \<times> page_dom \<Rightarrow> slot \<times> page_dom" where
  "restoreGauges st = (case st of (sl, doc) \<Rightarrow>
     (no_slot, case (sl_node sl, sl_marker sl) of (Some n, Some m) \<Rightarrow> move n (In_Panel m) doc | _ \<Rightarrow> doc))"

definition take_gauges :: "spot \<Rightarrow> node \<Rightarrow> slot \<times> page_dom \<Rightarrow> slot \<times> page_dom" where
  "take_gauges s n st = (if sl_node (fst st) = Some n then st
     else (case restoreGauges st of (_, doc) \<Rightarrow> (\<lparr>sl_node = Some n, sl_marker = pd_panel doc\<rparr>, move n s doc)))"

section \<open>The dock and the sheet\<close>

record holder =
  ho_gauges :: slot
  ho_star :: slot
  ho_info :: slot
  ho_mounted :: bool
  ho_full :: bool

definition no_holder :: holder where
  "no_holder = \<lparr>ho_gauges = no_slot, ho_star = no_slot, ho_info = no_slot, ho_mounted = False, ho_full = False\<rparr>"

text \<open>One step of a holder on one of its slots.\<close>

definition with_gauges :: "(slot \<times> page_dom \<Rightarrow> slot \<times> page_dom) \<Rightarrow> holder \<times> page_dom \<Rightarrow> holder \<times> page_dom" where
  "with_gauges f st = (case f (ho_gauges (fst st), snd st) of (sl, doc) \<Rightarrow> ((fst st)\<lparr>ho_gauges := sl\<rparr>, doc))"

definition with_star :: "(slot \<times> page_dom \<Rightarrow> slot \<times> page_dom) \<Rightarrow> holder \<times> page_dom \<Rightarrow> holder \<times> page_dom" where
  "with_star f st = (case f (ho_star (fst st), snd st) of (sl, doc) \<Rightarrow> ((fst st)\<lparr>ho_star := sl\<rparr>, doc))"

definition with_info :: "(slot \<times> page_dom \<Rightarrow> slot \<times> page_dom) \<Rightarrow> holder \<times> page_dom \<Rightarrow> holder \<times> page_dom" where
  "with_info f st = (case f (ho_info (fst st), snd st) of (sl, doc) \<Rightarrow> ((fst st)\<lparr>ho_info := sl\<rparr>, doc))"

definition set_mounted :: "bool \<Rightarrow> holder \<times> page_dom \<Rightarrow> holder \<times> page_dom" where
  "set_mounted b st = ((fst st)\<lparr>ho_mounted := b\<rparr>, snd st)"

definition dock_unmount :: "holder \<times> page_dom \<Rightarrow> holder \<times> page_dom" where
  "dock_unmount st = (if \<not> ho_mounted (fst st) then st
     else set_mounted False (with_info release (with_star release (with_gauges restoreGauges st))))"

definition sheet_unmount :: "holder \<times> page_dom \<Rightarrow> holder \<times> page_dom" where
  "sheet_unmount st = (if \<not> ho_mounted (fst st) then st
     else set_mounted False (with_star release (with_gauges restoreGauges st)))"

text \<open>\<open>wide\<close>: the page docks at all and is at least as wide as the dock needs.\<close>

definition dock_sync :: "bool \<Rightarrow> holder \<times> page_dom \<Rightarrow> holder \<times> page_dom" where
  "dock_sync wide st = (case next_node In_Dock Gauges (ho_gauges (fst st), snd st) of
      None \<Rightarrow> dock_unmount st
    | Some n \<Rightarrow> if ho_full (fst st) \<or> \<not> wide then dock_unmount st
        else set_mounted True (with_info (take_slot In_Dock Info) (with_star (take_slot In_Dock Star)
               (with_gauges (take_gauges In_Dock n) st))))"

text \<open>The panel stands under the map, never inside the frame.\<close>

definition sheet_sync :: "holder \<times> page_dom \<Rightarrow> holder \<times> page_dom" where
  "sheet_sync st = (case next_node In_Sheet Gauges (ho_gauges (fst st), snd st) of
      None \<Rightarrow> sheet_unmount st
    | Some n \<Rightarrow> if \<not> ho_full (fst st) then sheet_unmount st
        else set_mounted True (with_star (take_slot In_Sheet Star) (with_gauges (take_gauges In_Sheet n) st)))"

section \<open>The frame\<close>

text \<open>
  \<open>fr_native\<close>: the browser shows the frame full screen; \<open>fr_faux\<close>: the frame is pinned over the page
  instead, with its mark on the body. \<open>fr_pressed\<close> is what the button says. \<open>fr_scroll\<close>: leaving full
  screen is to bring the panel into view; \<open>fr_scrolls\<close> counts how often it did.
\<close>

record frame =
  fr_dom :: page_dom
  fr_dock :: holder
  fr_sheet :: holder
  fr_wide :: bool
  fr_api :: bool
  fr_native :: bool
  fr_faux :: bool
  fr_body_mark :: bool
  fr_pressed :: bool
  fr_key_inside :: bool
  fr_rows_inside :: bool
  fr_scroll :: bool
  fr_scrolls :: nat

definition on_dock :: "(holder \<times> page_dom \<Rightarrow> holder \<times> page_dom) \<Rightarrow> frame \<Rightarrow> frame" where
  "on_dock f d = (case f (fr_dock d, fr_dom d) of (h, doc) \<Rightarrow> d\<lparr>fr_dock := h, fr_dom := doc\<rparr>)"

definition on_sheet :: "(holder \<times> page_dom \<Rightarrow> holder \<times> page_dom) \<Rightarrow> frame \<Rightarrow> frame" where
  "on_sheet f d = (case f (fr_sheet d, fr_dom d) of (h, doc) \<Rightarrow> d\<lparr>fr_sheet := h, fr_dom := doc\<rparr>)"

definition dock_setFull :: "bool \<Rightarrow> frame \<Rightarrow> frame" where
  "dock_setFull on d = on_dock (\<lambda>(h, doc). dock_sync (fr_wide d) (h\<lparr>ho_full := on\<rparr>, doc)) d"

definition bring_into_view :: "bool \<Rightarrow> frame \<Rightarrow> frame" where
  "bring_into_view on d = (if on \<or> \<not> fr_scroll d then d
     else d\<lparr>fr_scroll := False, fr_scrolls := (if pd_panel (fr_dom d) = None then fr_scrolls d else fr_scrolls d + 1)\<rparr>)"

definition sheet_setFull :: "bool \<Rightarrow> frame \<Rightarrow> frame" where
  "sheet_setFull on d = bring_into_view on (on_sheet (\<lambda>(h, doc). sheet_sync (h\<lparr>ho_full := on\<rparr>, doc)) d)"

text \<open>\<open>onChange\<close>: the key and the overlay rows ride along; the dock lets go before the sheet takes, and the reverse.\<close>

definition onChange :: "bool \<Rightarrow> frame \<Rightarrow> frame" where
  "onChange full d = (let d1 = d\<lparr>fr_key_inside := full, fr_rows_inside := full\<rparr> in
     if full then sheet_setFull True (dock_setFull True d1) else dock_setFull False (sheet_setFull False d1))"

definition isFull :: "frame \<Rightarrow> bool" where
  "isFull d \<longleftrightarrow> fr_native d \<or> fr_faux d"

definition paint_full :: "frame \<Rightarrow> frame" where
  "paint_full d = onChange (isFull d) (d\<lparr>fr_pressed := isFull d\<rparr>)"

definition faux :: "frame \<Rightarrow> frame" where
  "faux d = paint_full (d\<lparr>fr_faux := True, fr_body_mark := True\<rparr>)"

text \<open>The browser is only asked to leave or to enter; it answers with events of its own.\<close>

definition exit_full :: "frame \<Rightarrow> frame" where
  "exit_full d = paint_full (d\<lparr>fr_faux := False, fr_body_mark := False\<rparr>)"

definition enter_full :: "frame \<Rightarrow> frame" where
  "enter_full d = (if fr_api d then d else faux d)"

definition click_full :: "frame \<Rightarrow> frame" where
  "click_full d = (if isFull d then exit_full d else enter_full d)"

text \<open>The sheet's link to the history under the map.\<close>

definition click_history :: "frame \<Rightarrow> frame" where
  "click_history d = (let d1 = d\<lparr>fr_scroll := True\<rparr> in if fr_pressed d1 then click_full d1 else d1)"

text \<open>Escape: the sheet, then the dock unless a station sheet stands over it, both before the frame's own.\<close>

definition press_escape :: "bool \<Rightarrow> frame \<Rightarrow> frame" where
  "press_escape about d = (if ho_mounted (fr_sheet d) then on_sheet sheet_unmount d
     else if ho_mounted (fr_dock d) \<and> \<not> about then on_dock dock_unmount d
     else if fr_faux d then exit_full d else d)"

text \<open>A panel is rendered with its gauges, its details button, and its star unless the page is embedded.\<close>

definition render_panel :: "bool \<Rightarrow> page_dom \<Rightarrow> page_dom" where
  "render_panel star doc = (let p = pd_next doc in doc\<lparr>pd_panel := Some p, pd_next := Suc p,
     pd_at := (\<lambda>n. if snd n = p \<and> (fst n = Star \<longrightarrow> star) then In_Panel p else pd_at doc n)\<rparr>)"

definition teardown_panel :: "page_dom \<Rightarrow> page_dom" where
  "teardown_panel doc = doc\<lparr>pd_panel := None\<rparr>"

datatype frame_event =
    Render bool
  | Teardown
  | Sync_Dock
  | Sync_Sheet
  | Wide bool
  | Click_Full
  | Native bool
  | Screen_Changed
  | Enter_Granted
  | Enter_Refused
  | Click_History
  | Press_Escape bool
  | Close_Dock
  | Close_Sheet

text \<open>\<open>Sync_Dock\<close> and \<open>Sync_Sheet\<close> are the effects that follow the open sensor.\<close>

fun frame_step :: "frame_event \<Rightarrow> frame \<Rightarrow> frame" where
  "frame_step (Render star) d = d\<lparr>fr_dom := render_panel star (fr_dom d)\<rparr>"
| "frame_step Teardown d = d\<lparr>fr_dom := teardown_panel (fr_dom d)\<rparr>"
| "frame_step Sync_Dock d = on_dock (dock_sync (fr_wide d)) d"
| "frame_step Sync_Sheet d = on_sheet sheet_sync d"
| "frame_step (Wide w) d = on_dock (dock_sync w) (d\<lparr>fr_wide := w\<rparr>)"
| "frame_step Click_Full d = click_full d"
| "frame_step (Native b) d = d\<lparr>fr_native := b\<rparr>"
| "frame_step Screen_Changed d = paint_full d"
| "frame_step Enter_Granted d = paint_full d"
| "frame_step Enter_Refused d = faux d"
| "frame_step Click_History d = click_history d"
| "frame_step (Press_Escape about) d = press_escape about d"
| "frame_step Close_Dock d = on_dock dock_unmount d"
| "frame_step Close_Sheet d = on_sheet sheet_unmount d"

definition init_frame :: "bool \<Rightarrow> bool \<Rightarrow> frame" where
  "init_frame wide api = \<lparr>fr_dom = \<lparr>pd_panel = None, pd_next = 0, pd_at = (\<lambda>_. Absent)\<rparr>, fr_dock = no_holder, fr_sheet = no_holder,
     fr_wide = wide, fr_api = api, fr_native = False, fr_faux = False, fr_body_mark = False, fr_pressed = False,
     fr_key_inside = False, fr_rows_inside = False, fr_scroll = False, fr_scrolls = 0\<rparr>"

definition frame_run :: "bool \<Rightarrow> bool \<Rightarrow> frame_event list \<Rightarrow> frame" where
  "frame_run wide api evs = fold frame_step evs (init_frame wide api)"

section \<open>The folded dock\<close>

definition FOLD_KEY :: string where
  "FOLD_KEY = ''kanarche:panel-folded''"

definition fold_label :: "string \<Rightarrow> string \<Rightarrow> bool \<Rightarrow> string" where
  "fold_label expandLabel foldLabel folded = (if folded then expandLabel else foldLabel)"

definition more_label :: "string \<Rightarrow> string \<Rightarrow> bool \<Rightarrow> string" where
  "more_label moreLabel moreShortLabel folded = (if folded \<and> moreShortLabel \<noteq> [] then moreShortLabel else moreLabel)"

definition click_fold :: "bool \<times> storage option \<Rightarrow> bool \<times> storage option" where
  "click_fold st = (\<not> fst st, writeFlag FOLD_KEY (\<not> fst st) (snd st))"

section \<open>Lemmas\<close>

subsection \<open>The document\<close>

lemma move_simps [simp]:
  "pd_panel (move n s doc) = pd_panel doc" "pd_next (move n s doc) = pd_next doc"
  "pd_at (move n s doc) m = (if m = n then s else pd_at doc m)"
  by (simp_all add: move_def)

lemma move_back [simp]: "pd_at doc n = s \<Longrightarrow> move n s doc = doc"
  by (simp add: move_def fun_upd_idem)

text \<open>A node in a panel is in its own, nodes of panels to come are absent, gauges are never removed, and
  no node of the panel on the page is.\<close>

definition doc_ok :: "page_dom \<Rightarrow> bool" where
  "doc_ok doc \<longleftrightarrow> (\<forall>n p. pd_at doc n = In_Panel p \<longrightarrow> p = snd n)
     \<and> (\<forall>n. pd_next doc \<le> snd n \<longrightarrow> pd_at doc n = Absent)
     \<and> (\<forall>n. pd_at doc n = Removed \<longrightarrow> fst n \<noteq> Gauges \<and> pd_panel doc \<noteq> Some (snd n))
     \<and> (\<forall>q < pd_next doc. pd_at doc (Gauges, q) \<noteq> Absent)
     \<and> (\<forall>p. pd_panel doc = Some p \<longrightarrow> p < pd_next doc)"

lemma doc_move:
  assumes "doc_ok doc" "pd_at doc n \<noteq> Absent" "t \<noteq> Absent" "\<And>p. t = In_Panel p \<Longrightarrow> p = snd n"
    "t = Removed \<Longrightarrow> fst n \<noteq> Gauges \<and> pd_panel doc \<noteq> Some (snd n)"
  shows "doc_ok (move n t doc)"
proof -
  have ok: "\<And>m p. pd_at doc m = In_Panel p \<Longrightarrow> p = snd m" "\<And>m. pd_next doc \<le> snd m \<Longrightarrow> pd_at doc m = Absent"
    "\<And>m. pd_at doc m = Removed \<Longrightarrow> fst m \<noteq> Gauges \<and> pd_panel doc \<noteq> Some (snd m)"
    "\<And>q. q < pd_next doc \<Longrightarrow> pd_at doc (Gauges, q) \<noteq> Absent" "\<And>p. pd_panel doc = Some p \<Longrightarrow> p < pd_next doc"
    using assms(1) unfolding doc_ok_def by blast+
  show ?thesis unfolding doc_ok_def move_simps
  proof (intro conjI allI impI)
    fix m p show "(if m = n then t else pd_at doc m) = In_Panel p \<Longrightarrow> p = snd m"
      using ok(1) assms(4) by (cases "m = n") simp_all
  next
    fix m show "pd_next doc \<le> snd m \<Longrightarrow> (if m = n then t else pd_at doc m) = Absent"
      using ok(2) assms(2) by (cases "m = n") simp_all
  next
    fix m show "(if m = n then t else pd_at doc m) = Removed \<Longrightarrow> fst m \<noteq> Gauges"
      using ok(3) assms(5) by (cases "m = n") simp_all
  next
    fix m show "(if m = n then t else pd_at doc m) = Removed \<Longrightarrow> pd_panel doc \<noteq> Some (snd m)"
      using ok(3) assms(5) by (cases "m = n") simp_all
  next
    fix q show "q < pd_next doc \<Longrightarrow> (if (Gauges, q) = n then t else pd_at doc (Gauges, q)) \<noteq> Absent"
      using ok(4) assms(3) by simp
  next
    fix p show "pd_panel doc = Some p \<Longrightarrow> p < pd_next doc" by (rule ok(5))
  qed
qed

text \<open>\<open>h\<close> is the panel whose node of this kind stands at the spot.\<close>

definition placed :: "spot \<Rightarrow> kind \<Rightarrow> nat option \<Rightarrow> page_dom \<Rightarrow> bool" where
  "placed s k h doc \<longleftrightarrow> (\<forall>q. pd_at doc (k, q) = s \<longleftrightarrow> h = Some q)"

lemma placed_other: "placed s k h doc \<Longrightarrow> fst n \<noteq> k \<or> pd_at doc n \<noteq> s \<and> t \<noteq> s \<Longrightarrow> placed s k h (move n t doc)"
  unfolding placed_def move_simps by (metis fst_conv)

lemma placed_out: "placed s k (Some q) doc \<Longrightarrow> t \<noteq> s \<Longrightarrow> placed s k None (move (k, q) t doc)"
  by (auto simp: placed_def)

lemma placed_in: "placed s k None doc \<Longrightarrow> placed s k (Some q) (move (k, q) s doc)"
  by (auto simp: placed_def)

definition holds :: "(spot \<Rightarrow> kind \<Rightarrow> nat option) \<Rightarrow> page_dom \<Rightarrow> bool" where
  "holds h doc \<longleftrightarrow> doc_ok doc \<and> (\<forall>k. placed In_Dock k (h In_Dock k) doc) \<and> (\<forall>k. placed In_Sheet k (h In_Sheet k) doc)"

definition put :: "spot \<Rightarrow> kind \<Rightarrow> nat option \<Rightarrow> (spot \<Rightarrow> kind \<Rightarrow> nat option) \<Rightarrow> spot \<Rightarrow> kind \<Rightarrow> nat option" where
  "put s k v h = h(s := (h s)(k := v))"

lemma put_simps [simp]: "put s k v h s' k' = (if s' = s \<and> k' = k then v else h s' k')"
  by (simp add: put_def)

lemma put_same: "h s k = v \<Longrightarrow> put s k v h = h"
  by (auto simp: put_def fun_eq_iff)

lemma holds_placed: "holds h doc \<Longrightarrow> s = In_Dock \<or> s = In_Sheet \<Longrightarrow> h s k = v \<Longrightarrow> placed s k v doc"
  by (auto simp: holds_def)

lemma holds_at: "holds h doc \<Longrightarrow> s = In_Dock \<or> s = In_Sheet \<Longrightarrow> pd_at doc (k, q) = s \<longleftrightarrow> h s k = Some q"
  by (auto simp: holds_def placed_def)

text \<open>Taking the held node out of a spot, and putting a node of the panel there.\<close>

lemma holds_out:
  assumes "holds h doc" "s = In_Dock \<or> s = In_Sheet" "h s k = Some q" "t = In_Panel q \<or> t = Removed \<and> k \<noteq> Gauges \<and> pd_panel doc \<noteq> Some q"
  shows "holds (put s k None h) (move (k, q) t doc)"
proof -
  have here: "pd_at doc (k, q) = s" using holds_at [OF assms(1,2)] assms(3) by simp
  have "doc_ok (move (k, q) t doc)"
    using assms(1,2,4) here by (intro doc_move) (auto simp: holds_def)
  moreover have "placed s' k' (put s k None h s' k') (move (k, q) t doc)" if s': "s' = In_Dock \<or> s' = In_Sheet" for s' k'
  proof (cases "s' = s \<and> k' = k")
    case True
    have "placed s k (Some q) doc" by (rule holds_placed [OF assms(1-3)])
    then show ?thesis using True assms(4) s' by (auto intro: placed_out)
  next
    case False
    have "placed s' k' (h s' k') doc" using assms(1) s' by (auto simp: holds_def)
    then have "placed s' k' (h s' k') (move (k, q) t doc)" by (rule placed_other) (use False here assms(4) s' in auto)
    with False show ?thesis by auto
  qed
  ultimately show ?thesis by (simp add: holds_def)
qed

lemma holds_in:
  assumes "holds h doc" "s = In_Dock \<or> s = In_Sheet" "h s k = None" "pd_at doc (k, q) = In_Panel q"
  shows "holds (put s k (Some q) h) (move (k, q) s doc)"
proof -
  have "doc_ok (move (k, q) s doc)"
    using assms(1,2,4) by (intro doc_move) (auto simp: holds_def)
  moreover have "placed s' k' (put s k (Some q) h s' k') (move (k, q) s doc)" if s': "s' = In_Dock \<or> s' = In_Sheet" for s' k'
  proof (cases "s' = s \<and> k' = k")
    case True
    have "placed s k None doc" by (rule holds_placed [OF assms(1-3)])
    then show ?thesis using True by (auto intro: placed_in)
  next
    case False
    have "placed s' k' (h s' k') doc" using assms(1) s' by (auto simp: holds_def)
    then have "placed s' k' (h s' k') (move (k, q) s doc)" by (rule placed_other) (use False assms(2,4) s' in auto)
    with False show ?thesis by auto
  qed
  ultimately show ?thesis by (simp add: holds_def)
qed

subsection \<open>Slots\<close>

definition slot_of :: "kind \<Rightarrow> nat option \<Rightarrow> slot" where
  "slot_of k h = (case h of None \<Rightarrow> no_slot | Some q \<Rightarrow> \<lparr>sl_node = Some (k, q), sl_marker = Some q\<rparr>)"

lemma slot_of_simps [simp]:
  "sl_node no_slot = None" "sl_marker no_slot = None" "sl_node (slot_of k h) = map_option (Pair k) h" "sl_marker (slot_of k h) = h" "slot_of k None = no_slot"
  by (simp_all add: slot_of_def no_slot_def split: option.splits)

lemma native_own:
  assumes "doc_ok doc"
  shows "native k p doc = (if pd_at doc (k, p) = In_Panel p then Some (k, p) else None)"
proof -
  let ?ns = "map (\<lambda>q. (k, q)) [0..<pd_next doc]"
  have own: "pd_at doc (k, q) = In_Panel p \<Longrightarrow> q = p" for q using assms unfolding doc_ok_def by (metis snd_conv)
  show ?thesis
  proof (cases "pd_at doc (k, p) = In_Panel p")
    case True
    have "p < pd_next doc"
    proof (rule ccontr)
      assume "\<not> p < pd_next doc"
      then have "pd_at doc (k, p) = Absent" using assms by (simp add: doc_ok_def)
      with True show False by simp
    qed
    then have "find (\<lambda>n. pd_at doc n = In_Panel p) ?ns \<noteq> None" using True by (auto simp: find_None_iff)
    moreover have "n = (k, p)" if "find (\<lambda>n. pd_at doc n = In_Panel p) ?ns = Some n" for n
    proof -
      from that obtain i where i: "i < length ?ns" "n = ?ns ! i" "pd_at doc n = In_Panel p" unfolding find_Some_iff by blast
      then have "n = (k, i)" by simp
      with own i(3) show ?thesis by simp
    qed
    ultimately show ?thesis using True unfolding native_def by auto
  next
    case False
    then have "find (\<lambda>n. pd_at doc n = In_Panel p) ?ns = None" using own by (auto simp: find_None_iff)
    with False show ?thesis by (simp add: native_def)
  qed
qed

lemma next_node_own:
  assumes "holds h doc" "s = In_Dock \<or> s = In_Sheet"
  shows "next_node s k (slot_of k (h s k), doc) = (case pd_panel doc of None \<Rightarrow> None
    | Some p \<Rightarrow> if pd_at doc (k, p) = In_Panel p \<or> h s k = Some p then Some (k, p) else None)"
proof (cases "pd_panel doc")
  case (Some p)
  have "doc_ok doc" using assms(1) by (simp add: holds_def)
  then show ?thesis using Some holds_at [OF assms, of k p]
    by (cases "h s k") (auto simp: next_node_def native_own own_node_def)
qed (simp add: next_node_def)

lemma release_holds:
  assumes "holds h doc" "s = In_Dock \<or> s = In_Sheet" "k \<noteq> Gauges"
  shows "\<exists>doc'. release (slot_of k (h s k), doc) = (no_slot, doc') \<and> holds (put s k None h) doc'
    \<and> pd_panel doc' = pd_panel doc \<and> (\<forall>q. pd_at doc (k, q) = In_Panel q \<longrightarrow> pd_at doc' (k, q) = In_Panel q)"
proof (cases "h s k")
  case None
  then have "put s k None h = h" by (rule put_same)
  with None assms(1) show ?thesis by (simp add: release_def)
next
  case (Some q)
  let ?t = "if pd_panel doc = Some q then In_Panel q else Removed"
  have "holds (put s k None h) (move (k, q) ?t doc)"
    by (rule holds_out [OF assms(1,2) Some]) (use assms(3) in auto)
  moreover have "release (slot_of k (h s k), doc) = (no_slot, move (k, q) ?t doc)" using Some by (simp add: release_def)
  moreover have "pd_at doc (k, q) = s" using holds_at [OF assms(1,2)] Some by simp
  ultimately show ?thesis using assms(2) by (intro exI [of _ "move (k, q) ?t doc"]) auto
qed

lemma restore_holds:
  assumes "holds h doc" "s = In_Dock \<or> s = In_Sheet"
  shows "\<exists>doc'. restoreGauges (slot_of Gauges (h s Gauges), doc) = (no_slot, doc') \<and> holds (put s Gauges None h) doc'
    \<and> pd_panel doc' = pd_panel doc \<and> (\<forall>q. pd_at doc (Gauges, q) = In_Panel q \<longrightarrow> pd_at doc' (Gauges, q) = In_Panel q)"
proof (cases "h s Gauges")
  case None
  then have "put s Gauges None h = h" by (rule put_same)
  with None assms(1) show ?thesis by (simp add: restoreGauges_def)
next
  case (Some q)
  have "holds (put s Gauges None h) (move (Gauges, q) (In_Panel q) doc)" by (rule holds_out [OF assms Some]) simp
  with Some show ?thesis by (intro exI [of _ "move (Gauges, q) (In_Panel q) doc"]) (simp add: restoreGauges_def)
qed

text \<open>The node in the slot already, or one of the panel on the page taken into the freed slot.\<close>

lemma taken_holds:
  assumes "holds h doc" "s = In_Dock \<or> s = In_Sheet" "pd_panel doc = Some p" "h s k \<noteq> Some p" "pd_at doc (k, p) = In_Panel p"
    "holds (put s k None h) doc'" "pd_panel doc' = pd_panel doc" "\<forall>q. pd_at doc (k, q) = In_Panel q \<longrightarrow> pd_at doc' (k, q) = In_Panel q"
  shows "\<lparr>sl_node = Some (k, p), sl_marker = pd_panel doc'\<rparr> = slot_of k (Some p) \<and> holds (put s k (Some p) h) (move (k, p) s doc')"
proof -
  have "holds (put s k (Some p) (put s k None h)) (move (k, p) s doc')"
    by (rule holds_in [OF assms(6,2)]) (use assms(5,8) in simp_all)
  moreover have "put s k (Some p) (put s k None h) = put s k (Some p) h" by (auto simp: put_def fun_eq_iff)
  ultimately show ?thesis using assms(3,7) by (simp add: slot_of_def)
qed

definition taken :: "spot \<Rightarrow> kind \<Rightarrow> (spot \<Rightarrow> kind \<Rightarrow> nat option) \<Rightarrow> page_dom \<Rightarrow> nat option" where
  "taken s k h doc = (case pd_panel doc of None \<Rightarrow> None
    | Some p \<Rightarrow> if pd_at doc (k, p) = In_Panel p \<or> h s k = Some p then Some p else None)"

lemma take_gauges_holds:
  assumes "holds h doc" "s = In_Dock \<or> s = In_Sheet" "taken s Gauges h doc = Some p"
  shows "\<exists>doc'. take_gauges s (Gauges, p) (slot_of Gauges (h s Gauges), doc) = (slot_of Gauges (Some p), doc')
    \<and> holds (put s Gauges (Some p) h) doc' \<and> pd_panel doc' = pd_panel doc"
proof (cases "h s Gauges = Some p")
  case True
  then have "put s Gauges (Some p) h = h" by (rule put_same)
  with True assms(1) show ?thesis by (simp add: take_gauges_def)
next
  case False
  with assms(3) have p: "pd_panel doc = Some p" "pd_at doc (Gauges, p) = In_Panel p" by (auto simp: taken_def split: option.splits if_splits)
  obtain doc' where r: "restoreGauges (slot_of Gauges (h s Gauges), doc) = (no_slot, doc')" "holds (put s Gauges None h) doc'"
    "pd_panel doc' = pd_panel doc" "\<forall>q. pd_at doc (Gauges, q) = In_Panel q \<longrightarrow> pd_at doc' (Gauges, q) = In_Panel q"
    using restore_holds [OF assms(1,2)] by blast
  with taken_holds [OF assms(1,2) p(1) False p(2) r(2-4)] False show ?thesis
    by (intro exI [of _ "move (Gauges, p) s doc'"]) (auto simp: take_gauges_def)
qed

lemma take_slot_holds:
  assumes "holds h doc" "s = In_Dock \<or> s = In_Sheet" "k \<noteq> Gauges"
  shows "\<exists>doc'. take_slot s k (slot_of k (h s k), doc) = (slot_of k (taken s k h doc), doc')
    \<and> holds (put s k (taken s k h doc) h) doc' \<and> pd_panel doc' = pd_panel doc"
proof -
  obtain doc' where r: "release (slot_of k (h s k), doc) = (no_slot, doc')" "holds (put s k None h) doc'"
    "pd_panel doc' = pd_panel doc" "\<forall>q. pd_at doc (k, q) = In_Panel q \<longrightarrow> pd_at doc' (k, q) = In_Panel q"
    using release_holds [OF assms] by blast
  have nn: "next_node s k (slot_of k (h s k), doc) = map_option (Pair k) (taken s k h doc)"
    using next_node_own [OF assms(1,2), of k] by (simp add: taken_def split: option.splits)
  show ?thesis
  proof (cases "taken s k h doc")
    case None
    with r nn show ?thesis by (simp add: take_slot_def)
  next
    case (Some p)
    show ?thesis
    proof (cases "h s k = Some p")
      case True
      then have "put s k (Some p) h = h" "move (k, p) s doc = doc" using holds_at [OF assms(1,2)] by (simp_all add: put_same)
      with True Some nn assms(1) show ?thesis by (simp add: take_slot_def)
    next
      case False
      with Some have p: "pd_panel doc = Some p" "pd_at doc (k, p) = In_Panel p" by (auto simp: taken_def split: option.splits if_splits)
      from taken_holds [OF assms(1,2) p(1) False p(2) r(2-4)] False Some nn r show ?thesis
        by (intro exI [of _ "move (k, p) s doc'"]) (auto simp: take_slot_def)
    qed
  qed
qed

subsection \<open>Holders\<close>

definition slots :: "spot \<Rightarrow> (spot \<Rightarrow> kind \<Rightarrow> nat option) \<Rightarrow> holder \<Rightarrow> bool" where
  "slots s h ho \<longleftrightarrow> ho_gauges ho = slot_of Gauges (h s Gauges) \<and> ho_star ho = slot_of Star (h s Star) \<and> ho_info ho = slot_of Info (h s Info)"

text \<open>What one step of a holder on a slot comes to.\<close>

definition moved :: "spot \<Rightarrow> (spot \<Rightarrow> kind \<Rightarrow> nat option) \<Rightarrow> holder \<times> page_dom \<Rightarrow> holder \<times> page_dom \<Rightarrow> bool" where
  "moved s h st st' \<longleftrightarrow> holds h (snd st') \<and> slots s h (fst st') \<and> pd_panel (snd st') = pd_panel (snd st)
     \<and> ho_mounted (fst st') = ho_mounted (fst st) \<and> ho_full (fst st') = ho_full (fst st)"

lemma with_gauges_moved:
  assumes "slots s h (fst st)" "\<exists>doc'. f (slot_of Gauges (h s Gauges), snd st) = (slot_of Gauges v, doc') \<and> holds (put s Gauges v h) doc' \<and> pd_panel doc' = pd_panel (snd st)"
  shows "moved s (put s Gauges v h) st (with_gauges f st)"
  using assms by (auto simp: with_gauges_def moved_def slots_def)

lemma with_star_moved:
  assumes "slots s h (fst st)" "\<exists>doc'. f (slot_of Star (h s Star), snd st) = (slot_of Star v, doc') \<and> holds (put s Star v h) doc' \<and> pd_panel doc' = pd_panel (snd st)"
  shows "moved s (put s Star v h) st (with_star f st)"
  using assms by (auto simp: with_star_def moved_def slots_def)

lemma with_info_moved:
  assumes "slots s h (fst st)" "\<exists>doc'. f (slot_of Info (h s Info), snd st) = (slot_of Info v, doc') \<and> holds (put s Info v h) doc' \<and> pd_panel doc' = pd_panel (snd st)"
  shows "moved s (put s Info v h) st (with_info f st)"
  using assms by (auto simp: with_info_def moved_def slots_def)

lemma restore_step:
  assumes "holds h (snd st)" "s = In_Dock \<or> s = In_Sheet" "slots s h (fst st)"
  shows "moved s (put s Gauges None h) st (with_gauges restoreGauges st)"
proof (rule with_gauges_moved [OF assms(3)])
  show "\<exists>doc'. restoreGauges (slot_of Gauges (h s Gauges), snd st) = (slot_of Gauges None, doc') \<and> holds (put s Gauges None h) doc'
     \<and> pd_panel doc' = pd_panel (snd st)"
    unfolding slot_of_simps(5) using restore_holds [OF assms(1,2)] by blast
qed

lemma release_star_step:
  assumes "holds h (snd st)" "s = In_Dock \<or> s = In_Sheet" "slots s h (fst st)"
  shows "moved s (put s Star None h) st (with_star release st)"
proof (rule with_star_moved [OF assms(3)])
  show "\<exists>doc'. release (slot_of Star (h s Star), snd st) = (slot_of Star None, doc') \<and> holds (put s Star None h) doc'
     \<and> pd_panel doc' = pd_panel (snd st)"
    unfolding slot_of_simps(5) using release_holds [OF assms(1,2), of Star] by blast
qed

lemma release_info_step:
  assumes "holds h (snd st)" "s = In_Dock \<or> s = In_Sheet" "slots s h (fst st)"
  shows "moved s (put s Info None h) st (with_info release st)"
proof (rule with_info_moved [OF assms(3)])
  show "\<exists>doc'. release (slot_of Info (h s Info), snd st) = (slot_of Info None, doc') \<and> holds (put s Info None h) doc'
     \<and> pd_panel doc' = pd_panel (snd st)"
    unfolding slot_of_simps(5) using release_holds [OF assms(1,2), of Info] by blast
qed

lemma take_gauges_step:
  assumes "holds h (snd st)" "s = In_Dock \<or> s = In_Sheet" "slots s h (fst st)" "taken s Gauges h (snd st) = Some p"
  shows "moved s (put s Gauges (Some p) h) st (with_gauges (take_gauges s (Gauges, p)) st)"
  by (rule with_gauges_moved [OF assms(3)]) (rule take_gauges_holds [OF assms(1,2,4)])

lemma take_star_step:
  assumes "holds h (snd st)" "s = In_Dock \<or> s = In_Sheet" "slots s h (fst st)"
  shows "moved s (put s Star (taken s Star h (snd st)) h) st (with_star (take_slot s Star) st)"
  by (rule with_star_moved [OF assms(3)]) (rule take_slot_holds [OF assms(1,2)], simp)

lemma take_info_step:
  assumes "holds h (snd st)" "s = In_Dock \<or> s = In_Sheet" "slots s h (fst st)"
  shows "moved s (put s Info (taken s Info h (snd st)) h) st (with_info (take_slot s Info) st)"
  by (rule with_info_moved [OF assms(3)]) (rule take_slot_holds [OF assms(1,2)], simp)

text \<open>A holder that is not mounted holds nothing; a mounted one holds gauges.\<close>

definition holder_ok :: "spot \<Rightarrow> (spot \<Rightarrow> kind \<Rightarrow> nat option) \<Rightarrow> holder \<Rightarrow> bool" where
  "holder_ok s h ho \<longleftrightarrow> slots s h ho \<and> (ho_mounted ho \<longleftrightarrow> h s Gauges \<noteq> None) \<and> (\<not> ho_mounted ho \<longrightarrow> h s Star = None \<and> h s Info = None)"

text \<open>A run of a holder's handler: what it ends up holding, and that it touches nothing else.\<close>

definition handled :: "spot \<Rightarrow> (spot \<Rightarrow> kind \<Rightarrow> nat option) \<Rightarrow> nat option \<Rightarrow> holder \<times> page_dom \<Rightarrow> holder \<times> page_dom \<Rightarrow> bool" where
  "handled s h g st st' \<longleftrightarrow> (\<exists>h'. holds h' (snd st') \<and> holder_ok s h' (fst st') \<and> (\<forall>s'. s' \<noteq> s \<longrightarrow> h' s' = h s') \<and> h' s Gauges = g
     \<and> (s = In_Sheet \<longrightarrow> h s Info = None \<longrightarrow> h' s Info = None)
     \<and> pd_panel (snd st') = pd_panel (snd st) \<and> ho_full (fst st') = ho_full (fst st))"

lemma set_mounted_simps [simp]:
  "snd (set_mounted b st) = snd st" "ho_mounted (fst (set_mounted b st)) = b" "ho_full (fst (set_mounted b st)) = ho_full (fst st)"
  "slots s h (fst (set_mounted b st)) = slots s h (fst st)"
  by (simp_all add: set_mounted_def slots_def)

lemma put_elsewhere: "s' \<noteq> s \<Longrightarrow> put s k v h s' = h s'"
  by (simp add: put_def)

lemma movedD: "moved s h st st' \<Longrightarrow> holds h (snd st') \<and> slots s h (fst st') \<and> pd_panel (snd st') = pd_panel (snd st) \<and> ho_full (fst st') = ho_full (fst st)"
  by (simp add: moved_def)

lemma unmounted_handled:
  assumes "holds h (snd st)" "holder_ok s h (fst st)" "\<not> ho_mounted (fst st)"
  shows "handled s h None st st"
  using assms unfolding handled_def by (intro exI [of _ h]) (simp add: holder_ok_def)

lemma dock_unmount_handled:
  assumes "holds h (snd st)" "holder_ok In_Dock h (fst st)"
  shows "handled In_Dock h None st (dock_unmount st)"
proof (cases "ho_mounted (fst st)")
  case True
  have s: "slots In_Dock h (fst st)" using assms(2) by (simp add: holder_ok_def)
  let ?h1 = "put In_Dock Gauges None h" and ?s1 = "with_gauges restoreGauges st"
  let ?h2 = "put In_Dock Star None ?h1" and ?s2 = "with_star release ?s1"
  let ?h3 = "put In_Dock Info None ?h2" and ?s3 = "with_info release ?s2"
  have m1: "moved In_Dock ?h1 st ?s1" by (rule restore_step [OF assms(1) _ s]) simp
  have m2: "moved In_Dock ?h2 ?s1 ?s2" by (rule release_star_step) (use movedD [OF m1] in simp_all)
  have m3: "moved In_Dock ?h3 ?s2 ?s3" by (rule release_info_step) (use movedD [OF m2] in simp_all)
  have "handled In_Dock h None st (set_mounted False ?s3)" unfolding handled_def
    by (rule exI [of _ ?h3]) (use movedD [OF m1] movedD [OF m2] movedD [OF m3] in \<open>simp add: holder_ok_def put_elsewhere\<close>)
  with True show ?thesis by (simp add: dock_unmount_def)
next
  case False
  with unmounted_handled [OF assms] show ?thesis by (simp add: dock_unmount_def)
qed

lemma sheet_unmount_handled:
  assumes "holds h (snd st)" "holder_ok In_Sheet h (fst st)" "h In_Sheet Info = None"
  shows "handled In_Sheet h None st (sheet_unmount st)"
proof (cases "ho_mounted (fst st)")
  case True
  have s: "slots In_Sheet h (fst st)" using assms(2) by (simp add: holder_ok_def)
  let ?h1 = "put In_Sheet Gauges None h" and ?s1 = "with_gauges restoreGauges st"
  let ?h2 = "put In_Sheet Star None ?h1" and ?s2 = "with_star release ?s1"
  have m1: "moved In_Sheet ?h1 st ?s1" by (rule restore_step [OF assms(1) _ s]) simp
  have m2: "moved In_Sheet ?h2 ?s1 ?s2" by (rule release_star_step) (use movedD [OF m1] in simp_all)
  have "handled In_Sheet h None st (set_mounted False ?s2)" unfolding handled_def
    by (rule exI [of _ ?h2]) (use movedD [OF m1] movedD [OF m2] assms(3) in \<open>simp add: holder_ok_def put_elsewhere\<close>)
  with True show ?thesis by (simp add: sheet_unmount_def)
next
  case False
  with unmounted_handled [OF assms(1,2)] show ?thesis by (simp add: sheet_unmount_def)
qed

lemma next_gauges:
  assumes "holds h (snd st)" "s = In_Dock \<or> s = In_Sheet" "slots s h (fst st)"
  shows "next_node s Gauges (ho_gauges (fst st), snd st) = map_option (Pair Gauges) (taken s Gauges h (snd st))"
proof -
  have "ho_gauges (fst st) = slot_of Gauges (h s Gauges)" using assms(3) by (simp add: slots_def)
  then show ?thesis using next_node_own [OF assms(1,2), of Gauges] by (simp add: taken_def split: option.splits)
qed

lemma dock_sync_handled:
  assumes "holds h (snd st)" "holder_ok In_Dock h (fst st)"
  shows "handled In_Dock h (if ho_full (fst st) \<or> \<not> wide then None else taken In_Dock Gauges h (snd st)) st (dock_sync wide st)"
proof (cases "taken In_Dock Gauges h (snd st)")
  case None
  have s: "slots In_Dock h (fst st)" using assms(2) by (simp add: holder_ok_def)
  have "next_node In_Dock Gauges (ho_gauges (fst st), snd st) = None" using next_gauges [OF assms(1) _ s] None by simp
  with dock_unmount_handled [OF assms] None show ?thesis by (simp add: dock_sync_def)
next
  case (Some p)
  have s: "slots In_Dock h (fst st)" using assms(2) by (simp add: holder_ok_def)
  have n: "next_node In_Dock Gauges (ho_gauges (fst st), snd st) = Some (Gauges, p)" using next_gauges [OF assms(1) _ s] Some by simp
  show ?thesis
  proof (cases "ho_full (fst st) \<or> \<not> wide")
    case True
    with dock_unmount_handled [OF assms] n show ?thesis by (simp add: dock_sync_def)
  next
    case False
    let ?h1 = "put In_Dock Gauges (Some p) h" and ?s1 = "with_gauges (take_gauges In_Dock (Gauges, p)) st"
    let ?h2 = "put In_Dock Star (taken In_Dock Star ?h1 (snd ?s1)) ?h1" and ?s2 = "with_star (take_slot In_Dock Star) ?s1"
    let ?h3 = "put In_Dock Info (taken In_Dock Info ?h2 (snd ?s2)) ?h2" and ?s3 = "with_info (take_slot In_Dock Info) ?s2"
    have m1: "moved In_Dock ?h1 st ?s1" by (rule take_gauges_step [OF assms(1) _ s Some]) simp
    have m2: "moved In_Dock ?h2 ?s1 ?s2" by (rule take_star_step) (use movedD [OF m1] in simp_all)
    have m3: "moved In_Dock ?h3 ?s2 ?s3" by (rule take_info_step) (use movedD [OF m2] in simp_all)
    have "handled In_Dock h (Some p) st (set_mounted True ?s3)" unfolding handled_def
      by (rule exI [of _ ?h3]) (use movedD [OF m1] movedD [OF m2] movedD [OF m3] in \<open>simp add: holder_ok_def put_elsewhere\<close>)
    with False n Some show ?thesis by (simp add: dock_sync_def)
  qed
qed

lemma sheet_sync_handled:
  assumes "holds h (snd st)" "holder_ok In_Sheet h (fst st)" "h In_Sheet Info = None"
  shows "handled In_Sheet h (if ho_full (fst st) then taken In_Sheet Gauges h (snd st) else None) st (sheet_sync st)"
proof (cases "taken In_Sheet Gauges h (snd st)")
  case None
  have s: "slots In_Sheet h (fst st)" using assms(2) by (simp add: holder_ok_def)
  have "next_node In_Sheet Gauges (ho_gauges (fst st), snd st) = None" using next_gauges [OF assms(1) _ s] None by simp
  with sheet_unmount_handled [OF assms] None show ?thesis by (simp add: sheet_sync_def)
next
  case (Some p)
  have s: "slots In_Sheet h (fst st)" using assms(2) by (simp add: holder_ok_def)
  have n: "next_node In_Sheet Gauges (ho_gauges (fst st), snd st) = Some (Gauges, p)" using next_gauges [OF assms(1) _ s] Some by simp
  show ?thesis
  proof (cases "ho_full (fst st)")
    case False
    with sheet_unmount_handled [OF assms] n show ?thesis by (simp add: sheet_sync_def)
  next
    case True
    let ?h1 = "put In_Sheet Gauges (Some p) h" and ?s1 = "with_gauges (take_gauges In_Sheet (Gauges, p)) st"
    let ?h2 = "put In_Sheet Star (taken In_Sheet Star ?h1 (snd ?s1)) ?h1" and ?s2 = "with_star (take_slot In_Sheet Star) ?s1"
    have m1: "moved In_Sheet ?h1 st ?s1" by (rule take_gauges_step [OF assms(1) _ s Some]) simp
    have m2: "moved In_Sheet ?h2 ?s1 ?s2" by (rule take_star_step) (use movedD [OF m1] in simp_all)
    have "handled In_Sheet h (Some p) st (set_mounted True ?s2)" unfolding handled_def
      by (rule exI [of _ ?h2]) (use movedD [OF m1] movedD [OF m2] assms(3) in \<open>simp add: holder_ok_def put_elsewhere\<close>)
    with True n Some show ?thesis by (simp add: sheet_sync_def)
  qed
qed

subsection \<open>The frame\<close>

lemma on_dock_simps [simp]:
  "fr_sheet (on_dock f d) = fr_sheet d" "fr_wide (on_dock f d) = fr_wide d" "fr_api (on_dock f d) = fr_api d"
  "fr_native (on_dock f d) = fr_native d" "fr_faux (on_dock f d) = fr_faux d" "fr_body_mark (on_dock f d) = fr_body_mark d"
  "fr_pressed (on_dock f d) = fr_pressed d" "fr_key_inside (on_dock f d) = fr_key_inside d" "fr_rows_inside (on_dock f d) = fr_rows_inside d"
  "fr_dock (on_dock f d) = fst (f (fr_dock d, fr_dom d))" "fr_dom (on_dock f d) = snd (f (fr_dock d, fr_dom d))"
  by (simp_all add: on_dock_def case_prod_unfold)

lemma on_sheet_simps [simp]:
  "fr_dock (on_sheet f d) = fr_dock d" "fr_wide (on_sheet f d) = fr_wide d" "fr_api (on_sheet f d) = fr_api d"
  "fr_native (on_sheet f d) = fr_native d" "fr_faux (on_sheet f d) = fr_faux d" "fr_body_mark (on_sheet f d) = fr_body_mark d"
  "fr_pressed (on_sheet f d) = fr_pressed d" "fr_key_inside (on_sheet f d) = fr_key_inside d" "fr_rows_inside (on_sheet f d) = fr_rows_inside d"
  "fr_sheet (on_sheet f d) = fst (f (fr_sheet d, fr_dom d))" "fr_dom (on_sheet f d) = snd (f (fr_sheet d, fr_dom d))"
  by (simp_all add: on_sheet_def case_prod_unfold)

lemma view_simps [simp]:
  "fr_dom (bring_into_view on d) = fr_dom d" "fr_dock (bring_into_view on d) = fr_dock d" "fr_sheet (bring_into_view on d) = fr_sheet d"
  "fr_wide (bring_into_view on d) = fr_wide d" "fr_native (bring_into_view on d) = fr_native d" "fr_faux (bring_into_view on d) = fr_faux d"
  "fr_body_mark (bring_into_view on d) = fr_body_mark d" "fr_pressed (bring_into_view on d) = fr_pressed d"
  "fr_key_inside (bring_into_view on d) = fr_key_inside d" "fr_rows_inside (bring_into_view on d) = fr_rows_inside d"
  by (simp_all add: bring_into_view_def)

definition core :: "(spot \<Rightarrow> kind \<Rightarrow> nat option) \<Rightarrow> frame \<Rightarrow> bool" where
  "core h d \<longleftrightarrow> holds h (fr_dom d) \<and> holder_ok In_Dock h (fr_dock d) \<and> holder_ok In_Sheet h (fr_sheet d) \<and> h In_Sheet Info = None"

lemma holder_ok_elsewhere: "holder_ok s h ho \<Longrightarrow> h' s = h s \<Longrightarrow> holder_ok s h' ho"
  by (simp add: holder_ok_def slots_def)

lemma core_dock:
  assumes "core h d" "handled In_Dock h g (fr_dock d, fr_dom d) (f (fr_dock d, fr_dom d))"
  obtains h' where "core h' (on_dock f d)" "h' In_Dock Gauges = g" "h' In_Sheet = h In_Sheet"
    "ho_full (fr_dock (on_dock f d)) = ho_full (fr_dock d)" "pd_panel (fr_dom (on_dock f d)) = pd_panel (fr_dom d)"
proof -
  obtain h' where h': "holds h' (snd (f (fr_dock d, fr_dom d)))" "holder_ok In_Dock h' (fst (f (fr_dock d, fr_dom d)))"
    "\<forall>s'. s' \<noteq> In_Dock \<longrightarrow> h' s' = h s'" "h' In_Dock Gauges = g"
    "pd_panel (snd (f (fr_dock d, fr_dom d))) = pd_panel (fr_dom d)" "ho_full (fst (f (fr_dock d, fr_dom d))) = ho_full (fr_dock d)"
    using assms(2) unfolding handled_def by auto
  then have sheet: "h' In_Sheet = h In_Sheet" by simp
  have "core h' (on_dock f d)" using assms(1) h' sheet holder_ok_elsewhere [of In_Sheet h "fr_sheet d" h'] by (simp add: core_def)
  then show thesis by (rule that) (use h' sheet in simp_all)
qed

lemma core_sheet:
  assumes "core h d" "handled In_Sheet h g (fr_sheet d, fr_dom d) (f (fr_sheet d, fr_dom d))"
  obtains h' where "core h' (on_sheet f d)" "h' In_Sheet Gauges = g" "h' In_Dock = h In_Dock"
    "ho_full (fr_sheet (on_sheet f d)) = ho_full (fr_sheet d)" "pd_panel (fr_dom (on_sheet f d)) = pd_panel (fr_dom d)"
proof -
  obtain h' where h': "holds h' (snd (f (fr_sheet d, fr_dom d)))" "holder_ok In_Sheet h' (fst (f (fr_sheet d, fr_dom d)))"
    "\<forall>s'. s' \<noteq> In_Sheet \<longrightarrow> h' s' = h s'" "h' In_Sheet Gauges = g" "h In_Sheet Info = None \<longrightarrow> h' In_Sheet Info = None"
    "pd_panel (snd (f (fr_sheet d, fr_dom d))) = pd_panel (fr_dom d)" "ho_full (fst (f (fr_sheet d, fr_dom d))) = ho_full (fr_sheet d)"
    using assms(2) unfolding handled_def by auto
  then have dock: "h' In_Dock = h In_Dock" by simp
  have "core h' (on_sheet f d)" using assms(1) h' dock holder_ok_elsewhere [of In_Dock h "fr_dock d" h'] by (simp add: core_def)
  then show thesis by (rule that) (use h' dock in simp_all)
qed

lemma core_sync_dock:
  assumes "core h d"
  shows "handled In_Dock h (if ho_full (fr_dock d) \<or> \<not> fr_wide d then None else taken In_Dock Gauges h (fr_dom d))
    (fr_dock d, fr_dom d) (dock_sync (fr_wide d) (fr_dock d, fr_dom d))"
proof -
  have "holds h (snd (fr_dock d, fr_dom d))" "holder_ok In_Dock h (fst (fr_dock d, fr_dom d))" using assms(1) by (simp_all add: core_def)
  from dock_sync_handled [OF this, of "fr_wide d"] show ?thesis unfolding fst_conv snd_conv .
qed

lemma core_sync_sheet:
  assumes "core h d"
  shows "handled In_Sheet h (if ho_full (fr_sheet d) then taken In_Sheet Gauges h (fr_dom d) else None)
    (fr_sheet d, fr_dom d) (sheet_sync (fr_sheet d, fr_dom d))"
proof -
  have "holds h (snd (fr_sheet d, fr_dom d))" "holder_ok In_Sheet h (fst (fr_sheet d, fr_dom d))" "h In_Sheet Info = None"
    using assms(1) by (simp_all add: core_def)
  from sheet_sync_handled [OF this] show ?thesis unfolding fst_conv snd_conv .
qed

text \<open>Docked readings need a wide page and no full screen, readings in the sheet need full screen.\<close>

definition dock_fits :: "(spot \<Rightarrow> kind \<Rightarrow> nat option) \<Rightarrow> frame \<Rightarrow> bool" where
  "dock_fits h d \<longleftrightarrow> (h In_Dock Gauges \<noteq> None \<longrightarrow> fr_wide d \<and> \<not> ho_full (fr_dock d))"

definition sheet_fits :: "(spot \<Rightarrow> kind \<Rightarrow> nat option) \<Rightarrow> frame \<Rightarrow> bool" where
  "sheet_fits h d \<longleftrightarrow> (h In_Sheet Gauges \<noteq> None \<longrightarrow> ho_full (fr_sheet d))"

definition tidy :: "frame \<Rightarrow> bool" where
  "tidy d \<longleftrightarrow> (\<exists>h. core h d \<and> dock_fits h d \<and> sheet_fits h d)"

lemma tidy_sync_dock:
  assumes "core h d" "sheet_fits h d"
  shows "tidy (on_dock (dock_sync (fr_wide d)) d) \<and> ho_full (fr_dock (on_dock (dock_sync (fr_wide d)) d)) = ho_full (fr_dock d)"
proof -
  let ?g = "if ho_full (fr_dock d) \<or> \<not> fr_wide d then None else taken In_Dock Gauges h (fr_dom d)"
  have "handled In_Dock h ?g (fr_dock d, fr_dom d) (dock_sync (fr_wide d) (fr_dock d, fr_dom d))"
    by (rule core_sync_dock [OF assms(1)])
  then obtain h' where h': "core h' (on_dock (dock_sync (fr_wide d)) d)" "h' In_Dock Gauges = ?g" "h' In_Sheet = h In_Sheet"
    "ho_full (fr_dock (on_dock (dock_sync (fr_wide d)) d)) = ho_full (fr_dock d)" by (rule core_dock [OF assms(1)])
  have "dock_fits h' (on_dock (dock_sync (fr_wide d)) d)" using h'(2,4) by (simp add: dock_fits_def)
  moreover have "sheet_fits h' (on_dock (dock_sync (fr_wide d)) d)" using assms(2) h'(3) by (simp add: sheet_fits_def)
  ultimately show ?thesis using h'(1,4) unfolding tidy_def by blast
qed

lemma tidy_sync_sheet:
  assumes "core h d" "dock_fits h d"
  shows "tidy (on_sheet sheet_sync d) \<and> ho_full (fr_sheet (on_sheet sheet_sync d)) = ho_full (fr_sheet d)"
proof -
  let ?g = "if ho_full (fr_sheet d) then taken In_Sheet Gauges h (fr_dom d) else None"
  have "handled In_Sheet h ?g (fr_sheet d, fr_dom d) (sheet_sync (fr_sheet d, fr_dom d))"
    by (rule core_sync_sheet [OF assms(1)])
  then obtain h' where h': "core h' (on_sheet sheet_sync d)" "h' In_Sheet Gauges = ?g" "h' In_Dock = h In_Dock"
    "ho_full (fr_sheet (on_sheet sheet_sync d)) = ho_full (fr_sheet d)" by (rule core_sheet [OF assms(1)])
  have "sheet_fits h' (on_sheet sheet_sync d)" using h'(2,4) by (simp add: sheet_fits_def)
  moreover have "dock_fits h' (on_sheet sheet_sync d)" using assms(2) h'(3) by (simp add: dock_fits_def)
  ultimately show ?thesis using h'(1,4) unfolding tidy_def by blast
qed

lemma tidy_close_dock:
  assumes "tidy d"
  shows "tidy (on_dock dock_unmount d) \<and> ho_full (fr_dock (on_dock dock_unmount d)) = ho_full (fr_dock d)"
proof -
  obtain h where h: "core h d" "sheet_fits h d" using assms by (auto simp: tidy_def)
  have "handled In_Dock h None (fr_dock d, fr_dom d) (dock_unmount (fr_dock d, fr_dom d))"
    using dock_unmount_handled [of h "(fr_dock d, fr_dom d)"] h(1) by (simp add: core_def)
  then obtain h' where h': "core h' (on_dock dock_unmount d)" "h' In_Dock Gauges = None" "h' In_Sheet = h In_Sheet"
    "ho_full (fr_dock (on_dock dock_unmount d)) = ho_full (fr_dock d)" by (rule core_dock [OF h(1)])
  moreover have "dock_fits h' (on_dock dock_unmount d)" using h'(2) by (simp add: dock_fits_def)
  moreover have "sheet_fits h' (on_dock dock_unmount d)" using h(2) h'(3) by (simp add: sheet_fits_def)
  ultimately show ?thesis unfolding tidy_def by blast
qed

lemma tidy_close_sheet:
  assumes "tidy d"
  shows "tidy (on_sheet sheet_unmount d) \<and> ho_full (fr_sheet (on_sheet sheet_unmount d)) = ho_full (fr_sheet d)"
proof -
  obtain h where h: "core h d" "dock_fits h d" using assms by (auto simp: tidy_def)
  have "handled In_Sheet h None (fr_sheet d, fr_dom d) (sheet_unmount (fr_sheet d, fr_dom d))"
    using sheet_unmount_handled [of h "(fr_sheet d, fr_dom d)"] h(1) by (simp add: core_def)
  then obtain h' where h': "core h' (on_sheet sheet_unmount d)" "h' In_Sheet Gauges = None" "h' In_Dock = h In_Dock"
    "ho_full (fr_sheet (on_sheet sheet_unmount d)) = ho_full (fr_sheet d)" by (rule core_sheet [OF h(1)])
  moreover have "sheet_fits h' (on_sheet sheet_unmount d)" using h'(2) by (simp add: sheet_fits_def)
  moreover have "dock_fits h' (on_sheet sheet_unmount d)" using h(2) h'(3) by (simp add: dock_fits_def)
  ultimately show ?thesis unfolding tidy_def by blast
qed

lemma setFull_eqs:
  "dock_setFull on d = on_dock (dock_sync (fr_wide d)) (d\<lparr>fr_dock := (fr_dock d)\<lparr>ho_full := on\<rparr>\<rparr>)"
  "sheet_setFull on d = bring_into_view on (on_sheet sheet_sync (d\<lparr>fr_sheet := (fr_sheet d)\<lparr>ho_full := on\<rparr>\<rparr>))"
  by (simp_all add: dock_setFull_def sheet_setFull_def on_dock_def on_sheet_def case_prod_unfold)

lemma holder_ok_full [simp]: "holder_ok s h (ho\<lparr>ho_full := b\<rparr>) = holder_ok s h ho"
  by (simp add: holder_ok_def slots_def)

lemma tidy_dock_setFull: "tidy d \<Longrightarrow> tidy (dock_setFull on d) \<and> ho_full (fr_dock (dock_setFull on d)) = on"
proof -
  assume "tidy d"
  then obtain h where "core h d" "sheet_fits h d" by (auto simp: tidy_def)
  with tidy_sync_dock [of h "d\<lparr>fr_dock := (fr_dock d)\<lparr>ho_full := on\<rparr>\<rparr>"] show ?thesis
    by (simp add: setFull_eqs core_def sheet_fits_def)
qed

lemma tidy_view [simp]: "tidy (bring_into_view on d) = tidy d"
  by (simp add: tidy_def core_def dock_fits_def sheet_fits_def)

lemma tidy_sheet_setFull: "tidy d \<Longrightarrow> tidy (sheet_setFull on d) \<and> ho_full (fr_sheet (sheet_setFull on d)) = on"
proof -
  assume "tidy d"
  then obtain h where "core h d" "dock_fits h d" by (auto simp: tidy_def)
  with tidy_sync_sheet [of h "d\<lparr>fr_sheet := (fr_sheet d)\<lparr>ho_full := on\<rparr>\<rparr>"] show ?thesis
    by (simp add: setFull_eqs core_def dock_fits_def)
qed

text \<open>The button, the dock, the sheet and what rides along agree.\<close>

definition agreed :: "frame \<Rightarrow> bool" where
  "agreed d \<longleftrightarrow> fr_pressed d = ho_full (fr_dock d) \<and> fr_pressed d = ho_full (fr_sheet d) \<and> fr_pressed d = fr_key_inside d
     \<and> fr_pressed d = fr_rows_inside d \<and> fr_body_mark d = fr_faux d"

lemma setFull_simps [simp]:
  "fr_pressed (dock_setFull on d) = fr_pressed d" "fr_key_inside (dock_setFull on d) = fr_key_inside d" "fr_rows_inside (dock_setFull on d) = fr_rows_inside d"
  "fr_body_mark (dock_setFull on d) = fr_body_mark d" "fr_faux (dock_setFull on d) = fr_faux d" "fr_native (dock_setFull on d) = fr_native d"
  "fr_sheet (dock_setFull on d) = fr_sheet d" "fr_wide (dock_setFull on d) = fr_wide d"
  "fr_pressed (sheet_setFull on d) = fr_pressed d" "fr_key_inside (sheet_setFull on d) = fr_key_inside d" "fr_rows_inside (sheet_setFull on d) = fr_rows_inside d"
  "fr_body_mark (sheet_setFull on d) = fr_body_mark d" "fr_faux (sheet_setFull on d) = fr_faux d" "fr_native (sheet_setFull on d) = fr_native d"
  "fr_dock (sheet_setFull on d) = fr_dock d" "fr_wide (sheet_setFull on d) = fr_wide d"
  by (simp_all add: setFull_eqs)

lemma paint_ok:
  assumes "tidy d" "fr_body_mark d = fr_faux d"
  shows "tidy (paint_full d) \<and> agreed (paint_full d) \<and> fr_pressed (paint_full d) = isFull (paint_full d)"
proof -
  define d1 where "d1 = d\<lparr>fr_pressed := isFull d, fr_key_inside := isFull d, fr_rows_inside := isFull d\<rparr>"
  have d1: "tidy d1" "fr_pressed d1 = isFull d" "fr_key_inside d1 = isFull d" "fr_rows_inside d1 = isFull d"
    "fr_body_mark d1 = fr_faux d1" "fr_native d1 = fr_native d" "fr_faux d1 = fr_faux d"
    using assms by (simp_all add: d1_def tidy_def core_def dock_fits_def sheet_fits_def)
  have p: "paint_full d = (if isFull d then sheet_setFull True (dock_setFull True d1) else dock_setFull False (sheet_setFull False d1))"
    by (simp add: paint_full_def onChange_def d1_def Let_def)
  show ?thesis
  proof (cases "isFull d")
    case True
    note dock = tidy_dock_setFull [OF d1(1), of True]
    from tidy_sheet_setFull [of "dock_setFull True d1" True] dock d1 True show ?thesis
      unfolding p by (simp add: agreed_def isFull_def)
  next
    case False
    note sheet = tidy_sheet_setFull [OF d1(1), of False]
    from tidy_dock_setFull [of "sheet_setFull False d1" False] sheet d1 False show ?thesis
      unfolding p by (simp add: agreed_def isFull_def)
  qed
qed

lemma tidy_same:
  "fr_dom d' = fr_dom d \<Longrightarrow> fr_dock d' = fr_dock d \<Longrightarrow> fr_sheet d' = fr_sheet d \<Longrightarrow> fr_wide d' = fr_wide d \<Longrightarrow> tidy d' = tidy d"
  by (simp add: tidy_def core_def dock_fits_def sheet_fits_def)

definition frame_inv :: "frame \<Rightarrow> bool" where
  "frame_inv d \<longleftrightarrow> tidy d \<and> agreed d"

lemma inv_paint: "frame_inv d \<Longrightarrow> frame_inv (paint_full d)"
proof -
  assume d: "frame_inv d"
  then have "fr_body_mark d = fr_faux d" by (simp only: frame_inv_def agreed_def)
  with d paint_ok show ?thesis unfolding frame_inv_def by blast
qed

lemma inv_exit: "frame_inv d \<Longrightarrow> frame_inv (exit_full d)"
proof -
  let ?d = "d\<lparr>fr_faux := False, fr_body_mark := False\<rparr>"
  assume "frame_inv d"
  moreover have "tidy ?d = tidy d" by (rule tidy_same) simp_all
  ultimately show ?thesis using paint_ok [of ?d] unfolding frame_inv_def exit_full_def by simp
qed

lemma inv_faux: "frame_inv d \<Longrightarrow> frame_inv (faux d)"
proof -
  let ?d = "d\<lparr>fr_faux := True, fr_body_mark := True\<rparr>"
  assume "frame_inv d"
  moreover have "tidy ?d = tidy d" by (rule tidy_same) simp_all
  ultimately show ?thesis using paint_ok [of ?d] unfolding frame_inv_def faux_def by simp
qed

lemma inv_click: "frame_inv d \<Longrightarrow> frame_inv (click_full d)"
  by (simp add: click_full_def enter_full_def inv_exit inv_faux)

text \<open>A handler of the dock or the sheet leaves the agreement as it is.\<close>

lemma inv_on_dock: "frame_inv d \<Longrightarrow> tidy (on_dock f d) \<and> ho_full (fr_dock (on_dock f d)) = ho_full (fr_dock d) \<Longrightarrow> frame_inv (on_dock f d)"
  unfolding frame_inv_def agreed_def by auto

lemma inv_on_sheet: "frame_inv d \<Longrightarrow> tidy (on_sheet f d) \<and> ho_full (fr_sheet (on_sheet f d)) = ho_full (fr_sheet d) \<Longrightarrow> frame_inv (on_sheet f d)"
  unfolding frame_inv_def agreed_def by auto

lemma inv_close_dock: "frame_inv d \<Longrightarrow> frame_inv (on_dock dock_unmount d)"
  by (rule inv_on_dock, assumption, rule tidy_close_dock) (simp add: frame_inv_def)

lemma inv_close_sheet: "frame_inv d \<Longrightarrow> frame_inv (on_sheet sheet_unmount d)"
  by (rule inv_on_sheet, assumption, rule tidy_close_sheet) (simp add: frame_inv_def)

lemma inv_sync_sheet: "frame_inv d \<Longrightarrow> frame_inv (on_sheet sheet_sync d)"
proof -
  assume d: "frame_inv d"
  then obtain h where "core h d" "dock_fits h d" by (auto simp: frame_inv_def tidy_def)
  from inv_on_sheet [OF d tidy_sync_sheet [OF this]] show ?thesis .
qed

lemma inv_sync_dock: "frame_inv d \<Longrightarrow> frame_inv (on_dock (dock_sync w) (d\<lparr>fr_wide := w\<rparr>))"
proof -
  let ?d = "d\<lparr>fr_wide := w\<rparr>"
  assume d: "frame_inv d"
  then obtain h where h: "core h d" "sheet_fits h d" by (auto simp: frame_inv_def tidy_def)
  then have "core h ?d" "sheet_fits h ?d" by (simp_all add: core_def sheet_fits_def)
  from tidy_sync_dock [OF this] d show ?thesis unfolding frame_inv_def agreed_def by auto
qed

text \<open>Rendering a panel afresh, and taking the panel off the page.\<close>

lemma holds_render: "holds h doc \<Longrightarrow> holds h (render_panel star doc)"
proof -
  assume h: "holds h doc"
  let ?p = "pd_next doc"
  have fresh: "pd_at doc n = Absent" if "?p \<le> snd n" for n using h that unfolding holds_def doc_ok_def by blast
  have "placed s k (h s k) (render_panel star doc)" if s: "s = In_Dock \<or> s = In_Sheet" for s k
  proof -
    have old: "placed s k (h s k) doc" using h s by (rule holds_placed) simp
    have "pd_at (render_panel star doc) (k, q) = s \<longleftrightarrow> pd_at doc (k, q) = s" for q
      using fresh [of "(k, q)"] s by (auto simp: render_panel_def Let_def)
    with old show ?thesis by (simp add: placed_def)
  qed
  moreover have "doc_ok (render_panel star doc)"
  proof -
    have ok: "\<And>m p. pd_at doc m = In_Panel p \<Longrightarrow> p = snd m"
      "\<And>m. pd_at doc m = Removed \<Longrightarrow> fst m \<noteq> Gauges \<and> snd m \<noteq> ?p"
      "\<And>q. q < ?p \<Longrightarrow> pd_at doc (Gauges, q) \<noteq> Absent"
    proof -
      show "\<And>m p. pd_at doc m = In_Panel p \<Longrightarrow> p = snd m" "\<And>q. q < ?p \<Longrightarrow> pd_at doc (Gauges, q) \<noteq> Absent"
        using h unfolding holds_def doc_ok_def by blast+
      fix m assume r: "pd_at doc m = Removed"
      then have "snd m \<noteq> ?p" using fresh [of m] by auto
      with r h show "fst m \<noteq> Gauges \<and> snd m \<noteq> ?p" unfolding holds_def doc_ok_def by blast
    qed
    let ?at = "pd_at (render_panel star doc)"
    have at: "?at m = (if snd m = ?p \<and> (fst m = Star \<longrightarrow> star) then In_Panel ?p else pd_at doc m)" for m by (simp add: render_panel_def Let_def)
    show ?thesis unfolding doc_ok_def at
    proof (intro conjI allI impI)
      fix m :: node and p assume "(if snd m = ?p \<and> (fst m = Star \<longrightarrow> star) then In_Panel ?p else pd_at doc m) = In_Panel p"
      then show "p = snd m" using ok(1) by (simp split: if_splits)
    next
      fix m :: node assume "pd_next (render_panel star doc) \<le> snd m"
      then show "(if snd m = ?p \<and> (fst m = Star \<longrightarrow> star) then In_Panel ?p else pd_at doc m) = Absent"
        using fresh [of m] by (simp add: render_panel_def Let_def)
    next
      fix m :: node assume "(if snd m = ?p \<and> (fst m = Star \<longrightarrow> star) then In_Panel ?p else pd_at doc m) = Removed"
      then have "pd_at doc m = Removed" by (simp split: if_splits)
      from ok(2) [OF this] show "fst m \<noteq> Gauges" "pd_panel (render_panel star doc) \<noteq> Some (snd m)"
        by (simp_all add: render_panel_def Let_def eq_commute)
    next
      fix q assume "q < pd_next (render_panel star doc)"
      then show "(if snd (Gauges, q) = ?p \<and> (fst (Gauges, q) = Star \<longrightarrow> star) then In_Panel ?p else pd_at doc (Gauges, q)) \<noteq> Absent"
        using ok(3) [of q] by (auto simp: render_panel_def Let_def less_Suc_eq)
    next
      fix p assume "pd_panel (render_panel star doc) = Some p"
      then show "p < pd_next (render_panel star doc)" by (simp add: render_panel_def Let_def)
    qed
  qed
  ultimately show ?thesis by (simp add: holds_def)
qed

lemma holds_teardown: "holds h doc \<Longrightarrow> holds h (teardown_panel doc)"
  by (simp add: holds_def placed_def doc_ok_def teardown_panel_def)

lemma inv_dom: "frame_inv d \<Longrightarrow> (\<And>h. holds h (fr_dom d) \<Longrightarrow> holds h doc) \<Longrightarrow> frame_inv (d\<lparr>fr_dom := doc\<rparr>)"
  unfolding frame_inv_def tidy_def core_def dock_fits_def sheet_fits_def agreed_def by auto

lemma inv_field: "frame_inv d \<Longrightarrow> frame_inv (d\<lparr>fr_native := b\<rparr>)" "frame_inv d \<Longrightarrow> frame_inv (d\<lparr>fr_scroll := b\<rparr>)"
  unfolding frame_inv_def tidy_def core_def dock_fits_def sheet_fits_def agreed_def by auto

lemma inv_frame_step: "frame_inv d \<Longrightarrow> frame_inv (frame_step e d)"
proof (cases e)
  case Sync_Dock
  assume "frame_inv d"
  then show ?thesis using Sync_Dock inv_sync_dock [of d "fr_wide d"] by simp
qed (simp_all add: inv_dom holds_render holds_teardown inv_sync_sheet inv_sync_dock inv_click inv_field inv_paint inv_faux
  click_history_def press_escape_def inv_close_dock inv_close_sheet inv_exit Let_def)

lemma inv_init_frame: "frame_inv (init_frame wide api)"
proof -
  have "core (\<lambda>_ _. None) (init_frame wide api)"
    by (simp add: core_def holds_def placed_def doc_ok_def holder_ok_def slots_def init_frame_def no_holder_def)
  then have "tidy (init_frame wide api)" unfolding tidy_def by (intro exI [of _ "\<lambda>_ _. None"]) (simp add: dock_fits_def sheet_fits_def)
  then show ?thesis by (simp add: frame_inv_def agreed_def init_frame_def no_holder_def)
qed

lemma inv_frame_run: "frame_inv (frame_run wide api evs)"
proof -
  have "frame_inv d \<Longrightarrow> frame_inv (fold frame_step evs d)" for d by (induction evs arbitrary: d) (simp_all add: inv_frame_step)
  then show ?thesis by (simp add: frame_run_def inv_init_frame)
qed

text \<open>Where a node of the panel on the page can stand.\<close>

lemma node_spots:
  assumes "core h d" "pd_panel (fr_dom d) = Some p"
  shows "pd_at (fr_dom d) (k, p) \<in> {In_Panel p, Absent} \<or> (pd_at (fr_dom d) (k, p) = In_Dock \<and> h In_Dock k = Some p)
    \<or> (pd_at (fr_dom d) (k, p) = In_Sheet \<and> h In_Sheet k = Some p)" "pd_at (fr_dom d) (Gauges, p) \<noteq> Absent"
proof -
  let ?at = "pd_at (fr_dom d) (k, p)"
  have h: "holds h (fr_dom d)" using assms(1) by (simp add: core_def)
  then have ok: "doc_ok (fr_dom d)" by (simp add: holds_def)
  show "pd_at (fr_dom d) (Gauges, p) \<noteq> Absent" using ok assms(2) unfolding doc_ok_def by blast
  have "?at = In_Panel q \<Longrightarrow> q = p" for q using ok unfolding doc_ok_def by (metis snd_conv)
  moreover have "?at \<noteq> Removed" using ok assms(2) unfolding doc_ok_def by (metis snd_conv)
  moreover note holds_at [OF h, of In_Dock k p] holds_at [OF h, of In_Sheet k p]
  ultimately show "?at \<in> {In_Panel p, Absent} \<or> (?at = In_Dock \<and> h In_Dock k = Some p) \<or> (?at = In_Sheet \<and> h In_Sheet k = Some p)"
    by (cases ?at) auto
qed

lemma gauges_taken:
  assumes "core h d" "pd_panel (fr_dom d) = Some p" "s = In_Dock \<or> s = In_Sheet" "\<And>s'. s' = In_Dock \<or> s' = In_Sheet \<Longrightarrow> s' \<noteq> s \<Longrightarrow> h s' Gauges = None"
  shows "taken s Gauges h (fr_dom d) = Some p"
  using node_spots(1) [OF assms(1,2), of Gauges] node_spots(2) [OF assms(1,2)] assms(2-4) by (auto simp: taken_def)

lemma gauges_at: "core h d \<Longrightarrow> s = In_Dock \<or> s = In_Sheet \<Longrightarrow> h s Gauges = Some p \<Longrightarrow> pd_at (fr_dom d) (Gauges, p) = s"
  using holds_at [of h "fr_dom d" s Gauges p] by (simp add: core_def)

section \<open>Properties\<close>

text \<open>C27. However panels come and go, the window is resized, full screen is entered, refused and left,
  and things are dismissed, the open sensor's readings have one home: its gauges stand in their
  panel, or in the dock of a wide page that is not full screen, or in the sheet of one that is; dock
  and sheet are never both open, a button moved along is never lost, all is back in the panel when
  neither is open, and the fullscreen button, the key and the overlay rows agree with them.\<close>

theorem readings_have_one_home:
  assumes "d = frame_run wide api evs" "pd_panel (fr_dom d) = Some p"
  shows "(pd_at (fr_dom d) (Gauges, p) = In_Panel p
        \<or> pd_at (fr_dom d) (Gauges, p) = In_Dock \<and> ho_mounted (fr_dock d) \<and> fr_wide d \<and> \<not> fr_pressed d
        \<or> pd_at (fr_dom d) (Gauges, p) = In_Sheet \<and> ho_mounted (fr_sheet d) \<and> fr_pressed d)
    \<and> \<not> (ho_mounted (fr_dock d) \<and> ho_mounted (fr_sheet d)) \<and> (\<forall>k. pd_at (fr_dom d) (k, p) \<noteq> Removed)
    \<and> (ho_mounted (fr_dock d) \<or> ho_mounted (fr_sheet d) \<or> (\<forall>k. pd_at (fr_dom d) (k, p) = In_Panel p \<or> pd_at (fr_dom d) (k, p) = Absent))
    \<and> fr_key_inside d = fr_pressed d \<and> fr_rows_inside d = fr_pressed d \<and> fr_body_mark d = fr_faux d"
proof -
  have inv: "frame_inv d" unfolding assms(1) by (rule inv_frame_run)
  then obtain h where h: "core h d" "dock_fits h d" "sheet_fits h d" and agree: "agreed d" by (auto simp: frame_inv_def tidy_def)
  have dock: "ho_mounted (fr_dock d) \<longleftrightarrow> h In_Dock Gauges \<noteq> None" "\<not> ho_mounted (fr_dock d) \<Longrightarrow> h In_Dock k = None" for k
    using h(1) by (cases k; simp add: core_def holder_ok_def)+
  have sheet: "ho_mounted (fr_sheet d) \<longleftrightarrow> h In_Sheet Gauges \<noteq> None" "\<not> ho_mounted (fr_sheet d) \<Longrightarrow> h In_Sheet k = None" for k
    using h(1) by (cases k; simp add: core_def holder_ok_def)+
  have flags: "ho_mounted (fr_dock d) \<Longrightarrow> fr_wide d \<and> \<not> fr_pressed d" "ho_mounted (fr_sheet d) \<Longrightarrow> fr_pressed d"
    using h(2,3) agree unfolding dock(1) sheet(1) dock_fits_def sheet_fits_def agreed_def by auto
  have at: "pd_at (fr_dom d) (k, p) = In_Panel p \<or> pd_at (fr_dom d) (k, p) = Absent
      \<or> (pd_at (fr_dom d) (k, p) = In_Dock \<and> ho_mounted (fr_dock d)) \<or> (pd_at (fr_dom d) (k, p) = In_Sheet \<and> ho_mounted (fr_sheet d))" for k
    using node_spots(1) [OF h(1) assms(2), of k] dock(2) [of k] sheet(2) [of k]
    by (cases "ho_mounted (fr_dock d)"; cases "ho_mounted (fr_sheet d)") auto
  have "pd_at (fr_dom d) (Gauges, p) \<noteq> Absent" by (rule node_spots(2) [OF h(1) assms(2)])
  then have one: "pd_at (fr_dom d) (Gauges, p) = In_Panel p
        \<or> pd_at (fr_dom d) (Gauges, p) = In_Dock \<and> ho_mounted (fr_dock d) \<and> fr_wide d \<and> \<not> fr_pressed d
        \<or> pd_at (fr_dom d) (Gauges, p) = In_Sheet \<and> ho_mounted (fr_sheet d) \<and> fr_pressed d"
    using at [of Gauges] flags by blast
  have there: "\<forall>k. pd_at (fr_dom d) (k, p) \<noteq> Removed"
  proof
    fix k show "pd_at (fr_dom d) (k, p) \<noteq> Removed" using at [of k] by auto
  qed
  show ?thesis using one there flags at agree unfolding agreed_def by blast
qed

definition docked_then_full :: "frame_event list" where
  "docked_then_full = [Render True, Sync_Sheet, Sync_Dock, Click_Full]"

theorem readings_have_one_home_witness:
  "pd_panel (fr_dom (frame_run True False docked_then_full)) = Some 0
    \<and> \<not> (ho_mounted (fr_dock (frame_run True False docked_then_full)) \<and> ho_mounted (fr_sheet (frame_run True False docked_then_full)))"
proof -
  let ?d = "frame_run True False docked_then_full"
  have p: "pd_panel (fr_dom ?d) = Some 0" by code_simp
  from readings_have_one_home [OF refl p] p show ?thesis by blast
qed

text \<open>C28. Once the two effects that follow the open sensor have run, the readings are where the screen
  calls for them: in the sheet when the map is full screen, else in the dock when the page is wide
  enough, else in the panel.\<close>

theorem readings_follow_the_screen:
  assumes "d = frame_run wide api evs" "pd_panel (fr_dom d) = Some p" "d' = frame_step Sync_Dock (frame_step Sync_Sheet d)"
  shows "pd_at (fr_dom d') (Gauges, p) = (if fr_pressed d then In_Sheet else if fr_wide d then In_Dock else In_Panel p)"
proof -
  have inv: "frame_inv d" unfolding assms(1) by (rule inv_frame_run)
  then obtain h where h: "core h d" "dock_fits h d" "sheet_fits h d" and agree: "agreed d" by (auto simp: frame_inv_def tidy_def)
  have full: "ho_full (fr_dock d) = fr_pressed d" "ho_full (fr_sheet d) = fr_pressed d" using agree unfolding agreed_def by blast+
  define d1 where "d1 = on_sheet sheet_sync d"
  obtain h1 where r1: "core h1 d1" "h1 In_Sheet Gauges = (if ho_full (fr_sheet d) then taken In_Sheet Gauges h (fr_dom d) else None)"
    "h1 In_Dock = h In_Dock" "pd_panel (fr_dom d1) = pd_panel (fr_dom d)"
    unfolding d1_def by (rule core_sheet [where f = sheet_sync, OF h(1) core_sync_sheet [OF h(1)]])
  note h1 = r1(1) r1(2) [unfolded full] r1(3) r1(4) [unfolded assms(2)]
  have d1: "fr_dock d1 = fr_dock d" "fr_wide d1 = fr_wide d" by (simp_all add: d1_def)
  obtain h2 where r2: "core h2 (on_dock (dock_sync (fr_wide d1)) d1)"
    "h2 In_Dock Gauges = (if ho_full (fr_dock d1) \<or> \<not> fr_wide d1 then None else taken In_Dock Gauges h1 (fr_dom d1))"
    "h2 In_Sheet = h1 In_Sheet" "pd_panel (fr_dom (on_dock (dock_sync (fr_wide d1)) d1)) = pd_panel (fr_dom d1)"
    by (rule core_dock [where f = "dock_sync (fr_wide d1)", OF h1(1) core_sync_dock [OF h1(1)]])
  note h2 = r2(1) r2(2) [unfolded d1 full] r2(3) r2(4) [unfolded h1(4)]
  have d': "d' = on_dock (dock_sync (fr_wide d1)) d1" by (simp add: assms(3) d1_def)
  note c = h2(1) [folded d']
  show ?thesis
  proof (cases "fr_pressed d")
    case True
    then have "h In_Dock Gauges = None" using h(2) full by (auto simp: dock_fits_def)
    then have "taken In_Sheet Gauges h (fr_dom d) = Some p" by (intro gauges_taken [OF h(1) assms(2)]) auto
    then have "h2 In_Sheet Gauges = Some p" using True h1(2) h2(3) by simp
    with True gauges_at [OF c, of In_Sheet p] show ?thesis by simp
  next
    case False
    then have none: "h1 In_Sheet Gauges = None" using h1(2) by simp
    show ?thesis
    proof (cases "fr_wide d")
      case True
      have "taken In_Dock Gauges h1 (fr_dom d1) = Some p" by (intro gauges_taken [OF h1(1,4)]) (use none in auto)
      then have "h2 In_Dock Gauges = Some p" using True False h2(2) by simp
      with True False gauges_at [OF c, of In_Dock p] show ?thesis by simp
    next
      case narrow: False
      have "h2 In_Dock Gauges = None" "h2 In_Sheet Gauges = None" using narrow none h2(2,3) by simp_all
      with node_spots(1) [OF c h2(4) [folded d'], of Gauges] node_spots(2) [OF c h2(4) [folded d']] narrow False show ?thesis by auto
    qed
  qed
qed

theorem readings_follow_the_screen_witness:
  "pd_at (fr_dom (frame_step Sync_Dock (frame_step Sync_Sheet (frame_run True False docked_then_full)))) (Gauges, 0) = In_Sheet"
proof -
  let ?d = "frame_run True False docked_then_full"
  have p: "pd_panel (fr_dom ?d) = Some 0" by code_simp
  have "fr_pressed ?d" by code_simp
  with readings_follow_the_screen [OF refl p refl] show ?thesis by simp
qed

text \<open>Two requests for full screen in flight, one refused and one granted, leave the frame both pinned
  and full screen: the browser's way out then leaves it pinned.\<close>

lemma refused_and_granted_stays_pinned:
  "isFull (frame_run wide True [Click_Full, Click_Full, Enter_Refused, Native True, Screen_Changed, Native False, Screen_Changed])"
proof -
  have step: "isFull (paint_full d) = isFull d" "fr_faux (paint_full d) = fr_faux d" "fr_api (paint_full d) = fr_api d" for d
    by (simp_all add: isFull_def paint_full_def onChange_def Let_def setFull_eqs bring_into_view_def)
  show ?thesis by (simp add: frame_run_def click_full_def enter_full_def faux_def step isFull_def init_frame_def)
qed

end
