(* ===== verification/Map_Chrome.thy ===== *)
theory Map_Chrome
  imports Storage
begin

text \<open>
  The state of the map's own furniture (\<open>web/src/lib/chrome.js\<close>, \<open>mountLayers\<close> of
  \<open>web/src/lib/maplayers.js\<close>): the colour key and the layers list, which fold each other; the note
  about the wind; the corner the refresh controls stand in; the line under the map. The key and the
  note are \<open><details>\<close> elements: an element that changes its \<open>open\<close> queues one \<open>toggle\<close> event, and
  changes made before it is delivered are told by that same event. Delivering it is a step here, so
  any number of presses and moves may come before it.
\<close>

section \<open>The key and the layers list\<close>

text \<open>From \<open>web/src/lib/mapconfig.js\<close>.\<close>

definition LEGEND_FOLD_KEY :: string where
  "LEGEND_FOLD_KEY = ''kanarche:legend-open''"

record chrome =
  ch_open :: bool
  ch_queued :: bool
  ch_auto :: "bool option"
  ch_for_layers :: bool
  ch_list :: bool
  ch_phone :: bool
  ch_store :: "storage option"

text \<open>Opening the new element queues its event, which finds the listener in place.\<close>

definition mountLegend :: "bool \<Rightarrow> storage option \<Rightarrow> chrome" where
  "mountLegend phone st = \<lparr>ch_open = readFlag LEGEND_FOLD_KEY False st, ch_queued = readFlag LEGEND_FOLD_KEY False st, ch_auto = None,
     ch_for_layers = False, ch_list = False, ch_phone = phone, ch_store = st\<rparr>"

text \<open>Writing \<open>open\<close> queues the event only where the value changes.\<close>

definition set_open :: "bool \<Rightarrow> chrome \<Rightarrow> chrome" where
  "set_open b s = (if ch_open s = b then s else s\<lparr>ch_open := b, ch_queued := True\<rparr>)"

definition setLegendOpen :: "bool \<Rightarrow> chrome \<Rightarrow> chrome" where
  "setLegendOpen b s = (if ch_open s = b then s else set_open b (s\<lparr>ch_auto := Some b\<rparr>))"

definition onToggle :: "bool \<Rightarrow> chrome \<Rightarrow> chrome" where
  "onToggle yes s = (if yes
     then (if ch_open s then setLegendOpen False (s\<lparr>ch_for_layers := True\<rparr>) else s)
     else if ch_for_layers s then setLegendOpen True (s\<lparr>ch_for_layers := False\<rparr>) else s)"

text \<open>\<open>open\<close> of the layers list, its button, Escape inside it and a press outside it.\<close>

definition open_list :: "bool \<Rightarrow> chrome \<Rightarrow> chrome" where
  "open_list yes s = onToggle yes (s\<lparr>ch_list := yes\<rparr>)"

definition press_list :: "chrome \<Rightarrow> chrome" where
  "press_list s = open_list (\<not> ch_list s) s"

definition close_list :: "chrome \<Rightarrow> chrome" where
  "close_list s = (if ch_list s then open_list False s else s)"

text \<open>The key's listener on its own \<open>toggle\<close> event.\<close>

definition toggle_event :: "chrome \<Rightarrow> chrome" where
  "toggle_event s = (if \<not> ch_queued s then s
     else let t = s\<lparr>ch_queued := False, ch_auto := None\<rparr> in
       if ch_auto s = Some (ch_open s) then t
       else let u = t\<lparr>ch_store := writeFlag LEGEND_FOLD_KEY (ch_open t) (ch_store t)\<rparr> in
         if ch_open u \<and> ch_list u then open_list False (u\<lparr>ch_for_layers := False\<rparr>) else u)"

text \<open>
  The browser's own doing on the key's summary; a tap on the open key, which its buttons, links and
  summary keep for themselves; Escape inside it.
\<close>

definition press_summary :: "chrome \<Rightarrow> chrome" where
  "press_summary s = set_open (\<not> ch_open s) s"

definition tap_legend :: "bool \<Rightarrow> chrome \<Rightarrow> chrome" where
  "tap_legend interactive s = (if \<not> ch_open s \<or> interactive then s else set_open False s)"

definition legend_escape :: "chrome \<Rightarrow> chrome" where
  "legend_escape s = (if ch_open s then set_open False s else s)"

text \<open>Folding without remembering: on a move of the map, under the player's bar, under the attribution card.\<close>

definition closeLegend :: "chrome \<Rightarrow> chrome" where
  "closeLegend s = (if \<not> ch_phone s then s else setLegendOpen False s)"

definition show_player :: "nat \<Rightarrow> chrome \<Rightarrow> chrome" where
  "show_player n s = (if 0 < n then closeLegend s else s)"

definition attribution_click :: "bool \<Rightarrow> chrome \<Rightarrow> chrome" where
  "attribution_click shown s = (if shown then closeLegend s else s)"

datatype chrome_act =
    Toggle_Event | Press_Summary | Tap_Legend bool | Legend_Escape | Press_List | List_Escape
  | Press_Outside | Map_Moves | Player_Shows nat | Attribution bool

fun chrome_step :: "chrome_act \<Rightarrow> chrome \<Rightarrow> chrome" where
  "chrome_step Toggle_Event s = toggle_event s"
| "chrome_step Press_Summary s = press_summary s"
| "chrome_step (Tap_Legend interactive) s = tap_legend interactive s"
| "chrome_step Legend_Escape s = legend_escape s"
| "chrome_step Press_List s = press_list s"
| "chrome_step List_Escape s = close_list s"
| "chrome_step Press_Outside s = close_list s"
| "chrome_step Map_Moves s = closeLegend s"
| "chrome_step (Player_Shows n) s = show_player n s"
| "chrome_step (Attribution shown) s = attribution_click shown s"

definition chrome_run :: "chrome_act list \<Rightarrow> chrome \<Rightarrow> chrome" where
  "chrome_run acts s = fold chrome_step acts s"

text \<open>The acts by which a reader folds or unrolls the key.\<close>

definition readers :: "chrome_act \<Rightarrow> bool" where
  "readers a \<longleftrightarrow> a \<in> {Press_Summary, Legend_Escape, Tap_Legend True, Tap_Legend False}"

text \<open>Every act whose event is delivered before the next act.\<close>

definition prompt :: "chrome_act list \<Rightarrow> chrome_act list" where
  "prompt acts = concat (map (\<lambda>a. [a, Toggle_Event]) acts)"

lemmas chrome_op_defs = set_open_def setLegendOpen_def onToggle_def open_list_def press_list_def
  close_list_def press_summary_def tap_legend_def legend_escape_def closeLegend_def show_player_def
  attribution_click_def

lemma chrome_run_simps [simp]:
  "chrome_run [] s = s"
  "chrome_run (a # acts) s = chrome_run acts (chrome_step a s)"
  "chrome_run (xs @ ys) s = chrome_run ys (chrome_run xs s)"
  by (simp_all add: chrome_run_def)

lemma prompt_simps [simp]:
  "prompt [] = []"
  "prompt (a # acts) = a # Toggle_Event # prompt acts"
  by (simp_all add: prompt_def)

lemma run_invariant:
  assumes "\<And>a s. a \<in> set acts \<Longrightarrow> P s \<Longrightarrow> P (chrome_step a s)" "P s"
  shows "P (chrome_run acts s)"
  using assms by (induction acts arbitrary: s) auto

subsection \<open>What is pending\<close>

text \<open>
  A recorded target has its event still to come; and while only the program has written the key
  since the last event, the target is what the key shows.
\<close>

definition pending_ok :: "chrome \<Rightarrow> bool" where
  "pending_ok s \<longleftrightarrow> (ch_auto s \<noteq> None \<longrightarrow> ch_queued s)"

definition by_program :: "chrome \<Rightarrow> bool" where
  "by_program s \<longleftrightarrow> (ch_queued s \<longrightarrow> ch_auto s = Some (ch_open s))"

lemma pending_step: "pending_ok s \<Longrightarrow> pending_ok (chrome_step a s)"
  by (cases a) (auto simp: pending_ok_def chrome_op_defs toggle_event_def Let_def)

lemma program_step:
  assumes "by_program s" "\<not> readers a"
  shows "by_program (chrome_step a s) \<and> ch_store (chrome_step a s) = ch_store s"
  using assms by (cases a) (auto simp: by_program_def readers_def chrome_op_defs toggle_event_def Let_def)

lemma program_keeps_store:
  assumes "by_program s" "list_all (\<lambda>a. \<not> readers a) acts"
  shows "ch_store (chrome_run acts s) = ch_store s"
  using assms by (induction acts arbitrary: s) (auto simp: program_step)

subsection \<open>At rest\<close>

text \<open>No event to come; the list folded the key only while it is open, and never stands beside an open key.\<close>

definition at_rest :: "chrome \<Rightarrow> bool" where
  "at_rest s \<longleftrightarrow> \<not> ch_queued s \<and> ch_auto s = None \<and> \<not> (ch_open s \<and> ch_list s) \<and>
     (ch_for_layers s \<longrightarrow> ch_list s)"

lemma rest_mount [simp]: "at_rest (toggle_event (mountLegend phone st))"
  by (auto simp: at_rest_def mountLegend_def toggle_event_def Let_def)

lemma rest_act: "at_rest s \<Longrightarrow> at_rest (toggle_event (chrome_step a s))"
  by (cases a) (auto simp: at_rest_def chrome_op_defs toggle_event_def Let_def)

lemma rest_prompt: "at_rest s \<Longrightarrow> at_rest (chrome_run (prompt acts) s)"
  by (induction acts arbitrary: s) (auto simp: rest_act)

interpretation legend_fold: stored_preference getItem setItem removeItem storage_working app_key
    LEGEND_FOLD_KEY bool_str "\<lambda>r. flag_of r False" "\<lambda>_. True" False
  by unfold_locales (simp_all add: app_key_def starts_with_def KEY_PREFIX_def bool_str_def LEGEND_FOLD_KEY_def)

lemma fold_written:
  "storage_working w \<Longrightarrow> readFlag LEGEND_FOLD_KEY False (writeFlag LEGEND_FOLD_KEY b (Some w)) = b"
  by (simp add: readFlag_def writeFlag_def try_get_def try_set_def legend_fold.write_then_read)

text \<open>
  Until something else happens to it, a page that mounts an open key has one event to come, which
  stores again what it has just read: a choice kept under the old name moves to the new one.
\<close>

definition mounted_only :: "storage option \<Rightarrow> chrome \<Rightarrow> bool" where
  "mounted_only st s \<longleftrightarrow> readFlag LEGEND_FOLD_KEY False (ch_store s) = readFlag LEGEND_FOLD_KEY False st
     \<and> (ch_queued s \<and> ch_auto s = None \<longrightarrow> ch_open s \<and> readFlag LEGEND_FOLD_KEY False (ch_store s))
     \<and> (ch_queued s \<and> ch_auto s \<noteq> None \<longrightarrow> ch_auto s = Some (ch_open s))"

lemma fold_rewritten:
  "readFlag LEGEND_FOLD_KEY False st \<Longrightarrow> readFlag LEGEND_FOLD_KEY False (writeFlag LEGEND_FOLD_KEY True st)"
  using legacy_not_app [of LEGEND_FOLD_KEY]
  by (cases st) (auto simp: readFlag_def writeFlag_def try_get_def try_set_def storage_op_defs bool_str_def
      split: option.splits if_splits)

lemma mounted_only_step:
  assumes "mounted_only st s" "\<not> readers a"
  shows "mounted_only st (chrome_step a s)"
  using assms fold_rewritten [of "ch_store s"]
  by (cases a) (auto simp: mounted_only_def readers_def chrome_op_defs toggle_event_def Let_def)

lemma mounted_only_run:
  "mounted_only st s \<Longrightarrow> list_all (\<lambda>a. \<not> readers a) acts \<Longrightarrow> mounted_only st (chrome_run acts s)"
  by (induction acts arbitrary: s) (auto simp: mounted_only_step)

text \<open>C29. What the browser remembers of the key's fold is the reader's choice. On a page just mounted,
  whatever the program does (the layers list opening and closing, moves, the player, the attribution
  card, in any number and with events delivered late or not at all), the choice read back is the one
  that was stored. On a page at rest (no event to come, the list not beside an open key and the key
  not held folded for a closed list, as it is whenever each act's event arrives before the next act)
  the storage itself is left as it was found; and a reader's own act that changes the key is kept by
  a working storage when its event is the next thing to happen, so that the key mounted on the next
  page stands as the reader left it. When the event comes later the fold may be lost: a reader who
  unrolls the key the layers list has just folded, and folds it again before the event of the
  program's fold arrives, leaves nothing behind.
\<close>

theorem fold_stored_only_by_reader:
  "(list_all (\<lambda>a. \<not> readers a) acts \<longrightarrow>
      readFlag LEGEND_FOLD_KEY False (ch_store (chrome_run acts (mountLegend phone st))) = readFlag LEGEND_FOLD_KEY False st
      \<and> (at_rest s \<longrightarrow> ch_store (chrome_run acts s) = ch_store s)) \<and>
   (at_rest s \<and> readers a \<and> ch_open (chrome_step a s) \<noteq> ch_open s \<and> ch_store s = Some w \<and> storage_working w \<longrightarrow>
      ch_open (mountLegend phone (ch_store (chrome_run [a, Toggle_Event] s))) = ch_open (chrome_step a s)) \<and>
   (at_rest s \<and> ch_open s \<longrightarrow>
      (let t = chrome_run [Press_List, Press_Summary, Press_Summary, Toggle_Event] s in \<not> ch_open t \<and> ch_store t = ch_store s))"
proof -
  have 1: "by_program s" if "at_rest s" using that by (simp add: at_rest_def by_program_def)
  have 2: "ch_store (toggle_event (chrome_step a s)) = writeFlag LEGEND_FOLD_KEY (ch_open (chrome_step a s)) (ch_store s)"
    if "at_rest s" "readers a" "ch_open (chrome_step a s) \<noteq> ch_open s"
    using that by (cases a) (auto simp: at_rest_def readers_def chrome_op_defs toggle_event_def Let_def)
  have 3: "mounted_only st (mountLegend phone st)" by (simp add: mounted_only_def mountLegend_def)
  have 4: "let t = chrome_run [Press_List, Press_Summary, Press_Summary, Toggle_Event] s in \<not> ch_open t \<and> ch_store t = ch_store s"
    if "at_rest s" "ch_open s"
    using that by (simp add: at_rest_def chrome_op_defs toggle_event_def Let_def)
  show ?thesis
    using program_keeps_store [OF 1] 2 mounted_only_run [OF 3] 4 by (auto simp: mountLegend_def mounted_only_def fold_written)
qed

definition empty_store :: storage where
  "empty_store = \<lparr>items = Map.empty, get_throws = False, set_throws = False, remove_throws = False\<rparr>"

definition fresh_chrome :: chrome where
  "fresh_chrome = mountLegend True (Some empty_store)"

lemma fresh_chrome_eq:
  "fresh_chrome = \<lparr>ch_open = False, ch_queued = False, ch_auto = None, ch_for_layers = False,
     ch_list = False, ch_phone = True, ch_store = Some empty_store\<rparr>"
  by (simp add: fresh_chrome_def mountLegend_def readFlag_def try_get_def getItem_def raw_get_def empty_store_def
      LEGEND_FOLD_KEY_def legacyKey_def KEY_PREFIX_def starts_with_def)

lemma fresh_rest [simp]: "at_rest fresh_chrome"
  by (simp add: fresh_chrome_eq at_rest_def)

lemma fresh_event: "toggle_event (mountLegend True (Some empty_store)) = fresh_chrome"
  unfolding fresh_chrome_def [symmetric] by (simp add: fresh_chrome_eq toggle_event_def)

lemma fold_stored_only_by_reader_witness:
  "ch_store (chrome_run [Press_List, Map_Moves, Press_Outside, Toggle_Event] fresh_chrome) = Some empty_store \<and>
   ch_open (mountLegend False (ch_store (chrome_run [Press_Summary, Toggle_Event] fresh_chrome)))"
proof -
  have s: "ch_store fresh_chrome = Some empty_store" "storage_working empty_store"
    "\<not> ch_open fresh_chrome" "ch_open (chrome_step Press_Summary fresh_chrome)"
    by (simp_all add: fresh_chrome_eq empty_store_def storage_working_def press_summary_def set_open_def)
  show ?thesis
    using fold_stored_only_by_reader [of "[Press_List, Map_Moves, Press_Outside, Toggle_Event]" False None fresh_chrome
        Press_Summary empty_store] s
    by (simp add: readers_def)
qed

text \<open>The list is open over a key it may have folded; \<open>b\<close> says whether it did.\<close>

definition list_over :: "bool \<Rightarrow> chrome \<Rightarrow> bool" where
  "list_over b s \<longleftrightarrow> at_rest s \<and> ch_list s \<and> \<not> ch_open s \<and> ch_for_layers s = b"

definition spares_list :: "chrome_act \<Rightarrow> bool" where
  "spares_list a \<longleftrightarrow> a \<notin> {Press_List, List_Escape, Press_Outside, Press_Summary}"

lemma list_opens: "at_rest s \<Longrightarrow> \<not> ch_list s \<Longrightarrow> list_over (ch_open s) (toggle_event (press_list s))"
  by (auto simp: list_over_def at_rest_def chrome_op_defs toggle_event_def Let_def)

lemma list_stays: "list_over b s \<Longrightarrow> spares_list a \<Longrightarrow> list_over b (toggle_event (chrome_step a s))"
  by (cases a) (auto simp: spares_list_def list_over_def at_rest_def chrome_op_defs toggle_event_def Let_def)

lemma list_over_run: "list_over b s \<Longrightarrow> list_all spares_list acts \<Longrightarrow> list_over b (chrome_run (prompt acts) s)"
  by (induction acts arbitrary: s) (auto simp: list_stays)

lemma list_closes: "list_over b s \<Longrightarrow> ch_open (toggle_event (close_list s)) = b"
  by (auto simp: list_over_def at_rest_def chrome_op_defs toggle_event_def Let_def)

text \<open>With each act's event delivered before the next act, the open key and the open layers list
  never stand side by side, however the reader and the program act; and a key folded for the list
  comes back when the list closes, one that was folded already stays folded, whatever moves, players
  and cards came between.
\<close>

theorem key_and_list_never_both:
  assumes s: "s = chrome_run (Toggle_Event # prompt acts) (mountLegend phone st)"
    and between: "list_all spares_list between"
  shows "\<not> (ch_open s \<and> ch_list s) \<and> (\<not> ch_list s \<longrightarrow>
    ch_open (chrome_run (prompt (Press_List # between @ [Press_Outside])) s) = ch_open s)"
proof -
  have rest: "at_rest s" by (simp add: s rest_prompt del: prompt_simps)
  have "ch_open (chrome_run (prompt (Press_List # between @ [Press_Outside])) s) = ch_open s" if closed: "\<not> ch_list s"
  proof -
    have "list_over (ch_open s) (chrome_run (prompt between) (toggle_event (press_list s)))"
      using list_opens [OF rest closed] between by (rule list_over_run)
    then show ?thesis by (simp add: prompt_def list_closes)
  qed
  with rest show ?thesis by (auto simp: at_rest_def)
qed

lemma key_and_list_never_both_witness:
  "\<not> (ch_open (chrome_run (prompt [Press_Summary, Press_List]) fresh_chrome) \<and>
      ch_list (chrome_run (prompt [Press_Summary, Press_List]) fresh_chrome)) \<and>
   ch_open (chrome_run (prompt [Press_Summary]) fresh_chrome) \<and>
   ch_open (chrome_run (prompt [Press_Summary, Press_List, Map_Moves, Press_Outside]) fresh_chrome)"
proof -
  have s: "\<not> ch_list (chrome_run (prompt [Press_Summary]) fresh_chrome)"
    "ch_open (chrome_run (prompt [Press_Summary]) fresh_chrome)"
    by (simp_all add: fresh_chrome_eq press_summary_def set_open_def toggle_event_def)
  have "list_all spares_list [Map_Moves]" by (simp add: spares_list_def)
  from key_and_list_never_both [of _ "[Press_Summary]" True "Some empty_store", OF refl this]
    key_and_list_never_both [of _ "[Press_Summary, Press_List]" True "Some empty_store", OF refl this]
  show ?thesis using s by (simp add: fresh_event)
qed

text \<open>C30. A reader who presses the key's summary while the layers list has it folded does not get the
  key: the press outside the list closes it and restores the key, the click then folds the key it
  was meant to open, and that fold is stored as the reader's choice. It is so whether or not the
  event of the first change arrives between the press and the click.
\<close>

theorem pressing_folded_key_refolds_it:
  assumes "at_rest s" "ch_list s" "ch_for_layers s"
    and "acts \<in> {[Press_Outside, Press_Summary, Toggle_Event], [Press_Outside, Toggle_Event, Press_Summary, Toggle_Event]}"
  shows "\<not> ch_open (chrome_run acts s) \<and> \<not> ch_list (chrome_run acts s) \<and>
    ch_store (chrome_run acts s) = writeFlag LEGEND_FOLD_KEY False (ch_store s)"
  using assms by (auto simp: at_rest_def chrome_op_defs toggle_event_def Let_def)

text \<open>A phone whose reader has unrolled the key and then opened the layers list.\<close>

definition list_over_key :: chrome where
  "list_over_key = chrome_run (prompt [Press_Summary, Press_List]) fresh_chrome"

lemma pressing_folded_key_refolds_it_witness:
  "\<not> ch_open (chrome_run [Press_Outside, Press_Summary, Toggle_Event] list_over_key) \<and>
   ch_store (chrome_run [Press_Outside, Press_Summary, Toggle_Event] list_over_key) =
     writeFlag LEGEND_FOLD_KEY False (ch_store list_over_key)"
proof -
  have "at_rest list_over_key" by (simp add: list_over_key_def rest_prompt del: prompt_simps)
  moreover have "ch_list list_over_key" "ch_for_layers list_over_key"
    by (simp_all add: list_over_key_def fresh_chrome_eq chrome_op_defs toggle_event_def)
  ultimately show ?thesis
    using pressing_folded_key_refolds_it [of list_over_key "[Press_Outside, Press_Summary, Toggle_Event]"] by simp
qed

section \<open>The note about the wind\<close>

text \<open>\<open>wn_aria\<close> is \<open>aria-expanded\<close> on its summary.\<close>

record wind_note =
  wn_open :: bool
  wn_queued :: bool
  wn_aria :: bool
  wn_hidden :: bool
  wn_text :: string

definition syncWindExpanded :: "wind_note \<Rightarrow> wind_note" where
  "syncWindExpanded n = n\<lparr>wn_aria := wn_open n\<rparr>"

definition set_note :: "bool \<Rightarrow> wind_note \<Rightarrow> wind_note" where
  "set_note b n = (if wn_open n = b then n else n\<lparr>wn_open := b, wn_queued := True\<rparr>)"

definition foldWind :: "wind_note \<Rightarrow> wind_note" where
  "foldWind n = syncWindExpanded (set_note False n)"

definition mountWindNote :: wind_note where
  "mountWindNote = syncWindExpanded \<lparr>wn_open = False, wn_queued = False, wn_aria = False, wn_hidden = True, wn_text = []\<rparr>"

definition note_event :: "wind_note \<Rightarrow> wind_note" where
  "note_event n = (if wn_queued n then syncWindExpanded (n\<lparr>wn_queued := False\<rparr>) else n)"

definition note_click :: "bool \<Rightarrow> wind_note \<Rightarrow> wind_note" where
  "note_click on_summary n = (if wn_open n \<and> \<not> on_summary then foldWind n else n)"

definition note_escape :: "wind_note \<Rightarrow> wind_note" where
  "note_escape n = (if wn_open n then foldWind n else n)"

definition note_for_wind :: "bool \<Rightarrow> string \<Rightarrow> wind_note \<Rightarrow> wind_note" where
  "note_for_wind on about n = (let m = n\<lparr>wn_text := (if on then about else []), wn_hidden := (\<not> on \<or> about = [])\<rparr> in
     if \<not> on then set_note False m else m)"

text \<open>A hidden note has no summary to press.\<close>

datatype note_act = Note_Event | Note_Summary | Note_Body | Note_Escape | Map_Click | Wind_Shown bool string

fun note_step :: "note_act \<Rightarrow> wind_note \<Rightarrow> wind_note" where
  "note_step Note_Event n = note_event n"
| "note_step Note_Summary n = (if wn_hidden n then n else set_note (\<not> wn_open n) (note_click True n))"
| "note_step Note_Body n = note_click False n"
| "note_step Note_Escape n = note_escape n"
| "note_step Map_Click n = foldWind n"
| "note_step (Wind_Shown on about) n = note_for_wind on about n"

text \<open>What is announced is what is shown, up to an event on its way; and without wind nothing is unrolled.\<close>

definition note_ok :: "wind_note \<Rightarrow> bool" where
  "note_ok n \<longleftrightarrow> (wn_queued n \<or> wn_aria n = wn_open n) \<and> (wn_text n = [] \<longrightarrow> wn_hidden n)"

lemmas note_defs = syncWindExpanded_def set_note_def foldWind_def note_event_def note_click_def note_escape_def
  note_for_wind_def

lemma note_ok_step: "note_ok n \<Longrightarrow> note_ok (note_step a n)"
  by (cases a) (auto simp: note_ok_def note_defs Let_def)

lemma note_announced: "note_ok (fold note_step acts mountWindNote)"
proof -
  have "note_ok n \<Longrightarrow> note_ok (fold note_step acts n)" for n
    by (induction acts arbitrary: n) (auto simp: note_ok_step)
  then show ?thesis by (simp add: note_ok_def mountWindNote_def syncWindExpanded_def)
qed

text \<open>The layer comes back folded: only a press on a shown note's summary unrolls it.\<close>

lemma note_returns_folded:
  assumes "list_all (\<lambda>a. a \<noteq> Note_Summary) acts"
  shows "\<not> wn_open (fold note_step acts (note_for_wind False about n))"
proof -
  have step: "\<not> wn_open m \<Longrightarrow> a \<noteq> Note_Summary \<Longrightarrow> \<not> wn_open (note_step a m)" for a m
    by (cases a) (auto simp: note_defs Let_def)
  have "\<not> wn_open m \<Longrightarrow> list_all (\<lambda>a. a \<noteq> Note_Summary) acts \<Longrightarrow> \<not> wn_open (fold note_step acts m)" for m
    by (induction acts arbitrary: m) (auto simp: step)
  then show ?thesis using assms by (simp add: note_defs Let_def)
qed

section \<open>The refresh controls and the line under the map\<close>

text \<open>
  On a phone the controls ride in the window menu's footer. \<open>phone\<close> is read once, for either
  orientation; afterwards only crossing the width of a portrait phone moves them.
\<close>

datatype corner = In_Row | In_Footer

definition refresh_mounted :: "bool \<Rightarrow> corner" where
  "refresh_mounted phone = (if phone then In_Footer else In_Row)"

definition refresh_moved :: "bool \<Rightarrow> corner \<Rightarrow> corner" where
  "refresh_moved matches c = (if matches then In_Footer else In_Row)"

lemma rotated_landscape_phone_differs:
  "fold refresh_moved [True, False] (refresh_mounted True) \<noteq> refresh_mounted True"
  by (simp add: refresh_mounted_def refresh_moved_def)

text \<open>The line's text and whether it is hidden; a server's own line is kept until a tier is known.\<close>

definition mount_tier :: "string option \<Rightarrow> string \<times> bool" where
  "mount_tier ssr = (case ssr of Some t \<Rightarrow> (t, False) | None \<Rightarrow> ([], True))"

definition show_tier :: "(string \<rightharpoonup> string) \<Rightarrow> string option \<Rightarrow> string \<times> bool \<Rightarrow> string \<times> bool" where
  "show_tier texts tier line = (case tier of None \<Rightarrow> line
     | Some t \<Rightarrow> (let says = (case texts t of Some x \<Rightarrow> x | None \<Rightarrow> []) in (says, says = [])))"

lemma tier_line_never_blank: "fold (show_tier texts) tiers (mount_tier None) = (says, hid) \<Longrightarrow> hid \<longleftrightarrow> says = []"
proof -
  have "snd line = (fst line = []) \<Longrightarrow> snd (fold (show_tier texts) tiers line) = (fst (fold (show_tier texts) tiers line) = [])" for line
    by (induction tiers arbitrary: line) (auto simp: show_tier_def Let_def split: option.splits)
  from this [of "mount_tier None"] show "fold (show_tier texts) tiers (mount_tier None) = (says, hid) \<Longrightarrow> hid \<longleftrightarrow> says = []"
    by (simp add: mount_tier_def)
qed

end
