(* ===== verification/Map_Controls.thy ===== *)
theory Map_Controls
  imports Js_Prelude
begin

text \<open>
  The zoom stack and the compass of the map (\<open>installZoom\<close> and \<open>installOrientation\<close> of
  \<open>web/src/lib/mapcontrols.js\<close>). The camera belongs to the renderer: a handler asks something of it
  (\<open>request\<close>), and where it then is arrives with the renderer's own events, in any order and at any
  value; the model assumes nothing of how a request is answered. Angles are exact reals.
\<close>

section \<open>The camera and the controls\<close>

record camera =
  cam_zoom :: real
  cam_min :: real
  cam_max :: real
  cam_bearing :: real
  cam_pitch :: real

record home_view =
  home_lon :: real
  home_lat :: real
  home_zoom :: real

text \<open>What the controls ask; each is marked as the reader's own move.\<close>

datatype request =
    Zoom_In | Zoom_Out | Fly_To home_view real real | Set_Pitch real | Set_Bearing real | Ease_To real real

datatype focus_at = On_Compass | In_Popover | Elsewhere

record map_controls =
  mc_cam :: camera
  mc_in_disabled :: bool
  mc_out_disabled :: bool
  mc_needle :: real
  mc_heading :: int
  mc_tilt :: int
  mc_heading_out :: int
  mc_tilt_out :: int
  mc_hidden :: bool
  mc_expanded :: bool
  mc_listening :: bool
  mc_focus :: focus_at
  mc_asked :: "request list"

section \<open>The zoom stack\<close>

text \<open>A hair of slack: a zoom step lands on the limit with a float error.\<close>

definition ZOOM_SLACK :: real where
  "ZOOM_SLACK = 1 / 1000000"

definition paint_zoom :: "map_controls \<Rightarrow> map_controls" where
  "paint_zoom s = (let c = mc_cam s in
     s\<lparr>mc_out_disabled := (cam_zoom c \<le> cam_min c + ZOOM_SLACK),
       mc_in_disabled := (cam_zoom c \<ge> cam_max c - ZOOM_SLACK)\<rparr>)"

definition ask :: "request \<Rightarrow> map_controls \<Rightarrow> map_controls" where
  "ask r s = s\<lparr>mc_asked := mc_asked s @ [r]\<rparr>"

text \<open>A disabled button is not clicked; the way back is never disabled.\<close>

definition click_in :: "map_controls \<Rightarrow> map_controls" where
  "click_in s = (if mc_in_disabled s then s else ask Zoom_In s)"

definition click_out :: "map_controls \<Rightarrow> map_controls" where
  "click_out s = (if mc_out_disabled s then s else ask Zoom_Out s)"

definition click_reset :: "home_view \<Rightarrow> map_controls \<Rightarrow> map_controls" where
  "click_reset home s = ask (Fly_To home 0 0) s"

section \<open>The compass\<close>

definition norm_bearing :: "real \<Rightarrow> real" where
  "norm_bearing b = js_rem (js_rem (b + 180) 360 + 360) 360 - 180"

definition paint_orient :: "map_controls \<Rightarrow> map_controls" where
  "paint_orient s = (let bearing = norm_bearing (cam_bearing (mc_cam s)) in
     s\<lparr>mc_needle := - bearing, mc_heading := math_round bearing, mc_heading_out := math_round bearing,
       mc_tilt := math_round (cam_pitch (mc_cam s)), mc_tilt_out := math_round (cam_pitch (mc_cam s))\<rparr>)"

text \<open>Moving a slider changes its own value at once; the figure beside it waits for the camera. The two listeners of an open popover are added and removed together.\<close>

definition shut :: "bool \<Rightarrow> map_controls \<Rightarrow> map_controls" where
  "shut refocus s = s\<lparr>mc_hidden := True, mc_expanded := False, mc_listening := False,
     mc_focus := (if refocus then On_Compass else mc_focus s)\<rparr>"

definition open_popover :: "map_controls \<Rightarrow> map_controls" where
  "open_popover s = s\<lparr>mc_hidden := False, mc_expanded := True, mc_listening := True, mc_focus := In_Popover\<rparr>"

definition click_compass :: "map_controls \<Rightarrow> map_controls" where
  "click_compass s = (if mc_hidden s then open_popover s else shut True s)"

definition onKey :: "bool \<Rightarrow> map_controls \<Rightarrow> map_controls" where
  "onKey escape s = (if mc_listening s \<and> escape then shut True s else s)"

definition onOutside :: "bool \<Rightarrow> map_controls \<Rightarrow> map_controls" where
  "onOutside inside s = (if \<not> mc_listening s \<or> inside then s else shut (mc_focus s \<noteq> Elsewhere) s)"

definition tilt_input :: "int \<Rightarrow> map_controls \<Rightarrow> map_controls" where
  "tilt_input v s = ask (Set_Pitch (of_int v)) (s\<lparr>mc_tilt := v\<rparr>)"

definition heading_input :: "int \<Rightarrow> map_controls \<Rightarrow> map_controls" where
  "heading_input v s = ask (Set_Bearing (of_int v)) (s\<lparr>mc_heading := v\<rparr>)"

definition click_north :: "map_controls \<Rightarrow> map_controls" where
  "click_north s = ask (Ease_To 0 0) s"

section \<open>All of it\<close>

definition install_controls :: "camera \<Rightarrow> map_controls" where
  "install_controls c = paint_orient (paint_zoom \<lparr>mc_cam = c, mc_in_disabled = False, mc_out_disabled = False,
     mc_needle = 0, mc_heading = 0, mc_tilt = 0, mc_heading_out = 0, mc_tilt_out = 0, mc_hidden = True, mc_expanded = False, mc_listening = False,
     mc_focus = Elsewhere, mc_asked = []\<rparr>)"

text \<open>The renderer's events name the part of the camera that moved; the popover's controls take focus and clicks while it is shown.\<close>

datatype control_act =
    Click_In | Click_Out | Click_Reset home_view | Click_Compass | Click_Close | Key bool | Pointer bool
  | Tilt int | Heading int | Click_North | Focus focus_at | Zoomed real | Rotated real | Pitched real

fun control_step :: "control_act \<Rightarrow> map_controls \<Rightarrow> map_controls" where
  "control_step Click_In s = click_in s"
| "control_step Click_Out s = click_out s"
| "control_step (Click_Reset home) s = click_reset home s"
| "control_step Click_Compass s = click_compass s"
| "control_step Click_Close s = (if mc_hidden s then s else shut True s)"
| "control_step (Key escape) s = onKey escape s"
| "control_step (Pointer inside) s = onOutside inside s"
| "control_step (Tilt v) s = (if mc_hidden s then s else tilt_input v s)"
| "control_step (Heading v) s = (if mc_hidden s then s else heading_input v s)"
| "control_step Click_North s = (if mc_hidden s then s else click_north s)"
| "control_step (Focus f) s = (if mc_hidden s \<and> f = In_Popover then s else s\<lparr>mc_focus := f\<rparr>)"
| "control_step (Zoomed z) s = paint_zoom (s\<lparr>mc_cam := (mc_cam s)\<lparr>cam_zoom := z\<rparr>\<rparr>)"
| "control_step (Rotated b) s = paint_orient (s\<lparr>mc_cam := (mc_cam s)\<lparr>cam_bearing := b\<rparr>\<rparr>)"
| "control_step (Pitched p) s = paint_orient (s\<lparr>mc_cam := (mc_cam s)\<lparr>cam_pitch := p\<rparr>\<rparr>)"

definition control_run :: "control_act list \<Rightarrow> map_controls \<Rightarrow> map_controls" where
  "control_run acts s = fold control_step acts s"

lemmas control_defs = paint_zoom_def ask_def click_in_def click_out_def click_reset_def paint_orient_def shut_def
  open_popover_def click_compass_def onKey_def onOutside_def tilt_input_def heading_input_def click_north_def

subsection \<open>The bearing\<close>

lemma norm_range: "- 180 \<le> norm_bearing b \<and> norm_bearing b < 180"
  using js_rem_range [of 360 "b + 180"] js_rem_range [of 360 "js_rem (b + 180) 360 + 360"]
  by (simp add: norm_bearing_def)

lemma norm_turns: "\<exists>k::int. norm_bearing b = b + 360 * of_int k"
proof -
  obtain j k :: int where "js_rem (b + 180) 360 = b + 180 - 360 * of_int j"
    "js_rem (js_rem (b + 180) 360 + 360) 360 = js_rem (b + 180) 360 + 360 - 360 * of_int k"
    using js_rem_turns by blast
  then have "norm_bearing b = b + 360 * of_int (1 - j - k)" by (simp add: norm_bearing_def algebra_simps)
  then show ?thesis by blast
qed

lemma norm_unique:
  assumes "- 180 \<le> b" "b < 180"
  shows "norm_bearing (b + 360 * of_int (k::int)) = b"
proof -
  obtain j :: int where j: "norm_bearing (b + 360 * of_int k) = b + 360 * of_int k + 360 * of_int j"
    using norm_turns by blast
  have "\<bar>360 * of_int (k + j) :: real\<bar> < 360"
    using norm_range [of "b + 360 * of_int k"] assms j by (simp add: algebra_simps) linarith
  then have "\<bar>real_of_int (k + j)\<bar> < 1" by (simp add: abs_mult del: of_int_add)
  then have "k + j = 0" by linarith
  with j show ?thesis by (simp add: algebra_simps)
qed

subsection \<open>What the controls show\<close>

definition mirrors :: "map_controls \<Rightarrow> bool" where
  "mirrors s \<longleftrightarrow> mc_in_disabled s = (cam_zoom (mc_cam s) \<ge> cam_max (mc_cam s) - ZOOM_SLACK) \<and>
     mc_out_disabled s = (cam_zoom (mc_cam s) \<le> cam_min (mc_cam s) + ZOOM_SLACK) \<and>
     mc_needle s = - norm_bearing (cam_bearing (mc_cam s)) \<and>
     mc_heading_out s = math_round (norm_bearing (cam_bearing (mc_cam s))) \<and>
     mc_tilt_out s = math_round (cam_pitch (mc_cam s))"

definition popover_ok :: "map_controls \<Rightarrow> bool" where
  "popover_ok s \<longleftrightarrow> mc_expanded s = (\<not> mc_hidden s) \<and> mc_listening s = (\<not> mc_hidden s) \<and>
     (mc_focus s = In_Popover \<longrightarrow> \<not> mc_hidden s)"

lemma mirrors_step: "mirrors s \<Longrightarrow> mirrors (control_step a s)"
  by (cases a) (auto simp: mirrors_def control_defs Let_def)

lemma popover_step: "popover_ok s \<Longrightarrow> popover_ok (control_step a s)"
  by (cases a; cases "mc_focus s") (auto simp: popover_ok_def control_defs Let_def)

lemma controls_run:
  assumes "s = control_run acts (install_controls c)"
  shows "mirrors s \<and> popover_ok s"
proof -
  have "mirrors t \<Longrightarrow> popover_ok t \<Longrightarrow> mirrors (control_run acts t) \<and> popover_ok (control_run acts t)" for t
    by (induction acts arbitrary: t) (auto simp: control_run_def mirrors_step popover_step)
  moreover have "mirrors (install_controls c)" "popover_ok (install_controls c)"
    by (simp_all add: install_controls_def mirrors_def popover_ok_def control_defs Let_def)
  ultimately show ?thesis using assms by blast
qed

lemma limits_kept: "cam_min (mc_cam (control_run acts s)) = cam_min (mc_cam s) \<and>
   cam_max (mc_cam (control_run acts s)) = cam_max (mc_cam s)"
proof -
  have "cam_min (mc_cam (control_step a t)) = cam_min (mc_cam t) \<and>
      cam_max (mc_cam (control_step a t)) = cam_max (mc_cam t)" for a t
    by (cases a) (simp_all add: control_defs Let_def)
  then show ?thesis by (induction acts arbitrary: s) (simp_all add: control_run_def)
qed

lemma heading_bounds: "- 180 \<le> math_round (norm_bearing b) \<and> math_round (norm_bearing b) \<le> 180"
  using norm_range [of b] math_round_mono [of "of_int (- 180)" "norm_bearing b"]
    math_round_mono [of "norm_bearing b" "of_int 180"] by (simp only: math_round_of_int) simp

text \<open>Whatever the reader clicks, drags and types and however the camera moves, the controls show
  the camera and nothing else: plus is dead exactly at the ceiling and minus exactly at the floor,
  so never both on a map that can zoom; the needle undoes the bearing, brought into a half turn
  either way; the figures stay within the sliders. The popover is announced, listens for a way out
  and may hold the focus exactly while it is shown.
\<close>

theorem controls_mirror_the_camera:
  fixes acts and c :: camera
  defines "s \<equiv> control_run acts (install_controls c)"
  assumes "cam_min c + 2 * ZOOM_SLACK < cam_max c"
  shows "mc_in_disabled s = (cam_zoom (mc_cam s) \<ge> cam_max c - ZOOM_SLACK)"
    and "mc_out_disabled s = (cam_zoom (mc_cam s) \<le> cam_min c + ZOOM_SLACK)"
    and "\<not> (mc_in_disabled s \<and> mc_out_disabled s)"
    and "\<exists>k::int. mc_needle s = 360 * of_int k - cam_bearing (mc_cam s)"
    and "- 180 < mc_needle s \<and> mc_needle s \<le> 180 \<and> mc_heading_out s \<in> {- 180..180}"
    and "mc_expanded s = (\<not> mc_hidden s) \<and> mc_listening s = (\<not> mc_hidden s) \<and> (mc_focus s = In_Popover \<longrightarrow> \<not> mc_hidden s)"
proof -
  have m: "mirrors s" "popover_ok s" using controls_run [of s acts c] by (simp_all add: s_def)
  have l: "cam_min (mc_cam s) = cam_min c" "cam_max (mc_cam s) = cam_max c"
    using limits_kept [of acts "install_controls c"] by (simp_all add: s_def install_controls_def control_defs Let_def)
  show i: "mc_in_disabled s = (cam_zoom (mc_cam s) \<ge> cam_max c - ZOOM_SLACK)"
    and o: "mc_out_disabled s = (cam_zoom (mc_cam s) \<le> cam_min c + ZOOM_SLACK)"
    using m(1) l by (simp_all add: mirrors_def)
  show "\<not> (mc_in_disabled s \<and> mc_out_disabled s)" using i o assms(2) by auto
  obtain k :: int where "norm_bearing (cam_bearing (mc_cam s)) = cam_bearing (mc_cam s) + 360 * of_int k"
    using norm_turns by blast
  then have "mc_needle s = 360 * of_int (- k) - cam_bearing (mc_cam s)" using m(1) by (simp add: mirrors_def)
  then show "\<exists>k::int. mc_needle s = 360 * of_int k - cam_bearing (mc_cam s)" by blast
  show "- 180 < mc_needle s \<and> mc_needle s \<le> 180 \<and> mc_heading_out s \<in> {- 180..180}"
    using m(1) norm_range [of "cam_bearing (mc_cam s)"] heading_bounds [of "cam_bearing (mc_cam s)"]
    by (auto simp: mirrors_def)
  show "mc_expanded s = (\<not> mc_hidden s) \<and> mc_listening s = (\<not> mc_hidden s) \<and> (mc_focus s = In_Popover \<longrightarrow> \<not> mc_hidden s)"
    using m(2) by (simp add: popover_ok_def)
qed

text \<open>A heading the reader drags to is the heading the slider shows once the camera has turned
  there, by whichever name the renderer calls that angle, for every stop of the slider but the last:
  at 180 the thumb jumps to the other end and the figure reads -180.
\<close>

theorem heading_reads_back:
  assumes "\<not> mc_hidden s" "v \<in> {- 180..180}" "b = of_int v + 360 * of_int (k::int)"
  shows "mc_heading (control_run [Heading v, Rotated b] s) = (if v = 180 then - 180 else v)"
    and "mc_heading_out (control_run [Heading v, Rotated b] s) = (if v = 180 then - 180 else v)"
    and "mc_asked (control_run [Heading v, Rotated b] s) = mc_asked s @ [Set_Bearing (of_int v)]"
proof -
  have "norm_bearing b = of_int (if v = 180 then - 180 else v)"
  proof (cases "v = 180")
    case True
    with assms(3) have "b = of_int (- 180) + 360 * of_int (k + 1)" by (simp add: algebra_simps)
    with True norm_unique [of "of_int (- 180)" "k + 1"] show ?thesis by simp
  next
    case False
    with assms(2,3) norm_unique [of "of_int v" k] show ?thesis by simp
  qed
  then show "mc_heading (control_run [Heading v, Rotated b] s) = (if v = 180 then - 180 else v)"
    "mc_heading_out (control_run [Heading v, Rotated b] s) = (if v = 180 then - 180 else v)"
    using assms(1) by (simp_all only: control_run_def fold.simps o_apply control_step.simps control_defs Let_def if_False id_apply)
      (simp_all del: of_int_minus of_int_numeral)
  show "mc_asked (control_run [Heading v, Rotated b] s) = mc_asked s @ [Set_Bearing (of_int v)]"
    using assms(1) by (simp add: control_run_def control_defs Let_def)
qed

definition country :: camera where
  "country = \<lparr>cam_zoom = 7, cam_min = 6, cam_max = 18, cam_bearing = 0, cam_pitch = 0\<rparr>"

lemma controls_mirror_the_camera_witness:
  "\<not> (mc_in_disabled (control_run [Click_In, Zoomed 18] (install_controls country)) \<and>
      mc_out_disabled (control_run [Click_In, Zoomed 18] (install_controls country)))"
  using controls_mirror_the_camera(3) [of country "[Click_In, Zoomed 18]"] by (simp add: country_def ZOOM_SLACK_def)

lemma heading_reads_back_witness:
  "mc_heading (control_run [Heading 180, Rotated 180] (control_run [Click_Compass] (install_controls country))) = - 180"
  using heading_reads_back(1) [of "control_run [Click_Compass] (install_controls country)" 180 180 0]
  by (simp add: control_run_def install_controls_def control_defs Let_def)

end
