(* ===== verification/Preferences.thy ===== *)
theory Preferences
  imports Storage Url_Params
begin

text \<open>
  The masthead's theme picker (\<open>web/src/islands/theme.js\<close>), "clear my settings" of the about page
  (\<open>web/src/islands/clearsettings.js\<close>), the menus of the masthead (\<open>web/src/lib/disclosure.js\<close>) and the
  button back to the top (\<open>web/src/lib/backtotop.js\<close>). The script that runs before the first paint
  (\<open>internal/web/static/theme-init.js\<close>) is modelled as well, since the picker relies on it: it reads
  the browser's storage itself and leaves the choice on the page's root element.
\<close>

section \<open>The theme\<close>

datatype theme = Auto | Light | Dark

definition THEMES :: "theme list" where
  "THEMES = [Auto, Light, Dark]"

definition THEME_KEY :: string where
  "THEME_KEY = ''kanarche:theme''"

fun spell_theme :: "theme \<Rightarrow> string" where
  "spell_theme Auto = ''auto''"
| "spell_theme Light = ''light''"
| "spell_theme Dark = ''dark''"

definition override_of :: "string option \<Rightarrow> theme option" where
  "override_of v = (if v = Some ''light'' then Some Light else if v = Some ''dark'' then Some Dark else None)"

text \<open>The stored choice, nothing usable reading as no choice.\<close>

definition stored_theme :: "js_error + string option \<Rightarrow> theme" where
  "stored_theme r = (case r of Inl _ \<Rightarrow> Auto | Inr v \<Rightarrow> (case override_of v of Some t \<Rightarrow> t | None \<Rightarrow> Auto))"

text \<open>What the page wears is read first.\<close>

definition readTheme :: "string option \<Rightarrow> storage option \<Rightarrow> theme" where
  "readTheme attr st = (case override_of attr of Some t \<Rightarrow> t | None \<Rightarrow> stored_theme (try_get st THEME_KEY))"

definition writeTheme :: "theme \<Rightarrow> string option \<times> storage option \<Rightarrow> string option \<times> storage option" where
  "writeTheme t page = (if t = Auto then (None, try_remove (snd page) THEME_KEY)
     else (Some (spell_theme t), try_set (snd page) THEME_KEY (spell_theme t)))"

text \<open>Before the first paint: the bare storage, the old key behind the new one.\<close>

definition theme_init :: "storage_access \<Rightarrow> string option" where
  "theme_init a = (case a of
      Access_Ok s \<Rightarrow> (case raw_get s THEME_KEY of
          Inl _ \<Rightarrow> None
        | Inr v \<Rightarrow> (let stored = (if v = None \<or> v = Some [] then raw_get s ''airbg:theme'' else Inr v) in
            (case stored of Inl _ \<Rightarrow> None | Inr w \<Rightarrow> map_option spell_theme (override_of w))))
    | _ \<Rightarrow> None)"

record theme_picker =
  tp_attr :: "string option"
  tp_store :: "storage option"
  tp_shown :: theme
  tp_open :: bool

text \<open>The island mounts on what \<open>theme_init\<close> left; a pick draws the picker anew from what is read back.\<close>

definition mount_theme :: "storage_access \<Rightarrow> theme_picker" where
  "mount_theme a = \<lparr>tp_attr = theme_init a, tp_store = safeStorage a,
     tp_shown = readTheme (theme_init a) (safeStorage a), tp_open = False\<rparr>"

definition pick_theme :: "theme \<Rightarrow> theme_picker \<Rightarrow> theme_picker" where
  "pick_theme t p = (case writeTheme t (tp_attr p, tp_store p) of (attr, st) \<Rightarrow>
     \<lparr>tp_attr = attr, tp_store = st, tp_shown = readTheme attr st, tp_open = False\<rparr>)"

lemma override_spell [simp]:
  "override_of (Some (spell_theme t)) = (if t = Auto then None else Some t)"
  "override_of None = None"
  by (cases t) (simp_all add: override_of_def)

interpretation theme_pref: stored_preference getItem setItem removeItem storage_working app_key
    THEME_KEY spell_theme stored_theme "\<lambda>t. t \<noteq> Auto" Auto
  by unfold_locales
    (auto simp: app_key_def starts_with_def KEY_PREFIX_def THEME_KEY_def stored_theme_def)

text \<open>Both ways of reading the stored choice agree, on the browser's storage and through the wrapper.\<close>

definition theme_key_sound :: "storage \<Rightarrow> bool" where
  "theme_key_sound s \<longleftrightarrow> items s THEME_KEY \<noteq> Some []"

lemma init_reads_stored:
  assumes "storage_working s" "theme_key_sound s"
  shows "theme_init (Access_Ok s) = (if stored_theme (getItem s THEME_KEY) = Auto then None
    else Some (spell_theme (stored_theme (getItem s THEME_KEY))))"
  using assms
  by (auto simp: theme_init_def theme_key_sound_def storage_working_def raw_get_def getItem_def stored_theme_def
      legacyKey_def starts_with_def KEY_PREFIX_def LEGACY_PREFIX_def THEME_KEY_def override_of_def Let_def
      split: option.splits)

lemma pick_stored:
  assumes "storage_working s" "tp_store p = Some s"
  obtains s' where "tp_store (pick_theme t p) = Some s'" "storage_working s'" "theme_key_sound s'"
    "stored_theme (getItem s' THEME_KEY) = t" "tp_attr (pick_theme t p) = (if t = Auto then None else Some (spell_theme t))"
    "tp_shown (pick_theme t p) = t"
proof (cases "t = Auto")
  case True
  let ?s = "snd (removeItem s THEME_KEY)"
  have "storage_working ?s" "stored_theme (getItem ?s THEME_KEY) = Auto"
    using assms(1) by (simp_all add: ls.working_remove theme_pref.remove_then_read)
  moreover have "theme_key_sound ?s"
    using assms(1) by (auto simp: theme_key_sound_def removeItem_def raw_remove_def storage_working_def split: option.splits)
  ultimately show ?thesis using True assms(2)
    by (intro that [of ?s]) (simp_all add: pick_theme_def writeTheme_def try_remove_def readTheme_def try_get_def)
next
  case False
  let ?s = "snd (setItem s THEME_KEY (spell_theme t))"
  have "storage_working ?s" "stored_theme (getItem ?s THEME_KEY) = t"
    using assms(1) False by (simp_all add: ls.working_put theme_pref.write_then_read)
  moreover have "theme_key_sound ?s"
    using assms(1) False by (cases t) (auto simp: theme_key_sound_def setItem_def raw_set_def raw_remove_def
        storage_working_def legacyKey_def starts_with_def KEY_PREFIX_def LEGACY_PREFIX_def THEME_KEY_def)
  ultimately show ?thesis using False assms(2)
    by (intro that [of ?s]) (simp_all add: pick_theme_def writeTheme_def try_set_def readTheme_def)
qed

lemma picks_stored:
  "storage_working s \<Longrightarrow> tp_store p = Some s \<Longrightarrow> \<exists>s'. tp_store (fold pick_theme ts p) = Some s' \<and> storage_working s'"
proof (induction ts arbitrary: p s)
  case (Cons t ts)
  from Cons.prems obtain s1 where "tp_store (pick_theme t p) = Some s1" "storage_working s1"
    by (rule pick_stored)
  with Cons.IH show ?case by simp
qed simp

text \<open>C37. The theme the reader picks last is the one the picker shows and the page wears, and the next
  page opens in it: its first paint and its picker agree with the choice, an old key notwithstanding.
  Where nothing can be stored, a light or dark choice still holds for the page it was made on.
\<close>

theorem theme_choice_survives:
  fixes p t ts
  defines "q \<equiv> pick_theme t (fold pick_theme ts p)"
  shows "(tp_store p = Some s \<and> storage_working s \<longrightarrow> tp_shown q = t \<and>
      tp_attr q = (if t = Auto then None else Some (spell_theme t)) \<and>
      (\<exists>s'. tp_store q = Some s' \<and> tp_attr (mount_theme (Access_Ok s')) = tp_attr q \<and> tp_shown (mount_theme (Access_Ok s')) = t)) \<and>
    (t \<noteq> Auto \<longrightarrow> tp_shown q = t \<and> tp_attr q = Some (spell_theme t))"
proof (intro conjI)
  show "tp_store p = Some s \<and> storage_working s \<longrightarrow> tp_shown q = t \<and>
      tp_attr q = (if t = Auto then None else Some (spell_theme t)) \<and>
      (\<exists>s'. tp_store q = Some s' \<and> tp_attr (mount_theme (Access_Ok s')) = tp_attr q \<and> tp_shown (mount_theme (Access_Ok s')) = t)"
  proof
    assume "tp_store p = Some s \<and> storage_working s"
    then obtain s1 where "storage_working s1" "tp_store (fold pick_theme ts p) = Some s1"
      using picks_stored by blast
    then obtain s' where s': "tp_store q = Some s'" "storage_working s'" "theme_key_sound s'"
      "stored_theme (getItem s' THEME_KEY) = t" "tp_attr q = (if t = Auto then None else Some (spell_theme t))" "tp_shown q = t"
      unfolding q_def by (rule pick_stored)
    have "theme_init (Access_Ok s') = tp_attr q" using s' init_reads_stored by auto
    moreover from this have "tp_shown (mount_theme (Access_Ok s')) = t"
      using s' by (simp add: mount_theme_def readTheme_def safeStorage_def try_get_def)
    ultimately show "tp_shown q = t \<and> tp_attr q = (if t = Auto then None else Some (spell_theme t)) \<and>
      (\<exists>s'. tp_store q = Some s' \<and> tp_attr (mount_theme (Access_Ok s')) = tp_attr q \<and> tp_shown (mount_theme (Access_Ok s')) = t)"
      using s' by (auto simp: mount_theme_def)
  qed
  show "t \<noteq> Auto \<longrightarrow> tp_shown q = t \<and> tp_attr q = Some (spell_theme t)"
    by (simp add: q_def pick_theme_def writeTheme_def readTheme_def)
qed

text \<open>A stored choice that can be read and not removed: the page lets go of it and the picker does not.\<close>

lemma refused_removal_shows_stored:
  assumes "remove_throws s" "\<not> get_throws s" "items s THEME_KEY = Some ''dark''" "tp_store p = Some s"
  shows "tp_attr (pick_theme Auto p) = None \<and> tp_shown (pick_theme Auto p) = Dark"
  using assms by (simp add: pick_theme_def writeTheme_def try_remove_def removeItem_def raw_remove_def readTheme_def
      try_get_def getItem_def raw_get_def stored_theme_def override_of_def legacyKey_def starts_with_def KEY_PREFIX_def
      THEME_KEY_def)

definition dark_before_rename :: storage where
  "dark_before_rename = \<lparr>items = [''airbg:theme'' \<mapsto> ''dark''], get_throws = False, set_throws = False, remove_throws = False\<rparr>"

lemma theme_choice_survives_witness:
  "tp_shown (mount_theme (Access_Ok dark_before_rename)) = Dark \<and>
   (\<exists>s'. tp_store (pick_theme Auto (fold pick_theme [Light] (mount_theme (Access_Ok dark_before_rename)))) = Some s' \<and>
      tp_shown (mount_theme (Access_Ok s')) = Auto)"
proof -
  have "storage_working dark_before_rename" "tp_store (mount_theme (Access_Ok dark_before_rename)) = Some dark_before_rename"
    by (simp_all add: dark_before_rename_def storage_working_def mount_theme_def safeStorage_def)
  moreover have "tp_shown (mount_theme (Access_Ok dark_before_rename)) = Dark"
    by (simp add: mount_theme_def theme_init_def raw_get_def dark_before_rename_def THEME_KEY_def readTheme_def override_of_def)
  ultimately show ?thesis
    using theme_choice_survives [of "mount_theme (Access_Ok dark_before_rename)" dark_before_rename Auto "[Light]"] by auto
qed

section \<open>Clearing the settings\<close>

definition cleared_keys :: "string \<Rightarrow> string list" where
  "cleared_keys dataset = filter (\<lambda>k. k \<noteq> []) (map trim (split_on CHR '','' dataset))"

definition clearKeys :: "string list \<Rightarrow> storage option \<Rightarrow> storage option" where
  "clearKeys keys st = (case st of None \<Rightarrow> None
     | Some s \<Rightarrow> Some (fold (\<lambda>k s. snd (removeItem s k)) keys s))"

context kv_store
begin

lemma fold_remove_working: "working s \<Longrightarrow> working (fold (\<lambda>k s. snd (remove s k)) ks s)"
  by (induction ks arbitrary: s) (simp_all add: working_remove)

lemma fold_remove_other:
  "working s \<Longrightarrow> owned j \<Longrightarrow> list_all owned ks \<Longrightarrow> j \<notin> set ks \<Longrightarrow>
     get (fold (\<lambda>k s. snd (remove s k)) ks s) j = get s j"
  by (induction ks arbitrary: s) (simp_all add: working_remove get_remove_other)

lemma fold_remove_gone:
  "working s \<Longrightarrow> list_all owned ks \<Longrightarrow> j \<in> set ks \<Longrightarrow> get (fold (\<lambda>k s. snd (remove s k)) ks s) j = Inr None"
proof (induction ks arbitrary: s)
  case (Cons k ks)
  show ?case
  proof (cases "j \<in> set ks")
    case False
    with Cons.prems have "owned j" "j = k" by (auto simp: list_all_iff)
    with False Cons.prems show ?thesis by (simp add: fold_remove_other working_remove get_remove)
  qed (use Cons in \<open>simp add: working_remove\<close>)
qed simp

end

text \<open>Clearing forgets the listed settings and nothing else: each of them reads afterwards as on a
  first visit, whichever of its two spellings held it, and every other setting reads as before; so
  the page that lists the theme opens in the system's own.
\<close>

theorem clearing_forgets_exactly_the_listed:
  assumes w: "storage_working s" and keys: "list_all app_key (cleared_keys dataset)"
  shows "\<exists>s'. clearKeys (cleared_keys dataset) (Some s) = Some s' \<and> storage_working s' \<and>
    (\<forall>k. app_key k \<longrightarrow> getItem s' k = (if k \<in> set (cleared_keys dataset) then Inr None else getItem s k)) \<and>
    (\<forall>k b. k \<in> set (cleared_keys dataset) \<longrightarrow> readFlag k b (Some s') = b) \<and>
    (THEME_KEY \<in> set (cleared_keys dataset) \<longrightarrow> readTheme None (Some s') = Auto)"
proof (intro exI conjI)
  let ?s = "fold (\<lambda>k s. snd (removeItem s k)) (cleared_keys dataset) s"
  show "clearKeys (cleared_keys dataset) (Some s) = Some ?s" by (simp add: clearKeys_def)
  show "storage_working ?s" using w by (rule ls.fold_remove_working)
  have gone: "k \<in> set (cleared_keys dataset) \<Longrightarrow> getItem ?s k = Inr None" for k
    using w keys by (rule ls.fold_remove_gone)
  then show "\<forall>k. app_key k \<longrightarrow> getItem ?s k = (if k \<in> set (cleared_keys dataset) then Inr None else getItem s k)"
    using ls.fold_remove_other [OF w _ keys] by auto
  show "\<forall>k b. k \<in> set (cleared_keys dataset) \<longrightarrow> readFlag k b (Some ?s) = b"
    using gone by (simp add: readFlag_def try_get_def)
  show "THEME_KEY \<in> set (cleared_keys dataset) \<longrightarrow> readTheme None (Some ?s) = Auto"
    using gone by (simp add: readTheme_def try_get_def stored_theme_def)
qed

lemma clearing_forgets_exactly_the_listed_witness:
  "\<exists>s'. clearKeys (cleared_keys ''kanarche:theme, kanarche:legend-open'') (Some dark_before_rename) = Some s' \<and>
     readTheme None (Some s') = Auto"
proof -
  have k: "cleared_keys ''kanarche:theme, kanarche:legend-open'' = [''kanarche:theme'', ''kanarche:legend-open'']"
    by code_simp
  have "storage_working dark_before_rename"
    by (simp add: dark_before_rename_def storage_working_def)
  moreover have "list_all app_key [''kanarche:theme'', ''kanarche:legend-open'']"
    by (simp add: app_key_def starts_with_def KEY_PREFIX_def)
  ultimately show ?thesis
    using clearing_forgets_exactly_the_listed [of dark_before_rename "''kanarche:theme, kanarche:legend-open''"]
    unfolding k by (auto simp: THEME_KEY_def)
qed

section \<open>The masthead's menus\<close>

text \<open>Which of the menus are open. A summary's own click is followed by the browser's toggle of its menu.\<close>

definition closeAll :: "nat option \<Rightarrow> bool list \<Rightarrow> bool list" where
  "closeAll except ms = map (\<lambda>i. ms ! i \<and> except = Some i) [0..<length ms]"

datatype menu_click = On_Summary nat | Inside nat | Outside_Menus | Escape_Key

text \<open>A press inside a menu that redraws it (the theme's) finds no menu around it any more, and closes all.\<close>

fun soleOpen :: "menu_click \<Rightarrow> bool list \<Rightarrow> bool list" where
  "soleOpen (On_Summary i) ms = (if i < length ms then (closeAll (Some i) ms)[i := \<not> ms ! i] else ms)"
| "soleOpen (Inside i) ms = closeAll (Some i) ms"
| "soleOpen Outside_Menus ms = closeAll None ms"
| "soleOpen Escape_Key ms = closeAll None ms"

definition one_open :: "bool list \<Rightarrow> bool" where
  "one_open ms \<longleftrightarrow> (\<forall>i < length ms. \<forall>j < length ms. ms ! i \<longrightarrow> ms ! j \<longrightarrow> i = j)"

lemma closeAll_nth [simp]: "i < length ms \<Longrightarrow> closeAll e ms ! i = (ms ! i \<and> e = Some i)"
  and closeAll_length [simp]: "length (closeAll e ms) = length ms"
  by (simp_all add: closeAll_def)

lemma soleOpen_one: "one_open (soleOpen c ms) \<or> (soleOpen c ms = ms)"
  by (cases c) (auto simp: one_open_def nth_list_update)

lemma one_menu_at_a_time: "one_open ms \<Longrightarrow> one_open (fold soleOpen cs ms)"
proof (induction cs arbitrary: ms)
  case (Cons c cs)
  then show ?case using soleOpen_one [of c ms] by (metis fold_simps(2))
qed simp

section \<open>Back to the top\<close>

text \<open>Shown once the map has left through the top; \<open>bottom\<close> is its lower edge from the top of the screen.\<close>

definition top_button_visible :: "bool \<Rightarrow> real \<Rightarrow> bool" where
  "top_button_visible intersecting bottom \<longleftrightarrow> \<not> intersecting \<and> bottom \<le> 0"

end
