(* ===== verification/Sensor_Panel.thy ===== *)
theory Sensor_Panel
  imports Url_Params "HOL-Library.AList"
begin

text \<open>
  The open sensor's panel (\<open>web/src/islands/panel.js\<close>): which chart it holds and what it says of a
  failed check; how the page moves to the card and back on a phone (\<open>web/src/lib/panelscroll.js\<close>,
  \<open>web/src/lib/panelwatch.svelte.js\<close>); the age beside the title (\<open>web/src/lib/relativeage.js\<close>); and the menus
  of its chart (\<open>PanelMoreMenu.svelte\<close>, \<open>NearbyPicker.svelte\<close>, \<open>MetricMenu.svelte\<close>). The registry
  that resolves a sensor, the chart itself and the browser's words for an age are arguments.
\<close>

section \<open>The chart of the open station\<close>

text \<open>
  A chart and a link are named by when they were made. The initial link belongs to no chart; a chart
  is built for its sensor together with a link of its own.
\<close>

record chart_memo =
  me_id :: "nat option"
  me_snippet :: "nat option"
  me_link :: nat
  me_made :: nat
  me_built :: "(nat \<times> nat) list"

definition new_memo :: chart_memo where
  "new_memo = \<lparr>me_id = None, me_snippet = None, me_link = 0, me_made = 0, me_built = []\<rparr>"

text \<open>\<open>me_built\<close>: the sensor and the link each chart was built with.\<close>

definition chartFor :: "nat option \<Rightarrow> chart_memo \<Rightarrow> nat option \<times> chart_memo" where
  "chartFor sensor m = (if sensor = me_id m then (me_snippet m, m)
     else let link = me_made m + 1 in case sensor of
        None \<Rightarrow> (None, m\<lparr>me_id := None, me_link := link, me_made := link, me_snippet := None\<rparr>)
      | Some i \<Rightarrow> (Some (length (me_built m)), m\<lparr>me_id := Some i, me_link := link, me_made := link,
          me_snippet := Some (length (me_built m)), me_built := me_built m @ [(i, link)]\<rparr>))"

text \<open>The two getters: each reads the chart first.\<close>

definition get_chart :: "nat option \<Rightarrow> chart_memo \<Rightarrow> nat option \<times> chart_memo" where
  "get_chart sensor m = chartFor sensor m"

definition get_link :: "nat option \<Rightarrow> chart_memo \<Rightarrow> nat \<times> chart_memo" where
  "get_link sensor m = (let t = snd (chartFor sensor m) in (me_link t, t))"

text \<open>One reading of the properties: the sensor open at that moment, and which getter runs.\<close>

definition read_memo :: "bool \<times> nat option \<Rightarrow> chart_memo \<Rightarrow> chart_memo" where
  "read_memo r m = (if fst r then snd (get_chart (snd r) m) else snd (get_link (snd r) m))"

text \<open>The stations that were opened: a reading counts where it differs from the one before.\<close>

fun stations_opened :: "nat option \<Rightarrow> nat option list \<Rightarrow> nat list" where
  "stations_opened prev [] = []"
| "stations_opened prev (s # ss) = (if s = prev then [] else (case s of None \<Rightarrow> [] | Some i \<Rightarrow> [i])) @ stations_opened s ss"

lemma chartFor_cases:
  obtains (same) "me_id m = s" "chartFor s m = (me_snippet m, m)"
  | (gone) "s = None" "me_id m \<noteq> None"
      "chartFor s m = (None, m\<lparr>me_id := None, me_link := me_made m + 1, me_made := me_made m + 1, me_snippet := None\<rparr>)"
  | (opened) i where "s = Some i" "me_id m \<noteq> Some i"
      "chartFor s m = (Some (length (me_built m)), m\<lparr>me_id := Some i, me_link := me_made m + 1,
         me_made := me_made m + 1, me_snippet := Some (length (me_built m)), me_built := me_built m @ [(i, me_made m + 1)]\<rparr>)"
  by (cases "me_id m = s"; cases s) (auto simp: chartFor_def Let_def)

definition links_ok :: "chart_memo \<Rightarrow> bool" where
  "links_ok m \<longleftrightarrow> me_link m = me_made m \<and> distinct (map snd (me_built m)) \<and> (\<forall>b \<in> set (me_built m). snd b \<le> me_made m)"

definition shown_ok :: "chart_memo \<Rightarrow> bool" where
  "shown_ok m \<longleftrightarrow> (case me_id m of None \<Rightarrow> me_snippet m = None
     | Some i \<Rightarrow> me_built m \<noteq> [] \<and> me_snippet m = Some (length (me_built m) - 1) \<and> last (me_built m) = (i, me_link m))"

definition memo_ok :: "chart_memo \<Rightarrow> bool" where
  "memo_ok m \<longleftrightarrow> links_ok m \<and> shown_ok m"

lemma links_ok_chart:
  assumes "links_ok m"
  shows "links_ok (snd (chartFor s m))"
proof -
  have le: "snd b \<le> me_made m" if "b \<in> set (me_built m)" for b using assms that by (simp add: links_ok_def)
  then have fresh: "me_made m + 1 \<notin> snd ` set (me_built m)" by fastforce
  show ?thesis
    by (cases rule: chartFor_cases [of m s])
      (use assms le fresh in \<open>auto simp: links_ok_def intro: le_SucI\<close>)
qed

lemma shown_ok_chart: "shown_ok m \<Longrightarrow> shown_ok (snd (chartFor s m))"
  by (cases rule: chartFor_cases [of m s]) (simp_all, simp_all add: shown_ok_def)

lemma chart_opened:
  "me_id (snd (chartFor s m)) = s"
  "map fst (me_built (snd (chartFor s m))) = map fst (me_built m) @ stations_opened (me_id m) [s]"
  "fst (chartFor s m) = me_snippet (snd (chartFor s m))"
  by (cases rule: chartFor_cases [of m s]; auto)+

lemma memo_ok_chart: "memo_ok m \<Longrightarrow> memo_ok (snd (chartFor s m))"
  by (simp add: memo_ok_def links_ok_chart shown_ok_chart)

lemma memo_ok_read: "memo_ok m \<Longrightarrow> memo_ok (read_memo r m) \<and> me_id (read_memo r m) = snd r \<and>
    map fst (me_built (read_memo r m)) = map fst (me_built m) @ stations_opened (me_id m) [snd r]"
  by (simp add: read_memo_def get_chart_def get_link_def Let_def memo_ok_chart chart_opened del: stations_opened.simps)

lemma memo_run:
  "memo_ok m \<Longrightarrow> memo_ok (fold read_memo rs m) \<and>
     map fst (me_built (fold read_memo rs m)) = map fst (me_built m) @ stations_opened (me_id m) (map snd rs)"
proof (induction rs arbitrary: m)
  case (Cons r rs)
  show ?case using Cons.IH [of "read_memo r m"] memo_ok_read [OF Cons.prems, of r]
    by simp
qed simp

text \<open>However often the panel's properties are read while stations open, close and change, a chart
  is built exactly once for each opening, in the order of the openings, with a link of its own that
  no other chart had; and the chart and the link read for an open station are the two that were
  built for it.
\<close>

theorem one_chart_per_opening:
  fixes rs and s :: "nat option"
  defines "m \<equiv> fold read_memo rs new_memo"
  shows "map fst (me_built m) = stations_opened None (map snd rs)"
    and "distinct (map snd (me_built m))"
    and "case s of None \<Rightarrow> fst (get_chart s m) = None
       | Some i \<Rightarrow> \<exists>k. fst (get_chart s m) = Some k \<and> k < length (me_built (snd (get_chart s m))) \<and>
            me_built (snd (get_chart s m)) ! k = (i, fst (get_link s (snd (get_chart s m))))"
proof -
  have "memo_ok new_memo" by (simp add: memo_ok_def links_ok_def shown_ok_def new_memo_def)
  from memo_run [OF this, of rs] have m: "memo_ok m" "map fst (me_built m) = stations_opened None (map snd rs)"
    by (simp_all add: m_def new_memo_def)
  then show "map fst (me_built m) = stations_opened None (map snd rs)" "distinct (map snd (me_built m))"
    by (simp_all add: memo_ok_def links_ok_def)
  let ?t = "snd (chartFor s m)"
  have t: "shown_ok ?t" "me_id ?t = s" using memo_ok_chart [OF m(1)] chart_opened(1) by (simp_all add: memo_ok_def)
  have again: "chartFor s ?t = (me_snippet ?t, ?t)" using t(2) by (simp add: chartFor_def [of s ?t])
  note chart = chart_opened(3) [of s m]
  show "case s of None \<Rightarrow> fst (get_chart s m) = None
       | Some i \<Rightarrow> \<exists>k. fst (get_chart s m) = Some k \<and> k < length (me_built (snd (get_chart s m))) \<and>
            me_built (snd (get_chart s m)) ! k = (i, fst (get_link s (snd (get_chart s m))))"
    using t unfolding shown_ok_def get_chart_def get_link_def again chart Let_def fst_conv snd_conv
    by (cases s) (auto simp: last_conv_nth)
qed

lemma one_chart_per_opening_witness:
  "map fst (me_built (fold read_memo [(True, Some 7), (False, Some 7), (True, None), (True, Some 7)] new_memo)) = [7, 7]"
  using one_chart_per_opening(1) [of "[(True, Some 7), (False, Some 7), (True, None), (True, Some 7)]"] by simp

section \<open>What failed\<close>

text \<open>The catalogue has a text for a failure, and none for anything else the server may say.\<close>

definition flagTextFor :: "string \<Rightarrow> (string \<rightharpoonup> string) \<Rightarrow> string" where
  "flagTextFor flag catalogue = (case catalogue flag of Some t \<Rightarrow> t | None \<Rightarrow> [])"

definition flagCatalogueFrom :: "(string \<rightharpoonup> string) \<Rightarrow> (string \<rightharpoonup> string)" where
  "flagCatalogueFrom d = (let entry = (\<lambda>k. Some (case d k of Some t \<Rightarrow> t | None \<Rightarrow> [])) in
     Map.empty(''out_of_range'' := entry ''tFlagOutOfRange'', ''stuck'' := entry ''tFlagStuck'',
      ''spatial_outlier'' := entry ''tFlagSpatialOutlier'', ''source_invalid'' := entry ''tFlagSourceInvalid'',
      ''clamped'' := entry ''tFlagClamped''))"

text \<open>A name that is missing or empty is replaced by the metric's own.\<close>

definition metric_name :: "(string \<rightharpoonup> string) \<Rightarrow> string \<Rightarrow> string" where
  "metric_name labels metric = (case labels metric of Some l \<Rightarrow> if l = [] then metric else l | None \<Rightarrow> metric)"

definition add_name :: "string \<Rightarrow> string \<Rightarrow> (string \<times> string list) list \<Rightarrow> (string \<times> string list) list" where
  "add_name flag name groups = (case map_of groups flag of
      None \<Rightarrow> groups @ [(flag, [name])]
    | Some names \<Rightarrow> AList.update flag (names @ [name]) groups)"

definition add_flag :: "(string \<rightharpoonup> string) \<Rightarrow> (string \<rightharpoonup> string) \<Rightarrow> string \<times> string \<Rightarrow> (string \<times> string list) list \<Rightarrow> (string \<times> string list) list" where
  "add_flag catalogue labels mf groups = (if flagTextFor (snd mf) catalogue = [] then groups
     else add_name (snd mf) (metric_name labels (fst mf)) groups)"

definition flag_groups :: "(string \<rightharpoonup> string) \<Rightarrow> (string \<rightharpoonup> string) \<Rightarrow> (string \<times> string) list \<Rightarrow> (string \<times> string list) list" where
  "flag_groups catalogue labels flags = fold (add_flag catalogue labels) flags []"

record failed_checks =
  fc_flag :: string
  fc_flags :: "(string \<times> string) list option"

definition flagTextForSensor :: "failed_checks option \<Rightarrow> (string \<rightharpoonup> string) \<Rightarrow> (string \<rightharpoonup> string) \<Rightarrow> string" where
  "flagTextForSensor sensor catalogue labels = (case sensor of None \<Rightarrow> []
     | Some f \<Rightarrow> (case fc_flags f of None \<Rightarrow> flagTextFor (fc_flag f) catalogue
        | Some flags \<Rightarrow> join_with '' '' (map (\<lambda>(flag, names). join_with '', '' names @ '': '' @ flagTextFor flag catalogue)
            (flag_groups catalogue labels flags))))"

lemma add_name_facts:
  "map_of (add_name flag name gs) f = (if f = flag then Some ((case map_of gs flag of None \<Rightarrow> [] | Some ns \<Rightarrow> ns) @ [name])
     else map_of gs f)"
  "distinct (map fst gs) \<Longrightarrow> distinct (map fst (add_name flag name gs))"
proof -
  show "map_of (add_name flag name gs) f = (if f = flag then Some ((case map_of gs flag of None \<Rightarrow> [] | Some ns \<Rightarrow> ns) @ [name])
     else map_of gs f)"
    by (auto simp: add_name_def map_of_append map_add_def update_conv' split: option.splits)
  show "distinct (map fst gs) \<Longrightarrow> distinct (map fst (add_name flag name gs))"
    by (auto simp: add_name_def map_of_eq_None_iff distinct_update split: option.splits)
qed

definition failing :: "(string \<rightharpoonup> string) \<Rightarrow> string \<Rightarrow> (string \<times> string) list \<Rightarrow> string list" where
  "failing labels f flags = map (metric_name labels \<circ> fst) (filter (\<lambda>mf. snd mf = f) flags)"

lemma groups_distinct: "distinct (map fst gs) \<Longrightarrow> distinct (map fst (fold (add_flag catalogue labels) flags gs))"
  by (induction flags arbitrary: gs) (simp_all add: add_flag_def add_name_facts(2))

lemma groups_names:
  "map_of (fold (add_flag catalogue labels) flags gs) f =
     (if flagTextFor f catalogue = [] \<or> failing labels f flags = [] then map_of gs f
      else Some ((case map_of gs f of None \<Rightarrow> [] | Some ns \<Rightarrow> ns) @ failing labels f flags))"
proof (induction flags arbitrary: gs)
  case (Cons mf flags)
  show ?case using Cons.IH [of "add_flag catalogue labels mf gs"]
    by (auto simp: add_flag_def add_name_facts(1) failing_def split: option.splits)
qed (simp add: failing_def)

text \<open>Each failed metric is named exactly once, under its own failure and in the order the sensor
  lists them, each failure is explained once, and whatever the catalogue has no text for is passed
  over.
\<close>

theorem failures_named_once:
  "distinct (map fst (flag_groups catalogue labels flags)) \<and>
   map_of (flag_groups catalogue labels flags) f =
     (if flagTextFor f catalogue = [] \<or> failing labels f flags = [] then None else Some (failing labels f flags))"
  by (simp add: flag_groups_def groups_distinct groups_names)

lemma failed_and_passed:
  "flagTextForSensor (Some \<lparr>fc_flag = ''stuck'', fc_flags = Some [(''t'', ''stuck''), (''h'', ''ok''), (''p'', ''stuck'')]\<rparr>)
     [''stuck'' \<mapsto> ''no change''] [''t'' \<mapsto> ''Temperature''] = ''Temperature, p: no change''"
  by code_simp

section \<open>To the card and back\<close>

text \<open>
  The reader's screen: whether it is a phone or a tablet, its height, whether the map fills it, and
  where on the page the card's top stands, if the card is on the page.
\<close>

record screen =
  sc_phone :: bool
  sc_height :: real
  sc_full :: bool
  sc_card :: "real option"

text \<open>\<open>ps_y\<close>: how far the page is scrolled; \<open>ps_focused\<close>: where the focus was last handed.\<close>

datatype handed = To_Card | To_Map

record panel_scroll =
  ps_return :: "real option"
  ps_y :: real
  ps_focused :: "handed option"

definition opened :: "bool \<Rightarrow> screen \<Rightarrow> panel_scroll \<Rightarrow> panel_scroll" where
  "opened initial sc p = (case sc_card sc of None \<Rightarrow> p
     | Some edge \<Rightarrow> if initial \<or> \<not> sc_phone sc \<or> sc_full sc then p
         else let above = edge - ps_y p in
           if 0 \<le> above \<and> above < sc_height sc * 3 / 5 then p
           else p\<lparr>ps_return := (case ps_return p of None \<Rightarrow> Some (ps_y p) | Some y \<Rightarrow> Some y),
                  ps_y := edge, ps_focused := Some To_Card\<rparr>)"

definition closed_panel :: "screen \<Rightarrow> panel_scroll \<Rightarrow> bool \<times> panel_scroll" where
  "closed_panel sc p = (case ps_return p of None \<Rightarrow> (False, p)
     | Some y \<Rightarrow> if sc_full sc then (False, p\<lparr>ps_return := None\<rparr>)
         else (True, p\<lparr>ps_return := None, ps_y := y\<rparr>))"

text \<open>The watch over the sensor shown; \<open>pw_pending\<close> are the openings that wait for the card's own render.\<close>

record panel_watch =
  pw_prev :: "nat option"
  pw_first :: bool
  pw_initial :: "nat option"
  pw_pending :: "(nat \<times> bool) list"
  pw_scroll :: panel_scroll

definition watchPanelScroll :: "nat option \<Rightarrow> real \<Rightarrow> panel_watch" where
  "watchPanelScroll initialId y = \<lparr>pw_prev = None, pw_first = (initialId \<noteq> None), pw_initial = initialId, pw_pending = [],
     pw_scroll = \<lparr>ps_return = None, ps_y = y, ps_focused = None\<rparr>\<rparr>"

definition shown_changed :: "nat option \<Rightarrow> screen \<Rightarrow> panel_watch \<Rightarrow> panel_watch" where
  "shown_changed sid sc w = (if sid = pw_prev w then w
     else let was = pw_prev w; v = w\<lparr>pw_prev := sid\<rparr> in case sid of
        None \<Rightarrow> (case closed_panel sc (pw_scroll v) of (went, p) \<Rightarrow>
            v\<lparr>pw_scroll := (if went then p\<lparr>ps_focused := Some To_Map\<rparr> else p)\<rparr>)
      | Some i \<Rightarrow> let initial = pw_first v \<and> was = None \<and> sid = pw_initial v in
            v\<lparr>pw_first := False, pw_pending := pw_pending v @ [(i, initial)]\<rparr>)"

definition after_tick :: "screen \<Rightarrow> panel_watch \<Rightarrow> panel_watch" where
  "after_tick sc w = (case pw_pending w of [] \<Rightarrow> w
     | (i, initial) # later \<Rightarrow> let v = w\<lparr>pw_pending := later\<rparr> in
         if pw_prev v = Some i then v\<lparr>pw_scroll := opened initial sc (pw_scroll v)\<rparr> else v)"

datatype panel_act = Shown "nat option" screen | Ticked screen | Reader_Scrolls real

fun panel_step :: "panel_act \<Rightarrow> panel_watch \<Rightarrow> panel_watch" where
  "panel_step (Shown sid sc) w = shown_changed sid sc w"
| "panel_step (Ticked sc) w = after_tick sc w"
| "panel_step (Reader_Scrolls y) w = w\<lparr>pw_scroll := (pw_scroll w)\<lparr>ps_y := y\<rparr>\<rparr>"

text \<open>An act that does not close the card.\<close>

definition keeps_card :: "panel_act \<Rightarrow> bool" where
  "keeps_card a \<longleftrightarrow> (\<forall>sc. a \<noteq> Shown None sc)"

lemma return_kept:
  "ps_return (pw_scroll w) = Some y \<Longrightarrow> keeps_card a \<Longrightarrow> ps_return (pw_scroll (panel_step a w)) = Some y"
  by (cases a) (auto simp: keeps_card_def shown_changed_def after_tick_def opened_def Let_def split: option.splits list.splits)

lemma return_kept_run:
  "ps_return (pw_scroll w) = Some y \<Longrightarrow> list_all keeps_card acts \<Longrightarrow> ps_return (pw_scroll (fold panel_step acts w)) = Some y"
  by (induction acts arbitrary: w) (simp_all add: return_kept)

lemma card_kept: "pw_prev w \<noteq> None \<Longrightarrow> keeps_card a \<Longrightarrow> pw_prev (panel_step a w) \<noteq> None"
  by (cases a) (auto simp: keeps_card_def shown_changed_def after_tick_def Let_def split: option.splits list.splits)

lemma card_kept_run: "pw_prev w \<noteq> None \<Longrightarrow> list_all keeps_card acts \<Longrightarrow> pw_prev (fold panel_step acts w) \<noteq> None"
  by (induction acts arbitrary: w) (simp_all add: card_kept del: not_None_eq)

lemma opened_first:
  assumes "ps_return p = None" "ps_y (opened initial sc p) \<noteq> ps_y p"
  shows "ps_return (opened initial sc p) = Some (ps_y p)"
  using assms by (auto simp: opened_def Let_def split: option.splits if_splits)

text \<open>On a phone, closing the card takes the reader back to where the page stood when the first of
  the cards opened in a row was brought into view, whatever the reader opened and scrolled in
  between, and hands the focus to the map; unless the map fills the screen by then. A card that was
  in the page's own link does not move the page at its first showing.
\<close>

theorem closing_returns_to_the_map:
  fixes w and sc :: screen
  defines "v \<equiv> after_tick sc w"
  shows "(pw_prev w \<noteq> None \<and> ps_return (pw_scroll w) = None \<and> ps_y (pw_scroll v) \<noteq> ps_y (pw_scroll w) \<and>
      list_all keeps_card acts \<and> \<not> sc_full end_sc \<longrightarrow>
      pw_scroll (shown_changed None end_sc (fold panel_step acts v)) =
        \<lparr>ps_return = None, ps_y = ps_y (pw_scroll w), ps_focused = Some To_Map\<rparr>) \<and>
    fold panel_step [Shown (Some i) sc1, Ticked sc2, Shown None sc3] (watchPanelScroll (Some i) y) =
      (watchPanelScroll (Some i) y)\<lparr>pw_first := False\<rparr>"
proof (intro conjI)
  show "pw_prev w \<noteq> None \<and> ps_return (pw_scroll w) = None \<and> ps_y (pw_scroll v) \<noteq> ps_y (pw_scroll w) \<and>
      list_all keeps_card acts \<and> \<not> sc_full end_sc \<longrightarrow>
      pw_scroll (shown_changed None end_sc (fold panel_step acts v)) =
        \<lparr>ps_return = None, ps_y = ps_y (pw_scroll w), ps_focused = Some To_Map\<rparr>"
  proof (intro impI, elim conjE)
    assume a: "pw_prev w \<noteq> None" "ps_return (pw_scroll w) = None" "ps_y (pw_scroll v) \<noteq> ps_y (pw_scroll w)"
      "list_all keeps_card acts" "\<not> sc_full end_sc"
    have "ps_return (pw_scroll v) = Some (ps_y (pw_scroll w))" "pw_prev v \<noteq> None"
      using a(1-3) opened_first [of "pw_scroll w"]
      by (auto simp: v_def after_tick_def Let_def split: list.splits if_splits)
    with a(4) have "ps_return (pw_scroll (fold panel_step acts v)) = Some (ps_y (pw_scroll w))"
      "pw_prev (fold panel_step acts v) \<noteq> None"
      by (simp_all add: return_kept_run card_kept_run del: not_None_eq)
    with a(5) show "pw_scroll (shown_changed None end_sc (fold panel_step acts v)) =
        \<lparr>ps_return = None, ps_y = ps_y (pw_scroll w), ps_focused = Some To_Map\<rparr>"
      by (auto simp: shown_changed_def closed_panel_def Let_def)
  qed
  show "fold panel_step [Shown (Some i) sc1, Ticked sc2, Shown None sc3] (watchPanelScroll (Some i) y) =
      (watchPanelScroll (Some i) y)\<lparr>pw_first := False\<rparr>"
    by (simp add: watchPanelScroll_def shown_changed_def after_tick_def opened_def closed_panel_def Let_def split: option.splits)
qed

definition phone_screen :: screen where
  "phone_screen = \<lparr>sc_phone = True, sc_height = 800, sc_full = False, sc_card = Some 900\<rparr>"

lemma closing_returns_to_the_map_witness:
  "ps_y (pw_scroll (fold panel_step [Shown (Some 3) phone_screen, Ticked phone_screen, Reader_Scrolls 1200, Shown (Some 4) phone_screen,
      Ticked phone_screen, Shown None phone_screen] (watchPanelScroll None 120))) = 120"
proof -
  let ?w = "panel_step (Shown (Some 3) phone_screen) (watchPanelScroll None 120)"
  have "pw_prev ?w \<noteq> None" "ps_return (pw_scroll ?w) = None"
    "ps_y (pw_scroll (after_tick phone_screen ?w)) \<noteq> ps_y (pw_scroll ?w)" "ps_y (pw_scroll ?w) = 120"
    by (simp_all add: watchPanelScroll_def shown_changed_def after_tick_def opened_def phone_screen_def Let_def)
  moreover have "list_all keeps_card [Reader_Scrolls 1200, Shown (Some 4) phone_screen, Ticked phone_screen]"
    by (simp add: keeps_card_def)
  ultimately show ?thesis
    using closing_returns_to_the_map [of ?w phone_screen "[Reader_Scrolls 1200, Shown (Some 4) phone_screen, Ticked phone_screen]"
        phone_screen] by (simp add: phone_screen_def)
qed

section \<open>How old the reading is\<close>

text \<open>The number and the unit handed to the browser's own wording; \<open>None\<close> is no text at all.\<close>

definition relativeAge :: "jsnum \<Rightarrow> jsnum \<Rightarrow> (int \<times> string) option" where
  "relativeAge at_time now = (case (at_time, now) of
      (Fin a, Fin n) \<Rightarrow> let seconds = math_round ((n - a) / 1000) in
        if seconds < - 60 then None
        else let minutes = max 0 (math_round (of_int seconds / 60));
                 pick = (if minutes \<ge> 1440 then (''day'', 1440) else if minutes \<ge> 60 then (''hour'', 60) else (''minute'', 1))
             in Some (- (minutes div snd pick), fst pick)
    | _ \<Rightarrow> None)"

lemma age_never_ahead: "relativeAge a n = Some (k, unit) \<Longrightarrow> k \<le> 0"
  by (auto simp: relativeAge_def Let_def pos_imp_zdiv_nonneg_iff split: jsnum.splits if_splits)

section \<open>Above the panel\<close>

text \<open>
  The camera's bottom padding follows what the bottom panel covers (\<open>web/src/lib/panelpadding.js\<close>),
  and an open sensor that the panel still covers is brought to the new centre. Where a point is on
  the screen is the renderer's to say.
\<close>

record padded_map =
  pp_covered :: real
  pp_padding :: real
  pp_flights :: "((real \<times> real) \<times> real) list"

definition EDGE :: real where
  "EDGE = 24"

definition keepSensorClear :: "(real \<times> real) option \<Rightarrow> (real \<times> real \<Rightarrow> real) \<Rightarrow> real \<Rightarrow> padded_map \<Rightarrow> padded_map" where
  "keepSensorClear sensor screen_y height p = (if pp_covered p = 0 then p else case sensor of None \<Rightarrow> p
     | Some at_point \<Rightarrow> if height - pp_covered p - EDGE < screen_y at_point \<or> screen_y at_point < EDGE
         then p\<lparr>pp_flights := pp_flights p @ [(at_point, pp_covered p)]\<rparr> else p)"

definition onLayout :: "real \<Rightarrow> (real \<times> real) option \<Rightarrow> (real \<times> real \<Rightarrow> real) \<Rightarrow> real \<Rightarrow> padded_map \<Rightarrow> padded_map" where
  "onLayout h sensor screen_y height p = keepSensorClear sensor screen_y height
     (if h \<noteq> pp_covered p then p\<lparr>pp_covered := h, pp_padding := h\<rparr> else p)"

lemma padding_follows_panel:
  "pp_padding p = pp_covered p \<Longrightarrow> pp_padding (onLayout h sensor screen_y height p) = h \<and> pp_covered (onLayout h sensor screen_y height p) = h"
  by (auto simp: onLayout_def keepSensorClear_def split: option.splits)

lemma flies_only_to_covered:
  "pp_flights (onLayout h sensor screen_y height p) \<noteq> pp_flights p \<Longrightarrow>
     \<exists>q. sensor = Some q \<and> h \<noteq> 0 \<and> (height - h - EDGE < screen_y q \<or> screen_y q < EDGE)"
  by (auto simp: onLayout_def keepSensorClear_def split: option.splits if_splits)

end
