(* ===== verification/Panel_Menus.thy ===== *)
theory Panel_Menus
  imports Js_Prelude
begin

text \<open>
  The pop-ups of the panel and of the toolbar: the chart row's menu with its arrow keys and its sub
  menu (\<open>web/src/components/PanelMoreMenu.svelte\<close>), the choosers that share the two rules for closing
  (\<open>NearbyPicker.svelte\<close>, \<open>MetricMenu.svelte\<close>, \<open>closeOnOutside\<close> and \<open>closeOnEscape\<close> of
  \<open>web/src/lib/menu.js\<close>). A component redraws before the focus is moved; the two count as one step.
\<close>

section \<open>The chart row's menu\<close>

text \<open>Of an item: its key, whether it is disabled, whether it opens the sub menu.\<close>

record menu_item =
  mi_key :: string
  mi_disabled :: bool
  mi_sub :: bool

datatype menu_focus = On_Row nat | On_Trigger | Away

text \<open>\<open>mm_view\<close> is the item whose sub menu is shown; \<open>mm_ran\<close> what was run, oldest first.\<close>

record more_menu =
  mm_open :: bool
  mm_view :: "nat option"
  mm_focus :: menu_focus
  mm_ran :: "string list"

definition new_menu :: more_menu where
  "new_menu = \<lparr>mm_open = False, mm_view = None, mm_focus = Away, mm_ran = []\<rparr>"

text \<open>The rows that take focus: all items, or the row that leads back from the sub menu.\<close>

definition focusables :: "menu_item list \<Rightarrow> more_menu \<Rightarrow> nat" where
  "focusables items m = (if \<not> mm_open m then 0 else case mm_view m of None \<Rightarrow> length items | Some _ \<Rightarrow> 1)"

fun first_enabled :: "menu_item list \<Rightarrow> nat option" where
  "first_enabled [] = None"
| "first_enabled (it # its) = (if \<not> mi_disabled it then Some 0 else map_option Suc (first_enabled its))"

definition show_menu :: "menu_item list \<Rightarrow> more_menu \<Rightarrow> more_menu" where
  "show_menu items m = (let v = m\<lparr>mm_open := True, mm_view := None\<rparr> in
     case first_enabled items of None \<Rightarrow> v | Some i \<Rightarrow> v\<lparr>mm_focus := On_Row i\<rparr>)"

text \<open>A row that disappears takes the focus with it.\<close>

definition lose_row :: "more_menu \<Rightarrow> more_menu" where
  "lose_row m = (case mm_focus m of On_Row _ \<Rightarrow> m\<lparr>mm_focus := Away\<rparr> | _ \<Rightarrow> m)"

definition close_menu :: "bool \<Rightarrow> more_menu \<Rightarrow> more_menu" where
  "close_menu refocus m = (let v = lose_row (m\<lparr>mm_open := False, mm_view := None\<rparr>) in
     if refocus then v\<lparr>mm_focus := On_Trigger\<rparr> else v)"

text \<open>A press outside only closes; the sub menu it leaves behind is forgotten by the next opening.\<close>

definition press_outside :: "more_menu \<Rightarrow> more_menu" where
  "press_outside m = (if mm_open m then lose_row (m\<lparr>mm_open := False\<rparr>) else m)"

definition choose_item :: "menu_item list \<Rightarrow> nat \<Rightarrow> more_menu \<Rightarrow> more_menu" where
  "choose_item items i m = (let it = items ! i in
     if mi_disabled it then m
     else if mi_sub it then m\<lparr>mm_view := Some i, mm_focus := On_Row 0\<rparr>
     else let v = close_menu True m in v\<lparr>mm_ran := mm_ran v @ [mi_key it]\<rparr>)"

definition go_back :: "menu_item list \<Rightarrow> more_menu \<Rightarrow> more_menu" where
  "go_back items m = (let v = lose_row (m\<lparr>mm_view := None\<rparr>) in if items = [] then v else v\<lparr>mm_focus := On_Row 0\<rparr>)"

datatype menu_key = Escape_Menu | Tab_Menu | Arrow_Down | Arrow_Up | Home_Key | End_Key | Other_Key

text \<open>The focused row's place, -1 when none is.\<close>

definition focused_at :: "more_menu \<Rightarrow> int" where
  "focused_at m = (case mm_focus m of On_Row i \<Rightarrow> int i | _ \<Rightarrow> - 1)"

definition next_row :: "menu_key \<Rightarrow> int \<Rightarrow> nat \<Rightarrow> nat option" where
  "next_row k row n = (if n = 0 then None else case k of
      Arrow_Down \<Rightarrow> Some (nat ((row + 1 + int n) mod int n))
    | Arrow_Up \<Rightarrow> Some (nat ((row - 1 + int n) mod int n))
    | Home_Key \<Rightarrow> Some 0
    | End_Key \<Rightarrow> Some (n - 1)
    | _ \<Rightarrow> None)"

definition onkeydown :: "menu_item list \<Rightarrow> menu_key \<Rightarrow> more_menu \<Rightarrow> more_menu" where
  "onkeydown items k m = (if \<not> mm_open m then m
     else if k = Escape_Menu then close_menu True m
     else if k = Tab_Menu then close_menu False m
     else case next_row k (focused_at m) (focusables items m) of None \<Rightarrow> m | Some i \<Rightarrow> m\<lparr>mm_focus := On_Row i\<rparr>)"

datatype menu_act = Press_Trigger | Menu_Outside | Choose nat | Go_Back | Menu_Key menu_key | Focus_Leaves

text \<open>An item is chosen where it is drawn; the trigger takes the focus when it is pressed.\<close>

fun more_step :: "menu_item list \<Rightarrow> menu_act \<Rightarrow> more_menu \<Rightarrow> more_menu" where
  "more_step items Press_Trigger m = (let f = m\<lparr>mm_focus := On_Trigger\<rparr> in if mm_open m then close_menu True f else show_menu items f)"
| "more_step items Menu_Outside m = press_outside m"
| "more_step items (Choose i) m = (if mm_open m \<and> mm_view m = None \<and> i < length items then choose_item items i m else m)"
| "more_step items Go_Back m = (if mm_open m \<and> mm_view m \<noteq> None then go_back items m else m)"
| "more_step items (Menu_Key k) m = onkeydown items k m"
| "more_step items Focus_Leaves m = m\<lparr>mm_focus := Away\<rparr>"

lemmas more_defs = show_menu_def lose_row_def close_menu_def press_outside_def choose_item_def go_back_def onkeydown_def
  focusables_def Let_def

lemma first_enabled_Some: "first_enabled items = Some i \<Longrightarrow> i < length items \<and> \<not> mi_disabled (items ! i)"
  by (induction items arbitrary: i) (auto split: if_splits)

lemma next_row_range: "next_row k row n = Some i \<Longrightarrow> i < n"
  by (auto simp: next_row_def nat_less_iff split: menu_key.splits if_splits)

lemma arrows_undo: "i < n \<Longrightarrow> next_row Arrow_Up (int (the (next_row Arrow_Down (int i) n))) n = Some i"
proof -
  assume i: "i < n"
  have "((int i + 1 + int n) mod int n - 1 + int n) mod int n = (int i + 1 - 1) mod int n"
    by (simp add: mod_simps)
  with i show ?thesis by (simp add: next_row_def)
qed

definition view_ok :: "menu_item list \<Rightarrow> more_menu \<Rightarrow> bool" where
  "view_ok items m \<longleftrightarrow> (\<forall>i. mm_view m = Some i \<longrightarrow> i < length items \<and> mi_sub (items ! i) \<and> \<not> mi_disabled (items ! i))"

definition focus_ok :: "menu_item list \<Rightarrow> more_menu \<Rightarrow> bool" where
  "focus_ok items m \<longleftrightarrow> (\<forall>i. mm_focus m = On_Row i \<longrightarrow> i < focusables items m)"

definition ran_ok :: "menu_item list \<Rightarrow> more_menu \<Rightarrow> bool" where
  "ran_ok items m \<longleftrightarrow> set (mm_ran m) \<subseteq> mi_key ` {it \<in> set items. \<not> mi_disabled it \<and> \<not> mi_sub it}"

lemma view_kept: "view_ok items m \<Longrightarrow> view_ok items (more_step items a m)"
  by (cases a) (auto simp: view_ok_def more_defs split: option.splits menu_focus.splits)

lemma ran_kept: "ran_ok items m \<Longrightarrow> ran_ok items (more_step items a m)"
  by (cases a) (auto simp: ran_ok_def more_defs split: option.splits menu_focus.splits)

lemma focus_kept: "focus_ok items m \<Longrightarrow> focus_ok items (more_step items a m)"
proof (cases a)
  case (Menu_Key k)
  assume "focus_ok items m"
  with Menu_Key show ?thesis
    by (auto simp: focus_ok_def onkeydown_def close_menu_def lose_row_def Let_def focusables_def
        split: option.splits menu_focus.splits if_splits dest: next_row_range)
qed (auto simp: focus_ok_def more_defs split: option.splits menu_focus.splits if_splits dest: first_enabled_Some)

text \<open>C35. The chart row's menu is well formed whatever the reader presses: what is shown in place of the
  items is the sub menu of an enabled item that has one; the focus is on a row that is there, and on
  none once the menu is closed; only enabled items were run; and it always opens on its items.
\<close>

theorem more_menu_well_formed:
  fixes items acts
  defines "m \<equiv> fold (more_step items) acts new_menu"
  shows "(\<forall>i. mm_view m = Some i \<longrightarrow> i < length items \<and> mi_sub (items ! i) \<and> \<not> mi_disabled (items ! i)) \<and>
    (\<forall>i. mm_focus m = On_Row i \<longrightarrow> mm_open m \<and> i < (case mm_view m of None \<Rightarrow> length items | Some _ \<Rightarrow> 1)) \<and>
    set (mm_ran m) \<subseteq> mi_key ` {it \<in> set items. \<not> mi_disabled it \<and> \<not> mi_sub it} \<and>
    (\<not> mm_open m \<longrightarrow> mm_open (more_step items Press_Trigger m) \<and> mm_view (more_step items Press_Trigger m) = None)"
proof (intro conjI)
  have "view_ok items n \<and> focus_ok items n \<and> ran_ok items n \<Longrightarrow>
     view_ok items (fold (more_step items) acts n) \<and> focus_ok items (fold (more_step items) acts n) \<and>
     ran_ok items (fold (more_step items) acts n)" for n
    by (induction acts arbitrary: n) (simp_all add: view_kept focus_kept ran_kept)
  from this [of new_menu] have "view_ok items m \<and> focus_ok items m \<and> ran_ok items m"
    by (simp add: m_def new_menu_def view_ok_def focus_ok_def ran_ok_def)
  then show "\<forall>i. mm_view m = Some i \<longrightarrow> i < length items \<and> mi_sub (items ! i) \<and> \<not> mi_disabled (items ! i)"
    "\<forall>i. mm_focus m = On_Row i \<longrightarrow> mm_open m \<and> i < (case mm_view m of None \<Rightarrow> length items | Some _ \<Rightarrow> 1)"
    "set (mm_ran m) \<subseteq> mi_key ` {it \<in> set items. \<not> mi_disabled it \<and> \<not> mi_sub it}"
    by (auto simp: view_ok_def focus_ok_def ran_ok_def focusables_def split: if_splits)
  show "\<not> mm_open m \<longrightarrow> mm_open (more_step items Press_Trigger m) \<and> mm_view (more_step items Press_Trigger m) = None"
    by (simp add: show_menu_def Let_def split: option.splits)
qed

text \<open>The menu of the sensor's chart, whose first item opens the sub menu.\<close>

definition chart_items :: "menu_item list" where
  "chart_items = [\<lparr>mi_key = ''nearby'', mi_disabled = False, mi_sub = True\<rparr>,
     \<lparr>mi_key = ''custom'', mi_disabled = False, mi_sub = False\<rparr>,
     \<lparr>mi_key = ''reset'', mi_disabled = True, mi_sub = False\<rparr>]"

lemma more_menu_well_formed_witness:
  "mm_ran (fold (more_step chart_items) [Press_Trigger, Choose 0, Menu_Outside, Press_Trigger, Choose 2, Choose 1] new_menu) = [''custom''] \<and>
   \<not> mm_open (fold (more_step chart_items) [Press_Trigger, Choose 0, Menu_Outside] new_menu) \<and>
   mm_view (more_step chart_items Press_Trigger (fold (more_step chart_items) [Press_Trigger, Choose 0, Menu_Outside] new_menu)) = None"
proof -
  have "mm_ran (fold (more_step chart_items) [Press_Trigger, Choose 0, Menu_Outside, Press_Trigger, Choose 2, Choose 1] new_menu) = [''custom'']"
    "\<not> mm_open (fold (more_step chart_items) [Press_Trigger, Choose 0, Menu_Outside] new_menu)"
    by code_simp+
  with more_menu_well_formed [of chart_items "[Press_Trigger, Choose 0, Menu_Outside]"] show ?thesis by blast
qed

section \<open>The choosers\<close>

text \<open>
  \<open>closeOnOutside\<close> acts on a press outside the chooser and \<open>closeOnEscape\<close> on Escape anywhere, which
  it takes for itself only while the chooser is open (the second component).
\<close>

record chooser =
  cr_open :: bool
  cr_focused :: bool

definition press_chooser :: "chooser \<Rightarrow> chooser" where
  "press_chooser c = c\<lparr>cr_open := \<not> cr_open c\<rparr>"

definition closeOnOutside :: "bool \<Rightarrow> chooser \<Rightarrow> chooser" where
  "closeOnOutside inside c = (if cr_open c \<and> \<not> inside then c\<lparr>cr_open := False\<rparr> else c)"

definition close_chooser :: "chooser \<Rightarrow> chooser" where
  "close_chooser c = c\<lparr>cr_open := False, cr_focused := True\<rparr>"

definition escape_chooser :: "bool \<Rightarrow> chooser \<Rightarrow> chooser \<times> bool" where
  "escape_chooser escape c = (if \<not> escape \<or> \<not> cr_open c then (c, False) else (close_chooser c, True))"

text \<open>Choosing a metric closes; the button then names the choice.\<close>

definition pick_metric :: "'m \<Rightarrow> 'm \<times> chooser \<Rightarrow> 'm \<times> chooser" where
  "pick_metric metric st = (metric, close_chooser (snd st))"

definition current_label :: "('m \<times> string) list \<Rightarrow> 'm \<Rightarrow> string" where
  "current_label options selected = (case map_of options selected of Some l \<Rightarrow> l | None \<Rightarrow> [])"

text \<open>Of the lines of the area around, any number may be ticked.\<close>

definition toggle_nearby :: "'k \<Rightarrow> 'k list \<Rightarrow> 'k list" where
  "toggle_nearby key selected = (if key \<in> set selected then filter (\<lambda>k. k \<noteq> key) selected else selected @ [key])"

definition nearby_button :: "('k \<times> string) list \<Rightarrow> 'k list \<Rightarrow> string \<Rightarrow> string list" where
  "nearby_button options selected off = (let chosen = map snd (filter (\<lambda>(k, _). k \<in> set selected) options) in
     if chosen = [] then [off] else chosen)"

lemma toggle_nearby_set: "set (toggle_nearby k ks) = (if k \<in> set ks then set ks - {k} else insert k (set ks))"
  by (auto simp: toggle_nearby_def)

lemma toggle_nearby_distinct: "distinct ks \<Longrightarrow> distinct (toggle_nearby k ks)"
  by (simp add: toggle_nearby_def)

lemma toggled_twice_same_button:
  "nearby_button options (toggle_nearby k (toggle_nearby k ks)) off = nearby_button options ks off"
proof -
  have "set (toggle_nearby k (toggle_nearby k ks)) = set ks" by (auto simp: toggle_nearby_set)
  then show ?thesis by (simp add: nearby_button_def)
qed

end
