(* ===== verification/Map_Layers.thy ===== *)
theory Map_Layers
  imports Map_Data
begin

text \<open>
  The layers the map's \<open>load\<close> handler adds (\<open>installMapLoad\<close> of \<open>web/src/lib/mapload.js\<close>) and how their
  zoom ranges move with the tier of the markers and the reader's choice of printed cell values
  (\<open>web/src/lib/mappaint.js\<close>). Of a layer are kept its id, kind, source, zoom range, whether it starts
  hidden, and its filter as a predicate on features; paint and layout values are left out. A layer
  draws a feature where the zoom is at least its \<open>minzoom\<close> and below its \<open>maxzoom\<close>, its filter holds, and
  its kind takes the geometry, as the style specification has it.
\<close>

section \<open>Features and layers\<close>

datatype shape = Cell_Shape | Point_Shape

record drawn_feature =
  df_shape :: shape
  df_value :: "real option"
  df_source :: "string option"
  df_faulty :: bool

datatype layer_kind = Background | Raster | Fill | Line | Extrusion | Circle | Symbol

record map_layer =
  ml_id :: string
  ml_kind :: layer_kind
  ml_source :: string
  ml_min :: real
  ml_max :: real
  ml_hidden :: bool
  ml_filter :: "drawn_feature \<Rightarrow> bool"

text \<open>A circle or a symbol is drawn at any position; fills, lines and columns need a polygon.\<close>

fun kind_takes :: "layer_kind \<Rightarrow> shape \<Rightarrow> bool" where
  "kind_takes Circle s = True"
| "kind_takes Symbol s = True"
| "kind_takes Background s = False"
| "kind_takes Raster s = False"
| "kind_takes _ s = (s = Cell_Shape)"

definition in_range :: "map_layer \<Rightarrow> real \<Rightarrow> bool" where
  "in_range l z \<longleftrightarrow> ml_min l \<le> z \<and> z < ml_max l"

definition layer_draws :: "map_layer \<Rightarrow> string \<Rightarrow> real \<Rightarrow> drawn_feature \<Rightarrow> bool" where
  "layer_draws l source z f \<longleftrightarrow> ml_source l = source \<and> \<not> ml_hidden l \<and> in_range l z \<and>
     kind_takes (ml_kind l) (df_shape f) \<and> ml_filter l f"

text \<open>The filters.\<close>

definition NOT_OFFICIAL :: "drawn_feature \<Rightarrow> bool" where
  "NOT_OFFICIAL f \<longleftrightarrow> df_source f \<noteq> Some OFFICIAL_SOURCE"

definition IS_FAULTY :: "drawn_feature \<Rightarrow> bool" where
  "IS_FAULTY f \<longleftrightarrow> df_faulty f"

definition NOT_FAULTY :: "drawn_feature \<Rightarrow> bool" where
  "NOT_FAULTY f \<longleftrightarrow> \<not> df_faulty f"

definition has_number :: "drawn_feature \<Rightarrow> bool" where
  "has_number f \<longleftrightarrow> df_value f \<noteq> None"

section \<open>Zoom ranges (mappaint.js)\<close>

definition markerMaxZoom :: "tier option \<Rightarrow> real" where
  "markerMaxZoom t = (if t = Some Sensors then POINT_TIER_MIN_ZOOM_FRACTIONAL else GRID_MIN_ZOOM_FRACTIONAL)"

definition hexLabelMinZoom :: "bool \<Rightarrow> tier option \<Rightarrow> real" where
  "hexLabelMinZoom on t = max (if on then GRID_MIN_ZOOM_FRACTIONAL else POINT_TIER_MIN_ZOOM_FRACTIONAL) (markerMaxZoom t)"

text \<open>The module's two shared variables are kept with the layers.\<close>

record layer_state =
  la_layers :: "map_layer list"
  la_cell_values :: bool
  la_tier :: "tier option"

definition setLayerZoomRange :: "string \<Rightarrow> real \<Rightarrow> real \<Rightarrow> map_layer list \<Rightarrow> map_layer list" where
  "setLayerZoomRange i lo hi ls = map (\<lambda>l. if ml_id l = i then l\<lparr>ml_min := lo, ml_max := hi\<rparr> else l) ls"

definition MAX_ZOOM :: real where
  "MAX_ZOOM = 24"

abbreviation hex_label_id :: string where
  "hex_label_id \<equiv> ''airbg-hex-labels''"

definition setCellValues :: "bool \<Rightarrow> layer_state \<Rightarrow> layer_state" where
  "setCellValues on s = s\<lparr>la_cell_values := on,
     la_layers := setLayerZoomRange hex_label_id (hexLabelMinZoom on (la_tier s)) MAX_ZOOM (la_layers s)\<rparr>"

definition marker_ids :: "string list" where
  "marker_ids = [''airbg-markers'', ''airbg-markers-official'', ''airbg-marker-labels'', ''airbg-markers-faulty'']"

definition applyMarkerZoomRange :: "tier \<Rightarrow> layer_state \<Rightarrow> layer_state" where
  "applyMarkerZoomRange t s = s\<lparr>la_tier := Some t,
     la_layers := setLayerZoomRange hex_label_id (hexLabelMinZoom (la_cell_values s) (Some t)) MAX_ZOOM
       (fold (\<lambda>i. setLayerZoomRange i 0 (markerMaxZoom (Some t))) marker_ids (la_layers s))\<rparr>"

section \<open>The load handler (mapload.js)\<close>

text \<open>\<open>addLayer\<close>: under the named layer, or on top when none is named or it is missing.\<close>

fun add_layers :: "string \<Rightarrow> map_layer list \<Rightarrow> map_layer list \<Rightarrow> map_layer list" where
  "add_layers before new [] = new"
| "add_layers before new (l # ls) = (if ml_id l = before then new @ l # ls else l # add_layers before new ls)"

definition layer :: "string \<Rightarrow> layer_kind \<Rightarrow> string \<Rightarrow> real \<Rightarrow> real \<Rightarrow> bool \<Rightarrow> (drawn_feature \<Rightarrow> bool) \<Rightarrow> map_layer" where
  "layer i k src lo hi hid flt = \<lparr>ml_id = i, ml_kind = k, ml_source = src, ml_min = lo, ml_max = hi, ml_hidden = hid, ml_filter = flt\<rparr>"

definition grid_layers :: "map_layer list" where
  "grid_layers = (let every = (\<lambda>_. True) in
    [layer ''airbg-hex-fill'' Fill ''airbg-hexes'' GRID_MIN_ZOOM_FRACTIONAL MAX_ZOOM False every,
     layer ''airbg-hex-outline'' Line ''airbg-hexes'' GRID_MIN_ZOOM_FRACTIONAL MAX_ZOOM False every,
     layer ''airbg-hex-extrusion'' Extrusion ''airbg-hex-columns'' GRID_MIN_ZOOM_FRACTIONAL MAX_ZOOM False every,
     layer ''airbg-hex-point'' Circle ''airbg-hexes'' GRID_MIN_ZOOM_FRACTIONAL MAX_ZOOM False (\<lambda>f. df_shape f = Point_Shape),
     layer hex_label_id Symbol ''airbg-hexes'' POINT_TIER_MIN_ZOOM_FRACTIONAL MAX_ZOOM False
       (\<lambda>f. df_shape f = Cell_Shape \<and> has_number f)])"

definition boundary_layers :: "map_layer list" where
  "boundary_layers = map (\<lambda>(i, k). layer i k ''airbg-boundaries'' 0 MAX_ZOOM True (\<lambda>_. True))
     [(''airbg-boundary-hit'', Fill), (''airbg-boundary-line'', Line), (''airbg-boundary-selected'', Line)]"

definition marker_layers :: "map_layer list" where
  "marker_layers = (let hi_end = markerMaxZoom (Some Country); src = ''airbg-data'' in
    [layer ''airbg-markers'' Circle src 0 hi_end False (\<lambda>f. NOT_OFFICIAL f \<and> NOT_FAULTY f),
     layer ''airbg-markers-official'' Symbol src 0 hi_end False (\<lambda>f. df_source f = Some OFFICIAL_SOURCE \<and> NOT_FAULTY f),
     layer ''airbg-markers-faulty'' Circle src 0 hi_end False IS_FAULTY,
     layer ''airbg-marker-labels'' Symbol src 0 hi_end False has_number])"

definition wind_layer :: map_layer where
  "wind_layer = layer ''airbg-wind-arrows'' Symbol ''airbg-wind'' 0 MAX_ZOOM True (\<lambda>_. True)"

definition installMapLoad :: "layer_state \<Rightarrow> layer_state" where
  "installMapLoad s = s\<lparr>la_layers := add_layers hex_label_id [wind_layer]
     (la_layers s @ grid_layers @ boundary_layers @ marker_layers)\<rparr>"

text \<open>The style the map boots with, and the vector style's traced layers, which arrive later and go under the grid.\<close>

definition boot_layers :: layer_state where
  "boot_layers = \<lparr>la_layers = [layer ''bg'' Background [] 0 MAX_ZOOM False (\<lambda>_. True),
     layer ''airbg-raster-base'' Raster ''airbg-raster'' 0 MAX_ZOOM False (\<lambda>_. True)],
     la_cell_values = False, la_tier = None\<rparr>"

definition basemap_arrives :: "map_layer list \<Rightarrow> layer_state \<Rightarrow> layer_state" where
  "basemap_arrives new s = s\<lparr>la_layers := add_layers ''airbg-hex-fill'' new (la_layers s)\<rparr>"

datatype layer_act = Cell_Values bool | Tier_Refreshed tier | Basemap_Arrives "map_layer list"

fun layer_step :: "layer_act \<Rightarrow> layer_state \<Rightarrow> layer_state" where
  "layer_step (Cell_Values on) s = setCellValues on s"
| "layer_step (Tier_Refreshed t) s = applyMarkerZoomRange t s"
| "layer_step (Basemap_Arrives new) s = basemap_arrives new s"

text \<open>The ids of the map's own layers, bottom to top.\<close>

definition own_order :: "string list" where
  "own_order = [''airbg-hex-fill'', ''airbg-hex-outline'', ''airbg-hex-extrusion'', ''airbg-hex-point'', ''airbg-wind-arrows'',
     hex_label_id, ''airbg-boundary-hit'', ''airbg-boundary-line'', ''airbg-boundary-selected'',
     ''airbg-markers'', ''airbg-markers-official'', ''airbg-markers-faulty'', ''airbg-marker-labels'']"

text \<open>Before the style is loaded only the choices are kept; then the layers; then anything, in any order.\<close>

definition layer_run :: "layer_act list \<Rightarrow> layer_act list \<Rightarrow> layer_state" where
  "layer_run early late = fold layer_step late (installMapLoad (fold layer_step early boot_layers))"

text \<open>The vector style brings its own ids and its own sources.\<close>

definition foreign :: "layer_act \<Rightarrow> bool" where
  "foreign a \<longleftrightarrow> (\<forall>new. a = Basemap_Arrives new \<longrightarrow> ml_id ` set new \<inter> set own_order = {} \<and>
     ml_source ` set new \<inter> {''airbg-data'', ''airbg-hexes''} = {})"

definition no_basemap :: "layer_act \<Rightarrow> bool" where
  "no_basemap a \<longleftrightarrow> (\<forall>new. a \<noteq> Basemap_Arrives new)"

subsection \<open>The shape of the stack\<close>

lemma handover_zooms: "GRID_MIN_ZOOM_FRACTIONAL = 7 / 2" "POINT_TIER_MIN_ZOOM_FRACTIONAL = 27 / 2"
  by (simp_all add: GRID_MIN_ZOOM_FRACTIONAL_def POINT_TIER_MIN_ZOOM_FRACTIONAL_def grid_zoom point_tier_zoom TIER_HANDOVER_def)

text \<open>The map's own layers with the cell labels from \<open>lo\<close> on and the markers up to \<open>hi_end\<close>.\<close>

definition own_layers :: "real \<Rightarrow> real \<Rightarrow> map_layer list" where
  "own_layers lo hi_end = take 4 grid_layers
     @ [wind_layer, layer hex_label_id Symbol ''airbg-hexes'' lo MAX_ZOOM False (\<lambda>f. df_shape f = Cell_Shape \<and> has_number f)]
     @ boundary_layers @ map (\<lambda>l. l\<lparr>ml_min := 0, ml_max := hi_end\<rparr>) marker_layers"

lemmas stack_defs = own_layers_def grid_layers_def boundary_layers_def marker_layers_def wind_layer_def layer_def Let_def

lemma own_ids: "map ml_id (own_layers lo hi_end) = own_order"
  by (simp add: stack_defs own_order_def)

lemma range_append: "setLayerZoomRange i lo hi (xs @ ys) = setLayerZoomRange i lo hi xs @ setLayerZoomRange i lo hi ys"
  by (simp add: setLayerZoomRange_def)

lemma range_other: "i \<notin> ml_id ` set ls \<Longrightarrow> setLayerZoomRange i lo hi ls = ls"
  by (induction ls) (auto simp: setLayerZoomRange_def)

lemma range_label: "setLayerZoomRange hex_label_id lo' MAX_ZOOM (own_layers lo hi_end) = own_layers lo' hi_end"
  by (simp add: stack_defs setLayerZoomRange_def)

lemma range_markers: "fold (\<lambda>i. setLayerZoomRange i 0 hi_end') marker_ids (own_layers lo hi_end) = own_layers lo hi_end'"
  by (simp add: stack_defs setLayerZoomRange_def marker_ids_def)

lemma range_markers_other:
  "set marker_ids \<inter> ml_id ` set pre = {} \<Longrightarrow>
     fold (\<lambda>i. setLayerZoomRange i 0 hi_end) marker_ids (pre @ ls) = pre @ fold (\<lambda>i. setLayerZoomRange i 0 hi_end) marker_ids ls"
  by (simp add: marker_ids_def range_append range_other)

lemma add_under: "i \<notin> ml_id ` set pre \<Longrightarrow> ml_id l = i \<Longrightarrow> add_layers i new (pre @ l # ls) = pre @ new @ l # ls"
  by (induction pre) auto

definition below :: "map_layer list \<Rightarrow> bool" where
  "below pre \<longleftrightarrow> ml_id ` set pre \<inter> set own_order = {} \<and> ml_source ` set pre \<inter> {''airbg-data'', ''airbg-hexes''} = {}"

lemma belowD: "below pre \<Longrightarrow> i \<in> set own_order \<Longrightarrow> i \<notin> ml_id ` set pre"
  by (auto simp: below_def)

lemma own_order_mem: "hex_label_id \<in> set own_order" "''airbg-hex-fill'' \<in> set own_order" "set marker_ids \<subseteq> set own_order"
  by (simp_all add: own_order_def marker_ids_def)

text \<open>What is under the map's own layers, and the two limits that move.\<close>

definition stack :: "map_layer list \<Rightarrow> real \<Rightarrow> real \<Rightarrow> layer_state \<Rightarrow> bool" where
  "stack pre lo hi_end s \<longleftrightarrow> below pre \<and> la_layers s = pre @ own_layers lo hi_end"

lemma stack_cell_values: "stack pre lo hi_end s \<Longrightarrow> stack pre (hexLabelMinZoom on (la_tier s)) hi_end (setCellValues on s)"
  using belowD [OF _ own_order_mem(1)]
  by (auto simp: stack_def setCellValues_def range_append range_other range_label)

lemma stack_tier:
  assumes "stack pre lo hi_end s"
  shows "stack pre (hexLabelMinZoom (la_cell_values s) (Some t)) (markerMaxZoom (Some t)) (applyMarkerZoomRange t s)"
proof -
  have "set marker_ids \<inter> ml_id ` set pre = {}" "hex_label_id \<notin> ml_id ` set pre"
    using assms own_order_mem(3) belowD [OF _ own_order_mem(1)] by (auto simp: stack_def below_def)
  with assms show ?thesis
    by (simp add: stack_def applyMarkerZoomRange_def range_markers_other range_markers range_append range_other range_label)
qed

lemma stack_basemap:
  assumes "stack pre lo hi_end s" "ml_id ` set new \<inter> set own_order = {}" "ml_source ` set new \<inter> {''airbg-data'', ''airbg-hexes''} = {}"
  shows "stack (pre @ new) lo hi_end (basemap_arrives new s)"
proof -
  obtain l ls where own: "own_layers lo hi_end = l # ls" "ml_id l = ''airbg-hex-fill''"
    by (simp add: stack_defs)
  have "''airbg-hex-fill'' \<notin> ml_id ` set pre" using assms belowD [OF _ own_order_mem(2)] by (simp add: stack_def)
  from add_under [OF this own(2)] assms show ?thesis
    by (auto simp: stack_def basemap_arrives_def own(1) below_def)
qed

lemma early_layers:
  assumes "list_all no_basemap early"
  shows "la_layers (fold layer_step early boot_layers) = la_layers boot_layers"
proof -
  have boot: "i \<in> set own_order \<Longrightarrow> setLayerZoomRange i lo hi (la_layers boot_layers) = la_layers boot_layers" for i lo hi
    by (rule range_other) (auto simp: boot_layers_def own_order_def layer_def)
  have step: "la_layers s = la_layers boot_layers \<Longrightarrow> no_basemap a \<Longrightarrow> la_layers (layer_step a s) = la_layers boot_layers" for a s
    by (cases a) (auto simp: no_basemap_def setCellValues_def applyMarkerZoomRange_def boot own_order_mem marker_ids_def own_order_def)
  have "la_layers s = la_layers boot_layers \<Longrightarrow> list_all no_basemap early \<Longrightarrow>
      la_layers (fold layer_step early s) = la_layers boot_layers" for s
    by (induction early arbitrary: s) (auto simp: step)
  with assms show ?thesis by blast
qed

lemma stack_installed:
  assumes "la_layers s = la_layers boot_layers"
  shows "stack (la_layers boot_layers) POINT_TIER_MIN_ZOOM_FRACTIONAL GRID_MIN_ZOOM_FRACTIONAL (installMapLoad s)"
proof -
  have "below (la_layers boot_layers)" by (auto simp: below_def boot_layers_def own_order_def layer_def)
  moreover have "add_layers hex_label_id [wind_layer] (la_layers boot_layers @ grid_layers @ boundary_layers @ marker_layers)
      = la_layers boot_layers @ own_layers POINT_TIER_MIN_ZOOM_FRACTIONAL GRID_MIN_ZOOM_FRACTIONAL"
    by (simp add: boot_layers_def stack_defs markerMaxZoom_def)
  ultimately show ?thesis by (simp add: stack_def installMapLoad_def assms)
qed

text \<open>The two limits never cross; and they meet once a tier was refreshed with cell values on.\<close>

definition limits_ok :: "real \<Rightarrow> real \<Rightarrow> layer_state \<Rightarrow> bool" where
  "limits_ok lo hi_end s \<longleftrightarrow> hi_end \<le> lo \<and> (hi_end = GRID_MIN_ZOOM_FRACTIONAL \<or> hi_end = markerMaxZoom (la_tier s)) \<and> 0 \<le> hi_end \<and> lo < MAX_ZOOM"

lemma limits_new: "limits_ok (hexLabelMinZoom on (la_tier s)) hi_end s" if "hi_end = GRID_MIN_ZOOM_FRACTIONAL \<or> hi_end = markerMaxZoom (la_tier s)"
  using that by (auto simp: limits_ok_def hexLabelMinZoom_def markerMaxZoom_def handover_zooms MAX_ZOOM_def)

lemma layer_step_inv:
  assumes "stack pre lo hi_end s" "limits_ok lo hi_end s" "foreign a"
  shows "\<exists>pre' lo' hi_end'. stack (pre @ pre') lo' hi_end' (layer_step a s) \<and> limits_ok lo' hi_end' (layer_step a s)"
proof (cases a)
  case (Cell_Values on)
  have "limits_ok (hexLabelMinZoom on (la_tier s)) hi_end (setCellValues on s)"
    using limits_new [of hi_end s on] assms(2) by (simp add: limits_ok_def setCellValues_def)
  with stack_cell_values [OF assms(1)] Cell_Values show ?thesis by (metis append_Nil2 layer_step.simps(1))
next
  case (Tier_Refreshed t)
  have "limits_ok (hexLabelMinZoom (la_cell_values s) (Some t)) (markerMaxZoom (Some t)) (applyMarkerZoomRange t s)"
    using limits_new [of "markerMaxZoom (Some t)" "applyMarkerZoomRange t s" "la_cell_values s"]
    by (simp add: applyMarkerZoomRange_def)
  with stack_tier [OF assms(1)] Tier_Refreshed show ?thesis by (metis append_Nil2 layer_step.simps(2))
next
  case (Basemap_Arrives new)
  with assms(3) have "stack (pre @ new) lo hi_end (basemap_arrives new s)"
    by (intro stack_basemap assms(1)) (simp_all add: foreign_def)
  moreover have "limits_ok lo hi_end (basemap_arrives new s)" using assms(2) by (simp add: limits_ok_def basemap_arrives_def)
  ultimately show ?thesis using Basemap_Arrives by (metis layer_step.simps(3))
qed

lemma layer_run_inv:
  assumes "list_all no_basemap early" "list_all foreign late"
  obtains pre lo hi_end where "stack (la_layers boot_layers @ pre) lo hi_end (layer_run early late)" "limits_ok lo hi_end (layer_run early late)"
proof -
  have *: "stack (b @ pre) lo hi_end s \<Longrightarrow> limits_ok lo hi_end s \<Longrightarrow> list_all foreign late \<Longrightarrow>
      \<exists>pre' lo' hi_end'. stack (b @ pre') lo' hi_end' (fold layer_step late s) \<and> limits_ok lo' hi_end' (fold layer_step late s)" for b pre lo hi_end s
  proof (induction late arbitrary: pre lo hi_end s)
    case (Cons a late)
    from Cons.prems have "foreign a" by simp
    from layer_step_inv [OF Cons.prems(1,2) this] obtain pre' lo' hi_end'
      where "stack (b @ pre @ pre') lo' hi_end' (layer_step a s)" "limits_ok lo' hi_end' (layer_step a s)" by auto
    from Cons.IH [OF this] Cons.prems(3) show ?case by simp
  qed auto
  let ?s = "installMapLoad (fold layer_step early boot_layers)"
  have "stack (la_layers boot_layers @ []) POINT_TIER_MIN_ZOOM_FRACTIONAL GRID_MIN_ZOOM_FRACTIONAL ?s"
    using stack_installed early_layers [OF assms(1)] by simp
  moreover have "limits_ok POINT_TIER_MIN_ZOOM_FRACTIONAL GRID_MIN_ZOOM_FRACTIONAL ?s"
    by (simp add: limits_ok_def handover_zooms MAX_ZOOM_def)
  ultimately show ?thesis using * [of "la_layers boot_layers" "[]"] assms(2) that unfolding layer_run_def by blast
qed

subsection \<open>What is drawn\<close>

text \<open>A layer of that name is drawn at that zoom.\<close>

definition active :: "string \<Rightarrow> real \<Rightarrow> layer_state \<Rightarrow> bool" where
  "active i z s \<longleftrightarrow> (\<exists>l \<in> set (la_layers s). ml_id l = i \<and> in_range l z)"

lemma active_stack:
  assumes "stack pre lo hi_end s"
  shows "active ''airbg-marker-labels'' z s \<longleftrightarrow> 0 \<le> z \<and> z < hi_end"
    and "active hex_label_id z s \<longleftrightarrow> lo \<le> z \<and> z < MAX_ZOOM"
proof -
  have "active i z s \<longleftrightarrow> (\<exists>l \<in> set (own_layers lo hi_end). ml_id l = i \<and> in_range l z)" if "i \<in> set own_order" for i
    using assms belowD [OF _ that, of pre] by (auto simp: active_def stack_def)
  from this [of "''airbg-marker-labels''"] this [of hex_label_id]
  show "active ''airbg-marker-labels'' z s \<longleftrightarrow> 0 \<le> z \<and> z < hi_end" "active hex_label_id z s \<longleftrightarrow> lo \<le> z \<and> z < MAX_ZOOM"
    by (simp_all add: own_order_def) (auto simp: stack_defs in_range_def)
qed

lemma run_snoc: "layer_run early (late @ [a]) = layer_step a (layer_run early late)"
  by (simp add: layer_run_def)

text \<open>C23. 
  No reading is printed twice: whatever was chosen and refreshed before the style had loaded and in
  whatever order it is chosen and refreshed after, no zoom shows both the markers' labels and the
  cells' labels. With cell values on, a refresh leaves none without: each zoom of the map has one of
  the two.
\<close>

theorem one_number_at_each_zoom:
  assumes "list_all no_basemap early" "list_all foreign late"
  defines "s \<equiv> layer_run early late"
  shows "\<not> (active ''airbg-marker-labels'' z s \<and> active hex_label_id z s) \<and>
    (la_cell_values s \<and> 0 \<le> z \<and> z < MAX_ZOOM \<longrightarrow>
       active ''airbg-marker-labels'' z (applyMarkerZoomRange t s) \<noteq> active hex_label_id z (applyMarkerZoomRange t s))"
proof -
  obtain pre lo hi_end where st: "stack (la_layers boot_layers @ pre) lo hi_end s" "limits_ok lo hi_end s"
    using layer_run_inv [OF assms(1,2)] unfolding s_def by blast
  have "\<not> (active ''airbg-marker-labels'' z s \<and> active hex_label_id z s)"
    using st(2) by (auto simp: active_stack [OF st(1)] limits_ok_def)
  moreover have "active ''airbg-marker-labels'' z (applyMarkerZoomRange t s) \<noteq> active hex_label_id z (applyMarkerZoomRange t s)"
    if "la_cell_values s" "0 \<le> z" "z < MAX_ZOOM"
    using that unfolding active_stack [OF stack_tier [OF st(1)]]
    by (auto simp: hexLabelMinZoom_def markerMaxZoom_def handover_zooms)
  ultimately show ?thesis by blast
qed

definition looks :: "string \<Rightarrow> real \<Rightarrow> drawn_feature \<Rightarrow> layer_state \<Rightarrow> string list" where
  "looks src z f s = map ml_id (filter (\<lambda>l. layer_draws l src z f) (la_layers s))"

lemma looks_stack:
  assumes "stack pre lo hi_end s" "src \<in> {''airbg-data'', ''airbg-hexes''}"
  shows "looks src z f s = map ml_id (filter (\<lambda>l. layer_draws l src z f) (own_layers lo hi_end))"
proof -
  have "filter (\<lambda>l. layer_draws l src z f) pre = []"
    using assms by (force simp: stack_def below_def layer_draws_def filter_empty_conv)
  with assms(1) show ?thesis by (simp add: looks_def stack_def)
qed

text \<open>The label of a marker or a cell comes with its number.\<close>

definition with_label :: "string \<Rightarrow> bool \<Rightarrow> string list \<Rightarrow> string list" where
  "with_label i shown row = (if shown then row @ [i] else row)"

text \<open>C24. 
  Every feature has one look: a marker is a circle, a diamond or a ring, by its network and its
  state, up to the zoom its tier hands over at, and nothing beyond; a cell is filled and outlined
  and a bare station on the grid is a point, from the zoom the grid starts at.
\<close>

theorem each_feature_one_look:
  fixes t :: tier
  assumes "list_all no_basemap early" "list_all foreign late" and z: "0 \<le> z" "z < MAX_ZOOM"
  defines "s \<equiv> layer_run early (late @ [Tier_Refreshed t])"
  shows "(df_shape f = Point_Shape \<longrightarrow> looks ''airbg-data'' z f s =
      (if z < markerMaxZoom (Some t) then with_label ''airbg-marker-labels'' (has_number f)
         [if df_faulty f then ''airbg-markers-faulty'' else if df_source f = Some OFFICIAL_SOURCE then ''airbg-markers-official''
          else ''airbg-markers''] else [])) \<and>
    looks ''airbg-hexes'' z f s = (if z < GRID_MIN_ZOOM_FRACTIONAL then []
      else if df_shape f = Point_Shape then [''airbg-hex-point'']
      else with_label hex_label_id (has_number f \<and> hexLabelMinZoom (la_cell_values s) (Some t) \<le> z)
         [''airbg-hex-fill'', ''airbg-hex-outline''])"
proof -
  obtain pre lo hi_end where "stack (la_layers boot_layers @ pre) lo hi_end (layer_run early late)"
    using layer_run_inv [OF assms(1,2)] by blast
  from stack_tier [OF this, of t] have st: "stack (la_layers boot_layers @ pre) (hexLabelMinZoom (la_cell_values s) (Some t))
      (markerMaxZoom (Some t)) s"
    by (simp add: s_def run_snoc applyMarkerZoomRange_def)
  have marker: "looks ''airbg-data'' z f s =
      (if z < markerMaxZoom (Some t) then with_label ''airbg-marker-labels'' (has_number f)
         [if df_faulty f then ''airbg-markers-faulty'' else if df_source f = Some OFFICIAL_SOURCE then ''airbg-markers-official''
          else ''airbg-markers''] else [])"
    unfolding looks_stack [OF st insertI1]
    using z(1) by (simp add: stack_defs layer_draws_def in_range_def with_label_def NOT_OFFICIAL_def NOT_FAULTY_def IS_FAULTY_def)
  have mem: "''airbg-hexes'' \<in> {''airbg-data'', ''airbg-hexes''}" by simp
  have "hexLabelMinZoom (la_cell_values s) (Some t) \<ge> GRID_MIN_ZOOM_FRACTIONAL"
    by (auto simp: hexLabelMinZoom_def handover_zooms)
  then have "looks ''airbg-hexes'' z f s = (if z < GRID_MIN_ZOOM_FRACTIONAL then []
      else if df_shape f = Point_Shape then [''airbg-hex-point'']
      else with_label hex_label_id (has_number f \<and> hexLabelMinZoom (la_cell_values s) (Some t) \<le> z)
         [''airbg-hex-fill'', ''airbg-hex-outline''])"
    unfolding looks_stack [OF st mem]
    using z(2) by (cases "df_shape f") (auto simp: stack_defs layer_draws_def in_range_def with_label_def)
  with marker show ?thesis by blast
qed

text \<open>The order of the stack: the raster, whatever of the vector style has arrived, then the map's own, wind under the figures.\<close>

lemma stack_order:
  assumes "list_all no_basemap early" "list_all foreign late"
  shows "\<exists>between. map ml_id (la_layers (layer_run early late)) = [''bg'', ''airbg-raster-base''] @ between @ own_order"
proof -
  obtain pre lo hi_end where "stack (la_layers boot_layers @ pre) lo hi_end (layer_run early late)"
    using layer_run_inv [OF assms] by blast
  then have "map ml_id (la_layers (layer_run early late)) = [''bg'', ''airbg-raster-base''] @ map ml_id pre @ own_order"
    by (simp add: stack_def own_ids boot_layers_def layer_def)
  then show ?thesis by blast
qed

text \<open>A choice made before the style has loaded, the vector style late, and a tier of stations.\<close>

definition road_layer_on_top :: map_layer where
  "road_layer_on_top = layer ''roads'' Line ''openmaptiles'' 0 MAX_ZOOM False (\<lambda>_. True)"

lemma road_foreign: "foreign (Basemap_Arrives [road_layer_on_top])"
  by (simp add: foreign_def road_layer_on_top_def layer_def own_order_def)

lemma choices_foreign [simp]: "foreign (Cell_Values b)" "foreign (Tier_Refreshed t)" "no_basemap (Cell_Values b)"
  by (simp_all add: foreign_def no_basemap_def)

lemma one_number_at_each_zoom_witness:
  "active ''airbg-marker-labels'' 9 (applyMarkerZoomRange Sensors (layer_run [Cell_Values True] [Basemap_Arrives [road_layer_on_top], Tier_Refreshed City]))
     \<noteq> active hex_label_id 9 (applyMarkerZoomRange Sensors (layer_run [Cell_Values True] [Basemap_Arrives [road_layer_on_top], Tier_Refreshed City]))"
proof -
  have "la_cell_values (layer_run [Cell_Values True] [Basemap_Arrives [road_layer_on_top], Tier_Refreshed City])"
    by (simp add: layer_run_def setCellValues_def installMapLoad_def basemap_arrives_def applyMarkerZoomRange_def)
  then show ?thesis
    using one_number_at_each_zoom [of "[Cell_Values True]" "[Basemap_Arrives [road_layer_on_top], Tier_Refreshed City]" 9 Sensors]
    by (simp add: road_foreign MAX_ZOOM_def)
qed

lemma each_feature_one_look_witness:
  "looks ''airbg-data'' 9 \<lparr>df_shape = Point_Shape, df_value = Some 12, df_source = Some OFFICIAL_SOURCE, df_faulty = False\<rparr>
     (layer_run [] [Basemap_Arrives [road_layer_on_top], Tier_Refreshed Sensors]) = [''airbg-markers-official'', ''airbg-marker-labels'']"
  using each_feature_one_look [where t = Sensors and early = "[]" and late = "[Basemap_Arrives [road_layer_on_top]]" and z = 9
      and f = "\<lparr>df_shape = Point_Shape, df_value = Some 12, df_source = Some OFFICIAL_SOURCE, df_faulty = False\<rparr>"]
  by (simp add: road_foreign MAX_ZOOM_def markerMaxZoom_def handover_zooms with_label_def has_number_def)

end
