(* ===== verification/Map_Clicks.thy ===== *)
theory Map_Clicks
  imports Overlays Map_Chrome
begin

text \<open>
  What a press on the map does (\<open>web/src/islands/map.js\<close>): the handlers of the markers, of the rings
  of faulty stations, of the cells, of the wind note, of the empty ground and of the province
  outlines, all called for one press in the order they were registered, each with the features of
  its own layers under the pointer. The renderer's hit testing gives those features; the camera
  moves and the reloads that follow are effects. Then the highlight of the cell under the pointer.
\<close>

section \<open>The press\<close>

text \<open>A marker carries an area's slug or a station's id; a cell is a feature of the grid.\<close>

record marker =
  mk_slug :: "string option"
  mk_id :: "nat option"

text \<open>
  \<open>pr_dots\<close>: the circle layer; \<open>pr_rings\<close>: the faulty layer; \<open>pr_cells\<close>: the flat cells and their
  columns; \<open>pr_area\<close>: the outline under the pointer, \<open>JUndef\<close> where there is none.
\<close>

record press =
  pr_dots :: "marker list"
  pr_rings :: "marker list"
  pr_cells :: "hex_feature list"
  pr_area :: jsval
  pr_at :: "real \<times> real"

datatype effect = Refresh_Map | Ease_Map "real \<times> real" real | Fit_Map box | Open_Linked nat

record click_map =
  km_sensor :: "nat option"
  km_slug :: "string option"
  km_areas :: "jsval list option"
  km_zoom :: real
  km_outlines :: outlines
  km_note :: wind_note
  km_effects :: "effect list"

definition emit :: "effect \<Rightarrow> click_map \<Rightarrow> click_map" where
  "emit e m = m\<lparr>km_effects := km_effects m @ [e]\<rparr>"

text \<open>The mean of a ring's corners, the closing one dropped.\<close>

definition ringCentroid :: "(real \<times> real) list \<Rightarrow> real \<times> real" where
  "ringCentroid ring = (let pts = (if last ring = hd ring then butlast ring else ring);
       total = fold (\<lambda>(x, y) (sx, sy). (sx + x, sy + y)) pts (0, 0)
     in (fst total / real (length pts), snd total / real (length pts)))"

definition onMarkerClick :: "marker list \<Rightarrow> click_map \<Rightarrow> click_map" where
  "onMarkerClick hits m = (case hits of [] \<Rightarrow> m
     | p # _ \<Rightarrow> if has_slug (mk_slug p) then emit Refresh_Map (m\<lparr>km_slug := mk_slug p\<rparr>)
         else (case mk_id p of Some i \<Rightarrow> m\<lparr>km_sensor := Some i\<rparr> | None \<Rightarrow> m))"

definition onCellClick :: "press \<Rightarrow> click_map \<Rightarrow> click_map" where
  "onCellClick p m = (case pr_cells p of [] \<Rightarrow> m
     | c # _ \<Rightarrow> (case x_sensor c of
          Some i \<Rightarrow> emit (Open_Linked i) (m\<lparr>km_sensor := Some i\<rparr>)
        | None \<Rightarrow> let slug = cellArea (km_slug m) (km_areas m) (Some (pr_at p));
                      n = (if has_slug slug then m\<lparr>km_slug := slug\<rparr> else m);
                      center = (case x_geometry c of Polygon ring \<Rightarrow> ringCentroid ring | Point _ _ \<Rightarrow> pr_at p);
                      target = min (km_zoom m + 2) (real POINT_TIER_MIN_ZOOM)
            in if km_zoom m < target then emit (Ease_Map center target) n
               else if has_slug slug then emit Refresh_Map n else n))"

definition names_station :: "press \<Rightarrow> bool" where
  "names_station p \<longleftrightarrow> (\<exists>f \<in> set (pr_dots p). mk_id f \<noteq> None) \<or> (\<exists>c \<in> set (pr_cells p). x_sensor c \<noteq> None)"

definition closeOnEmpty :: "press \<Rightarrow> click_map \<Rightarrow> click_map" where
  "closeOnEmpty p m = (if km_sensor m = None \<or> names_station p then m else m\<lparr>km_sensor := None\<rparr>)"

definition onBoundaryClick :: "press \<Rightarrow> click_map \<Rightarrow> click_map" where
  "onBoundaryClick p m = (if \<not> ou_on (km_outlines m) \<or> pr_dots p \<noteq> [] \<or> pr_cells p \<noteq> [] then m
     else (case boundaryChoice (km_slug m) (pr_area p) of None \<Rightarrow> m
       | Some slug \<Rightarrow> let n = emit Refresh_Map (m\<lparr>km_slug := Some slug, km_outlines := highlightBoundary (Some slug) (km_outlines m)\<rparr>)
           in (case Option.bind (findBoundary (ou_body (km_outlines m)) (Some slug)) boundsOf of
                 None \<Rightarrow> n | Some b \<Rightarrow> emit (Fit_Map b) n)))"

text \<open>All of them, in the order of registration.\<close>

definition press_map :: "press \<Rightarrow> click_map \<Rightarrow> click_map" where
  "press_map p m = onBoundaryClick p (closeOnEmpty p ((\<lambda>n. n\<lparr>km_note := foldWind (km_note n)\<rparr>)
     (onCellClick p (onMarkerClick (pr_rings p) (onMarkerClick (pr_dots p) m)))))"

lemmas click_defs = emit_def onMarkerClick_def onCellClick_def closeOnEmpty_def onBoundaryClick_def press_map_def Let_def

subsection \<open>Which station is open\<close>

lemma emit_simps [simp]:
  "km_sensor (emit e m) = km_sensor m" "km_slug (emit e m) = km_slug m" "km_areas (emit e m) = km_areas m"
  "km_zoom (emit e m) = km_zoom m" "km_outlines (emit e m) = km_outlines m" "km_note (emit e m) = km_note m"
  "km_effects (emit e m) = km_effects m @ [e]"
  by (simp_all add: emit_def)

text \<open>What a handler opens: the station of its first feature.\<close>

definition dot_opens :: "marker list \<Rightarrow> nat option \<Rightarrow> nat option" where
  "dot_opens hits old = (case hits of [] \<Rightarrow> old | p # _ \<Rightarrow> if has_slug (mk_slug p) then old
     else case mk_id p of Some i \<Rightarrow> Some i | None \<Rightarrow> old)"

definition cell_opens :: "hex_feature list \<Rightarrow> nat option \<Rightarrow> nat option" where
  "cell_opens cells old = (case cells of [] \<Rightarrow> old | c # _ \<Rightarrow> (case x_sensor c of Some i \<Rightarrow> Some i | None \<Rightarrow> old))"

lemma handlers_sensor [simp]:
  "km_sensor (onMarkerClick hits m) = dot_opens hits (km_sensor m)"
  "km_sensor (onCellClick p m) = cell_opens (pr_cells p) (km_sensor m)"
  "km_sensor (closeOnEmpty p m) = (if names_station p then km_sensor m else None)"
  "km_sensor (onBoundaryClick p m) = km_sensor m"
  by (auto simp: onMarkerClick_def dot_opens_def onCellClick_def cell_opens_def closeOnEmpty_def onBoundaryClick_def Let_def
      split: list.splits option.splits geometry.splits)

lemma press_sensor:
  "km_sensor (press_map p m) = (if names_station p
     then cell_opens (pr_cells p) (dot_opens (pr_rings p) (dot_opens (pr_dots p) (km_sensor m))) else None)"
  by (simp add: press_map_def)

text \<open>C26. 
  The ring of a faulty station opens nothing: its own handler opens the station's panel, and the
  handler for presses that hit nothing, which does not ask the rings' layer, closes it again,
  unless a cell under the ring names a station. The circle of a sound station keeps its panel open.
\<close>

theorem ring_opens_nothing:
  assumes "pr_dots p = []" "\<forall>c \<in> set (pr_cells p). x_sensor c = None"
    and ring: "pr_rings p = \<lparr>mk_slug = None, mk_id = Some i\<rparr> # rs"
  shows "km_sensor (onMarkerClick (pr_rings p) m) = Some i \<and> km_sensor (press_map p m) = None \<and>
    km_sensor (press_map (p\<lparr>pr_dots := pr_rings p, pr_rings := []\<rparr>) m) = Some i"
  using assms by (cases "pr_cells p")
    (simp_all add: press_sensor names_station_def dot_opens_def cell_opens_def has_slug_def slug_key_def)

definition country_map :: click_map where
  "country_map = \<lparr>km_sensor = None, km_slug = None, km_areas = None, km_zoom = 9, km_outlines = init_outlines,
     km_note = mountWindNote, km_effects = []\<rparr>"

definition ring_press :: press where
  "ring_press = \<lparr>pr_dots = [], pr_rings = [\<lparr>mk_slug = None, mk_id = Some 7\<rparr>], pr_cells = [], pr_area = JUndef, pr_at = (0, 0)\<rparr>"

lemma ring_opens_nothing_witness: "km_sensor (press_map ring_press country_map) = None"
  using ring_opens_nothing [of ring_press 7 "[]" country_map] by (simp add: ring_press_def)

subsection \<open>Which area is chosen\<close>

lemma cellArea_chosen: "has_slug slug \<Longrightarrow> cellArea slug areas pt = None"
  by (simp add: cellArea_def split: option.splits)

lemma boundaryChoice_chosen: "has_slug slug \<Longrightarrow> boundaryChoice slug f = None"
  by (simp add: boundaryChoice_def)

lemma no_slug [simp]: "\<not> has_slug None" "has_slug (Some s) \<longleftrightarrow> s \<noteq> []"
  by (simp_all add: has_slug_def slug_key_def)

lemma dot_slug: "km_slug (onMarkerClick hits m) = km_slug m \<or>
    (\<exists>f \<in> set hits. has_slug (mk_slug f) \<and> km_slug (onMarkerClick hits m) = mk_slug f)"
  by (auto simp: onMarkerClick_def split: list.splits option.splits)

lemma cell_slug: "has_slug (km_slug m) \<Longrightarrow> km_slug (onCellClick p m) = km_slug m"
  by (auto simp: onCellClick_def cellArea_chosen Let_def split: list.splits option.splits geometry.splits)

lemma boundary_slug: "has_slug (km_slug m) \<Longrightarrow> onBoundaryClick p m = m"
  by (simp add: onBoundaryClick_def boundaryChoice_chosen)

text \<open>
  A map that has an area keeps it, whatever cell or outline is pressed: only an area's own marker
  chooses another, and no press leaves the map without one.
\<close>

theorem chosen_area_kept:
  assumes "has_slug (km_slug m)"
  shows "has_slug (km_slug (press_map p m))"
    and "\<forall>f \<in> set (pr_dots p) \<union> set (pr_rings p). \<not> has_slug (mk_slug f) \<Longrightarrow> km_slug (press_map p m) = km_slug m"
proof -
  let ?d = "onMarkerClick (pr_rings p) (onMarkerClick (pr_dots p) m)"
  have d: "has_slug (km_slug ?d)"
    using assms dot_slug [of "pr_dots p" m] dot_slug [of "pr_rings p" "onMarkerClick (pr_dots p) m"] by metis
  have close: "km_slug (closeOnEmpty p n) = km_slug n" for n by (simp add: closeOnEmpty_def)
  have eq: "km_slug (press_map p m) = km_slug ?d"
    unfolding press_map_def using d by (simp add: boundary_slug close cell_slug)
  then show "has_slug (km_slug (press_map p m))" using d by simp
  assume "\<forall>f \<in> set (pr_dots p) \<union> set (pr_rings p). \<not> has_slug (mk_slug f)"
  then have "km_slug ?d = km_slug m"
    using dot_slug [of "pr_dots p" m] dot_slug [of "pr_rings p" "onMarkerClick (pr_dots p) m"] by auto
  with eq show "km_slug (press_map p m) = km_slug m" by simp
qed

subsection \<open>Zooming in by pressing\<close>

text \<open>The camera goes where it was last sent; the effects are done.\<close>

definition arrive :: "click_map \<Rightarrow> click_map" where
  "arrive m = m\<lparr>km_zoom := fold (\<lambda>e z. case e of Ease_Map _ target \<Rightarrow> target | _ \<Rightarrow> z) (km_effects m) (km_zoom m),
     km_effects := []\<rparr>"

definition drill :: "press \<Rightarrow> click_map \<Rightarrow> click_map" where
  "drill p m = arrive (press_map p m)"

definition on_bin :: "press \<Rightarrow> bool" where
  "on_bin p \<longleftrightarrow> pr_dots p = [] \<and> pr_rings p = [] \<and> (\<exists>c cs. pr_cells p = c # cs \<and> x_sensor c = None)"

lemma bin_press:
  assumes "on_bin p" "km_effects m = []"
  shows "km_zoom (drill p m) = (if km_zoom m < 14 then min (km_zoom m + 2) 14 else km_zoom m)"
    and "km_slug (drill p m) = (if has_slug (km_slug m) then km_slug m
       else if has_slug (cellArea (km_slug m) (km_areas m) (Some (pr_at p))) then cellArea (km_slug m) (km_areas m) (Some (pr_at p))
       else km_slug m)"
    and "km_areas (drill p m) = km_areas m" "km_effects (drill p m) = []"
  using assms
  by (auto simp: on_bin_def drill_def arrive_def press_map_def onMarkerClick_def onCellClick_def closeOnEmpty_def
      onBoundaryClick_def Let_def cellArea_chosen point_tier_zoom split: geometry.splits if_splits)

text \<open>C25. Pressing a bin of several stations, on a map at rest no closer than the zoom where the grid shows
  stations, zooms in by two levels at a time and never past that zoom: n presses arrive there
  exactly when the map started at most 2n levels away from it. The area chosen on the way is
  chosen by the first press and kept.
\<close>

theorem presses_reach_the_stations:
  assumes p: "on_bin p" and m: "km_effects m = []" "km_zoom m \<le> 14"
  shows "km_zoom ((drill p ^^ n) m) = min (km_zoom m + 2 * real n) (real POINT_TIER_MIN_ZOOM)
    \<and> (km_zoom ((drill p ^^ n) m) = real POINT_TIER_MIN_ZOOM \<longleftrightarrow> real POINT_TIER_MIN_ZOOM - km_zoom m \<le> 2 * real n)
    \<and> (has_slug (km_slug (drill p m)) \<longrightarrow> km_slug ((drill p ^^ Suc n) m) = km_slug (drill p m))"
proof -
  have inv: "km_effects ((drill p ^^ k) m) = []" for k
    by (induction k) (simp_all add: m bin_press(4) [OF p])
  have zoom: "km_zoom ((drill p ^^ k) m) = min (km_zoom m + 2 * real k) 14" for k
  proof (induction k)
    case (Suc k)
    then show ?case using bin_press(1) [OF p inv [of k]] m(2) by (simp add: min_def algebra_simps)
  qed (use m in simp)
  have "has_slug (km_slug (drill p m)) \<Longrightarrow> km_slug ((drill p ^^ Suc k) m) = km_slug (drill p m)" for k
  proof (induction k)
    case (Suc k)
    then have "has_slug (km_slug ((drill p ^^ Suc k) m))" by simp
    then have "km_slug (drill p ((drill p ^^ Suc k) m)) = km_slug ((drill p ^^ Suc k) m)"
      using bin_press(2) [OF p inv [of "Suc k"]] by simp
    with Suc show ?case by simp
  qed simp
  moreover have "min (km_zoom m + 2 * real n) 14 = 14 \<longleftrightarrow> 14 - km_zoom m \<le> 2 * real n" by auto
  ultimately show ?thesis using zoom by (simp add: point_tier_zoom)
qed

definition bin_cell :: hex_feature where
  "bin_cell = \<lparr>f_value = JUndef, f_faulty = False, f_source = None, x_id = 0, x_geometry = Polygon (hexPolygon 23 42 15),
     x_colour = None, x_height = 0, x_n = Some 4, x_sensor = None, x_carried = False, x_fresh = None\<rparr>"

definition bin_pressed :: press where
  "bin_pressed = \<lparr>pr_dots = [], pr_rings = [], pr_cells = [bin_cell], pr_area = JUndef, pr_at = (23, 42)\<rparr>"

lemma presses_reach_the_stations_witness: "km_zoom ((drill bin_pressed ^^ 3) country_map) = real POINT_TIER_MIN_ZOOM"
proof -
  have "on_bin bin_pressed" by (simp add: on_bin_def bin_pressed_def bin_cell_def)
  from presses_reach_the_stations [OF this, of country_map 3] show ?thesis
    by (simp add: country_map_def point_tier_zoom)
qed

text \<open>A press on a station's circle also zooms in where the cell below it is a bin.\<close>

lemma dot_over_bin_moves_map:
  assumes "km_effects m = []" "pr_rings p = []" "pr_dots p = \<lparr>mk_slug = None, mk_id = Some i\<rparr> # ds" "pr_cells p = c # cs" "x_sensor c = None" "km_zoom m < 14"
  shows "km_sensor (press_map p m) = Some i \<and> km_zoom m < km_zoom (arrive (press_map p m))"
  using assms
  by (auto simp: press_sensor names_station_def dot_opens_def cell_opens_def arrive_def press_map_def onMarkerClick_def
      onCellClick_def closeOnEmpty_def onBoundaryClick_def Let_def point_tier_zoom split: geometry.splits)

subsection \<open>Where the camera is sent\<close>

lemma fold_total: "fold (\<lambda>(x, y) (sx, sy). (sx + x, sy + y)) pts (a, b) =
    (a + sum_list (map fst pts), b + sum_list (map snd pts))" for a b :: real
  by (induction pts arbitrary: a b) auto

lemma corner_sums:
  "cos (radians 90) = 0" "sin (radians 90) = 1" "cos (radians 270) = 0" "sin (radians 270) = - 1"
proof -
  have a: "radians 90 = pi / 2" "radians 270 = pi + pi / 2" by (simp_all add: radians_def field_simps)
  show "cos (radians 90) = 0" "sin (radians 90) = 1" "cos (radians 270) = 0" "sin (radians 270) = - 1"
    unfolding a cos_add sin_add by simp_all
qed

text \<open>The mean of a drawn hexagon's corners is the cell it was drawn for, so a press on a bin centres that bin.\<close>

theorem hexagon_centroid: "ringCentroid (hexPolygon lon lat r) = (lon, lat)"
proof -
  let ?c = "map (hex_corner lon lat r) [0..<6]"
  have ring: "hexPolygon lon lat r = ?c @ [?c ! 0]" by (simp add: hexPolygon_def Let_def)
  have "butlast (hexPolygon lon lat r) = ?c" "last (hexPolygon lon lat r) = hd (hexPolygon lon lat r)"
    unfolding ring by (simp_all add: hd_append hd_conv_nth del: upt_Suc)
  moreover have "sum_list (map fst ?c) = 6 * lon" "sum_list (map snd ?c) = 6 * lat"
    by (simp_all add: upt_rec hex_corner_def Let_def corner_angles corner_sums degrees_def)
  ultimately show ?thesis
    unfolding ringCentroid_def Let_def by (simp add: fold_total del: upt_Suc upt.simps)
qed

section \<open>The cell under the pointer\<close>

text \<open>\<open>hv_on\<close>: the feature state the renderer keeps, the cells drawn as hovered.\<close>

record hover =
  hv_id :: "int option"
  hv_on :: "int set"
  hv_pointer :: bool

definition set_hovered :: "int \<Rightarrow> bool \<Rightarrow> hover \<Rightarrow> hover" where
  "set_hovered i b h = h\<lparr>hv_on := (if b then insert i (hv_on h) else hv_on h - {i})\<rparr>"

definition clearHexHover :: "hover \<Rightarrow> hover" where
  "clearHexHover h = (case hv_id h of None \<Rightarrow> h | Some i \<Rightarrow> (set_hovered i False h)\<lparr>hv_id := None\<rparr>)"

definition hoverHex :: "int option \<Rightarrow> hover \<Rightarrow> hover" where
  "hoverHex fid h = (if fid = None \<or> fid = hv_id h then h
     else set_hovered (the fid) True ((clearHexHover h)\<lparr>hv_id := fid\<rparr>))"

text \<open>A paint of the grid's source clears; one of another source does not.\<close>

datatype hover_act = Pointer_Moves "int option" | Pointer_Enters | Pointer_Leaves | Source_Painted bool

fun hover_step :: "hover_act \<Rightarrow> hover \<Rightarrow> hover" where
  "hover_step (Pointer_Moves fid) h = hoverHex fid h"
| "hover_step Pointer_Enters h = h\<lparr>hv_pointer := True\<rparr>"
| "hover_step Pointer_Leaves h = clearHexHover (h\<lparr>hv_pointer := False\<rparr>)"
| "hover_step (Source_Painted grid) h = (if grid then clearHexHover h else h)"

text \<open>At most one cell is drawn as hovered, the one last moved onto; none after a leave or a repaint of the grid.\<close>

theorem one_cell_hovered:
  fixes acts
  defines "h \<equiv> fold hover_step acts \<lparr>hv_id = None, hv_on = {}, hv_pointer = False\<rparr>"
  shows "hv_on h = set_option (hv_id h)"
    and "hv_on (hover_step (Pointer_Moves (Some i)) h) = {i}"
    and "hv_on (hover_step Pointer_Leaves h) = {}" and "hv_on (hover_step (Source_Painted True) h) = {}"
proof -
  have step: "hv_on g = set_option (hv_id g) \<Longrightarrow> hv_on (hover_step a g) = set_option (hv_id (hover_step a g))" for a g
    by (cases a) (auto simp: hoverHex_def clearHexHover_def set_hovered_def split: option.splits)
  have "hv_on g = set_option (hv_id g) \<Longrightarrow> hv_on (fold hover_step acts g) = set_option (hv_id (fold hover_step acts g))" for g
    by (induction acts arbitrary: g) (simp_all add: step)
  then show h: "hv_on h = set_option (hv_id h)" by (simp add: h_def)
  show "hv_on (hover_step (Pointer_Moves (Some i)) h) = {i}" "hv_on (hover_step Pointer_Leaves h) = {}"
    "hv_on (hover_step (Source_Painted True) h) = {}"
    using h by (auto simp: hoverHex_def clearHexHover_def set_hovered_def split: option.splits)
qed

end
