(* ===== verification/Page_Start.thy ===== *)
theory Page_Start
  imports Js_Prelude
begin

text \<open>
  How a page comes alive (\<open>web/src/main.js\<close>): the islands are mounted once, after the first paint was
  reported, and one that fails leaves the others alone; and the pieces of \<open>web/src/lib/mapstyle.js\<close>
  that run once: the protocol, the error handler and the address of the glyphs. Frames, paint
  reports, timers and settled imports are events, in any order the browser delivers them.
\<close>

section \<open>After the first paint\<close>

text \<open>
  \<open>fp_frames\<close>: frames still to come before the paint is asked about. Then an observer and a timer race;
  \<open>fp_queued\<close> counts the tasks that will call back, \<open>fp_ran\<close> the calls made.
\<close>

record first_paint =
  fp_frames :: nat
  fp_done :: bool
  fp_observing :: bool
  fp_armed :: bool
  fp_queued :: nat
  fp_ran :: nat

text \<open>What the browser says when asked: the paint is in its list, it cannot observe paints, or it can.\<close>

datatype paint_support = Already_Painted | Cannot_Observe | Can_Observe

definition whenFirstPaintReported :: "paint_support \<Rightarrow> first_paint \<Rightarrow> first_paint" where
  "whenFirstPaintReported p s = (case p of
      Already_Painted \<Rightarrow> s\<lparr>fp_queued := fp_queued s + 1\<rparr>
    | Cannot_Observe \<Rightarrow> s\<lparr>fp_ran := fp_ran s + 1\<rparr>
    | Can_Observe \<Rightarrow> s\<lparr>fp_done := False, fp_observing := True, fp_armed := True\<rparr>)"

definition run_once :: "first_paint \<Rightarrow> first_paint" where
  "run_once s = (if fp_done s then s
     else s\<lparr>fp_done := True, fp_observing := False, fp_armed := False, fp_queued := fp_queued s + 1\<rparr>)"

text \<open>Without frames the callback is simply queued.\<close>

definition scheduleAfterFirstPaint :: "bool \<Rightarrow> first_paint" where
  "scheduleAfterFirstPaint raf = \<lparr>fp_frames = (if raf then 2 else 0), fp_done = False, fp_observing = False, fp_armed = False,
     fp_queued = (if raf then 0 else 1), fp_ran = 0\<rparr>"

datatype paint_event = Frame paint_support | Reports bool | Timer_Fires | Task_Runs

fun paint_step :: "paint_event \<Rightarrow> first_paint \<Rightarrow> first_paint" where
  "paint_step (Frame p) s = (case fp_frames s of 0 \<Rightarrow> s
     | Suc n \<Rightarrow> (let t = s\<lparr>fp_frames := n\<rparr> in if n = 0 then whenFirstPaintReported p t else t))"
| "paint_step (Reports has_paint) s = (if fp_observing s \<and> has_paint then run_once s else s)"
| "paint_step Timer_Fires s = (if fp_armed s then run_once s else s)"
| "paint_step Task_Runs s = (if fp_queued s = 0 then s else s\<lparr>fp_queued := fp_queued s - 1, fp_ran := fp_ran s + 1\<rparr>)"

text \<open>Waiting for frames, waiting for the paint, queued, or called back.\<close>

definition paint_ok :: "first_paint \<Rightarrow> bool" where
  "paint_ok s \<longleftrightarrow> (if 0 < fp_frames s then \<not> fp_armed s \<and> \<not> fp_observing s \<and> fp_queued s = 0 \<and> fp_ran s = 0 \<and> \<not> fp_done s
     else if fp_armed s then fp_observing s \<and> \<not> fp_done s \<and> fp_queued s = 0 \<and> fp_ran s = 0
     else \<not> fp_observing s \<and> fp_queued s + fp_ran s = 1)"

lemma paint_ok_init: "paint_ok (scheduleAfterFirstPaint raf)"
  by (simp add: paint_ok_def scheduleAfterFirstPaint_def)

lemma paint_ok_step: "paint_ok s \<Longrightarrow> paint_ok (paint_step e s)"
  by (cases e) (auto simp: paint_ok_def whenFirstPaintReported_def run_once_def Let_def split: nat.splits paint_support.splits if_splits)

lemma paint_ok_run: "paint_ok s \<Longrightarrow> paint_ok (fold paint_step es s)"
  by (induction es arbitrary: s) (simp_all add: paint_ok_step)

definition is_frame :: "paint_event \<Rightarrow> bool" where
  "is_frame e \<longleftrightarrow> (\<exists>p. e = Frame p)"

lemma frames_left: "fp_frames (fold paint_step es s) = fp_frames s - length (filter is_frame es)"
proof (induction es arbitrary: s)
  case (Cons e es)
  have "fp_frames (paint_step e s) = fp_frames s - (if is_frame e then 1 else 0)"
    by (cases e) (auto simp: is_frame_def whenFirstPaintReported_def run_once_def Let_def split: nat.splits paint_support.splits)
  with Cons.IH [of "paint_step e s"] show ?case by simp
qed simp

lemma settles:
  assumes "paint_ok s" "fp_frames s \<le> 2"
  shows "fp_ran (fold paint_step [Frame p, Frame q, Timer_Fires, Task_Runs] s) = 1"
proof -
  have "fp_frames s = 0 \<or> fp_frames s = 1 \<or> fp_frames s = 2" using assms(2) by auto
  then show ?thesis
    using assms(1)
    by (elim disjE) (auto simp: paint_ok_def whenFirstPaintReported_def run_once_def Let_def numeral_2_eq_2 split: paint_support.splits)
qed

text \<open>
  The islands are mounted at most once, however frames, reports, timers and tasks interleave; and
  from any moment on, two frames, the timer and a task are enough for them to be mounted. Without
  two frames, as in a tab that was opened in the background, they are not mounted at all: the timer
  that is to cover such a tab has not been started.
\<close>

theorem islands_mount_once:
  shows "fp_ran (fold paint_step es (scheduleAfterFirstPaint raf)) \<le> 1 \<and>
    fp_ran (fold paint_step (es @ [Frame p, Frame q, Timer_Fires, Task_Runs]) (scheduleAfterFirstPaint raf)) = 1 \<and>
    (raf \<and> length (filter is_frame es) < 2 \<longrightarrow> fp_ran (fold paint_step es (scheduleAfterFirstPaint raf)) = 0)"
proof -
  let ?s = "fold paint_step es (scheduleAfterFirstPaint raf)"
  have ok: "paint_ok ?s" by (rule paint_ok_run [OF paint_ok_init])
  have left: "fp_frames ?s = (if raf then 2 else 0) - length (filter is_frame es)"
    by (simp add: frames_left) (simp add: scheduleAfterFirstPaint_def)
  have "fp_ran ?s \<le> 1" using ok by (auto simp: paint_ok_def split: if_splits)
  moreover have "fp_ran (fold paint_step (es @ [Frame p, Frame q, Timer_Fires, Task_Runs]) (scheduleAfterFirstPaint raf)) = 1"
    using settles [OF ok, of p q] left by simp
  moreover have "raf \<and> length (filter is_frame es) < 2 \<longrightarrow> fp_ran ?s = 0"
    using ok left by (auto simp: paint_ok_def)
  ultimately show ?thesis by blast
qed

lemma islands_mount_once_witness:
  "fp_ran (fold paint_step [Timer_Fires, Frame Can_Observe, Task_Runs] (scheduleAfterFirstPaint True)) = 0"
  using islands_mount_once [of "[Timer_Fires, Frame Can_Observe, Task_Runs]" True Can_Observe Can_Observe]
  by (simp add: is_frame_def)

section \<open>The islands\<close>

definition ISLANDS :: "string list" where
  "ISLANDS = [''map'', ''chart'', ''switcher'', ''finder'', ''table'', ''refresh'', ''freshness'', ''panel'', ''readouts'',
     ''sensorbar'', ''theme'', ''clearsettings'', ''visitors'']"

text \<open>
  \<open>ISLANDS[islandName] ?? null\<close> also finds what every object inherits; none of that loads an island,
  so such a name ends in the log and not in a mount.
\<close>

definition OBJECT_PROTOTYPE :: "string list" where
  "OBJECT_PROTOTYPE = [''constructor'', ''hasOwnProperty'', ''isPrototypeOf'', ''propertyIsEnumerable'', ''toString'',
     ''toLocaleString'', ''valueOf'', ''__defineGetter__'', ''__defineSetter__'', ''__lookupGetter__'', ''__lookupSetter__'',
     ''__proto__'']"

datatype loader = Island string | Inherited string

definition resolveLoader :: "string \<Rightarrow> loader option" where
  "resolveLoader name = (if name \<in> set ISLANDS then Some (Island name)
     else if name \<in> set OBJECT_PROTOTYPE then Some (Inherited name) else None)"

text \<open>Whether an island's module loads, and whether its mount returns, is up to the island.\<close>

datatype island_run = Load_Fails | Mount_Throws | Mounts

record page_islands =
  pi_mounted :: "nat list"
  pi_logged :: "nat list"

text \<open>One island's import settles: \<open>i\<close> is the element's place on the page.\<close>

fun runIsland :: "(nat \<Rightarrow> island_run) \<Rightarrow> nat \<times> loader \<Rightarrow> page_islands \<Rightarrow> page_islands" where
  "runIsland outcome (i, Island _) s = (case outcome i of
      Mounts \<Rightarrow> s\<lparr>pi_mounted := pi_mounted s @ [i]\<rparr>
    | Load_Fails \<Rightarrow> s\<lparr>pi_logged := pi_logged s @ [i]\<rparr>
    | Mount_Throws \<Rightarrow> s\<lparr>pi_logged := pi_logged s @ [i]\<rparr>)"
| "runIsland outcome (i, Inherited _) s = s\<lparr>pi_logged := pi_logged s @ [i]\<rparr>"

text \<open>The elements for which something was found; each then settles in its own time.\<close>

definition mountIslands :: "string list \<Rightarrow> (nat \<times> loader) list" where
  "mountIslands names = concat (map (\<lambda>i. case resolveLoader (names ! i) of None \<Rightarrow> [] | Some l \<Rightarrow> [(i, l)]) [0..<length names])"

lemma set_mountIslands:
  "set (mountIslands names) = {(i, l). i < length names \<and> resolveLoader (names ! i) = Some l}"
  by (force simp: mountIslands_def split: option.splits)

lemma runIsland_fold:
  "set (pi_mounted (fold (runIsland outcome) is s)) = set (pi_mounted s) \<union> {i. \<exists>name. (i, Island name) \<in> set is \<and> outcome i = Mounts} \<and>
   set (pi_logged (fold (runIsland outcome) is s)) = set (pi_logged s) \<union>
     {i. \<exists>l. (i, l) \<in> set is \<and> \<not> (outcome i = Mounts \<and> (\<exists>name. l = Island name))}"
proof (induction "is" arbitrary: s)
  case (Cons a "is")
  obtain i l where a: "a = (i, l)" by fastforce
  show ?case by (cases l; cases "outcome i") (auto simp: a Cons.IH)
qed simp

lemma islands_independent:
  fixes outcome :: "nat \<Rightarrow> island_run"
  assumes "mset order = mset (mountIslands names)"
  defines "s \<equiv> fold (runIsland outcome) order \<lparr>pi_mounted = [], pi_logged = []\<rparr>"
  shows "set (pi_mounted s) = {i. i < length names \<and> names ! i \<in> set ISLANDS \<and> outcome i = Mounts}"
    and "set (pi_logged s) = {i. i < length names \<and> (names ! i \<in> set ISLANDS \<and> outcome i \<noteq> Mounts \<or> names ! i \<in> set OBJECT_PROTOTYPE)}"
proof -
  have order: "set order = {(i, l). i < length names \<and> resolveLoader (names ! i) = Some l}"
    using mset_eq_setD [OF assms(1)] by (simp add: set_mountIslands)
  have "name \<in> set OBJECT_PROTOTYPE \<Longrightarrow> name \<notin> set ISLANDS" for name
    by (auto simp: ISLANDS_def OBJECT_PROTOTYPE_def)
  then show "set (pi_mounted s) = {i. i < length names \<and> names ! i \<in> set ISLANDS \<and> outcome i = Mounts}"
    "set (pi_logged s) = {i. i < length names \<and> (names ! i \<in> set ISLANDS \<and> outcome i \<noteq> Mounts \<or> names ! i \<in> set OBJECT_PROTOTYPE)}"
    by (auto simp: s_def runIsland_fold order resolveLoader_def split: if_splits)
qed

section \<open>Once per page (mapstyle.js)\<close>

definition registerProtocols :: "bool \<times> nat \<Rightarrow> bool \<times> nat" where
  "registerProtocols s = (if fst s then s else (True, snd s + 1))"

lemma registered_once: "(registerProtocols ^^ Suc n) (False, 0) = (True, 1)"
  by (induction n) (simp_all add: registerProtocols_def)

text \<open>The first error is warned about; the flag and the warnings.\<close>

definition installErrorHandler :: "string \<Rightarrow> bool \<times> string list \<Rightarrow> bool \<times> string list" where
  "installErrorHandler e s = (if fst s then s else (True, snd s @ [e]))"

lemma first_error_only: "snd (fold installErrorHandler es (False, [])) = take 1 es"
proof -
  have "snd (fold installErrorHandler es (True, ws)) = ws" for ws
    by (induction es) (simp_all add: installErrorHandler_def)
  then show ?thesis by (cases es) (simp_all add: installErrorHandler_def)
qed

text \<open>Everything after the last slash is replaced.\<close>

definition glyphsURL :: "string \<Rightarrow> string option" where
  "glyphsURL basemap = (if basemap = [] then None
     else Some (rev (dropWhile (\<lambda>c. c \<noteq> CHR ''/'') (rev basemap)) @ ''glyphs/{fontstack}/{range}.pbf''))"

lemma glyphs_beside_style: "CHR ''/'' \<notin> set file \<Longrightarrow> glyphsURL (dir @ ''/'' @ file) = Some (dir @ ''/glyphs/{fontstack}/{range}.pbf'')"
proof -
  assume "CHR ''/'' \<notin> set file"
  then have "dropWhile (\<lambda>c. c \<noteq> CHR ''/'') (rev file @ CHR ''/'' # rev dir) = CHR ''/'' # rev dir"
    by (subst dropWhile_append2) auto
  then show ?thesis by (simp add: glyphsURL_def)
qed

end
