(* ===== verification/Settings.thy ===== *)
theory Settings
  imports Docking Freshness Layers_Menu Map_Chrome Map_Window Opening Preferences
begin

text \<open>
  The settings of the site together: the allow-list every page may store under
  (\<open>internal/web/static/storage-keys.json\<close>, joined by \<open>storageKeysCSV\<close> into the attribute that
  \<open>clearsettings.js\<close> reads), and what each component reads after the reader's \<open>Clear my settings\<close>.
\<close>

section \<open>The allow-list\<close>

definition PUBLISHED_KEYS :: "string list" where
  "PUBLISHED_KEYS = [''kanarche:theme'', ''kanarche:map-layers'', ''kanarche:legend-open'', ''kanarche:play-speed'',
     ''kanarche:map-window'', ''kanarche:auto-refresh'', ''kanarche:map-view'', ''kanarche:locate-hint-seen'',
     ''kanarche:favourite-sensor'', ''kanarche:panel-folded'']"

definition LEGACY_KEYS :: "string list" where
  "LEGACY_KEYS = [''airbg:theme'', ''airbg:map-layers'', ''airbg:legend-open'', ''airbg:play-speed'',
     ''airbg:map-window'', ''airbg:auto-refresh'', ''airbg:map-view'', ''airbg:locate-hint-seen'',
     ''airbg:favourite-sensor'', ''airbg:panel-folded'']"

definition storageKeysCSV :: string where
  "storageKeysCSV = join_with '','' (PUBLISHED_KEYS @ LEGACY_KEYS)"

definition PLAY_SPEED_KEY :: string where
  "PLAY_SPEED_KEY = ''kanarche:play-speed''"

lemma csv_keys: "cleared_keys storageKeysCSV = PUBLISHED_KEYS @ LEGACY_KEYS"
  by code_simp

text \<open>The renamed keys are the published ones under the former prefix, in the same order.\<close>

lemma legacy_of_published: "map legacyKey PUBLISHED_KEYS = map Some LEGACY_KEYS" "list_all (\<lambda>k. legacyKey k = None) LEGACY_KEYS"
  by code_simp+

lemma keys_published:
  "THEME_KEY \<in> set PUBLISHED_KEYS" "STORAGE_KEY \<in> set PUBLISHED_KEYS" "LEGEND_FOLD_KEY \<in> set PUBLISHED_KEYS"
  "PLAY_SPEED_KEY \<in> set PUBLISHED_KEYS" "WINDOW_STORAGE_KEY \<in> set PUBLISHED_KEYS" "AUTO_KEY \<in> set PUBLISHED_KEYS"
  "LAST_VIEW_KEY \<in> set PUBLISHED_KEYS" "LOCATE_HINT_KEY \<in> set PUBLISHED_KEYS" "FAVOURITE_KEY \<in> set PUBLISHED_KEYS"
  "FOLD_KEY \<in> set PUBLISHED_KEYS"
  by code_simp+

section \<open>What is removed\<close>

definition removed_by :: "string \<Rightarrow> string \<Rightarrow> bool" where
  "removed_by k j \<longleftrightarrow> j = k \<or> legacyKey k = Some j"

lemma items_removeItem:
  "storage_working s \<Longrightarrow> items (snd (removeItem s k)) j = (if removed_by k j then None else items s j)"
  by (auto simp: storage_op_defs storage_working_def removed_by_def split: option.splits)

lemma items_cleared:
  "storage_working s \<Longrightarrow> items (fold (\<lambda>k s. snd (removeItem s k)) ks s) j = (if list_ex (\<lambda>k. removed_by k j) ks then None else items s j)"
  by (induction ks arbitrary: s) (simp_all add: items_removeItem ls.working_remove)

lemma removed_by_list:
  "list_ex (\<lambda>k. removed_by k j) (PUBLISHED_KEYS @ LEGACY_KEYS) \<longleftrightarrow> j \<in> set (PUBLISHED_KEYS @ LEGACY_KEYS)"
proof -
  have old: "(\<exists>k\<in>set PUBLISHED_KEYS. legacyKey k = Some j) \<longleftrightarrow> Some j \<in> set (map legacyKey PUBLISHED_KEYS)"
    by (auto simp: eq_commute [of "Some j"])
  have none: "\<not> (\<exists>k\<in>set LEGACY_KEYS. legacyKey k = Some j)"
    using legacy_of_published(2) by (auto simp: list_all_iff)
  show ?thesis
    using old none unfolding legacy_of_published(1) by (auto simp: list_ex_iff removed_by_def)
qed

section \<open>As on a first visit\<close>

text \<open>After \<open>Clear my settings\<close> every part of the site opens as it does for a reader who was never here:
  the system's theme, the layers the map starts with, the key folded, the present hour, automatic
  refresh on, no saved view, no favourite, the callout due again and the panel unfolded, whichever
  name, old or new, held the choice. What other programs stored on this origin is left as it was.
\<close>

theorem clearing_is_a_first_visit:
  assumes "storage_working s" and "clearKeys (cleared_keys storageKeysCSV) (Some s) = Some s'"
  shows "readTheme None (Some s') = Auto \<and> readState (Some s') = [] \<and>
    ch_open (mountLegend phone (Some s')) = False \<and>
    readChoice spell PLAY_SPEED_KEY speeds usual (Some s') = usual \<and>
    readWindow (Some s') = LIVE_WINDOW \<and> fr_auto (createFreshness (Some s') now) = True \<and>
    readLastView (Some s') = None \<and> readFavourite (Some s') = None \<and>
    shouldShowLocateHint pg (Some s') = (pg_remember pg \<and> \<not> hasExplicitView (pg_hash pg) (pg_search pg)) \<and>
    readFlag FOLD_KEY unfolded (Some s') = unfolded \<and>
    (\<forall>k. k \<notin> set (PUBLISHED_KEYS @ LEGACY_KEYS) \<longrightarrow> items s' k = items s k)"
proof -
  have s': "s' = fold (\<lambda>k s. snd (removeItem s k)) (PUBLISHED_KEYS @ LEGACY_KEYS) s"
    using assms(2) by (simp add: clearKeys_def csv_keys del: fold_append)
  have items: "items s' j = (if j \<in> set (PUBLISHED_KEYS @ LEGACY_KEYS) then None else items s j)" for j
    unfolding s' items_cleared [OF assms(1)] removed_by_list ..
  have w: "storage_working s'" unfolding s' using assms(1) by (rule ls.fold_remove_working)
  have gone: "getItem s' k = Inr None" if "k \<in> set PUBLISHED_KEYS" for k
  proof -
    have "legacyKey k \<in> Some ` set LEGACY_KEYS"
      using that legacy_of_published(1) by (metis image_eqI list.set_map)
    then show ?thesis
      using that w by (auto simp: getItem_def raw_get_def items storage_working_def)
  qed
  note reads = try_get_def gone [OF keys_published(1)] gone [OF keys_published(2)] gone [OF keys_published(3)]
    gone [OF keys_published(4)] gone [OF keys_published(5)] gone [OF keys_published(6)] gone [OF keys_published(7)]
    gone [OF keys_published(8)] gone [OF keys_published(9)] gone [OF keys_published(10)]
  have last: "readLastView (Some s') = None"
    by (simp add: readLastView_def reads parseLastView_def)
  have "find (\<lambda>v. Some (spell v) = None) speeds = None" by (simp add: find_None_iff)
  then have speed: "readChoice spell PLAY_SPEED_KEY speeds usual (Some s') = usual"
    by (simp add: readChoice_def reads)
  show ?thesis
    using last speed items
    by (simp add: reads readTheme_def stored_theme_def override_of_def readState_def mountLegend_def readFlag_def
        readWindow_def createFreshness_def schedule_def readFavourite_def parseFavourite_def shouldShowLocateHint_def)
qed

definition settled_reader :: storage where
  "settled_reader = \<lparr>items = [''airbg:theme'' \<mapsto> ''dark'', ''kanarche:favourite-sensor'' \<mapsto> ''7'', ''other'' \<mapsto> ''x''],
     get_throws = False, set_throws = False, remove_throws = False\<rparr>"

lemma clearing_is_a_first_visit_witness:
  "\<exists>s'. clearKeys (cleared_keys storageKeysCSV) (Some settled_reader) = Some s' \<and>
     readTheme None (Some settled_reader) = Dark \<and> readTheme None (Some s') = Auto \<and>
     readFavourite (Some s') = None \<and> items s' ''other'' = Some ''x''"
proof -
  obtain s' where s': "clearKeys (cleared_keys storageKeysCSV) (Some settled_reader) = Some s'"
    by (simp add: clearKeys_def)
  have "storage_working settled_reader" by (simp add: settled_reader_def storage_working_def)
  note after = clearing_is_a_first_visit [OF this s', of False "\<lambda>x. x" "[]" "[]" 0 "\<lparr>pg_hash = None, pg_search = None, pg_remember = True\<rparr>" False]
  have before: "readTheme None (Some settled_reader) = Dark" by code_simp
  have "''other'' \<notin> set (PUBLISHED_KEYS @ LEGACY_KEYS)" by code_simp
  then have "items s' ''other'' = items settled_reader ''other''" using after by blast
  also have "\<dots> = Some ''x''" by (simp add: settled_reader_def)
  finally show ?thesis using s' before after by blast
qed

end
