(* ===== verification/Page_Config.thy ===== *)
theory Page_Config
  imports Layers_Menu Opening
begin

text \<open>
  What the map reads off its element (\<open>readConfig\<close> and \<open>layerLabelKey\<close> of \<open>web/src/lib/mapconfig.js\<close>):
  the data attributes the server rendered, under the names the browser gives them. A dataset is a
  map from those names; an attribute that is not rendered is \<open>undefined\<close>.
\<close>

section \<open>Attribute names\<close>

definition is_lower :: "char \<Rightarrow> bool" where
  "is_lower c \<longleftrightarrow> 97 \<le> (of_char c :: nat) \<and> (of_char c :: nat) \<le> 122"

definition is_upper :: "char \<Rightarrow> bool" where
  "is_upper c \<longleftrightarrow> 65 \<le> (of_char c :: nat) \<and> (of_char c :: nat) \<le> 90"

text \<open>\<open>toUpperCase\<close> and \<open>toLowerCase\<close> of one ASCII character; the names are ASCII.\<close>

definition up :: "char \<Rightarrow> char" where
  "up c = (if is_lower c then char_of ((of_char c :: nat) - 32) else c)"

definition low :: "char \<Rightarrow> char" where
  "low c = (if is_upper c then char_of ((of_char c :: nat) + 32) else c)"

text \<open>The browser's rule from the part of an attribute's name after \<open>data-\<close> to its name in \<open>dataset\<close>, and back.\<close>

fun dataset_name :: "string \<Rightarrow> string" where
  "dataset_name (c # d # s) = (if c = CHR ''-'' \<and> is_lower d then up d # dataset_name s else c # dataset_name (d # s))"
| "dataset_name s = s"

fun attribute_name :: "string \<Rightarrow> string" where
  "attribute_name [] = []"
| "attribute_name (c # s) = (if is_upper c then CHR ''-'' # low c # attribute_name s else c # attribute_name s)"

fun capitalised :: "string \<Rightarrow> string" where
  "capitalised [] = []"
| "capitalised (c # s) = up c # s"

definition layerLabelKey :: "string \<Rightarrow> string" where
  "layerLabelKey g = ''tLayer'' @ concat (map capitalised (split_on CHR ''-'' g))"

lemma lower_not_upper: "is_lower c \<Longrightarrow> \<not> is_upper c"
  by (auto simp: is_lower_def is_upper_def)

lemma up_lower: "is_lower c \<Longrightarrow> is_upper (up c) \<and> low (up c) = c"
proof -
  assume l: "is_lower c"
  then have n: "97 \<le> (of_char c :: nat)" "(of_char c :: nat) \<le> 122" by (auto simp: is_lower_def)
  have u: "(of_char (up c) :: nat) = of_char c - 32"
    using l n by (simp add: up_def of_char_of)
  then have "is_upper (up c)" using n by (auto simp: is_upper_def)
  then show ?thesis using n u by (simp add: low_def)
qed

lemma hyphen_plain [simp]: "\<not> is_upper CHR ''-''" "\<not> is_lower CHR ''-''"
  by (simp_all add: is_upper_def is_lower_def)

lemma attribute_of_dataset: "list_all (\<lambda>c. \<not> is_upper c) s \<Longrightarrow> attribute_name (dataset_name s) = s"
  by (induction s rule: dataset_name.induct) (auto simp: up_lower)

lemma dataset_name_inj: "inj_on dataset_name {s. list_all (\<lambda>c. \<not> is_upper c) s}"
  by (rule inj_on_inverseI [of _ attribute_name]) (simp add: attribute_of_dataset)

definition layer_word :: "string \<Rightarrow> bool" where
  "layer_word w \<longleftrightarrow> w \<noteq> [] \<and> list_all is_lower w"

lemma dataset_name_word:
  "list_all is_lower w \<Longrightarrow> dataset_name (w @ CHR ''-'' # d # s) = (if is_lower d then w @ up d # dataset_name s else w @ CHR ''-'' # dataset_name (d # s))"
  by (induction w rule: induct_list012) auto

lemma dataset_name_lower: "list_all is_lower w \<Longrightarrow> dataset_name w = w"
  by (induction w rule: induct_list012) auto

lemma dataset_name_words:
  "list_all layer_word ws \<Longrightarrow> list_all is_lower w \<Longrightarrow>
     dataset_name (join_with ''-'' (w # ws)) = w @ concat (map capitalised ws)"
proof (induction ws arbitrary: w)
  case (Cons v ws)
  then obtain d v' where v: "v = d # v'" "is_lower d" "list_all is_lower v'" by (cases v) (auto simp: layer_word_def)
  have "dataset_name (join_with ''-'' (w # v # ws)) = w @ up d # dataset_name (join_with ''-'' (v' # ws))"
    using v Cons.prems by (cases ws) (simp_all add: dataset_name_word)
  then show ?case using Cons.IH [of v'] Cons.prems v by simp
qed (simp add: dataset_name_lower)

text \<open>
  \<open>layerLabelKey\<close> names, for every group written in lower-case words and hyphens, what the browser
  calls the attribute \<open>data-t-layer-<group>\<close>: the rule by which the key and the template agree.
\<close>

lemma layer_key_is_dataset_name:
  assumes "ws \<noteq> []" "list_all layer_word ws"
  shows "layerLabelKey (join_with ''-'' ws) = dataset_name (''t-layer-'' @ join_with ''-'' ws)"
proof -
  have "\<forall>w\<in>set ws. CHR ''-'' \<notin> set w"
    using assms(2) hyphen_plain(2) by (metis layer_word_def list_all_iff)
  then have s: "split_on CHR ''-'' (join_with ''-'' ws) = ws" using assms(1) by (rule split_on_join [rotated])
  have j: "''t-layer-'' @ join_with ''-'' ws = join_with ''-'' (''t'' # ''layer'' # ws)"
    using assms(1) by (cases ws) simp_all
  have "list_all layer_word (''layer'' # ws)" using assms(2) by (simp add: layer_word_def is_lower_def)
  then show ?thesis
    unfolding layerLabelKey_def s j by (subst dataset_name_words) (simp_all add: is_lower_def up_def char_of_def bit_0)
qed

lemma layer_order_words: "list_all (\<lambda>g. list_all layer_word (split_on CHR ''-'' g) \<and> join_with ''-'' (split_on CHR ''-'' g) = g) LAYER_ORDER"
  by code_simp

section \<open>The configuration\<close>

type_synonym dataset = "string \<Rightarrow> string option"

text \<open>\<open>d.tX || ''\<close>.\<close>

definition or_empty :: "dataset \<Rightarrow> string \<Rightarrow> string" where
  "or_empty d key = str_or (d key) []"

definition number_of :: "string option \<Rightarrow> jsnum" where
  "number_of v = (case v of None \<Rightarrow> NaN | Some s \<Rightarrow> string_to_number s)"

text \<open>The texts: the name in the configuration and the name in the dataset.\<close>

definition T_KEYS :: "(string \<times> string) list" where
  "T_KEYS = [(''legend'', ''tLegend''), (''legendToggle'', ''tLegendToggle''), (''legendNoData'', ''tLegendNoData''),
     (''legendWind'', ''tLegendWind''), (''legendAbout'', ''tLegendAbout''), (''legendSource'', ''tLegendSource''),
     (''disclaimer'', ''tDisclaimer''), (''close'', ''tClose''), (''fullscreen'', ''tFullscreen''),
     (''fullscreenExit'', ''tFullscreenExit''), (''sheetHistory'', ''tSheetHistory''),
     (''panelHistory'', ''tPanelHistory''), (''panelHistoryShort'', ''tPanelHistoryShort''),
     (''panelFold'', ''tPanelFold''), (''panelExpand'', ''tPanelExpand''), (''zoomIn'', ''tZoomIn''),
     (''zoomOut'', ''tZoomOut''), (''zoomReset'', ''tZoomReset''), (''orientLabel'', ''tOrientLabel''),
     (''orientTip'', ''tOrientTip''), (''orientTilt'', ''tOrientTilt''), (''orientHeading'', ''tOrientHeading''),
     (''orientNorth'', ''tOrientNorth''), (''windowLabel'', ''tWindowLabel''), (''playLabel'', ''tPlayLabel''),
     (''speedLabel'', ''tSpeedLabel''), (''pauseLabel'', ''tPauseLabel''), (''timeLabel'', ''tTimeLabel''),
     (''exitLabel'', ''tExitLabel''), (''replayThin'', ''tReplayThin''), (''replayNoHistory'', ''tReplayNoHistory''),
     (''layersButton'', ''tLayersButton''), (''layersCaption'', ''tLayersCaption''),
     (''viewLegend'', ''tViewLegend''), (''viewBasemap'', ''tViewBasemap''),
     (''viewCellValues'', ''tViewCellValues''), (''viewInactiveStations'', ''tViewInactiveStations''),
     (''viewBoundaries'', ''tViewBoundaries''), (''viewCommunitySensors'', ''tViewCommunitySensors''),
     (''viewOfficialStations'', ''tViewOfficialStations''), (''viewFaultyStations'', ''tViewFaultyStations''),
     (''notMeasured'', ''tNotMeasured''), (''communitySensors'', ''tViewCommunitySensors''),
     (''officialStations'', ''tViewOfficialStations''), (''hint'', ''tHint''), (''noSources'', ''tNoSources''),
     (''rateLimited'', ''tRateLimited''), (''unavailable'', ''tUnavailable''), (''unscaled'', ''tUnscaled''),
     (''locateButton'', ''tLocateButton''), (''locateHint'', ''tLocateHint''), (''locateDenied'', ''tLocateDenied''),
     (''locateFailed'', ''tLocateFailed''), (''windToggle'', ''tWindToggle''), (''windAbout'', ''tWindAbout''),
     (''windNote'', ''tWindNote''), (''windAttribution'', ''tWindAttribution''), (''windCredit'', ''tWindCredit''),
     (''mapTitle'', ''tMapTitle''), (''attributionToggle'', ''tAttributionToggle'')]"

record map_config =
  cf_slug :: "string option"
  cf_rememberView :: bool
  cf_zoom :: jsnum
  cf_lon :: jsnum
  cf_lat :: jsnum
  cf_metric :: "string option"
  cf_metrics :: "string list"
  cf_metricLabels :: "string \<Rightarrow> string option"
  cf_metricUnits :: "string \<Rightarrow> string option"
  cf_basemap :: string
  cf_langPrefix :: string
  cf_lang :: string
  cf_noDataColour :: "string option"
  cf_unscaledColour :: "string option"
  cf_markerStrokeColour :: "string option"
  cf_labelColour :: "string option"
  cf_emptyBasemapColour :: "string option"
  cf_hexOpacity :: jsnum
  cf_windowLabels :: "string list"
  cf_zoomCity :: jsnum
  cf_zoomSensor :: jsnum
  cf_t :: "(string \<times> string) list"
  cf_tier :: "(string \<times> string) list"
  cf_layers :: "(string \<times> string) list"

definition readConfig :: "dataset \<Rightarrow> string \<Rightarrow> map_config" where
  "readConfig d lang = \<lparr>
     cf_slug = (if or_empty d ''slug'' = [] then None else d ''slug''),
     cf_rememberView = (d ''rememberView'' = Some ''true''),
     cf_zoom = number_of (d ''zoom''), cf_lon = number_of (d ''lon''), cf_lat = number_of (d ''lat''),
     cf_metric = d ''metric'', cf_metrics = parseMetricList (d ''metrics''),
     cf_metricLabels = byMetric (parseMetricList (d ''metrics'')) (splitAttr (d ''metricLabels'')),
     cf_metricUnits = byMetric (parseMetricList (d ''metrics'')) (splitAttr (d ''metricUnits'')),
     cf_basemap = or_empty d ''basemap'', cf_langPrefix = or_empty d ''langPrefix'', cf_lang = lang,
     cf_noDataColour = d ''noDataColour'', cf_unscaledColour = d ''unscaledColour'',
     cf_markerStrokeColour = d ''markerStrokeColour'', cf_labelColour = d ''markerLabelColour'',
     cf_emptyBasemapColour = d ''emptyBasemapColour'', cf_hexOpacity = number_of (d ''hexOpacity''),
     cf_windowLabels = splitAttr (d ''tWindows''),
     cf_zoomCity = number_of (d ''zoomCity''), cf_zoomSensor = number_of (d ''zoomSensor''),
     cf_t = map (\<lambda>(name, key). (name, or_empty d key)) T_KEYS,
     cf_tier = [(''country'', or_empty d ''tTierCountry''), (''city'', or_empty d ''tTierCity''),
                (''sensors'', or_empty d ''tTierSensors'')],
     cf_layers = map (\<lambda>g. (g, or_empty d (layerLabelKey g))) LAYER_ORDER\<rparr>"

text \<open>What the browser makes of an element's attributes, given without their \<open>data-\<close>.\<close>

definition dataset_of :: "(string \<times> string) list \<Rightarrow> dataset" where
  "dataset_of attrs = map_of (map (\<lambda>(a, v). (dataset_name a, v)) attrs)"

definition attribute_names :: "(string \<times> string) list \<Rightarrow> bool" where
  "attribute_names attrs \<longleftrightarrow> list_all (\<lambda>(a, v). list_all (\<lambda>c. \<not> is_upper c) a) attrs"

lemma dataset_lookup:
  "attribute_names attrs \<Longrightarrow> list_all (\<lambda>c. \<not> is_upper c) b \<Longrightarrow> dataset_of attrs (dataset_name b) = map_of attrs b"
proof (induction attrs)
  case (Cons av attrs)
  obtain a v where av: "av = (a, v)" by fastforce
  then have "dataset_name b = dataset_name a \<longleftrightarrow> b = a"
    using Cons.prems by (metis (no_types, lifting) attribute_names_def attribute_of_dataset list.pred_inject(2) case_prod_conv)
  with Cons av show ?case by (simp add: dataset_of_def attribute_names_def)
qed (simp add: dataset_of_def)

lemma t_keys_distinct: "distinct (map fst T_KEYS)"
  by (simp add: T_KEYS_def)

lemma t_keys_spelled:
  "list_all (\<lambda>(name, key). dataset_name (attribute_name key) = key \<and> list_all (\<lambda>c. \<not> is_upper c) (attribute_name key)) T_KEYS"
  by (simp add: T_KEYS_def is_upper_def is_lower_def low_def up_def char_of_def bit_0)

text \<open>
  Every text the map shows is the one the server rendered for it, whatever the order of the
  attributes and whatever else the element carries: a text named \<open>tX\<close> in the dataset is the
  attribute \<open>data-t-x\<close>, a layer's label is \<open>data-t-layer-<group>\<close>, no two of them are confused, and
  one that is not rendered is empty.
\<close>

theorem texts_are_the_rendered_ones:
  assumes "attribute_names attrs"
  shows "list_all (\<lambda>(name, key). map_of (cf_t (readConfig (dataset_of attrs) lang)) name
       = Some (str_or (map_of attrs (attribute_name key)) [])) T_KEYS \<and>
    list_all (\<lambda>g. map_of (cf_layers (readConfig (dataset_of attrs) lang)) g
       = Some (str_or (map_of attrs (''t-layer-'' @ g)) [])) LAYER_ORDER"
proof (intro conjI)
  show "list_all (\<lambda>(name, key). map_of (cf_t (readConfig (dataset_of attrs) lang)) name
       = Some (str_or (map_of attrs (attribute_name key)) [])) T_KEYS"
    unfolding list_all_iff
  proof safe
    fix name key assume k: "(name, key) \<in> set T_KEYS"
    have "map_of (map (\<lambda>(name, key). (name, or_empty (dataset_of attrs) key)) T_KEYS) name = Some (or_empty (dataset_of attrs) key)"
      using k t_keys_distinct by (intro map_of_is_SomeI) (force simp: comp_def case_prod_unfold)+
    moreover have "dataset_of attrs key = map_of attrs (attribute_name key)"
      using dataset_lookup [OF assms, of "attribute_name key"] k t_keys_spelled by (auto simp: list_all_iff)
    ultimately show "map_of (cf_t (readConfig (dataset_of attrs) lang)) name = Some (str_or (map_of attrs (attribute_name key)) [])"
      by (simp add: readConfig_def or_empty_def)
  qed
  show "list_all (\<lambda>g. map_of (cf_layers (readConfig (dataset_of attrs) lang)) g
       = Some (str_or (map_of attrs (''t-layer-'' @ g)) [])) LAYER_ORDER"
    unfolding list_all_iff
  proof safe
    fix g assume g: "g \<in> set LAYER_ORDER"
    then have ws: "list_all layer_word (split_on CHR ''-'' g)" "join_with ''-'' (split_on CHR ''-'' g) = g"
      using layer_order_words by (auto simp: list_all_iff)
    have key: "layerLabelKey g = dataset_name (''t-layer-'' @ g)"
      using layer_key_is_dataset_name [OF _ ws(1)] ws(2) by simp
    have "list_all (\<lambda>c. \<not> is_upper c) (''t-layer-'' @ g)"
      using g by (auto simp: LAYER_ORDER_def is_upper_def)
    then have "dataset_of attrs (layerLabelKey g) = map_of attrs (''t-layer-'' @ g)"
      using dataset_lookup [OF assms] unfolding key by blast
    then show "map_of (cf_layers (readConfig (dataset_of attrs) lang)) g = Some (str_or (map_of attrs (''t-layer-'' @ g)) [])"
      using g by (simp add: readConfig_def or_empty_def map_of_map_restrict restrict_map_def)
  qed
qed

lemma texts_are_the_rendered_ones_witness:
  "map_of (cf_layers (readConfig (dataset_of [(''slug'', ''sofia''), (''t-layer-street-names'', ''Streets'')]) ''en'')) ''street-names'' = Some ''Streets''"
proof -
  have "attribute_names [(''slug'', ''sofia''), (''t-layer-street-names'', ''Streets'')]" by code_simp
  from texts_are_the_rendered_ones [OF this, of "''en''"] have
    "map_of (cf_layers (readConfig (dataset_of [(''slug'', ''sofia''), (''t-layer-street-names'', ''Streets'')]) ''en'')) ''street-names''
       = Some (str_or (map_of [(''slug'', ''sofia''), (''t-layer-street-names'', ''Streets'')] (''t-layer-'' @ ''street-names'')) [])"
    unfolding list_all_iff by (elim conjE bspec) (simp add: LAYER_ORDER_def)
  then show ?thesis by (simp add: str_or_def)
qed

text \<open>A page that forgot its opening view hands the map no number, rather than a quiet default.\<close>

lemma missing_view_is_NaN: "d ''zoom'' = None \<Longrightarrow> cf_zoom (readConfig d lang) = NaN"
  by (simp add: readConfig_def number_of_def)

end
