(* ===== verification/Key_Drawing.thy ===== *)
theory Key_Drawing
  imports Page_Config Map_Chrome Scales
begin

text \<open>
  The colour key as it is drawn (\<open>renderLegend\<close> and the wind row of \<open>web/src/lib/legend.js\<close>), the dialog
  behind its (i) (\<open>web/src/lib/scaledialog.js\<close>), and \<open>showLegend\<close> of \<open>chrome.js\<close>, which repaints both
  from the configuration and the band tables. Elements are trees; what a repaint must not replace
  has an identity.
\<close>

section \<open>Elements\<close>

datatype node = Elem string string "(string \<times> string) list" "node list" | Txt string

text \<open>\<open>textContent = x\<close> of a missing \<open>x\<close> is the empty text, \<open>setAttribute\<close> of \<open>null\<close> is its name.\<close>

definition text_of :: "string option \<Rightarrow> node list" where
  "text_of x = (case x of None \<Rightarrow> [] | Some s \<Rightarrow> if s = [] then [] else [Txt s])"

definition attr_text :: "string option \<Rightarrow> string" where
  "attr_text x = (case x of None \<Rightarrow> ''null'' | Some s \<Rightarrow> s)"

definition swatch :: "colour \<Rightarrow> string \<Rightarrow> node" where
  "swatch c class_name = Elem ''svg'' class_name
     [(''viewBox'', ''0 0 1 1''), (''preserveAspectRatio'', ''none''), (''aria-hidden'', ''true'')]
     [Elem ''rect'' [] [(''width'', ''1''), (''height'', ''1''), (''fill'', attr_text c)] []]"

section \<open>The key (legend.js)\<close>

text \<open>
  \<open>ke_toggle\<close> is the summary, an element with an identity; \<open>ke_parts\<close> is what stands after it. The wind
  row is one element that is moved, so the parts only say where it is.
\<close>

datatype key_part = Part node | Wind_Row

record key_el =
  ke_toggle :: "nat option"
  ke_made :: nat
  ke_toggle_name :: string
  ke_toggle_title :: string
  ke_progressive :: bool
  ke_ramp :: "string option"
  ke_ramp_h :: "string option"
  ke_parts :: "key_part list"

definition empty_key :: key_el where
  "empty_key = \<lparr>ke_toggle = None, ke_made = 0, ke_toggle_name = [], ke_toggle_title = [], ke_progressive = False,
     ke_ramp = None, ke_ramp_h = None, ke_parts = []\<rparr>"

definition row_band :: "legend_row \<Rightarrow> band" where
  "row_band row = \<lparr>b_colour = l_colour row, b_upper = None, b_ceiling = None, b_label = None, b_label_bg = None\<rparr>"

definition band_item :: "legend_row \<Rightarrow> node" where
  "band_item row = Elem ''li'' ''scale__band'' [] [swatch (l_colour row) ''scale__band-swatch'',
     Elem ''span'' ''scale__band-name'' [] (text_of (l_label row)),
     Elem ''span'' ''scale__band-edge'' [(''aria-hidden'', ''true'')] (text_of (Some (l_edge row)))]"

definition bar_item :: node where
  "bar_item = Elem ''li'' ''scale__bar'' [(''aria-hidden'', ''true'')] []"

definition none_row :: "colour \<times> string \<Rightarrow> node" where
  "none_row no_data = Elem ''p'' ''scale__none'' [] [Elem ''span'' ''legend__row'' []
     [swatch (fst no_data) ''legend-swatch'', Elem ''span'' ''legend__label'' [] (text_of (Some (snd no_data)))]]"

definition info_button :: "string \<Rightarrow> node" where
  "info_button name = Elem ''button'' ''scale__info'' [(''type'', ''button''), (''aria-label'', name)] []"

definition non_empty :: "string \<Rightarrow> string option" where
  "non_empty s = (if s = [] then None else Some s)"

definition renderLegend :: "string \<Rightarrow> string \<Rightarrow> legend \<Rightarrow> string option \<Rightarrow> key_el \<Rightarrow> key_el" where
  "renderLegend title toggleLabel rows info k = (let bands = map row_band (l_bands rows); ramp = rampGradient bands ''to top'' in
     \<lparr>ke_toggle = (case ke_toggle k of None \<Rightarrow> Some (ke_made k) | Some t \<Rightarrow> Some t),
      ke_made = (case ke_toggle k of None \<Rightarrow> ke_made k + 1 | Some _ \<Rightarrow> ke_made k),
      ke_toggle_name = toggleLabel, ke_toggle_title = title,
      ke_progressive = (ramp \<noteq> []), ke_ramp = non_empty ramp,
      ke_ramp_h = (if ramp = [] then None else non_empty (rampGradient bands ''to right'')),
      ke_parts = [Part (Elem ''span'' ''scale__label'' [] (text_of (Some title))),
        Part (Elem ''ol'' ''scale__bands scale__bands--vertical'' []
          ((if ramp = [] then [] else [bar_item]) @ map band_item (rev (l_bands rows)))),
        Part (none_row (l_none rows))] @
        (case info of None \<Rightarrow> [] | Some name \<Rightarrow> [Part (info_button name)])\<rparr>)"

record wind_row =
  wr_hidden :: bool
  wr_label :: string
  wr_mode :: string

definition buildWindRow :: "string \<Rightarrow> wind_row" where
  "buildWindRow label = \<lparr>wr_hidden = True, wr_label = label, wr_mode = ''streaks''\<rparr>"

definition setWindRow :: "bool \<Rightarrow> string \<Rightarrow> wind_row \<Rightarrow> wind_row" where
  "setWindRow on mode row = row\<lparr>wr_hidden := \<not> on, wr_mode := (if wr_mode row \<noteq> mode then mode else wr_mode row)\<rparr>"

definition windGlyph :: "string \<Rightarrow> string list" where
  "windGlyph mode = (if mode = ''arrows'' then [''M3 8H20M14 3L20 8L14 13'']
     else [''M2 4Q8 1 14 4T22 4'', ''M2 8Q8 5 14 8T22 8'', ''M2 12Q8 9 14 12T22 12''])"

section \<open>The dialog (scaledialog.js)\<close>

record scale_dialog =
  sd_open :: bool
  sd_heading :: string
  sd_notes :: string
  sd_notes_hidden :: bool
  sd_rows :: "(colour \<times> string \<times> string) list"
  sd_source_hidden :: bool
  sd_href :: "string option"
  sd_disclaimer :: string
  sd_disclaimer_hidden :: bool

definition createScaleDialog :: "string option \<Rightarrow> scale_dialog" where
  "createScaleDialog disclaimer = \<lparr>sd_open = False, sd_heading = [], sd_notes = [], sd_notes_hidden = False, sd_rows = [],
     sd_source_hidden = False, sd_href = None, sd_disclaimer = str_or disclaimer [],
     sd_disclaimer_hidden = (str_or disclaimer [] = [])\<rparr>"

definition paint_dialog :: "string \<Rightarrow> scale option \<Rightarrow> scale_dialog \<Rightarrow> bool \<times> scale_dialog" where
  "paint_dialog lang scale d = (case scaleInfo scale lang of None \<Rightarrow> (False, d)
     | Some info \<Rightarrow> (True, d\<lparr>
         sd_heading := (if i_unit info = [] then i_name info else i_name info @ '', '' @ i_unit info),
         sd_notes := i_notes info, sd_notes_hidden := (i_notes info = []), sd_rows := i_rows info,
         sd_source_hidden := (i_source info = []), sd_href := non_empty (i_source info)\<rparr>))"

definition prime :: "string \<Rightarrow> scale option \<Rightarrow> scale_dialog \<Rightarrow> scale_dialog" where
  "prime lang scale d = snd (paint_dialog lang scale d)"

text \<open>\<open>showModal\<close> throws on a dialog that is open, so it is only called on one that is not.\<close>

definition show_dialog :: "string \<Rightarrow> scale option \<Rightarrow> scale_dialog \<Rightarrow> scale_dialog" where
  "show_dialog lang scale d = (case paint_dialog lang scale d of (painted, p) \<Rightarrow>
     if \<not> painted then p else if sd_open p then p else p\<lparr>sd_open := True\<rparr>)"

definition close_dialog :: "scale_dialog \<Rightarrow> scale_dialog" where
  "close_dialog d = d\<lparr>sd_open := False\<rparr>"

section \<open>The repaint (chrome.js)\<close>

definition cfg_text :: "map_config \<Rightarrow> string \<Rightarrow> string" where
  "cfg_text cfg name = (case map_of (cf_t cfg) name of Some s \<Rightarrow> s | None \<Rightarrow> [])"

definition is_info :: "key_part \<Rightarrow> bool" where
  "is_info p = (case p of Part (Elem _ cls _ _) \<Rightarrow> cls = ''scale__info'' | _ \<Rightarrow> False)"

text \<open>\<open>insertBefore(windRow, ...)\<close> appends when there is no (i).\<close>

definition insert_wind :: "key_part list \<Rightarrow> key_part list" where
  "insert_wind ps = takeWhile (\<lambda>p. \<not> is_info p) ps @ Wind_Row # dropWhile (\<lambda>p. \<not> is_info p) ps"

record key_view =
  kv_key :: key_el
  kv_dialog :: scale_dialog
  kv_info :: "scale option"
  kv_tier :: "string \<times> bool"

text \<open>
  \<open>kv_info\<close> is the scale the (i) opens. \<open>tier = None\<close> is \<open>null\<close>, the call at mount, which keeps the
  caption the server wrote.
\<close>

definition showLegend :: "map_config \<Rightarrow> band list option \<Rightarrow> string option \<Rightarrow> string \<Rightarrow> scale option \<Rightarrow> key_view \<Rightarrow> key_view" where
  "showLegend cfg bands tier metric scale v = v\<lparr>
     kv_dialog := (if scale = None then kv_dialog v else prime (cf_lang cfg) scale (kv_dialog v)),
     kv_key := (let k = renderLegend
         (legendTitle (cf_metricLabels cfg metric) (cf_metricUnits cfg metric) (Some (cfg_text cfg ''legend'')))
         (cfg_text cfg ''legendToggle'')
         (legendRows bands (cf_noDataColour cfg) (cfg_text cfg ''legendNoData'') (cf_lang cfg))
         (map_option (\<lambda>_. cfg_text cfg ''legendAbout'') scale) (kv_key v)
       in k\<lparr>ke_parts := insert_wind (ke_parts k)\<rparr>),
     kv_info := scale,
     kv_tier := show_tier (map_of (cf_tier cfg)) tier (kv_tier v)\<rparr>"

definition press_info :: "map_config \<Rightarrow> key_view \<Rightarrow> key_view" where
  "press_info cfg v = (case kv_info v of None \<Rightarrow> v
     | Some s \<Rightarrow> v\<lparr>kv_dialog := show_dialog (cf_lang cfg) (Some s) (kv_dialog v)\<rparr>)"

text \<open>Drawn once at mount, before any scale has loaded.\<close>

definition mount_key :: "map_config \<Rightarrow> string option \<Rightarrow> string option \<Rightarrow> string \<Rightarrow> key_view" where
  "mount_key cfg disclaimer ssr_tier metric = showLegend cfg (Some []) None metric None
     \<lparr>kv_key = empty_key, kv_dialog = createScaleDialog disclaimer, kv_info = None, kv_tier = mount_tier ssr_tier\<rparr>"

datatype key_act = Repaint "band list option" "string option" string "scale option" | Press_Info | Close_Dialog

fun key_step :: "map_config \<Rightarrow> key_act \<Rightarrow> key_view \<Rightarrow> key_view" where
  "key_step cfg (Repaint bands tier metric scale) v = showLegend cfg bands tier metric scale v"
| "key_step cfg Press_Info v = press_info cfg v"
| "key_step cfg Close_Dialog v = v\<lparr>kv_dialog := close_dialog (kv_dialog v)\<rparr>"

section \<open>Lemmas\<close>

lemma rampStops_colours:
  assumes "map b_colour xs = map b_colour ys"
  shows "rampStops xs = rampStops ys"
proof -
  have l: "length xs = length ys" using assms by (metis length_map)
  have c: "i < length ys \<Longrightarrow> b_colour (xs ! i) = b_colour (ys ! i)" for i
    using assms l by (metis nth_map)
  show ?thesis
  proof (cases "2 \<le> length ys")
    case True
    have m: "map (\<lambda>i. (b_colour (xs ! i), (real i + 1 / 2) * step)) [0..<length ys] =
        map (\<lambda>i. (b_colour (ys ! i), (real i + 1 / 2) * step)) [0..<length ys]" for step
      using c by (intro map_cong) simp_all
    have e: "b_colour (hd xs) = b_colour (hd ys)" "b_colour (last xs) = b_colour (last ys)"
      using assms True l by (metis hd_map list.size(3) not_numeral_le_zero, metis last_map list.size(3) not_numeral_le_zero)
    show ?thesis using True l by (simp only: rampStops_many e m)
  next
    case False
    then show ?thesis using l assms by (cases xs; cases ys; cases "tl xs"; cases "tl ys") (auto simp: rampStops_def)
  qed
qed

lemma gradient_of_rows:
  "rampGradient (map row_band (l_bands (legendRows bands c txt lang))) dir = rampGradient (case bands of Some bs \<Rightarrow> bs | None \<Rightarrow> []) dir"
proof -
  have "map b_colour (map row_band (l_bands (legendRows bands c txt lang))) = map b_colour (case bands of Some bs \<Rightarrow> bs | None \<Rightarrow> [])"
    by (simp add: legendRows_def row_band_def)
  from rampStops_colours [OF this] show ?thesis by (simp add: rampGradient_def)
qed

text \<open>What a reader sees of the bands, from the bottom of the bar to its top: fill, name and edge.\<close>

fun said :: "node list \<Rightarrow> string" where
  "said (Txt s # ns) = s @ said ns"
| "said (_ # ns) = said ns"
| "said [] = []"

fun read_item :: "node \<Rightarrow> (string \<times> string \<times> string) list" where
  "read_item (Elem tag cls _ [Elem _ _ _ [Elem _ _ [_, _, (_, fill)] _], Elem _ _ _ name, Elem _ _ _ edge]) =
     (if cls = ''scale__band'' then [(fill, said name, said edge)] else [])"
| "read_item _ = []"

fun read_bands :: "key_part list \<Rightarrow> (string \<times> string \<times> string) list" where
  "read_bands (Part (Elem tag _ _ kids) # ps) = (if tag = ''ol'' then rev (concat (map read_item kids)) else read_bands ps)"
| "read_bands (_ # ps) = read_bands ps"
| "read_bands [] = []"

lemma said_text_of [simp]: "said (text_of x) = (case x of None \<Rightarrow> [] | Some s \<Rightarrow> s)"
  by (auto simp: text_of_def split: option.splits)

lemma read_band_item [simp]: "read_item (band_item r) = [(attr_text (l_colour r), case l_label r of None \<Rightarrow> [] | Some s \<Rightarrow> s, l_edge r)]"
  by (simp add: band_item_def swatch_def)

lemma read_bar_item [simp]: "read_item bar_item = []"
  by (simp add: bar_item_def)

lemma read_items [simp]: "concat (map read_item (map band_item rs)) = map (\<lambda>r. (attr_text (l_colour r), case l_label r of None \<Rightarrow> [] | Some s \<Rightarrow> s, l_edge r)) rs"
  by (induction rs) simp_all

lemma parts_drawn:
  "insert_wind (ke_parts (renderLegend title name rows info k)) =
     [Part (Elem ''span'' ''scale__label'' [] (text_of (Some title))),
      Part (Elem ''ol'' ''scale__bands scale__bands--vertical'' []
        ((if rampGradient (map row_band (l_bands rows)) ''to top'' = [] then [] else [bar_item]) @ map band_item (rev (l_bands rows)))),
      Part (none_row (l_none rows)), Wind_Row] @ (case info of None \<Rightarrow> [] | Some n \<Rightarrow> [Part (info_button n)])"
  by (simp add: renderLegend_def insert_wind_def is_info_def none_row_def info_button_def Let_def split: option.splits)

lemma showLegend_simps [simp]:
  "kv_info (showLegend cfg bands tier metric scale v) = scale"
  "kv_dialog (showLegend cfg bands tier metric scale v) = (if scale = None then kv_dialog v else prime (cf_lang cfg) scale (kv_dialog v))"
  by (simp_all add: showLegend_def)

section \<open>Properties\<close>

text \<open>After any repaint the key says what the map paints: a band per row, lowest at the bottom, each in
  its own colour with its name and the number at its top; the bar is the ramp of the very table the
  cells are coloured by; grey has its row outside the bar; the wind row stands once, before the (i),
  which is there exactly when there is a scale to explain; and the summary a reader may be about to
  press is still the same element.
\<close>

theorem key_shows_the_table:
  fixes cfg :: map_config and v :: key_view and bands :: "band list option" and tier :: "string option"
    and metric :: string and scale :: "scale option"
  defines "k \<equiv> kv_key (showLegend cfg bands tier metric scale v)"
  shows "read_bands (ke_parts k) = map (\<lambda>b. (attr_text (b_colour b),
        (case band_label (cf_lang cfg) b of None \<Rightarrow> [] | Some s \<Rightarrow> s),
        (case b_upper b of Some u \<Rightarrow> num_str u | None \<Rightarrow> (case b_ceiling b of Some c \<Rightarrow> num_str c | None \<Rightarrow> []))))
      (case bands of Some bs \<Rightarrow> bs | None \<Rightarrow> []) \<and>
    ke_ramp k = non_empty (rampGradient (case bands of Some bs \<Rightarrow> bs | None \<Rightarrow> []) ''to top'') \<and>
    (\<exists>before. ke_parts k = before @ Wind_Row # (if scale = None then [] else [Part (info_button (cfg_text cfg ''legendAbout''))]) \<and>
       Wind_Row \<notin> set before \<and>
       Part (none_row (cf_noDataColour cfg, cfg_text cfg ''legendNoData'')) \<in> set before) \<and>
    (\<forall>t. ke_toggle (kv_key v) = Some t \<longrightarrow> ke_toggle k = Some t)"
proof (intro conjI allI impI)
  let ?rows = "legendRows bands (cf_noDataColour cfg) (cfg_text cfg ''legendNoData'') (cf_lang cfg)"
  let ?title = "legendTitle (cf_metricLabels cfg metric) (cf_metricUnits cfg metric) (Some (cfg_text cfg ''legend''))"
  have parts: "ke_parts k = [Part (Elem ''span'' ''scale__label'' [] (text_of (Some ?title))),
      Part (Elem ''ol'' ''scale__bands scale__bands--vertical'' []
        ((if rampGradient (map row_band (l_bands ?rows)) ''to top'' = [] then [] else [bar_item]) @ map band_item (rev (l_bands ?rows)))),
      Part (none_row (l_none ?rows)), Wind_Row] @ (if scale = None then [] else [Part (info_button (cfg_text cfg ''legendAbout''))])"
    by (cases scale) (simp_all add: k_def showLegend_def Let_def parts_drawn)
  show "read_bands (ke_parts k) = map (\<lambda>b. (attr_text (b_colour b),
        (case band_label (cf_lang cfg) b of None \<Rightarrow> [] | Some s \<Rightarrow> s),
        (case b_upper b of Some u \<Rightarrow> num_str u | None \<Rightarrow> (case b_ceiling b of Some c \<Rightarrow> num_str c | None \<Rightarrow> []))))
      (case bands of Some bs \<Rightarrow> bs | None \<Rightarrow> [])"
    unfolding parts by (simp add: rev_map del: map_map) (simp add: legendRows_def comp_def)
  show "ke_ramp k = non_empty (rampGradient (case bands of Some bs \<Rightarrow> bs | None \<Rightarrow> []) ''to top'')"
    by (simp add: k_def showLegend_def Let_def renderLegend_def gradient_of_rows)
  show "\<exists>before. ke_parts k = before @ Wind_Row # (if scale = None then [] else [Part (info_button (cfg_text cfg ''legendAbout''))]) \<and>
       Wind_Row \<notin> set before \<and> Part (none_row (cf_noDataColour cfg, cfg_text cfg ''legendNoData'')) \<in> set before"
    unfolding parts by (intro exI [where x = "take 3 (ke_parts k)"]) (simp add: parts legendRows_def)
  show "ke_toggle k = Some t" if "ke_toggle (kv_key v) = Some t" for t
    using that by (simp add: k_def showLegend_def Let_def renderLegend_def)
qed

definition dialog_says :: "string \<Rightarrow> scale \<Rightarrow> scale_dialog \<Rightarrow> bool" where
  "dialog_says lang s d \<longleftrightarrow> paint_dialog lang (Some s) d = (True, d)"

lemma scaleInfo_Some: "\<exists>info. scaleInfo (Some s) lang = Some info"
  by (simp add: scaleInfo_def)

lemma dialog_painted: "dialog_says lang s (prime lang (Some s) d)"
proof -
  obtain info where "scaleInfo (Some s) lang = Some info" using scaleInfo_Some by blast
  then show ?thesis by (simp add: dialog_says_def prime_def paint_dialog_def)
qed

lemma dialog_open_flag [simp]: "dialog_says lang s (d\<lparr>sd_open := b\<rparr>) = dialog_says lang s d"
proof -
  obtain info where "scaleInfo (Some s) lang = Some info" using scaleInfo_Some by blast
  then show ?thesis by (cases d) (simp add: dialog_says_def paint_dialog_def)
qed

definition dialog_ok :: "string \<Rightarrow> key_view \<Rightarrow> bool" where
  "dialog_ok lang v \<longleftrightarrow> (\<forall>s. kv_info v = Some s \<longrightarrow> dialog_says lang s (kv_dialog v)) \<and>
     (sd_open (kv_dialog v) \<longrightarrow> (\<exists>s. dialog_says lang s (kv_dialog v)))"

lemma show_dialog_eq:
  "dialog_says lang s d \<Longrightarrow> show_dialog lang (Some s) d = d\<lparr>sd_open := True\<rparr>"
  by (cases d) (simp add: dialog_says_def show_dialog_def)

lemma dialog_ok_step: "dialog_ok (cf_lang cfg) v \<Longrightarrow> dialog_ok (cf_lang cfg) (key_step cfg a v)"
  by (cases a) (auto intro: dialog_painted simp: dialog_ok_def press_info_def show_dialog_eq close_dialog_def split: option.splits)

lemma dialog_says_parts:
  assumes "dialog_says lang s d"
  shows "\<exists>info. scaleInfo (Some s) lang = Some info \<and> sd_rows d = i_rows info \<and> sd_notes d = i_notes info \<and>
    sd_heading d = (if i_unit info = [] then i_name info else i_name info @ '', '' @ i_unit info) \<and>
    sd_href d = non_empty (i_source info) \<and> sd_source_hidden d = (i_source info = [])"
proof -
  obtain info where i: "scaleInfo (Some s) lang = Some info" using scaleInfo_Some by blast
  with assms have "d\<lparr>sd_heading := (if i_unit info = [] then i_name info else i_name info @ '', '' @ i_unit info),
         sd_notes := i_notes info, sd_notes_hidden := (i_notes info = []), sd_rows := i_rows info,
         sd_source_hidden := (i_source info = []), sd_href := non_empty (i_source info)\<rparr> = d" (is "?p = d")
    by (simp add: dialog_says_def paint_dialog_def)
  moreover have "sd_rows ?p = i_rows info" "sd_notes ?p = i_notes info" "sd_href ?p = non_empty (i_source info)"
    "sd_heading ?p = (if i_unit info = [] then i_name info else i_name info @ '', '' @ i_unit info)"
    "sd_source_hidden ?p = (i_source info = [])" by simp_all
  ultimately show ?thesis using i by metis
qed

lemma dialog_ok_run: "dialog_ok (cf_lang cfg) v \<Longrightarrow> dialog_ok (cf_lang cfg) (fold (key_step cfg) acts v)"
  by (induction acts arbitrary: v) (simp_all add: dialog_ok_step)

text \<open>
  Whatever is repainted, pressed and closed, and in whatever order: while the key has an (i), the
  dialog behind it explains the scale of that very (i), rows, notes and link; it is never open
  without an explanation; and pressing the (i) opens it, also when it is open already, which a
  bare \<open>showModal\<close> would answer with an exception.
\<close>

theorem dialog_explains_the_key:
  fixes acts :: "key_act list" and cfg :: map_config and disclaimer ssr_tier :: "string option" and metric :: string
  defines "v \<equiv> fold (key_step cfg) acts (mount_key cfg disclaimer ssr_tier metric)"
  shows "(\<forall>s. kv_info v = Some s \<longrightarrow> dialog_says (cf_lang cfg) s (kv_dialog v) \<and>
        key_step cfg Press_Info v = v\<lparr>kv_dialog := (kv_dialog v)\<lparr>sd_open := True\<rparr>\<rparr>) \<and>
    (sd_open (kv_dialog v) \<longrightarrow> (\<exists>s info. dialog_says (cf_lang cfg) s (kv_dialog v) \<and> scaleInfo (Some s) (cf_lang cfg) = Some info \<and>
        sd_rows (kv_dialog v) = i_rows info \<and> sd_source_hidden (kv_dialog v) = (sd_href (kv_dialog v) = None)))"
proof -
  have "dialog_ok (cf_lang cfg) (mount_key cfg disclaimer ssr_tier metric)"
    by (simp add: dialog_ok_def mount_key_def createScaleDialog_def)
  then have ok: "dialog_ok (cf_lang cfg) v" unfolding v_def by (rule dialog_ok_run)
  have "\<exists>info. scaleInfo (Some s) (cf_lang cfg) = Some info \<and> sd_rows (kv_dialog v) = i_rows info \<and>
      sd_source_hidden (kv_dialog v) = (sd_href (kv_dialog v) = None)" if "dialog_says (cf_lang cfg) s (kv_dialog v)" for s
    using dialog_says_parts [OF that] by (auto simp: non_empty_def)
  then show ?thesis
    using ok by (fastforce simp: dialog_ok_def press_info_def show_dialog_eq)
qed

definition pm_scale :: scale where
  "pm_scale = \<lparr>s_metric = ''P2'', s_unit = None, s_bands = Some [], s_ceiling = None, s_name = Some ''PM'', s_notes = None,
     s_notes_bg = None, s_source = None\<rparr>"

lemma dialog_explains_the_key_witness:
  "sd_heading (kv_dialog (fold (key_step (readConfig (\<lambda>_. None) ''en'')) [Repaint None None ''P2'' (Some pm_scale), Press_Info]
     (mount_key (readConfig (\<lambda>_. None) ''en'') None None ''P2''))) = ''PM''"
proof -
  let ?cfg = "readConfig (\<lambda>_. None) ''en''"
  let ?v = "fold (key_step ?cfg) [Repaint None None ''P2'' (Some pm_scale), Press_Info] (mount_key ?cfg None None ''P2'')"
  have "kv_info ?v = Some pm_scale" by (simp add: press_info_def)
  then have "dialog_says (cf_lang ?cfg) pm_scale (kv_dialog ?v)"
    using dialog_explains_the_key [of "?cfg" "[Repaint None None ''P2'' (Some pm_scale), Press_Info]" None None "''P2''"] by blast
  from dialog_says_parts [OF this] show ?thesis
    by (auto simp: scaleInfo_def pm_scale_def)
qed

lemma key_shows_the_table_witness:
  "read_bands (ke_parts (kv_key (showLegend (readConfig (\<lambda>_. None) ''en'') (Some [mk_band ''#0f0'' None None]) None ''P2'' None v)))
     = [(''#0f0'', [], [])]" for v
  using key_shows_the_table [of "readConfig (\<lambda>_. None) ''en''" "Some [mk_band ''#0f0'' None None]" None "''P2''" None v]
  by (simp add: mk_band_def attr_text_def band_label_def readConfig_def)

text \<open>The glyph follows the mode the wind is drawn in, and the row its overlay.\<close>

lemma wind_row_follows: "setWindRow on mode row = \<lparr>wr_hidden = \<not> on, wr_label = wr_label row, wr_mode = mode\<rparr>"
  by (simp add: setWindRow_def)

end
