(* ===== verification/Icons.thy ===== *)
theory Icons
  imports Wind_Field "HOL-Library.Word"
begin

text \<open>
  The two marker images the map draws itself: the diamond of an official station
  (\<open>web/src/lib/markericon.js\<close>), a signed distance field of one byte a pixel, and the wind arrow
  (\<open>arrowImage\<close> and its layout in \<open>web/src/islands/wind.js\<close>), mixed from two colours. Image data is a
  list of bytes, four a pixel, as the \<open>Uint8Array\<close> the renderer is given.
\<close>

type_synonym byte = "8 word"

lemma byte_val: "0 \<le> i \<Longrightarrow> i \<le> 255 \<Longrightarrow> uint (word_of_int i :: byte) = i"
  by (simp add: uint_word_of_int take_bit_int_eq_self)

text \<open>Row by row, four bytes a pixel.\<close>

definition image_data :: "nat \<Rightarrow> (nat \<Rightarrow> nat \<Rightarrow> byte list) \<Rightarrow> byte list" where
  "image_data sz pixel = concat (map (\<lambda>y. concat (map (\<lambda>x. pixel x y) [0..<sz])) [0..<sz])"

lemma concat_same_length:
  "(\<And>x. x \<in> set xs \<Longrightarrow> length (f x) = n) \<Longrightarrow> length (concat (map f xs)) = n * length xs"
  by (induction xs) auto

lemma nth_concat_map:
  assumes "\<And>i. i < m \<Longrightarrow> length (f i) = n" "i < m" "j < n"
  shows "concat (map f [0..<m]) ! (n * i + j) = f i ! j"
  using assms
proof (induction m)
  case (Suc m)
  have len: "length (concat (map f [0..<m])) = n * m"
    using concat_same_length [of "[0..<m]" f n] Suc.prems(1) by simp
  show ?case
  proof (cases "i < m")
    case True
    have "n * i + j < n * (i + 1)" using Suc.prems(3) by simp
    also have "\<dots> \<le> n * m" using True by (intro mult_le_mono2) simp
    finally have "n * i + j < n * m" .
    then show ?thesis using Suc True len by (simp add: nth_append)
  next
    case False
    then show ?thesis using Suc.prems len by (simp add: nth_append less_Suc_eq)
  qed
qed simp

lemma image_data_nth:
  assumes "\<And>x y. length (pixel x y) = 4" "x < sz" "y < sz" "c < 4"
  shows "image_data sz pixel ! (4 * (y * sz + x) + c) = pixel x y ! c"
proof -
  have row: "length (concat (map (\<lambda>x. pixel x y) [0..<sz])) = 4 * sz" for y
    using concat_same_length [of "[0..<sz]" "\<lambda>x. pixel x y" 4] assms(1) by simp
  have "4 * x + c < 4 * sz" using assms by linarith
  then have "concat (map (\<lambda>y. concat (map (\<lambda>x. pixel x y) [0..<sz])) [0..<sz]) ! (4 * sz * y + (4 * x + c))
      = concat (map (\<lambda>x. pixel x y) [0..<sz]) ! (4 * x + c)"
    by (intro nth_concat_map row assms(3))
  also have "\<dots> = pixel x y ! c"
    by (intro nth_concat_map assms)
  finally show ?thesis by (simp add: image_data_def algebra_simps)
qed

lemma length_image_data: "(\<And>x y. length (pixel x y) = 4) \<Longrightarrow> length (image_data sz pixel) = 4 * (sz * sz)"
  unfolding image_data_def by (subst concat_same_length [where n = "4 * sz"]) (auto simp: concat_same_length [where n = 4])

section \<open>The diamond (markericon.js)\<close>

definition DIAMOND_PX :: nat where
  "DIAMOND_PX = 32"

definition SPREAD :: real where
  "SPREAD = 8"

definition DIAMOND_RADIUS_PX :: real where
  "DIAMOND_RADIUS_PX = 12"

definition diamond_distance :: "real \<Rightarrow> real \<Rightarrow> real \<Rightarrow> real" where
  "diamond_distance x y radius = (\<bar>x\<bar> + \<bar>y\<bar> - radius) / sqrt 2"

definition diamond_alpha :: "nat \<Rightarrow> nat \<Rightarrow> nat \<Rightarrow> int" where
  "diamond_alpha sz x y = (let scale = real sz / real DIAMOND_PX; half = real sz / 2;
       d = diamond_distance (real x + 1 / 2 - half) (real y + 1 / 2 - half) (DIAMOND_RADIUS_PX * scale);
       a = 255 - 255 * (d / (SPREAD * scale) + 1 / 4)
     in max 0 (min 255 (math_round a)))"

definition diamondImage :: "nat \<Rightarrow> byte list" where
  "diamondImage sz = image_data sz (\<lambda>x y. [0, 0, 0, word_of_int (diamond_alpha sz x y)])"

text \<open>The glyph in the plane, in the units of the nominal image, its centre at the origin.\<close>

definition in_diamond :: "nat \<Rightarrow> nat \<Rightarrow> nat \<Rightarrow> real \<Rightarrow> bool" where
  "in_diamond sz x y margin \<longleftrightarrow> (let px = real DIAMOND_PX / real sz in
     \<bar>(real x + 1 / 2 - real sz / 2) * px\<bar> + \<bar>(real y + 1 / 2 - real sz / 2) * px\<bar> + margin \<le> DIAMOND_RADIUS_PX)"

lemma alpha_range: "0 \<le> diamond_alpha sz x y" "diamond_alpha sz x y \<le> 255"
  by (simp_all add: diamond_alpha_def Let_def)

lemma alpha_of_excess:
  fixes x y sz :: nat
  assumes "0 < sz"
  defines "e \<equiv> \<bar>(real x + 1 / 2 - real sz / 2) * (32 / real sz)\<bar> + \<bar>(real y + 1 / 2 - real sz / 2) * (32 / real sz)\<bar> - 12"
  shows "diamond_alpha sz x y = max 0 (min 255 (math_round (765 / 4 - 255 * (e / (8 * sqrt 2)))))"
proof -
  have p: "0 < 32 / real sz" using assms(1) by simp
  define q where "q = diamond_distance (real x + 1 / 2 - real sz / 2) (real y + 1 / 2 - real sz / 2) (12 * (real sz / 32)) / (8 * (real sz / 32))"
  have "diamond_alpha sz x y = max 0 (min 255 (math_round (255 - 255 * (q + 1 / 4))))"
    by (simp only: diamond_alpha_def Let_def DIAMOND_PX_def DIAMOND_RADIUS_PX_def SPREAD_def q_def of_nat_numeral)
  moreover have "q = e / (8 * sqrt 2)"
    unfolding q_def diamond_distance_def e_def abs_mult using assms(1) by (simp add: field_simps)
  moreover have "255 - 255 * (q + 1 / 4) = 765 / 4 - 255 * q" by simp
  ultimately show ?thesis by (simp only:)
qed

text \<open>The image is the diamond and nothing but: every pixel's alpha is a byte, one cut at 192 lies
  within the diamond, and one that lies within it by a twentieth of a nominal pixel is cut; the
  colour bytes are left to the renderer; and the glyph is the same from all four sides.
\<close>

theorem diamond_is_cut_at_192:
  fixes x y sz :: nat
  assumes "x < sz" "y < sz"
  defines "byte_at \<equiv> \<lambda>x y c. uint (diamondImage sz ! (4 * (y * sz + x) + c))"
  shows "length (diamondImage sz) = 4 * (sz * sz) \<and>
    byte_at x y 0 = 0 \<and> byte_at x y 1 = 0 \<and> byte_at x y 2 = 0 \<and> byte_at x y 3 = diamond_alpha sz x y \<and>
    (192 \<le> byte_at x y 3 \<longrightarrow> in_diamond sz x y 0) \<and>
    (in_diamond sz x y (1 / 20) \<longrightarrow> 192 \<le> byte_at x y 3) \<and>
    byte_at (sz - 1 - x) y 3 = byte_at x y 3 \<and> byte_at y x 3 = byte_at x y 3"
proof -
  have at: "byte_at u v c = uint ([0, 0, 0, word_of_int (diamond_alpha sz u v) :: byte] ! c)" if "u < sz" "v < sz" "c < 4" for u v c
    using that image_data_nth [of "\<lambda>x y. [0, 0, 0, word_of_int (diamond_alpha sz x y)]" u sz v c]
    by (simp add: byte_at_def diamondImage_def)
  have alpha: "byte_at u v 3 = diamond_alpha sz u v" if "u < sz" "v < sz" for u v
    using at [of u v 3] that by (simp add: byte_val alpha_range)
  have sz: "0 < sz" using assms(1) by simp
  define e where "e = \<bar>(real x + 1 / 2 - real sz / 2) * (32 / real sz)\<bar> + \<bar>(real y + 1 / 2 - real sz / 2) * (32 / real sz)\<bar> - 12"
  have a: "diamond_alpha sz x y = max 0 (min 255 (math_round (765 / 4 - 255 * (e / (8 * sqrt 2)))))"
    unfolding e_def by (rule alpha_of_excess [OF sz])
  have in_d: "in_diamond sz x y m \<longleftrightarrow> e + m \<le> 0" for m
    by (auto simp: in_diamond_def e_def DIAMOND_PX_def DIAMOND_RADIUS_PX_def Let_def)
  have s2: "1 < sqrt (2 :: real)" "sqrt (2 :: real) < 3 / 2"
    using real_sqrt_less_iff [of 1 2] real_less_lsqrt [of "3 / 2" 2] by (simp_all add: power2_eq_square)
  have cut: "192 \<le> diamond_alpha sz x y \<longleftrightarrow> 192 \<le> 765 / 4 - 255 * (e / (8 * sqrt 2)) + 1 / 2"
  proof -
    have "192 \<le> math_round v \<longleftrightarrow> 192 \<le> v + 1 / 2" for v by (simp add: math_round_def le_floor_iff)
    moreover have "192 \<le> max 0 (min 255 i) \<longleftrightarrow> 192 \<le> i" for i :: int by auto
    ultimately show ?thesis unfolding a by simp
  qed
  have "192 \<le> diamond_alpha sz x y \<Longrightarrow> e \<le> 0"
  proof -
    assume "192 \<le> diamond_alpha sz x y"
    then have "255 * (e / (8 * sqrt 2)) \<le> - 1 / 4" unfolding cut by simp
    then have "e / (8 * sqrt 2) < 0" by simp
    then show "e \<le> 0" using s2 by (simp add: divide_less_0_iff)
  qed
  moreover have "192 \<le> diamond_alpha sz x y" if "e + 1 / 20 \<le> 0"
  proof -
    have "e \<le> - 1 / 20" using that by simp
    also have "\<dots> \<le> - (8 * sqrt 2) / 1020 " using s2 by simp
    finally have "e / (8 * sqrt 2) \<le> - 1 / 1020" using s2 by (simp add: field_simps)
    then show ?thesis unfolding cut by simp
  qed
  moreover have "diamond_alpha sz (sz - 1 - x) y = diamond_alpha sz x y"
  proof -
    have "real (sz - 1 - x) + 1 / 2 - real sz / 2 = - (real x + 1 / 2 - real sz / 2)"
      using assms(1) by (simp add: of_nat_diff)
    then show ?thesis unfolding diamond_alpha_def diamond_distance_def Let_def by (simp only: abs_minus_cancel)
  qed
  moreover have "diamond_alpha sz y x = diamond_alpha sz x y"
    by (simp add: diamond_alpha_def diamond_distance_def add.commute)
  moreover have "length (diamondImage sz) = 4 * (sz * sz)"
    unfolding diamondImage_def by (rule length_image_data) simp
  moreover have "sz - 1 - x < sz" using sz by simp
  ultimately show ?thesis
    using assms alpha at [of x y 0] at [of x y 1] at [of x y 2] by (simp add: in_d)
qed

lemma diamond_is_cut_at_192_witness:
  "uint (diamondImage 2 ! 3) = diamond_alpha 2 0 0 \<and> length (diamondImage 2) = 16"
  using diamond_is_cut_at_192 [of 0 2 0] by simp

section \<open>The arrow (islands/wind.js)\<close>

definition ARROW_PX :: nat where
  "ARROW_PX = 48"

type_synonym point = "real \<times> real"

definition SHAFT :: "point \<times> point" where
  "SHAFT = ((15 / 100, 1 / 2), (8 / 10, 1 / 2))"

definition HEAD :: "(point \<times> point) list" where
  "HEAD = [((55 / 100, 28 / 100), (85 / 100, 1 / 2)), ((85 / 100, 1 / 2), (55 / 100, 72 / 100))]"

definition STROKE_HALF :: real where
  "STROKE_HALF = 55 / 1000"

definition HALO_HALF :: real where
  "HALO_HALF = 105 / 1000"

definition coverage :: "real \<Rightarrow> real \<Rightarrow> real \<Rightarrow> real" where
  "coverage d half aa = max 0 (min 1 ((half - d) / aa + 1 / 2))"

definition hypot :: "real \<Rightarrow> real \<Rightarrow> real" where
  "hypot x y = sqrt (x\<^sup>2 + y\<^sup>2)"

definition distToSegment :: "real \<Rightarrow> real \<Rightarrow> point \<Rightarrow> point \<Rightarrow> real" where
  "distToSegment px py a b = (case (a, b) of ((ax, ay), (bx, by')) \<Rightarrow>
     let dx = bx - ax; dy = by' - ay;
         t = max 0 (min 1 (((px - ax) * dx + (py - ay) * dy) / (dx * dx + dy * dy)))
     in hypot (px - (ax + t * dx)) (py - (ay + t * dy)))"

text \<open>\<open>parseInt(s, 16)\<close> of a piece of the colour; \<open>None\<close> is NaN.\<close>

definition parse_int16 :: "string \<Rightarrow> int option" where
  "parse_int16 str = (let s = dropWhile is_ws str;
       (sign, u) = (case s of [] \<Rightarrow> (1, []) | c # t \<Rightarrow> if c = CHR ''-'' then (-1, t) else if c = CHR ''+'' then (1, t) else (1, s));
       v = (case u of z # x # t \<Rightarrow> if z = CHR ''0'' \<and> (x = CHR ''x'' \<or> x = CHR ''X'') then t else u | _ \<Rightarrow> u);
       ds = takeWhile (\<lambda>c. hex_val c \<noteq> None) v
     in if ds = [] then None else map_option (\<lambda>n. sign * int n) (radix_val 16 0 ds))"

definition rgb_channels :: "string \<Rightarrow> int option list" where
  "rgb_channels hex = (let h = (case find (\<lambda>i. hex ! i = CHR ''#'') [0..<length hex] of None \<Rightarrow> hex | Some i \<Rightarrow> take i hex @ drop (i + 1) hex);
       full = (if length h = 3 then concat (map (\<lambda>c. [c, c]) h) else h)
     in map (\<lambda>i. parse_int16 (take 2 (drop i full))) [0, 2, 4])"

text \<open>A NaN stored in the array of bytes is 0, any other number is taken modulo 256.\<close>

definition mixed_channel :: "int option \<Rightarrow> int option \<Rightarrow> real \<Rightarrow> real \<Rightarrow> byte" where
  "mixed_channel ink halo inkCov haloCov = (case (ink, halo) of
      (Some i, Some h) \<Rightarrow> word_of_int (math_round ((of_int i * inkCov + of_int h * haloCov) / (inkCov + haloCov)))
    | _ \<Rightarrow> 0)"

definition arrow_pixel :: "string \<Rightarrow> string \<Rightarrow> nat \<Rightarrow> nat \<Rightarrow> nat \<Rightarrow> byte list" where
  "arrow_pixel labelColour strokeColour sz x y = (let aa = 1 / real sz; px = (real x + 1 / 2) / real sz; py = (real y + 1 / 2) / real sz;
       d = Min (set (map (\<lambda>(a, b). distToSegment px py a b) (SHAFT # HEAD)));
       inkCov = coverage d STROKE_HALF aa; haloCov = coverage d HALO_HALF aa * (1 - inkCov); alpha = inkCov + haloCov
     in if alpha \<le> 0 then [0, 0, 0, 0]
        else map2 (\<lambda>i h. mixed_channel i h inkCov haloCov) (rgb_channels labelColour) (rgb_channels strokeColour)
          @ [word_of_int (math_round (alpha * 255))])"

definition arrowImage :: "string \<Rightarrow> string \<Rightarrow> nat \<Rightarrow> byte list" where
  "arrowImage labelColour strokeColour sz = image_data sz (arrow_pixel labelColour strokeColour sz)"

text \<open>\<open>icon-rotate\<close> and \<open>icon-size\<close> of a feature, as the layout's expressions compute them.\<close>

definition icon_rotate :: "real \<Rightarrow> real" where
  "icon_rotate bearing = bearing - 90"

definition icon_size :: "real \<Rightarrow> real" where
  "icon_size speed = (if speed \<le> 0 then 1 / 2 else if 15 \<le> speed then 10833 / 10000
     else 1 / 2 + speed / 15 * (10833 / 10000 - 1 / 2))"

lemma coverage_range: "0 \<le> coverage d half aa" "coverage d half aa \<le> 1"
  by (simp_all add: coverage_def)

lemma coverage_mono: "half \<le> half' \<Longrightarrow> 0 < aa \<Longrightarrow> coverage d half aa \<le> coverage d half' aa"
proof -
  assume "half \<le> half'" "0 < aa"
  then have "(half - d) / aa \<le> (half' - d) / aa" by (simp add: divide_right_mono)
  then show ?thesis unfolding coverage_def by linarith
qed

text \<open>\<open>distToSegment\<close> is the distance: some point of the segment is as near, and none is nearer.\<close>

lemma distToSegment_least:
  fixes ax ay bx by' px py :: real
  assumes "(ax, ay) \<noteq> (bx, by')"
  shows "\<exists>t\<in>{0..1}. distToSegment px py (ax, ay) (bx, by') = hypot (px - (ax + t * (bx - ax))) (py - (ay + t * (by' - ay)))"
    and "u \<in> {0..1} \<Longrightarrow> distToSegment px py (ax, ay) (bx, by') \<le> hypot (px - (ax + u * (bx - ax))) (py - (ay + u * (by' - ay)))"
proof -
  define dx dy where d: "dx = bx - ax" "dy = by' - ay"
  define m where "m = ((px - ax) * dx + (py - ay) * dy) / (dx * dx + dy * dy)"
  define t where "t = max 0 (min 1 m)"
  have e: "distToSegment px py (ax, ay) (bx, by') = hypot (px - (ax + t * dx)) (py - (ay + t * dy))"
    by (simp add: distToSegment_def Let_def d t_def m_def)
  have t: "t \<in> {0..1}" by (simp add: t_def)
  then show "\<exists>t\<in>{0..1}. distToSegment px py (ax, ay) (bx, by') = hypot (px - (ax + t * (bx - ax))) (py - (ay + t * (by' - ay)))"
    using e d by blast
  have "0 < dx * dx + dy * dy" using assms by (auto simp: d sum_squares_gt_zero_iff)
  then have n: "0 < dx\<^sup>2 + dy\<^sup>2" by (simp add: power2_eq_square)
  have mm: "m * (dx\<^sup>2 + dy\<^sup>2) = (px - ax) * dx + (py - ay) * dy"
    using n by (simp add: m_def power2_eq_square)
  show "distToSegment px py (ax, ay) (bx, by') \<le> hypot (px - (ax + u * (bx - ax))) (py - (ay + u * (by' - ay)))" if u: "u \<in> {0..1}"
  proof -
    have sq: "(px - (ax + w * dx))\<^sup>2 + (py - (ay + w * dy))\<^sup>2 = (px - ax)\<^sup>2 + (py - ay)\<^sup>2 - 2 * w * (m * (dx\<^sup>2 + dy\<^sup>2)) + w\<^sup>2 * (dx\<^sup>2 + dy\<^sup>2)" for w
      unfolding mm by (simp add: power2_eq_square algebra_simps)
    have near: "(t - m)\<^sup>2 \<le> (u - m)\<^sup>2"
    proof -
      have "\<bar>t - m\<bar> \<le> \<bar>u - m\<bar>" using u by (auto simp: t_def)
      then show ?thesis by (simp add: abs_le_square_iff)
    qed
    have "t\<^sup>2 - 2 * t * m \<le> u\<^sup>2 - 2 * u * m" using near by (simp add: power2_diff)
    then have "(t\<^sup>2 - 2 * t * m) * (dx\<^sup>2 + dy\<^sup>2) \<le> (u\<^sup>2 - 2 * u * m) * (dx\<^sup>2 + dy\<^sup>2)"
      using n by (intro mult_right_mono) simp_all
    then have "(px - (ax + t * dx))\<^sup>2 + (py - (ay + t * dy))\<^sup>2 \<le> (px - (ax + u * dx))\<^sup>2 + (py - (ay + u * dy))\<^sup>2"
      unfolding sq by (simp add: algebra_simps)
    then show ?thesis unfolding e by (simp add: hypot_def d)
  qed
qed

text \<open>On the screen, east right and north up, the drawn arrow turned by \<open>icon-rotate\<close> points away from
  where the wind is reported to come from.
\<close>

lemma arrow_points_downwind:
  fixes fromDeg :: real
  defines "turn \<equiv> icon_rotate (arrowBearing fromDeg) * pi / 180" and "from \<equiv> fromDeg * pi / 180"
  shows "(cos turn, - sin turn) = (- sin from, - cos from)"
proof -
  obtain k :: int where k: "arrowBearing fromDeg = fromDeg + 180 - 360 * of_int k"
    using js_rem_turns [of "fromDeg + 180" 360] by (auto simp: arrowBearing_def)
  have t: "turn = (from + pi / 2) - of_int k * (2 * pi)"
    unfolding turn_def from_def icon_rotate_def k by (simp add: field_simps)
  have "cos turn = cos (from + pi / 2)" "sin turn = sin (from + pi / 2)"
    unfolding t by (simp_all add: cos_diff sin_diff mult.commute [of "of_int k"] cos_int_2pin sin_int_2pin del: mult.assoc)
  then show ?thesis by (simp add: cos_add sin_add)
qed

lemma icon_size_range: "1 / 2 \<le> icon_size speed" "icon_size speed \<le> 10833 / 10000"
  by (auto simp: icon_size_def)

definition arrow_distance :: "nat \<Rightarrow> nat \<Rightarrow> nat \<Rightarrow> real" where
  "arrow_distance sz x y = Min (set (map (\<lambda>(a, b). distToSegment ((real x + 1 / 2) / real sz) ((real y + 1 / 2) / real sz) a b) (SHAFT # HEAD)))"

lemma mixed_between:
  assumes "0 \<le> i" "i \<le> 255" "0 \<le> h" "h \<le> 255" "0 \<le> p" "0 \<le> q" "0 < p + q"
  shows "min i h \<le> uint (mixed_channel (Some i) (Some h) p q) \<and> uint (mixed_channel (Some i) (Some h) p q) \<le> max i h"
proof -
  let ?m = "(of_int i * p + of_int h * q) / (p + q)"
  have "of_int (min i h) * (p + q) \<le> of_int i * p + of_int h * q"
    using assms by (simp add: distrib_left add_mono mult_right_mono)
  then have lo: "of_int (min i h) \<le> ?m" using assms(7) by (simp add: pos_le_divide_eq)
  have "of_int i * p + of_int h * q \<le> of_int (max i h) * (p + q)"
    using assms by (simp add: distrib_left add_mono mult_right_mono)
  then have hi: "?m \<le> of_int (max i h)" using assms(7) by (simp add: pos_divide_le_eq)
  have r: "min i h \<le> math_round ?m" "math_round ?m \<le> max i h"
    using math_round_mono [OF lo] math_round_mono [OF hi] by (simp_all only: math_round_of_int)
  then have "0 \<le> math_round ?m" "math_round ?m \<le> 255" using assms by linarith+
  then show ?thesis using r by (simp add: mixed_channel_def byte_val)
qed

text \<open>The arrow keeps off the readings by its halo and by nothing else: a pixel is wholly clear where the
  three strokes are farther than the halo reaches, wholly and only ink where they pass, and anywhere
  between a mixture of the two colours, never a third, never a byte that wrapped.
\<close>

theorem arrow_is_ink_in_a_halo:
  fixes x y sz :: nat and ink halo :: "int list"
  assumes "0 < sz" and ink: "rgb_channels labelColour = map Some ink" "\<forall>i\<in>set ink. 0 \<le> i \<and> i \<le> 255"
    and halo: "rgb_channels strokeColour = map Some halo" "\<forall>h\<in>set halo. 0 \<le> h \<and> h \<le> 255"
  defines "d \<equiv> arrow_distance sz x y" and "bytes \<equiv> map uint (arrow_pixel labelColour strokeColour sz x y)"
  shows "length bytes = 4 \<and> (HALO_HALF + 1 / (2 * real sz) \<le> d \<longrightarrow> bytes = [0, 0, 0, 0]) \<and>
    (d \<le> STROKE_HALF - 1 / (2 * real sz) \<longrightarrow> bytes = ink @ [255]) \<and>
    (bytes \<noteq> [0, 0, 0, 0] \<longrightarrow> (\<forall>c<3. min (ink ! c) (halo ! c) \<le> bytes ! c \<and> bytes ! c \<le> max (ink ! c) (halo ! c)))"
proof -
  define aa where "aa = 1 / real sz"
  define p where "p = coverage d STROKE_HALF aa"
  define q where "q = coverage d HALO_HALF aa * (1 - p)"
  have aa: "0 < aa" using assms(1) by (simp add: aa_def)
  have p: "0 \<le> p" "p \<le> 1" by (simp_all add: p_def coverage_range)
  have "0 \<le> coverage d HALO_HALF aa * (1 - p)" "coverage d HALO_HALF aa * (1 - p) \<le> 1 * (1 - p)"
    using p coverage_range [of d HALO_HALF aa] by (simp, intro mult_right_mono) simp_all
  then have pq: "0 \<le> q" "p + q \<le> 1" by (simp_all add: q_def)
  have len: "length ink = 3" "length halo = 3"
    using arg_cong [OF ink(1), of length] arg_cong [OF halo(1), of length] by (simp_all add: rgb_channels_def Let_def)
  obtain i0 i1 i2 h0 h1 h2 where l: "ink = [i0, i1, i2]" "halo = [h0, h1, h2]"
    using len by (auto simp: length_Suc_conv eval_nat_numeral)
  have pixel: "arrow_pixel labelColour strokeColour sz x y = (if p + q \<le> 0 then [0, 0, 0, 0]
      else [mixed_channel (Some i0) (Some h0) p q, mixed_channel (Some i1) (Some h1) p q, mixed_channel (Some i2) (Some h2) p q,
        word_of_int (math_round ((p + q) * 255))])"
    unfolding arrow_pixel_def Let_def ink(1) halo(1) l arrow_distance_def [symmetric] d_def [symmetric] aa_def [symmetric]
      p_def [symmetric] q_def [symmetric] by simp
  have far: "p + q = 0" if "HALO_HALF + aa / 2 \<le> d"
  proof -
    have "(HALO_HALF - d) / aa \<le> - 1 / 2" using that aa by (simp add: pos_divide_le_eq)
    then have z: "coverage d HALO_HALF aa = 0" by (simp add: coverage_def)
    then have "p = 0"
      using coverage_mono [of STROKE_HALF HALO_HALF aa d] aa p(1) by (simp add: p_def STROKE_HALF_def HALO_HALF_def)
    then show ?thesis by (simp add: q_def z)
  qed
  have near: "p = 1 \<and> q = 0" if "d \<le> STROKE_HALF - aa / 2"
  proof -
    have h: "1 / 2 \<le> (STROKE_HALF - d) / aa" using that aa by (simp add: pos_le_divide_eq)
    have "p = 1" unfolding p_def coverage_def using h by linarith
    then show ?thesis by (simp add: q_def)
  qed
  have full: "uint (word_of_int (math_round 255) :: byte) = 255" using math_round_of_int [of 255] by simp
  have b: "\<And>i. i \<in> set ink \<Longrightarrow> uint (word_of_int i :: byte) = i" using ink(2) by (simp add: byte_val)
  have "length bytes = 4" by (simp add: bytes_def pixel)
  moreover have "HALO_HALF + 1 / (2 * real sz) \<le> d \<longrightarrow> bytes = [0, 0, 0, 0]"
    using far by (simp add: bytes_def pixel aa_def)
  moreover have "d \<le> STROKE_HALF - 1 / (2 * real sz) \<longrightarrow> bytes = ink @ [255]"
    using near b full by (simp add: bytes_def pixel aa_def l mixed_channel_def)
  moreover have "\<forall>c<3. min (ink ! c) (halo ! c) \<le> bytes ! c \<and> bytes ! c \<le> max (ink ! c) (halo ! c)" if "bytes \<noteq> [0, 0, 0, 0]"
  proof -
    have pos: "0 < p + q" using that by (auto simp: bytes_def pixel split: if_splits)
    have "min i h \<le> uint (mixed_channel (Some i) (Some h) p q) \<and> uint (mixed_channel (Some i) (Some h) p q) \<le> max i h"
      if "i \<in> set ink" "h \<in> set halo" for i h
      using mixed_between [of i h p q] that ink(2) halo(2) p pq pos by blast
    then show ?thesis using pos by (simp add: bytes_def pixel l eval_nat_numeral less_Suc_eq)
  qed
  ultimately show ?thesis by blast
qed

lemma arrow_is_ink_in_a_halo_witness:
  "length (map uint (arrow_pixel ''#fff'' ''#102030'' 48 0 0)) = 4"
proof -
  have "rgb_channels ''#fff'' = map Some [255, 255, 255]" "rgb_channels ''#102030'' = map Some [16, 32, 48]" by code_simp+
  from arrow_is_ink_in_a_halo [of 48, OF _ this(1) _ this(2), of 0 0] show ?thesis by simp
qed

end
