(* ===== verification/Spec2Isabelle.thy ===== *)
theory Spec2Isabelle
  imports View_State Api_Cache Timelapse_Island Province_Table Overlays Freshness Charts Period Axis_Colour Finder Readout_Cards Search_Boxes Chart_Loader Docking Map_Chrome Map_Controls Preferences Sensor_Panel Panel_Menus Map_Layers Map_Clicks Page_Start Settings Key_Drawing Icons
begin

text \<open>
  A verification library for the client of an air-quality map: the JavaScript of
  \<open>web/src/lib\<close> and \<open>web/src/islands\<close>, which fetches readings from the site's own API, keeps
  the address bar, the storage and the shared filters in step, and draws a map of area markers,
  sensors and hexagonal cells with a legend, a table and an animation.

  \<^bold>\<open>How the program is put together.\<close> A page is rendered by the server; small islands are
  mounted on it. The map island owns the data: \<open>mapdata.js\<close> picks a tier from the zoom, asks
  \<open>api.js\<close> for it (which shares and caches requests), publishes sensors to the registry
  (\<open>sensors.svelte.js\<close>) that the panel and the count line read, and turns bodies into features
  through \<open>stations.js\<close>, \<open>mapfeatures.js\<close>, \<open>hexes.js\<close> and \<open>ramp.js\<close>. The filters, the metric
  and the open sensor live in module stores; \<open>viewstate.svelte.js\<close> mirrors the last two and the
  networks into the URL hash. The timelapse replaces the live grid while it plays.

  \<^bold>\<open>Theories, source files, and what is shown.\<close>
  \<^item> \<open>Js_Prelude\<close>, \<open>Url_Params\<close>: JavaScript's numbers, values, strings, stable sort and ordered
    maps; URLSearchParams and percent encoding, with parse after print.
  \<^item> \<open>Storage\<close> (\<open>storage.js\<close>): the legacy-key wrapper over a browser storage that may throw. The
    locale \<open>kv_store\<close> states what its users rely on, \<open>stored_preference\<close> extends it with a
    spelling; \<open>ls\<close>, \<open>flag\<close> and \<open>window_pref\<close> (in \<open>Map_Window\<close>) interpret them, as do \<open>favourite_pref\<close>, \<open>saved_view\<close>, \<open>layer_choices\<close>, \<open>legend_fold\<close> and \<open>theme_pref\<close>.
  \<^item> \<open>Filters\<close> (\<open>sourcefilter\<close>, \<open>sensorfilter\<close>, \<open>faultyfilter\<close>): three observable values; the
    locale \<open>observable\<close> is interpreted on each setter.
  \<^item> \<open>View_State\<close> (\<open>viewstate.js\<close>, \<open>viewstate.svelte.js\<close>): parsing and printing of the hash, the
    store, the history stack and the \<open>writing\<close> flag. The hash round trip, store and hash in step
    over any run, Back after opening a sensor, a refused history write.
  \<^item> \<open>Api_Cache\<close> (\<open>api.js\<close>): a step function over the module's cache, in-flight map, entries,
    callers and signals, each promise callback an event; \<open>api_reach\<close> is its reachability. One
    request per URL, freshness of the cache across \<open>clearCache\<close>, bounded retry, aborts, answers.
  \<^item> \<open>Ramp\<close>, \<open>Scales\<close> (\<open>ramp.js\<close>, \<open>legend.js\<close>, \<open>scaleinfo.js\<close>, \<open>gauge.js\<close>, \<open>mappaint.js\<close>,
    \<open>metrics.js\<close>, \<open>hexrise.js\<close>): a reading's place and colour, the legend's edges, the gauge and
    the machine of the rising columns. The locale \<open>scale_axis\<close> states what an axis is and is
    interpreted on the ramp and on the gauge.
  \<^item> \<open>Hexes\<close> (\<open>hexes.js\<close>): tiers by zoom, the snapped request box, polygons, the lattice that
    merges devices, the blend of networks, features.
  \<^item> \<open>Timelapse\<close>, \<open>Timelapse_Island\<close> (\<open>timelapse.js\<close>, \<open>timelapse-island.js\<close>): the frames and
    the player; \<open>tl_step\<close> is an inductive step relation over the closure's state, with loads in
    flight and the clock.
  \<^item> \<open>Stations\<close>, \<open>Area_Stats\<close> (\<open>stations.js\<close>, \<open>sensors.svelte.js\<close>, \<open>mapfeatures.js\<close>,
    \<open>sensorcount.js\<close>, \<open>areastats.js\<close>, \<open>nearest.js\<close>, \<open>sensorview.js\<close>): stations out of columnar
    rows, and what is said about them.
  \<^item> \<open>Map_Window\<close>, \<open>Map_Data\<close> (\<open>mapwindow.js\<close>, \<open>tier.js\<close>, \<open>mapdata.js\<close>, the data handlers of
    \<open>mapload.js\<close> and \<open>islands/map.js\<close>): the averaging window, and the loaders as a machine whose
    answers land in any order. Which addresses are ever asked for; that the deduplication skips
    only what is already drawn; and the orders of answers under which the map goes wrong.
  \<^item> \<open>Province_Table\<close> (\<open>table.js\<close>, \<open>islands/table.js\<close>): sorting, paging, the column menu, and
    what the reader sees.
  \<^item> \<open>Json\<close>: JSON.parse and JSON.stringify on the values the code keeps, parse after print.
  \<^item> \<open>Opening\<close> (\<open>lastview.js\<close>, \<open>favourite.js\<close>, \<open>favourite.svelte.js\<close>, \<open>locatehint.js\<close>,
    \<open>locate.js\<close>, \<open>placement.js\<close>): what the map opens on. The precedence of link, favourite,
    saved view and the server's guess, in time or late, as a specification that \<open>open_map\<close> refines; the saved view and
    the favourite over their storage; two orders in which the wrong place is opened or saved.
  \<^item> \<open>Layers_Menu\<close> (\<open>maplayers.js\<close>, \<open>mapstyle.js\<close>, \<open>layerViews\<close> of \<open>chrome.js\<close>): the boxes,
    what is remembered, and the menu of a loaded page with the vector style that answers after it was built.
  \<^item> \<open>Wind_Field\<close>, \<open>Overlays\<close> (\<open>islands/wind.js\<close>, \<open>windstreaks.js\<close>, \<open>mapwind.js\<close>,
    \<open>boundaries.js\<close>, \<open>mapboundaries.js\<close>): the arrows and the streaks' vector grid; loading and
    toggling of the two fetched overlays, as calls that await. The locale \<open>settling_overlay\<close> states
    what a box needs of its overlay, interpreted on both.
  \<^item> \<open>Freshness\<close> (\<open>freshness.js\<close>, \<open>freshness.svelte.js\<close>): rounds of reloads, the interval, the
    line; \<open>fresh_reachable\<close> is its reachability.
  \<^item> \<open>Charts\<close> (\<open>series.js\<close>, \<open>timeaxis.js\<close>, \<open>nearby.js\<close>, \<open>visitors.js\<close>),
    \<open>Period\<close> (\<open>period.js\<close>), \<open>Axis_Colour\<close> (\<open>axiscolour.js\<close>): what a chart asks for and draws.
    Several series on one axis, the label each tick gets, the window of a custom range with the
    calendar behind \<open>toISOString\<close>, and a stroke that can be read on its background.
  \<^item> \<open>Finder\<close> (\<open>find.js\<close>, \<open>mapareas.svelte.js\<close>): matching an area by name, what Enter may open.
  \<^item> \<open>Readout_Cards\<close> (\<open>areacards.js\<close>, \<open>readoutLabel.js\<close>, \<open>islands/readouts.svelte.js\<close>): the row of
    cards an open sensor puts above the page's own.
  \<^item> \<open>Search_Boxes\<close> (\<open>AreaFind.svelte\<close>, \<open>TableView.svelte\<close>, \<open>menu.js\<close>): the two search boxes as machines
    over the reader's events; what Enter may open, and the one handler that can throw.
  \<^item> \<open>Chart_Loader\<close> (\<open>Chart.svelte\<close>, \<open>SensorChart.svelte\<close>, \<open>ChartPanel.svelte\<close>, \<open>MetricPicker.svelte\<close>): requests
    that settle in any order under sources that change, and the axes of what is drawn.
  \<^item> \<open>Docking\<close> (\<open>sidedock.svelte.js\<close>, \<open>sensorsheet.svelte.js\<close>, \<open>panelstar.js\<close>, the fullscreen control of
    \<open>mapcontrols.js\<close> and its \<open>onChange\<close> in \<open>chrome.js\<close>): where the open sensor's readings stand. A function of
    what each holder holds (\<open>holds\<close>) is the abstraction the handlers are shown to act on.
  \<^item> \<open>Map_Chrome\<close> (\<open>chrome.js\<close>, \<open>mountLayers\<close> of \<open>maplayers.js\<close>): the colour key and the layers list that fold
    each other, under \<open>toggle\<close> events that arrive late and coalesced; what the browser remembers of the
    key; one press that does the opposite of what it was for.
  \<^item> \<open>Map_Controls\<close> (\<open>mapcontrols.js\<close>): the zoom stack and the compass over a camera about which nothing is assumed.
  \<^item> \<open>Preferences\<close> (\<open>theme.js\<close>, \<open>theme-init.js\<close>, \<open>clearsettings.js\<close>, \<open>disclosure.js\<close>): the theme from pick to next
    page, clearing what is listed and nothing else, through the laws of \<open>kv_store\<close>.
  \<^item> \<open>Sensor_Panel\<close> (\<open>islands/panel.js\<close>, \<open>panelscroll.js\<close>, \<open>panelwatch.svelte.js\<close>, \<open>relativeage.js\<close>): one chart per
    opening, failures named once, the way to the card and back. \<open>Panel_Menus\<close> (\<open>PanelMoreMenu.svelte\<close>,
    \<open>NearbyPicker.svelte\<close>, \<open>MetricMenu.svelte\<close>, \<open>menu.js\<close>): the pop-ups as machines over keys and presses.
  \<^item> \<open>Map_Layers\<close> (\<open>mapload.js\<close>, \<open>mappaint.js\<close>): the layer stack as data; what draws a feature at a zoom, after any
    order of choices, refreshes and a late vector style. \<open>Map_Clicks\<close> (\<open>islands/map.js\<close>): all handlers of one
    press in their order, over hits the renderer reports; the hovered cell.
  \<^item> \<open>Page_Start\<close> (\<open>main.js\<close>): the islands found on a page, mounted once and each on its own, after the first
    paint or its time limit; what \<open>mapstyle.js\<close> does once per page. \<open>Page_Config\<close> (\<open>mapconfig.js\<close>): the map's
    configuration read off the element's attributes. \<open>Settings\<close> (\<open>storage-keys.json\<close>, \<open>storagekeys.go\<close>): after
    the published list is cleared every stored preference reads as on a first visit.
  \<^item> \<open>Key_Drawing\<close> (\<open>legend.js\<close>, \<open>scaledialog.js\<close>, \<open>showLegend\<close> of \<open>chrome.js\<close>): the elements of the colour key and of
    its dialog, after any repaints. \<open>Icons\<close> (\<open>markericon.js\<close>, \<open>islands/wind.js\<close>): the two generated images,
    byte by byte, on exact reals.

  \<^bold>\<open>Modelling decisions.\<close> A finite double is the real number it denotes; NaN and the infinities are
  kept apart and every comparison with them is exact, rounding error is not modelled. Strings are
  UTF-8 bytes. Objects are records where the code fixes their shape and \<^typ>\<open>jsval\<close> where they are
  payload; a missing property is \<open>undefined\<close>. A thrown error is a value of a sum type. A callback
  of a settled promise runs as one event; between events anything may happen. Loops that need it
  have a termination proof (\<open>catch_up\<close> of the player's clock, \<open>widen\<close> of the wind's grid); the two
  searches over zoom levels in \<open>Hexes\<close> are \<open>while\<close> loops that are shown to stop at the zooms
  they name. No definition is bounded by fuel.

  \<^bold>\<open>Not modelled.\<close> The elements, classes and SVG the modules build; MapLibre itself (sources, layers
  and camera are what the handlers set); the markup of the Svelte components; \<open>Intl\<close> formatters and
  \<open>localeCompare\<close>, which are arguments; the Go server, whose answers are arguments; the vendored
  libraries and the design-kit prototype, which the site does not run. Numbers are printed as
  JSON only with up to 17 decimals and below 1e21; dates are parsed in the one format the server
  writes. The frame loop and the random particles of the streaks, the import of the streaks that fails, and
  the debounce timers other than that of the saved view are left out. The plotting library and
  the mounting of a chart, and the locale's number and date formats, are arguments or left out; a
  custom range is stated for years up to 9999, and a wall clock hour that summer time repeats or
  skips only through the zone's own functions; \<open>replaceAll\<close> is modelled for values without a dollar
  sign. The chart's copy in the dock, the focus and the measured heights are left out.
\<close>

end
